(* ===== verification/Prelude68.thy ===== *)
theory Prelude68
  imports Main "HOL-Library.Word" "HOL-Library.Signed_Division"
begin

text \<open>
  Shared vocabulary of the development: the machine integer types of
  \<open>emu68/type68.h\<close>, the conversions the C code performs between them, and the
  \<^emph>\<open>normalised\<close> operands of \<open>emu68/emu68_private.h\<close> (a byte, word or long
  moved to the top of an \<open>int68_t\<close>) with the word lemmas every component uses.

  \<open>int68_t\<close> is \<open>int_fast32_t\<close>, which is 64 bits wide with glibc on a 64-bit
  machine; \<open>INT68_BITS\<close> is left undefined by the build.  All theories fix that width.
\<close>

unbundle bit_operations_syntax

named_theorems frame_intros
  \<open>introduction rules: an operation preserves the machine frame\<close>

named_theorems size_simps
  \<open>equations of the size indexed constants of emu68_private.h\<close>

section \<open>Integer types\<close>

type_synonym u8 = "8 word"
type_synonym u16 = "16 word"
type_synonym s32 = "32 word"
type_synonym int68 = "64 word"

text \<open>\<open>(s8) x\<close>, \<open>(s16) x\<close>, \<open>(s32) x\<close> and \<open>(u8) x\<close>, \<open>(u16) x\<close>, \<open>(u32) x\<close> followed by
  the conversion back to \<open>int68_t\<close>.\<close>

abbreviation s8_of :: "int68 \<Rightarrow> int68" where
  "s8_of x \<equiv> scast (ucast x :: 8 word)"

abbreviation s16_of :: "int68 \<Rightarrow> int68" where
  "s16_of x \<equiv> scast (ucast x :: 16 word)"

abbreviation s32_of :: "int68 \<Rightarrow> int68" where
  "s32_of x \<equiv> scast (ucast x :: 32 word)"

abbreviation u8_of :: "int68 \<Rightarrow> int68" where
  "u8_of x \<equiv> ucast (ucast x :: 8 word)"

abbreviation u16_of :: "int68 \<Rightarrow> int68" where
  "u16_of x \<equiv> ucast (ucast x :: 16 word)"

abbreviation u32_of :: "int68 \<Rightarrow> int68" where
  "u32_of x \<equiv> ucast (ucast x :: 32 word)"

text \<open>A 32-bit \<open>int\<close> or \<open>s32\<close> read as \<open>int68_t\<close>, and the assignment of an
  \<open>int68_t\<close> to one.\<close>

abbreviation sx :: "s32 \<Rightarrow> int68" where
  "sx x \<equiv> scast x"

abbreviation lo32 :: "int68 \<Rightarrow> s32" where
  "lo32 x \<equiv> ucast x"

text \<open>\<open>!x\<close> and a comparison as an integer.\<close>

definition c_not :: "int68 \<Rightarrow> int68" where
  "c_not x = (if x = 0 then 1 else 0)"

section \<open>Conversions between the integer types\<close>

lemma ucast_scast_low:
  fixes x :: "'c::len word"
  assumes "LENGTH('a) \<le> LENGTH('b)" "LENGTH('a) \<le> LENGTH('c)"
  shows "ucast (scast x :: 'b::len word) = (ucast x :: 'a::len word)"
proof (rule bit_word_eqI)
  fix n assume n: "n < LENGTH('a)"
  have "0 < LENGTH('c)" by simp
  then show "bit (ucast (scast x :: 'b word) :: 'a word) n = bit (ucast x :: 'a word) n"
    using assms n by (cases "n = LENGTH('c) - 1") (auto simp: bit_simps min_def)
qed

lemma ucast_ucast_low:
  "LENGTH('a) \<le> LENGTH('b) \<Longrightarrow>
    ucast (ucast (x :: 'c::len word) :: 'b::len word) = (ucast x :: 'a::len word)"
  by (rule bit_word_eqI) (auto simp: bit_simps)

lemma cast_roundtrips [simp]:
  "lo32 (sx x) = x" "(ucast (sx x) :: u16) = ucast x" "(ucast (sx x) :: u8) = ucast x"
  "lo32 (ucast x) = x" "(ucast (ucast x :: int68) :: u16) = ucast x"
  "(ucast (ucast x :: int68) :: u8) = ucast x"
  "(ucast (ucast b :: int68) :: u8) = b" "(ucast (ucast w :: int68) :: u16) = w"
  "(ucast (scast b :: int68) :: u8) = b" "(ucast (scast w :: int68) :: u16) = w"
  "(ucast (ucast v :: u16) :: u8) = ucast (v :: int68)"
  "(ucast (ucast v :: s32) :: u16) = ucast v" "(ucast (ucast v :: s32) :: u8) = ucast v"
  for x :: s32 and b :: u8 and w :: u16
  by (simp_all add: ucast_scast_low ucast_ucast_low)

text \<open>A sum of operands with no common bit is their union; big-endian words and longs.\<close>

lemma add_or_disj: "(\<And>n. bit a n \<Longrightarrow> \<not> bit b n) \<Longrightarrow> a + b = a OR (b :: 'a::len word)"
  by (rule disjunctive_add_eq_or) (auto intro!: bit_word_eqI simp: bit_simps)

lemma be16_or:
  "push_bit 8 (ucast a) + ucast b = (push_bit 8 (ucast a) OR ucast b :: int68)" for a b :: u8
  by (rule add_or_disj) (auto simp: bit_simps dest: bit_imp_le_length)

lemma be32_or:
  "push_bit 24 (ucast a) + push_bit 16 (ucast b) + push_bit 8 (ucast c) + ucast d =
   (push_bit 24 (ucast a) OR push_bit 16 (ucast b) OR push_bit 8 (ucast c) OR ucast d :: s32)"
  for a b c d :: u8
  by (subst add_or_disj, (auto simp: bit_simps dest: bit_imp_le_length)[1])+
     (simp add: or.assoc)

lemma be16_split:
  "push_bit 8 (ucast (ucast (signed_drop_bit 8 v) :: u8)) OR ucast (ucast v :: u8) = u16_of v"
  by (rule bit_word_eqI) (auto simp: bit_simps)

lemma be32_split:
  "push_bit 24 (ucast (ucast (signed_drop_bit 24 v) :: u8)) OR
   push_bit 16 (ucast (ucast (signed_drop_bit 16 v) :: u8)) OR
   push_bit 8 (ucast (ucast (signed_drop_bit 8 v) :: u8)) OR ucast (ucast v :: u8) = lo32 v"
proof (rule bit_word_eqI, goal_cases)
  case (1 n)
  then consider "n < 8" | "8 \<le> n" "n < 16" | "16 \<le> n" "n < 24" | "24 \<le> n" "n < 32"
    by fastforce
  then show ?case by cases (auto simp: bit_simps)
qed

section \<open>Operand sizes\<close>

datatype size68 = SzB | SzW | SzL

instantiation size68 :: linorder
begin

fun size68_rank :: "size68 \<Rightarrow> nat" where
  "size68_rank SzB = 0"
| "size68_rank SzW = 1"
| "size68_rank SzL = 2"

definition less_eq_size68 :: "size68 \<Rightarrow> size68 \<Rightarrow> bool" where
  "less_eq_size68 a b \<longleftrightarrow> size68_rank a \<le> size68_rank b"

definition less_size68 :: "size68 \<Rightarrow> size68 \<Rightarrow> bool" where
  "less_size68 a b \<longleftrightarrow> size68_rank a < size68_rank b"

instance
proof
  fix x y z :: size68
  show "(x < y) = (x \<le> y \<and> \<not> y \<le> x)"
    by (auto simp: less_eq_size68_def less_size68_def)
  show "x \<le> x" by (simp add: less_eq_size68_def)
  show "x \<le> y \<Longrightarrow> y \<le> z \<Longrightarrow> x \<le> z" by (simp add: less_eq_size68_def)
  show "x \<le> y \<Longrightarrow> y \<le> x \<Longrightarrow> x = y"
    by (cases x; cases y) (simp_all add: less_eq_size68_def)
  show "x \<le> y \<or> y \<le> x" by (auto simp: less_eq_size68_def)
qed

end

text \<open>\<open>BYTE_FIX\<close>, \<open>WORD_FIX\<close>, \<open>LONG_FIX\<close>; \<open>BYTE_MSK\<close>, \<open>WORD_MSK\<close>, \<open>LONG_MSK\<close>;
  \<open>NRM_BYTE_MSK\<close> and its kin; the size in bytes.\<close>

fun fix68 :: "size68 \<Rightarrow> nat" where
  "fix68 SzB = 56"
| "fix68 SzW = 48"
| "fix68 SzL = 32"

fun msk68 :: "size68 \<Rightarrow> int68" where
  "msk68 SzB = 0xFFFFFF00"
| "msk68 SzW = 0xFFFF0000"
| "msk68 SzL = 0"

fun nrm_msk68 :: "size68 \<Rightarrow> int68" where
  "nrm_msk68 SzB = push_bit 56 0xFF"
| "nrm_msk68 SzW = push_bit 48 0xFFFF"
| "nrm_msk68 SzL = push_bit 32 0xFFFFFFFF"

fun bytes68 :: "size68 \<Rightarrow> nat" where
  "bytes68 SzB = 1"
| "bytes68 SzW = 2"
| "bytes68 SzL = 4"

declare fix68.simps [size_simps] msk68.simps [size_simps]
  nrm_msk68.simps [size_simps] bytes68.simps [size_simps]

section \<open>Sign bits\<close>

definition neg_w :: "'a::len word \<Rightarrow> bool" where
  "neg_w x \<longleftrightarrow> bit x (LENGTH('a) - 1)"

lemma neg_w_sint: "neg_w x \<longleftrightarrow> sint x < 0"
  by (simp add: neg_w_def) (metis One_nat_def bit_last_iff)

lemma div_half:
  fixes a h :: int
  assumes "0 \<le> a" and "a < 2 * h"
  shows "a div h = (if h \<le> a then 1 else 0)"
proof (cases "h \<le> a")
  case True
  then show ?thesis using assms int_div_pos_eq [of a h 1 "a - h"] by simp
next
  case False
  then show ?thesis using assms by (simp add: div_pos_pos_trivial)
qed

lemma uint_half:
  shows "2 ^ LENGTH('a::len) = 2 * (2 :: int) ^ (LENGTH('a) - 1)"
    and "uint (x :: 'a::len word) < 2 * 2 ^ (LENGTH('a) - 1)"
proof -
  show eq: "2 ^ LENGTH('a) = 2 * (2 :: int) ^ (LENGTH('a) - 1)"
    by (simp flip: power_Suc)
  show "uint x < 2 * 2 ^ (LENGTH('a) - 1)"
    using uint_lt2p [of x] unfolding eq .
qed

lemma neg_w_uint: "neg_w (x :: 'a::len word) \<longleftrightarrow> 2 ^ (LENGTH('a) - 1) \<le> uint x"
proof -
  note lt = uint_half(2) [of x]
  have "bit x (LENGTH('a) - 1) \<longleftrightarrow> odd (uint x div 2 ^ (LENGTH('a) - 1))"
    using bit_uint_iff [of x "LENGTH('a) - 1"] by (simp flip: bit_iff_odd)
  also have "uint x div 2 ^ (LENGTH('a) - 1) = (if 2 ^ (LENGTH('a) - 1) \<le> uint x then 1 else 0)"
    using lt by (intro div_half) simp_all
  finally show ?thesis by (simp add: neg_w_def)
qed

lemma sint_uint_neg:
  "sint (x :: 'a::len word) = uint x - (if neg_w x then 2 ^ LENGTH('a) else 0)"
proof -
  have "sint x = signed_take_bit (LENGTH('a) - 1) (uint x)"
    by (simp add: sint_uint)
  then show ?thesis
    by (simp add: signed_take_bit_eq_take_bit_minus neg_w_def bit_uint_iff
        take_bit_int_eq_self uint_lt2p)
qed

lemma asr63: "signed_drop_bit 63 (x :: int68) = (if neg_w x then -1 else 0)"
  by (rule bit_word_eqI) (auto simp: bit_simps neg_w_def not_le)

lemma lsr63: "drop_bit 63 (x :: int68) = (if neg_w x then 1 else 0)"
proof (rule bit_word_eqI)
  fix n assume "n < LENGTH(64)"
  have "bit x (63 + n) \<Longrightarrow> n = 0"
    using bit_imp_le_length [of x "63 + n"] by simp
  then show "bit (drop_bit 63 x) n = bit (if neg_w x then 1 else 0 :: int68) n"
    by (auto simp: bit_simps neg_w_def bit_1_iff)
qed

section \<open>Normalised operands\<close>

text \<open>
  \<open>nrm a\<close> is the operand \<open>a\<close> in the top bits of an \<open>int68_t\<close>: what
  \<open>(int68_t) v << BYTE_FIX\<close> (or \<open>WORD_FIX\<close>, \<open>LONG_FIX\<close>) yields.  The laws say that the
  ring operations, the bitwise operations and the sign test of an \<open>int68_t\<close> act on
  normalised operands as they do on the operands themselves.
\<close>

definition nrm :: "'a::len word \<Rightarrow> int68" where
  "nrm a = push_bit (64 - LENGTH('a)) (ucast a)"

text \<open>The operand sizes that exist: at most 32 bits.\<close>

abbreviation op_size :: "'a::len itself \<Rightarrow> bool" where
  "op_size (_ :: 'a itself) \<equiv> LENGTH('a) \<le> 32"

lemma fix_le63 [simp]: "64 - LENGTH('a::len) \<le> (63 :: nat)"
  using len_gt_0 [where 'a = 'a] by linarith

lemma bit_nrm:
  "LENGTH('a) \<le> 64 \<Longrightarrow>
    bit (nrm (a :: 'a::len word)) n \<longleftrightarrow> 64 - LENGTH('a) \<le> n \<and> bit a (n - (64 - LENGTH('a)))"
  by (auto simp: nrm_def bit_simps dest: bit_imp_le_length)

lemma nrm_ucast:
  "LENGTH('a) \<le> 64 \<Longrightarrow> nrm (ucast w :: 'a::len word) = push_bit (64 - LENGTH('a)) (w :: int68)"
  by (rule bit_word_eqI) (auto simp: bit_nrm bit_simps)

lemma nrm_of_int:
  assumes "LENGTH('a) \<le> 64"
  shows "nrm (word_of_int k :: 'a::len word) = word_of_int (push_bit (64 - LENGTH('a)) k)"
  using assms by (intro bit_word_eqI) (auto simp: bit_nrm bit_simps)

lemma nrm_plus:
  assumes "LENGTH('a) \<le> 64"
  shows "nrm (a + b :: 'a::len word) = nrm a + nrm b"
proof -
  have "nrm (word_of_int (uint a + uint b) :: 'a word) =
      nrm (word_of_int (uint a) :: 'a word) + nrm (word_of_int (uint b) :: 'a word)"
    by (simp only: nrm_of_int [OF assms] push_bit_add wi_hom_add)
  then show ?thesis by (simp flip: wi_hom_add)
qed

lemma nrm_minus:
  assumes "LENGTH('a) \<le> 64"
  shows "nrm (a - b :: 'a::len word) = nrm a - nrm b"
proof -
  have "nrm a = nrm (a - b) + nrm b"
    using nrm_plus [OF assms, of "a - b" b] by simp
  then show ?thesis by simp
qed

lemma nrm_zero [simp]: "nrm (0 :: 'a::len word) = 0"
  by (simp add: nrm_def)

lemma nrm_uminus: "LENGTH('a) \<le> 64 \<Longrightarrow> nrm (- a :: 'a::len word) = - nrm a"
  using nrm_minus [of 0 a] by simp

lemma nrm_bits:
  fixes a b :: "'a::len word"
  assumes "LENGTH('a) \<le> 64"
  shows nrm_and: "nrm (a AND b) = nrm a AND nrm b"
    and nrm_or: "nrm (a OR b) = nrm a OR nrm b"
    and nrm_xor: "nrm (a XOR b) = nrm a XOR nrm b"
  using assms by (auto intro!: bit_word_eqI simp: bit_nrm bit_simps)

lemma nrm_inject:
  assumes "LENGTH('a) \<le> 64"
  shows "nrm a = nrm b \<longleftrightarrow> a = (b :: 'a::len word)"
proof
  assume eq: "nrm a = nrm b"
  show "a = b"
  proof (rule bit_word_eqI)
    fix n assume n: "n < LENGTH('a)"
    have "bit (nrm a) (n + (64 - LENGTH('a))) = bit (nrm b) (n + (64 - LENGTH('a)))"
      by (simp only: eq)
    then show "bit a n = bit b n" using assms by (simp add: bit_nrm le_diff_conv2)
  qed
qed simp

lemma nrm_eq_0: "LENGTH('a) \<le> 64 \<Longrightarrow> nrm a = 0 \<longleftrightarrow> a = (0 :: 'a::len word)"
  using nrm_inject [of a 0] by (simp add: nrm_zero)

lemma neg_nrm: "LENGTH('a) \<le> 64 \<Longrightarrow> neg_w (nrm (a :: 'a::len word)) = neg_w a"
  by (simp add: neg_w_def bit_nrm)

lemma drop_nrm:
  fixes a :: "'a::len word"
  assumes "LENGTH('a) \<le> 64"
  shows "drop_bit (64 - LENGTH('a)) (nrm a) = ucast a"
  using assms by (intro bit_word_eqI) (auto simp: bit_nrm bit_simps dest: bit_imp_le_length)

lemma asr_nrm:
  fixes a :: "'a::len word"
  assumes "LENGTH('a) \<le> 64"
  shows "signed_drop_bit (64 - LENGTH('a)) (nrm a) = scast a"
proof (rule bit_word_eqI)
  fix n assume n: "n < LENGTH(64)"
  have l: "0 < LENGTH('a)" by simp
  show "bit (signed_drop_bit (64 - LENGTH('a)) (nrm a)) n = bit (scast a :: int68) n"
  proof (cases "n < LENGTH('a)")
    case True
    then have "64 - LENGTH('a) + n < 64" using assms by simp
    then show ?thesis using True assms n l
      by (cases "n = LENGTH('a) - 1") (auto simp: bit_nrm bit_simps min_def)
  next
    case False
    then show ?thesis using assms n l
      by (auto simp: bit_nrm bit_simps min_def not_less dest: bit_imp_le_length)
  qed
qed

section \<open>Bits of converted and normalised words\<close>

lemma sx_and: "sx (x AND y) = sx x AND sx y" by (rule bit_word_eqI) (auto simp: bit_simps)

lemma lo32_or: "lo32 (a OR b) = lo32 a OR lo32 b" 
  by (rule bit_word_eqI) (auto simp: bit_simps)

lemma lo32_and: "lo32 (a AND b) = lo32 a AND lo32 b" 
  by (rule bit_word_eqI) (auto simp: bit_simps)

lemma lo32_of_int: "lo32 (word_of_int k) = word_of_int k"
  by (rule bit_word_eqI) (auto simp: bit_simps)

lemma lo32_add: "lo32 (a + b) = lo32 a + lo32 b"
proof -
  have "lo32 (word_of_int (uint a) + word_of_int (uint b)) =
      lo32 (word_of_int (uint a)) + lo32 (word_of_int (uint b))"
    by (simp only: wi_hom_add lo32_of_int)
  then show ?thesis by simp
qed

lemma lo32_m1 [simp]: "lo32 (- 1) = - 1"
  by (rule bit_word_eqI) (simp add: bit_simps)

lemma neg_w_0 [simp]: "\<not> neg_w 0" by (simp add: neg_w_def)

lemma neg_w_bitops:
  "neg_w (a AND b) \<longleftrightarrow> neg_w a \<and> neg_w b" "neg_w (a OR b) \<longleftrightarrow> neg_w a \<or> neg_w b"
  "neg_w (a XOR b) \<longleftrightarrow> neg_w a \<noteq> neg_w b" "neg_w (NOT a) \<longleftrightarrow> \<not> neg_w a"
  by (auto simp: neg_w_def bit_simps)

lemma bit_8: "bit (8 :: int) n \<longleftrightarrow> n = 3" "bit (8 :: nat) n \<longleftrightarrow> n = 3"
proof -
  have "(8 :: int) = push_bit 3 1" by simp
  then show i: "bit (8 :: int) n \<longleftrightarrow> n = 3"
    by (simp only: bit_push_bit_iff) (auto simp: bit_1_iff)
  have "(8 :: int) = of_nat 8" by simp
  then have "bit (of_nat 8 :: int) n \<longleftrightarrow> n = 3" using i by simp
  then show "bit (8 :: nat) n \<longleftrightarrow> n = 3" by (simp only: bit_of_nat_iff_bit)
qed

lemma sint_eq_iff: "x = y \<longleftrightarrow> sint x = sint (y :: 'a::len word)"
  by (auto intro: signed_word_eqI)

lemma wi_push: "push_bit n (word_of_int k) = (word_of_int (push_bit n k) :: 'a::len word)"
  by (rule bit_word_eqI) (auto simp: bit_simps)

lemma u16_of_int: "u16_of (word_of_int k) = word_of_int (take_bit 16 k)"
  by (rule bit_word_eqI) (auto simp: bit_simps)

lemma s16_of_int: "s16_of (word_of_int k) = word_of_int (signed_take_bit 15 k)"
  by (rule bit_word_eqI) (auto simp: bit_simps)

lemma pack16: "0 \<le> q \<Longrightarrow> q < 2 ^ 16 \<Longrightarrow> q OR push_bit 16 r = r * 2 ^ 16 + (q :: int)"
proof -
  assume "0 \<le> q" "q < 2 ^ 16"
  then have "take_bit 16 q = q" by (simp add: take_bit_int_eq_self)
  then have "bit q n \<Longrightarrow> n < 16" for n by (metis bit_take_bit_iff)
  then have "q AND push_bit 16 r = 0"
    by (auto intro!: bit_eqI simp: bit_simps) (meson not_less)
  then have "q + push_bit 16 r = q OR push_bit 16 r"
    by (rule disjunctive_add_eq_or)
  then show ?thesis by (simp add: push_bit_eq_mult)
qed

lemma abs_sdiv_le: "l \<noteq> 0 \<Longrightarrow> \<bar>k sdiv l\<bar> \<le> \<bar>k :: int\<bar>"
proof -
  assume l: "l \<noteq> 0"
  have "\<bar>k\<bar> div \<bar>l\<bar> \<le> \<bar>k\<bar>" using l zdiv_mono2 [of "\<bar>k\<bar>" 1 "\<bar>l\<bar>"] by simp
  moreover have "\<bar>k sdiv l\<bar> = \<bar>k\<bar> div \<bar>l\<bar>"
    using l by (auto simp: signed_divide_int_def abs_mult sgn_if pos_imp_zdiv_nonneg_iff)
  ultimately show ?thesis by simp
qed

lemma asr_sign: "LENGTH('a) \<le> 64 \<Longrightarrow> signed_drop_bit 63 (nrm (a :: 'a::len word)) = (if neg_w a then -1 else 0)"
  by (simp add: asr63 neg_nrm)

lemma c_not_nrm: "LENGTH('a) \<le> 64 \<Longrightarrow> c_not (nrm (a :: 'a::len word)) = (if a = 0 then 1 else 0)"
  by (simp add: c_not_def nrm_eq_0)

lemma nrm_add3: "LENGTH('a) \<le> 64 \<Longrightarrow> 
  nrm x + (nrm a + nrm b) = nrm (b + a + x)" for a b x :: "'a::len word"
  by (simp add: nrm_plus algebra_simps)

lemma nrm_sub3: "LENGTH('a) \<le> 64 \<Longrightarrow> 
  nrm b - nrm a - nrm x = nrm (b - a - x)" for a b x :: "'a::len word"
  by (simp add: nrm_minus)

lemma nrm32_of_int: "nrm (word_of_int k :: s32) = word_of_int (push_bit 32 k)"
  using nrm_of_int [where 'a = 32, of k] by simp

lemma nrm_scast32: "push_bit 32 (scast b) = nrm (b :: s32)"
  by (rule bit_word_eqI) (auto simp: bit_simps bit_nrm)

lemma sign_to_N:
  "signed_drop_bit 60 x AND 8 = (if neg_w x then 8 else 0)" for x :: int68
  by (rule bit_word_eqI) (auto simp: bit_simps bit_8 neg_w_def)

lemma word_and_1_of_bool: "x AND 1 = of_bool (bit (x :: 'a::len word) 0)"
  by (rule bit_word_eqI) (auto simp: bit_simps bit_1_iff)

lemma neg_w_m1 [simp]: "neg_w (- 1)" by (simp add: neg_w_def)

lemma nrm_push: "LENGTH('a) \<le> 64 \<Longrightarrow> push_bit n (nrm (a :: 'a::len word)) = nrm (push_bit n a)"
  by (rule bit_word_eqI) (auto simp: bit_nrm bit_simps add.commute le_diff_conv2)

lemma sint_nrm:
  assumes "LENGTH('a) \<le> 64"
  shows "sint (nrm (a :: 'a::len word)) = sint a * 2 ^ (64 - LENGTH('a))"
proof -
  have "sint (nrm a) = push_bit (64 - LENGTH('a)) (sint a)"
    using assms len_gt_0 [where 'a = 'a]
    by (intro bit_eqI) (auto simp: bit_simps bit_nrm min_def not_le intro: order.trans [OF fix_le63])
  then show ?thesis by (simp add: push_bit_eq_mult)
qed

lemma and_1_flag: "- (x AND 1) = (if bit (x :: int68) 0 then -1 else 0)"
  by (cases "bit x 0") (simp_all add: and_one_eq odd_iff_mod_2_eq_one bit_0)

section \<open>Carry and overflow of an addition\<close>

text \<open>
  Carry out and signed overflow of \<open>s + d + x\<close>, read off the three sign bits as the
  68000 manual (and the comments of \<open>inl68_arithmetic.h\<close>) states them.
\<close>

lemma mod_eq_minus_one_step:
  fixes t h :: int
  assumes "h \<le> t" and "t < 2 * h"
  shows "t mod h = t - h"
  using assms mod_pos_pos_trivial [of "t - h" h] by (simp add: minus_mod_self2)

lemma uint_add_carry:
  fixes s d :: "'a::len word"
  shows "uint (s + d + of_bool x) =
    (let t = uint s + uint d + of_bool x
     in if t < 2 ^ LENGTH('a) then t else t - 2 ^ LENGTH('a))"
proof -
  let ?h = "2 ^ LENGTH('a) :: int"
  have "uint (s + d + of_bool x) = (uint s + uint d + of_bool x) mod ?h"
    by (cases x) (simp_all add: uint_word_ariths mod_simps)
  moreover have "uint s + uint d + of_bool x < 2 * ?h"
    using uint_lt2p [of s] uint_lt2p [of d] by (cases x; simp; linarith)
  ultimately show ?thesis
    by (auto simp: Let_def not_less mod_pos_pos_trivial mod_eq_minus_one_step)
qed

lemma uint_sub_borrow:
  fixes s d :: "'a::len word"
  shows "uint (d - s - of_bool x) =
    (let t = uint d - uint s - of_bool x in if 0 \<le> t then t else t + 2 ^ LENGTH('a))"
proof -
  let ?h = "2 ^ LENGTH('a) :: int" and ?t = "uint d - uint s - of_bool x"
  have u: "uint (d - s - of_bool x) = ?t mod ?h"
    by (cases x) (simp_all add: uint_word_ariths mod_simps)
  have "- ?h \<le> ?t" and "?t < ?h"
    using uint_lt2p [of s] uint_lt2p [of d] uint_ge_0 [of s] uint_ge_0 [of d]
    by (cases x; simp; linarith)+
  then have "?t mod ?h = (if 0 \<le> ?t then ?t else ?t + ?h)"
    using mod_pos_pos_trivial [of "?t + ?h" ?h] by (simp add: mod_pos_pos_trivial)
  then show ?thesis by (simp only: u Let_def)
qed

lemma add_flags:
  fixes s d :: "'a::len word"
  assumes r: "r = s + d + of_bool x"
  shows add_carry_signs: "2 ^ LENGTH('a) \<le> uint s + uint d + of_bool x \<longleftrightarrow>
      neg_w s \<and> neg_w d \<or> \<not> neg_w r \<and> (neg_w s \<or> neg_w d)"
    and add_overflow_signs: "sint s + sint d + of_bool x \<noteq> sint r \<longleftrightarrow>
      neg_w s = neg_w d \<and> neg_w r \<noteq> neg_w s"
proof -
  define h :: int where "h = 2 ^ (LENGTH('a) - 1)"
  define a b where "a = uint s" and "b = uint d"
  note ab = a_def [symmetric] b_def [symmetric]
  have h: "2 ^ LENGTH('a) = 2 * h" "a < 2 * h" "b < 2 * h" "0 \<le> a" "0 \<le> b" "1 \<le> h"
    using uint_half(2) [of s] uint_half(2) [of d] uint_half(1) [where 'a = 'a]
    by (simp_all add: h_def a_def b_def)
  have ur: "uint r = (if uint s + uint d + of_bool x < 2 * h then uint s + uint d + of_bool x
      else uint s + uint d + of_bool x - 2 * h)"
    unfolding r uint_add_carry Let_def h(1) ..
  note signs = neg_w_uint [where 'a = 'a, folded h_def]
  show "2 ^ LENGTH('a) \<le> uint s + uint d + of_bool x \<longleftrightarrow>
      neg_w s \<and> neg_w d \<or> \<not> neg_w r \<and> (neg_w s \<or> neg_w d)"
    unfolding signs ur h(1) ab using h by (cases x) auto
  show "sint s + sint d + of_bool x \<noteq> sint r \<longleftrightarrow> neg_w s = neg_w d \<and> neg_w r \<noteq> neg_w s"
    unfolding sint_uint_neg signs ur h(1) ab using h by (cases x) auto
qed

lemma sub_flags:
  fixes s d :: "'a::len word"
  assumes r: "r = d - s - of_bool x"
  shows sub_borrow_signs: "uint d < uint s + of_bool x \<longleftrightarrow>
      neg_w s \<and> \<not> neg_w d \<or> neg_w r \<and> (neg_w s \<or> \<not> neg_w d)"
    and sub_overflow_signs: "sint d - sint s - of_bool x \<noteq> sint r \<longleftrightarrow>
      neg_w s \<noteq> neg_w d \<and> neg_w r \<noteq> neg_w d"
proof -
  define h :: int where "h = 2 ^ (LENGTH('a) - 1)"
  define a b where "a = uint s" and "b = uint d"
  note ab = a_def [symmetric] b_def [symmetric]
  have h: "2 ^ LENGTH('a) = 2 * h" "a < 2 * h" "b < 2 * h" "0 \<le> a" "0 \<le> b" "1 \<le> h"
    using uint_half(2) [of s] uint_half(2) [of d] uint_half(1) [where 'a = 'a]
    by (simp_all add: h_def a_def b_def)
  have ur: "uint r = (if 0 \<le> uint d - uint s - of_bool x then uint d - uint s - of_bool x
      else uint d - uint s - of_bool x + 2 * h)"
    unfolding r uint_sub_borrow Let_def h(1) ..
  note signs = neg_w_uint [where 'a = 'a, folded h_def]
  show "uint d < uint s + of_bool x \<longleftrightarrow>
      neg_w s \<and> \<not> neg_w d \<or> neg_w r \<and> (neg_w s \<or> \<not> neg_w d)"
    unfolding signs ur h(1) ab using h by (cases x) auto
  show "sint d - sint s - of_bool x \<noteq> sint r \<longleftrightarrow> neg_w s \<noteq> neg_w d \<and> neg_w r \<noteq> neg_w d"
    unfolding sint_uint_neg signs ur h(1) ab using h by (cases x) auto
qed

end
