(* ===== verification/Struct68.thy ===== *)
theory Struct68
  imports Prelude68
begin

text \<open>
  The state of the emulator (\<open>struct emu68_s\<close>, \<open>reg68_t\<close> and their parts in
  \<open>emu68/struct68.h\<close>), the status register layout of \<open>emu68/srdef68.h\<close>, the cycle
  counter inlines, the error stack of \<open>emu68/error68.c\<close>, and the \<^emph>\<open>machine frame\<close>: what
  no 68k instruction may change.

  An \<open>io68_t\<close> is an object with function pointers.  A pointer to one is an \<open>ioref\<close>; what the
  functions of a plugged chip do is looked up in an environment \<open>env68\<close>, the table of
  function pointers the user of the emulator installs (chips, exception handlers).
\<close>

section \<open>Status register\<close>

definition SR_C :: int68 where "SR_C = 0x01"
definition SR_V :: int68 where "SR_V = 0x02"
definition SR_Z :: int68 where "SR_Z = 0x04"
definition SR_N :: int68 where "SR_N = 0x08"
definition SR_X :: int68 where "SR_X = 0x10"
definition SR_I :: int68 where "SR_I = 0x700"
definition SR_S :: int68 where "SR_S = 0x2000"
definition SR_T :: int68 where "SR_T = 0x8000"

lemmas sr_defs = SR_C_def SR_V_def SR_Z_def SR_N_def SR_X_def SR_I_def SR_S_def SR_T_def

text \<open>\<open>SET_CCR\<close> and \<open>SET_IPL\<close>: macros on an \<open>int\<close> status register.\<close>

definition SET_CCR :: "s32 \<Rightarrow> s32 \<Rightarrow> s32" where
  "SET_CCR sr ccr = (sr AND NOT 255) OR ccr"

definition GET_IPL :: "s32 \<Rightarrow> s32" where
  "GET_IPL sr = signed_drop_bit 8 sr AND 7"

definition SET_IPL :: "s32 \<Rightarrow> s32 \<Rightarrow> s32" where
  "SET_IPL sr ipl = (sr AND NOT 0x700) OR push_bit 8 ipl"

section \<open>State\<close>

datatype status68 =
  EMU68_ERR | EMU68_NRM | EMU68_STP | EMU68_HLT | EMU68_BRK | EMU68_XCT

text \<open>
  \<open>reg68_t\<close>.  The data and address registers are adjacent arrays and the code indexes
  through both from \<open>d\<close> (\<open>ea_inANXI\<close>, \<open>inl_exg68\<close>, \<open>movemregw\<close>), so they are one array
  here: \<open>d[i]\<close> is entry \<open>i\<close> and \<open>a[i]\<close> is entry \<open>8 + i\<close>.
\<close>

record reg68 =
  reg_d :: "nat \<Rightarrow> s32"
  reg_usp :: s32
  reg_pc :: s32
  reg_sr :: s32

record emu68_bp =
  bp_addr :: int68
  bp_count :: int68
  bp_reset :: int68

record interrupt68 =
  int_vector :: nat
  int_level :: nat
  int_cycle :: int68

record chkinfo =
  ck_pc :: s32
  ck_ad :: s32
  ck_fl :: s32

text \<open>A pointer to an \<open>io68_t\<close>: the three private ones of \<open>mem68.c\<close>, or a plugged chip.\<close>

datatype ioref = RamIO | ErrIO | NopIO | Plug nat

text \<open>
  The messages \<open>emu68_error_add\<close> is called with, with their arguments; the formatting is
  \<open>vsnprintf\<close> and is not modelled.
\<close>

datatype errmsg =
  InvalidRead size68 s32 s32
| InvalidWrite size68 s32 s32 int68
| DoubleFault s32 nat
| InvalidRange int68 int68 int68
| HostMessage string

record 'c emu68 =
  err :: "errmsg list"
  reg :: reg68
  inst_pc :: s32
  inst_sr :: s32
  cycle :: int68
  clock :: int68
  handler :: "nat option"
  cookie :: nat
  status :: status68
  instructions :: int68
  finish_sp :: int68
  nio :: int
  iohead :: "nat list"
  interrupt_io :: "nat option"
  mapped_io :: "nat \<Rightarrow> ioref"
  memio :: "ioref option"
  bus_addr :: int68
  bus_data :: int68
  frm_chk_fl :: s32
  fst_chk :: chkinfo
  lst_chk :: chkinfo
  chk :: "(nat \<Rightarrow> u8) option"
  breakpoints :: "nat \<Rightarrow> emu68_bp"
  memmsk :: int68
  log2mem :: nat
  mem :: "nat \<Rightarrow> u8"
  chips :: 'c

text \<open>
  The function pointers of a plugged \<open>io68_t\<close> (with its mapping range), and the
  environment: the plugged chips, the exception handlers, and whether the library was
  built with \<open>EMU68CYCLE\<close>.  The search for an interrupt and the adjustment of the cycle base
  loop inside a chip; a call that does not return is \<open>None\<close>.
\<close>

record 'c io68 =
  addr_lo :: int68
  addr_hi :: int68
  io_read :: "size68 \<Rightarrow> 'c emu68 \<Rightarrow> 'c emu68"
  io_write :: "size68 \<Rightarrow> 'c emu68 \<Rightarrow> 'c emu68"
  io_interrupt :: "int68 \<Rightarrow> 'c emu68 \<Rightarrow> (interrupt68 option \<times> 'c emu68) option"
  io_adjust_cycle :: "int68 \<Rightarrow> 'c emu68 \<Rightarrow> 'c emu68 option"
  io_reset :: "'c emu68 \<Rightarrow> 'c emu68"

record 'c env68 =
  ios :: "nat \<Rightarrow> 'c io68"
  hdl :: "nat \<Rightarrow> nat \<Rightarrow> 'c emu68 \<Rightarrow> 'c emu68"
  emu68cycle :: bool

section \<open>Register access\<close>

text \<open>\<open>REG68.d[i]\<close>, \<open>REG68.a[i]\<close>, \<open>REG68.pc\<close>, \<open>REG68.sr\<close>, and the assignments to them.\<close>

abbreviation dreg :: "'c emu68 \<Rightarrow> nat \<Rightarrow> s32" where
  "dreg s i \<equiv> reg_d (reg s) i"

abbreviation areg :: "'c emu68 \<Rightarrow> nat \<Rightarrow> s32" where
  "areg s i \<equiv> reg_d (reg s) (8 + i)"

abbreviation pc :: "'c emu68 \<Rightarrow> s32" where
  "pc s \<equiv> reg_pc (reg s)"

abbreviation sr :: "'c emu68 \<Rightarrow> s32" where
  "sr s \<equiv> reg_sr (reg s)"

definition set_dreg :: "nat \<Rightarrow> s32 \<Rightarrow> 'c emu68 \<Rightarrow> 'c emu68" where
  "set_dreg i v s = s\<lparr>reg := (reg s)\<lparr>reg_d := (reg_d (reg s))(i := v)\<rparr>\<rparr>"

definition set_areg :: "nat \<Rightarrow> s32 \<Rightarrow> 'c emu68 \<Rightarrow> 'c emu68" where
  "set_areg i v s = set_dreg (8 + i) v s"

definition set_pc :: "s32 \<Rightarrow> 'c emu68 \<Rightarrow> 'c emu68" where
  "set_pc v s = s\<lparr>reg := (reg s)\<lparr>reg_pc := v\<rparr>\<rparr>"

definition set_sr :: "s32 \<Rightarrow> 'c emu68 \<Rightarrow> 'c emu68" where
  "set_sr v s = s\<lparr>reg := (reg s)\<lparr>reg_sr := v\<rparr>\<rparr>"

definition set_usp :: "s32 \<Rightarrow> 'c emu68 \<Rightarrow> 'c emu68" where
  "set_usp v s = s\<lparr>reg := (reg s)\<lparr>reg_usp := v\<rparr>\<rparr>"

lemmas set_reg_defs = set_dreg_def set_areg_def set_pc_def set_sr_def set_usp_def

text \<open>\<open>inl_addcycle68\<close> and \<open>inl_setcycle68\<close>: empty unless built with \<open>EMU68CYCLE\<close>.\<close>

definition inl_setcycle68 :: "'c env68 \<Rightarrow> int68 \<Rightarrow> 'c emu68 \<Rightarrow> 'c emu68" where
  "inl_setcycle68 E n s = (if emu68cycle E then s\<lparr>cycle := n\<rparr> else s)"

definition inl_addcycle68 :: "'c env68 \<Rightarrow> int68 \<Rightarrow> 'c emu68 \<Rightarrow> 'c emu68" where
  "inl_addcycle68 E n s = (if emu68cycle E then s\<lparr>cycle := cycle s + n\<rparr> else s)"

section \<open>Error stack\<close>

text \<open>
  \<open>err\<close> holds the \<open>nerr\<close> messages, oldest first.  \<open>emu68_error_add\<close> drops the oldest
  when all \<open>MAXERROR = 4\<close> slots are in use; \<open>emu68_error_get\<close> pops the newest.
\<close>

definition MAXERROR :: nat where "MAXERROR = 4"

definition emu68_error_add :: "errmsg \<Rightarrow> 'c emu68 \<Rightarrow> 'c emu68" where
  "emu68_error_add m s =
    s\<lparr>err := (if MAXERROR \<le> length (err s) then tl (err s) else err s) @ [m]\<rparr>"

definition emu68_error_get :: "'c emu68 \<Rightarrow> errmsg option \<times> 'c emu68" where
  "emu68_error_get s =
    (if err s \<noteq> [] then (Some (last (err s)), s\<lparr>err := butlast (err s)\<rparr>) else (None, s))"

lemma error_add_bound: "length (err s) \<le> MAXERROR \<Longrightarrow> length (err (emu68_error_add m s)) \<le> MAXERROR"
  by (auto simp: emu68_error_add_def MAXERROR_def)

lemma error_get_add: "fst (emu68_error_get (emu68_error_add m s)) = Some m"
  by (simp add: emu68_error_get_def emu68_error_add_def)

section \<open>The machine frame\<close>

text \<open>
  What executing 68k code leaves alone: the memory size, the plugged chips and their
  mapping, the handlers, the breakpoints, the instruction countdown, the bound of the error
  stack, and every byte of the
  host allocation from three bytes past the onboard memory on (a word or long access at
  the last address runs over by up to three bytes, which the 32 bytes of slack in
  \<open>struct emu68_s\<close> absorb; the access control bytes start eight bytes past the end).
  The parameter \<open>I\<close> is an invariant of the chips: 68k code reaches them through their bus
  handlers only, so what these keep every instruction keeps.
\<close>

definition frame68 :: "('c \<Rightarrow> bool) \<Rightarrow> 'c emu68 \<Rightarrow> 'c emu68 \<Rightarrow> bool" where
  "frame68 I s t \<longleftrightarrow>
     (I (chips s) \<longrightarrow> I (chips t)) \<and>
     memmsk t = memmsk s \<and> log2mem t = log2mem s \<and> clock t = clock s \<and>
     nio t = nio s \<and> iohead t = iohead s \<and> interrupt_io t = interrupt_io s \<and>
     mapped_io t = mapped_io s \<and> memio t = memio s \<and>
     handler t = handler s \<and> cookie t = cookie s \<and>
     breakpoints t = breakpoints s \<and> instructions t = instructions s \<and>
     finish_sp t = finish_sp s \<and>
     (length (err s) \<le> MAXERROR \<longrightarrow> length (err t) \<le> MAXERROR) \<and>
     (chk t = None \<longleftrightarrow> chk s = None) \<and>
     (\<forall>i. unat (memmsk s) < i \<longrightarrow> the (chk t) i = the (chk s) i) \<and>
     (\<forall>i. unat (memmsk s) + 3 < i \<longrightarrow> mem t i = mem s i)"

lemma frame68_refl [simp, intro!, frame_intros]: "frame68 I s s"
  by (simp add: frame68_def)

lemma frame68_trans [trans]: "frame68 I s t \<Longrightarrow> frame68 I t u \<Longrightarrow> frame68 I s u"
  by (simp add: frame68_def)

lemma frame68_chips: "frame68 (\<lambda>_. True) s t \<Longrightarrow> (I (chips s) \<Longrightarrow> I (chips t)) \<Longrightarrow> frame68 I s t"
  by (simp add: frame68_def)

text \<open>The form every operation's frame rule takes: it follows an already framed run.\<close>

lemma frame_step: "(\<And>t. frame68 I t (f t)) \<Longrightarrow> frame68 I s t \<Longrightarrow> frame68 I s (f t)"
  by (blast intro: frame68_trans)

lemma frame_setters [frame_intros]:
  "frame68 I s t \<Longrightarrow> frame68 I s (set_dreg i v t)"
  "frame68 I s t \<Longrightarrow> frame68 I s (set_areg i v t)"
  "frame68 I s t \<Longrightarrow> frame68 I s (set_pc w t)"
  "frame68 I s t \<Longrightarrow> frame68 I s (set_sr w t)"
  "frame68 I s t \<Longrightarrow> frame68 I s (set_usp w t)"
  "frame68 I s t \<Longrightarrow> frame68 I s (t\<lparr>bus_addr := a\<rparr>)"
  "frame68 I s t \<Longrightarrow> frame68 I s (t\<lparr>bus_data := a\<rparr>)"
  "frame68 I s t \<Longrightarrow> frame68 I s (t\<lparr>status := st\<rparr>)"
  "frame68 I s t \<Longrightarrow> frame68 I s (t\<lparr>inst_pc := w\<rparr>)"
  "frame68 I s t \<Longrightarrow> frame68 I s (t\<lparr>inst_sr := w\<rparr>)"
  "frame68 I s t \<Longrightarrow> frame68 I s (emu68_error_add m t)"
  "frame68 I s t \<Longrightarrow> frame68 I s (inl_addcycle68 E n t)"
  "frame68 I s t \<Longrightarrow> frame68 I s (inl_setcycle68 E n t)"
  by (auto simp: frame68_def set_reg_defs emu68_error_add_def inl_addcycle68_def
      inl_setcycle68_def MAXERROR_def)

lemma frame_if [frame_intros]:
  "(b \<Longrightarrow> frame68 I s t) \<Longrightarrow> (\<not> b \<Longrightarrow> frame68 I s u) \<Longrightarrow> frame68 I s (if b then t else u)"
  by simp

section \<open>Contract of the environment\<close>

text \<open>
  The client side contract: chips and handlers respect the machine frame.  Every lemma on
  whole instructions and on the execution loop is proved from it, in the locale.
\<close>

locale env_frame =
  fixes E :: "'c env68" and I :: "'c \<Rightarrow> bool"
  assumes read_frame: "frame68 I s (io_read (ios E i) sz s)"
    and write_frame: "frame68 I s (io_write (ios E i) sz s)"
    and hdl_frame: "frame68 I s (hdl E h v s)"

text \<open>
  An environment with no chip and no handler: reads and writes of an unplugged chip never
  happen, so its functions do nothing.
\<close>

definition null_io :: "'c io68" where
  "null_io = \<lparr>addr_lo = 0, addr_hi = 0, io_read = (\<lambda>_ s. s), io_write = (\<lambda>_ s. s),
     io_interrupt = (\<lambda>_ s. Some (None, s)), io_adjust_cycle = (\<lambda>_ s. Some s), io_reset = (\<lambda>s. s)\<rparr>"

definition null_env :: "'c env68" where
  "null_env = \<lparr>ios = (\<lambda>_. null_io), hdl = (\<lambda>_ _ s. s), emu68cycle = False\<rparr>"

interpretation null_frame: env_frame null_env I for I
  by unfold_locales (simp_all add: null_env_def null_io_def)

end
