(* ===== verification/Mem68.thy ===== *)
theory Mem68
  imports Struct68
begin

text \<open>
  Memory and I/O access (\<open>emu68/mem68.c\<close>, \<open>emu68/mem68.h\<close>): the onboard RAM, the
  access-checking RAM of debug builds, the fault and no-operation I/Os, the dispatch on
  address bit 23, instruction fetch, and the stack.  The functions the source has once per
  operand size take the size as an argument here.

  The address and data of an access travel through \<open>bus_addr\<close> and \<open>bus_data\<close>, as in the
  source.  Lemmas: every access keeps the machine frame; a read after a write to the same
  RAM address returns the value written, truncated to its size (with and without access
  checking); a pop returns what was pushed.
\<close>

section \<open>Onboard memory\<close>

text \<open>\<open>emu68->mem + (addr AND MEMMSK68)\<close>, and the big-endian accesses from there.\<close>

definition mem_index :: "'c emu68 \<Rightarrow> int68 \<Rightarrow> nat" where
  "mem_index s addr = unat (addr AND memmsk s)"

fun ram_get :: "size68 \<Rightarrow> (nat \<Rightarrow> u8) \<Rightarrow> nat \<Rightarrow> int68" where
  "ram_get SzB m i = ucast (m i)"
| "ram_get SzW m i = push_bit 8 (ucast (m i)) + ucast (m (i + 1))"
| "ram_get SzL m i =
     sx (push_bit 24 (ucast (m i)) + push_bit 16 (ucast (m (i + 1))) +
         push_bit 8 (ucast (m (i + 2))) + ucast (m (i + 3)))"

fun ram_put :: "size68 \<Rightarrow> int68 \<Rightarrow> nat \<Rightarrow> (nat \<Rightarrow> u8) \<Rightarrow> nat \<Rightarrow> u8" where
  "ram_put SzB v i m = m(i := ucast v)"
| "ram_put SzW v i m =
     (let m = m(i + 1 := ucast v); v = signed_drop_bit 8 v
      in m(i := ucast v))"
| "ram_put SzL v i m =
     (let m = m(i + 3 := ucast v); v = signed_drop_bit 8 v;
          m = m(i + 2 := ucast v); v = signed_drop_bit 8 v;
          m = m(i + 1 := ucast v); v = signed_drop_bit 8 v
      in m(i := ucast v))"

text \<open>What a read of a given size returns to the processor: \<open>(u8)\<close>, \<open>(u16)\<close>, \<open>(u32)\<close>.\<close>

fun trunc68 :: "size68 \<Rightarrow> int68 \<Rightarrow> int68" where
  "trunc68 SzB v = u8_of v"
| "trunc68 SzW v = u16_of v"
| "trunc68 SzL v = u32_of v"

definition EMU68_R :: s32 where "EMU68_R = 1"
definition EMU68_W :: s32 where "EMU68_W = 2"
definition EMU68_X :: s32 where "EMU68_X = 4"

text \<open>
  \<open>chkframe\<close>.  Without access control memory the C code must not call it (the assertion of
  its callers); the state is left alone then.
\<close>

definition chkframe :: "int68 \<Rightarrow> s32 \<Rightarrow> 'c emu68 \<Rightarrow> 'c emu68" where
  "chkframe addr flags s =
    (case chk s of None \<Rightarrow> s
     | Some c \<Rightarrow>
        (let addr = addr AND memmsk s;
             old = ucast (c (unat addr)) :: s32;
             newchk = old OR flags;
             chgchk = old XOR newchk
         in if chgchk \<noteq> 0 then
              let s = s\<lparr>lst_chk := \<lparr>ck_pc = inst_pc s, ck_ad = lo32 addr, ck_fl = chgchk\<rparr>\<rparr>;
                  s = (if frm_chk_fl s = 0 then s\<lparr>fst_chk := lst_chk s\<rparr> else s)
              in s\<lparr>frm_chk_fl := frm_chk_fl s OR chgchk,
                   chk := Some (c(unat addr := ucast newchk))\<rparr>
            else s))"

text \<open>\<open>chkframe_b\<close>, \<open>chkframe_w\<close>, \<open>chkframe_l\<close>.\<close>

fun chkframe_sz :: "size68 \<Rightarrow> s32 \<Rightarrow> 'c emu68 \<Rightarrow> 'c emu68" where
  "chkframe_sz SzB flags s = chkframe (bus_addr s) flags s"
| "chkframe_sz SzW flags s =
     (let s = chkframe (bus_addr s + 0) flags s
      in chkframe (bus_addr s + 1) flags s)"
| "chkframe_sz SzL flags s =
     (let s = chkframe (bus_addr s + 0) flags s;
          s = chkframe (bus_addr s + 1) flags s;
          s = chkframe (bus_addr s + 2) flags s
      in chkframe (bus_addr s + 3) flags s)"

section \<open>The private I/Os\<close>

definition ram_read :: "size68 \<Rightarrow> 'c emu68 \<Rightarrow> 'c emu68" where
  "ram_read sz s = s\<lparr>bus_data := ram_get sz (mem s) (mem_index s (bus_addr s))\<rparr>"

definition ram_write :: "size68 \<Rightarrow> 'c emu68 \<Rightarrow> 'c emu68" where
  "ram_write sz s = s\<lparr>mem := ram_put sz (bus_data s) (mem_index s (bus_addr s)) (mem s)\<rparr>"

definition memchk_r :: "size68 \<Rightarrow> 'c emu68 \<Rightarrow> 'c emu68" where
  "memchk_r sz s = chkframe_sz sz EMU68_R (ram_read sz s)"

definition memchk_w :: "size68 \<Rightarrow> 'c emu68 \<Rightarrow> 'c emu68" where
  "memchk_w sz s = chkframe_sz sz EMU68_W (ram_write sz s)"

definition fault_ra :: "size68 \<Rightarrow> 'c emu68 \<Rightarrow> 'c emu68" where
  "fault_ra sz s =
    (let s = emu68_error_add (InvalidRead sz (inst_pc s) (lo32 (bus_addr s))) s;
         s = s\<lparr>bus_data := -1\<rparr>
     in s\<lparr>status := EMU68_HLT\<rparr>)"

definition fault_wa :: "size68 \<Rightarrow> 'c emu68 \<Rightarrow> 'c emu68" where
  "fault_wa sz s =
    (let s = emu68_error_add
               (InvalidWrite sz (inst_pc s) (lo32 (bus_addr s)) (trunc68 sz (bus_data s))) s
     in s\<lparr>status := EMU68_HLT\<rparr>)"

definition nop_rwa :: "'c emu68 \<Rightarrow> 'c emu68" where
  "nop_rwa s = s"

text \<open>The tables \<open>ram_io\<close>, \<open>fault_io\<close>, \<open>nop_io\<close>: the calls \<open>io->r_byte(io)\<close> and so on.\<close>

fun io_r :: "'c env68 \<Rightarrow> ioref \<Rightarrow> size68 \<Rightarrow> 'c emu68 \<Rightarrow> 'c emu68" where
  "io_r E RamIO sz s = memchk_r sz s"
| "io_r E ErrIO sz s = fault_ra sz s"
| "io_r E NopIO sz s = nop_rwa s"
| "io_r E (Plug i) sz s = io_read (ios E i) sz s"

fun io_w :: "'c env68 \<Rightarrow> ioref \<Rightarrow> size68 \<Rightarrow> 'c emu68 \<Rightarrow> 'c emu68" where
  "io_w E RamIO sz s = memchk_w sz s"
| "io_w E ErrIO sz s = fault_wa sz s"
| "io_w E NopIO sz s = nop_rwa s"
| "io_w E (Plug i) sz s = io_write (ios E i) sz s"

section \<open>Read and write functions\<close>

definition mem68_is_io :: "int68 \<Rightarrow> bool" where
  "mem68_is_io addr \<longleftrightarrow> addr AND 0x800000 \<noteq> 0"

text \<open>\<open>(u8) (addr >> 8)\<close>.\<close>

definition io_area :: "int68 \<Rightarrow> nat" where
  "io_area addr = unat (ucast (signed_drop_bit 8 addr) :: u8)"

definition mem68_read :: "'c env68 \<Rightarrow> size68 \<Rightarrow> 'c emu68 \<Rightarrow> 'c emu68" where
  "mem68_read E sz s =
    (let addr = bus_addr s
     in if mem68_is_io addr then io_r E (mapped_io s (io_area addr)) sz s
        else case memio s of
          None \<Rightarrow> ram_read sz s
        | Some io \<Rightarrow> io_r E io sz s)"

definition mem68_write :: "'c env68 \<Rightarrow> size68 \<Rightarrow> 'c emu68 \<Rightarrow> 'c emu68" where
  "mem68_write E sz s =
    (let addr = bus_addr s
     in if mem68_is_io addr then io_w E (mapped_io s (io_area addr)) sz s
        else case memio s of
          None \<Rightarrow> ram_write sz s
        | Some io \<Rightarrow> io_w E io sz s)"

text \<open>\<open>_read_B\<close>, \<open>_read_W\<close>, \<open>_read_L\<close> and \<open>_write_B\<close>, \<open>_write_W\<close>, \<open>_write_L\<close>.\<close>

definition read68 :: "'c env68 \<Rightarrow> size68 \<Rightarrow> int68 \<Rightarrow> 'c emu68 \<Rightarrow> int68 \<times> 'c emu68" where
  "read68 E sz addr s =
    (let s = s\<lparr>bus_addr := addr\<rparr>;
         s = mem68_read E sz s
     in (trunc68 sz (bus_data s), s))"

definition write68 :: "'c env68 \<Rightarrow> size68 \<Rightarrow> int68 \<Rightarrow> int68 \<Rightarrow> 'c emu68 \<Rightarrow> 'c emu68" where
  "write68 E sz addr v s =
    (let s = s\<lparr>bus_addr := addr\<rparr>;
         s = s\<lparr>bus_data := v\<rparr>
     in mem68_write E sz s)"

section \<open>Instruction fetch and stack\<close>

definition fetch_io :: "int68 \<Rightarrow> 'c emu68 \<Rightarrow> ioref option" where
  "fetch_io addr s = (if mem68_is_io addr then Some (mapped_io s (io_area addr)) else memio s)"

definition mem68_nextw :: "'c env68 \<Rightarrow> 'c emu68 \<Rightarrow> int68 \<times> 'c emu68" where
  "mem68_nextw E s =
    (let addr = sx (pc s);
         io = fetch_io addr s;
         s = set_pc (pc s + 2) s
     in case io of
          None \<Rightarrow>
            (let i = mem_index s addr
             in (push_bit 8 (scast (mem s i)) OR ucast (mem s (i + 1)), s))
        | Some io \<Rightarrow>
            (let s = s\<lparr>bus_addr := addr\<rparr>;
                 s = io_r E io SzW s
             in (s16_of (bus_data s), s)))"

definition mem68_nextl :: "'c env68 \<Rightarrow> 'c emu68 \<Rightarrow> int68 \<times> 'c emu68" where
  "mem68_nextl E s =
    (let addr = sx (pc s);
         io = fetch_io addr s;
         s = set_pc (pc s + 4) s
     in case io of
          None \<Rightarrow>
            (let i = mem_index s addr
             in (push_bit 24 (scast (mem s i)) OR push_bit 16 (ucast (mem s (i + 1))) OR
                 push_bit 8 (ucast (mem s (i + 2))) OR ucast (mem s (i + 3)), s))
        | Some io \<Rightarrow>
            (let s = s\<lparr>bus_addr := addr\<rparr>;
                 s = io_r E io SzL s
             in (s32_of (bus_data s), s)))"

definition mem68_pushw :: "'c env68 \<Rightarrow> int68 \<Rightarrow> 'c emu68 \<Rightarrow> 'c emu68" where
  "mem68_pushw E v s =
    (let s = set_areg 7 (areg s 7 - 2) s
     in write68 E SzW (sx (areg s 7)) v s)"

definition mem68_pushl :: "'c env68 \<Rightarrow> int68 \<Rightarrow> 'c emu68 \<Rightarrow> 'c emu68" where
  "mem68_pushl E v s =
    (let s = set_areg 7 (areg s 7 - 4) s
     in write68 E SzL (sx (areg s 7)) v s)"

definition mem68_popl :: "'c env68 \<Rightarrow> 'c emu68 \<Rightarrow> int68 \<times> 'c emu68" where
  "mem68_popl E s =
    (let (v, s) = read68 E SzL (sx (areg s 7)) s;
         v = s32_of v;
         s = set_areg 7 (areg s 7 + 4) s
     in (v, s))"

definition mem68_popw :: "'c env68 \<Rightarrow> 'c emu68 \<Rightarrow> int68 \<times> 'c emu68" where
  "mem68_popw E s =
    (let (v, s) = read68 E SzW (sx (areg s 7)) s;
         s = set_areg 7 (areg s 7 + 2) s
     in (s32_of v, s))"

text \<open>The same for the host.\<close>

definition emu68_pushl :: "'c env68 \<Rightarrow> int68 \<Rightarrow> 'c emu68 \<Rightarrow> 'c emu68" where
  "emu68_pushl E v s = mem68_pushl E v s"

definition emu68_pushw :: "'c env68 \<Rightarrow> int68 \<Rightarrow> 'c emu68 \<Rightarrow> 'c emu68" where
  "emu68_pushw E v s = mem68_pushw E v s"

definition emu68_popl :: "'c env68 \<Rightarrow> 'c emu68 \<Rightarrow> int68 \<times> 'c emu68" where
  "emu68_popl E s = mem68_popl E s"

definition emu68_popw :: "'c env68 \<Rightarrow> 'c emu68 \<Rightarrow> int68 \<times> 'c emu68" where
  "emu68_popw E s = mem68_popw E s"

section \<open>Mapping tables\<close>

definition emu68_mem_reset_area :: "nat \<Rightarrow> 'c emu68 \<Rightarrow> 'c emu68" where
  "emu68_mem_reset_area area s =
    s\<lparr>mapped_io := (mapped_io s)(area := if chk s \<noteq> None then ErrIO else NopIO)\<rparr>"

definition emu68_mem_reset :: "'c emu68 \<Rightarrow> 'c emu68" where
  "emu68_mem_reset s = fold emu68_mem_reset_area [0..<256] s"

definition emu68_mem_init :: "'c emu68 \<Rightarrow> 'c emu68" where
  "emu68_mem_init s =
    emu68_mem_reset (s\<lparr>memio := (if chk s \<noteq> None then Some RamIO else None)\<rparr>)"

definition emu68_mem_destroy :: "'c emu68 \<Rightarrow> 'c emu68" where
  "emu68_mem_destroy s = s\<lparr>memio := None\<rparr>"

section \<open>RAM round trips\<close>

lemma ram_get_put:
  "trunc68 sz (ram_get sz (ram_put sz v i m) i) = trunc68 sz v"
  by (cases sz) (simp_all add: Let_def be16_or be16_split be32_or be32_split)

lemma ram_put_other:
  "j < i \<or> i + bytes68 sz \<le> j \<Longrightarrow> ram_put sz v i m j = m j"
  by (cases sz) (auto simp: Let_def)

lemma ram_get_cong:
  assumes "\<And>k. k < bytes68 sz \<Longrightarrow> m (i + k) = n (i + k)"
  shows "ram_get sz m i = ram_get sz n i"
  using assms [of 0] assms [of 1] assms [of 2] assms [of 3] by (cases sz) simp_all

lemma ram_get_put_other:
  "j + bytes68 sz' \<le> i \<or> i + bytes68 sz \<le> j \<Longrightarrow>
    ram_get sz' (ram_put sz v i m) j = ram_get sz' m j"
  by (rule ram_get_cong, rule ram_put_other) auto

lemma mem_index_le: "mem_index s a \<le> unat (memmsk s)"
  by (simp add: mem_index_def word_and_le1 flip: word_le_nat_alt)

definition ram_at :: "'c emu68 \<Rightarrow> int68 \<Rightarrow> bool" where
  "ram_at s a \<longleftrightarrow> \<not> mem68_is_io a \<and> (memio s = None \<or> memio s = Some RamIO)"

lemma chkframe_fields [simp]:
  "reg (chkframe a f s) = reg s" "mem (chkframe a f s) = mem s"
  "memmsk (chkframe a f s) = memmsk s" "memio (chkframe a f s) = memio s"
  "mapped_io (chkframe a f s) = mapped_io s" "bus_data (chkframe a f s) = bus_data s"
  "bus_addr (chkframe a f s) = bus_addr s" "status (chkframe a f s) = status s"
  "handler (chkframe a f s) = handler s"
  "cookie (chkframe a f s) = cookie s"
  "inst_pc (chkframe a f s) = inst_pc s"
  by (auto simp: chkframe_def Let_def split: option.split)

lemma chkframe_sz_fields [simp]:
  "reg (chkframe_sz sz f s) = reg s" "mem (chkframe_sz sz f s) = mem s"
  "memmsk (chkframe_sz sz f s) = memmsk s" "memio (chkframe_sz sz f s) = memio s"
  "mapped_io (chkframe_sz sz f s) = mapped_io s" "bus_data (chkframe_sz sz f s) = bus_data s"
  "bus_addr (chkframe_sz sz f s) = bus_addr s" "status (chkframe_sz sz f s) = status s"
  "handler (chkframe_sz sz f s) = handler s"
  "cookie (chkframe_sz sz f s) = cookie s"
  "inst_pc (chkframe_sz sz f s) = inst_pc s"
  by (cases sz; simp add: Let_def)+

lemma read68_ram:
  assumes "ram_at s a"
  shows "fst (read68 E sz a s) = trunc68 sz (ram_get sz (mem s) (mem_index s a))"
    and "reg (snd (read68 E sz a s)) = reg s" and "mem (snd (read68 E sz a s)) = mem s"
    and "memmsk (snd (read68 E sz a s)) = memmsk s" and "memio (snd (read68 E sz a s)) = memio s"
    and "status (snd (read68 E sz a s)) = status s" and "handler (snd (read68 E sz a s)) = handler s"
  using assms
  by (auto simp: read68_def mem68_read_def ram_at_def memchk_r_def ram_read_def mem_index_def Let_def)

lemma write68_ram:
  assumes "ram_at s a"
  shows "mem (write68 E sz a v s) = ram_put sz v (mem_index s a) (mem s)"
    and "reg (write68 E sz a v s) = reg s"
    and "memmsk (write68 E sz a v s) = memmsk s" and "memio (write68 E sz a v s) = memio s"
    and "status (write68 E sz a v s) = status s" and "handler (write68 E sz a v s) = handler s"
  using assms
  by (auto simp: write68_def mem68_write_def ram_at_def memchk_w_def ram_write_def mem_index_def Let_def)

lemma read_after_write:
  assumes "ram_at s a"
  shows "fst (read68 E sz a (write68 E sz a v s)) = trunc68 sz v"
  using assms read68_ram(1) [of "write68 E sz a v s" a]
  by (simp add: write68_ram ram_at_def mem_index_def ram_get_put)


lemma set_reg_fields [simp]:
  "mem (set_dreg i v s) = mem s" "memmsk (set_dreg i v s) = memmsk s"
  "memio (set_dreg i v s) = memio s" "pc (set_dreg i v s) = pc s" "sr (set_dreg i v s) = sr s"
  "dreg (set_dreg i v s) j = (if j = i then v else dreg s j)" "status (set_dreg i v s) = status s"
  "mem (set_areg i v s) = mem s" "memmsk (set_areg i v s) = memmsk s"
  "memio (set_areg i v s) = memio s" "pc (set_areg i v s) = pc s" "sr (set_areg i v s) = sr s"
  "dreg (set_areg i v s) j = (if j = 8 + i then v else dreg s j)" "status (set_areg i v s) = status s"
  "mem (set_pc w s) = mem s" "memmsk (set_pc w s) = memmsk s"
  "memio (set_pc w s) = memio s" "dreg (set_pc w s) = dreg s" "sr (set_pc w s) = sr s"
  "pc (set_pc w s) = w" "status (set_pc w s) = status s"
  "mem (set_sr w s) = mem s" "memmsk (set_sr w s) = memmsk s"
  "memio (set_sr w s) = memio s" "dreg (set_sr w s) = dreg s" "pc (set_sr w s) = pc s"
  "sr (set_sr w s) = w" "status (set_sr w s) = status s"
  by (simp_all add: set_reg_defs)

lemma reg_set_areg: "reg (set_areg i v s) = (reg s)\<lparr>reg_d := (dreg s)(8 + i := v)\<rparr>"
  by (simp add: set_reg_defs)

lemma pushl_popl:
  assumes "ram_at s (sx (areg s 7 - 4))"
  shows "fst (mem68_popl E (mem68_pushl E v s)) = s32_of v"
    and "reg (snd (mem68_popl E (mem68_pushl E v s))) = reg s"
    and "mem (snd (mem68_popl E (mem68_pushl E v s))) = mem (mem68_pushl E v s)"
proof -
  let ?t = "set_areg 7 (areg s 7 - 4) s" and ?a = "sx (areg s 7 - 4)"
  have r: "ram_at ?t ?a" "ram_at (write68 E SzL ?a v ?t) ?a"
    using assms by (simp_all add: ram_at_def write68_ram)
  then have a: "areg (write68 E SzL ?a v ?t) 7 = areg s 7 - 4"
    by (simp add: write68_ram)
  have push: "mem68_pushl E v s = write68 E SzL ?a v ?t"
    by (simp add: mem68_pushl_def Let_def)
  show "fst (mem68_popl E (mem68_pushl E v s)) = s32_of v"
    unfolding push mem68_popl_def Let_def split_def a read_after_write [OF r(1)]
    by simp
  show "reg (snd (mem68_popl E (mem68_pushl E v s))) = reg s"
    unfolding push mem68_popl_def Let_def split_def a snd_conv
    unfolding reg_set_areg read68_ram(2) [OF r(2)] write68_ram(2) [OF r(1)] by simp
  show "mem (snd (mem68_popl E (mem68_pushl E v s))) = mem (mem68_pushl E v s)"
    unfolding push mem68_popl_def Let_def split_def a snd_conv
      set_reg_fields read68_ram(3) [OF r(2)] by (rule refl)
qed

lemma s32_u16: "s32_of (u16_of v) = u16_of v"
  by (rule bit_word_eqI) (auto simp: bit_simps min_def)

lemma pushw_popw:
  assumes "ram_at s (sx (areg s 7 - 2))"
  shows "fst (mem68_popw E (mem68_pushw E v s)) = u16_of v"
    and "reg (snd (mem68_popw E (mem68_pushw E v s))) = reg s"
    and "mem (snd (mem68_popw E (mem68_pushw E v s))) = mem (mem68_pushw E v s)"
proof -
  let ?t = "set_areg 7 (areg s 7 - 2) s" and ?a = "sx (areg s 7 - 2)"
  have r: "ram_at ?t ?a" "ram_at (write68 E SzW ?a v ?t) ?a"
    using assms by (simp_all add: ram_at_def write68_ram)
  then have a: "areg (write68 E SzW ?a v ?t) 7 = areg s 7 - 2"
    by (simp add: write68_ram)
  have push: "mem68_pushw E v s = write68 E SzW ?a v ?t"
    by (simp add: mem68_pushw_def Let_def)
  show "fst (mem68_popw E (mem68_pushw E v s)) = u16_of v"
    unfolding push mem68_popw_def Let_def split_def a read_after_write [OF r(1)]
    using s32_u16 [of v] by simp
  show "reg (snd (mem68_popw E (mem68_pushw E v s))) = reg s"
    unfolding push mem68_popw_def Let_def split_def a snd_conv
    unfolding reg_set_areg read68_ram(2) [OF r(2)] write68_ram(2) [OF r(1)] by simp
  show "mem (snd (mem68_popw E (mem68_pushw E v s))) = mem (mem68_pushw E v s)"
    unfolding push mem68_popw_def Let_def split_def a snd_conv
      set_reg_fields read68_ram(3) [OF r(2)] by (rule refl)
qed

lemma s16_be:
  "push_bit 8 (scast a) OR ucast b = s16_of (push_bit 8 (ucast a) OR ucast b)" for a b :: u8
proof (rule bit_word_eqI)
  fix n assume "n < LENGTH(64)"
  then consider "n < 8" | "8 \<le> n" "n < 16" | "16 \<le> n" "n < 64" by fastforce
  then show "bit (push_bit 8 (scast a) OR ucast b :: int68) n =
    bit (s16_of (push_bit 8 (ucast a) OR ucast b)) n"
    by cases (auto simp: bit_simps min_def dest: bit_imp_le_length)
qed

lemma s32_be:
  "push_bit 24 (scast a) OR push_bit 16 (ucast b) OR push_bit 8 (ucast c) OR ucast d =
   s32_of (sx (push_bit 24 (ucast a) OR push_bit 16 (ucast b) OR push_bit 8 (ucast c) OR ucast d))"
  for a b c d :: u8
proof -
  have "push_bit 24 (scast a) OR push_bit 16 (ucast b) OR push_bit 8 (ucast c) OR ucast d =
   sx (push_bit 24 (ucast a) OR push_bit 16 (ucast b) OR push_bit 8 (ucast c) OR ucast d)"
proof (rule bit_word_eqI)
  fix n assume "n < LENGTH(64)"
  then consider "n < 8" | "8 \<le> n" "n < 16" | "16 \<le> n" "n < 24" | "24 \<le> n" "n < 32" | "32 \<le> n" "n < 64" by fastforce
  then show "bit (push_bit 24 (scast a) OR push_bit 16 (ucast b) OR push_bit 8 (ucast c) OR ucast d :: int68) n =
    bit (sx (push_bit 24 (ucast a) OR push_bit 16 (ucast b) OR push_bit 8 (ucast c) OR ucast d)) n"
    by cases (auto simp: bit_simps min_def dest: bit_imp_le_length)
qed
then show ?thesis by simp
qed

lemma nextw_ram:
  assumes "ram_at s (sx (pc s))"
  shows "fst (mem68_nextw E s) = s16_of (ram_get SzW (mem s) (mem_index s (sx (pc s))))"
    and "reg (snd (mem68_nextw E s)) = reg (set_pc (pc s + 2) s)"
    and "mem (snd (mem68_nextw E s)) = mem s"
  using assms
  by (auto simp: mem68_nextw_def fetch_io_def ram_at_def Let_def memchk_r_def ram_read_def
     mem_index_def be16_or s16_be set_pc_def simp del: of_nat_add)


lemma nextl_ram:
  assumes "ram_at s (sx (pc s))"
  shows "fst (mem68_nextl E s) = s32_of (ram_get SzL (mem s) (mem_index s (sx (pc s))))"
    and "reg (snd (mem68_nextl E s)) = reg (set_pc (pc s + 4) s)"
    and "mem (snd (mem68_nextl E s)) = mem s"
  using assms
  by (auto simp: mem68_nextl_def fetch_io_def ram_at_def Let_def memchk_r_def ram_read_def
     mem_index_def be32_or s32_be set_pc_def simp del: of_nat_add)

lemma mem_reset_areas:
  "mapped_io (fold emu68_mem_reset_area xs s) =
    (\<lambda>a. if a \<in> set xs then (if chk s \<noteq> None then ErrIO else NopIO) else mapped_io s a)"
  by (induction xs arbitrary: s) (auto simp: emu68_mem_reset_area_def fun_eq_iff)

section \<open>Accesses keep the machine frame\<close>

lemma ram_put_beyond: "i + 3 < j \<Longrightarrow> ram_put sz v i m j = m j"
  by (cases sz) (auto simp: Let_def)

lemma chkframe_frame [frame_intros]: "frame68 I s t \<Longrightarrow> frame68 I s (chkframe a f t)"
proof (erule frame68_trans)
  have "unat (a AND memmsk t) \<le> unat (memmsk t)"
    by (simp add: word_and_le1 flip: word_le_nat_alt)
  then show "frame68 I t (chkframe a f t)"
    by (auto simp: chkframe_def frame68_def Let_def split: option.split)
qed

lemma chkframe_sz_frame [frame_intros]: "frame68 I s t \<Longrightarrow> frame68 I s (chkframe_sz sz f t)"
  by (cases sz) (auto simp: Let_def intro!: frame_intros)

lemma ram_read_frame [frame_intros]: "frame68 I s t \<Longrightarrow> frame68 I s (ram_read sz t)"
  by (auto simp: ram_read_def intro!: frame_intros)

lemma ram_write_frame [frame_intros]: "frame68 I s t \<Longrightarrow> frame68 I s (ram_write sz t)"
proof (erule frame68_trans)
  show "frame68 I t (ram_write sz t)"
    using mem_index_le [of t "bus_addr t"]
    by (auto simp: frame68_def ram_write_def ram_put_beyond)
qed

lemma private_io_frame [frame_intros]:
  "frame68 I s t \<Longrightarrow> frame68 I s (memchk_r sz t)" "frame68 I s t \<Longrightarrow> frame68 I s (memchk_w sz t)"
  "frame68 I s t \<Longrightarrow> frame68 I s (fault_ra sz t)" "frame68 I s t \<Longrightarrow> frame68 I s (fault_wa sz t)"
  "frame68 I s t \<Longrightarrow> frame68 I s (nop_rwa t)"
  by (auto simp: memchk_r_def memchk_w_def fault_ra_def fault_wa_def nop_rwa_def Let_def
      intro!: frame_intros)

context env_frame
begin

lemma io_frame [frame_intros]:
  "frame68 I s t \<Longrightarrow> frame68 I s (io_r E io sz t)" "frame68 I s t \<Longrightarrow> frame68 I s (io_w E io sz t)"
  by (cases io; auto intro!: frame_intros intro: frame68_trans read_frame write_frame)+

lemma access_frame [frame_intros]:
  "frame68 I s t \<Longrightarrow> frame68 I s (mem68_read E sz t)"
  "frame68 I s t \<Longrightarrow> frame68 I s (mem68_write E sz t)"
  "frame68 I s t \<Longrightarrow> frame68 I s (snd (read68 E sz a t))"
  "frame68 I s t \<Longrightarrow> frame68 I s (write68 E sz a v t)"
  by (auto simp: mem68_read_def mem68_write_def read68_def write68_def Let_def
      split: option.split intro!: frame_intros)

lemma fetch_frame [frame_intros]:
  "frame68 I s t \<Longrightarrow> frame68 I s (snd (mem68_nextw E t))"
  "frame68 I s t \<Longrightarrow> frame68 I s (snd (mem68_nextl E t))"
  by (auto simp: mem68_nextw_def mem68_nextl_def Let_def split: option.split
      intro!: frame_intros)

lemma stack_frame [frame_intros]:
  "frame68 I s t \<Longrightarrow> frame68 I s (mem68_pushw E v t)"
  "frame68 I s t \<Longrightarrow> frame68 I s (mem68_pushl E v t)"
  "frame68 I s t \<Longrightarrow> frame68 I s (snd (mem68_popw E t))"
  "frame68 I s t \<Longrightarrow> frame68 I s (snd (mem68_popl E t))"
  by (auto simp: mem68_pushw_def mem68_pushl_def mem68_popw_def mem68_popl_def Let_def split_def
      intro!: frame_intros)

end

end
