(* ===== verification/Getea68.thy ===== *)
theory Getea68
  imports Mem68
begin

text \<open>
  Exception processing (\<open>exception68\<close> of \<open>emu68/inst68.c\<close>, vectors of
  \<open>emu68/excep68.h\<close>), effective address calculation (\<open>emu68/getea68.c\<close>) and the
  accesses through an effective address (\<open>_read_EAB\<close> and its kin in \<open>emu68/mem68.h\<close>).

  In \<open>REG68.a[reg] + get_nextw()\<close> C leaves the order of the two operands open; the
  register is read first here.

  Lemmas: every calculation keeps the machine frame.  The stack frame of an exception, the
  double fault, and predecrement against postincrement are the subject of \<open>Flow68\<close>.
\<close>

section \<open>Exceptions\<close>

definition HWTRACE_VECTOR :: nat where "HWTRACE_VECTOR = 0x120"
definition HWHALT_VECTOR :: nat where "HWHALT_VECTOR = 0x121"
definition HWSTOP_VECTOR :: nat where "HWSTOP_VECTOR = 0x122"
definition HWRESET_VECTOR :: nat where "HWRESET_VECTOR = 0x123"
definition HWINIT_VECTOR :: nat where "HWINIT_VECTOR = 0x124"
definition HWINSTOV_VECTOR :: nat where "HWINSTOV_VECTOR = 0x125"
definition RESET_SP_VECTOR :: nat where "RESET_SP_VECTOR = 0"
definition RESET_PC_VECTOR :: nat where "RESET_PC_VECTOR = 1"
definition BUSERR_VECTOR :: nat where "BUSERR_VECTOR = 2"
definition ADRERR_VECTOR :: nat where "ADRERR_VECTOR = 3"
definition ILLEGAL_VECTOR :: nat where "ILLEGAL_VECTOR = 4"
definition DIVIDE_VECTOR :: nat where "DIVIDE_VECTOR = 5"
definition CHK_VECTOR :: nat where "CHK_VECTOR = 6"
definition TRAPV_VECTOR :: nat where "TRAPV_VECTOR = 7"
definition PRIVV_VECTOR :: nat where "PRIVV_VECTOR = 8"
definition TRACE_VECTOR :: nat where "TRACE_VECTOR = 9"
definition LINEA_VECTOR :: nat where "LINEA_VECTOR = 10"
definition LINEF_VECTOR :: nat where "LINEF_VECTOR = 11"
definition TRAP_VECTOR :: "nat \<Rightarrow> nat" where "TRAP_VECTOR n = n mod 16 + 0x20"

text \<open>The vectors of the exceptions other than reset and the access faults.\<close>

lemmas vector_defs = ILLEGAL_VECTOR_def DIVIDE_VECTOR_def CHK_VECTOR_def TRAPV_VECTOR_def
  PRIVV_VECTOR_def TRACE_VECTOR_def LINEA_VECTOR_def LINEF_VECTOR_def TRAP_VECTOR_def
  BUSERR_VECTOR_def ADRERR_VECTOR_def RESET_SP_VECTOR_def RESET_PC_VECTOR_def
  HWTRACE_VECTOR_def HWHALT_VECTOR_def HWSTOP_VECTOR_def HWRESET_VECTOR_def
  HWINIT_VECTOR_def HWINSTOV_VECTOR_def

definition call_handler :: "'c env68 \<Rightarrow> nat \<Rightarrow> 'c emu68 \<Rightarrow> 'c emu68" where
  "call_handler E vector s =
    (case handler s of None \<Rightarrow> s | Some h \<Rightarrow> hdl E h vector s)"

definition exception68 :: "'c env68 \<Rightarrow> nat \<Rightarrow> int \<Rightarrow> 'c emu68 \<Rightarrow> 'c emu68" where
  "exception68 E vector level s =
    (if vector < 0x100 then
       let savesr = sr s;
           savest = status s;
           s = s\<lparr>status := EMU68_XCT\<rparr>;
           s = set_sr (sr s AND NOT (lo32 SR_T)) s;
           s = set_sr (sr s OR lo32 SR_S) s
       in if savest = EMU68_XCT \<and> (vector = BUSERR_VECTOR \<or> vector = ADRERR_VECTOR) then
            let s = s\<lparr>status := EMU68_HLT\<rparr>;
                s = call_handler E HWHALT_VECTOR s
            in if status s = EMU68_HLT then emu68_error_add (DoubleFault (inst_pc s) vector) s
               else s
          else if vector = RESET_SP_VECTOR then
            let s = set_sr (sr s OR lo32 SR_I) s;
                (v, s) = read68 E SzL (of_nat (RESET_SP_VECTOR * 4)) s;
                s = set_areg 7 (lo32 v) s;
                (v, s) = read68 E SzL (of_nat (RESET_PC_VECTOR * 4)) s;
                s = set_pc (lo32 v) s
            in call_handler E vector s
          else
            let s = (if 0 \<le> level \<and> level < 8 then set_sr (SET_IPL (sr s) (of_int level)) s
                     else s);
                s = mem68_pushl E (sx (pc s)) s;
                s = mem68_pushw E (sx savesr) s;
                (v, s) = read68 E SzL (of_nat (vector * 4)) s;
                s = set_pc (lo32 v) s;
                s = s\<lparr>status := savest\<rparr>
            in call_handler E vector s
     else call_handler E vector s)"

text \<open>\<open>buserror68\<close>, \<open>linea68\<close>, \<open>linef68\<close>.\<close>

definition buserror68 :: "'c env68 \<Rightarrow> int \<Rightarrow> int \<Rightarrow> 'c emu68 \<Rightarrow> 'c emu68" where
  "buserror68 E addr mode s = exception68 E BUSERR_VECTOR (-1) s"

definition linea68 :: "'c env68 \<Rightarrow> 'c emu68 \<Rightarrow> 'c emu68" where
  "linea68 E s = exception68 E LINEA_VECTOR (-1) s"

definition linef68 :: "'c env68 \<Rightarrow> 'c emu68 \<Rightarrow> 'c emu68" where
  "linef68 E s = exception68 E LINEF_VECTOR (-1) s"

section \<open>Effective addresses\<close>

definition ea_error :: "'c env68 \<Rightarrow> nat \<Rightarrow> 'c emu68 \<Rightarrow> int68 \<times> 'c emu68" where
  "ea_error E r s = (0, exception68 E ADRERR_VECTOR (-1) s)"

definition ea_inAN :: "'c env68 \<Rightarrow> nat \<Rightarrow> 'c emu68 \<Rightarrow> int68 \<times> 'c emu68" where
  "ea_inAN E r s = (sx (areg s r), s)"

text \<open>The step of \<open>(An)+\<close> and \<open>-(An)\<close>: \<open>1 + (reg==7)\<close>, \<open>2\<close>, \<open>4\<close>.\<close>

fun ea_step :: "size68 \<Rightarrow> nat \<Rightarrow> s32" where
  "ea_step SzB r = 1 + of_bool (r = 7)"
| "ea_step SzW r = 2"
| "ea_step SzL r = 4"

definition ea_inANp :: "'c env68 \<Rightarrow> size68 \<Rightarrow> nat \<Rightarrow> 'c emu68 \<Rightarrow> int68 \<times> 'c emu68" where
  "ea_inANp E sz r s =
    (let addr = sx (areg s r)
     in (addr, set_areg r (areg s r + ea_step sz r) s))"

definition ea_inmAN :: "'c env68 \<Rightarrow> size68 \<Rightarrow> nat \<Rightarrow> 'c emu68 \<Rightarrow> int68 \<times> 'c emu68" where
  "ea_inmAN E sz r s =
    (let s = set_areg r (areg s r - ea_step sz r) s
     in (sx (areg s r), s))"

definition ea_indAN :: "'c env68 \<Rightarrow> nat \<Rightarrow> 'c emu68 \<Rightarrow> int68 \<times> 'c emu68" where
  "ea_indAN E r s =
    (let a = sx (areg s r);
         (w, s) = mem68_nextw E s
     in (s32_of (a + w), s))"

text \<open>The index register of a brief extension word \<open>w\<close>: long, or a sign extended word.\<close>

definition index_reg :: "int68 \<Rightarrow> 'c emu68 \<Rightarrow> int68" where
  "index_reg w s =
    (let reg2 = unat (signed_drop_bit 12 w AND 15)
     in if w AND 0x800 \<noteq> 0 then sx (dreg s reg2) else s16_of (sx (dreg s reg2)))"

definition ea_inANXI :: "'c env68 \<Rightarrow> nat \<Rightarrow> 'c emu68 \<Rightarrow> int68 \<times> 'c emu68" where
  "ea_inANXI E r s =
    (let (w, s) = mem68_nextw E s;
         reg2 = index_reg w s
     in (s32_of (sx (areg s r) + s8_of w + reg2), s))"

definition ea_inABSW :: "'c env68 \<Rightarrow> nat \<Rightarrow> 'c emu68 \<Rightarrow> int68 \<times> 'c emu68" where
  "ea_inABSW E r s = mem68_nextw E s"

definition ea_inABSL :: "'c env68 \<Rightarrow> nat \<Rightarrow> 'c emu68 \<Rightarrow> int68 \<times> 'c emu68" where
  "ea_inABSL E r s = mem68_nextl E s"

definition ea_inrelPC :: "'c env68 \<Rightarrow> nat \<Rightarrow> 'c emu68 \<Rightarrow> int68 \<times> 'c emu68" where
  "ea_inrelPC E r s =
    (let p = sx (pc s);
         (w, s) = mem68_nextw E s
     in (s32_of (p + w), s))"

definition ea_inPCXI :: "'c env68 \<Rightarrow> nat \<Rightarrow> 'c emu68 \<Rightarrow> int68 \<times> 'c emu68" where
  "ea_inPCXI E r s =
    (let p = sx (pc s);
         (w, s) = mem68_nextw E s;
         p = p + index_reg w s;
         p = p + s8_of w
     in (s32_of p, s))"

fun ea_inIMM :: "'c env68 \<Rightarrow> size68 \<Rightarrow> nat \<Rightarrow> 'c emu68 \<Rightarrow> int68 \<times> 'c emu68" where
  "ea_inIMM E SzB r s = (let p = sx (pc s) in (s32_of (p + 1), set_pc (lo32 (p + 2)) s))"
| "ea_inIMM E SzW r s = (let p = pc s in (sx p, set_pc (p + 2) s))"
| "ea_inIMM E SzL r s = (let p = pc s in (sx p, set_pc (p + 4) s))"

text \<open>The tables \<open>ea_b7\<close>, \<open>ea_w7\<close>, \<open>ea_l7\<close> and \<open>get_eab68\<close>, \<open>get_eaw68\<close>, \<open>get_eal68\<close>.\<close>

definition ea_mode7 :: "'c env68 \<Rightarrow> size68 \<Rightarrow> nat \<Rightarrow> 'c emu68 \<Rightarrow> int68 \<times> 'c emu68" where
  "ea_mode7 E sz r s =
    (if r = 0 then ea_inABSW E r s
     else if r = 1 then ea_inABSL E r s
     else if r = 2 then ea_inrelPC E r s
     else if r = 3 then ea_inPCXI E r s
     else if r = 4 then ea_inIMM E sz r s
     else ea_error E r s)"

definition get_ea68 :: "'c env68 \<Rightarrow> size68 \<Rightarrow> nat \<Rightarrow> nat \<Rightarrow> 'c emu68 \<Rightarrow> int68 \<times> 'c emu68" where
  "get_ea68 E sz mode r s =
    (if mode = 2 then ea_inAN E r s
     else if mode = 3 then ea_inANp E sz r s
     else if mode = 4 then ea_inmAN E sz r s
     else if mode = 5 then ea_indAN E r s
     else if mode = 6 then ea_inANXI E r s
     else if mode = 7 then ea_mode7 E sz r s
     else ea_error E r s)"

text \<open>\<open>_read_EAB\<close>, \<open>_read_EAW\<close>, \<open>_read_EAL\<close> and \<open>_write_EAB\<close>, \<open>_write_EAW\<close>, \<open>_write_EAL\<close>.\<close>

definition read_EA :: "'c env68 \<Rightarrow> size68 \<Rightarrow> nat \<Rightarrow> nat \<Rightarrow> 'c emu68 \<Rightarrow> int68 \<times> 'c emu68" where
  "read_EA E sz mode r s =
    (let (a, s) = get_ea68 E sz mode r s;
         s = s\<lparr>bus_addr := a\<rparr>;
         s = mem68_read E sz s
     in (trunc68 sz (bus_data s), s))"

definition write_EA :: "'c env68 \<Rightarrow> size68 \<Rightarrow> nat \<Rightarrow> nat \<Rightarrow> int68 \<Rightarrow> 'c emu68 \<Rightarrow> 'c emu68" where
  "write_EA E sz mode r v s =
    (let (a, s) = get_ea68 E sz mode r s;
         s = s\<lparr>bus_addr := a\<rparr>;
         s = s\<lparr>bus_data := v\<rparr>
     in mem68_write E sz s)"

section \<open>Frame\<close>

context env_frame
begin

lemma handler_frame [frame_intros]:
  "frame68 I s t \<Longrightarrow> frame68 I s (call_handler E v t)"
  by (auto simp: call_handler_def split: option.split intro: frame68_trans hdl_frame)

lemma exception_frame [frame_intros]:
  "frame68 I s t \<Longrightarrow> frame68 I s (exception68 E v l t)"
  by (auto simp: exception68_def Let_def split_def intro!: frame_intros)

lemma exception_kin_frame [frame_intros]:
  "frame68 I s t \<Longrightarrow> frame68 I s (buserror68 E a m t)"
  "frame68 I s t \<Longrightarrow> frame68 I s (linea68 E t)"
  "frame68 I s t \<Longrightarrow> frame68 I s (linef68 E t)"
  by (auto simp: buserror68_def linea68_def linef68_def intro!: frame_intros)

lemma ea_imm_frame [frame_intros]:
  "frame68 I s t \<Longrightarrow> frame68 I s (snd (ea_inIMM E sz r t))"
  by (cases sz) (auto simp: Let_def intro!: frame_intros)

lemma get_ea_frame [frame_intros]:
  "frame68 I s t \<Longrightarrow> frame68 I s (snd (get_ea68 E sz mode r t))"
  by (auto simp: get_ea68_def ea_mode7_def ea_error_def ea_inAN_def ea_inANp_def ea_inmAN_def
      ea_indAN_def ea_inANXI_def ea_inABSW_def ea_inABSL_def ea_inrelPC_def ea_inPCXI_def
      Let_def split_def intro!: frame_intros)

lemma ea_access_frame [frame_intros]:
  "frame68 I s t \<Longrightarrow> frame68 I s (snd (read_EA E sz mode r t))"
  "frame68 I s t \<Longrightarrow> frame68 I s (write_EA E sz mode r v t)"
  by (auto simp: read_EA_def write_EA_def Let_def split_def intro!: frame_intros)

end

end
