(* ===== verification/Arith68.thy ===== *)
theory Arith68
  imports Getea68
begin

text \<open>
  Arithmetic, logic, bit manipulation and decimal instructions: the inlines of
  \<open>inl68_arithmetic.h\<close>, \<open>inl68_logic.h\<close>, \<open>inl68_bitmanip.h\<close>, \<open>inl68_bcd.h\<close> and the
  test of \<open>inl68_progctrl.h\<close>, which \<open>inst68.c\<close> wraps one by one.

  Byte, word and long operands are normalised (moved to the top of an \<open>int68_t\<close>), so one
  definition serves the three sizes.  The lemmas state each against a reference on
  \<open>'a word\<close> operands: the result is the one of modular arithmetic, and the condition
  codes are those of the exact integer result.
\<close>

section \<open>Arithmetic\<close>

definition inl_add68 :: "int68 \<Rightarrow> int68 \<Rightarrow> int68 \<Rightarrow> 'c emu68 \<Rightarrow> int68 \<times> 'c emu68" where
  "inl_add68 s d c st =
    (let c = c + (s + d);
         r = c;
         c = (signed_drop_bit 63 r AND (SR_V OR SR_C OR SR_X OR SR_N)) XOR SR_V;
         s = (signed_drop_bit 63 s AND (SR_V OR SR_C OR SR_X)) XOR c;
         d = (signed_drop_bit 63 d AND (SR_V OR SR_C OR SR_X)) XOR c;
         c = c AND NOT SR_N;
         c = c OR (SR_V OR push_bit 2 (c_not r));
         c = c XOR (s OR d);
         st = set_sr (lo32 ((sx (sr st) AND 0xFF00) OR c)) st
     in (r, st))"

definition inl_sub68 :: "int68 \<Rightarrow> int68 \<Rightarrow> int68 \<Rightarrow> 'c emu68 \<Rightarrow> int68 \<times> 'c emu68" where
  "inl_sub68 s d c st =
    (let r = d - s - c;
         st = set_sr (lo32 ((sx (sr st) AND 0xFF00)
                OR push_bit 2 (c_not r)
                OR (signed_drop_bit 63 r AND SR_N)
                OR (signed_drop_bit 63 (((d XOR NOT r) AND (s XOR r)) XOR r) AND (SR_C OR SR_X))
                OR (signed_drop_bit 63 ((d XOR r) AND (NOT s XOR r)) AND SR_V))) st
     in (r, st))"

definition inl_cmp68 :: "int68 \<Rightarrow> int68 \<Rightarrow> 'c emu68 \<Rightarrow> 'c emu68" where
  "inl_cmp68 s d st =
    (let r = d - s
     in set_sr (lo32 ((sx (sr st) AND (0xFF00 OR SR_X))
                OR push_bit 2 (c_not r)
                OR (signed_drop_bit 63 r AND SR_N)
                OR (signed_drop_bit 63 (((d XOR NOT r) AND (s XOR r)) XOR r) AND SR_C)
                OR (signed_drop_bit 63 ((d XOR r) AND (NOT s XOR r)) AND SR_V))) st)"

definition inl_neg68 :: "int68 \<Rightarrow> int68 \<Rightarrow> 'c emu68 \<Rightarrow> int68 \<times> 'c emu68" where
  "inl_neg68 d c st =
    (let x = sr st AND 0xFF00;
         c = - d - c;
         r = c;
         x = lo32 (sx x OR push_bit 2 (c_not r));
         d = signed_drop_bit 63 d;
         c = signed_drop_bit 63 c;
         x = lo32 (sx x OR (c AND SR_N));
         x = lo32 (sx x OR ((d OR c) AND (SR_C OR SR_X)));
         x = lo32 (sx x OR ((d AND c) AND SR_V));
         st = set_sr x st
     in (r, st))"

definition inl_muls68 :: "int68 \<Rightarrow> int68 \<Rightarrow> 'c emu68 \<Rightarrow> int68 \<times> 'c emu68" where
  "inl_muls68 s d st =
    (let d = signed_drop_bit 48 d * signed_drop_bit 48 s;
         st = set_sr (lo32 ((sx (sr st) AND (0xFF00 OR SR_X))
                OR push_bit 2 (c_not d)
                OR (signed_drop_bit (31 - 3) d AND SR_N))) st
     in (push_bit 32 d, st))"

definition inl_mulu68 :: "int68 \<Rightarrow> int68 \<Rightarrow> 'c emu68 \<Rightarrow> int68 \<times> 'c emu68" where
  "inl_mulu68 s d st =
    (let d = drop_bit 48 d * drop_bit 48 s;
         st = set_sr (lo32 ((sx (sr st) AND (0xFF00 OR SR_X))
                OR push_bit 2 (c_not d)
                OR (drop_bit (31 - 3) d AND SR_N))) st
     in (push_bit 32 d, st))"

text \<open>\<open>d / s\<close> and \<open>d % s\<close> on \<open>int68_t\<close> truncate towards zero (\<open>s\<close> is not 0 here).\<close>

definition inl_divs68 :: "'c env68 \<Rightarrow> int68 \<Rightarrow> int68 \<Rightarrow> 'c emu68 \<Rightarrow> int68 \<times> 'c emu68" where
  "inl_divs68 E s d st =
    (let x = sx (sr st) AND (0xFF00 OR SR_X);
         s = signed_drop_bit 48 s
     in if s \<noteq> 0 then
          let d = signed_drop_bit 32 d;
              res = word_of_int (sint d sdiv sint s) :: int68;
              rem = word_of_int (sint d smod sint s) :: int68;
              x' = (if s16_of res \<noteq> res then x OR SR_V else x);
              d = (if s16_of res \<noteq> res then d else u16_of res OR push_bit 16 (u16_of rem));
              x' = x' OR push_bit 2 (c_not res);
              x' = x' OR (signed_drop_bit (15 - 3) res AND SR_N);
              st = set_sr (lo32 x') st
          in (push_bit 32 d, st)
        else
          let st = set_sr (lo32 x) st;
              st = exception68 E DIVIDE_VECTOR (-1) st
          in (d, st))"

definition inl_divu68 :: "'c env68 \<Rightarrow> int68 \<Rightarrow> int68 \<Rightarrow> 'c emu68 \<Rightarrow> int68 \<times> 'c emu68" where
  "inl_divu68 E s d st =
    (let x = sx (sr st) AND (0xFF00 OR SR_X);
         s = drop_bit 48 s
     in if s \<noteq> 0 then
          let d = drop_bit 32 d;
              res = d div s;
              rem = d mod s;
              x' = (if u16_of res \<noteq> res then x OR SR_V else x);
              d = (if u16_of res \<noteq> res then d else res OR push_bit 16 rem);
              x' = x' OR push_bit 2 (c_not res);
              x' = x' OR (drop_bit (15 - 3) res AND SR_N);
              st = set_sr (lo32 x') st
          in (push_bit 32 d, st)
        else
          let st = set_sr (lo32 x) st;
              st = exception68 E DIVIDE_VECTOR (-1) st
          in (d, st))"

definition inl_clr68 :: "'c emu68 \<Rightarrow> int68 \<times> 'c emu68" where
  "inl_clr68 st = (0, set_sr (lo32 ((sx (sr st) AND (0xFF00 OR SR_X)) OR SR_Z)) st)"

section \<open>Test and logic\<close>

definition inl_tst68 :: "int68 \<Rightarrow> 'c emu68 \<Rightarrow> 'c emu68" where
  "inl_tst68 a st =
    set_sr (lo32 ((sx (sr st) AND (0xFF00 OR SR_X))
      OR push_bit 2 (c_not a)
      OR (signed_drop_bit (63 - 3) a AND SR_N))) st"

definition inl_tas68 :: "int68 \<Rightarrow> 'c emu68 \<Rightarrow> int68 \<times> 'c emu68" where
  "inl_tas68 d st =
    (let st = inl_tst68 (push_bit 56 d) st
     in (d OR 0x80, st))"

definition inl_and68 :: "int68 \<Rightarrow> int68 \<Rightarrow> 'c emu68 \<Rightarrow> int68 \<times> 'c emu68" where
  "inl_and68 s d st = (let d = d AND s in (d, inl_tst68 d st))"

definition inl_orr68 :: "int68 \<Rightarrow> int68 \<Rightarrow> 'c emu68 \<Rightarrow> int68 \<times> 'c emu68" where
  "inl_orr68 s d st = (let d = d OR s in (d, inl_tst68 d st))"

definition inl_eor68 :: "int68 \<Rightarrow> int68 \<Rightarrow> 'c emu68 \<Rightarrow> int68 \<times> 'c emu68" where
  "inl_eor68 s d st = (let d = d XOR s in (d, inl_tst68 d st))"

definition inl_not68 :: "int68 \<Rightarrow> 'c emu68 \<Rightarrow> int68 \<times> 'c emu68" where
  "inl_not68 d st = (let d = NOT d in (d, inl_tst68 d st))"

section \<open>Bit manipulation\<close>

definition inl_btst68 :: "int68 \<Rightarrow> nat \<Rightarrow> 'c emu68 \<Rightarrow> 'c emu68" where
  "inl_btst68 v n st =
    set_sr (lo32 ((sx (sr st) AND NOT SR_Z)
      OR push_bit 2 (signed_drop_bit n (NOT v) AND 1))) st"

text \<open>\<open>1 << bit\<close> is an \<open>int\<close>.\<close>

definition int_bit :: "nat \<Rightarrow> int68" where
  "int_bit n = sx (push_bit n 1)"

definition inl_bset68 :: "int68 \<Rightarrow> nat \<Rightarrow> 'c emu68 \<Rightarrow> int68 \<times> 'c emu68" where
  "inl_bset68 v n st = (v OR int_bit n, inl_btst68 v n st)"

definition inl_bclr68 :: "int68 \<Rightarrow> nat \<Rightarrow> 'c emu68 \<Rightarrow> int68 \<times> 'c emu68" where
  "inl_bclr68 v n st = (v AND NOT (int_bit n), inl_btst68 v n st)"

definition inl_bchg68 :: "int68 \<Rightarrow> nat \<Rightarrow> 'c emu68 \<Rightarrow> int68 \<times> 'c emu68" where
  "inl_bchg68 v n st = (v XOR int_bit n, inl_btst68 v n st)"

section \<open>Binary coded decimal\<close>

text \<open>These work on \<open>int\<close> operands that are not normalised.\<close>

definition inl_abcd68 :: "s32 \<Rightarrow> s32 \<Rightarrow> 'c emu68 \<Rightarrow> s32 \<times> 'c emu68" where
  "inl_abcd68 a b st =
    (let x = signed_drop_bit 4 (sr st) AND 1;
         a = a + (b + x);
         b = a;
         x = sr st AND lo32 SR_Z;
         a = (if 9 < a AND 15 then a + 6 else a);
         x = (if 0x90 <s a then x OR lo32 (SR_C OR SR_X) else x);
         a = (if 0x90 <s a then a + 0x60 else a);
         a = ucast (ucast a :: u8);
         x = (if a \<noteq> 0 then x AND NOT (lo32 SR_Z) else x);
         x = x OR signed_drop_bit (7 - 3) (a AND 0x80);
         x = x OR signed_drop_bit (7 - 1) (NOT b AND a AND 0x80);
         st = set_sr (SET_CCR (sr st) x) st
     in (a, st))"

definition inl_sbcd68 :: "s32 \<Rightarrow> s32 \<Rightarrow> 'c emu68 \<Rightarrow> s32 \<times> 'c emu68" where
  "inl_sbcd68 a b st =
    (let x = signed_drop_bit 4 (sr st) AND 1;
         r = a - b - x;
         r = (if (a AND 15) < (b AND 15) + x then r - 6 else r);
         b = a;
         x = sr st AND lo32 SR_Z;
         x = (if r AND 0x80 \<noteq> 0 then x OR lo32 (SR_C OR SR_X) else x);
         r = (if r AND 0x80 \<noteq> 0 then r - 0x60 else r);
         a = ucast (ucast r :: u8);
         x = (if a \<noteq> 0 then x AND NOT (lo32 SR_Z) else x);
         x = x OR signed_drop_bit (7 - 3) (a AND 0x80);
         x = x OR signed_drop_bit (7 - 1) (b AND NOT a AND 0x80);
         st = set_sr (SET_CCR (sr st) x) st
     in (a, st))"

definition inl_nbcd68 :: "s32 \<Rightarrow> 'c emu68 \<Rightarrow> s32 \<times> 'c emu68" where
  "inl_nbcd68 a st = inl_sbcd68 0 a st"

section \<open>Reference condition codes\<close>

text \<open>
  The status register an operation must leave, from the exact result on integers: \<open>mk_ccr\<close>
  packs X, N, Z, V, C; the system byte is kept; comparison, test, product and quotient
  keep X too.
\<close>

definition mk_ccr :: "bool \<Rightarrow> bool \<Rightarrow> bool \<Rightarrow> bool \<Rightarrow> bool \<Rightarrow> s32" where
  "mk_ccr x n z v c =
    (if x then 16 else 0) OR (if n then 8 else 0) OR (if z then 4 else 0) OR
    (if v then 2 else 0) OR (if c then 1 else 0)"

definition add_sr :: "s32 \<Rightarrow> 'a::len word \<Rightarrow> 'a word \<Rightarrow> bool \<Rightarrow> s32" where
  "add_sr old a b x =
    (let r = b + a + of_bool x;
         c = 2 ^ LENGTH('a) \<le> uint a + uint b + of_bool x;
         v = sint a + sint b + of_bool x \<noteq> sint r
     in (old AND 0xFF00) OR mk_ccr c (neg_w r) (r = 0) v c)"

definition sub_sr :: "s32 \<Rightarrow> 'a::len word \<Rightarrow> 'a word \<Rightarrow> bool \<Rightarrow> s32" where
  "sub_sr old a b x =
    (let r = b - a - of_bool x;
         c = uint b < uint a + of_bool x;
         v = sint b - sint a - of_bool x \<noteq> sint r
     in (old AND 0xFF00) OR mk_ccr c (neg_w r) (r = 0) v c)"

definition cmp_sr :: "s32 \<Rightarrow> 'a::len word \<Rightarrow> 'a word \<Rightarrow> s32" where
  "cmp_sr old a b =
    (let r = b - a
     in (old AND 0xFF10) OR
        mk_ccr False (neg_w r) (r = 0) (sint b - sint a \<noteq> sint r) (uint b < uint a))"

definition tst_sr :: "s32 \<Rightarrow> 'a::len word \<Rightarrow> s32" where
  "tst_sr old r = (old AND 0xFF10) OR mk_ccr False (neg_w r) (r = 0) False False"

definition div_sr :: "s32 \<Rightarrow> int \<Rightarrow> bool \<Rightarrow> s32" where
  "div_sr old q overflow = (old AND 0xFF10) OR mk_ccr False (bit q 15) (q = 0) overflow False"

definition divu_result :: "u16 \<Rightarrow> s32 \<Rightarrow> s32" where
  "divu_result a b =
    (if uint b div uint a < 2 ^ 16 then word_of_int (uint b mod uint a * 2 ^ 16 + uint b div uint a)
     else b)"

definition divs_result :: "u16 \<Rightarrow> s32 \<Rightarrow> s32" where
  "divs_result a b =
    (let q = sint b sdiv sint a; r = sint b smod sint a
     in if - (2 ^ 15) \<le> q \<and> q < 2 ^ 15 then
          word_of_int (take_bit 16 r * 2 ^ 16 + take_bit 16 q)
        else b)"

section \<open>The operations meet the reference\<close>

lemma add68_word:
  fixes a b :: "'a::len word"
  assumes "LENGTH('a) \<le> 32"
  shows "inl_add68 (nrm a) (nrm b) (nrm (of_bool x :: 'a word)) st =
     (nrm (b + a + of_bool x), set_sr (add_sr (sr st) a b x) st)"
proof -
  let ?r = "b + a + of_bool x"
  have l: "LENGTH('a) \<le> 64" using assms by simp
  have r: "?r = a + b + of_bool x" by simp
  have z: "?r = 0 \<Longrightarrow> \<not> neg_w ?r" by (simp add: neg_w_def)
  show ?thesis
    using z
    unfolding inl_add68_def Let_def nrm_add3 [OF l] asr_sign [OF l] c_not_nrm [OF l]
     add_sr_def add_carry_signs [OF r] add_overflow_signs [OF r] mk_ccr_def sr_defs lo32_or lo32_and
     by (cases "neg_w a"; cases "neg_w b"; cases "neg_w (b + a + of_bool x)"; cases "b + a + of_bool x = 0"; simp only: simp_thms if_True if_False refl; simp)
qed

lemma sub68_word:
  fixes a b :: "'a::len word"
  assumes "LENGTH('a) \<le> 32"
  shows "inl_sub68 (nrm a) (nrm b) (nrm (of_bool x :: 'a word)) st =
     (nrm (b - a - of_bool x), set_sr (sub_sr (sr st) a b x) st)"
proof -
  let ?r = "b - a - of_bool x"
  have l: "LENGTH('a) \<le> 64" using assms by simp
  show ?thesis
    unfolding inl_sub68_def Let_def nrm_sub3 [OF l] asr63 neg_w_bitops neg_nrm [OF l] c_not_nrm [OF l]
     sub_sr_def sub_borrow_signs [OF refl] sub_overflow_signs [OF refl] mk_ccr_def sr_defs lo32_or lo32_and
     by (cases "neg_w a"; cases "neg_w b"; cases "neg_w ?r"; cases "?r = 0"; simp only: simp_thms if_True if_False refl; simp)
qed

lemma cmp68_word:
  fixes a b :: "'a::len word"
  assumes "LENGTH('a) \<le> 32"
  shows "inl_cmp68 (nrm a) (nrm b) st = set_sr (cmp_sr (sr st) a b) st"
proof -
  let ?r = "b - a"
  have l: "LENGTH('a) \<le> 64" using assms by simp
  show ?thesis
    unfolding inl_cmp68_def Let_def nrm_minus [OF l, symmetric] asr63 neg_w_bitops neg_nrm [OF l] c_not_nrm [OF l]
     cmp_sr_def sub_borrow_signs [where x=False, simplified, OF refl] sub_overflow_signs [where x=False, simplified, OF refl] mk_ccr_def sr_defs lo32_or lo32_and
     by (cases "neg_w a"; cases "neg_w b"; cases "neg_w ?r"; cases "?r = 0"; simp only: simp_thms if_True if_False refl; simp)
qed

lemma neg68_word:
  fixes b :: "'a::len word"
  assumes "LENGTH('a) \<le> 32"
  shows "inl_neg68 (nrm b) (nrm (of_bool x :: 'a word)) st =
     (nrm (0 - b - of_bool x), set_sr (sub_sr (sr st) b 0 x) st)"
proof -
  let ?r = "0 - b - of_bool x"
  have l: "LENGTH('a) \<le> 64" using assms by simp
  have r: "- nrm b - nrm (of_bool x :: 'a word) = nrm ?r" 
   by (simp add: nrm_minus nrm_uminus l)
  have z: "\<not> neg_w (0::'a word)" by (simp add: neg_w_def)
  show ?thesis
    unfolding inl_neg68_def Let_def r asr63 neg_w_bitops neg_nrm [OF l] c_not_nrm [OF l]
     sub_sr_def sub_borrow_signs [OF refl] sub_overflow_signs [OF refl] mk_ccr_def sr_defs lo32_or lo32_and cast_roundtrips
    using z
    by (cases "neg_w b"; cases "neg_w ?r"; cases "?r = 0"; simp only: simp_thms if_True if_False refl; simp add: or.assoc)
qed

lemma tst68_word:
  assumes "LENGTH('a) \<le> 32"
  shows "inl_tst68 (nrm (a :: 'a::len word)) st = set_sr (tst_sr (sr st) a) st"
proof -
  have l: "LENGTH('a) \<le> 64" using assms by simp
  show ?thesis
    by (cases "neg_w a"; cases "a = 0";
      simp add: nrm_eq_0 inl_tst68_def sr_defs sign_to_N neg_nrm l c_not_nrm lo32_or lo32_and tst_sr_def mk_ccr_def c_not_def)
qed

lemma mul_fits:
  fixes a b :: int
  assumes "\<bar>a\<bar> \<le> 2 ^ 15" "\<bar>b\<bar> \<le> 2 ^ 15"
  shows "\<bar>a * b\<bar> \<le> 2 ^ 30"
  using mult_mono [OF assms] by (simp add: abs_mult)

lemma sint16_bound: "\<bar>sint (a :: u16)\<bar> \<le> 2 ^ 15"
  using sint_lt [of a] sint_ge [of a] by simp

lemma muls68_word:
  fixes a b :: u16
  defines "p \<equiv> scast b * scast a :: s32"
  shows "inl_muls68 (nrm a) (nrm b) st = (nrm p, set_sr (tst_sr (sr st) p) st)"
    and "sint p = sint b * sint a"
proof -
  have fits: "\<bar>sint b * sint a\<bar> \<le> 2 ^ 30" by (rule mul_fits; rule sint16_bound)
  have pi: "p = word_of_int (sint b * sint a)" by (simp add: p_def)
  show exact: "sint p = sint b * sint a"
    unfolding pi sint_sbintrunc' using fits by (simp add: signed_take_bit_int_eq_self)
  let ?d = "scast b * scast a :: int68"
  have sc: "?d = sx p" by (simp add: exact scast_eq [of p])
  have d: "signed_drop_bit 48 (nrm b) * signed_drop_bit 48 (nrm a) = ?d"
    using asr_nrm [of b] asr_nrm [of a] by simp
  have z: "c_not (sx p) = (if p = 0 then 1 else 0)"
    using cast_roundtrips(1) [of p] by (auto simp: c_not_def simp del: cast_roundtrips)
  have n: "signed_drop_bit 28 (sx p) AND 8 = (if neg_w p then 8 else 0)"
    by (rule bit_word_eqI) (auto simp: bit_simps bit_8 neg_w_def)
  have r: "push_bit 32 (sx p) = nrm p"
    using nrm_ucast [where 'a=32, of "sx p"] by simp
  show "inl_muls68 (nrm a) (nrm b) st = (nrm p, set_sr (tst_sr (sr st) p) st)"
    unfolding inl_muls68_def Let_def d sc r
    by (cases "neg_w p"; cases "p = 0"; simp add: sr_defs n z [simplified c_not_def] c_not_def lo32_or lo32_and tst_sr_def mk_ccr_def)
qed

lemma mulu68_word:
  fixes a b :: u16
  defines "p \<equiv> ucast b * ucast a :: s32"
  shows "inl_mulu68 (nrm a) (nrm b) st = (nrm p, set_sr (tst_sr (sr st) p) st)"
    and "uint p = uint b * uint a"
proof -
  have fits: "uint b * uint a < 2 ^ 32"
  proof -
    have "uint b * uint a \<le> 0xFFFF * 0xFFFF"
      using uint_lt2p [of a] uint_lt2p [of b] by (intro mult_mono) auto
    then show ?thesis by simp
  qed
  have pi: "p = word_of_int (uint b * uint a)" by (simp add: p_def)
  show exact: "uint p = uint b * uint a"
    unfolding pi uint_word_of_int using fits by (simp)
  let ?d = "ucast b * ucast a :: int68"
  have sc: "?d = ucast p" 
  proof -
    have "uint (ucast p :: int68) = uint b * uint a" by (simp add: uint_up_ucast is_up exact)
    moreover have "uint ?d = uint b * uint a"
      using fits by (simp add: uint_word_ariths uint_up_ucast is_up)
    ultimately show ?thesis by (simp add: word_uint_eq_iff)
  qed
  have d: "drop_bit 48 (nrm b) * drop_bit 48 (nrm a) = ?d"
    using drop_nrm [of b] drop_nrm [of a] by simp
  have z: "c_not (ucast p) = (if p = 0 then 1 else 0)"
    using cast_roundtrips(4) [of p] by (auto simp: c_not_def simp del: cast_roundtrips)
  have n: "drop_bit 28 (ucast p :: int68) AND 8 = (if neg_w p then 8 else 0)"
    by (rule bit_word_eqI) (auto simp: bit_simps bit_8 neg_w_def)
  have r: "push_bit 32 (ucast p) = nrm p"
    by (simp add: nrm_def)
  show "inl_mulu68 (nrm a) (nrm b) st = (nrm p, set_sr (tst_sr (sr st) p) st)"
    unfolding inl_mulu68_def Let_def d sc r
    by (cases "neg_w p"; cases "p = 0"; simp add: sr_defs n z [simplified c_not_def] c_not_def lo32_or lo32_and tst_sr_def mk_ccr_def)
qed

lemma divu68_word:
  assumes "a \<noteq> 0"
  shows "inl_divu68 E (nrm a) (nrm b) st =
    (nrm (divu_result a b),
     set_sr (div_sr (sr st) (uint b div uint a) (2 ^ 16 \<le> uint b div uint a)) st)"
proof -
  define q r where "q = uint b div uint a" and "r = uint b mod uint a"
  have a: "0 < uint a"
    using assms uint_ge_0 [of a] unsigned_eq_0_iff [of a] by (metis order_le_less)
  have s: "drop_bit 48 (nrm a) = ucast a" and d: "drop_bit 32 (nrm b) = ucast b"
    using drop_nrm [of a] drop_nrm [of b] by simp_all
  have "uint (ucast a :: int68) = uint a" by (simp add: uint_up_ucast is_up)
  then have sa: "(ucast a :: int68) \<noteq> 0" using a by auto
  have "q \<le> uint b" unfolding q_def using a zdiv_mono2 [of "uint b" 1 "uint a"] by simp
  then have q0: "0 \<le> q" "q < 2 ^ 32"
    using uint_lt2p [of b] a by (simp_all add: q_def pos_imp_zdiv_nonneg_iff)
  have r0: "0 \<le> r" "r < 2 ^ 16"
    using uint_lt2p [of a] pos_mod_bound [OF a, of "uint b"] a
    by (auto simp: r_def simp del: pos_mod_bound intro: order.strict_trans)
  have res: "ucast b div ucast a = (word_of_int q :: int68)" 
    unfolding q_def word_div_def by (simp add: uint_up_ucast is_up)
  have rem: "ucast b mod ucast a = (word_of_int r :: int68)" 
    unfolding r_def word_mod_def by (simp add: uint_up_ucast is_up)
  have uq: "uint (word_of_int q :: int68) = q" using q0 by (simp add: uint_word_of_int)
  have u16: "uint (u16_of (word_of_int q)) = take_bit 16 q"
    by (simp add: u16_of_int uint_word_of_int_eq take_bit_eq_mod)
  have "u16_of (word_of_int q) = (word_of_int q :: int68) \<longleftrightarrow> take_bit 16 q = q"
    unfolding word_uint_eq_iff u16 uq ..
  then have fit: "u16_of (word_of_int q) = (word_of_int q :: int68) \<longleftrightarrow> q < 2 ^ 16"
    using q0 by (simp add: take_bit_int_eq_self_iff)
  have n: "drop_bit 12 (word_of_int q :: int68) AND 8 = (if bit q 15 then 8 else 0)" 
    by (rule bit_word_eqI) (auto simp: bit_simps bit_8)
  have z: "(word_of_int q :: int68) = 0 \<longleftrightarrow> q = 0"
    using uq by (metis uint_0_eq word_of_int_0)
  define R :: int68 where "R = word_of_int q OR push_bit 16 (word_of_int r)"
  have v: "push_bit 32 R = nrm (divu_result a b)" if "q < 2 ^ 16"
    using that unfolding R_def divu_result_def q_def [symmetric] r_def [symmetric]
    by (simp only: if_True nrm32_of_int wi_push word_wi_log_defs pack16 [OF q0(1) that])
  have w: "push_bit 32 (ucast b) = nrm (divu_result a b)" if "\<not> q < 2 ^ 16"
    using that unfolding divu_result_def q_def [symmetric] by (simp add: nrm_def)
  show ?thesis
    unfolding inl_divu68_def Let_def s d res rem R_def [symmetric] fit q_def [symmetric]
    by (cases "q < 2 ^ 16"; cases "q = 0"; cases "bit q 15")
       (auto simp: sr_defs sa n z c_not_def v w div_sr_def mk_ccr_def lo32_or lo32_and or.assoc)
qed

lemma divs68_word:
  fixes a :: u16 and b :: s32
  assumes "a \<noteq> 0"
  defines "q \<equiv> sint b sdiv sint a"
  shows "inl_divs68 E (nrm a) (nrm b) st =
    (nrm (divs_result a b),
     set_sr (div_sr (sr st) q (\<not> (- (2 ^ 15) \<le> q \<and> q < 2 ^ 15))) st)"
proof -
  define r where "r = sint b smod sint a"
  have s: "signed_drop_bit 48 (nrm a) = scast a" and d: "signed_drop_bit 32 (nrm b) = scast b"
    using asr_nrm [of a] asr_nrm [of b] by simp_all
  have ss: "sint (scast a :: int68) = sint a" "sint (scast b :: int68) = sint b" 
    by (simp_all add: sint_up_scast is_up)
  have "sint a \<noteq> 0" using assms(1) sint_eq_iff [of a 0] by simp
  then have sa: "(scast a :: int68) \<noteq> 0" using ss(1) by auto
  have "\<bar>q\<bar> \<le> \<bar>sint b\<bar>" unfolding q_def by (rule abs_sdiv_le) fact
  then have q0: "- (2 ^ 31) \<le> q" "q \<le> 2 ^ 31"
    using sint_lt [of b] sint_ge [of b] by (simp_all)
  have uq: "sint (word_of_int q :: int68) = q"
    using q0 by (simp add: sint_sbintrunc' signed_take_bit_int_eq_self)
  have u16: "sint (s16_of (word_of_int q)) = signed_take_bit 15 q"
    using signed_take_bit_int_less_exp [of 15 q] signed_take_bit_int_greater_eq_minus_exp [of 15 q]
    unfolding s16_of_int sint_sbintrunc' by (simp add: signed_take_bit_int_eq_self)
  have "s16_of (word_of_int q) = (word_of_int q :: int68) \<longleftrightarrow> signed_take_bit 15 q = q"
    unfolding sint_eq_iff u16 uq ..
  then have fit: "s16_of (word_of_int q) = (word_of_int q :: int68) \<longleftrightarrow> - (2 ^ 15) \<le> q \<and> q < 2 ^ 15"
    by (simp add: signed_take_bit_int_eq_self_iff)
  have n: "signed_drop_bit 12 (word_of_int q :: int68) AND 8 = (if bit q 15 then 8 else 0)"
    by (rule bit_word_eqI) (auto simp: bit_simps bit_8)
  have z: "(word_of_int q :: int68) = 0 \<longleftrightarrow> q = 0"
    using uq by (metis signed_0 word_of_int_0)
  define R :: int68 where "R = u16_of (word_of_int q) OR push_bit 16 (u16_of (word_of_int r))"
  have v: "push_bit 32 R = nrm (divs_result a b)" if "- (2 ^ 15) \<le> q \<and> q < 2 ^ 15"
    using that unfolding R_def divs_result_def Let_def q_def [symmetric] r_def [symmetric] u16_of_int
    using pack16 [of "take_bit 16 q" "take_bit 16 r"]
    by (simp only: if_True nrm32_of_int wi_push word_wi_log_defs take_bit_nonnegative take_bit_int_less_exp simp_thms)
  have w: "push_bit 32 (scast b) = nrm (divs_result a b)" if "\<not> (- (2 ^ 15) \<le> q \<and> q < 2 ^ 15)"
    using that unfolding divs_result_def Let_def q_def [symmetric] by (auto simp: nrm_scast32)
  show ?thesis
    unfolding inl_divs68_def Let_def s d ss q_def [symmetric] r_def [symmetric] R_def [symmetric] fit
    by (cases "- (2 ^ 15) \<le> q \<and> q < 2 ^ 15"; cases "q = 0"; cases "bit q 15")
       (auto simp: sr_defs sa n z c_not_def v w div_sr_def mk_ccr_def lo32_or lo32_and or.assoc)
qed

section \<open>Frame\<close>

lemma arith_frame [frame_intros]:
  "frame68 I s t \<Longrightarrow> frame68 I s (snd (inl_add68 a b c t))"
  "frame68 I s t \<Longrightarrow> frame68 I s (snd (inl_sub68 a b c t))"
  "frame68 I s t \<Longrightarrow> frame68 I s (inl_cmp68 a b t)"
  "frame68 I s t \<Longrightarrow> frame68 I s (snd (inl_neg68 a c t))"
  "frame68 I s t \<Longrightarrow> frame68 I s (snd (inl_muls68 a b t))"
  "frame68 I s t \<Longrightarrow> frame68 I s (snd (inl_mulu68 a b t))"
  "frame68 I s t \<Longrightarrow> frame68 I s (snd (inl_clr68 t))"
  "frame68 I s t \<Longrightarrow> frame68 I s (inl_tst68 a t)"
  "frame68 I s t \<Longrightarrow> frame68 I s (inl_btst68 a n t)"
  "frame68 I s t \<Longrightarrow> frame68 I s (snd (inl_abcd68 i j t))"
  "frame68 I s t \<Longrightarrow> frame68 I s (snd (inl_sbcd68 i j t))"
  by (auto simp: inl_add68_def inl_sub68_def inl_cmp68_def inl_neg68_def inl_muls68_def
      inl_mulu68_def inl_clr68_def inl_tst68_def inl_btst68_def inl_abcd68_def inl_sbcd68_def
      Let_def intro!: frame_intros)

lemma logic_frame [frame_intros]:
  "frame68 I s t \<Longrightarrow> frame68 I s (snd (inl_tas68 a t))"
  "frame68 I s t \<Longrightarrow> frame68 I s (snd (inl_and68 a b t))"
  "frame68 I s t \<Longrightarrow> frame68 I s (snd (inl_orr68 a b t))"
  "frame68 I s t \<Longrightarrow> frame68 I s (snd (inl_eor68 a b t))"
  "frame68 I s t \<Longrightarrow> frame68 I s (snd (inl_not68 a t))"
  "frame68 I s t \<Longrightarrow> frame68 I s (snd (inl_bset68 a n t))"
  "frame68 I s t \<Longrightarrow> frame68 I s (snd (inl_bclr68 a n t))"
  "frame68 I s t \<Longrightarrow> frame68 I s (snd (inl_bchg68 a n t))"
  "frame68 I s t \<Longrightarrow> frame68 I s (snd (inl_nbcd68 i t))"
  by (auto simp: inl_tas68_def inl_and68_def inl_orr68_def inl_eor68_def inl_not68_def
      inl_bset68_def inl_bclr68_def inl_bchg68_def inl_nbcd68_def Let_def intro!: frame_intros)

context env_frame
begin

lemma div_frame [frame_intros]:
  "frame68 I s t \<Longrightarrow> frame68 I s (snd (inl_divs68 E a b t))"
  "frame68 I s t \<Longrightarrow> frame68 I s (snd (inl_divu68 E a b t))"
  by (auto simp: inl_divs68_def inl_divu68_def Let_def intro!: frame_intros)

end

end
