(* ===== verification/Shift68.thy ===== *)
theory Shift68
  imports Arith68
begin

text \<open>
  Shifts and rotations: \<open>inl68_shifting.h\<close>, which \<open>inst68.c\<close> wraps one by one.  The operand
  is normalised and \<open>l\<close> is its size in bits less one; the count is taken modulo 64.

  A parameter declared \<open>uint68_t\<close> shifts right logically (\<open>drop_bit\<close>), one declared
  \<open>int68_t\<close> arithmetically (\<open>signed_drop_bit\<close>).  The lemmas compare the results with the
  shift and rotation of the operand as an \<open>'a word\<close>, and record what the status register
  ends with.
\<close>

section \<open>Operations\<close>

definition inl_swap68 :: "nat \<Rightarrow> 'c emu68 \<Rightarrow> 'c emu68" where
  "inl_swap68 dn st =
    (let v = ucast (dreg st dn) :: int68;
         v = drop_bit 16 v + push_bit 16 (u16_of v);
         st = set_dreg dn (lo32 v) st
     in set_sr (lo32 ((sx (sr st) AND (0xFF00 OR SR_X))
          OR push_bit 2 (c_not v)
          OR (drop_bit (31 - 3) v AND SR_N))) st)"

text \<open>The count: \<open>s \<close> masked with 63, and \<open>NRM_MSK(l)\<close>, \<open>-x\<close> for a flag \<open>x\<close>, \<open>-!d\<close>.\<close>

definition shift_count :: "s32 \<Rightarrow> nat" where
  "shift_count s = unat (s AND 63)"

definition NRM_MSK :: "nat \<Rightarrow> int68" where
  "NRM_MSK l = signed_drop_bit l (push_bit 63 1)"

text \<open>The common end of the shifts: Z and N of the result, the system byte kept.\<close>

definition shift_sr :: "int68 \<Rightarrow> int68 \<Rightarrow> 'c emu68 \<Rightarrow> 'c emu68" where
  "shift_sr ccr d st =
    (let ccr = ccr OR (- (c_not d) AND SR_Z);
         ccr = ccr OR (signed_drop_bit (63 - 3) d AND SR_N)
     in set_sr (lo32 ((sx (sr st) AND 0xFF00) OR ccr)) st)"

text \<open>The common end of the rotations: the whole register is \<open>ccr\<close>.\<close>

definition rotate_sr :: "int68 \<Rightarrow> int68 \<Rightarrow> 'c emu68 \<Rightarrow> 'c emu68" where
  "rotate_sr ccr d st =
    (let ccr = ccr OR (- (c_not d) AND SR_Z);
         ccr = ccr OR (signed_drop_bit (63 - 3) d AND SR_N)
     in set_sr (lo32 ccr) st)"

definition inl_lsl68 :: "'c env68 \<Rightarrow> int68 \<Rightarrow> s32 \<Rightarrow> nat \<Rightarrow> 'c emu68 \<Rightarrow> int68 \<times> 'c emu68" where
  "inl_lsl68 E d s l st =
    (let n = shift_count s;
         st = inl_addcycle68 E (of_nat (2 * n)) st
     in if n = 0 then (d, shift_sr (sx (sr st) AND SR_X) d st)
        else let k = n - 1 in
          if 63 < k then (0, shift_sr 0 0 st)
          else
            let d = push_bit k d;
                ccr = drop_bit 63 d AND (SR_X OR SR_C);
                d = push_bit 1 d
            in (d, shift_sr ccr d st))"

definition inl_lsr68 :: "'c env68 \<Rightarrow> int68 \<Rightarrow> s32 \<Rightarrow> nat \<Rightarrow> 'c emu68 \<Rightarrow> int68 \<times> 'c emu68" where
  "inl_lsr68 E d s l st =
    (let n = shift_count s;
         st = inl_addcycle68 E (of_nat (2 * n)) st
     in if n = 0 then (d, shift_sr (sx (sr st) AND SR_X) d st)
        else let k = n - 1 in
          if 63 < k then (0, shift_sr 0 0 st)
          else
            let m = NRM_MSK l;
                d = drop_bit k d;
                ccr = - (drop_bit (63 - l) d AND 1) AND (SR_X OR SR_C);
                d = drop_bit 1 d AND m
            in (d, shift_sr ccr d st))"

definition inl_asl68 :: "'c env68 \<Rightarrow> int68 \<Rightarrow> s32 \<Rightarrow> nat \<Rightarrow> 'c emu68 \<Rightarrow> int68 \<times> 'c emu68" where
  "inl_asl68 E d s l st =
    (let n = shift_count s;
         st = inl_addcycle68 E (of_nat (2 * n)) st
     in if n = 0 then (d, shift_sr (sx (sr st) AND SR_X) d st)
        else let k = n - 1 in
          if l < k then
            (let ccr = - (c_not (c_not d)) AND SR_V in (0, shift_sr ccr 0 st))
          else
            let r = d;
                d = push_bit k d;
                ccr = signed_drop_bit 63 d AND (SR_X OR SR_C);
                d = push_bit 1 d;
                ccr = ccr OR
                  (- (if r \<noteq> signed_drop_bit 1 (signed_drop_bit k d) then 1 else 0) AND SR_V)
            in (d, shift_sr ccr d st))"

definition inl_asr68 :: "'c env68 \<Rightarrow> int68 \<Rightarrow> s32 \<Rightarrow> nat \<Rightarrow> 'c emu68 \<Rightarrow> int68 \<times> 'c emu68" where
  "inl_asr68 E d s l st =
    (let n = shift_count s;
         st = inl_addcycle68 E (of_nat (2 * n)) st
     in if n = 0 then (d, shift_sr (sx (sr st) AND SR_X) d st)
        else let k = n - 1 in
          if l < k then
            (let d = signed_drop_bit 63 d;
                 ccr = sx (lo32 d) AND (SR_C OR SR_X)
             in (d, shift_sr ccr d st))
          else
            let m = NRM_MSK l;
                d = signed_drop_bit k d;
                ccr = - (signed_drop_bit (63 - l) d AND 1) AND (SR_X OR SR_C);
                d = signed_drop_bit 1 d AND m
            in (d, shift_sr ccr d st))"

definition inl_rol68 :: "'c env68 \<Rightarrow> int68 \<Rightarrow> s32 \<Rightarrow> nat \<Rightarrow> 'c emu68 \<Rightarrow> int68 \<times> 'c emu68" where
  "inl_rol68 E d s l st =
    (let ccr = sx (sr st) AND (0xFF00 OR SR_X);
         n = shift_count s
     in if n \<noteq> 0 then
          let m = NRM_MSK l;
              st = inl_addcycle68 E (of_nat (2 * n)) st;
              d = (push_bit (unat (of_nat n AND of_nat l :: s32)) d OR
                   drop_bit (unat (- of_nat n AND of_nat l :: s32)) d) AND m;
              ccr = ccr OR (- (drop_bit (63 - l) d AND 1) AND SR_C)
          in (d, rotate_sr ccr d st)
        else (d, rotate_sr ccr d st))"

definition inl_ror68 :: "'c env68 \<Rightarrow> int68 \<Rightarrow> s32 \<Rightarrow> nat \<Rightarrow> 'c emu68 \<Rightarrow> int68 \<times> 'c emu68" where
  "inl_ror68 E d s l st =
    (let ccr = sx (sr st) AND (0xFF00 OR SR_X);
         n = shift_count s
     in if n \<noteq> 0 then
          let m = NRM_MSK l;
              st = inl_addcycle68 E (of_nat (2 * n)) st;
              d = (drop_bit (unat (of_nat n AND of_nat l :: s32)) d OR
                   push_bit (unat (- of_nat n AND of_nat l :: s32)) d) AND m;
              ccr = ccr OR (drop_bit (63 - 0) d AND SR_C)
          in (d, rotate_sr ccr d st)
        else (d, rotate_sr ccr d st))"

text \<open>In the rotations through X, \<open>ccr = -(int)x \<and> SR_X\<close> replaces the whole of \<open>ccr\<close>.\<close>

definition inl_roxl68 :: "'c env68 \<Rightarrow> int68 \<Rightarrow> s32 \<Rightarrow> nat \<Rightarrow> 'c emu68 \<Rightarrow> int68 \<times> 'c emu68" where
  "inl_roxl68 E d s l st =
    (let ccr = sx (sr st) AND (0xFF00 OR SR_X);
         n = shift_count s;
         st = (if n \<noteq> 0 then inl_addcycle68 E (of_nat (2 * n)) st else st);
         n = n mod (l + 2);
         (d, ccr) =
           (if n \<noteq> 0 then
              let k = n - 1;
                  r = push_bit k d;
                  c = signed_drop_bit 4 ccr AND 1;
                  x = drop_bit 63 r;
                  ccr = - x AND SR_X;
                  r = push_bit 1 r;
                  r = r OR push_bit (63 - l + k) c;
                  d = drop_bit 1 d;
                  d = drop_bit (l - k) d;
                  d = d OR r;
                  d = d AND NRM_MSK l
              in (d, ccr)
            else (d, ccr));
         ccr = ccr OR signed_drop_bit (4 - 0) (ccr AND SR_X)
     in (d, rotate_sr ccr d st))"

definition inl_roxr68 :: "'c env68 \<Rightarrow> int68 \<Rightarrow> s32 \<Rightarrow> nat \<Rightarrow> 'c emu68 \<Rightarrow> int68 \<times> 'c emu68" where
  "inl_roxr68 E d s l st =
    (let ccr = sx (sr st) AND (0xFF00 OR SR_X);
         n = shift_count s;
         st = inl_addcycle68 E (of_nat (2 * n)) st;
         n = n mod (l + 2);
         (d, ccr) =
           (if n \<noteq> 0 then
              let k = n - 1;
                  r = d;
                  d = drop_bit k d;
                  c = signed_drop_bit 4 ccr AND 1;
                  x = drop_bit (63 - l) d AND 1;
                  ccr = - x AND SR_X;
                  d = drop_bit 1 d;
                  d = d OR push_bit (63 - k) c;
                  r = push_bit 1 r;
                  r = push_bit (l - k) r;
                  d = d OR r;
                  d = d AND NRM_MSK l
              in (d, ccr)
            else (d, ccr));
         ccr = ccr OR signed_drop_bit (4 - 0) (ccr AND SR_X)
     in (d, rotate_sr ccr d st))"

section \<open>Frame\<close>

lemma shift_frame [frame_intros]:
  "frame68 I s t \<Longrightarrow> frame68 I s (inl_swap68 dn t)"
  "frame68 I s t \<Longrightarrow> frame68 I s (shift_sr c d t)"
  "frame68 I s t \<Longrightarrow> frame68 I s (rotate_sr c d t)"
  by (auto simp: inl_swap68_def shift_sr_def rotate_sr_def Let_def intro!: frame_intros)

lemma shifts_frame [frame_intros]:
  "frame68 I s t \<Longrightarrow> frame68 I s (snd (inl_lsl68 E d n l t))"
  "frame68 I s t \<Longrightarrow> frame68 I s (snd (inl_lsr68 E d n l t))"
  "frame68 I s t \<Longrightarrow> frame68 I s (snd (inl_asl68 E d n l t))"
  "frame68 I s t \<Longrightarrow> frame68 I s (snd (inl_asr68 E d n l t))"
  "frame68 I s t \<Longrightarrow> frame68 I s (snd (inl_rol68 E d n l t))"
  "frame68 I s t \<Longrightarrow> frame68 I s (snd (inl_ror68 E d n l t))"
  "frame68 I s t \<Longrightarrow> frame68 I s (snd (inl_roxl68 E d n l t))"
  "frame68 I s t \<Longrightarrow> frame68 I s (snd (inl_roxr68 E d n l t))"
  by (auto simp: inl_lsl68_def inl_lsr68_def inl_asl68_def inl_asr68_def inl_rol68_def
      inl_ror68_def inl_roxl68_def inl_roxr68_def Let_def split_def intro!: frame_intros)

section \<open>The operations meet the reference\<close>

lemma shift_sr_nrm:
  assumes "LENGTH('a) \<le> 32"
  shows "shift_sr ccr (nrm (r :: 'a::len word)) st =
    set_sr ((sr st AND 0xFF00) OR lo32 ccr OR mk_ccr False (neg_w r) (r = 0) False False) st"
proof -
  have l: "LENGTH('a) \<le> 64" using assms by simp
  show ?thesis
    by (cases "neg_w r"; cases "r = 0";
      simp add: shift_sr_def Let_def sr_defs sign_to_N neg_nrm l nrm_eq_0 c_not_nrm c_not_def lo32_or lo32_and mk_ccr_def or.assoc)
qed

lemma rotate_sr_nrm:
  assumes "LENGTH('a) \<le> 32"
  shows "rotate_sr ccr (nrm (r :: 'a::len word)) st =
    set_sr (lo32 ccr OR mk_ccr False (neg_w r) (r = 0) False False) st"
proof -
  have l: "LENGTH('a) \<le> 64" using assms by simp
  show ?thesis
    by (cases "neg_w r"; cases "r = 0";
      simp add: rotate_sr_def Let_def sr_defs sign_to_N neg_nrm l nrm_eq_0 c_not_nrm c_not_def lo32_or lo32_and mk_ccr_def or.assoc)
qed

lemma bit_NRM_MSK: "l \<le> 63 \<Longrightarrow> bit (NRM_MSK l) n \<longleftrightarrow> 63 - l \<le> n \<and> n < 64"
proof -
  have top: "bit (push_bit 63 1 :: int68) m \<longleftrightarrow> m = 63" for m
    by (simp only: bit_push_bit_iff) (auto simp: bit_1_iff)
  show "l \<le> 63 \<Longrightarrow> ?thesis"
    unfolding NRM_MSK_def bit_signed_drop_bit_iff top by auto
qed

lemma sr_addcycle [simp]: "reg (inl_addcycle68 E n st) = reg st"
  by (simp add: inl_addcycle68_def)

lemma count_le: "shift_count s \<le> 63"
proof -
  have "unat (s AND 63) \<le> unat (63 :: s32)" 
    by (simp only: flip: word_le_nat_alt) (rule word_and_le1)
  then show ?thesis by (simp add: shift_count_def)
qed

text \<open>The last bit a left shift by \<open>n\<close> moves out, and overflow of an arithmetic one.\<close>

definition out_left :: "'a::len word \<Rightarrow> nat \<Rightarrow> bool" where
  "out_left a n \<longleftrightarrow> n \<le> LENGTH('a) \<and> bit a (LENGTH('a) - n)"

lemma lsl_out:
  assumes "LENGTH('a) \<le> 64" "0 < n" "n \<le> 63"
  shows "drop_bit 63 (push_bit (n - 1) (nrm (a :: 'a::len word))) = (if out_left a n then 1 else 0)"
proof -
  have "neg_w (push_bit (n - 1) (nrm a)) = out_left a n"
    using assms by (auto simp: neg_w_def bit_simps bit_nrm out_left_def)
  then show ?thesis by (simp add: lsr63)
qed

lemma lsl68_word:
  fixes a :: "'a::len word"
  assumes "LENGTH('a) \<le> 32" "shift_count s = n" "0 < n"
  shows "inl_lsl68 E (nrm a) s (LENGTH('a) - 1) st =
    (nrm (push_bit n a),
     set_sr ((sr st AND 0xFF00) OR
        mk_ccr False (neg_w (push_bit n a)) (push_bit n a = 0) False (out_left a n))
      (inl_addcycle68 E (of_nat (2 * n)) st))"
proof -
  have l: "LENGTH('a) \<le> 64" and n: "n \<le> 63" using assms count_le [of s] by simp_all
  have d: "push_bit 1 (push_bit (n - 1) (nrm a)) = nrm (push_bit n a)"
    unfolding push_bit_push_bit nrm_push [OF l] using assms(3) by simp
  show ?thesis
    using assms(3) n
    unfolding inl_lsl68_def Let_def assms(2) lsl_out [OF l assms(3) n] d shift_sr_nrm [OF assms(1)]
    by (auto simp: sr_defs mk_ccr_def or.assoc)
qed

lemma lsr_val:
  assumes "LENGTH('a) \<le> 64"
  shows "drop_bit n (nrm (a :: 'a::len word)) AND NRM_MSK (LENGTH('a) - 1) = nrm (drop_bit n a)"
proof (rule bit_word_eqI)
  fix m assume "m < LENGTH(64)"
  have "63 - (LENGTH('a) - 1) = 64 - LENGTH('a)" "LENGTH('a) - 1 \<le> 63"
    using assms len_gt_0 [where 'a = 'a] by linarith+
  moreover have "64 - LENGTH('a) \<le> m \<Longrightarrow> n + m - (64 - LENGTH('a)) = n + (m - (64 - LENGTH('a)))"
    by simp
  ultimately show "bit (drop_bit n (nrm a) AND NRM_MSK (LENGTH('a) - 1)) m = bit (nrm (drop_bit n a)) m"
    using assms \<open>m < LENGTH(64)\<close>
    by (simp add: bit_and_iff bit_drop_bit_eq bit_NRM_MSK bit_nrm) (auto simp: trans_le_add2)
qed

lemma lsr_out:
  assumes "LENGTH('a) \<le> 64"
  shows "bit (drop_bit (63 - (LENGTH('a) - 1)) (drop_bit k (nrm (a :: 'a::len word)))) 0 = bit a k"
proof -
  have "63 - (LENGTH('a) - 1) = 64 - LENGTH('a)" using len_gt_0 [where 'a = 'a] by linarith
  then show ?thesis using assms by (auto simp: bit_nrm bit_simps)
qed

lemma lsr68_word:
  fixes a :: "'a::len word"
  assumes "LENGTH('a) \<le> 32" "shift_count s = n" "0 < n"
  shows "inl_lsr68 E (nrm a) s (LENGTH('a) - 1) st =
    (nrm (drop_bit n a),
     set_sr ((sr st AND 0xFF00) OR
        mk_ccr (bit a (n - 1)) (neg_w (drop_bit n a)) (drop_bit n a = 0) False (bit a (n - 1)))
      (inl_addcycle68 E (of_nat (2 * n)) st))"
proof -
  have l: "LENGTH('a) \<le> 64" and n: "n \<le> 63" using assms count_le [of s] by simp_all
  have d: "drop_bit 1 (drop_bit (n - 1) (nrm a)) = drop_bit n (nrm a)"
    unfolding drop_bit_drop_bit using assms(3) by simp
  show ?thesis
    using assms(3) n
    unfolding inl_lsr68_def Let_def assms(2) and_1_flag lsr_out [OF l] d lsr_val [OF l] shift_sr_nrm [OF assms(1)]
    by (auto simp: sr_defs mk_ccr_def or.assoc)
qed

definition asl_overflow :: "'a::len word \<Rightarrow> nat \<Rightarrow> bool" where
  "asl_overflow a n \<longleftrightarrow> sint (push_bit n a) \<noteq> sint a * 2 ^ n"

lemma sint_signed_drop: "sint (signed_drop_bit n (y :: 'a::len word)) = sint y div 2 ^ n"
  by (simp add: sint_signed_drop_bit_eq flip: drop_bit_eq_div)

lemma shift_back:
  "x = signed_drop_bit n (push_bit n x) \<longleftrightarrow> sint (push_bit n x) = sint x * 2 ^ n" for x :: "'a::len word"
proof
  assume *: "sint (push_bit n x) = sint x * 2 ^ n"
  show "x = signed_drop_bit n (push_bit n x)"
    unfolding sint_eq_iff sint_signed_drop * by simp
next
  assume "x = signed_drop_bit n (push_bit n x)"
  then have *: "sint x = sint (push_bit n x) div 2 ^ n"
    by (metis sint_signed_drop)
  have "take_bit n (sint (push_bit n x)) = 0"
    by (rule bit_eqI) (auto simp: bit_simps min_def)
  then have "sint (push_bit n x) mod 2 ^ n = 0" by (simp add: take_bit_eq_mod)
  then show "sint (push_bit n x) = sint x * 2 ^ n" unfolding * by auto
qed

lemma asl68_word:
  fixes a :: "'a::len word"
  assumes "LENGTH('a) \<le> 32" "shift_count s = n" "0 < n"
  shows "inl_asl68 E (nrm a) s (LENGTH('a) - 1) st =
    (nrm (push_bit n a),
     set_sr ((sr st AND 0xFF00) OR
        mk_ccr (out_left a n) (neg_w (push_bit n a)) (push_bit n a = 0) (asl_overflow a n) (out_left a n))
      (inl_addcycle68 E (of_nat (2 * n)) st))"
proof -
  have l: "LENGTH('a) \<le> 64" and n: "n \<le> 63" using assms count_le [of s] by simp_all
  have d: "push_bit 1 (push_bit (n - 1) (nrm a)) = nrm (push_bit n a)"
    unfolding push_bit_push_bit nrm_push [OF l] using assms(3) by simp
  have c: "signed_drop_bit 63 (push_bit (n - 1) (nrm a)) = (if out_left a n then -1 else 0)"
    using lsl_out [OF l assms(3) n, of a] unfolding asr63 lsr63 by (auto split: if_splits)
  have v: "nrm a = signed_drop_bit 1 (signed_drop_bit (n - 1) (nrm (push_bit n a))) \<longleftrightarrow> \<not> asl_overflow a n"
    using shift_back [of "nrm a" n] assms(3)
    unfolding signed_drop_bit_signed_drop_bit nrm_push [OF l] sint_nrm [OF l] asl_overflow_def
    by (simp add: algebra_simps)
  have big: "push_bit n a = 0" "\<not> out_left a n" "asl_overflow a n \<longleftrightarrow> a \<noteq> 0" if "LENGTH('a) - 1 < n - 1"
  proof -
    have "LENGTH('a) < n" using that assms(3) by simp
    then show p: "push_bit n a = 0" and "\<not> out_left a n"
      by (auto intro!: bit_word_eqI simp: bit_simps out_left_def)
    show "asl_overflow a n \<longleftrightarrow> a \<noteq> 0"
      using sint_eq_iff [of a 0] by (simp add: asl_overflow_def p)
  qed
  show ?thesis
  proof (cases "LENGTH('a) - 1 < n - 1")
    case True
    show ?thesis
      using assms(3) n True big [OF True]
      unfolding inl_asl68_def Let_def assms(2)
      by (auto simp: shift_sr_nrm [OF assms(1), of _ 0, simplified] sr_defs mk_ccr_def c_not_nrm [OF l]
          c_not_def nrm_eq_0 [OF l])
  next
    case False
    show ?thesis
      using assms(3) n False
      unfolding inl_asl68_def Let_def assms(2) c d v shift_sr_nrm [OF assms(1)]
      by (auto simp: sr_defs mk_ccr_def lo32_or or.assoc)
  qed
qed

lemma ucast_m1: "LENGTH('a) \<le> 64 \<Longrightarrow> (ucast (- 1 :: 'a::len word) :: int68) = mask LENGTH('a)"
  by (rule bit_word_eqI) (auto simp: bit_simps)

lemma bit_asr_nrm:
  assumes "LENGTH('a) \<le> 64" "64 - LENGTH('a) \<le> m" "m < 64"
  shows "bit (signed_drop_bit n (nrm (a :: 'a::len word))) m =
    bit (signed_drop_bit n a) (m - (64 - LENGTH('a)))"
proof -
  have p: "0 < LENGTH('a)" by simp
  obtain j where m: "m = (64 - LENGTH('a)) + j" using assms(2) le_Suc_ex by blast
  have j: "j < LENGTH('a)" using assms m by linarith
  have e: "64 - n \<le> m \<longleftrightarrow> LENGTH('a) - n \<le> j" "63 - (64 - LENGTH('a)) = LENGTH('a) - 1"
    "n + m = (64 - LENGTH('a)) + (n + j)" "m - (64 - LENGTH('a)) = j"
    using assms m j p by auto
  show ?thesis
    unfolding bit_signed_drop_bit_iff bit_nrm [OF assms(1)] using assms(1,3) j p
    by (simp only: len_num0 len_num1 len_bit0 len_bit1 e) (auto simp: e)
qed

lemma asr68_word:
  fixes a :: "'a::len word"
  assumes "LENGTH('a) \<le> 32" "shift_count s = n" "0 < n"
  defines "c \<equiv> bit a (min (n - 1) (LENGTH('a) - 1))" and "r \<equiv> signed_drop_bit n a"
  shows "drop_bit (64 - LENGTH('a)) (fst (inl_asr68 E (nrm a) s (LENGTH('a) - 1) st)) = ucast r"
    and "snd (inl_asr68 E (nrm a) s (LENGTH('a) - 1) st) =
     set_sr ((sr st AND 0xFF00) OR mk_ccr c (neg_w r) (r = 0) False c)
      (inl_addcycle68 E (of_nat (2 * n)) st)"
proof -
  have l: "LENGTH('a) \<le> 64" and n: "n \<le> 63" using assms count_le [of s] by simp_all
  have p: "0 < LENGTH('a)" by simp
  have e: "63 - (LENGTH('a) - 1) = 64 - LENGTH('a)" using len_gt_0 [where 'a = 'a] by linarith
  have v: "signed_drop_bit 1 (signed_drop_bit (n - 1) (nrm a)) AND NRM_MSK (LENGTH('a) - 1) = nrm r"
  proof (rule bit_word_eqI)
    fix m assume m: "m < LENGTH(64)"
    have "signed_drop_bit 1 (signed_drop_bit (n - 1) (nrm a)) = signed_drop_bit n (nrm a)"
      using assms(3) by (simp add: signed_drop_bit_signed_drop_bit)
    moreover have "LENGTH('a) - 1 \<le> 63" using assms(1) by linarith
    ultimately show "bit (signed_drop_bit 1 (signed_drop_bit (n - 1) (nrm a)) AND NRM_MSK (LENGTH('a) - 1)) m
       = bit (nrm r) m"
      using m unfolding bit_and_iff bit_nrm [OF l] r_def
      by (simp only: bit_NRM_MSK e) (auto simp: bit_asr_nrm [OF l])
  qed
  have b: "bit (signed_drop_bit (63 - (LENGTH('a) - 1)) (signed_drop_bit (n - 1) (nrm a))) 0 = c"
    using n p by (auto simp: bit_signed_drop_bit_iff bit_nrm [OF l] e c_def min_def)
  have big: "r = (if neg_w a then -1 else 0)" "c = neg_w a" if "LENGTH('a) - 1 < n - 1"
    using that p by (auto intro!: bit_word_eqI simp: bit_signed_drop_bit_iff r_def c_def neg_w_def min_def)
  have m1: "shift_sr ccr (-1) st = set_sr ((sr st AND 0xFF00) OR lo32 ccr OR 8) st" for ccr st
    by (simp add: shift_sr_def Let_def c_not_def sr_defs lo32_or lo32_and)
  show "drop_bit (64 - LENGTH('a)) (fst (inl_asr68 E (nrm a) s (LENGTH('a) - 1) st)) = ucast r"
   and "snd (inl_asr68 E (nrm a) s (LENGTH('a) - 1) st) =
     set_sr ((sr st AND 0xFF00) OR mk_ccr c (neg_w r) (r = 0) False c)
      (inl_addcycle68 E (of_nat (2 * n)) st)"
  proof (atomize (full), cases "LENGTH('a) - 1 < n - 1")
    case True
    show "drop_bit (64 - LENGTH('a)) (fst (inl_asr68 E (nrm a) s (LENGTH('a) - 1) st)) = ucast r \<and>
       snd (inl_asr68 E (nrm a) s (LENGTH('a) - 1) st) =
     set_sr ((sr st AND 0xFF00) OR mk_ccr c (neg_w r) (r = 0) False c)
      (inl_addcycle68 E (of_nat (2 * n)) st)"
      using assms(3) n True big [OF True]
      unfolding inl_asr68_def Let_def assms(2) asr_sign [OF l]
      by (auto simp: ucast_m1 [OF l] m1 shift_sr_nrm [OF assms(1), of _ 0, simplified] sr_defs mk_ccr_def)
  next
    case False
    show "drop_bit (64 - LENGTH('a)) (fst (inl_asr68 E (nrm a) s (LENGTH('a) - 1) st)) = ucast r \<and>
       snd (inl_asr68 E (nrm a) s (LENGTH('a) - 1) st) =
     set_sr ((sr st AND 0xFF00) OR mk_ccr c (neg_w r) (r = 0) False c)
      (inl_addcycle68 E (of_nat (2 * n)) st)"
      using assms(3) n False
      unfolding inl_asr68_def Let_def assms(2) and_1_flag b v shift_sr_nrm [OF assms(1)]
      by (auto simp: drop_nrm [OF l] sr_defs mk_ccr_def or.assoc)
  qed
qed

lemma nrm_top:
  assumes "LENGTH('a) \<le> 64"
    and "\<And>j. j < LENGTH('a) \<Longrightarrow> bit x ((64 - LENGTH('a)) + j) = bit r j"
  shows "x AND NRM_MSK (LENGTH('a) - 1) = nrm (r :: 'a::len word)"
proof (rule bit_word_eqI)
  fix m assume m: "m < LENGTH(64)"
  have e: "63 - (LENGTH('a) - 1) = 64 - LENGTH('a)" "LENGTH('a) - 1 \<le> 63"
    using len_gt_0 [where 'a = 'a] assms(1) by linarith+
  show "bit (x AND NRM_MSK (LENGTH('a) - 1)) m = bit (nrm r) m"
  proof (cases "64 - LENGTH('a) \<le> m")
    case True
    then obtain j where j: "m = (64 - LENGTH('a)) + j" using le_Suc_ex by blast
    then have "j < LENGTH('a)" using m assms(1) by simp
    then show ?thesis
      using assms(2) [of j] m unfolding bit_and_iff bit_nrm [OF assms(1)] bit_NRM_MSK [OF e(2)] e(1) j by simp
  next
    case False
    then show ?thesis
      unfolding bit_and_iff bit_nrm [OF assms(1)] bit_NRM_MSK [OF e(2)] e(1) by simp
  qed
qed

lemma unat_mask_neg:
  assumes "e \<le> 32"
  shows "unat (- of_nat n AND mask e :: s32) = (2 ^ e - n mod 2 ^ e) mod 2 ^ e"
proof -
  have "- of_nat n = (word_of_int (- int n) :: s32)" by simp
  then have "uint (- of_nat n AND mask e :: s32) = take_bit e (take_bit 32 (- int n))"
    by (simp only: take_bit_eq_mask [symmetric] unsigned_take_bit_eq uint_word_of_int_eq len_num1 len_bit0 len_num0) simp
  then have "uint (- of_nat n AND mask e :: s32) = (- int n) mod 2 ^ e"
    using assms by (simp add: take_bit_take_bit min_def) (simp add: take_bit_eq_mod)
  also have "\<dots> = int ((2 ^ e - n mod 2 ^ e) mod 2 ^ e)"
  proof -
    define k where "k = n mod 2 ^ e"
    have k: "int n mod 2 ^ e = int k" by (simp add: k_def zmod_int)
    have lt: "k < 2 ^ e" by (simp add: k_def)
    have "(- int n) mod 2 ^ e = (if k = 0 then 0 else 2 ^ e - int k)"
      by (simp only: zmod_zminus1_eq_if k of_nat_eq_0_iff)
    also have "\<dots> = int ((2 ^ e - k) mod 2 ^ e)"
    proof (cases "k = 0")
      case False
      then have "(2 ^ e - k) mod 2 ^ e = 2 ^ e - k" by simp
      then show ?thesis using False lt by (simp add: of_nat_diff)
    qed simp
    finally show ?thesis by (simp only: k_def)
  qed
  finally show ?thesis by (simp only: unat_eq_nat_uint nat_int)
qed

lemma rot_counts:
  assumes "LENGTH('a::len) \<in> {8, 16, 32}" "n \<le> 63"
  shows "unat (of_nat n AND of_nat (LENGTH('a) - 1) :: s32) = n mod LENGTH('a)"
    and "unat (- of_nat n AND of_nat (LENGTH('a) - 1) :: s32) =
      (LENGTH('a) - n mod LENGTH('a)) mod LENGTH('a)"
proof -
  obtain e where e: "LENGTH('a) = 2 ^ e" "e \<le> 5" "e < 32"
    using assms(1) by (auto intro: that [of 3] that [of 4] that [of 5])
  have m: "of_nat (LENGTH('a) - 1) = (mask e :: s32)"
    by (simp add: e mask_eq_exp_minus_1)
  show "unat (of_nat n AND of_nat (LENGTH('a) - 1) :: s32) = n mod LENGTH('a)"
    using assms(2) e(3) unfolding m unfolding take_bit_eq_mask [symmetric] e(1)
    by (simp add: unsigned_take_bit_eq unat_of_nat) (simp add: take_bit_eq_mod)
  show "unat (- of_nat n AND of_nat (LENGTH('a) - 1) :: s32) =
      (LENGTH('a) - n mod LENGTH('a)) mod LENGTH('a)"
    using unat_mask_neg e unfolding m by simp
qed

lemma rotl_val:
  fixes a :: "'a::len word"
  assumes l32: "LENGTH('a) \<le> 32"
  shows "(push_bit (n mod LENGTH('a)) (nrm a) OR
      drop_bit ((LENGTH('a) - n mod LENGTH('a)) mod LENGTH('a)) (nrm a)) AND NRM_MSK (LENGTH('a) - 1) =
    nrm (word_rotl n a)"
proof (rule nrm_top)
  show l: "LENGTH('a) \<le> 64" using l32 by simp
  fix j assume j: "j < LENGTH('a)"
  define p where "p = n mod LENGTH('a)"
  have p: "p < LENGTH('a)" by (simp add: p_def)
  have L: "64 - LENGTH('a) \<le> 64 - LENGTH('a) + j - p \<longleftrightarrow> p \<le> j"
    using j p l32 by linarith
  have e: "64 - LENGTH('a) + j - p - (64 - LENGTH('a)) = j - p" 
    "p \<le> j \<Longrightarrow> p \<le> 64 - LENGTH('a) + j"
    "64 - LENGTH('a) + j < 64"
   using j p l32 by linarith+
  have "bit (word_rotl n a) j = bit a ((j + (LENGTH('a) - p)) mod LENGTH('a))"
    using j by (simp add: bit_word_rotl_iff p_def)
  moreover have "bit (push_bit p (nrm a)) (64 - LENGTH('a) + j) = (p \<le> j \<and> bit a (j - p))"
    using e L by (auto simp: bit_push_bit_iff bit_nrm [OF l])
  moreover have "bit (drop_bit q (nrm a)) (64 - LENGTH('a) + j) = bit a (q + j)" for q
    using e L by (simp add: bit_drop_bit_eq bit_nrm [OF l])
  moreover have "bit a ((j + (LENGTH('a) - p)) mod LENGTH('a)) = 
    ((p \<le> j \<and> bit a (j - p)) \<or> bit a ((LENGTH('a) - p) mod LENGTH('a) + j))"
  proof (cases "p \<le> j")
    case True
    then have "(j + (LENGTH('a) - p)) mod LENGTH('a) = j - p"
      using j p by (simp add: le_mod_geq)
    moreover have "\<not> bit a ((LENGTH('a) - p) mod LENGTH('a) + j)" if "p \<noteq> 0"
      using that True p by (auto dest!: bit_imp_le_length)
    ultimately show ?thesis using True by (cases "p = 0") simp_all
  next
    case False
    then show ?thesis using p by (simp add: add.commute)
  qed
  ultimately show "bit (push_bit (n mod LENGTH('a)) (nrm a) OR
        drop_bit ((LENGTH('a) - n mod LENGTH('a)) mod LENGTH('a)) (nrm a)) (64 - LENGTH('a) + j) =
      bit (word_rotl n a) j"
    by (simp add: bit_or_iff p_def)
qed

lemma rotr_val:
  fixes a :: "'a::len word"
  assumes l32: "LENGTH('a) \<le> 32"
  shows "(drop_bit (n mod LENGTH('a)) (nrm a) OR
      push_bit ((LENGTH('a) - n mod LENGTH('a)) mod LENGTH('a)) (nrm a)) AND NRM_MSK (LENGTH('a) - 1) =
    nrm (word_rotr n a)"
proof -
  define p where "p = n mod LENGTH('a)"
  have p: "p < LENGTH('a)" by (simp add: p_def)
  define m where "m = (LENGTH('a) - p) mod LENGTH('a)"
  have "m mod LENGTH('a) = m" "(LENGTH('a) - m) mod LENGTH('a) = p"
    using p by (cases "p = 0"; simp add: m_def)+
  then have "(push_bit m (nrm a) OR drop_bit p (nrm a)) AND NRM_MSK (LENGTH('a) - 1) = nrm (word_rotl m a)"
    using rotl_val [OF l32, of m a] by simp
  moreover have "word_rotl m a = word_rotr n a"
  proof (rule bit_word_eqI)
    fix i assume i: "i < LENGTH('a)"
    have "(i + (LENGTH('a) - m mod LENGTH('a))) mod LENGTH('a) = (i + p) mod LENGTH('a)"
      using p i by (cases "p = 0") (simp_all add: m_def)
    also have "\<dots> = (i + n) mod LENGTH('a)"
      by (simp add: p_def mod_simps)
    finally show "bit (word_rotl m a) i = bit (word_rotr n a) i"
      using i by (simp add: bit_word_rotl_iff bit_word_rotr_iff)
  qed
  ultimately show ?thesis by (simp add: m_def p_def or.commute)
qed

lemma rol68_word:
  fixes a :: "'a::len word"
  assumes "LENGTH('a) \<in> {8, 16, 32}" "shift_count s = n" "0 < n"
  defines "r \<equiv> word_rotl n a"
  shows "inl_rol68 E (nrm a) s (LENGTH('a) - 1) st =
    (nrm r, set_sr ((sr st AND 0xFF10) OR mk_ccr False (neg_w r) (r = 0) False (bit r 0))
      (inl_addcycle68 E (of_nat (2 * n)) st))"
proof -
  have l: "LENGTH('a) \<le> 64" "LENGTH('a) \<le> 32" and n: "n \<le> 63" using assms count_le [of s] by auto
  have c: "bit (drop_bit (63 - (LENGTH('a) - 1)) (nrm r)) 0 = bit r 0"
    using lsr_out [OF l(1), of 0 r] by simp
  have d: "(push_bit (n mod LENGTH('a)) (nrm a) OR
      drop_bit ((LENGTH('a) - n mod LENGTH('a)) mod LENGTH('a)) (nrm a)) AND NRM_MSK (LENGTH('a) - 1) = nrm r"
    unfolding r_def by (rule rotl_val [OF l(2)])
  show ?thesis
    using assms(3)
    unfolding inl_rol68_def Let_def assms(2) rot_counts [OF assms(1) n] d and_1_flag c rotate_sr_nrm [OF l(2)]
    by (auto simp: sr_defs mk_ccr_def or.assoc lo32_or lo32_and)
qed

lemma ror68_word:
  fixes a :: "'a::len word"
  assumes "LENGTH('a) \<in> {8, 16, 32}" "shift_count s = n" "0 < n"
  defines "r \<equiv> word_rotr n a"
  shows "inl_ror68 E (nrm a) s (LENGTH('a) - 1) st =
    (nrm r, set_sr ((sr st AND 0xFF10) OR mk_ccr False (neg_w r) (r = 0) False (neg_w r))
      (inl_addcycle68 E (of_nat (2 * n)) st))"
proof -
  have l: "LENGTH('a) \<le> 64" "LENGTH('a) \<le> 32" and n: "n \<le> 63" using assms count_le [of s] by auto
  have d: "(drop_bit (n mod LENGTH('a)) (nrm a) OR
      push_bit ((LENGTH('a) - n mod LENGTH('a)) mod LENGTH('a)) (nrm a)) AND NRM_MSK (LENGTH('a) - 1) = nrm r"
    unfolding r_def by (rule rotr_val [OF l(2)])
  show ?thesis
    using assms(3)
    unfolding inl_ror68_def Let_def assms(2) rot_counts [OF assms(1) n] d rotate_sr_nrm [OF l(2)]
    by (auto simp: sr_defs mk_ccr_def or.assoc lo32_or lo32_and lsr63 neg_nrm [OF l(1)])
qed

text \<open>The rotation through X: a rotation of the operand with X on top of it.\<close>

definition rox_ext :: "bool \<Rightarrow> 'a::len word \<Rightarrow> int68" where
  "rox_ext x a = push_bit LENGTH('a) (of_bool x) OR ucast a"

definition rox_rot :: "nat \<Rightarrow> bool \<Rightarrow> 'a::len word \<Rightarrow> int68" where
  "rox_rot n x a = push_bit n (rox_ext x a) OR drop_bit (LENGTH('a) + 1 - n) (rox_ext x a)"

lemma bit_rox_ext:
  "LENGTH('a) \<le> 32 \<Longrightarrow> bit (rox_ext x (a :: 'a::len word)) i \<longleftrightarrow> i = LENGTH('a) \<and> x \<or> bit a i"
  by (cases x) (auto simp: rox_ext_def bit_simps bit_1_iff dest: bit_imp_le_length)

lemma bit_rox_rot:
  assumes "LENGTH('a) \<le> 32" "i \<le> LENGTH('a)" "n \<le> LENGTH('a) + 1"
  shows "bit (rox_rot n x (a :: 'a::len word)) i \<longleftrightarrow>
    n \<le> i \<and> bit (rox_ext x a) (i - n) \<or> bit (rox_ext x a) (LENGTH('a) + 1 - n + i)"
  using assms by (auto simp: rox_rot_def bit_simps)

lemma x_bit: "signed_drop_bit 4 (sx w AND (0xFF00 OR SR_X)) AND 1 = of_bool (bit w 4)"
  unfolding word_and_1_of_bool by (auto simp: bit_simps sr_defs)

lemma roxl_val:
  fixes a :: "'a::len word"
  assumes l: "LENGTH('a) \<le> 32" and n: "0 < n" "n \<le> LENGTH('a)"
  shows "(drop_bit (LENGTH('a) - 1 - (n - 1)) (drop_bit 1 (nrm a)) OR
     (push_bit 1 (push_bit (n - 1) (nrm a)) OR
      push_bit (63 - (LENGTH('a) - 1) + (n - 1)) (of_bool x))) AND NRM_MSK (LENGTH('a) - 1) =
    nrm (ucast (rox_rot n x a) :: 'a word)"
proof (rule nrm_top)
  show l64: "LENGTH('a) \<le> 64" using l by simp
  fix j assume j: "j < LENGTH('a)"
  have e: "LENGTH('a) - 1 - (n - 1) + 1 = LENGTH('a) + 1 - n" "1 + (n - 1) = n" "n - 1 + 1 = n"
    "63 - (LENGTH('a) - 1) + (n - 1) = 64 - LENGTH('a) + n - 1"
    "1 + (LENGTH('a) - 1 - (n - 1)) = LENGTH('a) + 1 - n"
    using n l j by linarith+
  define b where "b = 64 - LENGTH('a)"
  have b: "b + LENGTH('a) = 64" "32 \<le> b" using l by (simp_all add: b_def)
  show "bit (drop_bit (LENGTH('a) - 1 - (n - 1)) (drop_bit 1 (nrm a)) OR
     (push_bit 1 (push_bit (n - 1) (nrm a)) OR
      push_bit (63 - (LENGTH('a) - 1) + (n - 1)) (of_bool x))) (64 - LENGTH('a) + j) =
    bit (ucast (rox_rot n x a) :: 'a word) j"
    unfolding drop_bit_drop_bit push_bit_push_bit e bit_or_iff bit_push_bit_iff bit_drop_bit_eq
      o_def bit_nrm [OF l64] bit_ucast_iff b_def [symmetric]
    using j n l b
    by (cases x; cases "n \<le> j"; auto simp: bit_rox_rot bit_rox_ext bit_1_iff dest: bit_imp_le_length)
qed

lemma rox_len: "LENGTH('a::len) - 1 + 2 = LENGTH('a) + 1"
  using len_gt_0 [where 'a = 'a] by linarith

lemma roxl68_word:
  fixes a :: "'a::len word" and st :: "'c emu68"
  assumes l: "LENGTH('a) \<le> 32" and n: "n = shift_count s mod (LENGTH('a) + 1)" "n \<noteq> 0"
  defines "e \<equiv> rox_rot n (bit (sr st) 4) a"
  shows "inl_roxl68 E (nrm a) s (LENGTH('a) - 1) st =
    (nrm (ucast e :: 'a word),
     set_sr (mk_ccr (bit e LENGTH('a)) (neg_w (ucast e :: 'a word)) ((ucast e :: 'a word) = 0) False
         (bit e LENGTH('a)))
      (inl_addcycle68 E (of_nat (2 * shift_count s)) st))"
proof -
  have l64: "LENGTH('a) \<le> 64" using l by simp
  have nl: "0 < n" "n \<le> LENGTH('a)" "n \<le> 63"
    using n l mod_less_divisor [of "LENGTH('a) + 1" "shift_count s"] by linarith+
  have c0: "shift_count s \<noteq> 0" using n by (metis mod_0)
  have v: "(drop_bit (LENGTH('a) - 1 - (n - 1)) (drop_bit 1 (nrm a)) OR
     (push_bit 1 (push_bit (n - 1) (nrm a)) OR
      push_bit (63 - (LENGTH('a) - 1) + (n - 1)) (of_bool (bit (sr st) 4)))) AND NRM_MSK (LENGTH('a) - 1) =
    nrm (ucast e :: 'a word)"
    unfolding e_def by (rule roxl_val [OF l nl(1,2)])
  have x: "out_left a n = bit e LENGTH('a)"
    using l nl(1,2) by (simp add: e_def bit_rox_rot bit_rox_ext out_left_def) (auto dest: bit_imp_le_length)
  show ?thesis
    using c0 n(2)
    unfolding inl_roxl68_def Let_def rox_len n(1) [symmetric] x_bit lsl_out [OF l64 nl(1,3)] v x
    by (simp add: rotate_sr_nrm [OF l] sr_defs mk_ccr_def)
qed

lemma roxr_val:
  fixes a :: "'a::len word"
  assumes l: "LENGTH('a) \<le> 32" and n: "0 < n" "n \<le> LENGTH('a)"
  shows "((drop_bit 1 (drop_bit (n - 1) (nrm a)) OR push_bit (63 - (n - 1)) (of_bool x)) OR
      push_bit (LENGTH('a) - 1 - (n - 1)) (push_bit 1 (nrm a))) AND NRM_MSK (LENGTH('a) - 1) =
    nrm (ucast (rox_rot (LENGTH('a) + 1 - n) x a) :: 'a word)"
proof (rule nrm_top)
  show l64: "LENGTH('a) \<le> 64" using l by simp
  fix j assume j: "j < LENGTH('a)"
  have e: "1 + (n - 1) = n" "n - 1 + 1 = n"
    "63 - (n - 1) = 64 - n"
    "1 + (LENGTH('a) - 1 - (n - 1)) = LENGTH('a) + 1 - n"
    "LENGTH('a) - 1 - (n - 1) + 1 = LENGTH('a) + 1 - n"
    using n l j by linarith+
  define b where "b = 64 - LENGTH('a)"
  have b: "b + LENGTH('a) = 64" "32 \<le> b" using l by (simp_all add: b_def)
  show "bit ((drop_bit 1 (drop_bit (n - 1) (nrm a)) OR push_bit (63 - (n - 1)) (of_bool x)) OR
      push_bit (LENGTH('a) - 1 - (n - 1)) (push_bit 1 (nrm a))) (64 - LENGTH('a) + j) =
    bit (ucast (rox_rot (LENGTH('a) + 1 - n) x a) :: 'a word) j"
    unfolding drop_bit_drop_bit push_bit_push_bit e bit_or_iff bit_push_bit_iff bit_drop_bit_eq
      o_def bit_nrm [OF l64] bit_ucast_iff b_def [symmetric]
    using j n l b
    by (cases x; cases "LENGTH('a) + 1 - n \<le> j"; auto simp: bit_rox_rot bit_rox_ext bit_1_iff dest: bit_imp_le_length)
qed

lemma roxr68_word:
  fixes a :: "'a::len word" and st :: "'c emu68"
  assumes l: "LENGTH('a) \<le> 32" and n: "n = shift_count s mod (LENGTH('a) + 1)" "n \<noteq> 0"
  defines "e \<equiv> rox_rot (LENGTH('a) + 1 - n) (bit (sr st) 4) a"
  shows "inl_roxr68 E (nrm a) s (LENGTH('a) - 1) st =
    (nrm (ucast e :: 'a word),
     set_sr (mk_ccr (bit e LENGTH('a)) (neg_w (ucast e :: 'a word)) ((ucast e :: 'a word) = 0) False
         (bit e LENGTH('a)))
      (inl_addcycle68 E (of_nat (2 * shift_count s)) st))"
proof -
  have l64: "LENGTH('a) \<le> 64" using l by simp
  have nl: "0 < n" "n \<le> LENGTH('a)" "n \<le> 63"
    using n l mod_less_divisor [of "LENGTH('a) + 1" "shift_count s"] by linarith+
  have v: "((drop_bit 1 (drop_bit (n - 1) (nrm a)) OR push_bit (63 - (n - 1)) (of_bool (bit (sr st) 4))) OR
      push_bit (LENGTH('a) - 1 - (n - 1)) (push_bit 1 (nrm a))) AND NRM_MSK (LENGTH('a) - 1) =
    nrm (ucast e :: 'a word)"
    unfolding e_def by (rule roxr_val [OF l nl(1,2)])
  have x: "drop_bit (63 - (LENGTH('a) - 1)) (drop_bit (n - 1) (nrm a)) AND 1 = (if bit e LENGTH('a) then 1 else 0)"
    unfolding word_and_1_of_bool lsr_out [OF l64]
    using l nl(1,2) by (simp add: e_def bit_rox_rot bit_rox_ext) (auto dest: bit_imp_le_length)
  show ?thesis
    using n(2)
    unfolding inl_roxr68_def Let_def rox_len n(1) [symmetric] x_bit v x
    by (simp add: rotate_sr_nrm [OF l] sr_defs mk_ccr_def)
qed

end
