(* ===== verification/Cc68.thy ===== *)
theory Cc68
  imports Struct68
begin

text \<open>
  The sixteen conditions of \<open>emu68/cc68.h\<close>, on an \<open>int\<close> status register, in the bit
  arithmetic of the source, with the reading of each as a predicate of the flags: every
  condition is 0 or 1, an odd one is the complement of the even one before it.
\<close>

definition inl_is_cc0 :: "s32 \<Rightarrow> s32" where "inl_is_cc0 x = 1"
definition inl_is_cc1 :: "s32 \<Rightarrow> s32" where "inl_is_cc1 x = 0"

definition inl_is_cc2 :: "s32 \<Rightarrow> s32" where
  "inl_is_cc2 x = NOT (signed_drop_bit 0 x OR signed_drop_bit 2 x) AND 1"

definition inl_is_cc3 :: "s32 \<Rightarrow> s32" where
  "inl_is_cc3 x = (signed_drop_bit 0 x OR signed_drop_bit 2 x) AND 1"

definition inl_is_cc4 :: "s32 \<Rightarrow> s32" where
  "inl_is_cc4 x = NOT (signed_drop_bit 0 x) AND 1"

definition inl_is_cc5 :: "s32 \<Rightarrow> s32" where
  "inl_is_cc5 x = signed_drop_bit 0 x AND 1"

definition inl_is_cc6 :: "s32 \<Rightarrow> s32" where
  "inl_is_cc6 x = NOT (signed_drop_bit 2 x) AND 1"

definition inl_is_cc7 :: "s32 \<Rightarrow> s32" where
  "inl_is_cc7 x = signed_drop_bit 2 x AND 1"

definition inl_is_cc8 :: "s32 \<Rightarrow> s32" where
  "inl_is_cc8 x = NOT (signed_drop_bit 1 x) AND 1"

definition inl_is_cc9 :: "s32 \<Rightarrow> s32" where
  "inl_is_cc9 x = signed_drop_bit 1 x AND 1"

definition inl_is_ccA :: "s32 \<Rightarrow> s32" where
  "inl_is_ccA x = NOT (signed_drop_bit 3 x) AND 1"

definition inl_is_ccB :: "s32 \<Rightarrow> s32" where
  "inl_is_ccB x = signed_drop_bit 3 x AND 1"

definition inl_is_ccC :: "s32 \<Rightarrow> s32" where
  "inl_is_ccC x = NOT (signed_drop_bit 3 x XOR signed_drop_bit 1 x) AND 1"

definition inl_is_ccD :: "s32 \<Rightarrow> s32" where
  "inl_is_ccD x = (signed_drop_bit 3 x XOR signed_drop_bit 1 x) AND 1"

definition inl_is_ccE :: "s32 \<Rightarrow> s32" where
  "inl_is_ccE x =
    NOT (signed_drop_bit 2 x OR (signed_drop_bit 3 x XOR signed_drop_bit 1 x)) AND 1"

definition inl_is_ccF :: "s32 \<Rightarrow> s32" where
  "inl_is_ccF x =
    (signed_drop_bit 2 x OR (signed_drop_bit 3 x XOR signed_drop_bit 1 x)) AND 1"

lemmas cc_defs =
  inl_is_cc0_def inl_is_cc1_def inl_is_cc2_def inl_is_cc3_def
  inl_is_cc4_def inl_is_cc5_def inl_is_cc6_def inl_is_cc7_def
  inl_is_cc8_def inl_is_cc9_def inl_is_ccA_def inl_is_ccB_def
  inl_is_ccC_def inl_is_ccD_def inl_is_ccE_def inl_is_ccF_def

text \<open>The index into \<open>bcc68\<close>, \<open>dbcc68\<close> and \<open>scc68\<close>: four opcode bits.\<close>

definition inl_is_cc :: "nat \<Rightarrow> s32 \<Rightarrow> s32" where
  "inl_is_cc cc x =
    (if cc = 0 then inl_is_cc0 x else if cc = 1 then inl_is_cc1 x
     else if cc = 2 then inl_is_cc2 x else if cc = 3 then inl_is_cc3 x
     else if cc = 4 then inl_is_cc4 x else if cc = 5 then inl_is_cc5 x
     else if cc = 6 then inl_is_cc6 x else if cc = 7 then inl_is_cc7 x
     else if cc = 8 then inl_is_cc8 x else if cc = 9 then inl_is_cc9 x
     else if cc = 10 then inl_is_ccA x else if cc = 11 then inl_is_ccB x
     else if cc = 12 then inl_is_ccC x else if cc = 13 then inl_is_ccD x
     else if cc = 14 then inl_is_ccE x else inl_is_ccF x)"

section \<open>Flags\<close>

text \<open>What each condition of the 68000 means: C is bit 0, V bit 1, Z bit 2, N bit 3.\<close>

definition cc_holds :: "nat \<Rightarrow> s32 \<Rightarrow> bool" where
  "cc_holds cc x =
    (let c = bit x 0; v = bit x 1; z = bit x 2; n = bit x 3;
         p = (if cc div 2 = 0 then True else if cc div 2 = 1 then \<not> c \<and> \<not> z
              else if cc div 2 = 2 then \<not> c else if cc div 2 = 3 then \<not> z
              else if cc div 2 = 4 then \<not> v else if cc div 2 = 5 then \<not> n
              else if cc div 2 = 6 then n = v else \<not> z \<and> n = v)
     in if even cc then p else \<not> p)"

lemma nat_less_16:
  "(cc :: nat) < 16 \<Longrightarrow> cc = 0 \<or> cc = 1 \<or> cc = 2 \<or> cc = 3 \<or> cc = 4 \<or> cc = 5 \<or> cc = 6 \<or> cc = 7 \<or>
    cc = 8 \<or> cc = 9 \<or> cc = 10 \<or> cc = 11 \<or> cc = 12 \<or> cc = 13 \<or> cc = 14 \<or> cc = 15"
  by presburger

lemma is_cc_holds: "cc < 16 \<Longrightarrow> inl_is_cc cc x = of_bool (cc_holds cc x)"
  by (drule nat_less_16, elim disjE)
     (auto simp: inl_is_cc_def cc_defs cc_holds_def Let_def word_and_1_of_bool bit_simps)

lemma cc_complement: "even cc \<Longrightarrow> cc_holds (cc + 1) x \<longleftrightarrow> \<not> cc_holds cc x"
  by (auto simp: cc_holds_def Let_def)

end
