(* ===== verification/Control68.thy ===== *)
theory Control68
  imports Shift68 Cc68
begin

text \<open>
  Program control, system control and data movement: \<open>inl68_progctrl.h\<close>,
  \<open>inl68_systctrl.h\<close>, \<open>inl68_datamove.h\<close>, and the condition templates of \<open>inst68.c\<close>
  (\<open>bcc68\<close>, \<open>dbcc68\<close>, \<open>scc68\<close>).

  Lemmas: every operation keeps the machine frame.  That returns undo calls is shown in
  \<open>Flow68\<close>, that a conditional branch is taken exactly when its condition holds in \<open>Insn68\<close>.
\<close>

section \<open>Program control\<close>

definition inl_rts68 :: "'c env68 \<Rightarrow> 'c emu68 \<Rightarrow> 'c emu68" where
  "inl_rts68 E s =
    (let (v, s) = mem68_popl E s
     in set_pc (lo32 v) s)"

definition inl_rte68 :: "'c env68 \<Rightarrow> 'c emu68 \<Rightarrow> 'c emu68" where
  "inl_rte68 E s =
    (let (v, s) = mem68_popw E s;
         s = set_sr (lo32 v) s;
         (v, s) = mem68_popl E s
     in set_pc (lo32 v) s)"

definition inl_rtr68 :: "'c env68 \<Rightarrow> 'c emu68 \<Rightarrow> 'c emu68" where
  "inl_rtr68 E s =
    (let x = sr s AND 0xFF00;
         (v, s) = mem68_popw E s;
         s = set_sr (x OR lo32 (u8_of v)) s;
         (v, s) = mem68_popl E s
     in set_pc (lo32 v) s)"

definition inl_bsr68 :: "'c env68 \<Rightarrow> int68 \<Rightarrow> 'c emu68 \<Rightarrow> 'c emu68" where
  "inl_bsr68 E addr s =
    (let s = mem68_pushl E (sx (pc s)) s;
         s = set_pc (lo32 addr) s
     in inl_addcycle68 E 12 s)"

definition inl_jmp68 :: "'c env68 \<Rightarrow> int68 \<Rightarrow> 'c emu68 \<Rightarrow> 'c emu68" where
  "inl_jmp68 E addr s =
    (let s = set_pc (lo32 addr) s
     in inl_addcycle68 E 4 s)"

definition inl_jsr68 :: "'c env68 \<Rightarrow> int68 \<Rightarrow> 'c emu68 \<Rightarrow> 'c emu68" where
  "inl_jsr68 E addr s =
    (let s = mem68_pushl E (sx (pc s)) s;
         s = set_pc (lo32 addr) s
     in inl_addcycle68 E 4 s)"

definition inl_nop68 :: "'c emu68 \<Rightarrow> 'c emu68" where
  "inl_nop68 s = s"

section \<open>Conditions\<close>

text \<open>The table \<open>bcc68\<close>: entry 0 is \<open>bra\<close>, entry 1 is \<open>bsr\<close>.\<close>

definition bcc68 :: "'c env68 \<Rightarrow> nat \<Rightarrow> int68 \<Rightarrow> 'c emu68 \<Rightarrow> 'c emu68" where
  "bcc68 E cc addr s =
    (if cc = 0 then set_pc (lo32 addr) s
     else if cc = 1 then inl_bsr68 E addr s
     else if inl_is_cc cc (sr s) \<noteq> 0 then set_pc (lo32 addr) s
     else s)"

definition dbcc68 :: "'c env68 \<Rightarrow> nat \<Rightarrow> nat \<Rightarrow> 'c emu68 \<Rightarrow> 'c emu68" where
  "dbcc68 E cc dn s =
    (let p = sx (pc s)
     in if inl_is_cc cc (sr s) = 0 then
          let a = u16_of (sx (dreg s dn - 1));
              s = set_dreg dn (lo32 (sx (dreg s dn AND 0xFFFF0000) OR a)) s
          in if a \<noteq> 0xFFFF then
               let (w, s) = mem68_nextw E s
               in set_pc (lo32 (p + w)) s
             else set_pc (lo32 (p + 2)) s
        else set_pc (lo32 (p + 2)) s)"

definition scc68 :: "nat \<Rightarrow> 'c emu68 \<Rightarrow> s32" where
  "scc68 cc s = ucast (ucast (- inl_is_cc cc (sr s)) :: u8)"

section \<open>System control\<close>

definition inl_andtosr68 :: "int68 \<Rightarrow> 'c emu68 \<Rightarrow> 'c emu68" where
  "inl_andtosr68 v s = set_sr (lo32 (sx (sr s) AND v)) s"

definition inl_orrtosr68 :: "int68 \<Rightarrow> 'c emu68 \<Rightarrow> 'c emu68" where
  "inl_orrtosr68 v s = set_sr (lo32 (sx (sr s) OR v)) s"

definition inl_eortosr68 :: "int68 \<Rightarrow> 'c emu68 \<Rightarrow> 'c emu68" where
  "inl_eortosr68 v s = set_sr (lo32 (sx (sr s) XOR v)) s"

definition inl_reset68 :: "'c env68 \<Rightarrow> 'c emu68 \<Rightarrow> 'c emu68" where
  "inl_reset68 E s =
    (if sr s AND lo32 SR_S \<noteq> 0 then
       let s = s\<lparr>status := EMU68_HLT\<rparr>
       in exception68 E HWRESET_VECTOR (-1) s
     else exception68 E PRIVV_VECTOR (-1) s)"

definition inl_stop68 :: "'c env68 \<Rightarrow> 'c emu68 \<Rightarrow> 'c emu68" where
  "inl_stop68 E s =
    (let (w, s) = mem68_nextw E s;
         stop_sr = ucast w :: u16
     in if sr s AND lo32 SR_S \<noteq> 0 then
          let s = set_sr (ucast stop_sr) s;
              s = s\<lparr>status := EMU68_STP\<rparr>;
              s = exception68 E HWSTOP_VECTOR (-1) s
          in if inst_sr s AND lo32 SR_T \<noteq> 0 \<and> status s = EMU68_STP then s\<lparr>status := EMU68_NRM\<rparr>
             else s
        else exception68 E PRIVV_VECTOR (-1) s)"

definition inl_trapv68 :: "'c env68 \<Rightarrow> 'c emu68 \<Rightarrow> 'c emu68" where
  "inl_trapv68 E s =
    (if sr s AND lo32 SR_V \<noteq> 0 then exception68 E TRAPV_VECTOR (-1) s else s)"

definition inl_trap68 :: "'c env68 \<Rightarrow> nat \<Rightarrow> 'c emu68 \<Rightarrow> 'c emu68" where
  "inl_trap68 E n s = exception68 E (TRAP_VECTOR n) (-1) s"

definition inl_chk68 :: "'c env68 \<Rightarrow> int68 \<Rightarrow> int68 \<Rightarrow> 'c emu68 \<Rightarrow> 'c emu68" where
  "inl_chk68 E a b s =
    (let s = set_sr (sr s AND lo32 (0xFF00 OR (SR_X OR SR_N))) s;
         s = set_sr (lo32 (sx (sr s) OR push_bit 2 (c_not b))) s
     in if b <s 0 then
          let s = set_sr (sr s OR lo32 SR_N) s
          in exception68 E CHK_VECTOR (-1) s
        else if a <s b then
          let s = set_sr (sr s AND NOT (lo32 SR_N)) s
          in exception68 E CHK_VECTOR (-1) s
        else s)"

definition inl_illegal68 :: "'c env68 \<Rightarrow> 'c emu68 \<Rightarrow> 'c emu68" where
  "inl_illegal68 E s = exception68 E ILLEGAL_VECTOR (-1) s"

section \<open>Data movement\<close>

definition inl_link68 :: "'c env68 \<Rightarrow> nat \<Rightarrow> 'c emu68 \<Rightarrow> 'c emu68" where
  "inl_link68 E r s =
    (let s = mem68_pushl E (sx (areg s r)) s;
         s = set_areg r (areg s 7) s;
         a = areg s 7;
         (w, s) = mem68_nextw E s
     in set_areg 7 (lo32 (sx a + w)) s)"

definition inl_unlk68 :: "'c env68 \<Rightarrow> nat \<Rightarrow> 'c emu68 \<Rightarrow> 'c emu68" where
  "inl_unlk68 E r s =
    (let s = set_areg 7 (areg s r) s;
         (v, s) = mem68_popl E s
     in set_areg r (lo32 v) s)"

definition inl_exg68 :: "nat \<Rightarrow> nat \<Rightarrow> 'c emu68 \<Rightarrow> 'c emu68" where
  "inl_exg68 reg0 reg9 s =
    (let tmp = dreg s reg0;
         s = set_dreg reg0 (dreg s reg9) s
     in set_dreg reg9 tmp s)"

definition inl_lea68 :: "'c env68 \<Rightarrow> nat \<Rightarrow> nat \<Rightarrow> 'c emu68 \<Rightarrow> int68 \<times> 'c emu68" where
  "inl_lea68 E mode r s = get_ea68 E SzL mode r s"

definition inl_pea68 :: "'c env68 \<Rightarrow> nat \<Rightarrow> nat \<Rightarrow> 'c emu68 \<Rightarrow> int68 \<times> 'c emu68" where
  "inl_pea68 E mode r s =
    (let (ea, s) = get_ea68 E SzL mode r s;
         s = mem68_pushl E ea s
     in (ea, s))"

section \<open>Frame\<close>

lemma ctrl_frame [frame_intros]:
  "frame68 I s t \<Longrightarrow> frame68 I s (inl_jmp68 E a t)"
  "frame68 I s t \<Longrightarrow> frame68 I s (inl_nop68 t)"
  "frame68 I s t \<Longrightarrow> frame68 I s (inl_andtosr68 a t)"
  "frame68 I s t \<Longrightarrow> frame68 I s (inl_orrtosr68 a t)"
  "frame68 I s t \<Longrightarrow> frame68 I s (inl_eortosr68 a t)"
  "frame68 I s t \<Longrightarrow> frame68 I s (inl_exg68 r r' t)"
  by (auto simp: inl_jmp68_def inl_nop68_def inl_andtosr68_def inl_orrtosr68_def
      inl_eortosr68_def inl_exg68_def Let_def intro!: frame_intros)

context env_frame
begin

lemma progctrl_frame [frame_intros]:
  "frame68 I s t \<Longrightarrow> frame68 I s (inl_rts68 E t)"
  "frame68 I s t \<Longrightarrow> frame68 I s (inl_rte68 E t)"
  "frame68 I s t \<Longrightarrow> frame68 I s (inl_rtr68 E t)"
  "frame68 I s t \<Longrightarrow> frame68 I s (inl_bsr68 E a t)"
  "frame68 I s t \<Longrightarrow> frame68 I s (inl_jsr68 E a t)"
  "frame68 I s t \<Longrightarrow> frame68 I s (dbcc68 E cc dn t)"
  by (auto simp: inl_rts68_def inl_rte68_def inl_rtr68_def inl_bsr68_def inl_jsr68_def
      dbcc68_def Let_def split_def intro!: frame_intros)

lemma bcc_frame [frame_intros]: "frame68 I s t \<Longrightarrow> frame68 I s (bcc68 E cc a t)"
  by (auto simp: bcc68_def intro!: frame_intros)

lemma systctrl_frame [frame_intros]:
  "frame68 I s t \<Longrightarrow> frame68 I s (inl_reset68 E t)"
  "frame68 I s t \<Longrightarrow> frame68 I s (inl_stop68 E t)"
  "frame68 I s t \<Longrightarrow> frame68 I s (inl_trapv68 E t)"
  "frame68 I s t \<Longrightarrow> frame68 I s (inl_trap68 E n t)"
  "frame68 I s t \<Longrightarrow> frame68 I s (inl_chk68 E a b t)"
  "frame68 I s t \<Longrightarrow> frame68 I s (inl_illegal68 E t)"
  by (auto simp: inl_reset68_def inl_stop68_def inl_trapv68_def inl_trap68_def inl_chk68_def
      inl_illegal68_def Let_def split_def intro!: frame_intros)

lemma datamove_frame [frame_intros]:
  "frame68 I s t \<Longrightarrow> frame68 I s (inl_link68 E r t)"
  "frame68 I s t \<Longrightarrow> frame68 I s (inl_unlk68 E r t)"
  "frame68 I s t \<Longrightarrow> frame68 I s (snd (inl_lea68 E m r t))"
  "frame68 I s t \<Longrightarrow> frame68 I s (snd (inl_pea68 E m r t))"
  by (auto simp: inl_link68_def inl_unlk68_def inl_lea68_def inl_pea68_def Let_def split_def
      intro!: frame_intros)

end

end
