(* ===== verification/Ops68.thy ===== *)
theory Ops68
  imports Control68
begin

text \<open>
  The operand schemes the instruction lines are built from.  The functions of
  \<open>emu68/lines/line*.c\<close> are one scheme written out for each operation, size and
  addressing mode; the schemes are stated once here with those as arguments, in the order
  of evaluation of the source, and the line theories instantiate them function group by
  function group.

  \<open>norm68\<close> is \<open>(int68_t) v << FIX\<close>; \<open>put_dn\<close> is \<open>REG68.d[r] = (REG68.d[r] \<and> MSK) + (d >> FIX)\<close>
  with an unsigned \<open>d\<close>, where \<open>LONG_MSK\<close> is zero.
\<close>

section \<open>Operands\<close>

definition norm68 :: "size68 \<Rightarrow> int68 \<Rightarrow> int68" where
  "norm68 sz v = push_bit (fix68 sz) v"

definition put_dn :: "size68 \<Rightarrow> nat \<Rightarrow> int68 \<Rightarrow> 'c emu68 \<Rightarrow> 'c emu68" where
  "put_dn sz r d s =
    set_dreg r (lo32 ((sx (dreg s r) AND msk68 sz) + drop_bit (fix68 sz) d)) s"

text \<open>A source operand: \<open>Dn\<close>, \<open>An\<close> or a read through the effective address.\<close>

definition op_src :: "'c env68 \<Rightarrow> size68 \<Rightarrow> nat \<Rightarrow> nat \<Rightarrow> 'c emu68 \<Rightarrow> int68 \<times> 'c emu68" where
  "op_src E sz mode r s =
    (if mode = 0 then (norm68 sz (sx (dreg s r)), s)
     else if mode = 1 then (norm68 sz (sx (areg s r)), s)
     else let (v, s) = read_EA E sz mode r s in (norm68 sz v, s))"

text \<open>An immediate operand: one extension word for byte and word, two for long.\<close>

definition op_imm :: "'c env68 \<Rightarrow> size68 \<Rightarrow> 'c emu68 \<Rightarrow> int68 \<times> 'c emu68" where
  "op_imm E sz s =
    (let (v, s) = (if sz = SzL then mem68_nextl E s else mem68_nextw E s)
     in (norm68 sz v, s))"

text \<open>The quick operand \<open>((reg9 - 1) \<and> 7) + 1\<close>.\<close>

definition quick68 :: "nat \<Rightarrow> int68" where
  "quick68 reg9 = ((of_nat reg9 - 1) AND 7) + 1"

section \<open>Arithmetic and logic schemes\<close>

datatype alu68 = ALU_ORR | ALU_AND | ALU_EOR | ALU_ADD | ALU_SUB | ALU_CMP

text \<open>The macros \<open>ORRB(S,A,B)\<close> and so on; a comparison has no result to store.\<close>

fun alu_op68 :: "alu68 \<Rightarrow> int68 \<Rightarrow> int68 \<Rightarrow> 'c emu68 \<Rightarrow> int68 option \<times> 'c emu68" where
  "alu_op68 ALU_ORR a b st = (let (r, st) = inl_orr68 a b st in (Some r, st))"
| "alu_op68 ALU_AND a b st = (let (r, st) = inl_and68 a b st in (Some r, st))"
| "alu_op68 ALU_EOR a b st = (let (r, st) = inl_eor68 a b st in (Some r, st))"
| "alu_op68 ALU_ADD a b st = (let (r, st) = inl_add68 a b 0 st in (Some r, st))"
| "alu_op68 ALU_SUB a b st = (let (r, st) = inl_sub68 a b 0 st in (Some r, st))"
| "alu_op68 ALU_CMP a b st = (None, inl_cmp68 a b st)"

text \<open>Destination \<open>Dn\<close>, with the source already there.\<close>

definition op_dn :: "alu68 \<Rightarrow> size68 \<Rightarrow> int68 \<Rightarrow> nat \<Rightarrow> 'c emu68 \<Rightarrow> 'c emu68" where
  "op_dn f sz x r s =
    (let d = norm68 sz (sx (dreg s r));
         (res, s) = alu_op68 f x d s
     in case res of None \<Rightarrow> s | Some d \<Rightarrow> put_dn sz r d s)"

text \<open>Destination in memory: the address is computed once, read and written.\<close>

definition op_mem :: "'c env68 \<Rightarrow> alu68 \<Rightarrow> size68 \<Rightarrow> int68 \<Rightarrow> nat \<Rightarrow> nat \<Rightarrow> 'c emu68 \<Rightarrow> 'c emu68" where
  "op_mem E f sz x mode r s =
    (let (l, s) = get_ea68 E sz mode r s;
         (v, s) = read68 E sz l s;
         (res, s) = alu_op68 f x (norm68 sz v) s
     in case res of None \<Rightarrow> s | Some d \<Rightarrow> write68 E sz l (drop_bit (fix68 sz) d) s)"

text \<open>\<open>OP.sz <Ae>,Dn\<close>.\<close>

definition op_ea_dn :: "'c env68 \<Rightarrow> alu68 \<Rightarrow> size68 \<Rightarrow> nat \<Rightarrow> nat \<Rightarrow> nat \<Rightarrow> 'c emu68 \<Rightarrow> 'c emu68" where
  "op_ea_dn E f sz mode reg9 reg0 s =
    (let (x, s) = op_src E sz mode reg0 s
     in op_dn f sz x reg9 s)"

text \<open>\<open>OP.sz Dn,<Ae>\<close>.\<close>

definition op_dn_ea :: "'c env68 \<Rightarrow> alu68 \<Rightarrow> size68 \<Rightarrow> nat \<Rightarrow> nat \<Rightarrow> nat \<Rightarrow> 'c emu68 \<Rightarrow> 'c emu68" where
  "op_dn_ea E f sz mode reg9 reg0 s =
    (let x = norm68 sz (sx (dreg s reg9))
     in if mode = 0 then op_dn f sz x reg0 s else op_mem E f sz x mode reg0 s)"

text \<open>The address register forms: a word source is sign extended by \<open>>> 16\<close>.\<close>

definition op_src_a :: "'c env68 \<Rightarrow> size68 \<Rightarrow> nat \<Rightarrow> nat \<Rightarrow> 'c emu68 \<Rightarrow> int68 \<times> 'c emu68" where
  "op_src_a E sz mode r s =
    (let (x, s) = op_src E sz mode r s
     in (if sz = SzW then signed_drop_bit 16 x else x, s))"

definition op_adda :: "int68 \<Rightarrow> nat \<Rightarrow> 'c emu68 \<Rightarrow> 'c emu68" where
  "op_adda x r s =
    (let d = norm68 SzL (sx (areg s r));
         d = d + x
     in set_areg r (lo32 (drop_bit 32 d)) s)"

definition op_suba :: "int68 \<Rightarrow> nat \<Rightarrow> 'c emu68 \<Rightarrow> 'c emu68" where
  "op_suba x r s =
    (let d = norm68 SzL (sx (areg s r));
         d = d - x
     in set_areg r (lo32 (drop_bit 32 d)) s)"

definition op_cmpa :: "int68 \<Rightarrow> nat \<Rightarrow> 'c emu68 \<Rightarrow> 'c emu68" where
  "op_cmpa x r s = inl_cmp68 x (norm68 SzL (sx (areg s r))) s"

text \<open>\<open>BYTE_SR_X\<close>, \<open>WORD_SR_X\<close>, \<open>LONG_SR_X\<close>: the X flag as a normalised operand.\<close>

fun sr_x :: "size68 \<Rightarrow> 'c emu68 \<Rightarrow> int68" where
  "sr_x SzB s = push_bit (56 - 4) (sx (sr s AND lo32 SR_X))"
| "sr_x SzW s = push_bit (48 - 4) (sx (sr s AND lo32 SR_X))"
| "sr_x SzL s = push_bit 32 (sx (signed_drop_bit 4 (sr s) AND 1))"

text \<open>\<open>ADDX\<close> and \<open>SUBX\<close>: between data registers, and between predecremented memory.\<close>

definition addsub_x :: "bool \<Rightarrow> size68 \<Rightarrow> int68 \<Rightarrow> int68 \<Rightarrow> 'c emu68 \<Rightarrow> int68 \<times> 'c emu68" where
  "addsub_x sub sz a b s =
    (if sub then inl_sub68 a b (sr_x sz s) s else inl_add68 a b (sr_x sz s) s)"

definition opx_dn :: "bool \<Rightarrow> size68 \<Rightarrow> nat \<Rightarrow> nat \<Rightarrow> 'c emu68 \<Rightarrow> 'c emu68" where
  "opx_dn sub sz reg9 reg0 s =
    (let a = norm68 sz (sx (dreg s reg0));
         b = norm68 sz (sx (dreg s reg9));
         (r, s) = addsub_x sub sz a b s
     in put_dn sz reg9 r s)"

definition opx_mem :: "'c env68 \<Rightarrow> bool \<Rightarrow> size68 \<Rightarrow> nat \<Rightarrow> nat \<Rightarrow> 'c emu68 \<Rightarrow> 'c emu68" where
  "opx_mem E sub sz reg9 reg0 s =
    (let s = set_areg reg0 (areg s reg0 - of_nat (bytes68 sz)) s;
         (a, s) = read68 E sz (sx (areg s reg0)) s;
         s = set_areg reg9 (areg s reg9 - of_nat (bytes68 sz)) s;
         (b, s) = read68 E sz (sx (areg s reg9)) s;
         (r, s) = addsub_x sub sz (norm68 sz a) (norm68 sz b) s
     in write68 E sz (sx (areg s reg9)) (drop_bit (fix68 sz) r) s)"

section \<open>Moves\<close>

definition op_move_dn :: "'c env68 \<Rightarrow> size68 \<Rightarrow> nat \<Rightarrow> nat \<Rightarrow> nat \<Rightarrow> 'c emu68 \<Rightarrow> 'c emu68" where
  "op_move_dn E sz mode reg9 reg0 s =
    (let (a, s) = op_src E sz mode reg0 s;
         s = inl_tst68 a s
     in put_dn sz reg9 a s)"

definition op_move_ea :: "'c env68 \<Rightarrow> size68 \<Rightarrow> nat \<Rightarrow> nat \<Rightarrow> nat \<Rightarrow> nat \<Rightarrow> 'c emu68 \<Rightarrow> 'c emu68" where
  "op_move_ea E sz dst mode reg9 reg0 s =
    (let (a, s) = op_src E sz mode reg0 s;
         s = inl_tst68 a s
     in write_EA E sz dst reg9 (signed_drop_bit (fix68 sz) a) s)"

section \<open>Bit operations\<close>

datatype bitop68 = BTST | BCHG | BCLR | BSET

fun bit_op68 :: "bitop68 \<Rightarrow> int68 \<Rightarrow> nat \<Rightarrow> 'c emu68 \<Rightarrow> int68 option \<times> 'c emu68" where
  "bit_op68 BTST v n st = (None, inl_btst68 v n st)"
| "bit_op68 BCHG v n st = (let (r, st) = inl_bchg68 v n st in (Some r, st))"
| "bit_op68 BCLR v n st = (let (r, st) = inl_bclr68 v n st in (Some r, st))"
| "bit_op68 BSET v n st = (let (r, st) = inl_bset68 v n st in (Some r, st))"

text \<open>The cycles added for a data register and for memory.\<close>

fun bitop_reg_cycles :: "bitop68 \<Rightarrow> int68" where
  "bitop_reg_cycles BTST = 2"
| "bitop_reg_cycles BCHG = 4"
| "bitop_reg_cycles BCLR = 6"
| "bitop_reg_cycles BSET = 4"

fun bitop_mem_cycles :: "bitop68 \<Rightarrow> int68" where
  "bitop_mem_cycles BTST = 0"
| "bitop_mem_cycles BCHG = 4"
| "bitop_mem_cycles BCLR = 4"
| "bitop_mem_cycles BSET = 4"

definition bit_reg :: "'c env68 \<Rightarrow> bitop68 \<Rightarrow> s32 \<Rightarrow> nat \<Rightarrow> 'c emu68 \<Rightarrow> 'c emu68" where
  "bit_reg E f n r s =
    (let a = sx (dreg s r);
         (res, s) = bit_op68 f a (unat (n AND 31)) s;
         s = (case res of None \<Rightarrow> s | Some a \<Rightarrow> set_dreg r (lo32 a) s)
     in inl_addcycle68 E (bitop_reg_cycles f) s)"

text \<open>The bit number is read after the operand, from the state \<open>n\<close> is applied to.\<close>

definition bit_mem :: "'c env68 \<Rightarrow> bitop68 \<Rightarrow> ('c emu68 \<Rightarrow> s32) \<Rightarrow> nat \<Rightarrow> nat \<Rightarrow> 'c emu68 \<Rightarrow> 'c emu68" where
  "bit_mem E f n mode r s =
    (let (l, s) = get_ea68 E SzB mode r s;
         (a, s) = read68 E SzB l s;
         (res, s) = bit_op68 f a (unat (n s AND 7)) s;
         s = (case res of None \<Rightarrow> s | Some a \<Rightarrow> write68 E SzB l a s)
     in inl_addcycle68 E (bitop_mem_cycles f) s)"

section \<open>Frame\<close>

lemma scheme_frame [frame_intros]:
  "frame68 I s t \<Longrightarrow> frame68 I s (put_dn sz r d t)"
  "frame68 I s t \<Longrightarrow> frame68 I s (snd (alu_op68 f a b t))"
  "frame68 I s t \<Longrightarrow> frame68 I s (snd (bit_op68 g a n t))"
  "frame68 I s t \<Longrightarrow> frame68 I s (snd (addsub_x sub sz a b t))"
  "frame68 I s t \<Longrightarrow> frame68 I s (op_adda x r t)"
  "frame68 I s t \<Longrightarrow> frame68 I s (op_suba x r t)"
  "frame68 I s t \<Longrightarrow> frame68 I s (op_cmpa x r t)"
  by (cases f; cases g; auto simp: put_dn_def addsub_x_def op_adda_def op_suba_def op_cmpa_def
      Let_def split_def intro!: frame_intros)+

lemma frame_option [frame_intros]:
  "(x = None \<Longrightarrow> frame68 I s t) \<Longrightarrow> (\<And>d. x = Some d \<Longrightarrow> frame68 I s (f d)) \<Longrightarrow>
    frame68 I s (case x of None \<Rightarrow> t | Some d \<Rightarrow> f d)"
  by (cases x) simp_all

lemma dn_frame [frame_intros]:
  "frame68 I s t \<Longrightarrow> frame68 I s (op_dn f sz x r t)"
  "frame68 I s t \<Longrightarrow> frame68 I s (opx_dn sub sz r r' t)"
  "frame68 I s t \<Longrightarrow> frame68 I s (bit_reg E g n r t)"
  by (auto simp: op_dn_def opx_dn_def bit_reg_def Let_def split_def intro!: frame_intros)

context env_frame
begin

lemma operand_frame [frame_intros]:
  "frame68 I s t \<Longrightarrow> frame68 I s (snd (op_src E sz mode r t))"
  "frame68 I s t \<Longrightarrow> frame68 I s (snd (op_imm E sz t))"
  "frame68 I s t \<Longrightarrow> frame68 I s (snd (op_src_a E sz mode r t))"
  by (auto simp: op_src_def op_imm_def op_src_a_def Let_def split_def intro!: frame_intros)

lemma op_frame [frame_intros]:
  "frame68 I s t \<Longrightarrow> frame68 I s (op_mem E f sz x mode r t)"
  "frame68 I s t \<Longrightarrow> frame68 I s (op_ea_dn E f sz mode r r' t)"
  "frame68 I s t \<Longrightarrow> frame68 I s (opx_mem E sub sz r r' t)"
  "frame68 I s t \<Longrightarrow> frame68 I s (op_move_dn E sz mode r r' t)"
  "frame68 I s t \<Longrightarrow> frame68 I s (op_move_ea E sz dst mode r r' t)"
  "frame68 I s t \<Longrightarrow> frame68 I s (bit_mem E g n mode r t)"
  by (auto simp: op_mem_def op_ea_dn_def opx_mem_def op_move_dn_def op_move_ea_def bit_mem_def
      Let_def split_def intro!: frame_intros)

lemma op_dn_ea_frame [frame_intros]:
  "frame68 I s t \<Longrightarrow> frame68 I s (op_dn_ea E f sz mode r r' t)"
  by (auto simp: op_dn_ea_def Let_def intro!: frame_intros)

end

end
