(* ===== verification/LineMove68.thy ===== *)
theory LineMove68
  imports Ops68
begin

text \<open>
  Lines 1, 2, 3 (\<open>MOVE.B\<close>, \<open>MOVE.L\<close>, \<open>MOVE.W\<close>, \<open>MOVEA\<close>) and 7 (\<open>MOVEQ\<close>) of
  \<open>emu68/lines\<close>.  Each definition is a group of eight functions of the source: the line,
  the destination mode (opcode bits 6-8) in its name and the source mode (bits 3-5) as its
  first argument, then the two register fields.
\<close>

section \<open>Line 1\<close>

definition line1_r0 :: "'c env68 \<Rightarrow> nat \<Rightarrow> nat \<Rightarrow> nat \<Rightarrow> 'c emu68 \<Rightarrow> 'c emu68" where
  "line1_r0 E mode reg9 reg0 s =
    op_move_dn E SzB mode reg9 reg0 s"

definition line1_r1 :: "'c env68 \<Rightarrow> nat \<Rightarrow> nat \<Rightarrow> nat \<Rightarrow> 'c emu68 \<Rightarrow> 'c emu68" where
  "line1_r1 E mode reg9 reg0 s =
    inl_illegal68 E s"

definition line1_r2 :: "'c env68 \<Rightarrow> nat \<Rightarrow> nat \<Rightarrow> nat \<Rightarrow> 'c emu68 \<Rightarrow> 'c emu68" where
  "line1_r2 E mode reg9 reg0 s =
    op_move_ea E SzB 2 mode reg9 reg0 s"

definition line1_r3 :: "'c env68 \<Rightarrow> nat \<Rightarrow> nat \<Rightarrow> nat \<Rightarrow> 'c emu68 \<Rightarrow> 'c emu68" where
  "line1_r3 E mode reg9 reg0 s =
    op_move_ea E SzB 3 mode reg9 reg0 s"

definition line1_r4 :: "'c env68 \<Rightarrow> nat \<Rightarrow> nat \<Rightarrow> nat \<Rightarrow> 'c emu68 \<Rightarrow> 'c emu68" where
  "line1_r4 E mode reg9 reg0 s =
    op_move_ea E SzB 4 mode reg9 reg0 s"

definition line1_r5 :: "'c env68 \<Rightarrow> nat \<Rightarrow> nat \<Rightarrow> nat \<Rightarrow> 'c emu68 \<Rightarrow> 'c emu68" where
  "line1_r5 E mode reg9 reg0 s =
    op_move_ea E SzB 5 mode reg9 reg0 s"

definition line1_r6 :: "'c env68 \<Rightarrow> nat \<Rightarrow> nat \<Rightarrow> nat \<Rightarrow> 'c emu68 \<Rightarrow> 'c emu68" where
  "line1_r6 E mode reg9 reg0 s =
    op_move_ea E SzB 6 mode reg9 reg0 s"

definition line1_r7 :: "'c env68 \<Rightarrow> nat \<Rightarrow> nat \<Rightarrow> nat \<Rightarrow> 'c emu68 \<Rightarrow> 'c emu68" where
  "line1_r7 E mode reg9 reg0 s =
    op_move_ea E SzB 7 mode reg9 reg0 s"

section \<open>Line 2\<close>

definition line2_r0 :: "'c env68 \<Rightarrow> nat \<Rightarrow> nat \<Rightarrow> nat \<Rightarrow> 'c emu68 \<Rightarrow> 'c emu68" where
  "line2_r0 E mode reg9 reg0 s =
    op_move_dn E SzL mode reg9 reg0 s"

definition line2_r1 :: "'c env68 \<Rightarrow> nat \<Rightarrow> nat \<Rightarrow> nat \<Rightarrow> 'c emu68 \<Rightarrow> 'c emu68" where
  "line2_r1 E mode reg9 reg0 s =
    (if mode = 0 then set_areg reg9 (dreg s reg0) s
     else if mode = 1 then set_areg reg9 (areg s reg0) s
     else let (v, s) = read_EA E SzL mode reg0 s in set_areg reg9 (lo32 v) s)"

definition line2_r2 :: "'c env68 \<Rightarrow> nat \<Rightarrow> nat \<Rightarrow> nat \<Rightarrow> 'c emu68 \<Rightarrow> 'c emu68" where
  "line2_r2 E mode reg9 reg0 s =
    op_move_ea E SzL 2 mode reg9 reg0 s"

definition line2_r3 :: "'c env68 \<Rightarrow> nat \<Rightarrow> nat \<Rightarrow> nat \<Rightarrow> 'c emu68 \<Rightarrow> 'c emu68" where
  "line2_r3 E mode reg9 reg0 s =
    op_move_ea E SzL 3 mode reg9 reg0 s"

definition line2_r4 :: "'c env68 \<Rightarrow> nat \<Rightarrow> nat \<Rightarrow> nat \<Rightarrow> 'c emu68 \<Rightarrow> 'c emu68" where
  "line2_r4 E mode reg9 reg0 s =
    op_move_ea E SzL 4 mode reg9 reg0 s"

definition line2_r5 :: "'c env68 \<Rightarrow> nat \<Rightarrow> nat \<Rightarrow> nat \<Rightarrow> 'c emu68 \<Rightarrow> 'c emu68" where
  "line2_r5 E mode reg9 reg0 s =
    op_move_ea E SzL 5 mode reg9 reg0 s"

definition line2_r6 :: "'c env68 \<Rightarrow> nat \<Rightarrow> nat \<Rightarrow> nat \<Rightarrow> 'c emu68 \<Rightarrow> 'c emu68" where
  "line2_r6 E mode reg9 reg0 s =
    op_move_ea E SzL 6 mode reg9 reg0 s"

definition line2_r7 :: "'c env68 \<Rightarrow> nat \<Rightarrow> nat \<Rightarrow> nat \<Rightarrow> 'c emu68 \<Rightarrow> 'c emu68" where
  "line2_r7 E mode reg9 reg0 s =
    op_move_ea E SzL 7 mode reg9 reg0 s"

section \<open>Line 3\<close>

definition line3_r0 :: "'c env68 \<Rightarrow> nat \<Rightarrow> nat \<Rightarrow> nat \<Rightarrow> 'c emu68 \<Rightarrow> 'c emu68" where
  "line3_r0 E mode reg9 reg0 s =
    op_move_dn E SzW mode reg9 reg0 s"

definition line3_r1 :: "'c env68 \<Rightarrow> nat \<Rightarrow> nat \<Rightarrow> nat \<Rightarrow> 'c emu68 \<Rightarrow> 'c emu68" where
  "line3_r1 E mode reg9 reg0 s =
    (if mode = 0 then set_areg reg9 (scast (ucast (dreg s reg0) :: u16)) s
     else if mode = 1 then set_areg reg9 (scast (ucast (areg s reg0) :: u16)) s
     else let (v, s) = read_EA E SzW mode reg0 s
          in set_areg reg9 (scast (ucast v :: u16)) s)"

definition line3_r2 :: "'c env68 \<Rightarrow> nat \<Rightarrow> nat \<Rightarrow> nat \<Rightarrow> 'c emu68 \<Rightarrow> 'c emu68" where
  "line3_r2 E mode reg9 reg0 s =
    op_move_ea E SzW 2 mode reg9 reg0 s"

definition line3_r3 :: "'c env68 \<Rightarrow> nat \<Rightarrow> nat \<Rightarrow> nat \<Rightarrow> 'c emu68 \<Rightarrow> 'c emu68" where
  "line3_r3 E mode reg9 reg0 s =
    op_move_ea E SzW 3 mode reg9 reg0 s"

definition line3_r4 :: "'c env68 \<Rightarrow> nat \<Rightarrow> nat \<Rightarrow> nat \<Rightarrow> 'c emu68 \<Rightarrow> 'c emu68" where
  "line3_r4 E mode reg9 reg0 s =
    op_move_ea E SzW 4 mode reg9 reg0 s"

definition line3_r5 :: "'c env68 \<Rightarrow> nat \<Rightarrow> nat \<Rightarrow> nat \<Rightarrow> 'c emu68 \<Rightarrow> 'c emu68" where
  "line3_r5 E mode reg9 reg0 s =
    op_move_ea E SzW 5 mode reg9 reg0 s"

definition line3_r6 :: "'c env68 \<Rightarrow> nat \<Rightarrow> nat \<Rightarrow> nat \<Rightarrow> 'c emu68 \<Rightarrow> 'c emu68" where
  "line3_r6 E mode reg9 reg0 s =
    op_move_ea E SzW 6 mode reg9 reg0 s"

definition line3_r7 :: "'c env68 \<Rightarrow> nat \<Rightarrow> nat \<Rightarrow> nat \<Rightarrow> 'c emu68 \<Rightarrow> 'c emu68" where
  "line3_r7 E mode reg9 reg0 s =
    op_move_ea E SzW 7 mode reg9 reg0 s"

section \<open>Line 7\<close>

text \<open>The eight bit operand: \<open>reg0 + 8 * mode + 64 * row\<close>, sign extended; \<open>MOVEL\<close> is applied
  to the operand itself, which is not normalised.\<close>

definition op_moveq :: "int68 \<Rightarrow> nat \<Rightarrow> 'c emu68 \<Rightarrow> 'c emu68" where
  "op_moveq a r s =
    (let s = set_dreg r (lo32 a) s
     in inl_tst68 a s)"

definition line7_r0 :: "'c env68 \<Rightarrow> nat \<Rightarrow> nat \<Rightarrow> nat \<Rightarrow> 'c emu68 \<Rightarrow> 'c emu68" where
  "line7_r0 E mode reg9 reg0 s =
    op_moveq (of_nat reg0 + of_nat (8 * mode)) reg9 s"

definition line7_r1 :: "'c env68 \<Rightarrow> nat \<Rightarrow> nat \<Rightarrow> nat \<Rightarrow> 'c emu68 \<Rightarrow> 'c emu68" where
  "line7_r1 E mode reg9 reg0 s =
    op_moveq (of_nat reg0 + of_nat (8 * mode) + 64) reg9 s"

definition line7_r2 :: "'c env68 \<Rightarrow> nat \<Rightarrow> nat \<Rightarrow> nat \<Rightarrow> 'c emu68 \<Rightarrow> 'c emu68" where
  "line7_r2 E mode reg9 reg0 s =
    op_moveq (of_nat reg0 + of_nat (8 * mode) - 128) reg9 s"

definition line7_r3 :: "'c env68 \<Rightarrow> nat \<Rightarrow> nat \<Rightarrow> nat \<Rightarrow> 'c emu68 \<Rightarrow> 'c emu68" where
  "line7_r3 E mode reg9 reg0 s =
    op_moveq (of_nat reg0 + of_nat (8 * mode) - 64) reg9 s"

definition line7_r4 :: "'c env68 \<Rightarrow> nat \<Rightarrow> nat \<Rightarrow> nat \<Rightarrow> 'c emu68 \<Rightarrow> 'c emu68" where
  "line7_r4 E mode reg9 reg0 s =
    inl_illegal68 E s"

definition line7_r5 :: "'c env68 \<Rightarrow> nat \<Rightarrow> nat \<Rightarrow> nat \<Rightarrow> 'c emu68 \<Rightarrow> 'c emu68" where
  "line7_r5 E mode reg9 reg0 s =
    inl_illegal68 E s"

definition line7_r6 :: "'c env68 \<Rightarrow> nat \<Rightarrow> nat \<Rightarrow> nat \<Rightarrow> 'c emu68 \<Rightarrow> 'c emu68" where
  "line7_r6 E mode reg9 reg0 s =
    inl_illegal68 E s"

definition line7_r7 :: "'c env68 \<Rightarrow> nat \<Rightarrow> nat \<Rightarrow> nat \<Rightarrow> 'c emu68 \<Rightarrow> 'c emu68" where
  "line7_r7 E mode reg9 reg0 s =
    inl_illegal68 E s"

section \<open>Frame\<close>

lemmas line_move_defs =
    line1_r0_def line1_r1_def line1_r2_def line1_r3_def
    line1_r4_def line1_r5_def line1_r6_def line1_r7_def
    line2_r0_def line2_r1_def line2_r2_def line2_r3_def
    line2_r4_def line2_r5_def line2_r6_def line2_r7_def
    line3_r0_def line3_r1_def line3_r2_def line3_r3_def
    line3_r4_def line3_r5_def line3_r6_def line3_r7_def
    line7_r0_def line7_r1_def line7_r2_def line7_r3_def
    line7_r4_def line7_r5_def line7_r6_def line7_r7_def

lemma moveq_frame [frame_intros]: "frame68 I s t \<Longrightarrow> frame68 I s (op_moveq a r t)"
  by (auto simp: op_moveq_def intro!: frame_intros)

context env_frame
begin

lemma line_move_frame [frame_intros]:
  "frame68 I s t \<Longrightarrow> frame68 I s (line1_r0 E mode r9 r0 t)"
  "frame68 I s t \<Longrightarrow> frame68 I s (line1_r1 E mode r9 r0 t)"
  "frame68 I s t \<Longrightarrow> frame68 I s (line1_r2 E mode r9 r0 t)"
  "frame68 I s t \<Longrightarrow> frame68 I s (line1_r3 E mode r9 r0 t)"
  "frame68 I s t \<Longrightarrow> frame68 I s (line1_r4 E mode r9 r0 t)"
  "frame68 I s t \<Longrightarrow> frame68 I s (line1_r5 E mode r9 r0 t)"
  "frame68 I s t \<Longrightarrow> frame68 I s (line1_r6 E mode r9 r0 t)"
  "frame68 I s t \<Longrightarrow> frame68 I s (line1_r7 E mode r9 r0 t)"
  "frame68 I s t \<Longrightarrow> frame68 I s (line2_r0 E mode r9 r0 t)"
  "frame68 I s t \<Longrightarrow> frame68 I s (line2_r1 E mode r9 r0 t)"
  "frame68 I s t \<Longrightarrow> frame68 I s (line2_r2 E mode r9 r0 t)"
  "frame68 I s t \<Longrightarrow> frame68 I s (line2_r3 E mode r9 r0 t)"
  "frame68 I s t \<Longrightarrow> frame68 I s (line2_r4 E mode r9 r0 t)"
  "frame68 I s t \<Longrightarrow> frame68 I s (line2_r5 E mode r9 r0 t)"
  "frame68 I s t \<Longrightarrow> frame68 I s (line2_r6 E mode r9 r0 t)"
  "frame68 I s t \<Longrightarrow> frame68 I s (line2_r7 E mode r9 r0 t)"
  "frame68 I s t \<Longrightarrow> frame68 I s (line3_r0 E mode r9 r0 t)"
  "frame68 I s t \<Longrightarrow> frame68 I s (line3_r1 E mode r9 r0 t)"
  "frame68 I s t \<Longrightarrow> frame68 I s (line3_r2 E mode r9 r0 t)"
  "frame68 I s t \<Longrightarrow> frame68 I s (line3_r3 E mode r9 r0 t)"
  "frame68 I s t \<Longrightarrow> frame68 I s (line3_r4 E mode r9 r0 t)"
  "frame68 I s t \<Longrightarrow> frame68 I s (line3_r5 E mode r9 r0 t)"
  "frame68 I s t \<Longrightarrow> frame68 I s (line3_r6 E mode r9 r0 t)"
  "frame68 I s t \<Longrightarrow> frame68 I s (line3_r7 E mode r9 r0 t)"
  "frame68 I s t \<Longrightarrow> frame68 I s (line7_r0 E mode r9 r0 t)"
  "frame68 I s t \<Longrightarrow> frame68 I s (line7_r1 E mode r9 r0 t)"
  "frame68 I s t \<Longrightarrow> frame68 I s (line7_r2 E mode r9 r0 t)"
  "frame68 I s t \<Longrightarrow> frame68 I s (line7_r3 E mode r9 r0 t)"
  "frame68 I s t \<Longrightarrow> frame68 I s (line7_r4 E mode r9 r0 t)"
  "frame68 I s t \<Longrightarrow> frame68 I s (line7_r5 E mode r9 r0 t)"
  "frame68 I s t \<Longrightarrow> frame68 I s (line7_r6 E mode r9 r0 t)"
  "frame68 I s t \<Longrightarrow> frame68 I s (line7_r7 E mode r9 r0 t)"
  by (auto simp: line_move_defs Let_def split_def intro!: frame_intros)

end

end
