(* ===== verification/LineImm68.thy ===== *)
theory LineImm68
  imports Ops68
begin

text \<open>
  Line 0 of \<open>emu68/lines\<close>: the immediate operations (\<open>ORI\<close>, \<open>ANDI\<close>, \<open>SUBI\<close>, \<open>ADDI\<close>, \<open>EORI\<close>,
  \<open>CMPI\<close>, also to \<open>CCR\<close> and \<open>SR\<close>), the bit operations with an immediate or register bit number,
  and \<open>MOVEP\<close>.
\<close>

section \<open>Immediate operations\<close>

text \<open>The rows of the table \<open>line0_imm\<close> by \<open>reg9\<close>; the others are all \<open>l0_ill\<close>.\<close>

definition l0_alu :: "nat \<Rightarrow> alu68 option" where
  "l0_alu reg9 =
    (if reg9 = 0 then Some ALU_ORR else if reg9 = 1 then Some ALU_AND
     else if reg9 = 2 then Some ALU_SUB else if reg9 = 3 then Some ALU_ADD
     else if reg9 = 5 then Some ALU_EOR else if reg9 = 6 then Some ALU_CMP else None)"

text \<open>\<open>l0_ORRb0\<close> .. \<open>l0_CMPl0\<close>: to a data register.\<close>

definition l0_imm0 :: "'c env68 \<Rightarrow> alu68 \<Rightarrow> size68 \<Rightarrow> nat \<Rightarrow> 'c emu68 \<Rightarrow> 'c emu68" where
  "l0_imm0 E f sz reg0 s =
    (let (x, s) = op_imm E sz s
     in op_dn f sz x reg0 s)"

text \<open>The modes 2 to 6: to memory, one definition per mode as in the source.\<close>

definition l0_imm2 :: "'c env68 \<Rightarrow> alu68 \<Rightarrow> size68 \<Rightarrow> nat \<Rightarrow> 'c emu68 \<Rightarrow> 'c emu68" where
  "l0_imm2 E f sz reg0 s =
    (let (x, s) = op_imm E sz s
     in op_mem E f sz x 2 reg0 s)"

definition l0_imm3 :: "'c env68 \<Rightarrow> alu68 \<Rightarrow> size68 \<Rightarrow> nat \<Rightarrow> 'c emu68 \<Rightarrow> 'c emu68" where
  "l0_imm3 E f sz reg0 s =
    (let (x, s) = op_imm E sz s
     in op_mem E f sz x 3 reg0 s)"

definition l0_imm4 :: "'c env68 \<Rightarrow> alu68 \<Rightarrow> size68 \<Rightarrow> nat \<Rightarrow> 'c emu68 \<Rightarrow> 'c emu68" where
  "l0_imm4 E f sz reg0 s =
    (let (x, s) = op_imm E sz s
     in op_mem E f sz x 4 reg0 s)"

definition l0_imm5 :: "'c env68 \<Rightarrow> alu68 \<Rightarrow> size68 \<Rightarrow> nat \<Rightarrow> 'c emu68 \<Rightarrow> 'c emu68" where
  "l0_imm5 E f sz reg0 s =
    (let (x, s) = op_imm E sz s
     in op_mem E f sz x 5 reg0 s)"

definition l0_imm6 :: "'c env68 \<Rightarrow> alu68 \<Rightarrow> size68 \<Rightarrow> nat \<Rightarrow> 'c emu68 \<Rightarrow> 'c emu68" where
  "l0_imm6 E f sz reg0 s =
    (let (x, s) = op_imm E sz s
     in op_mem E f sz x 6 reg0 s)"

text \<open>Mode 7: \<open>ORI\<close>, \<open>ANDI\<close>, \<open>EORI\<close> to \<open>CCR\<close> (byte) and \<open>SR\<close> (word) when \<open>reg0\<close> is 4.\<close>

definition l0_imm7 :: "'c env68 \<Rightarrow> alu68 \<Rightarrow> size68 \<Rightarrow> nat \<Rightarrow> 'c emu68 \<Rightarrow> 'c emu68" where
  "l0_imm7 E f sz reg0 s =
    (if reg0 = 4 \<and> sz \<noteq> SzL \<and> f = ALU_ORR then
       let (a, s) = mem68_nextw E s;
           a = (if sz = SzB then a AND 255 else a)
       in set_sr (lo32 (sx (sr s) OR a)) s
     else if reg0 = 4 \<and> sz \<noteq> SzL \<and> f = ALU_AND then
       let (a, s) = mem68_nextw E s;
           a = (if sz = SzB then a OR 0xFF00 else a)
       in set_sr (lo32 (sx (sr s) AND a)) s
     else if reg0 = 4 \<and> sz \<noteq> SzL \<and> f = ALU_EOR then
       let (a, s) = mem68_nextw E s;
           a = (if sz = SzB then a AND 255 else a)
       in set_sr (lo32 (sx (sr s) XOR a)) s
     else
       let (x, s) = op_imm E sz s
       in op_mem E f sz x 7 reg0 s)"

text \<open>The table: size by rows of eight, the fourth row and mode 1 illegal.\<close>

definition line0_imm :: "'c env68 \<Rightarrow> nat \<Rightarrow> nat \<Rightarrow> nat \<Rightarrow> 'c emu68 \<Rightarrow> 'c emu68" where
  "line0_imm E reg9 idx reg0 s =
    (let mode = idx mod 8;
         sz = (if idx div 8 = 0 then SzB else if idx div 8 = 1 then SzW else SzL)
     in case l0_alu reg9 of
          None \<Rightarrow> inl_illegal68 E s
        | Some f \<Rightarrow>
            if idx div 8 = 3 \<or> mode = 1 then inl_illegal68 E s
            else if mode = 0 then l0_imm0 E f sz reg0 s
            else if mode = 2 then l0_imm2 E f sz reg0 s
            else if mode = 3 then l0_imm3 E f sz reg0 s
            else if mode = 4 then l0_imm4 E f sz reg0 s
            else if mode = 5 then l0_imm5 E f sz reg0 s
            else if mode = 6 then l0_imm6 E f sz reg0 s
            else l0_imm7 E f sz reg0 s)"

section \<open>Bit operations with an immediate bit number\<close>

definition l0_bit_imm :: "'c env68 \<Rightarrow> bitop68 \<Rightarrow> nat \<Rightarrow> nat \<Rightarrow> 'c emu68 \<Rightarrow> 'c emu68" where
  "l0_bit_imm E f mode reg0 s =
    (if mode = 1 then inl_illegal68 E s
     else
       let (b, s) = mem68_nextw E s;
           bit = lo32 b
       in if mode = 0 then bit_reg E f bit reg0 s
          else bit_mem E f (\<lambda>_. bit) mode reg0 s)"

definition line0_r0 :: "'c env68 \<Rightarrow> nat \<Rightarrow> nat \<Rightarrow> nat \<Rightarrow> 'c emu68 \<Rightarrow> 'c emu68" where
  "line0_r0 E mode reg9 reg0 s =
    (if reg9 = 4 then l0_bit_imm E BTST mode reg0 s
     else line0_imm E reg9 (0 + mode) reg0 s)"

definition line0_r1 :: "'c env68 \<Rightarrow> nat \<Rightarrow> nat \<Rightarrow> nat \<Rightarrow> 'c emu68 \<Rightarrow> 'c emu68" where
  "line0_r1 E mode reg9 reg0 s =
    (if reg9 = 4 then l0_bit_imm E BCHG mode reg0 s
     else line0_imm E reg9 (8 + mode) reg0 s)"

definition line0_r2 :: "'c env68 \<Rightarrow> nat \<Rightarrow> nat \<Rightarrow> nat \<Rightarrow> 'c emu68 \<Rightarrow> 'c emu68" where
  "line0_r2 E mode reg9 reg0 s =
    (if reg9 = 4 then l0_bit_imm E BCLR mode reg0 s
     else line0_imm E reg9 (16 + mode) reg0 s)"

definition line0_r3 :: "'c env68 \<Rightarrow> nat \<Rightarrow> nat \<Rightarrow> nat \<Rightarrow> 'c emu68 \<Rightarrow> 'c emu68" where
  "line0_r3 E mode reg9 reg0 s =
    (if reg9 = 4 then l0_bit_imm E BSET mode reg0 s
     else line0_imm E reg9 (24 + mode) reg0 s)"

section \<open>Bit operations with a register bit number, \<open>MOVEP\<close>\<close>

definition movep_w_load :: "'c env68 \<Rightarrow> nat \<Rightarrow> nat \<Rightarrow> 'c emu68 \<Rightarrow> 'c emu68" where
  "movep_w_load E reg9 reg0 s =
    (let l = sx (areg s reg0);
         (w, s) = mem68_nextw E s;
         l = l + w;
         (b, s) = read68 E SzB (l + 0) s;
         a = push_bit 8 b;
         (b, s) = read68 E SzB (l + 2) s;
         a = a + b;
         s = set_dreg reg9 (lo32 (sx (dreg s reg9 AND NOT 0xFFFF) + a)) s
     in inl_addcycle68 E 8 s)"

definition movep_l_load :: "'c env68 \<Rightarrow> nat \<Rightarrow> nat \<Rightarrow> 'c emu68 \<Rightarrow> 'c emu68" where
  "movep_l_load E reg9 reg0 s =
    (let l = sx (areg s reg0);
         (w, s) = mem68_nextw E s;
         l = l + w;
         (b, s) = read68 E SzB (l + 0) s;
         a = push_bit 24 b;
         (b, s) = read68 E SzB (l + 2) s;
         a = a + push_bit 16 b;
         (b, s) = read68 E SzB (l + 4) s;
         a = a + push_bit 8 b;
         (b, s) = read68 E SzB (l + 6) s;
         a = a + b;
         s = set_dreg reg9 (lo32 a) s
     in inl_addcycle68 E 16 s)"

definition movep_w_store :: "'c env68 \<Rightarrow> nat \<Rightarrow> nat \<Rightarrow> 'c emu68 \<Rightarrow> 'c emu68" where
  "movep_w_store E reg9 reg0 s =
    (let l = sx (areg s reg0);
         (w, s) = mem68_nextw E s;
         l = l + w;
         a = sx (dreg s reg9);
         s = write68 E SzB (l + 0) (drop_bit 8 a) s;
         s = write68 E SzB (l + 2) (drop_bit 0 a) s
     in inl_addcycle68 E 8 s)"

definition movep_l_store :: "'c env68 \<Rightarrow> nat \<Rightarrow> nat \<Rightarrow> 'c emu68 \<Rightarrow> 'c emu68" where
  "movep_l_store E reg9 reg0 s =
    (let l = sx (areg s reg0);
         (w, s) = mem68_nextw E s;
         l = l + w;
         a = sx (dreg s reg9);
         s = write68 E SzB (l + 0) (drop_bit 24 a) s;
         s = write68 E SzB (l + 2) (drop_bit 16 a) s;
         s = write68 E SzB (l + 4) (drop_bit 8 a) s;
         s = write68 E SzB (l + 6) (drop_bit 0 a) s
     in inl_addcycle68 E 16 s)"

definition line0_r4 :: "'c env68 \<Rightarrow> nat \<Rightarrow> nat \<Rightarrow> nat \<Rightarrow> 'c emu68 \<Rightarrow> 'c emu68" where
  "line0_r4 E mode reg9 reg0 s =
    (if mode = 0 then bit_reg E BTST (dreg s reg9) reg0 s
     else if mode = 1 then movep_w_load E reg9 reg0 s
     else bit_mem E BTST (\<lambda>s. dreg s reg9) mode reg0 s)"

definition line0_r5 :: "'c env68 \<Rightarrow> nat \<Rightarrow> nat \<Rightarrow> nat \<Rightarrow> 'c emu68 \<Rightarrow> 'c emu68" where
  "line0_r5 E mode reg9 reg0 s =
    (if mode = 0 then bit_reg E BCHG (dreg s reg9) reg0 s
     else if mode = 1 then movep_l_load E reg9 reg0 s
     else bit_mem E BCHG (\<lambda>s. dreg s reg9) mode reg0 s)"

definition line0_r6 :: "'c env68 \<Rightarrow> nat \<Rightarrow> nat \<Rightarrow> nat \<Rightarrow> 'c emu68 \<Rightarrow> 'c emu68" where
  "line0_r6 E mode reg9 reg0 s =
    (if mode = 0 then bit_reg E BCLR (dreg s reg9) reg0 s
     else if mode = 1 then movep_w_store E reg9 reg0 s
     else bit_mem E BCLR (\<lambda>s. dreg s reg9) mode reg0 s)"

definition line0_r7 :: "'c env68 \<Rightarrow> nat \<Rightarrow> nat \<Rightarrow> nat \<Rightarrow> 'c emu68 \<Rightarrow> 'c emu68" where
  "line0_r7 E mode reg9 reg0 s =
    (if mode = 0 then bit_reg E BSET (dreg s reg9) reg0 s
     else if mode = 1 then movep_l_store E reg9 reg0 s
     else bit_mem E BSET (\<lambda>s. dreg s reg9) mode reg0 s)"

section \<open>Frame\<close>

lemmas line0_defs =
    line0_r0_def line0_r1_def line0_r2_def line0_r3_def
    line0_r4_def line0_r5_def line0_r6_def line0_r7_def

context env_frame
begin

lemma l0_imm_frame [frame_intros]:
  "frame68 I s t \<Longrightarrow> frame68 I s (l0_imm0 E f sz r0 t)"
  "frame68 I s t \<Longrightarrow> frame68 I s (l0_imm2 E f sz r0 t)"
  "frame68 I s t \<Longrightarrow> frame68 I s (l0_imm3 E f sz r0 t)"
  "frame68 I s t \<Longrightarrow> frame68 I s (l0_imm4 E f sz r0 t)"
  "frame68 I s t \<Longrightarrow> frame68 I s (l0_imm5 E f sz r0 t)"
  "frame68 I s t \<Longrightarrow> frame68 I s (l0_imm6 E f sz r0 t)"
  "frame68 I s t \<Longrightarrow> frame68 I s (l0_imm7 E f sz r0 t)"
  by  (auto simp: l0_imm0_def l0_imm2_def l0_imm3_def l0_imm4_def l0_imm5_def l0_imm6_def l0_imm7_def Let_def split_def intro!: frame_intros)

lemma line0_imm_frame [frame_intros]: "frame68 I s t \<Longrightarrow> frame68 I s (line0_imm E r9 i r0 t)"
  by (auto simp: line0_imm_def Let_def split: option.split intro!: frame_intros)

lemma movep_frame [frame_intros]:
  "frame68 I s t \<Longrightarrow> frame68 I s (movep_w_load E r9 r0 t)"
  "frame68 I s t \<Longrightarrow> frame68 I s (movep_l_load E r9 r0 t)"
  "frame68 I s t \<Longrightarrow> frame68 I s (movep_w_store E r9 r0 t)"
  "frame68 I s t \<Longrightarrow> frame68 I s (movep_l_store E r9 r0 t)"
  by (auto simp: movep_w_load_def movep_l_load_def movep_w_store_def movep_l_store_def Let_def split_def intro!: frame_intros)

lemma l0_bit_imm_frame [frame_intros]: "frame68 I s t \<Longrightarrow> frame68 I s (l0_bit_imm E f mode r0 t)"
  by (auto simp: l0_bit_imm_def Let_def split_def intro!: frame_intros)

lemma line0_frame [frame_intros]:
  "frame68 I s t \<Longrightarrow> frame68 I s (line0_r0 E mode r9 r0 t)"
  "frame68 I s t \<Longrightarrow> frame68 I s (line0_r1 E mode r9 r0 t)"
  "frame68 I s t \<Longrightarrow> frame68 I s (line0_r2 E mode r9 r0 t)"
  "frame68 I s t \<Longrightarrow> frame68 I s (line0_r3 E mode r9 r0 t)"
  "frame68 I s t \<Longrightarrow> frame68 I s (line0_r4 E mode r9 r0 t)"
  "frame68 I s t \<Longrightarrow> frame68 I s (line0_r5 E mode r9 r0 t)"
  "frame68 I s t \<Longrightarrow> frame68 I s (line0_r6 E mode r9 r0 t)"
  "frame68 I s t \<Longrightarrow> frame68 I s (line0_r7 E mode r9 r0 t)"
  by (auto simp: line0_defs Let_def split_def intro!: frame_intros)

end

end
