(* ===== verification/LineQuick68.thy ===== *)
theory LineQuick68
  imports Ops68
begin

text \<open>
  Lines 5 (\<open>ADDQ\<close>, \<open>SUBQ\<close>, \<open>Scc\<close>, \<open>DBcc\<close>) and 6 (\<open>Bcc\<close>, \<open>BRA\<close>, \<open>BSR\<close>) of \<open>emu68/lines\<close>,
  one definition per group of eight functions.
\<close>

section \<open>Line 5\<close>

definition op_quick :: "'c env68 \<Rightarrow> alu68 \<Rightarrow> size68 \<Rightarrow> nat \<Rightarrow> nat \<Rightarrow> nat \<Rightarrow> 'c emu68 \<Rightarrow> 'c emu68" where
  "op_quick E f sz mode reg9 reg0 s =
    (let x = norm68 sz (quick68 reg9)
     in if mode = 0 then op_dn f sz x reg0 s else op_mem E f sz x mode reg0 s)"

text \<open>The quick operand of the address register forms.\<close>

definition quick_a :: "size68 \<Rightarrow> nat \<Rightarrow> int68" where
  "quick_a sz reg9 =
    (if sz = SzW then signed_drop_bit 16 (norm68 SzW (quick68 reg9)) else norm68 SzL (quick68 reg9))"

text \<open>\<open>Scc\<close> and \<open>DBcc\<close> with condition \<open>2 * reg9 + odd\<close>.\<close>

definition op_scc :: "'c env68 \<Rightarrow> nat \<Rightarrow> nat \<Rightarrow> nat \<Rightarrow> 'c emu68 \<Rightarrow> 'c emu68" where
  "op_scc E cc mode reg0 s =
    (if mode = 1 then dbcc68 E cc reg0 s
     else
       let r = scc68 cc s
       in if mode = 0 then set_dreg reg0 ((dreg s reg0 AND 0xFFFFFF00) + r) s
          else write_EA E SzB mode reg0 (sx r) s)"

definition line5_r0 :: "'c env68 \<Rightarrow> nat \<Rightarrow> nat \<Rightarrow> nat \<Rightarrow> 'c emu68 \<Rightarrow> 'c emu68" where
  "line5_r0 E mode reg9 reg0 s =
    (if mode = 1 then inl_illegal68 E s
     else op_quick E ALU_ADD SzB mode reg9 reg0 s)"

definition line5_r1 :: "'c env68 \<Rightarrow> nat \<Rightarrow> nat \<Rightarrow> nat \<Rightarrow> 'c emu68 \<Rightarrow> 'c emu68" where
  "line5_r1 E mode reg9 reg0 s =
    (if mode = 1 then op_adda (quick_a SzW reg9) reg0 s
     else op_quick E ALU_ADD SzW mode reg9 reg0 s)"

definition line5_r2 :: "'c env68 \<Rightarrow> nat \<Rightarrow> nat \<Rightarrow> nat \<Rightarrow> 'c emu68 \<Rightarrow> 'c emu68" where
  "line5_r2 E mode reg9 reg0 s =
    (if mode = 1 then op_adda (quick_a SzL reg9) reg0 s
     else op_quick E ALU_ADD SzL mode reg9 reg0 s)"

definition line5_r3 :: "'c env68 \<Rightarrow> nat \<Rightarrow> nat \<Rightarrow> nat \<Rightarrow> 'c emu68 \<Rightarrow> 'c emu68" where
  "line5_r3 E mode reg9 reg0 s =
    op_scc E (2 * reg9 + 0) mode reg0 s"

definition line5_r4 :: "'c env68 \<Rightarrow> nat \<Rightarrow> nat \<Rightarrow> nat \<Rightarrow> 'c emu68 \<Rightarrow> 'c emu68" where
  "line5_r4 E mode reg9 reg0 s =
    (if mode = 1 then inl_illegal68 E s
     else op_quick E ALU_SUB SzB mode reg9 reg0 s)"

definition line5_r5 :: "'c env68 \<Rightarrow> nat \<Rightarrow> nat \<Rightarrow> nat \<Rightarrow> 'c emu68 \<Rightarrow> 'c emu68" where
  "line5_r5 E mode reg9 reg0 s =
    (if mode = 1 then op_suba (quick_a SzW reg9) reg0 s
     else op_quick E ALU_SUB SzW mode reg9 reg0 s)"

definition line5_r6 :: "'c env68 \<Rightarrow> nat \<Rightarrow> nat \<Rightarrow> nat \<Rightarrow> 'c emu68 \<Rightarrow> 'c emu68" where
  "line5_r6 E mode reg9 reg0 s =
    (if mode = 1 then op_suba (quick_a SzL reg9) reg0 s
     else op_quick E ALU_SUB SzL mode reg9 reg0 s)"

definition line5_r7 :: "'c env68 \<Rightarrow> nat \<Rightarrow> nat \<Rightarrow> nat \<Rightarrow> 'c emu68 \<Rightarrow> 'c emu68" where
  "line5_r7 E mode reg9 reg0 s =
    op_scc E (2 * reg9 + 1) mode reg0 s"

section \<open>Line 6\<close>

text \<open>
  The displacement is \<open>reg0\<close> plus a constant of the function; in the first function of a
  condition a zero \<open>reg0\<close> means a word displacement follows.
\<close>

definition op_bcc :: "'c env68 \<Rightarrow> nat \<Rightarrow> int68 \<Rightarrow> nat \<Rightarrow> 'c emu68 \<Rightarrow> 'c emu68" where
  "op_bcc E cc off reg0 s =
    (let p = sx (pc s);
         p = p + (of_nat reg0 + off)
     in bcc68 E cc p s)"

definition op_bcc_w :: "'c env68 \<Rightarrow> nat \<Rightarrow> nat \<Rightarrow> 'c emu68 \<Rightarrow> 'c emu68" where
  "op_bcc_w E cc reg0 s =
    (let p = sx (pc s)
     in if reg0 = 0 then
          let (w, s) = mem68_nextw E s
          in bcc68 E cc (p + w) s
        else bcc68 E cc (p + of_nat reg0) s)"

definition line6_r0 :: "'c env68 \<Rightarrow> nat \<Rightarrow> nat \<Rightarrow> nat \<Rightarrow> 'c emu68 \<Rightarrow> 'c emu68" where
  "line6_r0 E mode reg9 reg0 s =
    (if mode = 0 then op_bcc_w E (2 * reg9) reg0 s
     else op_bcc E (2 * reg9) (of_nat (8 * mode)) reg0 s)"

definition line6_r1 :: "'c env68 \<Rightarrow> nat \<Rightarrow> nat \<Rightarrow> nat \<Rightarrow> 'c emu68 \<Rightarrow> 'c emu68" where
  "line6_r1 E mode reg9 reg0 s =
    op_bcc E (2 * reg9) (of_nat (8 * mode) + 64) reg0 s"

definition line6_r2 :: "'c env68 \<Rightarrow> nat \<Rightarrow> nat \<Rightarrow> nat \<Rightarrow> 'c emu68 \<Rightarrow> 'c emu68" where
  "line6_r2 E mode reg9 reg0 s =
    op_bcc E (2 * reg9) (of_nat (8 * mode) - 128) reg0 s"

definition line6_r3 :: "'c env68 \<Rightarrow> nat \<Rightarrow> nat \<Rightarrow> nat \<Rightarrow> 'c emu68 \<Rightarrow> 'c emu68" where
  "line6_r3 E mode reg9 reg0 s =
    op_bcc E (2 * reg9) (of_nat (8 * mode) - 64) reg0 s"

definition line6_r4 :: "'c env68 \<Rightarrow> nat \<Rightarrow> nat \<Rightarrow> nat \<Rightarrow> 'c emu68 \<Rightarrow> 'c emu68" where
  "line6_r4 E mode reg9 reg0 s =
    (if mode = 0 then op_bcc_w E (2 * reg9 + 1) reg0 s
     else op_bcc E (2 * reg9 + 1) (of_nat (8 * mode)) reg0 s)"

definition line6_r5 :: "'c env68 \<Rightarrow> nat \<Rightarrow> nat \<Rightarrow> nat \<Rightarrow> 'c emu68 \<Rightarrow> 'c emu68" where
  "line6_r5 E mode reg9 reg0 s =
    op_bcc E (2 * reg9 + 1) (of_nat (8 * mode) + 64) reg0 s"

definition line6_r6 :: "'c env68 \<Rightarrow> nat \<Rightarrow> nat \<Rightarrow> nat \<Rightarrow> 'c emu68 \<Rightarrow> 'c emu68" where
  "line6_r6 E mode reg9 reg0 s =
    op_bcc E (2 * reg9 + 1) (of_nat (8 * mode) - 128) reg0 s"

definition line6_r7 :: "'c env68 \<Rightarrow> nat \<Rightarrow> nat \<Rightarrow> nat \<Rightarrow> 'c emu68 \<Rightarrow> 'c emu68" where
  "line6_r7 E mode reg9 reg0 s =
    op_bcc E (2 * reg9 + 1) (of_nat (8 * mode) - 64) reg0 s"

section \<open>Frame\<close>

lemmas line_quick_defs =
    line5_r0_def line5_r1_def line5_r2_def line5_r3_def
    line5_r4_def line5_r5_def line5_r6_def line5_r7_def
    line6_r0_def line6_r1_def line6_r2_def line6_r3_def
    line6_r4_def line6_r5_def line6_r6_def line6_r7_def

context env_frame
begin

lemma quick_frame [frame_intros]:
  "frame68 I s t \<Longrightarrow> frame68 I s (op_quick E f sz mode r9 r0 t)"
  "frame68 I s t \<Longrightarrow> frame68 I s (op_scc E cc mode r0 t)"
  "frame68 I s t \<Longrightarrow> frame68 I s (op_bcc E cc off r0 t)"
  "frame68 I s t \<Longrightarrow> frame68 I s (op_bcc_w E cc r0 t)"
  by (auto simp: op_quick_def op_scc_def op_bcc_def op_bcc_w_def Let_def split_def
      intro!: frame_intros)

lemma line_quick_frame [frame_intros]:
  "frame68 I s t \<Longrightarrow> frame68 I s (line5_r0 E mode r9 r0 t)"
  "frame68 I s t \<Longrightarrow> frame68 I s (line5_r1 E mode r9 r0 t)"
  "frame68 I s t \<Longrightarrow> frame68 I s (line5_r2 E mode r9 r0 t)"
  "frame68 I s t \<Longrightarrow> frame68 I s (line5_r3 E mode r9 r0 t)"
  "frame68 I s t \<Longrightarrow> frame68 I s (line5_r4 E mode r9 r0 t)"
  "frame68 I s t \<Longrightarrow> frame68 I s (line5_r5 E mode r9 r0 t)"
  "frame68 I s t \<Longrightarrow> frame68 I s (line5_r6 E mode r9 r0 t)"
  "frame68 I s t \<Longrightarrow> frame68 I s (line5_r7 E mode r9 r0 t)"
  "frame68 I s t \<Longrightarrow> frame68 I s (line6_r0 E mode r9 r0 t)"
  "frame68 I s t \<Longrightarrow> frame68 I s (line6_r1 E mode r9 r0 t)"
  "frame68 I s t \<Longrightarrow> frame68 I s (line6_r2 E mode r9 r0 t)"
  "frame68 I s t \<Longrightarrow> frame68 I s (line6_r3 E mode r9 r0 t)"
  "frame68 I s t \<Longrightarrow> frame68 I s (line6_r4 E mode r9 r0 t)"
  "frame68 I s t \<Longrightarrow> frame68 I s (line6_r5 E mode r9 r0 t)"
  "frame68 I s t \<Longrightarrow> frame68 I s (line6_r6 E mode r9 r0 t)"
  "frame68 I s t \<Longrightarrow> frame68 I s (line6_r7 E mode r9 r0 t)"
  by (auto simp: line_quick_defs Let_def split_def intro!: frame_intros)

end

end
