(* ===== verification/LineShift68.thy ===== *)
theory LineShift68
  imports Ops68
begin

text \<open>
  Line E of \<open>emu68/lines\<close>: shifts and rotations of a data register by an immediate count or
  by a register, and of a word in memory by one; and lines A and F, which are exceptions.
\<close>

datatype shiftop68 = ASR68 | LSR68 | ROXR68 | ROR68 | ASL68 | LSL68 | ROXL68 | ROL68

fun shift_op68 :: "'c env68 \<Rightarrow> shiftop68 \<Rightarrow> int68 \<Rightarrow> s32 \<Rightarrow> nat \<Rightarrow> 'c emu68 \<Rightarrow> int68 \<times> 'c emu68" where
  "shift_op68 E ASR68 d n l s = inl_asr68 E d n l s"
| "shift_op68 E LSR68 d n l s = inl_lsr68 E d n l s"
| "shift_op68 E ROXR68 d n l s = inl_roxr68 E d n l s"
| "shift_op68 E ROR68 d n l s = inl_ror68 E d n l s"
| "shift_op68 E ASL68 d n l s = inl_asl68 E d n l s"
| "shift_op68 E LSL68 d n l s = inl_lsl68 E d n l s"
| "shift_op68 E ROXL68 d n l s = inl_roxl68 E d n l s"
| "shift_op68 E ROL68 d n l s = inl_rol68 E d n l s"

text \<open>The tables by two opcode bits: the order of the functions in a row, and
  \<open>lslmemR_fc\<close>, \<open>lslmemL_fc\<close>.\<close>

definition shift_right_op :: "nat \<Rightarrow> shiftop68" where
  "shift_right_op n = (if n = 0 then ASR68 else if n = 1 then LSR68 else if n = 2 then ROXR68 else ROR68)"

definition shift_left_op :: "nat \<Rightarrow> shiftop68" where
  "shift_left_op n = (if n = 0 then ASL68 else if n = 1 then LSL68 else if n = 2 then ROXL68 else ROL68)"

text \<open>\<open>8-1\<close>, \<open>16-1\<close>, \<open>32-1\<close>.\<close>

fun shift_l :: "size68 \<Rightarrow> nat" where
  "shift_l SzB = 8 - 1"
| "shift_l SzW = 16 - 1"
| "shift_l SzL = 32 - 1"

text \<open>A data register: modes 0 to 3 count by the quick operand, 4 to 7 by a register.\<close>

definition op_shift_dn :: "'c env68 \<Rightarrow> (nat \<Rightarrow> shiftop68) \<Rightarrow> size68 \<Rightarrow> nat \<Rightarrow> nat \<Rightarrow> nat \<Rightarrow> 'c emu68 \<Rightarrow> 'c emu68" where
  "op_shift_dn E tab sz mode reg9 reg0 s =
    (let d = (if mode < 4 then lo32 (quick68 reg9) else dreg s reg9);
         a = norm68 sz (sx (dreg s reg0));
         (a, s) = shift_op68 E (tab (mode mod 4)) a d (shift_l sz) s
     in put_dn sz reg0 a s)"

text \<open>\<open>ASR_mem\<close> and its kin: a word in memory, by one.\<close>

definition op_shift_mem :: "'c env68 \<Rightarrow> shiftop68 \<Rightarrow> nat \<Rightarrow> nat \<Rightarrow> 'c emu68 \<Rightarrow> 'c emu68" where
  "op_shift_mem E f reg0 mode s =
    (let (l, s) = get_ea68 E SzW mode reg0 s;
         (a, s) = read68 E SzW l s;
         (a, s) = shift_op68 E f (norm68 SzW a) 1 (shift_l SzW) s
     in write68 E SzW l (signed_drop_bit 48 a) s)"

definition lineE_r0 :: "'c env68 \<Rightarrow> nat \<Rightarrow> nat \<Rightarrow> nat \<Rightarrow> 'c emu68 \<Rightarrow> 'c emu68" where
  "lineE_r0 E mode reg9 reg0 s =
    op_shift_dn E shift_right_op SzB mode reg9 reg0 s"

definition lineE_r1 :: "'c env68 \<Rightarrow> nat \<Rightarrow> nat \<Rightarrow> nat \<Rightarrow> 'c emu68 \<Rightarrow> 'c emu68" where
  "lineE_r1 E mode reg9 reg0 s =
    op_shift_dn E shift_right_op SzW mode reg9 reg0 s"

definition lineE_r2 :: "'c env68 \<Rightarrow> nat \<Rightarrow> nat \<Rightarrow> nat \<Rightarrow> 'c emu68 \<Rightarrow> 'c emu68" where
  "lineE_r2 E mode reg9 reg0 s =
    op_shift_dn E shift_right_op SzL mode reg9 reg0 s"

definition lineE_r3 :: "'c env68 \<Rightarrow> nat \<Rightarrow> nat \<Rightarrow> nat \<Rightarrow> 'c emu68 \<Rightarrow> 'c emu68" where
  "lineE_r3 E mode reg9 reg0 s =
    op_shift_mem E (shift_right_op (reg9 mod 4)) reg0 mode s"

definition lineE_r4 :: "'c env68 \<Rightarrow> nat \<Rightarrow> nat \<Rightarrow> nat \<Rightarrow> 'c emu68 \<Rightarrow> 'c emu68" where
  "lineE_r4 E mode reg9 reg0 s =
    op_shift_dn E shift_left_op SzB mode reg9 reg0 s"

definition lineE_r5 :: "'c env68 \<Rightarrow> nat \<Rightarrow> nat \<Rightarrow> nat \<Rightarrow> 'c emu68 \<Rightarrow> 'c emu68" where
  "lineE_r5 E mode reg9 reg0 s =
    op_shift_dn E shift_left_op SzW mode reg9 reg0 s"

definition lineE_r6 :: "'c env68 \<Rightarrow> nat \<Rightarrow> nat \<Rightarrow> nat \<Rightarrow> 'c emu68 \<Rightarrow> 'c emu68" where
  "lineE_r6 E mode reg9 reg0 s =
    op_shift_dn E shift_left_op SzL mode reg9 reg0 s"

definition lineE_r7 :: "'c env68 \<Rightarrow> nat \<Rightarrow> nat \<Rightarrow> nat \<Rightarrow> 'c emu68 \<Rightarrow> 'c emu68" where
  "lineE_r7 E mode reg9 reg0 s =
    op_shift_mem E (shift_left_op (reg9 mod 4)) reg0 mode s"

text \<open>Lines A and F.\<close>

definition lineA00 :: "'c env68 \<Rightarrow> nat \<Rightarrow> nat \<Rightarrow> nat \<Rightarrow> 'c emu68 \<Rightarrow> 'c emu68" where
  "lineA00 E mode reg9 reg0 s = linea68 E s"

definition lineF00 :: "'c env68 \<Rightarrow> nat \<Rightarrow> nat \<Rightarrow> nat \<Rightarrow> 'c emu68 \<Rightarrow> 'c emu68" where
  "lineF00 E mode reg9 reg0 s = linef68 E s"

section \<open>Frame\<close>

lemmas line_shift_defs =
    lineE_r0_def lineE_r1_def lineE_r2_def lineE_r3_def
    lineE_r4_def lineE_r5_def lineE_r6_def lineE_r7_def
    lineA00_def lineF00_def

lemma shift_op_frame [frame_intros]:
  "frame68 I s t \<Longrightarrow> frame68 I s (snd (shift_op68 E f d n l t))"
  by (cases f) (auto intro!: frame_intros)

lemma shift_dn_frame [frame_intros]:
  "frame68 I s t \<Longrightarrow> frame68 I s (op_shift_dn E tab sz mode r9 r0 t)"
  by (auto simp: op_shift_dn_def Let_def split_def intro!: frame_intros)

context env_frame
begin

lemma shift_mem_frame [frame_intros]: "frame68 I s t \<Longrightarrow> frame68 I s (op_shift_mem E f r0 mode t)"
  by (auto simp: op_shift_mem_def Let_def split_def intro!: frame_intros)

lemma line_shift_frame [frame_intros]:
  "frame68 I s t \<Longrightarrow> frame68 I s (lineE_r0 E mode r9 r0 t)"
  "frame68 I s t \<Longrightarrow> frame68 I s (lineE_r1 E mode r9 r0 t)"
  "frame68 I s t \<Longrightarrow> frame68 I s (lineE_r2 E mode r9 r0 t)"
  "frame68 I s t \<Longrightarrow> frame68 I s (lineE_r3 E mode r9 r0 t)"
  "frame68 I s t \<Longrightarrow> frame68 I s (lineE_r4 E mode r9 r0 t)"
  "frame68 I s t \<Longrightarrow> frame68 I s (lineE_r5 E mode r9 r0 t)"
  "frame68 I s t \<Longrightarrow> frame68 I s (lineE_r6 E mode r9 r0 t)"
  "frame68 I s t \<Longrightarrow> frame68 I s (lineE_r7 E mode r9 r0 t)"
  "frame68 I s t \<Longrightarrow> frame68 I s (lineA00 E mode r9 r0 t)"
  "frame68 I s t \<Longrightarrow> frame68 I s (lineF00 E mode r9 r0 t)"
  by (auto simp: line_shift_defs Let_def split_def intro!: frame_intros)

end

end
