(* ===== verification/LineAlu68.thy ===== *)
theory LineAlu68
  imports Ops68
begin

text \<open>
  Lines 8 (\<open>OR\<close>, \<open>DIV\<close>, \<open>SBCD\<close>), 9 (\<open>SUB\<close>, \<open>SUBX\<close>), B (\<open>CMP\<close>, \<open>EOR\<close>, \<open>CMPM\<close>), C (\<open>AND\<close>, \<open>MUL\<close>,
  \<open>ABCD\<close>, \<open>EXG\<close>) and D (\<open>ADD\<close>, \<open>ADDX\<close>) of \<open>emu68/lines\<close>, one definition per group of eight
  functions.
\<close>

section \<open>Schemes of these lines\<close>

definition op_mul :: "'c env68 \<Rightarrow> bool \<Rightarrow> nat \<Rightarrow> nat \<Rightarrow> nat \<Rightarrow> 'c emu68 \<Rightarrow> 'c emu68" where
  "op_mul E sg mode reg9 reg0 s =
    (let (x, s) = op_src E SzW mode reg0 s;
         d = norm68 SzW (sx (dreg s reg9));
         (d, s) = (if sg then inl_muls68 x d s else inl_mulu68 x d s)
     in set_dreg reg9 (lo32 (drop_bit 32 d)) s)"

definition op_div :: "'c env68 \<Rightarrow> bool \<Rightarrow> nat \<Rightarrow> nat \<Rightarrow> nat \<Rightarrow> 'c emu68 \<Rightarrow> 'c emu68" where
  "op_div E sg mode reg9 reg0 s =
    (let (x, s) = op_src E SzW mode reg0 s;
         d = norm68 SzL (sx (dreg s reg9));
         (d, s) = (if sg then inl_divs68 E x d s else inl_divu68 E x d s)
     in set_dreg reg9 (lo32 (drop_bit 32 d)) s)"

text \<open>\<open>ABCD\<close> and \<open>SBCD\<close> between data registers and between predecremented bytes; the operands
  are passed source first.\<close>

definition op_bcd :: "bool \<Rightarrow> s32 \<Rightarrow> s32 \<Rightarrow> 'c emu68 \<Rightarrow> s32 \<times> 'c emu68" where
  "op_bcd sub a b s = (if sub then inl_sbcd68 a b s else inl_abcd68 a b s)"

definition op_bcd_dn :: "bool \<Rightarrow> nat \<Rightarrow> nat \<Rightarrow> 'c emu68 \<Rightarrow> 'c emu68" where
  "op_bcd_dn sub reg9 reg0 s =
    (let x = ucast (ucast (dreg s reg0) :: u8);
         d = ucast (ucast (dreg s reg9) :: u8);
         (d, s) = op_bcd sub x d s
     in set_dreg reg9 ((dreg s reg9 AND 0xFFFFFF00) OR d) s)"

definition op_bcd_mem :: "'c env68 \<Rightarrow> bool \<Rightarrow> nat \<Rightarrow> nat \<Rightarrow> 'c emu68 \<Rightarrow> 'c emu68" where
  "op_bcd_mem E sub reg9 reg0 s =
    (let s = set_areg reg0 (areg s reg0 - 1) s;
         l0 = sx (areg s reg0);
         s = set_areg reg9 (areg s reg9 - 1) s;
         l9 = sx (areg s reg9);
         (x, s) = read68 E SzB l0 s;
         (d, s) = read68 E SzB l9 s;
         (d, s) = op_bcd sub (lo32 x) (lo32 d) s
     in write68 E SzB l9 (sx d) s)"

text \<open>\<open>CMPM (Ay)+,(Ax)+\<close>.\<close>

definition op_cmpm :: "'c env68 \<Rightarrow> size68 \<Rightarrow> nat \<Rightarrow> nat \<Rightarrow> 'c emu68 \<Rightarrow> 'c emu68" where
  "op_cmpm E sz reg9 reg0 s =
    (let l = sx (areg s reg0);
         s = set_areg reg0 (areg s reg0 + of_nat (bytes68 sz)) s;
         (y0, s) = read68 E sz l s;
         l = sx (areg s reg9);
         s = set_areg reg9 (areg s reg9 + of_nat (bytes68 sz)) s;
         (x9, s) = read68 E sz l s
     in inl_cmp68 (norm68 sz y0) (norm68 sz x9) s)"

section \<open>Line 8\<close>

definition line8_r0 :: "'c env68 \<Rightarrow> nat \<Rightarrow> nat \<Rightarrow> nat \<Rightarrow> 'c emu68 \<Rightarrow> 'c emu68" where
  "line8_r0 E mode reg9 reg0 s =
    (if mode = 1 then inl_illegal68 E s
     else op_ea_dn E ALU_ORR SzB mode reg9 reg0 s)"

definition line8_r1 :: "'c env68 \<Rightarrow> nat \<Rightarrow> nat \<Rightarrow> nat \<Rightarrow> 'c emu68 \<Rightarrow> 'c emu68" where
  "line8_r1 E mode reg9 reg0 s =
    (if mode = 1 then inl_illegal68 E s
     else op_ea_dn E ALU_ORR SzW mode reg9 reg0 s)"

definition line8_r2 :: "'c env68 \<Rightarrow> nat \<Rightarrow> nat \<Rightarrow> nat \<Rightarrow> 'c emu68 \<Rightarrow> 'c emu68" where
  "line8_r2 E mode reg9 reg0 s =
    (if mode = 1 then inl_illegal68 E s
     else op_ea_dn E ALU_ORR SzL mode reg9 reg0 s)"

definition line8_r3 :: "'c env68 \<Rightarrow> nat \<Rightarrow> nat \<Rightarrow> nat \<Rightarrow> 'c emu68 \<Rightarrow> 'c emu68" where
  "line8_r3 E mode reg9 reg0 s =
    (if mode = 1 then inl_illegal68 E s
     else op_div E False mode reg9 reg0 s)"

definition line8_r4 :: "'c env68 \<Rightarrow> nat \<Rightarrow> nat \<Rightarrow> nat \<Rightarrow> 'c emu68 \<Rightarrow> 'c emu68" where
  "line8_r4 E mode reg9 reg0 s =
    (if mode = 0 then op_bcd_dn True reg9 reg0 s
     else if mode = 1 then op_bcd_mem E True reg9 reg0 s
     else op_dn_ea E ALU_ORR SzB mode reg9 reg0 s)"

definition line8_r5 :: "'c env68 \<Rightarrow> nat \<Rightarrow> nat \<Rightarrow> nat \<Rightarrow> 'c emu68 \<Rightarrow> 'c emu68" where
  "line8_r5 E mode reg9 reg0 s =
    (if mode = 0 \<or> mode = 1 then inl_illegal68 E s
     else op_dn_ea E ALU_ORR SzW mode reg9 reg0 s)"

definition line8_r6 :: "'c env68 \<Rightarrow> nat \<Rightarrow> nat \<Rightarrow> nat \<Rightarrow> 'c emu68 \<Rightarrow> 'c emu68" where
  "line8_r6 E mode reg9 reg0 s =
    (if mode = 1 then inl_illegal68 E s
     else op_dn_ea E ALU_ORR SzL mode reg9 reg0 s)"

definition line8_r7 :: "'c env68 \<Rightarrow> nat \<Rightarrow> nat \<Rightarrow> nat \<Rightarrow> 'c emu68 \<Rightarrow> 'c emu68" where
  "line8_r7 E mode reg9 reg0 s =
    (if mode = 1 then inl_illegal68 E s
     else op_div E True mode reg9 reg0 s)"

section \<open>Line 9\<close>

definition line9_r0 :: "'c env68 \<Rightarrow> nat \<Rightarrow> nat \<Rightarrow> nat \<Rightarrow> 'c emu68 \<Rightarrow> 'c emu68" where
  "line9_r0 E mode reg9 reg0 s =
    op_ea_dn E ALU_SUB SzB mode reg9 reg0 s"

definition line9_r1 :: "'c env68 \<Rightarrow> nat \<Rightarrow> nat \<Rightarrow> nat \<Rightarrow> 'c emu68 \<Rightarrow> 'c emu68" where
  "line9_r1 E mode reg9 reg0 s =
    op_ea_dn E ALU_SUB SzW mode reg9 reg0 s"

definition line9_r2 :: "'c env68 \<Rightarrow> nat \<Rightarrow> nat \<Rightarrow> nat \<Rightarrow> 'c emu68 \<Rightarrow> 'c emu68" where
  "line9_r2 E mode reg9 reg0 s =
    op_ea_dn E ALU_SUB SzL mode reg9 reg0 s"

definition line9_r3 :: "'c env68 \<Rightarrow> nat \<Rightarrow> nat \<Rightarrow> nat \<Rightarrow> 'c emu68 \<Rightarrow> 'c emu68" where
  "line9_r3 E mode reg9 reg0 s =
    (let (x, s) = op_src_a E SzW mode reg0 s in op_suba x reg9 s)"

definition line9_r4 :: "'c env68 \<Rightarrow> nat \<Rightarrow> nat \<Rightarrow> nat \<Rightarrow> 'c emu68 \<Rightarrow> 'c emu68" where
  "line9_r4 E mode reg9 reg0 s =
    (if mode = 0 then opx_dn True SzB reg9 reg0 s
     else if mode = 1 then opx_mem E True SzB reg9 reg0 s
     else op_dn_ea E ALU_SUB SzB mode reg9 reg0 s)"

definition line9_r5 :: "'c env68 \<Rightarrow> nat \<Rightarrow> nat \<Rightarrow> nat \<Rightarrow> 'c emu68 \<Rightarrow> 'c emu68" where
  "line9_r5 E mode reg9 reg0 s =
    (if mode = 0 then opx_dn True SzW reg9 reg0 s
     else if mode = 1 then opx_mem E True SzW reg9 reg0 s
     else op_dn_ea E ALU_SUB SzW mode reg9 reg0 s)"

definition line9_r6 :: "'c env68 \<Rightarrow> nat \<Rightarrow> nat \<Rightarrow> nat \<Rightarrow> 'c emu68 \<Rightarrow> 'c emu68" where
  "line9_r6 E mode reg9 reg0 s =
    (if mode = 0 then opx_dn True SzL reg9 reg0 s
     else if mode = 1 then opx_mem E True SzL reg9 reg0 s
     else op_dn_ea E ALU_SUB SzL mode reg9 reg0 s)"

definition line9_r7 :: "'c env68 \<Rightarrow> nat \<Rightarrow> nat \<Rightarrow> nat \<Rightarrow> 'c emu68 \<Rightarrow> 'c emu68" where
  "line9_r7 E mode reg9 reg0 s =
    (let (x, s) = op_src_a E SzL mode reg0 s in op_suba x reg9 s)"

section \<open>Line B\<close>

definition lineB_r0 :: "'c env68 \<Rightarrow> nat \<Rightarrow> nat \<Rightarrow> nat \<Rightarrow> 'c emu68 \<Rightarrow> 'c emu68" where
  "lineB_r0 E mode reg9 reg0 s =
    op_ea_dn E ALU_CMP SzB mode reg9 reg0 s"

definition lineB_r1 :: "'c env68 \<Rightarrow> nat \<Rightarrow> nat \<Rightarrow> nat \<Rightarrow> 'c emu68 \<Rightarrow> 'c emu68" where
  "lineB_r1 E mode reg9 reg0 s =
    op_ea_dn E ALU_CMP SzW mode reg9 reg0 s"

definition lineB_r2 :: "'c env68 \<Rightarrow> nat \<Rightarrow> nat \<Rightarrow> nat \<Rightarrow> 'c emu68 \<Rightarrow> 'c emu68" where
  "lineB_r2 E mode reg9 reg0 s =
    op_ea_dn E ALU_CMP SzL mode reg9 reg0 s"

definition lineB_r3 :: "'c env68 \<Rightarrow> nat \<Rightarrow> nat \<Rightarrow> nat \<Rightarrow> 'c emu68 \<Rightarrow> 'c emu68" where
  "lineB_r3 E mode reg9 reg0 s =
    (let (x, s) = op_src_a E SzW mode reg0 s in op_cmpa x reg9 s)"

definition lineB_r4 :: "'c env68 \<Rightarrow> nat \<Rightarrow> nat \<Rightarrow> nat \<Rightarrow> 'c emu68 \<Rightarrow> 'c emu68" where
  "lineB_r4 E mode reg9 reg0 s =
    (if mode = 1 then op_cmpm E SzB reg9 reg0 s
     else op_dn_ea E ALU_EOR SzB mode reg9 reg0 s)"

definition lineB_r5 :: "'c env68 \<Rightarrow> nat \<Rightarrow> nat \<Rightarrow> nat \<Rightarrow> 'c emu68 \<Rightarrow> 'c emu68" where
  "lineB_r5 E mode reg9 reg0 s =
    (if mode = 1 then op_cmpm E SzW reg9 reg0 s
     else op_dn_ea E ALU_EOR SzW mode reg9 reg0 s)"

definition lineB_r6 :: "'c env68 \<Rightarrow> nat \<Rightarrow> nat \<Rightarrow> nat \<Rightarrow> 'c emu68 \<Rightarrow> 'c emu68" where
  "lineB_r6 E mode reg9 reg0 s =
    (if mode = 1 then op_cmpm E SzL reg9 reg0 s
     else op_dn_ea E ALU_EOR SzL mode reg9 reg0 s)"

definition lineB_r7 :: "'c env68 \<Rightarrow> nat \<Rightarrow> nat \<Rightarrow> nat \<Rightarrow> 'c emu68 \<Rightarrow> 'c emu68" where
  "lineB_r7 E mode reg9 reg0 s =
    (let (x, s) = op_src_a E SzL mode reg0 s in op_cmpa x reg9 s)"

section \<open>Line C\<close>

definition lineC_r0 :: "'c env68 \<Rightarrow> nat \<Rightarrow> nat \<Rightarrow> nat \<Rightarrow> 'c emu68 \<Rightarrow> 'c emu68" where
  "lineC_r0 E mode reg9 reg0 s =
    (if mode = 1 then inl_illegal68 E s
     else op_ea_dn E ALU_AND SzB mode reg9 reg0 s)"

definition lineC_r1 :: "'c env68 \<Rightarrow> nat \<Rightarrow> nat \<Rightarrow> nat \<Rightarrow> 'c emu68 \<Rightarrow> 'c emu68" where
  "lineC_r1 E mode reg9 reg0 s =
    (if mode = 1 then inl_illegal68 E s
     else op_ea_dn E ALU_AND SzW mode reg9 reg0 s)"

definition lineC_r2 :: "'c env68 \<Rightarrow> nat \<Rightarrow> nat \<Rightarrow> nat \<Rightarrow> 'c emu68 \<Rightarrow> 'c emu68" where
  "lineC_r2 E mode reg9 reg0 s =
    (if mode = 1 then inl_illegal68 E s
     else op_ea_dn E ALU_AND SzL mode reg9 reg0 s)"

definition lineC_r3 :: "'c env68 \<Rightarrow> nat \<Rightarrow> nat \<Rightarrow> nat \<Rightarrow> 'c emu68 \<Rightarrow> 'c emu68" where
  "lineC_r3 E mode reg9 reg0 s =
    (if mode = 1 then inl_illegal68 E s
     else op_mul E False mode reg9 reg0 s)"

definition lineC_r4 :: "'c env68 \<Rightarrow> nat \<Rightarrow> nat \<Rightarrow> nat \<Rightarrow> 'c emu68 \<Rightarrow> 'c emu68" where
  "lineC_r4 E mode reg9 reg0 s =
    (if mode = 0 then op_bcd_dn False reg9 reg0 s
     else if mode = 1 then op_bcd_mem E False reg9 reg0 s
     else op_dn_ea E ALU_AND SzB mode reg9 reg0 s)"

definition lineC_r5 :: "'c env68 \<Rightarrow> nat \<Rightarrow> nat \<Rightarrow> nat \<Rightarrow> 'c emu68 \<Rightarrow> 'c emu68" where
  "lineC_r5 E mode reg9 reg0 s =
    (if mode = 0 then inl_exg68 reg9 reg0 s
     else if mode = 1 then inl_exg68 (reg9 + 8) (reg0 + 8) s
     else op_dn_ea E ALU_AND SzW mode reg9 reg0 s)"

definition lineC_r6 :: "'c env68 \<Rightarrow> nat \<Rightarrow> nat \<Rightarrow> nat \<Rightarrow> 'c emu68 \<Rightarrow> 'c emu68" where
  "lineC_r6 E mode reg9 reg0 s =
    (if mode = 1 then inl_exg68 reg9 (reg0 + 8) s
     else op_dn_ea E ALU_AND SzL mode reg9 reg0 s)"

definition lineC_r7 :: "'c env68 \<Rightarrow> nat \<Rightarrow> nat \<Rightarrow> nat \<Rightarrow> 'c emu68 \<Rightarrow> 'c emu68" where
  "lineC_r7 E mode reg9 reg0 s =
    (if mode = 1 then inl_illegal68 E s
     else op_mul E True mode reg9 reg0 s)"

section \<open>Line D\<close>

definition lineD_r0 :: "'c env68 \<Rightarrow> nat \<Rightarrow> nat \<Rightarrow> nat \<Rightarrow> 'c emu68 \<Rightarrow> 'c emu68" where
  "lineD_r0 E mode reg9 reg0 s =
    op_ea_dn E ALU_ADD SzB mode reg9 reg0 s"

definition lineD_r1 :: "'c env68 \<Rightarrow> nat \<Rightarrow> nat \<Rightarrow> nat \<Rightarrow> 'c emu68 \<Rightarrow> 'c emu68" where
  "lineD_r1 E mode reg9 reg0 s =
    op_ea_dn E ALU_ADD SzW mode reg9 reg0 s"

definition lineD_r2 :: "'c env68 \<Rightarrow> nat \<Rightarrow> nat \<Rightarrow> nat \<Rightarrow> 'c emu68 \<Rightarrow> 'c emu68" where
  "lineD_r2 E mode reg9 reg0 s =
    op_ea_dn E ALU_ADD SzL mode reg9 reg0 s"

definition lineD_r3 :: "'c env68 \<Rightarrow> nat \<Rightarrow> nat \<Rightarrow> nat \<Rightarrow> 'c emu68 \<Rightarrow> 'c emu68" where
  "lineD_r3 E mode reg9 reg0 s =
    (let (x, s) = op_src_a E SzW mode reg0 s in op_adda x reg9 s)"

definition lineD_r4 :: "'c env68 \<Rightarrow> nat \<Rightarrow> nat \<Rightarrow> nat \<Rightarrow> 'c emu68 \<Rightarrow> 'c emu68" where
  "lineD_r4 E mode reg9 reg0 s =
    (if mode = 0 then opx_dn False SzB reg9 reg0 s
     else if mode = 1 then opx_mem E False SzB reg9 reg0 s
     else op_dn_ea E ALU_ADD SzB mode reg9 reg0 s)"

definition lineD_r5 :: "'c env68 \<Rightarrow> nat \<Rightarrow> nat \<Rightarrow> nat \<Rightarrow> 'c emu68 \<Rightarrow> 'c emu68" where
  "lineD_r5 E mode reg9 reg0 s =
    (if mode = 0 then opx_dn False SzW reg9 reg0 s
     else if mode = 1 then opx_mem E False SzW reg9 reg0 s
     else op_dn_ea E ALU_ADD SzW mode reg9 reg0 s)"

definition lineD_r6 :: "'c env68 \<Rightarrow> nat \<Rightarrow> nat \<Rightarrow> nat \<Rightarrow> 'c emu68 \<Rightarrow> 'c emu68" where
  "lineD_r6 E mode reg9 reg0 s =
    (if mode = 0 then opx_dn False SzL reg9 reg0 s
     else if mode = 1 then opx_mem E False SzL reg9 reg0 s
     else op_dn_ea E ALU_ADD SzL mode reg9 reg0 s)"

definition lineD_r7 :: "'c env68 \<Rightarrow> nat \<Rightarrow> nat \<Rightarrow> nat \<Rightarrow> 'c emu68 \<Rightarrow> 'c emu68" where
  "lineD_r7 E mode reg9 reg0 s =
    (let (x, s) = op_src_a E SzL mode reg0 s in op_adda x reg9 s)"

section \<open>Frame\<close>

lemmas line_alu_defs =
    line8_r0_def line8_r1_def line8_r2_def line8_r3_def
    line8_r4_def line8_r5_def line8_r6_def line8_r7_def
    line9_r0_def line9_r1_def line9_r2_def line9_r3_def
    line9_r4_def line9_r5_def line9_r6_def line9_r7_def
    lineB_r0_def lineB_r1_def lineB_r2_def lineB_r3_def
    lineB_r4_def lineB_r5_def lineB_r6_def lineB_r7_def
    lineC_r0_def lineC_r1_def lineC_r2_def lineC_r3_def
    lineC_r4_def lineC_r5_def lineC_r6_def lineC_r7_def
    lineD_r0_def lineD_r1_def lineD_r2_def lineD_r3_def
    lineD_r4_def lineD_r5_def lineD_r6_def lineD_r7_def

lemma bcd_frame [frame_intros]:
  "frame68 I s t \<Longrightarrow> frame68 I s (snd (op_bcd sub a b t))"
  "frame68 I s t \<Longrightarrow> frame68 I s (op_bcd_dn sub r r' t)"
  by (auto simp: op_bcd_def op_bcd_dn_def Let_def split_def intro!: frame_intros)

context env_frame
begin

lemma alu_scheme_frame [frame_intros]:
  "frame68 I s t \<Longrightarrow> frame68 I s (op_mul E sg mode r9 r0 t)"
  "frame68 I s t \<Longrightarrow> frame68 I s (op_div E sg mode r9 r0 t)"
  "frame68 I s t \<Longrightarrow> frame68 I s (op_bcd_mem E sub r9 r0 t)"
  "frame68 I s t \<Longrightarrow> frame68 I s (op_cmpm E sz r9 r0 t)"
  by (auto simp: op_mul_def op_div_def op_bcd_mem_def op_cmpm_def Let_def split_def
      intro!: frame_intros)

lemma line_alu_frame [frame_intros]:
  "frame68 I s t \<Longrightarrow> frame68 I s (line8_r0 E mode r9 r0 t)"
  "frame68 I s t \<Longrightarrow> frame68 I s (line8_r1 E mode r9 r0 t)"
  "frame68 I s t \<Longrightarrow> frame68 I s (line8_r2 E mode r9 r0 t)"
  "frame68 I s t \<Longrightarrow> frame68 I s (line8_r3 E mode r9 r0 t)"
  "frame68 I s t \<Longrightarrow> frame68 I s (line8_r4 E mode r9 r0 t)"
  "frame68 I s t \<Longrightarrow> frame68 I s (line8_r5 E mode r9 r0 t)"
  "frame68 I s t \<Longrightarrow> frame68 I s (line8_r6 E mode r9 r0 t)"
  "frame68 I s t \<Longrightarrow> frame68 I s (line8_r7 E mode r9 r0 t)"
  "frame68 I s t \<Longrightarrow> frame68 I s (line9_r0 E mode r9 r0 t)"
  "frame68 I s t \<Longrightarrow> frame68 I s (line9_r1 E mode r9 r0 t)"
  "frame68 I s t \<Longrightarrow> frame68 I s (line9_r2 E mode r9 r0 t)"
  "frame68 I s t \<Longrightarrow> frame68 I s (line9_r3 E mode r9 r0 t)"
  "frame68 I s t \<Longrightarrow> frame68 I s (line9_r4 E mode r9 r0 t)"
  "frame68 I s t \<Longrightarrow> frame68 I s (line9_r5 E mode r9 r0 t)"
  "frame68 I s t \<Longrightarrow> frame68 I s (line9_r6 E mode r9 r0 t)"
  "frame68 I s t \<Longrightarrow> frame68 I s (line9_r7 E mode r9 r0 t)"
  "frame68 I s t \<Longrightarrow> frame68 I s (lineB_r0 E mode r9 r0 t)"
  "frame68 I s t \<Longrightarrow> frame68 I s (lineB_r1 E mode r9 r0 t)"
  "frame68 I s t \<Longrightarrow> frame68 I s (lineB_r2 E mode r9 r0 t)"
  "frame68 I s t \<Longrightarrow> frame68 I s (lineB_r3 E mode r9 r0 t)"
  "frame68 I s t \<Longrightarrow> frame68 I s (lineB_r4 E mode r9 r0 t)"
  "frame68 I s t \<Longrightarrow> frame68 I s (lineB_r5 E mode r9 r0 t)"
  "frame68 I s t \<Longrightarrow> frame68 I s (lineB_r6 E mode r9 r0 t)"
  "frame68 I s t \<Longrightarrow> frame68 I s (lineB_r7 E mode r9 r0 t)"
  "frame68 I s t \<Longrightarrow> frame68 I s (lineC_r0 E mode r9 r0 t)"
  "frame68 I s t \<Longrightarrow> frame68 I s (lineC_r1 E mode r9 r0 t)"
  "frame68 I s t \<Longrightarrow> frame68 I s (lineC_r2 E mode r9 r0 t)"
  "frame68 I s t \<Longrightarrow> frame68 I s (lineC_r3 E mode r9 r0 t)"
  "frame68 I s t \<Longrightarrow> frame68 I s (lineC_r4 E mode r9 r0 t)"
  "frame68 I s t \<Longrightarrow> frame68 I s (lineC_r5 E mode r9 r0 t)"
  "frame68 I s t \<Longrightarrow> frame68 I s (lineC_r6 E mode r9 r0 t)"
  "frame68 I s t \<Longrightarrow> frame68 I s (lineC_r7 E mode r9 r0 t)"
  "frame68 I s t \<Longrightarrow> frame68 I s (lineD_r0 E mode r9 r0 t)"
  "frame68 I s t \<Longrightarrow> frame68 I s (lineD_r1 E mode r9 r0 t)"
  "frame68 I s t \<Longrightarrow> frame68 I s (lineD_r2 E mode r9 r0 t)"
  "frame68 I s t \<Longrightarrow> frame68 I s (lineD_r3 E mode r9 r0 t)"
  "frame68 I s t \<Longrightarrow> frame68 I s (lineD_r4 E mode r9 r0 t)"
  "frame68 I s t \<Longrightarrow> frame68 I s (lineD_r5 E mode r9 r0 t)"
  "frame68 I s t \<Longrightarrow> frame68 I s (lineD_r6 E mode r9 r0 t)"
  "frame68 I s t \<Longrightarrow> frame68 I s (lineD_r7 E mode r9 r0 t)"
  by (auto simp: line_alu_defs Let_def split_def intro!: frame_intros)

end

end
