(* ===== verification/LineMisc68.thy ===== *)
theory LineMisc68
  imports Ops68
begin

text \<open>
  Line 4 of \<open>emu68/lines\<close>: unary operations, moves from and to the status register,
  \<open>MOVEM\<close>, \<open>EXT\<close>, \<open>SWAP\<close>, \<open>TAS\<close>, \<open>LINK\<close>, \<open>UNLK\<close>, traps, returns, jumps, \<open>CHK\<close> and
  \<open>LEA\<close>.  The names are those of the source: \<open>line4_rN_sM\<close> is the function of register
  field \<open>N\<close> and size field \<open>M\<close>; the three functions of an operation on byte, word and long
  are one definition \<open>line4_rN\<close> with the size as an argument.

  Lemmas: the register list of \<open>MOVEM\<close> and its two loops as folds over that list; the
  machine frame.
\<close>

section \<open>Unary operations\<close>

definition op_unary :: "'c env68 \<Rightarrow> (int68 \<Rightarrow> 'c emu68 \<Rightarrow> int68 \<times> 'c emu68) \<Rightarrow> size68 \<Rightarrow> nat \<Rightarrow> nat
    \<Rightarrow> 'c emu68 \<Rightarrow> 'c emu68" where
  "op_unary E f sz mode reg0 s =
    (if mode = 0 then
       let b = norm68 sz (sx (dreg s reg0));
           (b, s) = f b s
       in put_dn sz reg0 b s
     else
       let (l, s) = get_ea68 E sz mode reg0 s;
           (v, s) = read68 E sz l s;
           (b, s) = f (norm68 sz v) s
       in write68 E sz l (drop_bit (fix68 sz) b) s)"

definition line4_r0 :: "'c env68 \<Rightarrow> size68 \<Rightarrow> nat \<Rightarrow> nat \<Rightarrow> 'c emu68 \<Rightarrow> 'c emu68" where
  "line4_r0 E sz mode reg0 s = op_unary E (\<lambda>b s. inl_neg68 b (sr_x sz s) s) sz mode reg0 s"

definition line4_r0_s3 :: "'c env68 \<Rightarrow> nat \<Rightarrow> nat \<Rightarrow> 'c emu68 \<Rightarrow> 'c emu68" where
  "line4_r0_s3 E mode reg0 s =
    (if mode \<noteq> 0 then
       let (l, s) = get_ea68 E SzW mode reg0 s
       in write68 E SzW l (sx (sr s)) s
     else set_dreg reg0 ((dreg s reg0 AND 0xFFFF0000) + ucast (ucast (sr s) :: u16)) s)"

text \<open>\<open>CLR\<close> writes without reading.\<close>

definition line4_r1 :: "'c env68 \<Rightarrow> size68 \<Rightarrow> nat \<Rightarrow> nat \<Rightarrow> 'c emu68 \<Rightarrow> 'c emu68" where
  "line4_r1 E sz mode reg0 s =
    (if mode = 0 then
       let (b, s) = inl_clr68 s
       in put_dn sz reg0 b s
     else
       let (l, s) = get_ea68 E sz mode reg0 s;
           (b, s) = inl_clr68 s
       in write68 E sz l (drop_bit (fix68 sz) b) s)"

definition line4_r2 :: "'c env68 \<Rightarrow> size68 \<Rightarrow> nat \<Rightarrow> nat \<Rightarrow> 'c emu68 \<Rightarrow> 'c emu68" where
  "line4_r2 E sz mode reg0 s = op_unary E (\<lambda>b s. inl_neg68 b 0 s) sz mode reg0 s"

text \<open>\<open>MOVE to CCR\<close>: \<open>SET_CCR\<close> with a 64 bit operand, then truncated.\<close>

definition line4_r2_s3 :: "'c env68 \<Rightarrow> nat \<Rightarrow> nat \<Rightarrow> 'c emu68 \<Rightarrow> 'c emu68" where
  "line4_r2_s3 E mode reg0 s =
    (if mode \<noteq> 0 then
       let x = sr s;
           (l, s) = get_ea68 E SzW mode reg0 s;
           (v, s) = read68 E SzW l s
       in set_sr (SET_CCR x (lo32 v)) s
     else set_sr (SET_CCR (sr s) (dreg s reg0)) s)"

definition line4_r3 :: "'c env68 \<Rightarrow> size68 \<Rightarrow> nat \<Rightarrow> nat \<Rightarrow> 'c emu68 \<Rightarrow> 'c emu68" where
  "line4_r3 E sz mode reg0 s =
    op_unary E (\<lambda>b s. inl_not68 (b OR NOT (nrm_msk68 sz)) s) sz mode reg0 s"

definition line4_r3_s3 :: "'c env68 \<Rightarrow> nat \<Rightarrow> nat \<Rightarrow> 'c emu68 \<Rightarrow> 'c emu68" where
  "line4_r3_s3 E mode reg0 s =
    (if mode \<noteq> 0 then
       let (l, s) = get_ea68 E SzW mode reg0 s;
           (v, s) = read68 E SzW l s
       in set_sr (lo32 v) s
     else set_sr (ucast (ucast (dreg s reg0) :: u16)) s)"

text \<open>\<open>NBCD\<close>: the normalised operand is passed to \<open>nbcd68\<close>, whose argument is an \<open>int\<close>.\<close>

definition line4_r4_s0 :: "'c env68 \<Rightarrow> nat \<Rightarrow> nat \<Rightarrow> 'c emu68 \<Rightarrow> 'c emu68" where
  "line4_r4_s0 E mode reg0 s =
    op_unary E (\<lambda>b s. let (r, s) = inl_nbcd68 (lo32 b) s in (sx r, s)) SzB mode reg0 s"

definition line4_r5 :: "'c env68 \<Rightarrow> size68 \<Rightarrow> nat \<Rightarrow> nat \<Rightarrow> 'c emu68 \<Rightarrow> 'c emu68" where
  "line4_r5 E sz mode reg0 s =
    (if mode = 0 then inl_tst68 (norm68 sz (sx (dreg s reg0))) s
     else
       let (l, s) = get_ea68 E sz mode reg0 s;
           (v, s) = read68 E sz l s
       in inl_tst68 (norm68 sz v) s)"

definition line4_r5_s3 :: "'c env68 \<Rightarrow> nat \<Rightarrow> nat \<Rightarrow> 'c emu68 \<Rightarrow> 'c emu68" where
  "line4_r5_s3 E mode reg0 s =
    (if mode < 2 then
       let (a, s) = inl_tas68 (sx (dreg s reg0)) s
       in set_dreg reg0 (lo32 a) s
     else if mode = 7 \<and> 1 < reg0 then inl_illegal68 E s
     else
       let (l, s) = get_ea68 E SzB mode reg0 s;
           (a, s) = read68 E SzB l s;
           (a, s) = inl_tas68 a s
       in write68 E SzB l a s)"

section \<open>MOVEM\<close>

text \<open>
  The loops \<open>for(; m; r++, m>>=1) if (m & 1) ...\<close>: the mask is read as a number, the register
  pointer is an index in the register array, \<open>step\<close> is \<open>1\<close> or \<open>-1\<close>.
\<close>

fun movem_load :: "'c env68 \<Rightarrow> size68 \<Rightarrow> nat \<Rightarrow> nat \<Rightarrow> int68 \<Rightarrow> 'c emu68 \<Rightarrow> int68 \<times> 'c emu68" where
  "movem_load E sz m r l s =
    (if m = 0 then (l, s)
     else if odd m then
       let (v, s) = read68 E sz l s;
           s = set_dreg r (lo32 v) s
       in movem_load E sz (m div 2) (r + 1) (l + of_nat (bytes68 sz)) s
     else movem_load E sz (m div 2) (r + 1) l s)"

fun movem_store :: "'c env68 \<Rightarrow> size68 \<Rightarrow> nat \<Rightarrow> nat \<Rightarrow> int68 \<Rightarrow> 'c emu68 \<Rightarrow> 'c emu68" where
  "movem_store E sz m r l s =
    (if m = 0 then s
     else if odd m then
       let s = write68 E sz l (sx (dreg s r)) s
       in movem_store E sz (m div 2) (r + 1) (l + of_nat (bytes68 sz)) s
     else movem_store E sz (m div 2) (r + 1) l s)"

fun movem_push :: "'c env68 \<Rightarrow> size68 \<Rightarrow> nat \<Rightarrow> nat \<Rightarrow> int68 \<Rightarrow> 'c emu68 \<Rightarrow> int68 \<times> 'c emu68" where
  "movem_push E sz m r l s =
    (if m = 0 then (l, s)
     else if odd m then
       let l = l - of_nat (bytes68 sz);
           s = write68 E sz l (sx (dreg s r)) s
       in movem_push E sz (m div 2) (r - 1) l s
     else movem_push E sz (m div 2) (r - 1) l s)"

declare movem_load.simps [simp del] movem_store.simps [simp del] movem_push.simps [simp del]

text \<open>\<open>movemregw\<close>, \<open>movemregl\<close>.\<close>

definition movemreg :: "'c env68 \<Rightarrow> size68 \<Rightarrow> nat \<Rightarrow> nat \<Rightarrow> 'c emu68 \<Rightarrow> 'c emu68" where
  "movemreg E sz mode reg0 s =
    (let (w, s) = mem68_nextw E s;
         m = unat (u16_of w);
         (l, s) = get_ea68 E sz mode reg0 s;
         (l, s) = movem_load E sz m 0 l s
     in if mode = 3 then set_areg reg0 (lo32 l) s else s)"

text \<open>\<open>movemmemw\<close>, \<open>movemmeml\<close>: the predecrement form starts from the postincrement address.\<close>

definition movemmem :: "'c env68 \<Rightarrow> size68 \<Rightarrow> nat \<Rightarrow> nat \<Rightarrow> 'c emu68 \<Rightarrow> 'c emu68" where
  "movemmem E sz mode reg0 s =
    (let (w, s) = mem68_nextw E s;
         m = unat (u16_of w)
     in if mode = 4 then
          let (l, s) = get_ea68 E sz 3 reg0 s;
              (l, s) = movem_push E sz m 15 l s
          in set_areg reg0 (lo32 l) s
        else
          let (l, s) = get_ea68 E sz mode reg0 s
          in movem_store E sz m 0 l s)"

section \<open>The other functions of the tables\<close>

definition line4_r4_s1 :: "'c env68 \<Rightarrow> nat \<Rightarrow> nat \<Rightarrow> 'c emu68 \<Rightarrow> 'c emu68" where
  "line4_r4_s1 E mode reg0 s =
    (if mode = 0 then inl_swap68 reg0 s
     else
       let (l, s) = get_ea68 E SzL mode reg0 s
       in mem68_pushl E l s)"

text \<open>\<open>EXT.W\<close>, then \<open>EXT.L\<close>.\<close>

definition line4_r4_s2 :: "'c env68 \<Rightarrow> nat \<Rightarrow> nat \<Rightarrow> 'c emu68 \<Rightarrow> 'c emu68" where
  "line4_r4_s2 E mode reg0 s =
    (if mode = 0 then
       let d = norm68 SzW (s8_of (sx (dreg s reg0)));
           s = inl_tst68 d s;
           s = set_dreg reg0 (dreg s reg0 AND 0xFFFF0000) s
       in set_dreg reg0 (lo32 (sx (dreg s reg0) OR drop_bit 48 d)) s
     else movemmem E SzW mode reg0 s)"

definition line4_r4_s3 :: "'c env68 \<Rightarrow> nat \<Rightarrow> nat \<Rightarrow> 'c emu68 \<Rightarrow> 'c emu68" where
  "line4_r4_s3 E mode reg0 s =
    (if mode = 0 then
       let d = norm68 SzL (s16_of (sx (dreg s reg0)));
           s = inl_tst68 d s
       in set_dreg reg0 (lo32 (signed_drop_bit 32 d)) s
     else movemmem E SzL mode reg0 s)"

text \<open>\<open>funky4_m6_func\<close> by \<open>reg0\<close> and \<open>funky4_func\<close> by mode.\<close>

definition funky4_m6 :: "'c env68 \<Rightarrow> nat \<Rightarrow> 'c emu68 \<Rightarrow> 'c emu68" where
  "funky4_m6 E reg0 s =
    (if reg0 = 0 then inl_reset68 E s
     else if reg0 = 1 then inl_nop68 s
     else if reg0 = 2 then inl_stop68 E s
     else if reg0 = 3 then inl_rte68 E s
     else if reg0 = 4 then inl_illegal68 E s
     else if reg0 = 5 then inl_rts68 E s
     else if reg0 = 6 then inl_trapv68 E s
     else inl_rtr68 E s)"

definition funky4_func :: "'c env68 \<Rightarrow> nat \<Rightarrow> nat \<Rightarrow> 'c emu68 \<Rightarrow> 'c emu68" where
  "funky4_func E mode reg0 s =
    (if mode = 0 then inl_trap68 E (0 * 8 + reg0) s
     else if mode = 1 then inl_trap68 E (1 * 8 + reg0) s
     else if mode = 2 then inl_link68 E reg0 s
     else if mode = 3 then inl_unlk68 E reg0 s
     else if mode = 4 then set_usp (areg s reg0) s
     else if mode = 5 then set_areg reg0 (reg_usp (reg s)) s
     else if mode = 6 then funky4_m6 E reg0 s
     else inl_illegal68 E s)"

definition line4_r7_s2 :: "'c env68 \<Rightarrow> nat \<Rightarrow> nat \<Rightarrow> 'c emu68 \<Rightarrow> 'c emu68" where
  "line4_r7_s2 E mode reg0 s =
    (let (p, s) = get_ea68 E SzL mode reg0 s
     in inl_jsr68 E p s)"

definition line4_r7_s3 :: "'c env68 \<Rightarrow> nat \<Rightarrow> nat \<Rightarrow> 'c emu68 \<Rightarrow> 'c emu68" where
  "line4_r7_s3 E mode reg0 s =
    (let (p, s) = get_ea68 E SzL mode reg0 s
     in inl_jmp68 E p s)"

section \<open>Rows\<close>

text \<open>\<open>line4_0_func\<close>, \<open>line4_1_func\<close> and \<open>line4_2_func\<close> share the rows of the sized operations.\<close>

definition line4_sized :: "'c env68 \<Rightarrow> size68 \<Rightarrow> nat \<Rightarrow> nat \<Rightarrow> nat \<Rightarrow> 'c emu68 \<Rightarrow> 'c emu68" where
  "line4_sized E sz mode reg9 reg0 s =
    (if reg9 = 0 then line4_r0 E sz mode reg0 s
     else if reg9 = 1 then line4_r1 E sz mode reg0 s
     else if reg9 = 2 then line4_r2 E sz mode reg0 s
     else if reg9 = 3 then line4_r3 E sz mode reg0 s
     else line4_r5 E sz mode reg0 s)"

definition line4_row0 :: "'c env68 \<Rightarrow> nat \<Rightarrow> nat \<Rightarrow> nat \<Rightarrow> 'c emu68 \<Rightarrow> 'c emu68" where
  "line4_row0 E mode reg9 reg0 s =
    (if reg9 = 4 then line4_r4_s0 E mode reg0 s
     else if reg9 = 6 then inl_illegal68 E s
     else if reg9 = 7 then inl_illegal68 E s
     else line4_sized E SzB mode reg9 reg0 s)"

definition line4_row1 :: "'c env68 \<Rightarrow> nat \<Rightarrow> nat \<Rightarrow> nat \<Rightarrow> 'c emu68 \<Rightarrow> 'c emu68" where
  "line4_row1 E mode reg9 reg0 s =
    (if reg9 = 4 then line4_r4_s1 E mode reg0 s
     else if reg9 = 6 then inl_illegal68 E s
     else if reg9 = 7 then funky4_func E mode reg0 s
     else line4_sized E SzW mode reg9 reg0 s)"

definition line4_row2 :: "'c env68 \<Rightarrow> nat \<Rightarrow> nat \<Rightarrow> nat \<Rightarrow> 'c emu68 \<Rightarrow> 'c emu68" where
  "line4_row2 E mode reg9 reg0 s =
    (if reg9 = 4 then line4_r4_s2 E mode reg0 s
     else if reg9 = 6 then movemreg E SzW mode reg0 s
     else if reg9 = 7 then line4_r7_s2 E mode reg0 s
     else line4_sized E SzL mode reg9 reg0 s)"

definition line4_row3 :: "'c env68 \<Rightarrow> nat \<Rightarrow> nat \<Rightarrow> nat \<Rightarrow> 'c emu68 \<Rightarrow> 'c emu68" where
  "line4_row3 E mode reg9 reg0 s =
    (if reg9 = 0 then line4_r0_s3 E mode reg0 s
     else if reg9 = 1 then inl_illegal68 E s
     else if reg9 = 2 then line4_r2_s3 E mode reg0 s
     else if reg9 = 3 then line4_r3_s3 E mode reg0 s
     else if reg9 = 4 then line4_r4_s3 E mode reg0 s
     else if reg9 = 5 then line4_r5_s3 E mode reg0 s
     else if reg9 = 6 then movemreg E SzL mode reg0 s
     else line4_r7_s3 E mode reg0 s)"

definition line4_row4 :: "'c env68 \<Rightarrow> nat \<Rightarrow> nat \<Rightarrow> nat \<Rightarrow> 'c emu68 \<Rightarrow> 'c emu68" where
  "line4_row4 E mode reg9 reg0 s = inl_illegal68 E s"

definition line4_row5 :: "'c env68 \<Rightarrow> nat \<Rightarrow> nat \<Rightarrow> nat \<Rightarrow> 'c emu68 \<Rightarrow> 'c emu68" where
  "line4_row5 E mode reg9 reg0 s = inl_illegal68 E s"

definition line4_row6 :: "'c env68 \<Rightarrow> nat \<Rightarrow> nat \<Rightarrow> nat \<Rightarrow> 'c emu68 \<Rightarrow> 'c emu68" where
  "line4_row6 E mode reg9 reg0 s =
    (if mode = 1 then inl_illegal68 E s
     else
       let (x, s) = op_src E SzW mode reg0 s;
           d = norm68 SzW (sx (dreg s reg9))
       in inl_chk68 E x d s)"

definition line4_row7 :: "'c env68 \<Rightarrow> nat \<Rightarrow> nat \<Rightarrow> nat \<Rightarrow> 'c emu68 \<Rightarrow> 'c emu68" where
  "line4_row7 E mode reg9 reg0 s =
    (if mode = 2 then set_areg reg9 (areg s reg0) s
     else if mode = 5 then
       let a = areg s reg0;
           (w, s) = mem68_nextw E s
       in set_areg reg9 (lo32 (sx a + w)) s
     else if mode = 6 \<or> mode = 7 then
       let (l, s) = get_ea68 E SzL mode reg0 s
       in set_areg reg9 (lo32 l) s
     else inl_illegal68 E s)"

section \<open>Frame\<close>

context env_frame
begin

lemma unary_frame [frame_intros]:
  assumes f: "\<And>b t. frame68 I s t \<Longrightarrow> frame68 I s (snd (f b t))" and t: "frame68 I s t"
  shows "frame68 I s (op_unary E f sz mode r0 t)"
  using t by (auto simp: op_unary_def Let_def split_def intro!: frame_intros f)

lemma movem_load_frame [frame_intros]:
  "frame68 I s t \<Longrightarrow> frame68 I s (snd (movem_load E sz m r l t))"
proof (induction m arbitrary: r l t rule: less_induct)
  case (less m)
  show ?case
    by (subst movem_load.simps) (auto simp: Let_def split_def less intro!: frame_intros less)
qed

lemma movem_store_frame [frame_intros]:
  "frame68 I s t \<Longrightarrow> frame68 I s (movem_store E sz m r l t)"
proof (induction m arbitrary: r l t rule: less_induct)
  case (less m)
  show ?case
    by (subst movem_store.simps) (auto simp: Let_def less intro!: frame_intros less)
qed

lemma movem_push_frame [frame_intros]:
  "frame68 I s t \<Longrightarrow> frame68 I s (snd (movem_push E sz m r l t))"
proof (induction m arbitrary: r l t rule: less_induct)
  case (less m)
  show ?case
    by (subst movem_push.simps) (auto simp: Let_def less intro!: frame_intros less)
qed

lemma movem_frame [frame_intros]:
  "frame68 I s t \<Longrightarrow> frame68 I s (movemreg E sz mode r0 t)"
  "frame68 I s t \<Longrightarrow> frame68 I s (movemmem E sz mode r0 t)"
  by (auto simp: movemreg_def movemmem_def Let_def split_def intro!: frame_intros)

lemma line4_func_frame [frame_intros]:
  "frame68 I s t \<Longrightarrow> frame68 I s (line4_r0 E sz mode r0 t)"
  "frame68 I s t \<Longrightarrow> frame68 I s (line4_r0_s3 E mode r0 t)"
  "frame68 I s t \<Longrightarrow> frame68 I s (line4_r1 E sz mode r0 t)"
  "frame68 I s t \<Longrightarrow> frame68 I s (line4_r2 E sz mode r0 t)"
  "frame68 I s t \<Longrightarrow> frame68 I s (line4_r2_s3 E mode r0 t)"
  "frame68 I s t \<Longrightarrow> frame68 I s (line4_r3 E sz mode r0 t)"
  "frame68 I s t \<Longrightarrow> frame68 I s (line4_r3_s3 E mode r0 t)"
  "frame68 I s t \<Longrightarrow> frame68 I s (line4_r4_s0 E mode r0 t)"
  "frame68 I s t \<Longrightarrow> frame68 I s (line4_r4_s1 E mode r0 t)"
  "frame68 I s t \<Longrightarrow> frame68 I s (line4_r4_s2 E mode r0 t)"
  "frame68 I s t \<Longrightarrow> frame68 I s (line4_r4_s3 E mode r0 t)"
  "frame68 I s t \<Longrightarrow> frame68 I s (line4_r5 E sz mode r0 t)"
  "frame68 I s t \<Longrightarrow> frame68 I s (line4_r5_s3 E mode r0 t)"
  "frame68 I s t \<Longrightarrow> frame68 I s (line4_r7_s2 E mode r0 t)"
  "frame68 I s t \<Longrightarrow> frame68 I s (line4_r7_s3 E mode r0 t)"
  "frame68 I s t \<Longrightarrow> frame68 I s (funky4_m6 E r0 t)"
  by (auto simp: line4_r0_def line4_r0_s3_def line4_r1_def line4_r2_def line4_r2_s3_def
      line4_r3_def line4_r3_s3_def line4_r4_s0_def line4_r4_s1_def line4_r4_s2_def
      line4_r4_s3_def line4_r5_def line4_r5_s3_def line4_r7_s2_def line4_r7_s3_def
      funky4_m6_def Let_def split_def intro!: frame_intros)

lemma line4_table_frame [frame_intros]:
  "frame68 I s t \<Longrightarrow> frame68 I s (funky4_func E mode r0 t)"
  "frame68 I s t \<Longrightarrow> frame68 I s (line4_sized E sz mode r9 r0 t)"
  by (auto simp: funky4_func_def line4_sized_def intro!: frame_intros)

lemma line4_frame [frame_intros]:
  "frame68 I s t \<Longrightarrow> frame68 I s (line4_row0 E mode r9 r0 t)"
  "frame68 I s t \<Longrightarrow> frame68 I s (line4_row1 E mode r9 r0 t)"
  "frame68 I s t \<Longrightarrow> frame68 I s (line4_row2 E mode r9 r0 t)"
  "frame68 I s t \<Longrightarrow> frame68 I s (line4_row3 E mode r9 r0 t)"
  "frame68 I s t \<Longrightarrow> frame68 I s (line4_row4 E mode r9 r0 t)"
  "frame68 I s t \<Longrightarrow> frame68 I s (line4_row5 E mode r9 r0 t)"
  "frame68 I s t \<Longrightarrow> frame68 I s (line4_row6 E mode r9 r0 t)"
  "frame68 I s t \<Longrightarrow> frame68 I s (line4_row7 E mode r9 r0 t)"
  by (auto simp: line4_row0_def line4_row1_def line4_row2_def line4_row3_def line4_row4_def
      line4_row5_def line4_row6_def line4_row7_def Let_def split_def intro!: frame_intros)

end

end
