(* ===== verification/Table68.thy ===== *)
theory Table68
  imports LineMove68 LineImm68 LineQuick68 LineShift68 LineAlu68 LineMisc68
begin

text \<open>
  The dispatch table \<open>line_func\<close> of \<open>emu68/lines/table.c\<close>, 1024 entries: 64 for each of the
  sixteen lines, indexed by opcode bits 3 to 8.  The source lists the functions one by one;
  here a line is the list of its eight rows (bits 6 to 8), whose first argument is the
  remaining three bits.

  Lemmas: every entry of the table keeps the machine frame.
\<close>

definition line0_rows :: "'c env68 \<Rightarrow> (nat \<Rightarrow> nat \<Rightarrow> nat \<Rightarrow> 'c emu68 \<Rightarrow> 'c emu68) list" where
  "line0_rows E =
    [line0_r0 E, line0_r1 E, line0_r2 E, line0_r3 E,
     line0_r4 E, line0_r5 E, line0_r6 E, line0_r7 E]"

definition line1_rows :: "'c env68 \<Rightarrow> (nat \<Rightarrow> nat \<Rightarrow> nat \<Rightarrow> 'c emu68 \<Rightarrow> 'c emu68) list" where
  "line1_rows E =
    [line1_r0 E, line1_r1 E, line1_r2 E, line1_r3 E,
     line1_r4 E, line1_r5 E, line1_r6 E, line1_r7 E]"

definition line2_rows :: "'c env68 \<Rightarrow> (nat \<Rightarrow> nat \<Rightarrow> nat \<Rightarrow> 'c emu68 \<Rightarrow> 'c emu68) list" where
  "line2_rows E =
    [line2_r0 E, line2_r1 E, line2_r2 E, line2_r3 E,
     line2_r4 E, line2_r5 E, line2_r6 E, line2_r7 E]"

definition line3_rows :: "'c env68 \<Rightarrow> (nat \<Rightarrow> nat \<Rightarrow> nat \<Rightarrow> 'c emu68 \<Rightarrow> 'c emu68) list" where
  "line3_rows E =
    [line3_r0 E, line3_r1 E, line3_r2 E, line3_r3 E,
     line3_r4 E, line3_r5 E, line3_r6 E, line3_r7 E]"

definition line4_rows :: "'c env68 \<Rightarrow> (nat \<Rightarrow> nat \<Rightarrow> nat \<Rightarrow> 'c emu68 \<Rightarrow> 'c emu68) list" where
  "line4_rows E =
    [line4_row0 E, line4_row1 E, line4_row2 E, line4_row3 E,
     line4_row4 E, line4_row5 E, line4_row6 E, line4_row7 E]"

definition line5_rows :: "'c env68 \<Rightarrow> (nat \<Rightarrow> nat \<Rightarrow> nat \<Rightarrow> 'c emu68 \<Rightarrow> 'c emu68) list" where
  "line5_rows E =
    [line5_r0 E, line5_r1 E, line5_r2 E, line5_r3 E,
     line5_r4 E, line5_r5 E, line5_r6 E, line5_r7 E]"

definition line6_rows :: "'c env68 \<Rightarrow> (nat \<Rightarrow> nat \<Rightarrow> nat \<Rightarrow> 'c emu68 \<Rightarrow> 'c emu68) list" where
  "line6_rows E =
    [line6_r0 E, line6_r1 E, line6_r2 E, line6_r3 E,
     line6_r4 E, line6_r5 E, line6_r6 E, line6_r7 E]"

definition line7_rows :: "'c env68 \<Rightarrow> (nat \<Rightarrow> nat \<Rightarrow> nat \<Rightarrow> 'c emu68 \<Rightarrow> 'c emu68) list" where
  "line7_rows E =
    [line7_r0 E, line7_r1 E, line7_r2 E, line7_r3 E,
     line7_r4 E, line7_r5 E, line7_r6 E, line7_r7 E]"

definition line8_rows :: "'c env68 \<Rightarrow> (nat \<Rightarrow> nat \<Rightarrow> nat \<Rightarrow> 'c emu68 \<Rightarrow> 'c emu68) list" where
  "line8_rows E =
    [line8_r0 E, line8_r1 E, line8_r2 E, line8_r3 E,
     line8_r4 E, line8_r5 E, line8_r6 E, line8_r7 E]"

definition line9_rows :: "'c env68 \<Rightarrow> (nat \<Rightarrow> nat \<Rightarrow> nat \<Rightarrow> 'c emu68 \<Rightarrow> 'c emu68) list" where
  "line9_rows E =
    [line9_r0 E, line9_r1 E, line9_r2 E, line9_r3 E,
     line9_r4 E, line9_r5 E, line9_r6 E, line9_r7 E]"

definition lineA_rows :: "'c env68 \<Rightarrow> (nat \<Rightarrow> nat \<Rightarrow> nat \<Rightarrow> 'c emu68 \<Rightarrow> 'c emu68) list" where
  "lineA_rows E =
    [lineA00 E, lineA00 E, lineA00 E, lineA00 E,
     lineA00 E, lineA00 E, lineA00 E, lineA00 E]"

definition lineB_rows :: "'c env68 \<Rightarrow> (nat \<Rightarrow> nat \<Rightarrow> nat \<Rightarrow> 'c emu68 \<Rightarrow> 'c emu68) list" where
  "lineB_rows E =
    [lineB_r0 E, lineB_r1 E, lineB_r2 E, lineB_r3 E,
     lineB_r4 E, lineB_r5 E, lineB_r6 E, lineB_r7 E]"

definition lineC_rows :: "'c env68 \<Rightarrow> (nat \<Rightarrow> nat \<Rightarrow> nat \<Rightarrow> 'c emu68 \<Rightarrow> 'c emu68) list" where
  "lineC_rows E =
    [lineC_r0 E, lineC_r1 E, lineC_r2 E, lineC_r3 E,
     lineC_r4 E, lineC_r5 E, lineC_r6 E, lineC_r7 E]"

definition lineD_rows :: "'c env68 \<Rightarrow> (nat \<Rightarrow> nat \<Rightarrow> nat \<Rightarrow> 'c emu68 \<Rightarrow> 'c emu68) list" where
  "lineD_rows E =
    [lineD_r0 E, lineD_r1 E, lineD_r2 E, lineD_r3 E,
     lineD_r4 E, lineD_r5 E, lineD_r6 E, lineD_r7 E]"

definition lineE_rows :: "'c env68 \<Rightarrow> (nat \<Rightarrow> nat \<Rightarrow> nat \<Rightarrow> 'c emu68 \<Rightarrow> 'c emu68) list" where
  "lineE_rows E =
    [lineE_r0 E, lineE_r1 E, lineE_r2 E, lineE_r3 E,
     lineE_r4 E, lineE_r5 E, lineE_r6 E, lineE_r7 E]"

definition lineF_rows :: "'c env68 \<Rightarrow> (nat \<Rightarrow> nat \<Rightarrow> nat \<Rightarrow> 'c emu68 \<Rightarrow> 'c emu68) list" where
  "lineF_rows E =
    [lineF00 E, lineF00 E, lineF00 E, lineF00 E,
     lineF00 E, lineF00 E, lineF00 E, lineF00 E]"

definition line_rows :: "'c env68 \<Rightarrow> (nat \<Rightarrow> nat \<Rightarrow> nat \<Rightarrow> 'c emu68 \<Rightarrow> 'c emu68) list list" where
  "line_rows E =
    [line0_rows E, line1_rows E, line2_rows E, line3_rows E,
     line4_rows E, line5_rows E, line6_rows E, line7_rows E,
     line8_rows E, line9_rows E, lineA_rows E, lineB_rows E,
     lineC_rows E, lineD_rows E, lineE_rows E, lineF_rows E]"

text \<open>Entry \<open>idx\<close> of the table, called with \<open>reg9\<close> and \<open>reg0\<close>.\<close>

definition line_func :: "'c env68 \<Rightarrow> nat \<Rightarrow> nat \<Rightarrow> nat \<Rightarrow> 'c emu68 \<Rightarrow> 'c emu68" where
  "line_func E idx reg9 reg0 s =
    ((line_rows E ! (idx div 64)) ! (idx div 8 mod 8)) (idx mod 8) reg9 reg0 s"

lemmas line_rows_defs =
    line0_rows_def line1_rows_def line2_rows_def line3_rows_def line4_rows_def line5_rows_def
    line6_rows_def line7_rows_def line8_rows_def line9_rows_def lineA_rows_def lineB_rows_def
    lineC_rows_def lineD_rows_def lineE_rows_def lineF_rows_def

lemma line_rows_shape: "length (line_rows E) = 16" "rs \<in> set (line_rows E) \<Longrightarrow> length rs = 8"
  by (auto simp: line_rows_def line_rows_defs)

lemma line_row_in:
  assumes "idx < 1024"
  shows "line_rows E ! (idx div 64) \<in> set (line_rows E)"
    and "(line_rows E ! (idx div 64)) ! (idx div 8 mod 8) \<in> set (line_rows E ! (idx div 64))"
proof -
  have "idx div 64 < 16" using assms by simp
  then show r: "line_rows E ! (idx div 64) \<in> set (line_rows E)"
    by (simp add: line_rows_shape)
  show "(line_rows E ! (idx div 64)) ! (idx div 8 mod 8) \<in> set (line_rows E ! (idx div 64))"
    using line_rows_shape(2) [OF r] by simp
qed

context env_frame
begin

lemma line_rows_frame:
  "rs \<in> set (line_rows E) \<Longrightarrow> f \<in> set rs \<Longrightarrow> frame68 I s t \<Longrightarrow> frame68 I s (f mode r9 r0 t)"
  unfolding line_rows_def line_rows_defs
  by (auto simp: line_move_frame line0_frame line4_frame line_quick_frame line_alu_frame
      line_shift_frame)

lemma line_func_frame [frame_intros]:
  "idx < 1024 \<Longrightarrow> frame68 I s t \<Longrightarrow> frame68 I s (line_func E idx r9 r0 t)"
  unfolding line_func_def by (rule line_rows_frame [OF line_row_in])

end

end
