(* ===== verification/Api68.thy ===== *)
theory Api68
  imports Table68
begin

text \<open>
  The accessors of \<open>emu68/emu68.c\<close>: registers, cookie and handler, the onboard memory seen
  from the host (\<open>emu68_memptr\<close>, peek and poke, block copies), and the checksum of the
  machine.  A host pointer into the onboard memory or into the access control memory is an
  index tagged with which of the two it points into.

  Lemmas: masked register transfers, the range check of block copies, and the injectivity
  of the checksum step.
\<close>

type_synonym u32 = "32 word"

section \<open>Registers and plain fields\<close>

definition emu68_set_interrupt_io :: "nat option \<Rightarrow> 'c emu68 \<Rightarrow> nat option \<times> 'c emu68" where
  "emu68_set_interrupt_io io s = (interrupt_io s, s\<lparr>interrupt_io := io\<rparr>)"

definition REG68_D0_IDX :: nat where "REG68_D0_IDX = 0"
definition REG68_A0_IDX :: nat where "REG68_A0_IDX = 8"
definition REG68_US_IDX :: nat where "REG68_US_IDX = 16"
definition REG68_PC_IDX :: nat where "REG68_PC_IDX = 17"
definition REG68_SR_IDX :: nat where "REG68_SR_IDX = 18"

lemmas reg_idx_defs = REG68_D0_IDX_def REG68_A0_IDX_def REG68_US_IDX_def REG68_PC_IDX_def
  REG68_SR_IDX_def

definition reg_in :: "s32 \<Rightarrow> nat \<Rightarrow> bool" where
  "reg_in msk k \<longleftrightarrow> msk AND push_bit k 1 \<noteq> 0"

definition emu68_set_registers :: "reg68 \<Rightarrow> s32 \<Rightarrow> 'c emu68 \<Rightarrow> 'c emu68" where
  "emu68_set_registers r msk s =
    (let s = (if reg_in msk REG68_US_IDX then set_usp (reg_usp r) s else s);
         s = (if reg_in msk REG68_PC_IDX then set_pc (reg_pc r) s else s);
         s = (if reg_in msk REG68_SR_IDX then set_sr (reg_sr r) s else s);
         s = fold (\<lambda>i s. if reg_in msk (REG68_D0_IDX + i) then set_dreg i (reg_d r i) s else s)
               [0..<8] s
     in fold (\<lambda>i s. if reg_in msk (REG68_A0_IDX + i) then set_areg i (reg_d r (8 + i)) s else s)
          [0..<8] s)"

definition emu68_get_registers :: "'c emu68 \<Rightarrow> s32 \<Rightarrow> reg68 \<Rightarrow> reg68" where
  "emu68_get_registers s msk r =
    (let r = (if reg_in msk REG68_US_IDX then r\<lparr>reg_usp := reg_usp (reg s)\<rparr> else r);
         r = (if reg_in msk REG68_PC_IDX then r\<lparr>reg_pc := pc s\<rparr> else r);
         r = (if reg_in msk REG68_SR_IDX then r\<lparr>reg_sr := sr s\<rparr> else r);
         r = fold (\<lambda>i r. if reg_in msk (REG68_D0_IDX + i)
                then r\<lparr>reg_d := (reg_d r)(i := dreg s i)\<rparr> else r) [0..<8] r
     in fold (\<lambda>i r. if reg_in msk (REG68_A0_IDX + i)
           then r\<lparr>reg_d := (reg_d r)(8 + i := areg s i)\<rparr> else r) [0..<8] r)"

definition emu68_set_cycle :: "int68 \<Rightarrow> 'c emu68 \<Rightarrow> 'c emu68" where
  "emu68_set_cycle c s = s\<lparr>cycle := c\<rparr>"

definition emu68_get_cycle :: "'c emu68 \<Rightarrow> int68" where
  "emu68_get_cycle s = cycle s"

definition emu68_set_cookie :: "nat \<Rightarrow> 'c emu68 \<Rightarrow> nat \<times> 'c emu68" where
  "emu68_set_cookie k s = (cookie s, s\<lparr>cookie := k\<rparr>)"

definition emu68_get_cookie :: "'c emu68 \<Rightarrow> nat" where
  "emu68_get_cookie s = cookie s"

definition emu68_set_handler :: "nat option \<Rightarrow> 'c emu68 \<Rightarrow> nat option \<times> 'c emu68" where
  "emu68_set_handler h s = (handler s, s\<lparr>handler := h\<rparr>)"

definition emu68_get_handler :: "'c emu68 \<Rightarrow> nat option" where
  "emu68_get_handler s = handler s"

section \<open>Onboard memory from the host\<close>

datatype hostptr = MemPtr nat | ChkPtr nat

definition emu68_memptr :: "int68 \<Rightarrow> int68 \<Rightarrow> 'c emu68 \<Rightarrow> hostptr option \<times> 'c emu68" where
  "emu68_memptr dst sz s =
    (let adr = dst;
         bot = memmsk s + 1;
         fin = adr + sz
     in if bot \<le> adr \<or> bot < fin \<or> fin < adr
        then (None, emu68_error_add (InvalidRange adr fin bot) s)
        else (Some (MemPtr (unat dst)), s))"

definition emu68_chkptr :: "int68 \<Rightarrow> int68 \<Rightarrow> 'c emu68 \<Rightarrow> hostptr option \<times> 'c emu68" where
  "emu68_chkptr dst sz s =
    (let (ptr, s) = emu68_memptr dst sz s
     in case ptr of
          Some (MemPtr i) \<Rightarrow> (if chk s \<noteq> None then (Some (ChkPtr i), s) else (ptr, s))
        | _ \<Rightarrow> (ptr, s))"

definition emu68_peek :: "int68 \<Rightarrow> 'c emu68 \<Rightarrow> s32" where
  "emu68_peek addr s = ucast (mem s (mem_index s addr))"

definition emu68_chkpeek :: "int68 \<Rightarrow> 'c emu68 \<Rightarrow> s32" where
  "emu68_chkpeek addr s =
    (case chk s of Some c \<Rightarrow> ucast (c (mem_index s addr)) | None \<Rightarrow> -1)"

definition emu68_poke :: "int68 \<Rightarrow> int68 \<Rightarrow> 'c emu68 \<Rightarrow> s32 \<times> 'c emu68" where
  "emu68_poke addr v s =
    (ucast (ucast v :: u8), s\<lparr>mem := (mem s)(mem_index s addr := ucast v)\<rparr>)"

definition emu68_chkpoke :: "int68 \<Rightarrow> int68 \<Rightarrow> 'c emu68 \<Rightarrow> s32 \<times> 'c emu68" where
  "emu68_chkpoke addr v s =
    (case chk s of
       Some c \<Rightarrow> (ucast (ucast v :: u8), s\<lparr>chk := Some (c(mem_index s addr := ucast v))\<rparr>)
     | None \<Rightarrow> (-1, s))"

text \<open>\<open>memcpy\<close>, \<open>memset\<close> to a host pointer, and \<open>memcpy\<close> from one.\<close>

definition blit :: "u8 list \<Rightarrow> nat \<Rightarrow> (nat \<Rightarrow> u8) \<Rightarrow> nat \<Rightarrow> u8" where
  "blit bs i m = (\<lambda>j. if i \<le> j \<and> j < i + length bs then bs ! (j - i) else m j)"

definition host_copy :: "hostptr \<Rightarrow> u8 list \<Rightarrow> 'c emu68 \<Rightarrow> 'c emu68" where
  "host_copy p bs s =
    (case p of
       MemPtr i \<Rightarrow> s\<lparr>mem := blit bs i (mem s)\<rparr>
     | ChkPtr i \<Rightarrow> s\<lparr>chk := map_option (blit bs i) (chk s)\<rparr>)"

definition emu68_memput :: "int68 \<Rightarrow> u8 list \<Rightarrow> int68 \<Rightarrow> 'c emu68 \<Rightarrow> int \<times> 'c emu68" where
  "emu68_memput dst src sz s =
    (let (ptr, s) = emu68_memptr dst sz s
     in case ptr of
          Some p \<Rightarrow> (0, host_copy p (take (unat sz) src) s)
        | None \<Rightarrow> (-1, s))"

text \<open>\<open>emu68_memget\<close> also returns the bytes it copies out, nothing when the range is invalid.\<close>

definition emu68_memget :: "int68 \<Rightarrow> int68 \<Rightarrow> 'c emu68 \<Rightarrow> int \<times> u8 list option \<times> 'c emu68" where
  "emu68_memget src sz s =
    (let (ptr, s) = emu68_memptr src sz s
     in case ptr of
          Some (MemPtr i) \<Rightarrow> (0, Some (map (mem s) [i..<i + unat sz]), s)
        | _ \<Rightarrow> (-1, None, s))"

definition emu68_memset :: "int68 \<Rightarrow> u8 \<Rightarrow> int68 \<Rightarrow> 'c emu68 \<Rightarrow> int \<times> 'c emu68" where
  "emu68_memset dst val sz s =
    (let sz = (if sz = 0 then memmsk s + 1 - dst else sz);
         (ptr, s) = emu68_memptr dst sz s
     in case ptr of
          Some p \<Rightarrow> (0, host_copy p (replicate (unat sz) val) s)
        | None \<Rightarrow> (-1, s))"

definition emu68_chkset :: "int68 \<Rightarrow> u8 \<Rightarrow> int68 \<Rightarrow> 'c emu68 \<Rightarrow> int \<times> 'c emu68" where
  "emu68_chkset dst val sz s =
    (let sz = (if sz = 0 then memmsk s + 1 - dst else sz);
         (ptr, s) = emu68_chkptr dst sz s
     in case ptr of
          Some p \<Rightarrow> (0, host_copy p (replicate (unat sz) val) s)
        | None \<Rightarrow> (-1, s))"

section \<open>Checksum\<close>

text \<open>One byte of \<open>crc32b\<close>: eight times the inner loop.\<close>

definition crc32_bit :: "u32 \<Rightarrow> u32" where
  "crc32_bit crc =
    (let msk = - (crc AND 1)
     in drop_bit 1 crc XOR (0xEDB88320 AND msk))"

definition crc32_byte :: "u32 \<Rightarrow> u8 \<Rightarrow> u32" where
  "crc32_byte crc b = (crc32_bit ^^ 8) (crc XOR ucast b)"

definition crc32b :: "u32 \<Rightarrow> u8 list \<Rightarrow> u32" where
  "crc32b crc bs = foldl crc32_byte crc bs"

definition be_bytes :: "s32 \<Rightarrow> u8 list" where
  "be_bytes v = [ucast (drop_bit 24 v), ucast (drop_bit 16 v), ucast (drop_bit 8 v), ucast v]"

text \<open>The serialised registers: \<open>d0\<close> to \<open>a7\<close>, \<open>usp\<close>, \<open>pc\<close>, then two bytes of \<open>sr\<close>.\<close>

definition crc_regs :: "reg68 \<Rightarrow> u8 list" where
  "crc_regs r =
    concat (map be_bytes (map (reg_d r) [0..<16] @ [reg_usp r, reg_pc r]))
      @ [ucast (signed_drop_bit 8 (reg_sr r)), ucast (reg_sr r)]"

definition emu68_crc32 :: "'c emu68 \<Rightarrow> int68" where
  "emu68_crc32 s =
    (let crc = crc32b 0xFFFFFFFF (crc_regs (reg s));
         crc = crc32b crc (map (mem s) [0..<unat (memmsk s + 1)])
     in ucast crc)"

section \<open>Lemmas\<close>

lemma fold_upt_Suc: "fold f [0..<Suc n] x = f n (fold f [0..<n] x)"
  by simp

lemma fold_put_dreg:
  "fold (\<lambda>i r. if P i then r\<lparr>reg_d := (reg_d r)(k + i := g i)\<rparr> else r) [0..<n] r =
    r\<lparr>reg_d := (\<lambda>j. if k \<le> j \<and> j < k + n \<and> P (j - k) then g (j - k) else reg_d r j)\<rparr>"
  for r :: reg68
proof (induction n)
  case (Suc n)
  show ?case
    unfolding fold_upt_Suc Suc
    by (auto intro!: reg68.equality simp: fun_eq_iff less_Suc_eq)
qed (auto intro!: reg68.equality simp: fun_eq_iff)

lemma fold_set_dreg:
  "fold (\<lambda>i s. if P i then set_dreg (k + i) (g i) s else s) xs s =
    s\<lparr>reg := fold (\<lambda>i r. if P i then r\<lparr>reg_d := (reg_d r)(k + i := g i)\<rparr> else r) xs (reg s)\<rparr>"
  by (induction xs arbitrary: s) (auto simp: set_dreg_def)

lemma xor_right_imp: "a XOR m = b XOR m \<Longrightarrow> a = b" for a b m :: "'a::len word"
  by (rule bit_word_eqI) (metis bit_xor_iff)

lemma set_registers_eq:
  "emu68_set_registers r msk s =
    s\<lparr>reg :=
      \<lparr>reg_d = (\<lambda>i. if i < 16 \<and> reg_in msk i then reg_d r i else dreg s i),
       reg_usp = (if reg_in msk 16 then reg_usp r else reg_usp (reg s)),
       reg_pc = (if reg_in msk 17 then reg_pc r else pc s),
       reg_sr = (if reg_in msk 18 then reg_sr r else sr s)\<rparr>\<rparr>"
proof -
  have d: "fold (\<lambda>i s. if reg_in msk (0 + i) then set_dreg i (reg_d r i) s else s) [0..<8] t =
      t\<lparr>reg := (reg t)\<lparr>reg_d := (\<lambda>j. if j < 8 \<and> reg_in msk j then reg_d r j else dreg t j)\<rparr>\<rparr>" for t :: "'a emu68"
    using fold_set_dreg [where k = 0 and P = "reg_in msk" and g = "reg_d r" and xs = "[0..<8]",
      unfolded fold_put_dreg]
    by (simp cong: if_cong)
  have a: "fold (\<lambda>i s. if reg_in msk (8 + i) then set_areg i (reg_d r (8 + i)) s else s) [0..<8] t =
      t\<lparr>reg := (reg t)\<lparr>reg_d := (\<lambda>j. if 8 \<le> j \<and> j < 16 \<and> reg_in msk j then reg_d r j else dreg t j)\<rparr>\<rparr>" for t :: "'a emu68"
    using fold_set_dreg [where k = 8 and P = "\<lambda>i. reg_in msk (8 + i)" and g = "\<lambda>i. reg_d r (8 + i)"
      and xs = "[0..<8]", unfolded fold_put_dreg]
    by (simp add: set_areg_def cong: conj_cong if_cong)
  show ?thesis
    unfolding emu68_set_registers_def Let_def reg_idx_defs d a
    by (cases "reg_in msk 16"; cases "reg_in msk 17"; cases "reg_in msk 18")
      (auto intro!: emu68.equality reg68.equality simp: set_reg_defs fun_eq_iff)
qed

lemma get_registers_eq:
  "emu68_get_registers s msk r =
      \<lparr>reg_d = (\<lambda>i. if i < 16 \<and> reg_in msk i then dreg s i else reg_d r i),
       reg_usp = (if reg_in msk 16 then reg_usp (reg s) else reg_usp r),
       reg_pc = (if reg_in msk 17 then pc s else reg_pc r),
       reg_sr = (if reg_in msk 18 then sr s else reg_sr r)\<rparr>"
proof -
  have d: "fold (\<lambda>i r. if reg_in msk (0 + i) then r\<lparr>reg_d := (reg_d r)(i := dreg s i)\<rparr> else r) [0..<8] t =
      t\<lparr>reg_d := (\<lambda>j. if j < 8 \<and> reg_in msk j then dreg s j else reg_d t j)\<rparr>" for t :: reg68
    using fold_put_dreg [where k = 0 and P = "reg_in msk" and g = "dreg s" and n = 8]
    by (simp cong: if_cong)
  have a: "fold (\<lambda>i r. if reg_in msk (8 + i) then r\<lparr>reg_d := (reg_d r)(8 + i := areg s i)\<rparr> else r) [0..<8] t =
      t\<lparr>reg_d := (\<lambda>j. if 8 \<le> j \<and> j < 16 \<and> reg_in msk j then dreg s j else reg_d t j)\<rparr>" for t :: reg68
    using fold_put_dreg [where k = 8 and P = "\<lambda>i. reg_in msk (8 + i)" and g = "areg s" and n = 8]
    by (simp cong: conj_cong if_cong)
  show ?thesis
    unfolding emu68_get_registers_def Let_def reg_idx_defs d a
    by (rule reg68.equality; simp add: fun_eq_iff)
qed

text \<open>The checksum step is injective in the checksum: the feedback shows in the top bit.\<close>

lemma minus_low_bit: "- (x AND 1) = (if bit x 0 then - 1 else 0)" for x :: u32
  by (simp add: and_one_eq mod_2_eq_odd bit_0)

lemma crc32_bit_inj: "inj crc32_bit"
proof (rule injI)
  fix x y assume eq: "crc32_bit x = crc32_bit y"
  have top: "bit (crc32_bit x) 31 = bit x 0" for x
    by (simp add: crc32_bit_def minus_low_bit Let_def bit_xor_iff bit_drop_bit_eq bit_and_iff
        impossible_bit)
  have low: "bit x 0 = bit y 0"
    using top [of x] top [of y] eq by simp
  then have d: "drop_bit 1 x = drop_bit 1 y"
    using eq by (auto simp add: crc32_bit_def minus_low_bit Let_def dest: xor_right_imp)
  show "x = y"
  proof (rule bit_word_eqI)
    fix n
    show "bit x n = bit y n"
      using low arg_cong [OF d, of "\<lambda>w. bit w (n - 1)"] by (cases n) (simp_all add: bit_drop_bit_eq)
  qed
qed

lemma crc32_byte_inj: "crc32_byte c b = crc32_byte c' b' \<Longrightarrow> c XOR ucast b = c' XOR ucast b'"
  unfolding crc32_byte_def using inj_fn [OF crc32_bit_inj] by (rule injD)

lemma crc32b_inj: "crc32b c bs = crc32b c' bs \<Longrightarrow> c = c'"
proof (induction bs arbitrary: c c')
  case (Cons b bs)
  from Cons.prems have "crc32b (crc32_byte c b) bs = crc32b (crc32_byte c' b) bs"
    by (simp add: crc32b_def)
  then have "crc32_byte c b = crc32_byte c' b"
    by (rule Cons.IH)
  then show ?case
    by (rule xor_right_imp [OF crc32_byte_inj])
qed (simp add: crc32b_def)

lemma crc32b_append: "crc32b c (as @ bs) = crc32b (crc32b c as) bs"
  by (simp add: crc32b_def)

text \<open>Two equally long strings that differ in one byte have different checksums.\<close>

lemma crc32b_one_byte:
  assumes "a \<noteq> b"
  shows "crc32b c (as @ a # bs) \<noteq> crc32b c (as @ b # bs)"
proof
  assume "crc32b c (as @ a # bs) = crc32b c (as @ b # bs)"
  then have "crc32b (crc32_byte (crc32b c as) a) bs = crc32b (crc32_byte (crc32b c as) b) bs"
    by (simp add: crc32b_def)
  then have "crc32_byte (crc32b c as) a = crc32_byte (crc32b c as) b"
    by (rule crc32b_inj)
  then have "crc32b c as XOR ucast a = crc32b c as XOR ucast b"
    by (rule crc32_byte_inj)
  then have "(ucast a :: u32) = ucast b"
    unfolding xor.commute [of "crc32b c as"] by (rule xor_right_imp)
  then have "(ucast (ucast a :: u32) :: u8) = ucast (ucast b :: u32)"
    by simp
  moreover have "(ucast (ucast x :: u32) :: u8) = x" for x
    by (rule bit_word_eqI) (simp add: bit_simps)
  ultimately show False
    using assms by simp
qed

text \<open>Block copies stay in range and can be read back.\<close>

definition onboard_range :: "int68 \<Rightarrow> int68 \<Rightarrow> 'c emu68 \<Rightarrow> bool" where
  "onboard_range dst sz s \<longleftrightarrow> unat dst < unat (memmsk s + 1) \<and> unat dst + unat sz \<le> unat (memmsk s + 1)"

lemma memptr_range:
  "emu68_memptr dst sz s =
    (if onboard_range dst sz s then (Some (MemPtr (unat dst)), s)
     else (None, emu68_error_add (InvalidRange dst (dst + sz) (memmsk s + 1)) s))"
proof -
  have "(memmsk s + 1 \<le> dst \<or> memmsk s + 1 < dst + sz \<or> dst + sz < dst) \<longleftrightarrow> \<not> onboard_range dst sz s"
  proof (cases "unat dst + unat sz < 2 ^ 64")
    case True
    then have "unat (dst + sz) = unat dst + unat sz"
      by (simp add: unat_word_ariths)
    then show ?thesis
      by (auto simp: onboard_range_def word_le_nat_alt word_less_nat_alt)
  next
    case False
    then have "unat (dst + sz) = unat dst + unat sz - 2 ^ 64"
      using unsigned_less [of dst, where 'a = nat] unsigned_less [of sz, where 'a = nat]
      by (simp add: unat_word_ariths mod_if)
    then have "dst + sz < dst"
      using False unsigned_less [of sz, where 'a = nat] unsigned_less [of dst, where 'a = nat]
      by (simp add: word_less_nat_alt)
    moreover have "\<not> onboard_range dst sz s"
      using False unsigned_less [of "memmsk s + 1", where 'a = nat] by (simp add: onboard_range_def)
    ultimately show ?thesis by simp
  qed
  then show ?thesis unfolding emu68_memptr_def Let_def by simp
qed

lemma memput_range:
  "emu68_memput dst src sz s =
    (if onboard_range dst sz s then (0, s\<lparr>mem := blit (take (unat sz) src) (unat dst) (mem s)\<rparr>)
     else (-1, emu68_error_add (InvalidRange dst (dst + sz) (memmsk s + 1)) s))"
  by (simp add: emu68_memput_def memptr_range host_copy_def)

lemma memget_after_memput:
  assumes p: "emu68_memput dst src sz s = (0, t)" and l: "unat sz \<le> length src"
  shows "emu68_memget dst sz t = (0, Some (take (unat sz) src), t)"
    and "i < unat dst \<or> unat dst + unat sz \<le> i \<Longrightarrow> mem t i = mem s i"
    and "unat dst + unat sz \<le> unat (memmsk s + 1)"
proof -
  have r: "onboard_range dst sz s" and t: "t = s\<lparr>mem := blit (take (unat sz) src) (unat dst) (mem s)\<rparr>"
    using p by (auto simp: memput_range split: if_splits)
  have "onboard_range dst sz t" using r by (simp add: onboard_range_def t)
  moreover have "map (mem t) [unat dst..<unat dst + unat sz] = take (unat sz) src"
    using l by (intro nth_equalityI) (simp_all add: t blit_def)
  ultimately show "emu68_memget dst sz t = (0, Some (take (unat sz) src), t)"
    by (simp add: emu68_memget_def memptr_range)
  show "i < unat dst \<or> unat dst + unat sz \<le> i \<Longrightarrow> mem t i = mem s i"
    using l by (auto simp: t blit_def)
  show "unat dst + unat sz \<le> unat (memmsk s + 1)" using r by (simp add: onboard_range_def)
qed

end
