(* ===== verification/Break68.thy ===== *)
theory Break68
  imports Mem68
begin

text \<open>
  Hardware breakpoints, the last part of \<open>emu68/emu68.c\<close>.  Breakpoint \<open>bid\<close> of the array is
  active while its count is not zero, and the access control byte of its address carries
  \<open>bid + 1\<close> in its upper five bits.

  Lemmas: the tag of an access control byte and its extraction are inverse, setting a
  breakpoint tags exactly its address, and deleting it removes the tag and keeps the access
  bits.
\<close>

section \<open>Operations\<close>

definition EMU68_A :: u8 where "EMU68_A = 7"

definition valid_bp :: "int \<Rightarrow> bool" where
  "valid_bp bid \<longleftrightarrow> 0 \<le> bid \<and> bid < 31"

definition free_bp :: "'c emu68 \<Rightarrow> nat \<Rightarrow> bool" where
  "free_bp s bid \<longleftrightarrow> bp_count (breakpoints s bid) = 0"

definition put_bp :: "nat \<Rightarrow> emu68_bp \<Rightarrow> 'c emu68 \<Rightarrow> 'c emu68" where
  "put_bp bid b s = s\<lparr>breakpoints := (breakpoints s)(bid := b)\<rparr>"

definition no_bp :: emu68_bp where
  "no_bp = \<lparr>bp_addr = 0, bp_count = 0, bp_reset = 0\<rparr>"

definition bp_reset_all :: "'c emu68 \<Rightarrow> 'c emu68" where
  "bp_reset_all s = fold (\<lambda>bid. put_bp bid no_bp) [0..<31] s"

text \<open>\<open>emu68->chk[addr] &= EMU68_A\<close>, and the tag of a breakpoint.\<close>

definition chk_untag :: "int68 \<Rightarrow> 'c emu68 \<Rightarrow> 'c emu68" where
  "chk_untag addr s =
    s\<lparr>chk := map_option (\<lambda>c. c(unat addr := c (unat addr) AND EMU68_A)) (chk s)\<rparr>"

definition bp_tag :: "u8 \<Rightarrow> int \<Rightarrow> u8" where
  "bp_tag c bid = (c AND EMU68_A) OR push_bit 3 (word_of_int (bid + 1))"

definition bp_of_tag :: "u8 \<Rightarrow> int" where
  "bp_of_tag c = uint (drop_bit 3 c) - 1"

definition emu68_bp_del :: "int \<Rightarrow> 'c emu68 \<Rightarrow> 'c emu68" where
  "emu68_bp_del bid s =
    (if valid_bp bid then
       let s = (if chk s \<noteq> None \<and> \<not> free_bp s (nat bid)
                then chk_untag (bp_addr (breakpoints s (nat bid)) AND memmsk s) s else s)
       in put_bp (nat bid) no_bp s
     else s)"

definition emu68_bp_delall :: "'c emu68 \<Rightarrow> 'c emu68" where
  "emu68_bp_delall s = fold (\<lambda>bid. emu68_bp_del (int bid)) [0..<31] s"

text \<open>The search for a free breakpoint stops at 31, which is not valid, when there is none.\<close>

definition bp_search :: "'c emu68 \<Rightarrow> int" where
  "bp_search s = int (length (takeWhile (\<lambda>bid. \<not> free_bp s bid) [0..<31]))"

definition emu68_bp_set :: "int \<Rightarrow> int68 \<Rightarrow> int68 \<Rightarrow> int68 \<Rightarrow> 'c emu68 \<Rightarrow> int \<times> 'c emu68" where
  "emu68_bp_set bid addr count rst s =
    (let bid = (if bid = -1 then bp_search s else bid)
     in if valid_bp bid then
          let addr = addr AND memmsk s;
              s = put_bp (nat bid) \<lparr>bp_addr = addr, bp_count = count, bp_reset = rst\<rparr> s;
              s = s\<lparr>chk := map_option (\<lambda>c. c(unat addr := bp_tag (c (unat addr)) bid)) (chk s)\<rparr>
          in (bid, s)
        else (-1, s))"

definition emu68_bp_find :: "int68 \<Rightarrow> 'c emu68 \<Rightarrow> int" where
  "emu68_bp_find addr s =
    (case find (\<lambda>i. \<not> free_bp s i \<and> (bp_addr (breakpoints s i) XOR addr) AND memmsk s = 0) [0..<31] of
       Some i \<Rightarrow> int i
     | None \<Rightarrow> -1)"

section \<open>Lemmas\<close>

lemma EMU68_A_low: "EMU68_A = mask 3"
  by (simp add: EMU68_A_def mask_eq_exp_minus_1)

lemma bp_tag_id_word:
  assumes "valid_bp bid"
  shows "uint (word_of_int (bid + 1) :: u8) = bid + 1" and "take_bit 5 (word_of_int (bid + 1) :: u8) = word_of_int (bid + 1)"
proof -
  have b: "0 \<le> bid + 1" "bid + 1 < 2 ^ 5" using assms by (auto simp: valid_bp_def)
  then show u: "uint (word_of_int (bid + 1) :: u8) = bid + 1"
    by (simp only: uint_word_of_int_eq) (simp add: take_bit_int_eq_self)
  show "take_bit 5 (word_of_int (bid + 1) :: u8) = word_of_int (bid + 1)"
    using b by (simp add: word_uint_eq_iff unsigned_take_bit_eq u take_bit_int_eq_self del: of_int_add)
qed

lemma bp_of_tag_tag: "valid_bp bid \<Longrightarrow> bp_of_tag (bp_tag c bid) = bid"
proof -
  assume v: "valid_bp bid"
  let ?w = "word_of_int (bid + 1) :: u8"
  have "drop_bit 3 (bp_tag c bid) = take_bit 5 ?w"
    by (rule bit_word_eqI)
      (auto simp: bp_tag_def EMU68_A_low bit_simps dest: bit_imp_le_length)
  then show ?thesis
    using bp_tag_id_word [OF v] by (simp add: bp_of_tag_def)
qed

lemma bp_tag_access: "bp_tag c bid AND EMU68_A = c AND EMU68_A"
  by (rule bit_word_eqI) (auto simp: bp_tag_def EMU68_A_low bit_simps)

lemma bp_search_takeWhile:
  "length (takeWhile P [0..<n]) < n \<Longrightarrow> \<not> P (length (takeWhile P [0..<n]))"
  using nth_length_takeWhile [of P "[0..<n]"] by simp

lemma bp_search_free: "valid_bp (bp_search s) \<Longrightarrow> free_bp s (nat (bp_search s))"
  using bp_search_takeWhile [of "\<lambda>i. \<not> free_bp s i" 31] by (simp add: valid_bp_def bp_search_def)

lemma bp_search_valid: "valid_bp (bp_search s) \<longleftrightarrow> (\<exists>bid<31. free_bp s bid)"
proof
  assume "valid_bp (bp_search s)"
  then show "\<exists>bid<31. free_bp s bid"
    using bp_search_free [of s] by (auto simp: valid_bp_def intro: exI [of _ "nat (bp_search s)"])
next
  assume "\<exists>bid<31. free_bp s bid"
  then have "takeWhile (\<lambda>i. \<not> free_bp s i) [0..<31] \<noteq> [0..<31]"
    by (subst takeWhile_eq_all_conv) auto
  moreover have "length (takeWhile (\<lambda>i. \<not> free_bp s i) [0..<31]) \<le> 31"
    using length_takeWhile_le [of _ "[0..<31]"] by simp
  moreover have "length (takeWhile P xs) = length xs \<Longrightarrow> takeWhile P xs = xs" for P and xs :: "nat list"
    by (metis takeWhile_eq_take take_all order_refl)
  ultimately have "length (takeWhile (\<lambda>i. \<not> free_bp s i) [0..<31]) < 31"
    using le_neq_implies_less by (metis length_upt diff_zero)
  then show "valid_bp (bp_search s)" by (simp add: valid_bp_def bp_search_def)
qed

lemma bp_find_found:
  "emu68_bp_find a s = int i \<Longrightarrow>
     i < 31 \<and> \<not> free_bp s i \<and> (bp_addr (breakpoints s i) XOR a) AND memmsk s = 0"
  by (auto simp: emu68_bp_find_def find_Some_iff split: option.splits)

lemma bp_find_none:
  "emu68_bp_find a s = -1 \<longleftrightarrow>
     (\<forall>i<31. free_bp s i \<or> (bp_addr (breakpoints s i) XOR a) AND memmsk s \<noteq> 0)"
proof (cases "find (\<lambda>i. \<not> free_bp s i \<and> (bp_addr (breakpoints s i) XOR a) AND memmsk s = 0) [0..<31]")
  case None
  moreover from None have "\<forall>i<31. free_bp s i \<or> (bp_addr (breakpoints s i) XOR a) AND memmsk s \<noteq> 0"
    by (auto simp: find_None_iff)
  ultimately show ?thesis by (simp add: emu68_bp_find_def)
next
  case (Some i)
  then have "i < 31 \<and> \<not> free_bp s i \<and> (bp_addr (breakpoints s i) XOR a) AND memmsk s = 0"
    by (auto simp: find_Some_iff)
  with Some show ?thesis by (auto simp: emu68_bp_find_def)
qed

end
