(* ===== verification/Ioplug68.thy ===== *)
theory Ioplug68
  imports Mem68
begin

text \<open>
  The chip manager, \<open>emu68/ioplug68.c\<close>.  The list threaded through the \<open>next\<close> pointers of
  the plugged chips is the list \<open>iohead\<close> of their names, and the address ranges of a chip
  are looked up in the environment.  A chip is in the list once: the source asserts that a chip
  that is plugged has no successor and that its areas are free, and plugging one that is in the
  list would close a cycle of \<open>next\<close> pointers.  \<open>emu68_ioplug\<close> has no result then.
  Destroying a chip is left to its own destructor and is not modelled.

  Lemmas: the mapping table after plugging and unplugging, the correspondence between the
  list and its counter, and when unplugging undoes plugging.
\<close>

section \<open>Operations\<close>

definition do_io_unplug :: "'c env68 \<Rightarrow> nat \<Rightarrow> 'c emu68 \<Rightarrow> 'c emu68" where
  "do_io_unplug E i s =
    (let ioline = io_area (addr_lo (ios E i))
     in emu68_mem_reset_area ioline s)"

definition emu68_ioplug_unplug_all :: "'c env68 \<Rightarrow> 'c emu68 \<Rightarrow> 'c emu68" where
  "emu68_ioplug_unplug_all E s =
    (let s = fold (do_io_unplug E) (iohead s) s;
         s = s\<lparr>iohead := []\<rparr>
     in s\<lparr>nio := 0\<rparr>)"

text \<open>The search of \<open>emu68_ioplug_unplug\<close>; \<open>None\<close> is a null chip pointer.\<close>

fun unlink_io :: "nat \<Rightarrow> nat list \<Rightarrow> nat list option" where
  "unlink_io i [] = None"
| "unlink_io i (j # js) =
    (if j = i then Some js else map_option (Cons j) (unlink_io i js))"

definition emu68_ioplug_unplug :: "'c env68 \<Rightarrow> nat option \<Rightarrow> 'c emu68 \<Rightarrow> int \<times> 'c emu68" where
  "emu68_ioplug_unplug E this_io s =
    (case this_io of
       None \<Rightarrow> (0, s)
     | Some i \<Rightarrow>
        (case unlink_io i (iohead s) of
           None \<Rightarrow> (-1, s)
         | Some js \<Rightarrow>
             let s = s\<lparr>iohead := js\<rparr>;
                 s = s\<lparr>nio := nio s - 1\<rparr>
             in (0, do_io_unplug E i s)))"

definition io_areas :: "'c io68 \<Rightarrow> nat list" where
  "io_areas io = [io_area (addr_lo io) ..< io_area (addr_hi io) + 1]"

definition emu68_ioplug :: "'c env68 \<Rightarrow> nat \<Rightarrow> 'c emu68 \<Rightarrow> 'c emu68 option" where
  "emu68_ioplug E i s =
    (if i \<in> set (iohead s) then None
     else
       let s = s\<lparr>iohead := i # iohead s\<rparr>;
           s = s\<lparr>nio := nio s + 1\<rparr>
       in Some (fold (\<lambda>a s. s\<lparr>mapped_io := (mapped_io s)(a := Plug i)\<rparr>) (io_areas (ios E i)) s))"

section \<open>Lemmas\<close>

lemma fold_map_areas:
  "fold (\<lambda>a s. s\<lparr>mapped_io := (mapped_io s)(a := p)\<rparr>) as s =
    s\<lparr>mapped_io := (\<lambda>a. if a \<in> set as then p else mapped_io s a)\<rparr>"
proof (induction as arbitrary: s)
  case (Cons b as)
  show ?case
    unfolding fold.simps comp_def Cons by (rule emu68.equality) (auto simp: fun_eq_iff)
qed simp

lemma ioplug_eq:
  "emu68_ioplug E i s =
    (if i \<in> set (iohead s) then None
     else Some (s\<lparr>iohead := i # iohead s, nio := nio s + 1,
       mapped_io := (\<lambda>a. if a \<in> set (io_areas (ios E i)) then Plug i else mapped_io s a)\<rparr>))"
proof (cases "i \<in> set (iohead s)")
  case False
  then show ?thesis
    unfolding emu68_ioplug_def Let_def fold_map_areas
    by simp (rule emu68.equality; simp add: fun_eq_iff)
qed (simp add: emu68_ioplug_def)

lemma unlink_io_remove1:
  "unlink_io i js = (if i \<in> set js then Some (remove1 i js) else None)"
  by (induction js) auto

lemma fold_do_io_unplug:
  "fold (do_io_unplug E) is s =
    s\<lparr>mapped_io := (\<lambda>a. if \<exists>i\<in>set is. a = io_area (addr_lo (ios E i))
        then (if chk s \<noteq> None then ErrIO else NopIO) else mapped_io s a)\<rparr>"
proof (induction "is" arbitrary: s)
  case (Cons j js)
  show ?case
    unfolding fold.simps comp_def Cons
    unfolding do_io_unplug_def emu68_mem_reset_area_def Let_def
    by (rule emu68.equality) (auto simp: fun_eq_iff)
qed simp

text \<open>The list and its counter.\<close>

definition io_count_ok :: "'c emu68 \<Rightarrow> bool" where
  "io_count_ok s \<longleftrightarrow> nio s = int (length (iohead s)) \<and> distinct (iohead s)"

lemma io_count_ioplug:
  "io_count_ok s \<Longrightarrow> emu68_ioplug E i s = Some t \<Longrightarrow> io_count_ok t"
  by (auto simp: io_count_ok_def ioplug_eq split: if_splits)

lemma io_count_unplug:
  "io_count_ok s \<Longrightarrow> io_count_ok (snd (emu68_ioplug_unplug E io s))"
  by (auto simp: io_count_ok_def emu68_ioplug_unplug_def unlink_io_remove1 do_io_unplug_def
      emu68_mem_reset_area_def Let_def length_remove1 distinct_remove1
      of_nat_diff [OF Suc_leI [OF length_pos_if_in_set]] split: option.split)

lemma io_count_unplug_all: "io_count_ok (emu68_ioplug_unplug_all E s)"
  by (simp add: io_count_ok_def emu68_ioplug_unplug_all_def Let_def)

text \<open>The default mapping of an area.\<close>

definition area_free :: "'c emu68 \<Rightarrow> nat \<Rightarrow> bool" where
  "area_free s a \<longleftrightarrow> mapped_io s a = (if chk s \<noteq> None then ErrIO else NopIO)"

lemma ioplug_unplug_eq:
  "emu68_ioplug E i s = Some t \<Longrightarrow> emu68_ioplug_unplug E (Some i) t =
    (0, s\<lparr>mapped_io := (\<lambda>a. if a = io_area (addr_lo (ios E i))
        then (if chk s \<noteq> None then ErrIO else NopIO)
        else if a \<in> set (io_areas (ios E i)) then Plug i else mapped_io s a)\<rparr>)"
  by (cases "i \<in> set (iohead s)")
    (auto simp: ioplug_eq emu68_ioplug_unplug_def do_io_unplug_def emu68_mem_reset_area_def fun_eq_iff
      intro!: emu68.equality)

text \<open>An access inside the areas of a plugged chip reaches it; any other address is served as before.\<close>

lemma ioplug_routes:
  assumes "emu68_ioplug E i s = Some t" "mem68_is_io a" "io_area a \<in> set (io_areas (ios E i))"
  shows "mem68_read E sz (t\<lparr>bus_addr := a\<rparr>) = io_read (ios E i) sz (t\<lparr>bus_addr := a\<rparr>)"
    and "mem68_write E sz (t\<lparr>bus_addr := a\<rparr>) = io_write (ios E i) sz (t\<lparr>bus_addr := a\<rparr>)"
  using assms by (auto simp: mem68_read_def mem68_write_def ioplug_eq split: if_splits)

end
