(* ===== verification/Exec68.thy ===== *)
theory Exec68
  imports Api68 Break68 Ioplug68
begin

text \<open>
  Execution (\<open>emu68/emu68.c\<close>): fetching, decoding and dispatching one instruction
  (\<open>step68\<close>), the same with the controls of debug mode and the instruction countdown
  (\<open>controlled_step68\<close>), the run loop, the entry points \<open>emu68_step\<close>, \<open>emu68_finish\<close> and
  \<open>emu68_interrupt\<close>, and the creation and reset of an emulator.

  The run loop of the source may go on for ever; \<open>loop68\<close> is a partial function whose value
  is \<open>None\<close> then.

  Lemmas: the decoder splits an opcode word into its fields and stays inside the dispatch
  table; what a controlled step leaves alone; with an instruction countdown the loop ends.
\<close>

section \<open>One instruction\<close>

definition step68 :: "'c env68 \<Rightarrow> 'c emu68 \<Rightarrow> 'c emu68" where
  "step68 E s =
    (let s = s\<lparr>inst_pc := pc s\<rparr>;
         s = s\<lparr>inst_sr := sr s\<rparr>;
         s = (if inst_sr s AND lo32 SR_T \<noteq> 0 then exception68 E TRACE_VECTOR (-1) s else s)
     in if inst_sr s AND lo32 SR_T \<noteq> 0 \<and> status s \<noteq> EMU68_NRM then s
        else
          let i = unat (sx (pc s) AND (memmsk s AND NOT 1));
              s = set_pc (pc s + 2) s;
              opw = push_bit 8 (ucast (mem s i)) OR ucast (mem s (i + 1)) :: s32;
              line = opw AND 0xF000;
              opw = opw - line;
              reg9 = opw AND 0xE00;
              opw = opw - reg9;
              reg9 = signed_drop_bit 9 reg9;
              line = line OR push_bit 3 opw;
              line = signed_drop_bit 6 line;
              opw = opw AND 7
          in line_func E (unat line) (unat reg9) (unat opw) s)"

text \<open>The debug controls before an instruction; the result tells whether it is executed.\<close>

definition HWBREAK_VECTOR :: nat where "HWBREAK_VECTOR = 0x100"

definition hw_break68 :: "'c env68 \<Rightarrow> int68 \<Rightarrow> nat \<Rightarrow> 'c emu68 \<Rightarrow> 'c emu68" where
  "hw_break68 E addr bid s =
    (let b = breakpoints s bid;
         s = put_bp bid (b\<lparr>bp_count := bp_count b - 1\<rparr>) s
     in if bp_count b - 1 = 0 then
          let s = put_bp bid (b\<lparr>bp_count := bp_reset b\<rparr>) s;
              s = (if bp_reset b = 0 then chk_untag addr s else s)
          in exception68 E (HWBREAK_VECTOR + bid) (-1) s
        else s)"

definition debug68 :: "'c env68 \<Rightarrow> 'c emu68 \<Rightarrow> 'c emu68" where
  "debug68 E s =
    (let s = exception68 E HWTRACE_VECTOR (-1) s
     in if status s \<noteq> EMU68_NRM then s
        else
          let addr = sx (pc s) AND memmsk s;
              bid = bp_of_tag (the (chk s) (unat addr));
              s = (if valid_bp bid \<and> bp_count (breakpoints s (nat bid)) \<noteq> 0
                   then hw_break68 E addr (nat bid) s else s)
          in if status s \<noteq> EMU68_NRM then s
             else chkframe (sx (pc s)) EMU68_X s)"

definition controlled_step68 :: "'c env68 \<Rightarrow> 'c emu68 \<Rightarrow> 'c emu68" where
  "controlled_step68 E s =
    (let debug = chk s \<noteq> None;
         s = (if debug then debug68 E s else s)
     in if debug \<and> status s \<noteq> EMU68_NRM then s
        else
          let s = step68 E s
          in if instructions s \<noteq> 0 then
               let s = s\<lparr>instructions := instructions s - 1\<rparr>
               in if instructions s = 0 \<and> status s = EMU68_NRM then
                    let s = s\<lparr>status := EMU68_BRK\<rparr>
                    in exception68 E HWINSTOV_VECTOR (-1) s
                  else s
             else s)"

section \<open>The run loop and the entry points\<close>

partial_function (option) loop68 :: "'c env68 \<Rightarrow> 'c emu68 \<Rightarrow> 'c emu68 option" where
  "loop68 E s =
    (let s = controlled_step68 E s
     in if status s = EMU68_NRM \<and> sx (areg s 7) \<le>s finish_sp s then loop68 E s else Some s)"

definition EMU68_STEP :: int68 where "EMU68_STEP = 0"
definition EMU68_CONT :: int68 where "EMU68_CONT = -1"

definition emu68_step :: "'c env68 \<Rightarrow> int68 \<Rightarrow> 'c emu68 \<Rightarrow> status68 \<times> 'c emu68" where
  "emu68_step E inst s =
    (let s = (if inst = EMU68_STEP then s\<lparr>frm_chk_fl := 0, status := EMU68_NRM\<rparr> else s);
         st = status s;
         s = (if st = EMU68_NRM then controlled_step68 E s else s)
     in if st = EMU68_NRM \<or> st = EMU68_BRK \<or> st = EMU68_STP \<or> st = EMU68_HLT then (status s, s)
        else (EMU68_ERR, s))"

text \<open>The loop over the chips that moves their cycle base.\<close>

fun adjust_chips :: "'c env68 \<Rightarrow> nat list \<Rightarrow> 'c emu68 \<Rightarrow> 'c emu68 option" where
  "adjust_chips E [] s = Some s"
| "adjust_chips E (io # is) s =
    Option.bind (io_adjust_cycle (ios E io) (cycle s) s) (adjust_chips E is)"

definition emu68_finish :: "'c env68 \<Rightarrow> int68 \<Rightarrow> 'c emu68 \<Rightarrow> 'c emu68 option" where
  "emu68_finish E n s =
    (let s = (if n \<noteq> EMU68_CONT then
                s\<lparr>finish_sp := sx (areg s 7), frm_chk_fl := 0, instructions := n\<rparr>
              else s)
     in Option.bind
          (if cycle s \<noteq> 0 then
             Option.bind (adjust_chips E (iohead s) s) (\<lambda>s. Some (s\<lparr>cycle := 0\<rparr>))
           else Some s)
          (\<lambda>s. loop68 E (s\<lparr>status := EMU68_NRM\<rparr>)))"

text \<open>
  The interrupt loop on the chip \<open>io\<close>.  Only the inner conditional depends on the outer one
  in \<open>if (status != NRM) if (status == BRK) status = NRM\<close>.
\<close>

definition take_interrupt68 :: "'c env68 \<Rightarrow> interrupt68 \<Rightarrow> 'c emu68 \<Rightarrow> 'c emu68 option" where
  "take_interrupt68 E t s =
    (let s = exception68 E (int_vector t) (int (int_level t)) s;
         s = (if status s \<noteq> EMU68_NRM
              then (if status s = EMU68_BRK then s\<lparr>status := EMU68_NRM\<rparr> else s) else s);
         s = s\<lparr>finish_sp := sx (areg s 7)\<rparr>
     in loop68 E s)"

partial_function (option) interrupts68 :: "'c env68 \<Rightarrow> int68 \<Rightarrow> nat \<Rightarrow> 'c emu68 \<Rightarrow> 'c emu68 option" where
  "interrupts68 E cpp io s =
    (let ipl = GET_IPL (sr s)
     in Option.bind (io_interrupt (ios E io) cpp s) (\<lambda>(it, s).
          case it of
            None \<Rightarrow> Some s
          | Some t \<Rightarrow>
              let s = s\<lparr>cycle := int_cycle t\<rparr>
              in if unat ipl < int_level t
                 then Option.bind (take_interrupt68 E t s) (interrupts68 E cpp io)
                 else interrupts68 E cpp io s))"

definition emu68_interrupt :: "'c env68 \<Rightarrow> int68 \<Rightarrow> 'c emu68 \<Rightarrow> 'c emu68 option" where
  "emu68_interrupt E cpp s =
    (let s = s\<lparr>status := EMU68_NRM\<rparr>
     in Option.bind (case interrupt_io s of None \<Rightarrow> Some s | Some io \<Rightarrow> interrupts68 E cpp io s)
          (\<lambda>s. Some (s\<lparr>cycle := cpp\<rparr>)))"

definition emu68_debugmode :: "'c emu68 \<Rightarrow> int" where
  "emu68_debugmode s = of_bool (chk s \<noteq> None)"

section \<open>Reset and creation\<close>

text \<open>Neither the memory nor the private I/Os have a reset function.\<close>

definition emu68_reset :: "'c env68 \<Rightarrow> 'c emu68 \<Rightarrow> 'c emu68" where
  "emu68_reset E s =
    (let s = fold (\<lambda>io. io_reset (ios E io)) (iohead s) s;
         s = (case memio s of Some (Plug i) \<Rightarrow> io_reset (ios E i) s | _ \<Rightarrow> s);
         s = bp_reset_all s;
         s = fold (\<lambda>i. set_dreg i 0) [0..<16] s;
         s = set_pc 0 s;
         s = set_sr 0x2700 s;
         s = set_areg 7 (lo32 (memmsk s + 1 - 4)) s;
         s = set_usp (areg s 7) s;
         s = s\<lparr>err := []\<rparr>;
         s = s\<lparr>cycle := 0\<rparr>;
         s = s\<lparr>frm_chk_fl := 0\<rparr>;
         s = s\<lparr>instructions := 0\<rparr>;
         s = s\<lparr>finish_sp := -1\<rparr>;
         s = s\<lparr>status := EMU68_NRM\<rparr>;
         s = s\<lparr>inst_pc := -1\<rparr>;
         s = s\<lparr>inst_sr := inst_pc s\<rparr>;
         s = s\<lparr>chk := map_option (\<lambda>c i. if i \<le> unat (memmsk s) then 0 else c i) (chk s)\<rparr>
     in exception68 E HWINIT_VECTOR (-1) s)"

record emu68_parms =
  p_log2mem :: int
  p_clock :: s32
  p_debug :: bool

definition EMU68_ATARIST_CLOCK :: s32 where
  "EMU68_ATARIST_CLOCK = 8010613 AND NOT 3"

definition def_parms :: emu68_parms where
  "def_parms = \<lparr>p_log2mem = 20, p_clock = EMU68_ATARIST_CLOCK, p_debug = False\<rparr>"

text \<open>
  \<open>emu68_create\<close>: \<open>alloc\<close> is \<open>emu68_alloc\<close>, from the size asked for behind the structure to what
  the uninitialised tail of the allocation holds (the onboard memory and the access control memory),
  or \<open>None\<close> when there is no memory; \<open>c\<close> is the state of the chips, which is outside the structure.
  The structure itself is cleared, with the first 32 bytes of
  the onboard memory that belong to it; its null \<open>mapped_io\<close> pointers are all set by
  \<open>emu68_mem_init\<close>.
\<close>

definition emu68_create ::
    "'c env68 \<Rightarrow> emu68_parms option \<Rightarrow> (s32 \<Rightarrow> ((nat \<Rightarrow> u8) \<times> (nat \<Rightarrow> u8)) option) \<Rightarrow> 'c \<Rightarrow> 'c emu68 option" where
  "emu68_create E parms alloc c =
    (let p = (case parms of Some p \<Rightarrow> p | None \<Rightarrow> def_parms);
         p = (if p_log2mem p = 0 then p\<lparr>p_log2mem := p_log2mem def_parms\<rparr> else p)
     in if p_log2mem p < 16 \<or> 24 < p_log2mem p then None
        else
          let p = (if p_clock p = 0 then p\<lparr>p_clock := p_clock def_parms\<rparr> else p)
          in if p_clock p < 500000 \<or> 60000000 < p_clock p then None
             else
               let memsize = push_bit (nat (p_log2mem p)) 1 :: s32
               in case alloc (push_bit (if p_debug p then 1 else 0) memsize) of None \<Rightarrow> None
                | Some (raw, chk0) \<Rightarrow>
               let s = \<lparr>err = [], reg = \<lparr>reg_d = (\<lambda>_. 0), reg_usp = 0, reg_pc = 0, reg_sr = 0\<rparr>,
                        inst_pc = 0, inst_sr = 0, cycle = 0, clock = sx (p_clock p),
                        handler = None, cookie = 0, status = EMU68_NRM, instructions = 0,
                        finish_sp = 0, nio = 0, iohead = [], interrupt_io = None,
                        mapped_io = (\<lambda>_. NopIO), memio = None, bus_addr = 0, bus_data = 0,
                        frm_chk_fl = 0, fst_chk = \<lparr>ck_pc = 0, ck_ad = 0, ck_fl = 0\<rparr>,
                        lst_chk = \<lparr>ck_pc = 0, ck_ad = 0, ck_fl = 0\<rparr>,
                        chk = (if p_debug p then Some chk0 else None),
                        breakpoints = (\<lambda>_. no_bp), memmsk = sx (memsize - 1),
                        log2mem = nat (p_log2mem p),
                        mem = (\<lambda>i. if i < 32 then 0 else raw i), chips = c\<rparr>;
                   s = emu68_mem_init s
               in Some (emu68_reset E s))"

section \<open>Decoding\<close>

lemma minus_and: "x - (x AND m) = x AND NOT m" for x m :: "'a::len word"
proof -
  have "(x AND m) + (x AND NOT m) = (x AND m) OR (x AND NOT m)"
    by (rule disjunctive_add) (simp add: bit_simps)
  also have "\<dots> = x" by (rule bit_word_eqI) (auto simp: bit_simps)
  finally show ?thesis by (simp add: diff_eq_eq add.commute)
qed
lemma opcode_masks: "(0xF000::s32) = push_bit 12 (mask 4)"  "(0xE00::s32) = push_bit 9 (mask 3)" "(7::s32) = mask 3"
  by (simp_all add: mask_eq_exp_minus_1)
lemma decode_bits:
  fixes w :: s32
  assumes w: "take_bit 16 w = w"
  defines "opw \<equiv> w - (w AND 0xF000)"
  defines "op \<equiv> opw - (opw AND 0xE00)"
  shows "signed_drop_bit 6 ((w AND 0xF000) OR push_bit 3 op) =
     push_bit 6 (take_bit 4 (drop_bit 12 w)) OR take_bit 6 (drop_bit 3 w)"
    and "signed_drop_bit 9 (opw AND 0xE00) = take_bit 3 (drop_bit 9 w)"
    and "op AND 7 = take_bit 3 w"
proof -
  have b: "bit w k \<Longrightarrow> k < 16" for k using w by (metis bit_take_bit_iff)
  show "signed_drop_bit 6 ((w AND 0xF000) OR push_bit 3 op) =
     push_bit 6 (take_bit 4 (drop_bit 12 w)) OR take_bit 6 (drop_bit 3 w)"
    unfolding op_def opw_def minus_and opcode_masks
    by (rule bit_word_eqI) (auto simp: bit_simps min_def dest: b)
  show "signed_drop_bit 9 (opw AND 0xE00) = take_bit 3 (drop_bit 9 w)"
    unfolding op_def opw_def minus_and opcode_masks
    by (rule bit_word_eqI) (auto simp: bit_simps min_def dest: b)
  show "op AND 7 = take_bit 3 w"
    unfolding op_def opw_def minus_and opcode_masks
    by (rule bit_word_eqI) (auto simp: bit_simps min_def dest: b)
qed

lemma decode68:
  fixes w :: s32
  assumes w: "unat w < 65536"
  defines "opw \<equiv> w - (w AND 0xF000)"
  defines "op \<equiv> opw - (opw AND 0xE00)"
  shows "unat (signed_drop_bit 6 ((w AND 0xF000) OR push_bit 3 op)) =
      64 * (unat w div 4096) + unat w div 8 mod 64"
    and "unat (signed_drop_bit 9 (opw AND 0xE00)) = unat w div 512 mod 8"
    and "unat (op AND 7) = unat w mod 8"
proof -
  have t: "take_bit 16 w = w"
    using w by (simp add: word_unat_eq_iff unsigned_take_bit_eq take_bit_nat_eq_self)
  note d = decode_bits [OF t, folded opw_def, folded op_def]
  have "push_bit 6 (take_bit 4 (drop_bit 12 w)) OR take_bit 6 (drop_bit 3 w) =
        push_bit 6 (take_bit 4 (drop_bit 12 w)) + take_bit 6 (drop_bit 3 w)"
    by (rule disjunctive_add [symmetric]) (auto simp: bit_simps)
  moreover have "unat (push_bit 6 (take_bit 4 (drop_bit 12 w)) + take_bit 6 (drop_bit 3 w)) =
      64 * (unat w div 4096) + unat w div 8 mod 64"
  proof -
    let ?a = "push_bit 6 (take_bit 4 (drop_bit 12 w))" and ?b = "take_bit 6 (drop_bit 3 w)"
    have q: "unat w div 4096 mod 16 = unat w div 4096"
      using w by simp
    have a: "unat ?a = 64 * (unat w div 4096)"
      unfolding unsigned_push_bit_eq unsigned_take_bit_eq unsigned_drop_bit_eq
      unfolding take_bit_eq_mod drop_bit_eq_div push_bit_eq_mult
      using w by (simp add: q)
    have b: "unat ?b = unat w div 8 mod 64"
      unfolding unsigned_take_bit_eq unsigned_drop_bit_eq
      unfolding take_bit_eq_mod drop_bit_eq_div using w by simp
    have "unat ?a + unat ?b < 2 ^ 32"
      unfolding a b using w by simp
    then show ?thesis
      using unat_word_ariths(1) [of ?a ?b] unfolding a b by simp
  qed
  ultimately show "unat (signed_drop_bit 6 ((w AND 0xF000) OR push_bit 3 op)) =
      64 * (unat w div 4096) + unat w div 8 mod 64"
    using d(1) by simp
  show "unat (signed_drop_bit 9 (opw AND 0xE00)) = unat w div 512 mod 8"
    unfolding d(2) unsigned_take_bit_eq unsigned_drop_bit_eq
    unfolding take_bit_eq_mod drop_bit_eq_div using w by simp
  show "unat (op AND 7) = unat w mod 8"
    unfolding d(3) unsigned_take_bit_eq
    unfolding take_bit_eq_mod by simp
qed
section \<open>What execution leaves alone\<close>

text \<open>
  The frame of the run loop: that of an instruction, but the countdown, the breakpoint counts
  (not their addresses) and the stack pointer a run ends at may change.
\<close>

definition run68 :: "('c \<Rightarrow> bool) \<Rightarrow> 'c emu68 \<Rightarrow> 'c emu68 \<Rightarrow> bool" where
  "run68 I s t \<longleftrightarrow>
     frame68 I s (t\<lparr>instructions := instructions s, breakpoints := breakpoints s,
                  finish_sp := finish_sp s\<rparr>) \<and>
     (\<forall>bid. bp_addr (breakpoints t bid) = bp_addr (breakpoints s bid))"

lemma run68_frame: "frame68 I s t \<Longrightarrow> run68 I s t"
  by (simp add: run68_def frame68_def)

lemma run68_refl [simp]: "run68 I s s"
  by (rule run68_frame) simp

lemma run68_trans [trans]: "run68 I s t \<Longrightarrow> run68 I t u \<Longrightarrow> run68 I s u"
  by (simp add: run68_def frame68_def)

lemma run68_updates:
  "run68 I s t \<Longrightarrow> run68 I s (t\<lparr>instructions := n\<rparr>)"
  "run68 I s t \<Longrightarrow> bp_addr b = bp_addr (breakpoints t k) \<Longrightarrow> run68 I s (put_bp k b t)"
  "run68 I s t \<Longrightarrow> run68 I s (t\<lparr>finish_sp := a\<rparr>)"
  "run68 I s t \<Longrightarrow> run68 I s (t\<lparr>status := st\<rparr>)"
  "run68 I s t \<Longrightarrow> run68 I s (t\<lparr>cycle := n\<rparr>)"
  "run68 I s t \<Longrightarrow> run68 I s (t\<lparr>frm_chk_fl := fl\<rparr>)"
  by (simp_all add: run68_def frame68_def put_bp_def)

lemma run68_untag: "run68 I s t \<Longrightarrow> run68 I s (chk_untag (a AND memmsk t) t)"
proof (erule run68_trans)
  have "unat (a AND memmsk t) \<le> unat (memmsk t)"
    by (simp add: word_and_le1 flip: word_le_nat_alt)
  then show "run68 I t (chk_untag (a AND memmsk t) t)"
    by (cases "chk t") (auto simp: run68_def frame68_def chk_untag_def)
qed

lemma run68_then: "run68 I s t \<Longrightarrow> frame68 I t u \<Longrightarrow> run68 I s u"
  by (blast intro: run68_trans run68_frame)

lemma put_bp_fields [simp]:
  "memmsk (put_bp k b s) = memmsk s" "breakpoints (put_bp k b s) = (breakpoints s)(k := b)"
  by (simp_all add: put_bp_def)

lemma byte_pair_bound: "unat (push_bit 8 (ucast a) OR ucast b :: s32) < 65536" for a b :: u8
proof -
  let ?w = "push_bit 8 (ucast a) OR ucast b :: s32"
  have "take_bit 16 ?w = ?w"
    by (rule bit_word_eqI) (auto simp: bit_simps dest: bit_imp_le_length)
  moreover have "unat (take_bit 16 ?w) = take_bit 16 (unat ?w)"
    by (rule unsigned_take_bit_eq)
  ultimately have "unat ?w = unat ?w mod 2 ^ 16"
    by (simp only: take_bit_eq_mod)
  moreover have "n mod 2 ^ 16 < 65536" for n :: nat by simp
  ultimately show ?thesis by metis
qed

lemma dispatch_bound: "n < 65536 \<Longrightarrow> 64 * (n div 4096) + n div 8 mod 64 < (1024 :: nat)"
proof -
  assume "n < 65536"
  then have "n div 4096 \<le> 15" by simp
  moreover have "n div 8 mod 64 \<le> 63"
    using mod_less_divisor [of 64 "n div 8"] by simp
  ultimately show ?thesis by simp
qed

context env_frame
begin

lemma step_frame [frame_intros]: "frame68 I s t \<Longrightarrow> frame68 I s (step68 E t)"
proof -
  have idx: "unat (signed_drop_bit 6 ((w AND 0xF000) OR
        push_bit 3 (w - (w AND 0xF000) - ((w - (w AND 0xF000)) AND 0xE00)))) < 1024"
    if "w = push_bit 8 (ucast a) OR ucast b" for w :: s32 and a b :: u8
    unfolding that using dispatch_bound decode68(1) byte_pair_bound by metis
  show "frame68 I s t \<Longrightarrow> frame68 I s (step68 E t)"
    unfolding step68_def Let_def
    by (auto intro!: frame_intros idx)
qed

lemma run_exception: "run68 I s t \<Longrightarrow> run68 I s (exception68 E v l t)"
  by (rule run68_then [OF _ exception_frame [OF frame68_refl]])

lemma run_step: "run68 I s t \<Longrightarrow> run68 I s (step68 E t)"
  by (rule run68_then [OF _ step_frame [OF frame68_refl]])

lemma hw_break_run: "run68 I s t \<Longrightarrow> run68 I s (hw_break68 E (a AND memmsk t) k t)"
proof -
  have untag: "run68 I s u \<Longrightarrow> memmsk u = memmsk t \<Longrightarrow> run68 I s (chk_untag (a AND memmsk t) u)" for u
    using run68_untag [of I s u a] by simp
  show "run68 I s t \<Longrightarrow> run68 I s (hw_break68 E (a AND memmsk t) k t)"
    by (auto simp: hw_break68_def Let_def intro!: run_exception run68_updates untag)
qed

lemma debug_run: "run68 I s t \<Longrightarrow> run68 I s (debug68 E t)"
proof -
  assume t: "run68 I s t"
  define u where "u = exception68 E HWTRACE_VECTOR (-1) t"
  define a where "a = sx (pc u) AND memmsk u"
  define k where "k = bp_of_tag (the (chk u) (unat a))"
  define v where "v = (if valid_bp k \<and> bp_count (breakpoints u (nat k)) \<noteq> 0
    then hw_break68 E a (nat k) u else u)"
  have u: "run68 I s u" unfolding u_def using t by (rule run_exception)
  then have v: "run68 I s v" unfolding v_def a_def by (simp add: hw_break_run)
  have "debug68 E t = (if status u \<noteq> EMU68_NRM then u else
      if status v \<noteq> EMU68_NRM then v else chkframe (sx (pc v)) EMU68_X v)"
    unfolding debug68_def Let_def u_def v_def k_def a_def by (rule refl)
  then show ?thesis
    using u v run68_then [OF v chkframe_frame [OF frame68_refl]] by simp
qed

lemma controlled_run: "run68 I s t \<Longrightarrow> run68 I s (controlled_step68 E t)"
  unfolding controlled_step68_def Let_def
  by (auto intro!: run_exception run68_updates run_step debug_run)

lemma iterate_run: "run68 I s t \<Longrightarrow> run68 I s ((controlled_step68 E ^^ k) t)"
  by (induction k) (auto intro: controlled_run)

end

section \<open>The run loop\<close>

text \<open>The loop goes on after the state \<open>s\<close>.\<close>

definition running68 :: "'c emu68 \<Rightarrow> bool" where
  "running68 s \<longleftrightarrow> status s = EMU68_NRM \<and> sx (areg s 7) \<le>s finish_sp s"

lemma loop68_unfold:
  "loop68 E s =
    (if running68 (controlled_step68 E s) then loop68 E (controlled_step68 E s)
     else Some (controlled_step68 E s))"
  by (subst loop68.simps) (simp add: Let_def running68_def)

text \<open>A loop that ends has run one or more steps and stops at the first state not running.\<close>

lemma loop68_iterates:
  assumes "loop68 E s = Some u"
  shows "\<not> running68 u \<and> (\<exists>k. u = (controlled_step68 E ^^ Suc k) s)"
proof (rule loop68.raw_induct [where P = "\<lambda>E s u. \<not> running68 u \<and>
    (\<exists>k. u = (controlled_step68 E ^^ Suc k) s)", OF _ assms])
  fix loop E and s u :: "'b emu68"
  assume IH: "\<And>E s u. loop E s = Some u \<Longrightarrow>
      \<not> running68 u \<and> (\<exists>k. u = (controlled_step68 E ^^ Suc k) s)"
    and r: "(let s = controlled_step68 E s
      in if status s = EMU68_NRM \<and> sx (areg s 7) \<le>s finish_sp s then loop E s else Some s) = Some u"
  show "\<not> running68 u \<and> (\<exists>k. u = (controlled_step68 E ^^ Suc k) s)"
  proof (cases "running68 (controlled_step68 E s)")
    case True
    then have "loop E (controlled_step68 E s) = Some u"
      using r unfolding Let_def running68_def by simp
    then obtain k where "\<not> running68 u" "u = (controlled_step68 E ^^ Suc k) (controlled_step68 E s)"
      using IH by blast
    then show ?thesis by (auto simp: funpow_swap1 intro: exI [of _ "Suc k"])
  next
    case False
    then have "u = controlled_step68 E s"
      using r unfolding Let_def running68_def by (metis option.inject)
    with False show ?thesis by (auto intro: exI [of _ 0])
  qed
qed

context env_frame
begin

lemma loop_run: "loop68 E t = Some u \<Longrightarrow> run68 I s t \<Longrightarrow> run68 I s u"
  using iterate_run loop68_iterates by metis

lemma frame_instructions: "frame68 I s t \<Longrightarrow> instructions t = instructions s"
  by (simp add: frame68_def)

lemma exception_instructions [simp]: "instructions (exception68 E v l s) = instructions s"
  by (rule frame_instructions [OF exception_frame [OF frame68_refl]])

lemma step_instructions [simp]: "instructions (step68 E s) = instructions s"
  by (rule frame_instructions [OF step_frame [OF frame68_refl]])

lemma debug_instructions [simp]: "instructions (debug68 E s) = instructions s"
  by (simp add: debug68_def hw_break68_def Let_def put_bp_def chk_untag_def
      frame_instructions [OF chkframe_frame [OF frame68_refl]])

lemma controlled_countdown:
  "instructions s \<noteq> 0 \<Longrightarrow> status (controlled_step68 E s) = EMU68_NRM \<Longrightarrow>
    instructions (controlled_step68 E s) = instructions s - 1"
  by (auto simp: controlled_step68_def Let_def split: if_splits)

end

text \<open>
  The contract of a handler that does not resume a run the instruction countdown has broken.
\<close>

locale env_stops = env_frame +
  assumes break_stays: "status s = EMU68_BRK \<Longrightarrow> status (hdl E h HWINSTOV_VECTOR s) \<noteq> EMU68_NRM"
begin

lemma countdown_breaks: "instructions s = 1 \<Longrightarrow> status (controlled_step68 E s) \<noteq> EMU68_NRM"
  using break_stays
  by (auto simp: controlled_step68_def Let_def exception68_def call_handler_def
      HWINSTOV_VECTOR_def split: option.splits)

text \<open>With a countdown \<open>n\<close> the loop ends after at most \<open>n\<close> instructions.\<close>

lemma loop_ends:
  "instructions s \<noteq> 0 \<Longrightarrow>
    \<exists>k<unat (instructions s). loop68 E s = Some ((controlled_step68 E ^^ Suc k) s)"
proof (induction "unat (instructions s)" arbitrary: s)
  case 0
  then show ?case by (simp add: unat_eq_0)
next
  case (Suc n)
  let ?t = "controlled_step68 E s"
  show ?case
  proof (cases "running68 ?t")
    case False
    then show ?thesis
      using Suc.hyps(2) loop68_unfold [of E s] by (intro exI [of _ 0]) simp
  next
    case True
    then have nrm: "status ?t = EMU68_NRM" by (simp add: running68_def)
    then have ins: "instructions ?t = instructions s - 1" "instructions s \<noteq> 1"
      using controlled_countdown Suc.prems countdown_breaks by auto
    then have n: "instructions ?t \<noteq> 0" by auto
    have u: "unat (instructions ?t) = n"
      using Suc.hyps(2) Suc.prems unfolding ins(1)
      by (metis diff_Suc_1 unat_minus_one)
    then obtain k where "k < n" "loop68 E ?t = Some ((controlled_step68 E ^^ Suc k) ?t)"
      using Suc.hyps(1) n by metis
    then show ?thesis
      using Suc.hyps(2) True loop68_unfold [of E s]
      by (intro exI [of _ "Suc k"]) (simp add: funpow_swap1)
  qed
qed

end

interpretation null_stops: env_stops null_env I for I
  by unfold_locales (simp add: null_env_def)

section \<open>Chips and the other entry points\<close>

text \<open>The contract of the remaining functions of a chip.\<close>

locale env_chips = env_frame +
  assumes adjust_frame: "io_adjust_cycle (ios E i) n s = Some t \<Longrightarrow> frame68 I s t"
    and interrupt_frame: "io_interrupt (ios E i) n s = Some (it, t) \<Longrightarrow> frame68 I s t"
    and reset_frame: "frame68 I s (io_reset (ios E i) s)"
begin

lemma fold_frame:
  assumes "\<And>i s. frame68 I s (f i s)"
  shows "frame68 I s (fold f xs s)"
  using assms by (induction xs arbitrary: s) (auto intro: frame68_trans)

lemma adjust_chips_frame: "adjust_chips E is s = Some t \<Longrightarrow> frame68 I s t"
  by (induction "is" arbitrary: s) (auto simp: bind_eq_Some_conv intro: frame68_trans adjust_frame)

lemma finish_run: "emu68_finish E n s = Some t \<Longrightarrow> run68 I s t"
proof -
  assume f: "emu68_finish E n s = Some t"
  define u where "u = (if n \<noteq> EMU68_CONT then
    s\<lparr>finish_sp := sx (areg s 7), frm_chk_fl := 0, instructions := n\<rparr> else s)"
  obtain v where v: "(if cycle u \<noteq> 0 then Option.bind (adjust_chips E (iohead u) u) (\<lambda>s. Some (s\<lparr>cycle := 0\<rparr>))
      else Some u) = Some v" and l: "loop68 E (v\<lparr>status := EMU68_NRM\<rparr>) = Some t"
    using f unfolding emu68_finish_def Let_def u_def [symmetric] by (auto simp: bind_eq_Some_conv)
  have "run68 I s u" unfolding u_def by (auto intro!: run68_updates)
  moreover have "run68 I u v"
    using v run68_frame [OF adjust_chips_frame, of "iohead u" u]
    by (auto simp: bind_eq_Some_conv split: if_splits intro!: run68_updates)
  ultimately have "run68 I s (v\<lparr>status := EMU68_NRM\<rparr>)"
    by (blast intro: run68_updates run68_trans)
  then show ?thesis by (rule loop_run [OF l])
qed

end

interpretation null_chips: env_chips null_env I for I
  by unfold_locales (simp_all add: null_env_def null_io_def)

text \<open>Both contracts together: a run with a budget returns.\<close>

locale env_runs = env_chips + env_stops
begin

lemma finish_returns:
  assumes "n \<noteq> 0" "n \<noteq> EMU68_CONT"
    and "u = s\<lparr>finish_sp := sx (areg s 7), frm_chk_fl := 0, instructions := n\<rparr>"
    and "cycle s = 0 \<or> adjust_chips E (iohead s) u \<noteq> None"
  shows "\<exists>t. emu68_finish E n s = Some t \<and> run68 I s t"
proof -
  have c: "cycle u = cycle s" "iohead u = iohead s" "instructions u = n" by (simp_all add: assms(3))
  obtain v where v: "(if cycle u \<noteq> 0 then Option.bind (adjust_chips E (iohead u) u) (\<lambda>s. Some (s\<lparr>cycle := 0\<rparr>))
      else Some u) = Some v"
    using assms(4) unfolding c by (cases "adjust_chips E (iohead s) u"; cases "cycle s = 0") simp_all
  have f: "emu68_finish E n s = loop68 E (v\<lparr>status := EMU68_NRM\<rparr>)"
    unfolding emu68_finish_def Let_def if_P [OF assms(2)] assms(3) [symmetric] v by simp
  have "instructions v = n"
    using v adjust_chips_frame [of "iohead u" u] c(3)
    by (auto simp: bind_eq_Some_conv frame68_def split: if_splits)
  then obtain t where "emu68_finish E n s = Some t"
    using loop_ends [of "v\<lparr>status := EMU68_NRM\<rparr>"] assms(1) unfolding f by auto
  with finish_run show ?thesis by blast
qed

end

interpretation null_runs: env_runs null_env I for I
  by unfold_locales

end
