(* ===== verification/Insn68.thy ===== *)
theory Insn68
  imports Exec68
begin

text \<open>
  Instructions as a program sees them: one step of the emulator on an opcode word in memory,
  against reference functions on machine words.

  The operand schemes of \<open>emu68/lines\<close> work on operands shifted to the top of an \<open>int68_t\<close>;
  the lemmas here translate them to operations on words of the operand size, through the
  fetch and the dispatch of \<open>step68\<close>.
\<close>

section \<open>Fetch and dispatch\<close>

text \<open>The opcode word at the program counter, and the state an instruction starts from.\<close>

definition opcode_at :: "'c emu68 \<Rightarrow> s32" where
  "opcode_at s =
    (let i = unat (sx (pc s) AND (memmsk s AND NOT 1))
     in push_bit 8 (ucast (mem s i)) OR ucast (mem s (i + 1)))"

definition fetched :: "'c emu68 \<Rightarrow> 'c emu68" where
  "fetched s = set_pc (pc s + 2) (s\<lparr>inst_pc := pc s, inst_sr := sr s\<rparr>)"

definition fetches :: "'c emu68 \<Rightarrow> nat \<Rightarrow> bool" where
  "fetches s w \<longleftrightarrow> sr s AND lo32 SR_T = 0 \<and> unat (opcode_at s) = w"

lemma fetched_fields [simp]:
  "dreg (fetched s) = dreg s" "sr (fetched s) = sr s" "mem (fetched s) = mem s"
  "pc (fetched s) = pc s + 2" "memmsk (fetched s) = memmsk s" "memio (fetched s) = memio s"
  by (simp_all add: fetched_def)

lemma step68_dispatch:
  assumes "fetches s w"
  shows "step68 E s =
    line_func E (64 * (w div 4096) + w div 8 mod 64) (w div 512 mod 8) (w mod 8) (fetched s)"
proof -
  let ?o = "opcode_at s"
  have b: "unat ?o < 65536" by (simp add: opcode_at_def Let_def byte_pair_bound)
  have t: "sr s AND lo32 SR_T = 0" and w: "unat ?o = w"
    using assms by (simp_all add: fetches_def)
  note d = decode68 [OF b, unfolded w]
  show ?thesis
    unfolding step68_def Let_def
    using t d unfolding opcode_at_def Let_def fetched_def
    by simp
qed

text \<open>An opcode word from its line, register, row, mode and register fields.\<close>

definition opcode :: "nat \<Rightarrow> nat \<Rightarrow> nat \<Rightarrow> nat \<Rightarrow> nat \<Rightarrow> nat" where
  "opcode l r9 row mode r0 = 4096 * l + 512 * r9 + 64 * row + 8 * mode + r0"

lemma opcode_fields:
  assumes "r9 < 8" "row < 8" "mode < 8" "r0 < 8"
  shows "opcode l r9 row mode r0 div 4096 = l"
    and "opcode l r9 row mode r0 div 8 mod 64 = 8 * row + mode"
    and "opcode l r9 row mode r0 div 512 mod 8 = r9"
    and "opcode l r9 row mode r0 mod 8 = r0"
proof -
  have eq: "opcode l r9 row mode r0 = 8 * (8 * (8 * (8 * l + r9) + row) + mode) + r0"
    by (simp add: opcode_def)
  have d: "opcode l r9 row mode r0 div 8 = 8 * (8 * (8 * l + r9) + row) + mode"
    unfolding eq using assms by simp
  have d2: "opcode l r9 row mode r0 div 64 = 8 * (8 * l + r9) + row"
    using d assms div_mult2_eq [of "opcode l r9 row mode r0" 8 8] by simp
  have d3: "opcode l r9 row mode r0 div 512 = 8 * l + r9"
    using d2 assms div_mult2_eq [of "opcode l r9 row mode r0" 64 8] by simp
  show "opcode l r9 row mode r0 div 4096 = l"
    using d3 assms div_mult2_eq [of "opcode l r9 row mode r0" 512 8] by simp
  show "opcode l r9 row mode r0 div 512 mod 8 = r9" unfolding d3 using assms by simp
  have "opcode l r9 row mode r0 div 8 = 64 * (8 * l + r9) + (8 * row + mode)"
    unfolding d by simp
  then have "opcode l r9 row mode r0 div 8 mod 64 = (8 * row + mode) mod 64"
    by (simp only: mod_mult_self4)
  then show "opcode l r9 row mode r0 div 8 mod 64 = 8 * row + mode"
    using assms by simp
  show "opcode l r9 row mode r0 mod 8 = r0" unfolding eq mod_mult_self4 using assms by simp
qed

lemma step68_row:
  assumes "fetches s (opcode l r9 row mode r0)" "r9 < 8" "row < 8" "mode < 8" "r0 < 8"
  shows "step68 E s = ((line_rows E ! l) ! row) mode r9 r0 (fetched s)"
proof -
  have e: "64 * l + (8 * row + mode) = 8 * (8 * l + row) + mode" by simp
  have d: "(64 * l + (8 * row + mode)) div 8 = 8 * l + row"
    unfolding e using assms by simp
  have "(64 * l + (8 * row + mode)) div 64 = l"
    using d assms div_mult2_eq [of "64 * l + (8 * row + mode)" 8 8] by simp
  moreover have "(64 * l + (8 * row + mode)) div 8 mod 8 = row"
    unfolding d using assms by simp
  moreover have "(64 * l + (8 * row + mode)) mod 8 = mode"
    unfolding e mod_mult_self4 using assms by simp
  ultimately show ?thesis
    unfolding step68_dispatch [OF assms(1)] opcode_fields [OF assms(2-)] line_func_def by simp
qed

section \<open>Operands on words\<close>

definition merge_low :: "s32 \<Rightarrow> 'a::len word \<Rightarrow> s32" where
  "merge_low old r = (old AND NOT (mask LENGTH('a))) OR ucast r"

abbreviation sized :: "size68 \<Rightarrow> 'a::len itself \<Rightarrow> bool" where
  "sized sz (_ :: 'a itself) \<equiv> LENGTH('a) = 8 * bytes68 sz"

lemma sized_fix: "sized sz TYPE('a::len) \<Longrightarrow> fix68 sz = 64 - LENGTH('a) \<and> LENGTH('a) \<le> 32"
  by (cases sz) auto

lemma norm68_word:
  assumes "sized sz TYPE('a::len)"
  shows "norm68 sz (sx v) = nrm (ucast v :: 'a word)"
proof -
  have f: "fix68 sz = 64 - LENGTH('a)" and l: "LENGTH('a) \<le> 64" "LENGTH('a) \<le> 32"
    using sized_fix [OF assms] by auto
  have "(ucast (sx v) :: 'a word) = ucast v"
    using l by (intro ucast_scast_low) simp_all
  then show ?thesis
    unfolding norm68_def f by (metis nrm_ucast l(1))
qed

lemma msk_bits:
  "bit (msk68 SzB) k \<longleftrightarrow> 8 \<le> k \<and> k < 32" "bit (msk68 SzW) k \<longleftrightarrow> 16 \<le> k \<and> k < 32"
proof -
  have b: "msk68 SzB = push_bit 8 (mask 24)" and w: "msk68 SzW = push_bit 16 (mask 16)"
    by (simp_all add: mask_eq_exp_minus_1)
  show "bit (msk68 SzB) k \<longleftrightarrow> 8 \<le> k \<and> k < 32" "bit (msk68 SzW) k \<longleftrightarrow> 16 \<le> k \<and> k < 32"
    unfolding b w by (auto simp: bit_simps)
qed

lemma put_dn_word:
  assumes "sized sz TYPE('a::len)"
  shows "put_dn sz r (nrm (w :: 'a word)) s = set_dreg r (merge_low (dreg s r) w) s"
proof -
  have f: "fix68 sz = 64 - LENGTH('a)" and l: "LENGTH('a) \<le> 64" "LENGTH('a) \<le> 32"
    using sized_fix [OF assms] by auto
  have m: "bit (msk68 sz) k \<longleftrightarrow> LENGTH('a) \<le> k \<and> k < 32" for k
    using assms by (cases sz) (simp_all add: msk_bits del: msk68.simps, simp_all)
  have "(sx (dreg s r) AND msk68 sz) + ucast w = (sx (dreg s r) AND msk68 sz) OR ucast w"
    by (rule add_or_disj) (auto simp: bit_simps m dest: bit_imp_le_length)
  moreover have "lo32 ((sx (dreg s r) AND msk68 sz) OR ucast w) = merge_low (dreg s r) w"
  proof -
    have "lo32 (msk68 sz) = NOT (mask LENGTH('a))"
      by (rule bit_word_eqI) (auto simp: bit_simps m)
    moreover have "lo32 (ucast w) = ucast w"
      using l by (intro bit_word_eqI) (auto simp: bit_simps)
    ultimately show ?thesis
      by (simp add: merge_low_def lo32_or lo32_and)
  qed
  ultimately show ?thesis
    unfolding put_dn_def f drop_nrm [OF l(1)] by simp
qed

lemma and_exp_eq_of_bool: "x AND 2 ^ n = of_bool (bit x n) * 2 ^ n" for x :: "'a::len word"
  by (rule bit_word_eqI) (auto simp: bit_simps)

lemma sr_x_word:
  assumes "sized sz TYPE('a::len)"
  shows "sr_x sz s = nrm (of_bool (bit (sr s) 4) :: 'a word)"
proof -
  have "sr s AND 16 = (if bit (sr s) 4 then 16 else 0)"
    using and_exp_eq_of_bool [of "sr s" 4] by simp
  moreover have "signed_drop_bit 4 (sr s) AND 1 = (if bit (sr s) 4 then 1 else 0)"
    by (simp add: word_and_1_of_bool bit_simps)
  ultimately show ?thesis
    using assms by (cases sz) (simp_all add: SR_X_def nrm_def)
qed

section \<open>Reference operations\<close>

fun alu_val :: "alu68 \<Rightarrow> 'a::len word \<Rightarrow> 'a word \<Rightarrow> 'a word option" where
  "alu_val ALU_ADD a b = Some (b + a)"
| "alu_val ALU_SUB a b = Some (b - a)"
| "alu_val ALU_AND a b = Some (b AND a)"
| "alu_val ALU_ORR a b = Some (b OR a)"
| "alu_val ALU_EOR a b = Some (b XOR a)"
| "alu_val ALU_CMP a b = None"

fun alu_sr :: "alu68 \<Rightarrow> s32 \<Rightarrow> 'a::len word \<Rightarrow> 'a word \<Rightarrow> s32" where
  "alu_sr ALU_ADD x a b = add_sr x a b False"
| "alu_sr ALU_SUB x a b = sub_sr x a b False"
| "alu_sr ALU_AND x a b = tst_sr x (b AND a)"
| "alu_sr ALU_ORR x a b = tst_sr x (b OR a)"
| "alu_sr ALU_EOR x a b = tst_sr x (b XOR a)"
| "alu_sr ALU_CMP x a b = cmp_sr x a b"

lemma alu_op68_word:
  fixes a b :: "'a::len word"
  assumes "LENGTH('a) \<le> 32"
  shows "alu_op68 f (nrm a) (nrm b) st =
    (map_option nrm (alu_val f a b), set_sr (alu_sr f (sr st) a b) st)"
  using assms
  by (cases f)
    (simp_all add: inl_and68_def inl_orr68_def inl_eor68_def add68_word [where x = False, simplified]
      sub68_word [where x = False, simplified] cmp68_word tst68_word Let_def
      flip: nrm_and nrm_or nrm_xor)

definition alu_effect :: "alu68 \<Rightarrow> 'a::len word \<Rightarrow> nat \<Rightarrow> 'c emu68 \<Rightarrow> 'c emu68" where
  "alu_effect f a n s =
    (let b = ucast (dreg s n) :: 'a word;
         t = set_sr (alu_sr f (sr s) a b) s
     in case alu_val f a b of None \<Rightarrow> t | Some r \<Rightarrow> set_dreg n (merge_low (dreg s n) r) t)"

lemma op_dn_word:
  fixes a :: "'a::len word"
  assumes "sized sz TYPE('a)"
  shows "op_dn f sz (nrm a) n s = alu_effect f a n s"
  using sized_fix [OF assms]
  by (simp add: op_dn_def norm68_word [OF assms] alu_op68_word Let_def alu_effect_def
      put_dn_word [OF assms] split: option.split)

section \<open>Data register instructions\<close>

text \<open>The lines of the operations with the effective address as source, and the row lemmas.\<close>

fun alu_line :: "alu68 \<Rightarrow> nat" where
  "alu_line ALU_ORR = 8"
| "alu_line ALU_SUB = 9"
| "alu_line ALU_CMP = 11"
| "alu_line ALU_AND = 12"
| "alu_line ALU_ADD = 13"
| "alu_line ALU_EOR = 11"

fun move_line :: "size68 \<Rightarrow> nat" where
  "move_line SzB = 1"
| "move_line SzW = 3"
| "move_line SzL = 2"

lemma alu_row:
  "f \<noteq> ALU_EOR \<Longrightarrow>
    (line_rows E ! alu_line f) ! size68_rank sz = (\<lambda>mode r9 r0 s. if mode = 1 \<and> f \<in> {ALU_ORR, ALU_AND}
       then inl_illegal68 E s else op_ea_dn E f sz mode r9 r0 s)"
  by (cases f; cases sz)
    (simp_all add: fun_eq_iff line_rows_def line8_rows_def line9_rows_def lineB_rows_def lineC_rows_def
      lineD_rows_def lineD_r0_def lineD_r1_def lineD_r2_def line9_r0_def line9_r1_def line9_r2_def
      lineB_r0_def lineB_r1_def lineB_r2_def lineC_r0_def lineC_r1_def lineC_r2_def
      line8_r0_def line8_r1_def line8_r2_def)

lemma move_row:
  "(line_rows E ! move_line sz) ! 0 = op_move_dn E sz"
  by (cases sz) (simp_all add: fun_eq_iff line_rows_def line1_rows_def line2_rows_def line3_rows_def
      line1_r0_def line2_r0_def line3_r0_def)

lemma op_src_dn_word:
  assumes "sized sz TYPE('a::len)"
  shows "op_src E sz 0 m s = (nrm (ucast (dreg s m) :: 'a word), s)"
  by (simp add: op_src_def norm68_word [OF assms])

lemma op_ea_dn_word:
  assumes "sized sz TYPE('a::len)"
  shows "op_ea_dn E f sz 0 n m s = alu_effect f (ucast (dreg s m) :: 'a word) n s"
  by (simp add: op_ea_dn_def op_src_dn_word [OF assms] op_dn_word [OF assms])

lemma size68_rank_less: "size68_rank sz < 8"
  by (cases sz) simp_all

lemma alu_step:
  fixes a :: "'a::len word"
  assumes "sized sz TYPE('a)" "f \<noteq> ALU_EOR" "m < 8" "n < 8"
    and "fetches s (opcode (alu_line f) n (size68_rank sz) 0 m)" and "a = ucast (dreg s m)"
  shows "step68 E s = alu_effect f a n (fetched s)"
  using assms step68_row [OF assms(5)] size68_rank_less [of sz]
  by (simp add: alu_row op_ea_dn_word [OF assms(1)])

lemma move_step:
  fixes a :: "'a::len word"
  assumes "sized sz TYPE('a)" "m < 8" "n < 8"
    and "fetches s (opcode (move_line sz) n 0 0 m)" and "a = ucast (dreg s m)"
  shows "step68 E s =
    set_dreg n (merge_low (dreg s n) a) (set_sr (tst_sr (sr s) a) (fetched s))"
  using assms step68_row [OF assms(4)] sized_fix [OF assms(1)]
  by (simp add: move_row op_move_dn_def op_src_dn_word [OF assms(1)] tst68_word
      put_dn_word [OF assms(1)])

text \<open>Multiplication and division: word times word, long by word.\<close>

definition mul_row :: "bool \<Rightarrow> nat" where
  "mul_row sg = (if sg then 7 else 3)"

lemma muldiv_rows:
  "(line_rows E ! 12) ! mul_row sg = (\<lambda>mode r9 r0 s. if mode = 1 then inl_illegal68 E s else op_mul E sg mode r9 r0 s)"
  "(line_rows E ! 8) ! mul_row sg = (\<lambda>mode r9 r0 s. if mode = 1 then inl_illegal68 E s else op_div E sg mode r9 r0 s)"
  by (simp_all add: mul_row_def fun_eq_iff line_rows_def line8_rows_def lineC_rows_def
      lineC_r7_def lineC_r3_def line8_r7_def line8_r3_def)

lemma drop_nrm_long: "lo32 (drop_bit 32 (nrm (w :: s32))) = w"
  using drop_nrm [of w] by simp

lemma mul_step:
  fixes a b :: u16
  assumes "m < 8" "n < 8" "fetches s (opcode 12 n (mul_row sg) 0 m)"
    and "a = ucast (dreg s m)" "b = ucast (dreg s n)"
    and "p = (if sg then scast b * scast a else ucast b * ucast a)"
  shows "step68 E s = set_dreg n p (set_sr (tst_sr (sr s) p) (fetched s))"
proof -
  have w: "sized SzW TYPE(16)" by simp
  have r: "mul_row sg < 8" by (simp add: mul_row_def)
  show ?thesis
    using step68_row [OF assms(3) assms(2) r _ assms(1)] assms(4-)
    by (cases sg) (simp_all add: muldiv_rows op_mul_def op_src_dn_word [OF w] norm68_word [OF w]
        muls68_word(1) mulu68_word(1) drop_nrm_long)
qed

lemma div_step:
  fixes a :: u16 and b :: s32
  assumes "m < 8" "n < 8" "fetches s (opcode 8 n (mul_row sg) 0 m)"
    and "a = ucast (dreg s m)" "b = dreg s n" "a \<noteq> 0"
    and "q = (if sg then sint b sdiv sint a else uint b div uint a)"
    and "fits = (if sg then - (2 ^ 15) \<le> q \<and> q < 2 ^ 15 else q < 2 ^ 16)"
  shows "step68 E s =
    set_dreg n (if sg then divs_result a b else divu_result a b)
      (set_sr (div_sr (sr s) q (\<not> fits)) (fetched s))"
proof -
  have w: "sized SzW TYPE(16)" and l: "sized SzL TYPE(32)" by simp_all
  have r: "mul_row sg < 8" by (simp add: mul_row_def)
  have n: "norm68 SzL (sx (dreg s n)) = nrm b" using norm68_word [OF l, of "dreg s n"] assms by simp
  show ?thesis
    using step68_row [OF assms(3) assms(2) r _ assms(1)] assms(4-)
    by (cases sg) (simp_all add: muldiv_rows op_div_def op_src_dn_word [OF w] n [unfolded assms(5)]
        divs68_word divu68_word drop_nrm_long not_less)
qed

section \<open>Shift instructions\<close>

fun shift_val :: "shiftop68 \<Rightarrow> nat \<Rightarrow> bool \<Rightarrow> 'a::len word \<Rightarrow> 'a word" where
  "shift_val ASL68 n x a = push_bit n a"
| "shift_val LSL68 n x a = push_bit n a"
| "shift_val LSR68 n x a = drop_bit n a"
| "shift_val ASR68 n x a = signed_drop_bit n a"
| "shift_val ROL68 n x a = word_rotl n a"
| "shift_val ROR68 n x a = word_rotr n a"
| "shift_val ROXL68 n x a = ucast (rox_rot (n mod (LENGTH('a) + 1)) x a)"
| "shift_val ROXR68 n x a = ucast (rox_rot (LENGTH('a) + 1 - n mod (LENGTH('a) + 1)) x a)"

text \<open>The last bit moved out; of a rotation, the one that comes in at the other end; X on the way
  through a rotation through X.\<close>

fun shift_out :: "shiftop68 \<Rightarrow> nat \<Rightarrow> bool \<Rightarrow> 'a::len word \<Rightarrow> bool" where
  "shift_out ASL68 n x a = out_left a n"
| "shift_out LSL68 n x a = out_left a n"
| "shift_out LSR68 n x a = bit a (n - 1)"
| "shift_out ASR68 n x a = bit a (min (n - 1) (LENGTH('a) - 1))"
| "shift_out ROL68 n x a = bit (word_rotl n a) 0"
| "shift_out ROR68 n x a = neg_w (word_rotr n a)"
| "shift_out ROXL68 n x a = bit (rox_rot (n mod (LENGTH('a) + 1)) x a) LENGTH('a)"
| "shift_out ROXR68 n x a = bit (rox_rot (LENGTH('a) + 1 - n mod (LENGTH('a) + 1)) x a) LENGTH('a)"

text \<open>The status register of the processor.  Without a shift C is cleared, in the rotations through X it
  is X whatever the count; X is not affected by a plain rotation nor when nothing is shifted.\<close>

definition shift_flags :: "shiftop68 \<Rightarrow> nat \<Rightarrow> s32 \<Rightarrow> 'a::len word \<Rightarrow> s32" where
  "shift_flags op n old a =
    (let x = bit old 4; r = shift_val op n x a; out = shift_out op n x a
     in (old AND 0xFF00) OR
        mk_ccr (if n = 0 \<or> op \<in> {ROL68, ROR68} then x else out) (neg_w r) (r = 0)
          (op = ASL68 \<and> asl_overflow a n)
          (if n = 0 \<and> op \<notin> {ROXL68, ROXR68} then False else out))"

text \<open>What the code makes of it: \<open>lsl68\<close> loses X, and a rotation through X that moves something drops
  the system byte.\<close>

definition shift_faults :: "shiftop68 \<Rightarrow> nat \<Rightarrow> nat \<Rightarrow> s32 \<Rightarrow> s32" where
  "shift_faults op len n w =
    (if op = LSL68 \<and> n \<noteq> 0 then w AND NOT 0x10
     else if op \<in> {ROXL68, ROXR68} \<and> n mod (len + 1) \<noteq> 0 then w AND 0xFF
     else w)"

lemma put_dn_drop:
  assumes "sized sz TYPE('a::len)" "drop_bit (64 - LENGTH('a)) d = ucast (w :: 'a word)"
  shows "put_dn sz r d s = set_dreg r (merge_low (dreg s r) w) s"
proof -
  have f: "fix68 sz = 64 - LENGTH('a)" and l: "LENGTH('a) \<le> 64"
    using sized_fix [OF assms(1)] by auto
  have "put_dn sz r d s = put_dn sz r (nrm w) s"
    unfolding put_dn_def f drop_nrm [OF l] assms(2) ..
  then show ?thesis unfolding put_dn_word [OF assms(1)] .
qed

lemma shift_l_len: "sized sz TYPE('a::len) \<Longrightarrow> shift_l sz = LENGTH('a) - 1 \<and> LENGTH('a) \<in> {8, 16, 32}"
  by (cases sz) simp_all

lemma ccr_faults:
  "(old AND 0xFF00 OR mk_ccr x n z v c) AND NOT 0x10 = old AND 0xFF00 OR mk_ccr False n z v c"
  "(old AND 0xFF00 OR mk_ccr x n z v c) AND 0xFF = mk_ccr x n z v c"
  for old :: s32
proof -
  have "mk_ccr x n z v c AND NOT 0x10 = mk_ccr False n z v c" "mk_ccr x n z v c AND 0xFF = mk_ccr x n z v c"
    by (cases x; cases n; cases z; cases v; cases c; simp add: mk_ccr_def)+
  then show "(old AND 0xFF00 OR mk_ccr x n z v c) AND NOT 0x10 = old AND 0xFF00 OR mk_ccr False n z v c"
    "(old AND 0xFF00 OR mk_ccr x n z v c) AND 0xFF = mk_ccr x n z v c"
    by (simp_all add: bit.conj_disj_distrib2 and.assoc)
qed

text \<open>A count of 0, and a whole turn of a rotation through X.\<close>

lemma rox_turn:
  assumes "LENGTH('a) \<le> 32"
  shows "ucast (rox_rot 0 x a) = (a :: 'a::len word)" "ucast (rox_rot (LENGTH('a) + 1) x a) = a"
    "bit (rox_rot 0 x a) LENGTH('a) = x" "bit (rox_rot (LENGTH('a) + 1) x a) LENGTH('a) = x"
proof -
  show "ucast (rox_rot 0 x a) = a" "ucast (rox_rot (LENGTH('a) + 1) x a) = a"
    by (rule bit_word_eqI; use assms in \<open>auto simp: bit_ucast_iff bit_rox_rot bit_rox_ext dest: bit_imp_le_length\<close>)+
  show "bit (rox_rot 0 x a) LENGTH('a) = x" "bit (rox_rot (LENGTH('a) + 1) x a) LENGTH('a) = x"
    using assms by (auto simp: bit_rox_rot bit_rox_ext dest: bit_imp_le_length)
qed

lemma addcycle_0: "inl_addcycle68 E 0 st = st"
  by (simp add: inl_addcycle68_def)

lemma and_x: "4 < LENGTH('a) \<Longrightarrow> v AND 0x10 = (if bit v 4 then 0x10 else 0)" for v :: "'a::len word"
proof -
  have "v AND push_bit 4 1 = (if bit v 4 then push_bit 4 1 else 0)"
  proof (rule bit_word_eqI)
    fix i assume "i < LENGTH('a)"
    show "bit (v AND push_bit 4 1) i \<longleftrightarrow> bit (if bit v 4 then push_bit 4 1 else 0 :: 'a word) i"
      by (cases "i = 4"; cases "bit v 4";
        simp only: bit_and_iff bit_push_bit_iff bit_1_iff bit_0_eq bot_fun_def if_True if_False; auto)
  qed
  then show ?thesis by simp
qed

lemma kept_flags:
  fixes w :: s32
  shows "lo32 (sx w AND (0xFF00 OR SR_X)) = (w AND 0xFF00) OR mk_ccr (bit w 4) False False False False"
    and "lo32 (sx w AND SR_X) = mk_ccr (bit w 4) False False False False"
    and "signed_drop_bit 4 ((sx w AND (0xFF00 OR SR_X)) AND SR_X) = of_bool (bit w 4)"
proof -
  have b: "bit (sx w :: int68) 4 = bit w 4" by (simp add: bit_simps)
  have "w AND 0xFF10 = (w AND 0xFF00) OR (w AND 0x10)" by (simp flip: bit.conj_disj_distrib)
  then show "lo32 (sx w AND (0xFF00 OR SR_X)) = (w AND 0xFF00) OR mk_ccr (bit w 4) False False False False"
    by (simp add: lo32_and lo32_or sr_defs and_x mk_ccr_def)
  show "lo32 (sx w AND SR_X) = mk_ccr (bit w 4) False False False False"
    by (simp add: lo32_and sr_defs and_x mk_ccr_def b)
  show "signed_drop_bit 4 ((sx w AND (0xFF00 OR SR_X)) AND SR_X) = of_bool (bit w 4)"
    by (cases "bit w 4") (simp_all add: sr_defs and.assoc and_x [where 'a = 64] b)
qed

lemma shift_still:
  fixes a :: "'a::len word"
  assumes "LENGTH('a) \<in> {8, 16, 32}" "shift_count k = n"
    and "n = 0 \<or> op \<in> {ROXL68, ROXR68} \<and> n mod (LENGTH('a) + 1) = 0"
  shows "shift_op68 E op (nrm a) k (LENGTH('a) - 1) st =
    (nrm a, set_sr ((sr st AND 0xFF00) OR mk_ccr (bit (sr st) 4) (neg_w a) (a = 0) False
        (op \<in> {ROXL68, ROXR68} \<and> bit (sr st) 4)) (inl_addcycle68 E (of_nat (2 * n)) st))"
proof -
  have l: "LENGTH('a) \<le> 32" "LENGTH('a) - 1 + 2 = LENGTH('a) + 1" using assms(1) by auto
  have s: "shift_sr (sx (sr st) AND SR_X) (nrm a) st =
      set_sr ((sr st AND 0xFF00) OR mk_ccr (bit (sr st) 4) (neg_w a) (a = 0) False False) st"
    by (simp add: shift_sr_nrm [OF l(1)] kept_flags mk_ccr_def or.assoc)
  have r: "rotate_sr (sx (sr st) AND (0xFF00 OR SR_X)) (nrm a) st =
      set_sr ((sr st AND 0xFF00) OR mk_ccr (bit (sr st) 4) (neg_w a) (a = 0) False False) st"
    by (simp add: rotate_sr_nrm [OF l(1)] kept_flags mk_ccr_def or.assoc)
  have x: "rotate_sr (sx (sr st) AND (0xFF00 OR SR_X) OR of_bool (bit (sr st) 4)) (nrm a) u =
      set_sr ((sr st AND 0xFF00) OR mk_ccr (bit (sr st) 4) (neg_w a) (a = 0) False (bit (sr st) 4)) u" for u
    unfolding rotate_sr_nrm [OF l(1)] lo32_or kept_flags
    by (cases "bit (sr st) 4") (simp_all add: mk_ccr_def ac_simps)
  note defs = inl_lsl68_def inl_asl68_def inl_lsr68_def inl_asr68_def inl_rol68_def inl_ror68_def
  show ?thesis
  proof (cases "op \<in> {ROXL68, ROXR68}")
    case False
    then have "n = 0" using assms(3) by blast
    then show ?thesis
      using False assms(2) by (cases op) (simp_all add: defs Let_def s r addcycle_0)
  next
    case True
    then have m: "n mod (LENGTH('a) + 1) = 0" using assms(3) by auto
    have c: "(if n \<noteq> 0 then inl_addcycle68 E (of_nat (2 * n)) st else st) = inl_addcycle68 E (of_nat (2 * n)) st"
      by (simp add: addcycle_0)
    from True consider "op = ROXL68" | "op = ROXR68" by blast
    then show ?thesis
    proof cases
      case 1
      then show ?thesis
        unfolding 1 shift_op68.simps inl_roxl68_def Let_def assms(2) l(2) m c by (simp add: kept_flags(3) x)
    next
      case 2
      then show ?thesis
        unfolding 2 shift_op68.simps inl_roxr68_def Let_def assms(2) l(2) m by (simp add: kept_flags(3) x)
    qed
  qed
qed

lemma rot_0: "word_rotl 0 a = a" "word_rotr 0 a = a" for a :: "'a::len word"
  by (rule bit_word_eqI; simp add: bit_word_rotl_iff bit_word_rotr_iff)+

lemma shift_op68_word:
  fixes a :: "'a::len word"
  assumes "sized sz TYPE('a)" "shift_count k = n"
  shows "drop_bit (64 - LENGTH('a)) (fst (shift_op68 E op (nrm a) k (shift_l sz) st)) =
      ucast (shift_val op n (bit (sr st) 4) a)"
    and "snd (shift_op68 E op (nrm a) k (shift_l sz) st) =
      set_sr (shift_faults op LENGTH('a) n (shift_flags op n (sr st) a)) (inl_addcycle68 E (of_nat (2 * n)) st)"
proof -
  have l: "LENGTH('a) \<le> 64" "LENGTH('a) \<le> 32" "shift_l sz = LENGTH('a) - 1" "LENGTH('a) \<in> {8, 16, 32}"
    using shift_l_len [OF assms(1)] by auto
  note k = assms(2)
  have "drop_bit (64 - LENGTH('a)) (fst (shift_op68 E op (nrm a) k (LENGTH('a) - 1) st)) =
        ucast (shift_val op n (bit (sr st) 4) a) \<and>
      snd (shift_op68 E op (nrm a) k (LENGTH('a) - 1) st) =
        set_sr (shift_faults op LENGTH('a) n (shift_flags op n (sr st) a)) (inl_addcycle68 E (of_nat (2 * n)) st)"
  proof (cases "n = 0 \<or> op \<in> {ROXL68, ROXR68} \<and> n mod (LENGTH('a) + 1) = 0")
    case True
    then have v: "shift_val op n (bit (sr st) 4) a = a"
      using rox_turn [OF l(2)] rot_0 by (cases op) auto
    have f: "shift_faults op LENGTH('a) n (shift_flags op n (sr st) a) =
        (sr st AND 0xFF00) OR mk_ccr (bit (sr st) 4) (neg_w a) (a = 0) False (op \<in> {ROXL68, ROXR68} \<and> bit (sr st) 4)"
      using True v rox_turn [OF l(2)]
      by (cases op) (auto simp: shift_flags_def shift_faults_def Let_def asl_overflow_def)
    show ?thesis
      unfolding shift_still [OF l(4) k True] f by (simp add: v drop_nrm [OF l(1)])
  next
    case False
    then have n: "0 < n" and x: "op \<in> {ROXL68, ROXR68} \<Longrightarrow> n mod (LENGTH('a) + 1) \<noteq> 0" by auto
    note words = lsl68_word [OF l(2) k n] asl68_word [OF l(2) k n] lsr68_word [OF l(2) k n]
      asr68_word [OF l(2) k n] rol68_word [OF l(4) k n] ror68_word [OF l(4) k n]
      roxl68_word [where s = k, OF l(2) refl, unfolded k] roxr68_word [where s = k, OF l(2) refl, unfolded k]
    have r: "(w AND 0xFF10) OR mk_ccr False n z False c = (w AND 0xFF00) OR mk_ccr (bit w 4) n z False c" for w :: s32 and n z c
    proof -
      have "w AND 0xFF10 = (w AND 0xFF00) OR (w AND 0x10)" by (simp flip: bit.conj_disj_distrib)
      then show ?thesis by (simp add: and_x mk_ccr_def or.assoc)
    qed
    show ?thesis
      using x n
      by (cases op) (simp_all add: words drop_nrm [OF l(1)] shift_flags_def shift_faults_def ccr_faults ccr_faults(1) [simplified] r Let_def
          del: One_nat_def)
  qed
  then show "drop_bit (64 - LENGTH('a)) (fst (shift_op68 E op (nrm a) k (shift_l sz) st)) =
      ucast (shift_val op n (bit (sr st) 4) a)"
    "snd (shift_op68 E op (nrm a) k (shift_l sz) st) =
      set_sr (shift_faults op LENGTH('a) n (shift_flags op n (sr st) a)) (inl_addcycle68 E (of_nat (2 * n)) st)"
    unfolding l(3) by blast+
qed

text \<open>The opcode fields: right or left, which shift, immediate or register count.\<close>

fun shift_left :: "shiftop68 \<Rightarrow> bool" where
  "shift_left op = (op \<in> {ASL68, LSL68, ROXL68, ROL68})"

fun shift_kind :: "shiftop68 \<Rightarrow> nat" where
  "shift_kind ASR68 = 0" | "shift_kind LSR68 = 1" | "shift_kind ROXR68 = 2" | "shift_kind ROR68 = 3"
| "shift_kind ASL68 = 0" | "shift_kind LSL68 = 1" | "shift_kind ROXL68 = 2" | "shift_kind ROL68 = 3"

definition shift_row :: "shiftop68 \<Rightarrow> size68 \<Rightarrow> nat" where
  "shift_row op sz = (if shift_left op then 4 else 0) + size68_rank sz"

lemma shift_rows:
  "(line_rows E ! 14) ! shift_row op sz =
    op_shift_dn E (if shift_left op then shift_left_op else shift_right_op) sz"
  by (cases op; cases sz) (simp_all add: shift_row_def fun_eq_iff line_rows_def lineE_rows_def
      lineE_r0_def lineE_r1_def lineE_r2_def lineE_r4_def lineE_r5_def lineE_r6_def)

lemma shift_tables:
  "(if shift_left op then shift_left_op else shift_right_op) (shift_kind op) = op"
  by (cases op) (simp_all add: shift_left_op_def shift_right_op_def)

lemma shift_step:
  fixes a :: "'a::len word"
  assumes "sized sz TYPE('a)" "m < 8" "q < 8"
    and "fetches s (opcode 14 q (shift_row op sz) (shift_kind op + (if byreg then 4 else 0)) m)"
    and "a = ucast (dreg s m)"
    and "shift_count (if byreg then dreg s q else lo32 (quick68 q)) = n"
  shows "step68 E s =
    set_dreg m (merge_low (dreg s m) (shift_val op n (bit (sr s) 4) a))
      (set_sr (shift_faults op LENGTH('a) n (shift_flags op n (sr s) a)) (inl_addcycle68 E (of_nat (2 * n)) (fetched s)))"
proof -
  have r: "shift_row op sz < 8" "shift_kind op + (if byreg then 4 else 0) < 8"
    "shift_kind op + (if byreg then 4 else 0) < 4 \<longleftrightarrow> \<not> byreg"
    "(shift_kind op + (if byreg then 4 else 0)) mod 4 = shift_kind op"
    by (cases op; cases sz; simp add: shift_row_def)+
  define k where "k = (if byreg then dreg s q else lo32 (quick68 q))"
  define p where "p = shift_op68 E op (nrm a) k (shift_l sz) (fetched s)"
  define tab where "tab = (if shift_left op then shift_left_op else shift_right_op)"
  have t: "tab (shift_kind op) = op" unfolding tab_def by (rule shift_tables)
  have "step68 E s = put_dn sz m (fst p) (snd p)"
    unfolding step68_row [OF assms(4,3) r(1,2) assms(2)] shift_rows tab_def [symmetric]
      op_shift_dn_def Let_def split_def r(3,4) t p_def k_def
    by (simp add: norm68_word [OF assms(1)] assms(5))
  also have "\<dots> = set_dreg m (merge_low (dreg (snd p) m) (shift_val op n (bit (sr s) 4) a)) (snd p)"
    unfolding p_def
    by (rule put_dn_drop [OF assms(1)])
      (simp add: shift_op68_word(1) [OF assms(1) assms(6) [folded k_def]])
  also have "snd p = set_sr (shift_faults op LENGTH('a) n (shift_flags op n (sr s) a)) (inl_addcycle68 E (of_nat (2 * n)) (fetched s))"
    unfolding p_def by (simp add: shift_op68_word(2) [OF assms(1) assms(6) [folded k_def]])
  finally show ?thesis by (simp add: inl_addcycle68_def)
qed

section \<open>Comparison and conditional branch\<close>

lemma lo32_of_nat: "lo32 (of_nat n) = of_nat n"
  by (rule bit_word_eqI) (auto simp: bit_simps)

lemma lo32_numeral: "lo32 (numeral n) = numeral n"
  using lo32_of_nat[of "numeral n"] by simp

lemma lo32_diff: "lo32 (a - b) = lo32 a - lo32 b"
  using lo32_add[of "a - b" b] by simp

lemma scast_byte: "d < 256 \<Longrightarrow> (scast (of_nat d :: u8) :: s32) = (if d < 128 then of_nat d else of_nat d - 256)"
proof -
  assume d: "d < 256"
  have s: "sint (of_nat d :: u8) = (if d < 128 then int d else int d - 256)"
    using d by (simp add: sint_uint_neg neg_w_uint uint_nat unat_of_nat)
  show ?thesis
    unfolding scast_eq s by simp
qed

lemma byte_digits: "d mod 8 + (8 * (d div 8 mod 8) + 64 * (d div 64)) = (d :: nat)"
proof -
  have "d div 8 div 8 = d div 64" by (simp flip: div_mult2_eq)
  then show ?thesis
    using div_mult_mod_eq [of d 8] div_mult_mod_eq [of "d div 8" 8] by linarith
qed

lemma bcc_fields:
  assumes "2 \<le> cc" "cc < 16" "d < 256"
  shows "24576 + 256 * cc + d = opcode 6 (cc div 2) (4 * (cc mod 2) + d div 64) (d div 8 mod 8) (d mod 8)"
proof -
  have "24576 + 256 * (2 * a + b) + (r + (8 * m + 64 * q)) = opcode 6 a (4 * b + q) m r" for a b r m q
    by (simp add: opcode_def)
  from this [of "cc div 2" "cc mod 2" "d mod 8" "d div 8 mod 8" "d div 64"]
  show ?thesis unfolding byte_digits mult_div_mod_eq .
qed

lemma bcc_offset:
  assumes "d < 256"
  shows "of_nat (d mod 8) + (of_nat (8 * (d div 8 mod 8)) + of_nat (64 * (d div 64))) = (of_nat d :: 'a::len word)"
  using byte_digits [of d] by (metis of_nat_add)

lemma bcc_row:
  assumes "cc < 16" "d < 256" "0 < d"
  shows "(line_rows E ! 6) ! (4 * (cc mod 2) + d div 64) =
    (\<lambda>mode r9 r0 s. if mode = 0 \<and> d div 64 = 0 then op_bcc_w E (2 * r9 + cc mod 2) r0 s
      else op_bcc E (2 * r9 + cc mod 2) (of_nat (8 * mode) + of_nat (64 * (d div 64)) - (if d div 64 < 2 then 0 else 256)) r0 s)"
proof -
  have "d div 64 < 4" using assms by simp
  moreover have "q < 4 \<Longrightarrow> q = 0 \<or> q = 1 \<or> q = 2 \<or> q = 3" for q :: nat by linarith
  ultimately have "d div 64 = 0 \<or> d div 64 = 1 \<or> d div 64 = 2 \<or> d div 64 = 3" by blast
  moreover have "cc mod 2 = 0 \<or> cc mod 2 = 1" by presburger
  ultimately show ?thesis
    by (elim disjE) (simp_all add: fun_eq_iff line_rows_def line6_rows_def line6_r0_def line6_r1_def line6_r2_def line6_r3_def
     line6_r4_def line6_r5_def line6_r6_def line6_r7_def)
qed

lemma bcc_step:
  assumes "2 \<le> cc" "cc < 16" "0 < d" "d < 256" "fetches s (24576 + 256 * cc + d)"
  shows "step68 E s =
    set_pc (if cc_holds cc (sr s) then pc s + 2 + scast (of_nat d :: u8) else pc s + 2) (fetched s)"
proof -
  let ?q = "d div 64"
  have q: "d < 128 \<longleftrightarrow> ?q < 2" by (simp add: div_less_iff_less_mult)
  have r: "cc div 2 < 8" "4 * (cc mod 2) + ?q < 8" "d div 8 mod 8 < 8" "d mod 8 < 8"
    using assms(1-4) by simp_all
  have cc: "2 * (cc div 2) + cc mod 2 = cc" by simp
  note f = assms(5) [unfolded bcc_fields [OF assms(1,2,4)]]
  have w: "\<not> (d div 8 mod 8 = 0 \<and> ?q = 0 \<and> d mod 8 = 0)"
    using assms(3) byte_digits [of d] by auto
  have off: "of_nat (d mod 8) + (of_nat (8 * (d div 8 mod 8)) + of_nat (64 * ?q) - (if ?q < 2 then 0 else 256)) =
      (of_nat d - (if ?q < 2 then 0 else 256) :: int68)"
    using bcc_offset [OF assms(4), where 'a = 64] by (simp add: algebra_simps)
  have lo: "lo32 (sx p + (of_nat d - (if ?q < 2 then 0 else 256))) = p + scast (of_nat d :: u8)" for p
    using scast_byte [OF assms(4)] q by (simp add: lo32_add lo32_diff lo32_of_nat lo32_numeral)
  have w0: "op_bcc_w E cc (d mod 8) t = op_bcc E cc (of_nat (8 * (d div 8 mod 8)) + of_nat (64 * ?q) - (if ?q < 2 then 0 else 256)) (d mod 8) t"
    if "d div 8 mod 8 = 0" "?q = 0" for t
    using that w by (simp add: op_bcc_w_def op_bcc_def)
  have "step68 E s = op_bcc E cc (of_nat (8 * (d div 8 mod 8)) + of_nat (64 * ?q) -
      (if ?q < 2 then 0 else 256)) (d mod 8) (fetched s)"
  proof (cases "d div 8 mod 8 = 0 \<and> ?q = 0")
    case True
    then show ?thesis
      unfolding step68_row [OF f r] bcc_row [OF assms(2,4,3)] cc if_P [OF True]
      by (intro w0) simp_all
  next
    case False
    then show ?thesis
      unfolding step68_row [OF f r] bcc_row [OF assms(2,4,3)] cc by (rule if_not_P)
  qed
  also have "\<dots> = bcc68 E cc (sx (pc s + 2) + (of_nat d - (if ?q < 2 then 0 else 256))) (fetched s)"
    unfolding op_bcc_def Let_def off by simp
  finally show ?thesis
    using assms(1,2) unfolding bcc68_def lo
    by (auto simp: is_cc_holds set_pc_def fetched_def)
qed

text \<open>The relation each condition stands for after \<open>CMP a,b\<close>: HI, LS, CC, CS, NE, EQ on unsigned
  values, GE, LT, GT, LE on signed ones.\<close>

definition cmp_rel :: "nat \<Rightarrow> 'a::len word \<Rightarrow> 'a word \<Rightarrow> bool" where
  "cmp_rel cc a b =
    (let p = (if cc div 2 = 1 then a < b else if cc div 2 = 2 then a \<le> b
              else if cc div 2 = 3 then a \<noteq> b else if cc div 2 = 6 then a \<le>s b else a <s b)
     in if even cc then p else \<not> p)"

lemma bit_4_2_1: "bit (16 :: s32) n \<longleftrightarrow> n = 4" "bit (8 :: s32) n \<longleftrightarrow> n = 3" "bit (4 :: s32) n \<longleftrightarrow> n = 2" "bit (2 :: s32) n \<longleftrightarrow> n = 1"
proof -
  have e: "(16 :: s32) = push_bit 4 1" "(8 :: s32) = push_bit 3 1" "(4 :: s32) = push_bit 2 1" "(2 :: s32) = push_bit 1 1" by simp_all
  show "bit (16 :: s32) n \<longleftrightarrow> n = 4" "bit (8 :: s32) n \<longleftrightarrow> n = 3" "bit (4 :: s32) n \<longleftrightarrow> n = 2" "bit (2 :: s32) n \<longleftrightarrow> n = 1"
    unfolding e by (simp_all only: bit_push_bit_iff) (auto simp: bit_1_iff)
qed

lemma mk_ccr_bits:
  "bit (mk_ccr x n z v c) 0 = c" "bit (mk_ccr x n z v c) 1 = v" "bit (mk_ccr x n z v c) 2 = z"
  "bit (mk_ccr x n z v c) 3 = n" "bit (mk_ccr x n z v c) 4 = x"
  by (auto simp: mk_ccr_def bit_or_iff bit_1_iff bit_4_2_1 simp del: bit_numeral_iff)

lemma old_bits: "k < 4 \<Longrightarrow> \<not> bit ((old AND 0xFF10) :: s32) k"
proof -
  have e: "(0xFF10 :: s32) = push_bit 4 0xFF1" by simp
  show "k < 4 \<Longrightarrow> \<not> bit ((old AND 0xFF10) :: s32) k"
    unfolding e by (simp only: bit_and_iff bit_push_bit_iff) simp
qed

lemma signed_le_signs:
  fixes a b :: "'a::len word"
  shows "a \<le>s b \<longleftrightarrow> neg_w (b - a) = (sint b - sint a \<noteq> sint (b - a))"
proof -
  note v = sub_overflow_signs [where x = False, simplified, OF refl, of b a]
  show ?thesis
  proof (cases "neg_w a = neg_w b")
    case True
    then have "sint (b - a) = sint b - sint a" using v by auto
    then show ?thesis unfolding neg_w_sint word_sle_eq by auto
  next
    case False
    then show ?thesis unfolding v neg_w_sint word_sle_eq by auto
  qed
qed

lemma cmp_sr_bits:
  fixes a b :: "'a::len word"
  shows "bit (cmp_sr old a b) 0 \<longleftrightarrow> b < a" "bit (cmp_sr old a b) 2 \<longleftrightarrow> a = b"
    "bit (cmp_sr old a b) 3 = bit (cmp_sr old a b) 1 \<longleftrightarrow> a \<le>s b"
  unfolding cmp_sr_def Let_def signed_le_signs
  by (simp_all only: bit_or_iff mk_ccr_bits) (auto simp: old_bits word_less_def)

lemma sless_iff: "a <s b \<longleftrightarrow> a \<le>s b \<and> a \<noteq> b"
  by (auto simp: word_sless_alt word_sle_eq sint_eq_iff)

lemma cmp_conditions:
  assumes "cc < 16" "cc \<notin> {0, 1, 8, 9, 10, 11}"
  shows "cc_holds cc (cmp_sr old a b) \<longleftrightarrow> cmp_rel cc a b"
proof -
  have c: "cc = 2 \<or> cc = 3 \<or> cc = 4 \<or> cc = 5 \<or> cc = 6 \<or> cc = 7 \<or> cc = 12 \<or> cc = 13 \<or> cc = 14 \<or> cc = 15"
    using nat_less_16 [OF assms(1)] assms(2) by blast
  show ?thesis
    unfolding cc_holds_def cmp_rel_def Let_def cmp_sr_bits sless_iff
    using c by (elim disjE) (auto simp: less_le not_less not_le)
qed
end
