(* ===== verification/Flow68.thy ===== *)
theory Flow68
  imports Insn68
begin

text \<open>
  Operations that undo each other: subroutine call and return, stack frames, exception entry
  and return, and \<open>MOVEM\<close> to and from the stack; and the addressing modes that move an
  address register.

  Between the two halves any code may run.  What it has to leave alone is stated for the
  bytes of the stack that matter, so the lemmas apply to every well behaved body.
\<close>

section \<open>Stack in RAM\<close>

text \<open>The state \<open>u\<close> still sees, at address \<open>a\<close> of the state \<open>t\<close>, the value of size \<open>sz\<close> of \<open>t\<close>.\<close>

definition keeps :: "'c emu68 \<Rightarrow> 'c emu68 \<Rightarrow> size68 \<Rightarrow> int68 \<Rightarrow> bool" where
  "keeps t u sz a \<longleftrightarrow> memmsk u = memmsk t \<and> memio u = memio t \<and>
     ram_get sz (mem u) (mem_index t a) = ram_get sz (mem t) (mem_index t a)"

lemma keeps_refl: "keeps t t sz a"
  by (simp add: keeps_def)

lemma keeps_read:
  assumes "ram_at t a" "keeps t u sz a"
  shows "fst (read68 E sz a u) = fst (read68 E sz a t)"
    and "reg (snd (read68 E sz a u)) = reg u" and "mem (snd (read68 E sz a u)) = mem u"
    and "memmsk (snd (read68 E sz a u)) = memmsk u" and "memio (snd (read68 E sz a u)) = memio u"
proof -
  have u: "ram_at u a" using assms by (simp add: ram_at_def keeps_def)
  show "fst (read68 E sz a u) = fst (read68 E sz a t)"
    using assms(2) unfolding read68_ram(1) [OF u] read68_ram(1) [OF assms(1)]
    by (simp add: keeps_def mem_index_def)
  show "reg (snd (read68 E sz a u)) = reg u" "mem (snd (read68 E sz a u)) = mem u"
    "memmsk (snd (read68 E sz a u)) = memmsk u" "memio (snd (read68 E sz a u)) = memio u"
    by (simp_all add: read68_ram [OF u])
qed

text \<open>The state after a push, on a stack in RAM.\<close>

lemma pushl_ram:
  assumes "ram_at s (sx (areg s 7 - 4))"
  shows "areg (mem68_pushl E v s) 7 = areg s 7 - 4"
    and "fst (read68 E SzL (sx (areg s 7 - 4)) (mem68_pushl E v s)) = u32_of v"
    and "ram_at (mem68_pushl E v s) (sx (areg s 7 - 4))"
    and "reg (mem68_pushl E v s) = reg (set_areg 7 (areg s 7 - 4) s)"
    and "memmsk (mem68_pushl E v s) = memmsk s" and "memio (mem68_pushl E v s) = memio s"
proof -
  let ?t = "set_areg 7 (areg s 7 - 4) s" and ?a = "sx (areg s 7 - 4)"
  have r: "ram_at ?t ?a" using assms by (simp add: ram_at_def)
  have p: "mem68_pushl E v s = write68 E SzL ?a v ?t"
    by (simp add: mem68_pushl_def Let_def)
  show "areg (mem68_pushl E v s) 7 = areg s 7 - 4"
    unfolding p write68_ram(2) [OF r] by simp
  show "fst (read68 E SzL ?a (mem68_pushl E v s)) = u32_of v"
    unfolding p read_after_write [OF r] by simp
  show "ram_at (mem68_pushl E v s) ?a"
    using r unfolding p ram_at_def write68_ram [OF r] .
  show "reg (mem68_pushl E v s) = reg ?t" "memmsk (mem68_pushl E v s) = memmsk s"
    "memio (mem68_pushl E v s) = memio s"
    unfolding p write68_ram [OF r] by simp_all
qed

lemma s32_u32_sx: "s32_of (u32_of (sx x)) = sx x"
  by (simp add: ucast_ucast_low)

section \<open>Calls and frames\<close>

lemma rts_after_push:
  assumes ram: "ram_at s (sx (areg s 7 - 4))"
    and t: "t = mem68_pushl E (sx (pc s)) s"
    and u: "areg u 7 = areg t 7" "keeps t u SzL (sx (areg t 7))"
  shows "pc (inl_rts68 E u) = pc s" and "areg (inl_rts68 E u) 7 = areg s 7"
    and "i \<noteq> 15 \<Longrightarrow> dreg (inl_rts68 E u) i = dreg u i"
    and "sr (inl_rts68 E u) = sr u" and "mem (inl_rts68 E u) = mem u"
proof -
  note p = pushl_ram [OF ram, of E "sx (pc s)", folded t]
  have a: "areg u 7 = areg s 7 - 4" using u(1) p(1) by simp
  note r = keeps_read [OF p(3) u(2) [unfolded p(1)], of E]
  show "pc (inl_rts68 E u) = pc s"
    unfolding inl_rts68_def mem68_popl_def Let_def split_def a
    using r p by (simp add: s32_u32_sx)
  show "areg (inl_rts68 E u) 7 = areg s 7" "i \<noteq> 15 \<Longrightarrow> dreg (inl_rts68 E u) i = dreg u i"
    "sr (inl_rts68 E u) = sr u" "mem (inl_rts68 E u) = mem u"
    unfolding inl_rts68_def mem68_popl_def Let_def split_def a
    using r p a by simp_all
qed

section \<open>Stack frames\<close>

lemma unlk_after_link:
  assumes r: "r < 7" and ram: "ram_at s (sx (areg s 7 - 4))"
    and t: "t = inl_link68 E r s" 
    and code: "ram_at s (sx (pc s))"
    and u: "areg u r = areg s 7 - 4" "memmsk u = memmsk s" "memio u = memio s"
      "ram_get SzL (mem u) (mem_index s (sx (areg s 7 - 4))) = ram_get SzL (mem t) (mem_index s (sx (areg s 7 - 4)))"
  shows "areg t r = areg s 7 - 4" and "areg (inl_unlk68 E r u) r = areg s r" and "areg (inl_unlk68 E r u) 7 = areg s 7"
    and "i \<noteq> 15 \<Longrightarrow> i \<noteq> 8 + r \<Longrightarrow> dreg (inl_unlk68 E r u) i = dreg u i"
    and "pc (inl_unlk68 E r u) = pc u" and "mem (inl_unlk68 E r u) = mem u"
proof -
  let ?p = "mem68_pushl E (sx (areg s r)) s" and ?a = "sx (areg s 7 - 4)"
  note p = pushl_ram [OF ram, of E "sx (areg s r)"]
  define q where "q = set_areg r (areg ?p 7) ?p"
  have q: "reg q = (reg ?p)\<lparr>reg_d := (reg_d (reg ?p))(8 + r := areg ?p 7)\<rparr>" "mem q = mem ?p"
    by (simp_all add: q_def reg_set_areg)
  have "ram_at q (sx (pc q))"
    using code by (simp add: ram_at_def q_def p)
  note n = nextw_ram(2,3) [OF this, of E]
  have t': "t = (let (w, u) = mem68_nextw E q in set_areg 7 (lo32 (sx (areg ?p 7) + w)) u)"
    unfolding t inl_link68_def Let_def q_def [symmetric] using r by (simp add: q_def split_def)
  show ar: "areg t r = areg s 7 - 4"
    using r unfolding t' split_def Let_def by (simp add: n q set_pc_def p(1) [simplified])
  have m: "mem t = mem ?p"
    unfolding t' split_def Let_def by (simp add: n q)
  have ua: "ram_at u ?a" using ram u by (simp add: ram_at_def)
  define v where "v = set_areg 7 (areg u r) u"
  define a where "a = sx (areg s 7 - 4)"
  have va: "ram_at v a" using ua by (simp add: ram_at_def v_def a_def)
  have i: "mem_index v a = mem_index s a" "mem_index ?p a = mem_index s a"
    using u p by (simp_all add: mem_index_def v_def)
  have mv: "mem v = mem u" "reg v = (reg u)\<lparr>reg_d := (reg_d (reg u))(15 := areg u r)\<rparr>"
    by (simp_all add: v_def reg_set_areg)
  have rd: "fst (read68 E SzL a v) = u32_of (sx (areg s r))"
    unfolding read68_ram(1) [OF va] i
    using p(2) [folded a_def, unfolded read68_ram(1) [OF p(3), folded a_def] i] u m
    by (simp add: mv a_def)
  note rv = rd read68_ram [OF va, of E SzL]
  have a7: "sx (areg v 7) = a" using u by (simp add: a_def mv)
  show "areg (inl_unlk68 E r u) r = areg s r" "areg (inl_unlk68 E r u) 7 = areg s 7"
    "i \<noteq> 15 \<Longrightarrow> i \<noteq> 8 + r \<Longrightarrow> dreg (inl_unlk68 E r u) i = dreg u i"
    "pc (inl_unlk68 E r u) = pc u" "mem (inl_unlk68 E r u) = mem u"
    unfolding inl_unlk68_def mem68_popl_def Let_def split_def v_def [symmetric] a7
    using r by (simp_all add: rv s32_u32_sx reg_set_areg u mv)
qed

section \<open>Exceptions\<close>

text \<open>The exceptions that build a stack frame: all but reset and the double faults.\<close>

definition stacks_frame :: "nat \<Rightarrow> 'c emu68 \<Rightarrow> bool" where
  "stacks_frame v s \<longleftrightarrow> 0 < v \<and> v < 0x100 \<and>
     \<not> (status s = EMU68_XCT \<and> (v = BUSERR_VECTOR \<or> v = ADRERR_VECTOR))"

text \<open>The frame lies in RAM and does not wrap around its end.\<close>

definition stack_room :: "'c emu68 \<Rightarrow> bool" where
  "stack_room s \<longleftrightarrow> ram_at s (sx (areg s 7 - 4)) \<and> ram_at s (sx (areg s 7 - 6)) \<and>
     mem_index s (sx (areg s 7 - 6)) + 2 = mem_index s (sx (areg s 7 - 4))"

definition entry_sr :: "s32 \<Rightarrow> int \<Rightarrow> s32" where
  "entry_sr old level =
    (let x = (old AND NOT (lo32 SR_T)) OR lo32 SR_S
     in if 0 \<le> level \<and> level < 8 then SET_IPL x (of_int level) else x)"

definition pushed68 :: "'c env68 \<Rightarrow> int \<Rightarrow> 'c emu68 \<Rightarrow> 'c emu68" where
  "pushed68 E level s =
    mem68_pushw E (sx (sr s)) (mem68_pushl E (sx (pc s)) (set_sr (entry_sr (sr s) level) (s\<lparr>status := EMU68_XCT\<rparr>)))"

lemma exception_eq:
  assumes "stacks_frame v s" "handler s = None" "handler (snd (read68 E SzL (of_nat (v * 4)) (pushed68 E level s))) = None"
  shows "exception68 E v level s =
    (let (w, t) = read68 E SzL (of_nat (v * 4)) (pushed68 E level s)
     in (set_pc (lo32 w) t)\<lparr>status := status s\<rparr>)"
  using assms
  by (auto simp: exception68_def stacks_frame_def pushed68_def entry_sr_def Let_def split_def
      call_handler_def RESET_SP_VECTOR_def set_pc_def set_sr_def)

lemma pushed68_ram:
  assumes "stack_room s"
  shows "areg (pushed68 E level s) 7 = areg s 7 - 6"
    and "i \<noteq> 15 \<Longrightarrow> dreg (pushed68 E level s) i = dreg s i"
    and "sr (pushed68 E level s) = entry_sr (sr s) level"
    and "memmsk (pushed68 E level s) = memmsk s" "memio (pushed68 E level s) = memio s"
    and "handler (pushed68 E level s) = handler s"
    and "mem (pushed68 E level s) = ram_put SzW (sx (sr s)) (mem_index s (sx (areg s 7 - 6)))
       (ram_put SzL (sx (pc s)) (mem_index s (sx (areg s 7 - 4))) (mem s))"
proof -
  define x where "x = set_sr (entry_sr (sr s) level) (s\<lparr>status := EMU68_XCT\<rparr>)"
  define y where "y = set_areg 7 (areg s 7 - 4) x"
  define z where "z = write68 E SzL (sx (areg s 7 - 4)) (sx (pc s)) y"
  define w where "w = set_areg 7 (areg s 7 - 6) z"
  have x: "reg x = (reg s)\<lparr>reg_sr := entry_sr (sr s) level\<rparr>" "mem x = mem s" "memmsk x = memmsk s"
     "memio x = memio s" "handler x = handler s"
    by (simp_all add: x_def set_sr_def)
  have ry: "ram_at y (sx (areg s 7 - 4))" using assms
    by (simp add: stack_room_def ram_at_def y_def x)
  note z = write68_ram [OF ry, of E SzL "sx (pc s)", folded z_def]
  have rw: "ram_at w (sx (areg s 7 - 6))" using assms
    by (simp add: stack_room_def ram_at_def w_def z y_def x)
  have a7: "areg z 7 - 2 = areg s 7 - 6" unfolding z(2) y_def by simp
  have pz: "mem68_pushl E (sx (pc s)) x = z"
    by (simp add: mem68_pushl_def z_def y_def x)
  have pw: "mem68_pushw E v z = write68 E SzW (sx (areg s 7 - 6)) v w" for v
    unfolding mem68_pushw_def Let_def a7 w_def by simp
  have p: "pushed68 E level s = write68 E SzW (sx (areg s 7 - 6)) (sx (sr s)) w"
    unfolding pushed68_def x_def [symmetric] pz pw by (rule refl)
  note q = write68_ram [OF rw, of E SzW "sx (sr s)", folded p]
  have h: "handler y = handler s" "handler w = handler z" by (simp_all add: y_def w_def x set_reg_defs)
  have m: "mem y = mem s" "memmsk y = memmsk s" "memio y = memio s" by (simp_all add: y_def x)
  have m': "mem w = mem z" "memmsk w = memmsk z" "memio w = memio z" by (simp_all add: w_def)
  show "areg (pushed68 E level s) 7 = areg s 7 - 6"
    "i \<noteq> 15 \<Longrightarrow> dreg (pushed68 E level s) i = dreg s i"
    "sr (pushed68 E level s) = entry_sr (sr s) level"
    unfolding q(2) w_def reg_set_areg z(2) y_def by (simp_all add: x)
  show "memmsk (pushed68 E level s) = memmsk s" "memio (pushed68 E level s) = memio s"
    "handler (pushed68 E level s) = handler s"
    using q z m m' h by simp_all
  show "mem (pushed68 E level s) = ram_put SzW (sx (sr s)) (mem_index s (sx (areg s 7 - 6)))
       (ram_put SzL (sx (pc s)) (mem_index s (sx (areg s 7 - 4))) (mem s))"
    unfolding q(1) m'(1) z(1) m(1) using z(3) m m' by (simp add: mem_index_def)
qed

lemma exception_entry:
  assumes v: "stacks_frame v s" and h: "handler s = None" and st: "stack_room s"
    and vec: "ram_at s (of_nat (v * 4))" and t: "t = exception68 E v level s"
  shows "pc t = lo32 (ram_get SzL (mem t) (mem_index s (of_nat (v * 4))))"
    and "areg t 7 = areg s 7 - 6" and "i \<noteq> 15 \<Longrightarrow> dreg t i = dreg s i"
    and "sr t = entry_sr (sr s) level" and "status t = status s"
    and "memmsk t = memmsk s" and "memio t = memio s"
    and "mem t = ram_put SzW (sx (sr s)) (mem_index s (sx (areg s 7 - 6)))
       (ram_put SzL (sx (pc s)) (mem_index s (sx (areg s 7 - 4))) (mem s))"
proof -
  note p = pushed68_ram [OF st, where E = E and level = level]
  have r: "ram_at (pushed68 E level s) (of_nat (v * 4))" using vec by (simp add: ram_at_def p)
  note q = read68_ram [OF r, of E SzL]
  have "handler (snd (read68 E SzL (of_nat (v * 4)) (pushed68 E level s))) = None"
    unfolding q(7) p(6) by (rule h)
  note e = exception_eq [OF v h this, folded t]
  have i: "mem_index (pushed68 E level s) a = mem_index s a" for a by (simp add: mem_index_def p)
  have lo: "lo32 (u32_of x) = lo32 x" for x by (rule bit_word_eqI) (simp add: bit_simps)
  show "pc t = lo32 (ram_get SzL (mem t) (mem_index s (of_nat (v * 4))))"
    unfolding e Let_def split_def by (simp add: q i lo set_pc_def del: of_nat_mult)
  show "areg t 7 = areg s 7 - 6" "i \<noteq> 15 \<Longrightarrow> dreg t i = dreg s i"
    "sr t = entry_sr (sr s) level" "status t = status s"
    "memmsk t = memmsk s" "memio t = memio s"
    "mem t = ram_put SzW (sx (sr s)) (mem_index s (sx (areg s 7 - 6)))
       (ram_put SzL (sx (pc s)) (mem_index s (sx (areg s 7 - 4))) (mem s))"
    unfolding e Let_def split_def using p(1)
    by (simp_all add: q p(2-) set_pc_def del: of_nat_mult)
qed

lemma rte_after_exception:
  assumes v: "stacks_frame v s" and h: "handler s = None" and st: "stack_room s"
    and vec: "ram_at s (of_nat (v * 4))" and t: "t = exception68 E v level s"
    and u: "areg u 7 = areg t 7" "keeps t u SzW (sx (areg s 7 - 6))" "keeps t u SzL (sx (areg s 7 - 4))"
  shows "pc (inl_rte68 E u) = pc s" and "sr (inl_rte68 E u) = sr s AND 0xFFFF"
    and "areg (inl_rte68 E u) 7 = areg s 7" and "i \<noteq> 15 \<Longrightarrow> dreg (inl_rte68 E u) i = dreg u i"
    and "mem (inl_rte68 E u) = mem u"
proof -
  note e = exception_entry [OF v h st vec t]
  define a where "a = sx (areg s 7 - 6)"
  define b where "b = sx (areg s 7 - 4)"
  have idx: "mem_index s a + 2 = mem_index s b" using st by (simp add: stack_room_def a_def b_def)
  have m: "memmsk u = memmsk s" "memio u = memio s" using u e by (auto simp: keeps_def)
  have i: "mem_index x c = mem_index s c" if "memmsk x = memmsk s" for x :: "'a emu68" and c
    using that by (simp add: mem_index_def)
  have k: "ram_get SzW (mem u) (mem_index s a) = ram_get SzW (mem t) (mem_index s a)"
    "ram_get SzL (mem u) (mem_index s b) = ram_get SzL (mem t) (mem_index s b)"
    using u(2,3) unfolding keeps_def a_def [symmetric] b_def [symmetric] i [OF e(6)] by blast+
  note mt = e(8) [folded a_def b_def]
  have gw: "trunc68 SzW (ram_get SzW (mem u) (mem_index s a)) = u16_of (sx (sr s))"
    unfolding k mt ram_get_put by (rule trunc68.simps)
  have off: "mem_index s b + bytes68 SzL \<le> mem_index s a \<or> mem_index s a + bytes68 SzW \<le> mem_index s b"
    using idx by simp
  have gl: "trunc68 SzL (ram_get SzL (mem u) (mem_index s b)) = u32_of (sx (pc s))"
    unfolding k mt ram_get_put_other [OF off] ram_get_put by (rule trunc68.simps)
  have ra: "ram_at u a" "ram_at u b"
    using st m by (simp_all add: stack_room_def ram_at_def a_def b_def)
  have a7: "sx (areg u 7) = a" using u(1) e(2) by (simp add: a_def)
  define w where "w = snd (read68 E SzW a u)"
  note rw = read68_ram [OF ra(1), of E SzW, folded w_def]
  define x where "x = set_sr (lo32 (u16_of (sx (sr s)))) (set_areg 7 (areg s 7 - 4) w)"
  have x: "ram_at x b" "mem x = mem u" "memmsk x = memmsk s"
    using ra(2) rw m by (simp_all add: ram_at_def x_def)
  have b7: "sx (areg x 7) = b" by (simp add: x_def b_def)
  note rx = read68_ram [OF x(1), of E SzL]
  have lo: "lo32 (u16_of (sx y)) = y AND mask 16" for y :: s32
    by (rule bit_word_eqI) (auto simp: bit_simps)
  have "mask 16 = (0xFFFF :: s32)" by (simp add: mask_eq_exp_minus_1)
  note lo = lo [unfolded this]
  have w7: "areg w 7 + 2 = areg s 7 - 4" using u(1) e(2) by (simp add: rw)
  have pop: "mem68_popw E u = (u16_of (sx (sr s)), set_areg 7 (areg s 7 - 4) w)"
    unfolding mem68_popw_def Let_def split_def a7 w_def [symmetric] w7 rw(1) i [OF m(1)] gw s32_u16
    by (rule refl)
  have rte: "inl_rte68 E u = (let (v, s) = mem68_popl E x in set_pc (lo32 v) s)"
    unfolding inl_rte68_def pop by (simp add: x_def)
  have vx: "fst (read68 E SzL b x) = u32_of (sx (pc s))"
    unfolding rx(1) x(2) i [OF x(3)] by (rule gl)
  have sx: "sr x = sr s AND 0xFFFF" unfolding x_def set_reg_fields by (rule lo)
  have dx: "i \<noteq> 15 \<Longrightarrow> dreg x i = dreg u i" for i by (simp add: x_def rw)
  have x7: "areg x 7 = areg s 7 - 4" by (simp add: x_def)
  show "pc (inl_rte68 E u) = pc s" "sr (inl_rte68 E u) = sr s AND 0xFFFF"
    "areg (inl_rte68 E u) 7 = areg s 7" "i \<noteq> 15 \<Longrightarrow> dreg (inl_rte68 E u) i = dreg u i"
    "mem (inl_rte68 E u) = mem u"
    unfolding rte mem68_popl_def Let_def split_def b7
    using x7 by (simp_all add: vx rx sx dx x(2) s32_u32_sx)
qed

lemma call_return:
  assumes ram: "ram_at s (sx (areg s 7 - 4))"
    and t: "t = inl_jsr68 E a s \<or> t = inl_bsr68 E a s"
    and u: "areg u 7 = areg t 7" "keeps t u SzL (sx (areg t 7))"
  shows "pc t = lo32 a" and "pc (inl_rts68 E u) = pc s" and "areg (inl_rts68 E u) 7 = areg s 7"
    and "i \<noteq> 15 \<Longrightarrow> dreg (inl_rts68 E u) i = dreg u i"
    and "sr (inl_rts68 E u) = sr u" and "mem (inl_rts68 E u) = mem u"
proof -
  define p where "p = mem68_pushl E (sx (pc s)) s"
  have f: "mem t = mem p" "memmsk t = memmsk p" "memio t = memio p" "dreg t = dreg p" "pc t = lo32 a"
    using t by (auto simp: inl_jsr68_def inl_bsr68_def Let_def p_def inl_addcycle68_def)
  have k: "areg u 7 = areg p 7" "keeps p u SzL (sx (areg p 7))"
    using u f by (simp_all add: keeps_def mem_index_def)
  show "pc t = lo32 a" by (rule f)
  show "pc (inl_rts68 E u) = pc s" "areg (inl_rts68 E u) 7 = areg s 7"
    "i \<noteq> 15 \<Longrightarrow> dreg (inl_rts68 E u) i = dreg u i"
    "sr (inl_rts68 E u) = sr u" "mem (inl_rts68 E u) = mem u"
    by (rule rts_after_push [OF ram p_def k]; assumption)+
qed

lemma double_fault:
  assumes "status s = EMU68_XCT" "v = BUSERR_VECTOR \<or> v = ADRERR_VECTOR" "handler s = None"
  shows "status (exception68 E v level s) = EMU68_HLT"
    and "fst (emu68_error_get (exception68 E v level s)) = Some (DoubleFault (inst_pc s) v)"
    and "mem (exception68 E v level s) = mem s" and "pc (exception68 E v level s) = pc s"
    and "dreg (exception68 E v level s) = dreg s"
  using assms
  by (auto simp: exception68_def call_handler_def BUSERR_VECTOR_def ADRERR_VECTOR_def set_sr_def
      emu68_error_get_def emu68_error_add_def Let_def)

section \<open>Predecrement and postincrement\<close>

lemma ea_push_pop:
  assumes r: "r < 8" and a: "a = sx (areg s r - ea_step sz r)" and ram: "ram_at s a"
  shows "fst (read_EA E sz 3 r (write_EA E sz 4 r v s)) = trunc68 sz v"
    and "areg (write_EA E sz 4 r v s) r = areg s r - ea_step sz r"
    and "reg (snd (read_EA E sz 3 r (write_EA E sz 4 r v s))) = reg s"
    and "mem (snd (read_EA E sz 3 r (write_EA E sz 4 r v s))) = mem (write_EA E sz 4 r v s)"
proof -
  define t where "t = set_areg r (areg s r - ea_step sz r) s"
  have w: "write_EA E sz 4 r v s = write68 E sz a v t"
    by (simp add: write_EA_def get_ea68_def ea_inmAN_def write68_def t_def a Let_def)
  have rt: "ram_at t a" using ram by (simp add: ram_at_def t_def)
  define u where "u = write68 E sz a v t"
  note u = write68_ram [OF rt, where E = E and sz = sz and v = v, folded u_def]
  have ar: "areg u r = areg s r - ea_step sz r" unfolding u by (simp add: t_def)
  define x where "x = set_areg r (areg s r) u"
  have ea: "get_ea68 E sz 3 r u = (a, x)"
    by (simp add: get_ea68_def ea_inANp_def ar a x_def)
  have rd: "read_EA E sz 3 r u = read68 E sz a x"
    by (simp add: read_EA_def ea read68_def)
  have ru: "ram_at u a" using rt by (simp add: ram_at_def u)
  have rx: "ram_at x a" using ru by (simp add: ram_at_def x_def)
  have mx: "mem_index x a = mem_index u a" "mem x = mem u" by (simp_all add: mem_index_def x_def)
  have "fst (read68 E sz a x) = fst (read68 E sz a u)"
    unfolding read68_ram(1) [OF rx] read68_ram(1) [OF ru] mx ..
  then show "fst (read_EA E sz 3 r (write_EA E sz 4 r v s)) = trunc68 sz v"
    unfolding w u_def [symmetric] rd using read_after_write [OF rt] by (simp add: u_def)
  show "areg (write_EA E sz 4 r v s) r = areg s r - ea_step sz r"
    unfolding w u_def [symmetric] by (rule ar)
  have "reg x = reg s"
    by (rule reg68.equality) (simp_all add: x_def reg_set_areg u t_def fun_eq_iff)
  then show "reg (snd (read_EA E sz 3 r (write_EA E sz 4 r v s))) = reg s"
    unfolding w u_def [symmetric] rd read68_ram(2) [OF rx] .
  show "mem (snd (read_EA E sz 3 r (write_EA E sz 4 r v s))) = mem (write_EA E sz 4 r v s)"
    unfolding w u_def [symmetric] rd read68_ram(3) [OF rx] mx ..
qed

end
