(* ===== verification/Movem68.thy ===== *)
theory Movem68
  imports Flow68
begin

text \<open>
  \<open>MOVEM.L\<close> to and from the stack (\<open>movemmeml\<close> and \<open>movemregl\<close> of \<open>emu68/lines/line4.c\<close>).  The
  loops over the register mask are folds over the list of registers it selects; storing a
  list with predecrement and loading it with postincrement restores the registers.
\<close>

section \<open>Register lists\<close>

text \<open>The registers a \<open>MOVEM\<close> mask selects, lowest first.\<close>

definition mask_regs :: "nat \<Rightarrow> nat list" where
  "mask_regs m = filter (bit m) [0..<16]"

lemma filter_bit_shift:
  "filter (bit m) [0..<Suc n] = (if odd m then [0] else []) @ map Suc (filter (bit (m div 2)) [0..<n])"
proof -
  have "[0..<Suc n] = 0 # map Suc [0..<n]" by (simp only: upt_conv_Cons [OF zero_less_Suc] map_Suc_upt)
  then show ?thesis by (simp add: filter_map comp_def bit_Suc bit_0)
qed

lemma movem_load_list:
  "m < 2 ^ n \<Longrightarrow> movem_load E sz m r l s =
    fold (\<lambda>i (l, s). let (v, s) = read68 E sz l s
       in (l + of_nat (bytes68 sz), set_dreg (r + i) (lo32 v) s)) (filter (bit m) [0..<n]) (l, s)"
proof (induction n arbitrary: m r l s)
  case 0
  then show ?case by (simp add: movem_load.simps)
next
  case (Suc n)
  have m: "m div 2 < 2 ^ n" using Suc.prems by simp
  have g: "fold f (map Suc xs) = fold (\<lambda>i. f (Suc i)) xs" for f :: "nat \<Rightarrow> int68 \<times> 'a emu68 \<Rightarrow> int68 \<times> 'a emu68" and xs
    by (simp add: fold_map comp_def)
  show ?case
  proof (cases "m = 0")
    case True
    then show ?thesis by (simp add: movem_load.simps)
  next
    case False
    note list = filter_bit_shift [of m n] g fold_append fold.simps comp_apply id_apply
    show ?thesis
    proof (cases "odd m")
      case True
      then show ?thesis
        using False by (subst movem_load.simps) (simp add: list Let_def split_def Suc.IH [OF m] del: upt_Suc)
    next
      case even: False
      then show ?thesis
        using False by (subst movem_load.simps) (simp add: list Suc.IH [OF m] del: upt_Suc)
    qed
  qed
qed

lemma movem_push_list:
  "m < 2 ^ n \<Longrightarrow> movem_push E sz m r l s =
    fold (\<lambda>i (l, s). (l - of_nat (bytes68 sz), write68 E sz (l - of_nat (bytes68 sz)) (sx (dreg s (r - i))) s))
       (filter (bit m) [0..<n]) (l, s)"
proof (induction n arbitrary: m r l s)
  case 0
  then show ?case by (simp add: movem_push.simps)
next
  case (Suc n)
  have m: "m div 2 < 2 ^ n" using Suc.prems by simp
  have g: "fold f (map Suc xs) = fold (\<lambda>i. f (Suc i)) xs" for f :: "nat \<Rightarrow> int68 \<times> 'a emu68 \<Rightarrow> int68 \<times> 'a emu68" and xs
    by (simp add: fold_map comp_def)
  show ?case
  proof (cases "m = 0")
    case True
    then show ?thesis by (simp add: movem_push.simps)
  next
    case False
    note list = filter_bit_shift [of m n] g fold_append fold.simps comp_apply id_apply
    show ?thesis
    proof (cases "odd m")
      case True
      then show ?thesis
        using False by (subst movem_push.simps) (simp add: list Let_def split_def Suc.IH [OF m] del: upt_Suc)
    next
      case even: False
      then show ?thesis
        using False by (subst movem_push.simps) (simp add: list Suc.IH [OF m] del: upt_Suc)
    qed
  qed
qed

lemma mask_regs_rev:
  assumes "\<And>i. i < 16 \<Longrightarrow> bit m' i \<longleftrightarrow> bit m (15 - i)"
  shows "map ((-) 15) (filter (bit m) [0..<16]) = rev (mask_regs m')"
proof -
  have u: "map ((-) 15) [0..<16] = rev [0..<16 :: nat]"
    by (simp add: upt_rec)
  have "rev (mask_regs m') = filter (bit m') (map ((-) 15) [0..<16])"
    unfolding mask_regs_def u rev_filter ..
  also have "\<dots> = map ((-) 15) (filter (bit m) [0..<16])"
    unfolding filter_map using assms by (auto intro!: arg_cong [where f = "map _"] filter_cong)
  finally show ?thesis by simp
qed

text \<open>\<open>n\<close> long words below the address \<open>l\<close>, in RAM and without a wrap; \<open>hi\<close> is the index of \<open>l\<close>.\<close>

definition long_block :: "'c emu68 \<Rightarrow> int68 \<Rightarrow> nat \<Rightarrow> nat \<Rightarrow> bool" where
  "long_block s l hi n \<longleftrightarrow>
     (\<forall>k<n. ram_at s (l - of_nat (4 * Suc k)) \<and> mem_index s (l - of_nat (4 * Suc k)) + 4 * Suc k = hi)"

definition push_reg :: "'c env68 \<Rightarrow> nat \<Rightarrow> int68 \<times> 'c emu68 \<Rightarrow> int68 \<times> 'c emu68" where
  "push_reg E i = (\<lambda>(l, s). (l - 4, write68 E SzL (l - 4) (sx (dreg s i)) s))"

definition pop_reg :: "'c env68 \<Rightarrow> nat \<Rightarrow> int68 \<times> 'c emu68 \<Rightarrow> int68 \<times> 'c emu68" where
  "pop_reg E i = (\<lambda>(l, s). let (v, s) = read68 E SzL l s in (l + 4, set_dreg i (lo32 v) s))"

lemma push_reg_pair: "push_reg E i (l, s) = (l - 4, write68 E SzL (l - 4) (sx (dreg s i)) s)"
  by (simp add: push_reg_def)

lemma pop_reg_pair:
  "pop_reg E i (l, s) = (l + 4, set_dreg i (lo32 (fst (read68 E SzL l s))) (snd (read68 E SzL l s)))"
  by (simp add: pop_reg_def split_def Let_def)

lemma long_block_Cons:
  assumes "long_block s l hi (Suc n)"
  shows "ram_at s (l - 4)" "mem_index s (l - 4) + 4 = hi"
    and "memmsk t = memmsk s \<Longrightarrow> memio t = memio s \<Longrightarrow> long_block t (l - 4) (hi - 4) n"
proof -
  show "ram_at s (l - 4)" "mem_index s (l - 4) + 4 = hi"
    using assms [unfolded long_block_def, rule_format, of 0] by simp_all
  assume m: "memmsk t = memmsk s" "memio t = memio s"
  show "long_block t (l - 4) (hi - 4) n"
    unfolding long_block_def
  proof (intro allI impI)
    fix k assume "k < n"
    then have k: "ram_at s (l - of_nat (4 * Suc (Suc k)))"
      "mem_index s (l - of_nat (4 * Suc (Suc k))) + 4 * Suc (Suc k) = hi"
      using assms [unfolded long_block_def, rule_format, of "Suc k"] by auto
    have e: "l - of_nat (4 * Suc (Suc k)) = l - 4 - of_nat (4 * Suc k)"
      by (simp add: algebra_simps)
    show "ram_at t (l - 4 - of_nat (4 * Suc k)) \<and> mem_index t (l - 4 - of_nat (4 * Suc k)) + 4 * Suc k = hi - 4"
      using k unfolding e ram_at_def mem_index_def m by auto
  qed
qed

lemma push_regs_ram:
  assumes "long_block s l hi (length rs)" "fold (push_reg E) rs (l, s) = (l', t)"
  shows "l' = l - of_nat (4 * length rs) \<and> reg t = reg s \<and> memmsk t = memmsk s \<and> memio t = memio s \<and>
    (\<forall>j. hi \<le> j \<longrightarrow> mem t j = mem s j)"
  using assms
proof (induction rs arbitrary: s l hi)
  case (Cons r rs)
  define s1 where "s1 = write68 E SzL (l - 4) (sx (dreg s r)) s"
  note b = long_block_Cons [OF Cons.prems(1) [unfolded list.size add_0_right, simplified]]
  note w = write68_ram [OF b(1), of E SzL "sx (dreg s r)", folded s1_def]
  have "fold (push_reg E) rs (l - 4, s1) = (l', t)"
    using Cons.prems(2) by (simp add: push_reg_pair s1_def)
  from Cons.IH [OF b(3) [OF w(3,4)] this]
  have ih: "l' = l - 4 - of_nat (4 * length rs)" "reg t = reg s" "memmsk t = memmsk s" "memio t = memio s"
    "\<And>j. hi - 4 \<le> j \<Longrightarrow> mem t j = mem s1 j"
    using w by auto
  have "mem s1 j = mem s j" if "hi \<le> j" for j
    unfolding w(1) using that b(2) by (intro ram_put_other) simp
  then show ?case
    using ih by (auto simp: algebra_simps)
qed simp

lemma pop_regs_after_push:
  assumes "long_block s l hi (length rs)" "fold (push_reg E) rs (l, s) = (l', t)"
    and "memmsk u = memmsk s" "memio u = memio s"
    and "\<And>j. hi \<le> j + 4 * length rs \<Longrightarrow> j < hi \<Longrightarrow> mem u j = mem t j"
  shows "\<exists>v. fold (pop_reg E) (rev rs) (l', u) = (l, v) \<and> mem v = mem u \<and> memmsk v = memmsk u \<and> memio v = memio u \<and>
    reg v = (reg u)\<lparr>reg_d := (\<lambda>i. if i \<in> set rs then dreg s i else dreg u i)\<rparr>"
  using assms
proof (induction rs arbitrary: s l hi)
  case (Cons r rs)
  define s1 where "s1 = write68 E SzL (l - 4) (sx (dreg s r)) s"
  note b = long_block_Cons [OF Cons.prems(1) [unfolded list.size add_0_right, simplified]]
  note w = write68_ram [OF b(1), of E SzL "sx (dreg s r)", folded s1_def]
  have f: "fold (push_reg E) rs (l - 4, s1) = (l', t)"
    using Cons.prems(2) by (simp add: push_reg_pair s1_def)
  note p = push_regs_ram [OF b(3) [OF w(3,4)] f]
  have "\<And>j. hi - 4 \<le> j + 4 * length rs \<Longrightarrow> j < hi - 4 \<Longrightarrow> mem u j = mem t j"
    using Cons.prems(5) by simp
  from Cons.IH [OF b(3) [OF w(3,4)] f _ _ this] obtain v where
    v: "fold (pop_reg E) (rev rs) (l', u) = (l - 4, v)" "mem v = mem u" "memmsk v = memmsk u" "memio v = memio u"
      "reg v = (reg u)\<lparr>reg_d := (\<lambda>i. if i \<in> set rs then dreg s1 i else dreg u i)\<rparr>"
    using Cons.prems(3,4) w(3,4) by auto
  note regv = v(5) [unfolded w(2)]
  have rv: "ram_at v (l - 4)" using b(1) v Cons.prems by (simp add: ram_at_def)
  have i: "mem_index v (l - 4) = mem_index s (l - 4)" using v Cons.prems by (simp add: mem_index_def)
  have "ram_get SzL (mem v) (mem_index s (l - 4)) = ram_get SzL (mem s1) (mem_index s (l - 4))"
  proof (rule ram_get_cong)
    fix k assume "k < bytes68 SzL"
    then have "hi \<le> mem_index s (l - 4) + k + 4" "mem_index s (l - 4) + k < hi" using b(2) by auto
    then show "mem v (mem_index s (l - 4) + k) = mem s1 (mem_index s (l - 4) + k)"
      using Cons.prems(5) p v(2) by simp
  qed
  then have rd: "fst (read68 E SzL (l - 4) v) = u32_of (sx (dreg s r))"
    unfolding read68_ram(1) [OF rv] i w(1)
    using ram_get_put [of SzL] by (simp del: ram_get.simps ram_put.simps)
  note rr = read68_ram [OF rv, of E SzL]
  have lo: "lo32 (u32_of (sx x)) = x" for x by (rule bit_word_eqI) (auto simp: bit_simps)
  have e: "fold (pop_reg E) (rev (r # rs)) (l', u) = pop_reg E r (l - 4, v)"
    using v(1) by simp
  show ?case
    unfolding e pop_reg_pair
    by (rule exI [of _ "set_dreg r (dreg s r) (snd (read68 E SzL (l - 4) v))"])
      (auto simp: rd lo split_def rr v(2-4) regv set_dreg_def fun_eq_iff intro!: reg68.equality)
qed simp

lemma movem_load_pop:
  "m < 65536 \<Longrightarrow> movem_load E SzL m 0 l s = fold (pop_reg E) (mask_regs m) (l, s)"
  using movem_load_list [of m 16 E SzL 0 l s]
  by (simp add: mask_regs_def pop_reg_def [abs_def])

lemma movem_push_push:
  assumes "m < 65536" "\<And>i. i < 16 \<Longrightarrow> bit m' i \<longleftrightarrow> bit m (15 - i)"
  shows "movem_push E SzL m 15 l s = fold (push_reg E) (rev (mask_regs m')) (l, s)"
proof -
  have r: "rev (mask_regs m') = map ((-) 15) (filter (bit m) [0..<16])"
    using mask_regs_rev [of m' m] assms(2) by simp
  show ?thesis
    using movem_push_list [of m 16 E SzL 15 l s] assms(1)
    unfolding r fold_map comp_def by (simp add: push_reg_def [abs_def])
qed

lemma u16_bound: "unat (u16_of w) < 65536"
proof -
  have "unat (u16_of w) \<le> unat (ucast w :: u16)"
    by (subst unsigned_ucast_eq) (rule take_bit_nat_less_eq_self)
  also have "\<dots> < 65536" using unsigned_less [of "ucast w :: u16", where 'a = nat] by simp
  finally show ?thesis .
qed

text \<open>The register list in the extension word of an instruction.\<close>

definition list_word :: "'c emu68 \<Rightarrow> nat" where
  "list_word s = unat (u16_of (ram_get SzW (mem s) (mem_index s (sx (pc s)))))"

lemma list_word_next:
  assumes "ram_at s (sx (pc s))"
  shows "unat (u16_of (fst (mem68_nextw E s))) = list_word s"
  unfolding nextw_ram(1) [OF assms] list_word_def by (simp add: ucast_scast_low)

lemma movem_save_restore:
  assumes code: "ram_at s (sx (pc s))" and m: "list_word s = m"
    and m': "list_word u = m'" "ram_at u (sx (pc u))"
    and rev: "\<And>i. i < 16 \<Longrightarrow> bit m' i \<longleftrightarrow> bit m (15 - i)" and a7: "\<not> bit m' 15"
    and n: "n = length (mask_regs m')"
    and blk: "long_block s (sx (areg s 7)) hi n"
    and wrap: "sx (areg s 7 - of_nat (4 * n)) = sx (areg s 7) - of_nat (4 * n)"
    and t: "t = movemmem E SzL 4 7 s"
    and u: "areg u 7 = areg t 7" "memmsk u = memmsk t" "memio u = memio t"
      "\<And>j. hi \<le> j + 4 * n \<Longrightarrow> j < hi \<Longrightarrow> mem u j = mem t j"
  shows "areg t 7 = areg s 7 - of_nat (4 * n)"
    and "dreg (movemreg E SzL 3 7 u) i =
      (if i = 15 \<or> (i < 16 \<and> bit m' i) then dreg s i else dreg u i)"
    and "mem (movemreg E SzL 3 7 u) = mem u"
proof -
  define rs where "rs = rev (mask_regs m')"
  have set_rs: "set rs = {i. i < 16 \<and> bit m' i}" by (auto simp: rs_def mask_regs_def)
  have mb: "m < 65536" "m' < 65536" using m m' u16_bound by (auto simp: list_word_def)
  define s1 where "s1 = snd (mem68_nextw E s)"
  define s2 where "s2 = set_areg 7 (areg s 7 + 4) s1"
  note x = nextw_ram(2,3) [OF code, of E, folded s1_def]
  have mm: "memmsk s1 = memmsk s" "memio s1 = memio s"
    using code by (auto simp: s1_def mem68_nextw_def fetch_io_def ram_at_def memchk_r_def ram_read_def Let_def split: option.split)
  have s2: "reg s2 = (reg s)\<lparr>reg_pc := pc s + 2, reg_d := (dreg s)(15 := areg s 7 + 4)\<rparr>"
    "mem s2 = mem s" "memmsk s2 = memmsk s" "memio s2 = memio s"
    by (simp_all add: s2_def x mm reg_set_areg) (simp add: set_pc_def)
  have ea: "get_ea68 E SzL 3 7 s1 = (sx (areg s 7), s2)"
    by (simp add: get_ea68_def ea_inANp_def s2_def x)
  obtain l' t' where f: "fold (push_reg E) rs (sx (areg s 7), s2) = (l', t')" by fastforce
  have tt: "t = set_areg 7 (lo32 l') t'"
    unfolding t movemmem_def split_def Let_def list_word_next [OF code] m s1_def [symmetric] ea
    using movem_push_push [OF mb(1) rev, where E = E and l = "sx (areg s 7)" and s = s2, folded rs_def] f by simp
  have b2: "long_block s2 (sx (areg s 7)) hi (length rs)"
    using blk by (simp add: long_block_def ram_at_def mem_index_def s2 n rs_def)
  note p = push_regs_ram [OF b2 f]
  have len: "length rs = n" by (simp add: rs_def n)
  have l': "l' = sx (areg s 7 - of_nat (4 * n))" using p wrap len by simp
  show t7: "areg t 7 = areg s 7 - of_nat (4 * n)" unfolding tt l' by simp
  define u1 where "u1 = snd (mem68_nextw E u)"
  define u2 where "u2 = set_areg 7 (areg u 7 + 4) u1"
  note y = nextw_ram(2,3) [OF m'(2), of E, folded u1_def]
  have um: "memmsk u1 = memmsk u" "memio u1 = memio u"
    using m'(2) by (auto simp: u1_def mem68_nextw_def fetch_io_def ram_at_def memchk_r_def ram_read_def Let_def split: option.split)
  have u2: "reg u2 = (reg u)\<lparr>reg_pc := pc u + 2, reg_d := (dreg u)(15 := areg u 7 + 4)\<rparr>"
    "mem u2 = mem u" "memmsk u2 = memmsk u" "memio u2 = memio u"
    by (simp_all add: u2_def y um reg_set_areg) (simp add: set_pc_def)
  have ea2: "get_ea68 E SzL 3 7 u1 = (l', u2)"
    using u(1) t7 by (simp add: get_ea68_def ea_inANp_def u2_def y l')
  have "memmsk u2 = memmsk s2" "memio u2 = memio s2" using u p tt u2 by auto
  moreover have "mem u2 j = mem t' j" if "hi \<le> j + 4 * length rs" "j < hi" for j
    using that u(4) [of j] tt u2 len by simp
  ultimately obtain v where v: "fold (pop_reg E) (rev rs) (l', u2) = (sx (areg s 7), v)" "mem v = mem u2"
    "reg v = (reg u2)\<lparr>reg_d := (\<lambda>i. if i \<in> set rs then dreg s2 i else dreg u2 i)\<rparr>"
    using pop_regs_after_push [OF b2 f] by blast
  have e: "movemreg E SzL 3 7 u = set_areg 7 (areg s 7) v"
    unfolding movemreg_def split_def Let_def list_word_next [OF m'(2)] m' u1_def [symmetric] ea2
    using movem_load_pop [OF mb(2), of E l' u2] v(1) by (simp add: rs_def)
  show "dreg (movemreg E SzL 3 7 u) i =
      (if i = 15 \<or> (i < 16 \<and> bit m' i) then dreg s i else dreg u i)"
    unfolding e using a7 by (simp add: v set_rs s2 u2)
  show "mem (movemreg E SzL 3 7 u) = mem u" unfolding e by (simp add: v u2)
qed

end
