(* ===== verification/Seq68.thy ===== *)
theory Seq68
  imports Insn68
begin

text \<open>
  Idioms of several instructions: a comparison followed by the conditional branch it is for,
  and the addition or subtraction of 64-bit numbers by a pair of instructions that hand the
  carry on through the X flag; and division by zero, which ends in the exception.
\<close>

section \<open>Compare and branch\<close>

lemma alu_effect_cmp: "alu_effect ALU_CMP a n s = set_sr (cmp_sr (sr s) a (ucast (dreg s n))) s"
  by (simp add: alu_effect_def)

lemma cmp_branch_step:
  fixes a b :: "'a::len word"
  assumes sz: "sized sz TYPE('a)" and mn: "m < 8" "n < 8"
    and cmp: "fetches s (opcode 11 n (size68_rank sz) 0 m)"
    and ab: "a = ucast (dreg s m)" "b = ucast (dreg s n)"
    and cc: "2 \<le> cc" "cc < 16" "cc \<notin> {8, 9, 10, 11}" and d: "0 < d" "d < 256"
    and bcc: "fetches (step68 E s) (24576 + 256 * cc + d)"
  shows "pc (step68 E (step68 E s)) =
      (if cmp_rel cc a b then pc s + 4 + scast (of_nat d :: u8) else pc s + 4)"
    and "dreg (step68 E (step68 E s)) = dreg s" and "mem (step68 E (step68 E s)) = mem s"
proof -
  have f: "fetches s (opcode (alu_line ALU_CMP) n (size68_rank sz) 0 m)" using cmp by simp
  have "step68 E s = alu_effect ALU_CMP a n (fetched s)"
    by (rule alu_step [OF sz _ mn f ab(1)]) simp
  then have t: "step68 E s = set_sr (cmp_sr (sr s) a b) (fetched s)"
    by (simp add: alu_effect_cmp ab)
  have c: "cc_holds cc (cmp_sr (sr s) a b) = cmp_rel cc a b"
    using cc by (intro cmp_conditions) auto
  note u = bcc_step [OF cc(1,2) d bcc]
  show "pc (step68 E (step68 E s)) =
      (if cmp_rel cc a b then pc s + 4 + scast (of_nat d :: u8) else pc s + 4)"
    "dreg (step68 E (step68 E s)) = dreg s" "mem (step68 E (step68 E s)) = mem s"
    unfolding u by (simp_all add: t c)
qed

section \<open>Extended precision\<close>

text \<open>\<open>ADDX\<close> and \<open>SUBX\<close> between data registers.\<close>

definition addx_line :: "bool \<Rightarrow> nat" where
  "addx_line sub = (if sub then 9 else 13)"

lemma addx_row:
  "(line_rows E ! addx_line sub) ! (4 + size68_rank sz) = (\<lambda>mode r9 r0 s.
     if mode = 0 then opx_dn sub sz r9 r0 s
     else if mode = 1 then opx_mem E sub sz r9 r0 s
     else op_dn_ea E (if sub then ALU_SUB else ALU_ADD) sz mode r9 r0 s)"
  by (cases sub; cases sz)
    (simp_all add: addx_line_def fun_eq_iff line_rows_def line9_rows_def lineD_rows_def
      line9_r4_def line9_r5_def line9_r6_def lineD_r4_def lineD_r5_def lineD_r6_def)

lemma addx_step:
  fixes a b :: "'a::len word"
  assumes sz: "sized sz TYPE('a)" and "m < 8" "n < 8"
    and "fetches s (opcode (addx_line sub) n (4 + size68_rank sz) 0 m)"
    and "a = ucast (dreg s m)" "b = ucast (dreg s n)" "x = bit (sr s) 4"
  shows "step68 E s =
    set_dreg n (merge_low (dreg s n) (if sub then b - a - of_bool x else b + a + of_bool x))
      (set_sr (if sub then sub_sr (sr s) a b x else add_sr (sr s) a b x) (fetched s))"
proof -
  have r: "4 + size68_rank sz < 8" by (cases sz) simp_all
  have l: "LENGTH('a) \<le> 32" using sized_fix [OF sz] by simp
  show ?thesis
    using step68_row [OF assms(4) assms(3) r _ assms(2)] assms(5-)
    by (cases sub) (simp_all add: addx_row opx_dn_def addsub_x_def norm68_word [OF sz] sr_x_word [OF sz]
        add68_word [OF l] sub68_word [OF l] put_dn_word [OF sz])
qed

lemma merge_long: "merge_low old (r :: s32) = r"
  by (rule bit_word_eqI) (auto simp: merge_low_def bit_simps)

definition pair64 :: "s32 \<Rightarrow> s32 \<Rightarrow> int" where
  "pair64 h l = uint h * 2 ^ 32 + uint l"

lemma pair64_bound: "0 \<le> pair64 x y" "pair64 x y < 2 ^ 64"
proof -
  have "uint x \<le> 2 ^ 32 - 1" "uint y \<le> 2 ^ 32 - 1" "0 \<le> uint x" "0 \<le> uint y"
    using uint_lt2p [of x] uint_lt2p [of y] by simp_all
  then show "0 \<le> pair64 x y" "pair64 x y < 2 ^ 64" by (simp_all add: pair64_def)
qed

lemma mod_unique: "0 \<le> r \<Longrightarrow> r < n \<Longrightarrow> x = r + k * n \<Longrightarrow> x mod n = (r :: int)"
  by simp

lemma pair64_add:
  assumes c: "c \<longleftrightarrow> 2 ^ 32 \<le> uint l + uint l'"
  shows "pair64 (h' + h + of_bool c) (l' + l) = (pair64 h' l' + pair64 h l) mod 2 ^ 64"
    and "2 ^ 32 \<le> uint h + uint h' + of_bool c \<longleftrightarrow> 2 ^ 64 \<le> pair64 h' l' + pair64 h l"
proof -
  have lo: "uint (l' + l) = uint l + uint l' - of_bool c * 2 ^ 32"
    using uint_add_carry [of l' l False] by (auto simp: c Let_def)
  define q where "q = (2 ^ 32 \<le> uint h + uint h' + of_bool c)"
  have hi: "uint (h' + h + of_bool c) = uint h + uint h' + of_bool c - of_bool q * 2 ^ 32"
    using uint_add_carry [of h' h c] by (auto simp: q_def Let_def)
  have e: "pair64 h' l' + pair64 h l = pair64 (h' + h + of_bool c) (l' + l) + of_bool q * 2 ^ 64"
    unfolding pair64_def lo hi by (simp add: algebra_simps)
  note b = pair64_bound [of "h' + h + of_bool c" "l' + l"]
  show "pair64 (h' + h + of_bool c) (l' + l) = (pair64 h' l' + pair64 h l) mod 2 ^ 64"
    using mod_unique [OF b e] by simp
  show "2 ^ 32 \<le> uint h + uint h' + of_bool c \<longleftrightarrow> 2 ^ 64 \<le> pair64 h' l' + pair64 h l"
    using b unfolding q_def [symmetric] e by (cases q) auto
qed

lemma pair64_sub:
  assumes c: "c \<longleftrightarrow> uint l' < uint l"
  shows "pair64 (h' - h - of_bool c) (l' - l) = (pair64 h' l' - pair64 h l) mod 2 ^ 64"
    and "uint h' < uint h + of_bool c \<longleftrightarrow> pair64 h' l' < pair64 h l"
proof -
  have lo: "uint (l' - l) = uint l' - uint l + of_bool c * 2 ^ 32"
    using uint_sub_borrow [of l' l False] by (auto simp: c Let_def)
  define q where "q = (uint h' < uint h + of_bool c)"
  have hi: "uint (h' - h - of_bool c) = uint h' - uint h - of_bool c + of_bool q * 2 ^ 32"
    using uint_sub_borrow [of h' h c] by (auto simp: q_def Let_def)
  have e: "pair64 h' l' - pair64 h l = pair64 (h' - h - of_bool c) (l' - l) + (- of_bool q) * 2 ^ 64"
    unfolding pair64_def lo hi by (simp add: algebra_simps)
  note b = pair64_bound [of "h' - h - of_bool c" "l' - l"]
  show "pair64 (h' - h - of_bool c) (l' - l) = (pair64 h' l' - pair64 h l) mod 2 ^ 64"
    using mod_unique [OF b e] by simp
  show "uint h' < uint h + of_bool c \<longleftrightarrow> pair64 h' l' < pair64 h l"
    using b e unfolding q_def [symmetric] by (cases q) auto
qed

text \<open>The X and carry flags of an addition and a subtraction.\<close>

lemma add_sub_sr_bits:
  "bit (add_sr old a b x) 4 \<longleftrightarrow> 2 ^ LENGTH('a) \<le> uint a + uint b + of_bool x"
  "bit (sub_sr old a b x) 4 \<longleftrightarrow> uint b < uint a + of_bool x"
  "bit (add_sr old a b x) 0 \<longleftrightarrow> 2 ^ LENGTH('a) \<le> uint a + uint b + of_bool x"
  "bit (sub_sr old a b x) 0 \<longleftrightarrow> uint b < uint a + of_bool x"
  for a b :: "'a::len word"
proof -
  have e: "(0xFF00 :: s32) = push_bit 8 0xFF" by simp
  have "\<not> bit ((old AND 0xFF00) :: s32) k" if "k < 8" for k
    unfolding e using that by (simp only: bit_and_iff bit_push_bit_iff) simp
  then show "bit (add_sr old a b x) 4 \<longleftrightarrow> 2 ^ LENGTH('a) \<le> uint a + uint b + of_bool x"
    "bit (sub_sr old a b x) 4 \<longleftrightarrow> uint b < uint a + of_bool x"
    "bit (add_sr old a b x) 0 \<longleftrightarrow> 2 ^ LENGTH('a) \<le> uint a + uint b + of_bool x"
    "bit (sub_sr old a b x) 0 \<longleftrightarrow> uint b < uint a + of_bool x"
    unfolding add_sr_def sub_sr_def Let_def by (simp_all only: bit_or_iff mk_ccr_bits) simp_all
qed

lemma add64_step:
  assumes r: "m0 < 8" "n0 < 8" "m1 < 8" "n1 < 8" "n0 \<noteq> n1" "m1 \<noteq> n0"
    and f0: "fetches s (opcode (addx_line sub) n0 2 0 m0)"
    and f1: "fetches (step68 E s) (opcode (addx_line sub) n1 6 0 m1)"
    and a: "a = pair64 (dreg s m1) (dreg s m0)" and b: "b = pair64 (dreg s n1) (dreg s n0)"
    and u: "u = step68 E (step68 E s)"
  shows "pair64 (dreg u n1) (dreg u n0) = (if sub then b - a else b + a) mod 2 ^ 64"
    and "bit (sr u) 0 \<longleftrightarrow> (if sub then b < a else 2 ^ 64 \<le> b + a)"
    and "i \<noteq> n0 \<Longrightarrow> i \<noteq> n1 \<Longrightarrow> dreg u i = dreg s i" and "mem u = mem s"
proof -
  have l: "sized SzL TYPE(32)" by simp
  define f where "f = (if sub then ALU_SUB else ALU_ADD)"
  define c where "c = (if sub then uint (dreg s n0) < uint (dreg s m0) else 2 ^ 32 \<le> uint (dreg s m0) + uint (dreg s n0))"
  have ln: "alu_line f = addx_line sub" "f \<noteq> ALU_EOR" by (simp_all add: f_def addx_line_def)
  have "step68 E s = alu_effect f (dreg s m0) n0 (fetched s)"
    by (rule alu_step [OF l ln(2) r(1,2)]) (use f0 ln in simp_all)
  then have t: "dreg (step68 E s) = (dreg s)(n0 := (if sub then dreg s n0 - dreg s m0 else dreg s n0 + dreg s m0))"
    "mem (step68 E s) = mem s" "bit (sr (step68 E s)) 4 = c"
    by (auto simp: f_def alu_effect_def merge_long set_reg_defs add_sub_sr_bits c_def Let_def)
  have s2: "4 + size68_rank SzL = 6" by simp
  define v where "v = step68 E s"
  have f1': "fetches v (opcode (addx_line sub) n1 (4 + size68_rank SzL) 0 m1)"
    using f1 by (simp add: v_def)
  note tv = t [folded v_def]
  have st: "u = set_dreg n1 (if sub then dreg v n1 - dreg v m1 - of_bool c else dreg v n1 + dreg v m1 + of_bool c)
      (set_sr (if sub then sub_sr (sr v) (dreg v m1) (dreg v n1) c
               else add_sr (sr v) (dreg v m1) (dreg v n1) c) (fetched v))"
    using addx_step [OF l r(3,4) f1' refl refl refl] u
    unfolding merge_long tv(3) by (simp add: v_def)
  have d1: "dreg u n1 = (if sub then dreg s n1 - dreg s m1 - of_bool c else dreg s n1 + dreg s m1 + of_bool c)"
    unfolding st using r by (simp add: tv)
  have d0: "dreg u n0 = (if sub then dreg s n0 - dreg s m0 else dreg s n0 + dreg s m0)"
    unfolding st using r by (simp add: tv)
  have cy: "bit (sr u) 0 \<longleftrightarrow> (if sub then uint (dreg s n1) < uint (dreg s m1) + of_bool c
      else 2 ^ 32 \<le> uint (dreg s m1) + uint (dreg s n1) + of_bool c)"
    unfolding st using r by (simp add: tv add_sub_sr_bits)
  show "i \<noteq> n0 \<Longrightarrow> i \<noteq> n1 \<Longrightarrow> dreg u i = dreg s i" "mem u = mem s"
    unfolding st using r by (simp_all add: tv)
  have "pair64 (dreg u n1) (dreg u n0) = (if sub then b - a else b + a) mod 2 ^ 64 \<and>
    (bit (sr u) 0 \<longleftrightarrow> (if sub then b < a else 2 ^ 64 \<le> b + a))"
  proof (cases sub)
    case True
    then have "c \<longleftrightarrow> uint (dreg s n0) < uint (dreg s m0)" by (simp add: c_def)
    from pair64_sub [OF this, where h' = "dreg s n1" and h = "dreg s m1"] True show ?thesis
      unfolding d0 d1 cy a b if_P [OF True] by (intro conjI)
  next
    case False
    then have "c \<longleftrightarrow> 2 ^ 32 \<le> uint (dreg s m0) + uint (dreg s n0)" by (simp add: c_def)
    from pair64_add [OF this, where h' = "dreg s n1" and h = "dreg s m1"] False show ?thesis
      unfolding d0 d1 cy a b if_not_P [OF False] by (intro conjI)
  qed
  then show "pair64 (dreg u n1) (dreg u n0) = (if sub then b - a else b + a) mod 2 ^ 64"
    "bit (sr u) 0 \<longleftrightarrow> (if sub then b < a else 2 ^ 64 \<le> b + a)"
    by blast+
qed

section \<open>Division by zero\<close>

lemma div_zero_step:
  assumes "m < 8" "n < 8" "fetches s (opcode 8 n (mul_row sg) 0 m)"
    and "(ucast (dreg s m) :: u16) = 0"
  shows "step68 E s = set_dreg n (dreg s n)
    (exception68 E DIVIDE_VECTOR (-1) (set_sr (sr s AND 0xFF10) (fetched s)))"
proof -
  have w: "sized SzW TYPE(16)" and l: "sized SzL TYPE(32)" by simp_all
  have r: "mul_row sg < 8" by (simp add: mul_row_def)
  have n: "norm68 SzL (sx (dreg s n)) = nrm (dreg s n)" using norm68_word [OF l, of "dreg s n"] by simp
  have z: "norm68 SzW (sx (dreg s m)) = 0" using norm68_word [OF w, of "dreg s m"] assms(4) by simp
  have x: "lo32 (sx (sr s) AND 65296) = sr s AND 0xFF10"
    by (simp add: lo32_and lo32_numeral)
  show ?thesis
    using step68_row [OF assms(3) assms(2) r _ assms(1)]
    by (cases sg) (simp_all add: muldiv_rows op_div_def op_src_def z n inl_divs68_def inl_divu68_def
        Let_def drop_nrm_long SR_X_def x)
qed

end
