(* ===== verification/Debug68.thy ===== *)
theory Debug68
  imports Exec68
begin

text \<open>
  Breakpoints at work: what \<open>emu68_bp_set\<close> arms is found again by the run loop through the tag
  in the access control memory, counted down at each visit, and raised at the last one.
\<close>

lemma hw_break_count:
  assumes "bp_count (breakpoints s b) \<noteq> 1"
  shows "hw_break68 E a b s =
    put_bp b ((breakpoints s b)\<lparr>bp_count := bp_count (breakpoints s b) - 1\<rparr>) s"
  using assms by (simp add: hw_break68_def Let_def)

lemma put_bp_twice: "put_bp b x (put_bp b y s) = put_bp b x s"
  by (simp add: put_bp_def)

lemma hw_break_iter:
  "k < unat (bp_count (breakpoints s b)) \<Longrightarrow>
    (hw_break68 E a b ^^ k) s =
      put_bp b ((breakpoints s b)\<lparr>bp_count := bp_count (breakpoints s b) - of_nat k\<rparr>) s"
proof (induction k)
  case 0
  then show ?case by (simp add: put_bp_def)
next
  case (Suc k)
  let ?n = "bp_count (breakpoints s b)"
  define t where "t = put_bp b ((breakpoints s b)\<lparr>bp_count := ?n - of_nat k\<rparr>) s"
  have it: "(hw_break68 E a b ^^ k) s = t" using Suc by (simp add: t_def)
  have "?n - of_nat k \<noteq> 1"
  proof
    assume "?n - of_nat k = 1"
    then have "?n = of_nat (Suc k)" by (simp add: diff_eq_eq)
    then have "unat ?n = unat (of_nat (Suc k) :: int68)" by (rule arg_cong)
    also have "\<dots> \<le> Suc k" by (simp only: unat_of_nat mod_less_eq_dividend)
    finally show False using Suc.prems by simp
  qed
  then have "hw_break68 E a b t = put_bp b ((breakpoints t b)\<lparr>bp_count := bp_count (breakpoints t b) - 1\<rparr>) t"
    by (intro hw_break_count) (simp add: t_def)
  also have "\<dots> = put_bp b ((breakpoints s b)\<lparr>bp_count := ?n - of_nat (Suc k)\<rparr>) s"
    by (simp add: t_def put_bp_twice algebra_simps)
  finally show ?case by (simp add: it)
qed

lemma hw_break_fires:
  assumes "bp_count (breakpoints s b) = 1"
  shows "hw_break68 E a b s = exception68 E (HWBREAK_VECTOR + b) (-1)
    (let t = put_bp b ((breakpoints s b)\<lparr>bp_count := bp_reset (breakpoints s b)\<rparr>) s
     in if bp_reset (breakpoints s b) = 0 then chk_untag a t else t)"
  using assms by (simp add: hw_break68_def Let_def put_bp_twice)

lemma unat_pred: "n \<noteq> 0 \<Longrightarrow> n - of_nat (unat n - 1) = 1" for n :: int68
  by (simp add: of_nat_diff Suc_le_eq unat_gt_0)

lemma bp_set_state:
  assumes "b < 31" "chk s = Some c"
  shows "emu68_bp_set (int b) addr n r s =
    (int b, (put_bp b \<lparr>bp_addr = addr AND memmsk s, bp_count = n, bp_reset = r\<rparr> s)
       \<lparr>chk := Some (c(mem_index s addr := bp_tag (c (mem_index s addr)) (int b)))\<rparr>)"
  using assms by (simp add: emu68_bp_set_def valid_bp_def Let_def mem_index_def put_bp_def)

lemma bp_set_tag:
  assumes "b < 31" "chk s = Some c" "t = snd (emu68_bp_set (int b) addr n r s)"
  shows "bp_of_tag (the (chk t) (mem_index s addr)) = int b"
    and "the (chk t) (mem_index s addr) AND EMU68_A = c (mem_index s addr) AND EMU68_A"
    and "i \<noteq> mem_index s addr \<Longrightarrow> the (chk t) i = c i"
  using assms bp_set_state [OF assms(1,2)] by (simp_all add: bp_of_tag_tag valid_bp_def bp_tag_access)

text \<open>What the run loop does at an armed address when nothing else stops it.\<close>

lemma debug_at_break:
  assumes "handler s = None" "status s = EMU68_NRM"
    and "bp_of_tag (the (chk s) (mem_index s (sx (pc s)))) = int b" "b < 31"
    and "bp_count (breakpoints s b) \<noteq> 0"
  shows "debug68 E s =
    (let t = hw_break68 E (sx (pc s) AND memmsk s) b s
     in if status t \<noteq> EMU68_NRM then t else chkframe (sx (pc t)) EMU68_X t)"
proof -
  have "exception68 E HWTRACE_VECTOR (-1) s = s"
    using assms(1) by (simp add: exception68_def HWTRACE_VECTOR_def call_handler_def)
  then show ?thesis
    using assms by (simp add: debug68_def Let_def mem_index_def valid_bp_def)
qed

text \<open>After \<open>emu68_bp_set\<close> with a count \<open>n\<close>, the first \<open>n - 1\<close> visits only count; the next one raises
  the vector of the breakpoint and rearms it with its reset count, or removes the tag.\<close>

lemma bp_countdown:
  assumes b: "b < 31" and c: "chk s = Some c" and n: "n \<noteq> 0"
    and t: "t = snd (emu68_bp_set (int b) addr n r s)" and a: "a = addr AND memmsk s"
  shows "k < unat n \<Longrightarrow> (hw_break68 E a b ^^ k) t =
      put_bp b \<lparr>bp_addr = a, bp_count = n - of_nat k, bp_reset = r\<rparr> t"
    and "(hw_break68 E a b ^^ unat n) t =
      exception68 E (HWBREAK_VECTOR + b) (-1)
        (let u = put_bp b \<lparr>bp_addr = a, bp_count = r, bp_reset = r\<rparr> t
         in if r = 0 then chk_untag a u else u)"
proof -
  have bt: "breakpoints t b = \<lparr>bp_addr = a, bp_count = n, bp_reset = r\<rparr>"
    unfolding t bp_set_state [OF b c] by (simp add: put_bp_def a)
  have it: "k < unat n \<Longrightarrow> (hw_break68 E a b ^^ k) t =
      put_bp b \<lparr>bp_addr = a, bp_count = n - of_nat k, bp_reset = r\<rparr> t" for k
    using hw_break_iter [of k t b E a] by (simp add: bt)
  then show "k < unat n \<Longrightarrow> (hw_break68 E a b ^^ k) t =
      put_bp b \<lparr>bp_addr = a, bp_count = n - of_nat k, bp_reset = r\<rparr> t" .
  have u: "0 < unat n" using n by (simp add: unat_gt_0)
  then have "(hw_break68 E a b ^^ unat n) t = hw_break68 E a b ((hw_break68 E a b ^^ (unat n - 1)) t)"
    by (cases "unat n") simp_all
  also have "(hw_break68 E a b ^^ (unat n - 1)) t = put_bp b \<lparr>bp_addr = a, bp_count = 1, bp_reset = r\<rparr> t"
    using it [of "unat n - 1"] u unat_pred [OF n] by simp
  finally show "(hw_break68 E a b ^^ unat n) t =
      exception68 E (HWBREAK_VECTOR + b) (-1)
        (let u = put_bp b \<lparr>bp_addr = a, bp_count = r, bp_reset = r\<rparr> t
         in if r = 0 then chk_untag a u else u)"
    by (simp add: hw_break_fires put_bp_twice)
qed

end
