(* ===== verification/Reach68.thy ===== *)
theory Reach68
  imports Exec68
begin

text \<open>
  The states a client of \<open>emu68\<close> can bring an emulator into: creation, then any sequence of
  calls of the interface of \<open>emu68.h\<close>, \<open>error68.h\<close> and \<open>ioplug68.h\<close>.  The invariant
  \<open>wf68\<close> of the structure holds in all of them, whatever the program in memory does.
\<close>

section \<open>The invariant\<close>

text \<open>
  The memory size is a power of two in range and its mask matches; the error stack is within
  bounds; the memory I/O is the access checking one exactly in debug mode; the chip list and
  its counter agree; and a breakpoint address is inside the memory.
\<close>

definition wf68 :: "'c emu68 \<Rightarrow> bool" where
  "wf68 s \<longleftrightarrow>
     16 \<le> log2mem s \<and> log2mem s \<le> 24 \<and> memmsk s = mask (log2mem s) \<and>
     length (err s) \<le> MAXERROR \<and>
     memio s = (if chk s \<noteq> None then Some RamIO else None) \<and>
     io_count_ok s \<and>
     (\<forall>bid. bp_addr (breakpoints s bid) AND memmsk s = bp_addr (breakpoints s bid))"

lemma wf68_frame: "wf68 s \<Longrightarrow> frame68 I s t \<Longrightarrow> wf68 t"
  by (auto simp: wf68_def frame68_def io_count_ok_def)

lemma wf68_run: "wf68 s \<Longrightarrow> run68 I s t \<Longrightarrow> wf68 t"
  by (auto simp: wf68_def run68_def frame68_def io_count_ok_def)

section \<open>Creation and reset\<close>

lemma fold_clear_dreg: "fold (\<lambda>i. set_dreg i 0) [0..<n] s = s\<lparr>reg := (reg s)\<lparr>reg_d := (\<lambda>i. if i < n then 0 else dreg s i)\<rparr>\<rparr>"
proof (induction n)
  case (Suc n)
  show ?case
    unfolding fold_upt_Suc Suc
    by (auto intro!: emu68.equality reg68.equality simp: fun_eq_iff set_dreg_def less_Suc_eq)
qed (auto intro!: emu68.equality reg68.equality simp: fun_eq_iff)

lemma bp_reset_all_eq: "bp_reset_all s = s\<lparr>breakpoints := (\<lambda>bid. if bid < 31 then no_bp else breakpoints s bid)\<rparr>"
proof -
  have "fold (\<lambda>bid. put_bp bid no_bp) [0..<n] s =
      s\<lparr>breakpoints := (\<lambda>bid. if bid < n then no_bp else breakpoints s bid)\<rparr>" for n
  proof (induction n)
    case (Suc n)
    show ?case
      unfolding fold_upt_Suc Suc
      by (auto intro!: emu68.equality simp: fun_eq_iff put_bp_def less_Suc_eq)
  qed (auto intro!: emu68.equality simp: fun_eq_iff)
  then show ?thesis unfolding bp_reset_all_def .
qed

text \<open>The state \<open>emu68_reset\<close> leaves, before the handler is told.\<close>

definition reset_state :: "'c emu68 \<Rightarrow> 'c emu68" where
  "reset_state s =
    s\<lparr>breakpoints := (\<lambda>bid. if bid < 31 then no_bp else breakpoints s bid),
      reg := \<lparr>reg_d = (\<lambda>i. if i = 15 then lo32 (memmsk s + 1 - 4) else if i < 16 then 0 else dreg s i),
              reg_usp = lo32 (memmsk s + 1 - 4), reg_pc = 0, reg_sr = 0x2700\<rparr>,
      err := [], cycle := 0, frm_chk_fl := 0, instructions := 0, finish_sp := -1,
      status := EMU68_NRM, inst_pc := -1, inst_sr := -1,
      chk := map_option (\<lambda>c i. if i \<le> unat (memmsk s) then 0 else c i) (chk s)\<rparr>"

lemma emu68_reset_eq:
  assumes "\<And>i. memio s \<noteq> Some (Plug i)"
    and that: "memio (fold (\<lambda>io. io_reset (ios E io)) (iohead s) s) = memio s"
  shows "emu68_reset E s =
    exception68 E HWINIT_VECTOR (-1) (reset_state (fold (\<lambda>io. io_reset (ios E io)) (iohead s) s))"
proof -
  define t where "t = fold (\<lambda>io. io_reset (ios E io)) (iohead s) s"
  have m: "(case memio t of Some (Plug i) \<Rightarrow> io_reset (ios E i) t | _ \<Rightarrow> t) = t"
    using assms that [folded t_def] by (auto split: option.split ioref.split)
  show ?thesis
    unfolding emu68_reset_def Let_def t_def [symmetric] m bp_reset_all_eq fold_clear_dreg reset_state_def
    by (rule arg_cong [where f = "exception68 E HWINIT_VECTOR (-1)"])
      (auto intro!: emu68.equality reg68.equality simp: set_reg_defs fun_eq_iff)
qed

lemma reset_state_wf: "wf68 s \<Longrightarrow> wf68 (reset_state s)"
  by (auto simp: wf68_def reset_state_def io_count_ok_def no_bp_def)

lemma exception_silent: "256 \<le> v \<Longrightarrow> handler s = None \<Longrightarrow> exception68 E v l s = s"
  by (simp add: exception68_def call_handler_def)

text \<open>Creation: which parameters are refused, and what the emulator looks like.\<close>

definition parms_ok :: "emu68_parms \<Rightarrow> bool" where
  "parms_ok p \<longleftrightarrow> (p_log2mem p = 0 \<or> (16 \<le> p_log2mem p \<and> p_log2mem p \<le> 24)) \<and>
     (p_clock p = 0 \<or> (500000 \<le> p_clock p \<and> p_clock p \<le> 60000000))"

definition parms_log2 :: "emu68_parms \<Rightarrow> nat" where
  "parms_log2 p = (if p_log2mem p = 0 then 20 else nat (p_log2mem p))"

text \<open>The memory asked for: twice the onboard memory in debug mode.\<close>

definition parms_bytes :: "emu68_parms \<Rightarrow> s32" where
  "parms_bytes p = push_bit (if p_debug p then 1 else 0) (2 ^ parms_log2 p)"

lemma sx_memsize: "n \<le> 24 \<Longrightarrow> sx (2 ^ n - 1 :: s32) = mask n"
proof -
  assume n: "n \<le> 24"
  have "2 ^ n - 1 = (mask n :: s32)" by (simp add: mask_eq_exp_minus_1)
  moreover have "sx (mask n) = mask n"
    using n by (intro bit_word_eqI) (auto simp: bit_simps min_def)
  ultimately show ?thesis by simp
qed

lemma mem_reset_eq:
  "fold emu68_mem_reset_area xs s =
    s\<lparr>mapped_io := (\<lambda>a. if a \<in> set xs then (if chk s \<noteq> None then ErrIO else NopIO) else mapped_io s a)\<rparr>"
proof (induction xs arbitrary: s)
  case (Cons x xs)
  show ?case
    unfolding fold.simps comp_def Cons
    by (rule emu68.equality) (auto simp: emu68_mem_reset_area_def fun_eq_iff)
qed simp

lemma create_spec:
  assumes p: "p = (case parms of Some p \<Rightarrow> p | None \<Rightarrow> def_parms)"
  shows "emu68_create E parms alloc c = None \<longleftrightarrow> \<not> parms_ok p \<or> alloc (parms_bytes p) = None"
    and "emu68_create E parms alloc c = Some s \<Longrightarrow>
      wf68 s \<and> log2mem s = parms_log2 p \<and> (chk s \<noteq> None \<longleftrightarrow> p_debug p) \<and> status s = EMU68_NRM \<and>
      pc s = 0 \<and> sr s = 0x2700 \<and> areg s 7 = lo32 (memmsk s - 3) \<and> iohead s = [] \<and> handler s = None \<and>
      (\<forall>i<15. dreg s i = 0) \<and> (\<forall>bid. breakpoints s bid = no_bp) \<and> chips s = c \<and> cycle s = 0"
proof -
  define q where "q = (if p_log2mem p = 0 then p\<lparr>p_log2mem := 20\<rparr> else p)"
  define q' where "q' = (if p_clock q = 0 then q\<lparr>p_clock := EMU68_ATARIST_CLOCK\<rparr> else q)"
  have l: "p_log2mem q = (if p_log2mem p = 0 then 20 else p_log2mem p)" "p_clock q = p_clock p" "p_debug q = p_debug p"
    by (auto simp: q_def)
  have l': "p_log2mem q' = p_log2mem q" "p_debug q' = p_debug p"
    "p_clock q' = (if p_clock p = 0 then EMU68_ATARIST_CLOCK else p_clock p)"
    using l by (auto simp: q'_def)
  have ck: "\<not> (EMU68_ATARIST_CLOCK < 500000)" "\<not> (60000000 < EMU68_ATARIST_CLOCK)"
    by (simp_all add: EMU68_ATARIST_CLOCK_def)
  have bad: "(p_log2mem q < 16 \<or> 24 < p_log2mem q) \<or> (p_clock q' < 500000 \<or> 60000000 < p_clock q') \<longleftrightarrow> \<not> parms_ok p"
    unfolding parms_ok_def l l' using ck by (auto simp: not_le)
  define n where "n = nat (p_log2mem q)"
  define s0 where "s0 = (\<lambda>(raw, chk0). \<lparr>err = [], reg = \<lparr>reg_d = (\<lambda>_. 0), reg_usp = 0, reg_pc = 0, reg_sr = 0\<rparr>,
                        inst_pc = 0, inst_sr = 0, cycle = 0, clock = sx (p_clock q'),
                        handler = None, cookie = 0, status = EMU68_NRM, instructions = 0,
                        finish_sp = 0, nio = 0, iohead = [], interrupt_io = None,
                        mapped_io = (\<lambda>_. NopIO), memio = None, bus_addr = 0, bus_data = 0,
                        frm_chk_fl = 0, fst_chk = \<lparr>ck_pc = 0, ck_ad = 0, ck_fl = 0\<rparr>,
                        lst_chk = \<lparr>ck_pc = 0, ck_ad = 0, ck_fl = 0\<rparr>,
                        chk = (if p_debug q' then Some chk0 else None),
                        breakpoints = (\<lambda>_. no_bp), memmsk = sx (push_bit n 1 - 1),
                        log2mem = n,
                        mem = (\<lambda>i. if i < 32 then 0 else raw i), chips = c\<rparr>)"
  have cr: "emu68_create E parms alloc c =
    (if p_log2mem q < 16 \<or> 24 < p_log2mem q then None
     else if p_clock q' < 500000 \<or> 60000000 < p_clock q' then None
     else map_option (\<lambda>r. emu68_reset E (emu68_mem_init (s0 r))) (alloc (push_bit (if p_debug p then 1 else 0) (push_bit n 1))))"
  proof -
    have d: "p_log2mem def_parms = 20" "p_clock def_parms = EMU68_ATARIST_CLOCK"
      by (simp_all add: def_parms_def)
    show ?thesis
      unfolding emu68_create_def p [symmetric] Let_def d q_def [symmetric] q'_def [symmetric] n_def [symmetric]
      using l' by (simp add: s0_def n_def split: option.split)
  qed
  have size: "parms_ok p \<Longrightarrow> push_bit (if p_debug p then 1 else 0) (push_bit n 1) = parms_bytes p"
    using l by (simp add: parms_bytes_def parms_log2_def n_def)
  show "emu68_create E parms alloc c = None \<longleftrightarrow> \<not> parms_ok p \<or> alloc (parms_bytes p) = None"
    unfolding cr using bad size by auto
  assume made: "emu68_create E parms alloc c = Some s"
  then obtain raw chk0 where mem: "alloc (push_bit (if p_debug p then 1 else 0) (push_bit n 1)) = Some (raw, chk0)"
    unfolding cr by (auto split: if_splits)
  define s1 where "s1 = emu68_mem_init (s0 (raw, chk0))"
  have s1: "s1 = (s0 (raw, chk0))\<lparr>memio := (if p_debug p then Some RamIO else None),
      mapped_io := (\<lambda>a. if a < 256 then (if p_debug p then ErrIO else NopIO) else NopIO)\<rparr>"
    unfolding s1_def emu68_mem_init_def emu68_mem_reset_def mem_reset_eq
    by (cases "p_debug p"; rule emu68.equality; simp add: s0_def l' fun_eq_iff)
  have r: "emu68_reset E s1 = reset_state s1"
  proof -
    have "emu68_reset E s1 =
      exception68 E HWINIT_VECTOR (-1) (reset_state (fold (\<lambda>io. io_reset (ios E io)) (iohead s1) s1))"
      by (rule emu68_reset_eq) (auto simp: s1 s0_def)
    also have "iohead s1 = []" by (simp add: s1 s0_def)
    also have "exception68 E HWINIT_VECTOR (-1) (reset_state (fold (\<lambda>io. io_reset (ios E io)) [] s1)) = reset_state s1"
      by (simp add: exception_silent HWINIT_VECTOR_def reset_state_def s1 s0_def)
    finally show ?thesis .
  qed
  have ok: "parms_ok p" and s: "s = reset_state s1"
    using made bad unfolding cr mem option.map s1_def [symmetric] r by (auto split: if_splits)
  have n: "16 \<le> n" "n \<le> 24" "n = parms_log2 p"
    using ok l by (auto simp: n_def parms_ok_def parms_log2_def split: if_splits)
  have m: "memmsk s = mask n" by (simp add: s reset_state_def s1 s0_def sx_memsize n(2))
  show "wf68 s \<and> log2mem s = parms_log2 p \<and> (chk s \<noteq> None \<longleftrightarrow> p_debug p) \<and> status s = EMU68_NRM \<and>
      pc s = 0 \<and> sr s = 0x2700 \<and> areg s 7 = lo32 (memmsk s - 3) \<and> iohead s = [] \<and> handler s = None \<and>
      (\<forall>i<15. dreg s i = 0) \<and> (\<forall>bid. breakpoints s bid = no_bp) \<and> chips s = c \<and> cycle s = 0"
    using n(1,2) m l' by (simp add: n(3) [symmetric] s wf68_def io_count_ok_def reset_state_def s1 s0_def no_bp_def MAXERROR_def)
qed

section \<open>Running\<close>

context env_chips
begin

lemma take_interrupt_run: "take_interrupt68 E t s = Some u \<Longrightarrow> run68 I s u"
proof -
  assume u: "take_interrupt68 E t s = Some u"
  define v where "v = exception68 E (int_vector t) (int (int_level t)) s"
  define w where "w = (if status v \<noteq> EMU68_NRM
    then (if status v = EMU68_BRK then v\<lparr>status := EMU68_NRM\<rparr> else v) else v)"
  have "loop68 E (w\<lparr>finish_sp := sx (areg w 7)\<rparr>) = Some u"
    using u unfolding take_interrupt68_def Let_def v_def w_def .
  moreover have "run68 I s v" unfolding v_def by (rule run_exception) simp
  then have "run68 I s w" by (simp add: w_def run68_updates)
  ultimately show ?thesis by (blast intro: loop_run run68_updates)
qed

lemma interrupts_run:
  assumes i: "interrupts68 E cpp io s = Some u"
  shows "run68 I s u"
proof (rule interrupts68.raw_induct [where P = "\<lambda>E' cpp io s u. E' = E \<longrightarrow> run68 I s u", rule_format, OF _ i refl])
  fix rec E' cpp io and s u :: "'a emu68"
  assume IH: "\<And>E' cpp io s u. rec E' cpp io s = Some u \<Longrightarrow> E' = E \<Longrightarrow> run68 I s u"
    and e: "E' = E"
    and r: "(let ipl = GET_IPL (sr s)
      in Option.bind (io_interrupt (ios E' io) cpp s) (\<lambda>(it, s). case it of None \<Rightarrow> Some s
         | Some t \<Rightarrow> let s = s\<lparr>cycle := int_cycle t\<rparr>
             in if unat ipl < int_level t then Option.bind (take_interrupt68 E' t s) (rec E' cpp io)
                else rec E' cpp io s)) = Some u"
  obtain it v where v: "io_interrupt (ios E io) cpp s = Some (it, v)"
    using r unfolding e by (auto simp: bind_eq_Some_conv)
  have sv: "run68 I s v"
    using run68_frame [OF interrupt_frame [OF v]] .
  show "run68 I s u"
  proof (cases it)
    case None
    then show ?thesis using r v sv unfolding e by simp
  next
    case (Some t)
    define w where "w = v\<lparr>cycle := int_cycle t\<rparr>"
    have sw: "run68 I s w" using sv by (simp add: w_def run68_updates)
    have "(if unat (GET_IPL (sr s)) < int_level t then Option.bind (take_interrupt68 E t w) (rec E cpp io)
        else rec E cpp io w) = Some u"
      using r v Some unfolding e w_def by (simp add: Let_def)
    then consider x where "take_interrupt68 E t w = Some x" "rec E cpp io x = Some u"
      | "rec E cpp io w = Some u"
      by (auto simp: bind_eq_Some_conv split: if_splits)
    then show ?thesis
    proof cases
      case 1
      then show ?thesis
        using run68_trans [OF sw run68_trans [OF take_interrupt_run IH [OF _ refl]]] by blast
    next
      case 2
      then show ?thesis using run68_trans [OF sw IH [OF _ refl]] by blast
    qed
  qed
qed

lemma interrupt_run:
  assumes "emu68_interrupt E cpp s = Some u"
  shows "run68 I s u"
proof -
  have s: "run68 I s (s\<lparr>status := EMU68_NRM\<rparr>)" by (simp add: run68_updates)
  obtain v where v: "(case interrupt_io s of None \<Rightarrow> Some (s\<lparr>status := EMU68_NRM\<rparr>)
      | Some io \<Rightarrow> interrupts68 E cpp io (s\<lparr>status := EMU68_NRM\<rparr>)) = Some v" "u = v\<lparr>cycle := cpp\<rparr>"
    using assms by (auto simp: emu68_interrupt_def Let_def bind_eq_Some_conv)
  have "run68 I s v"
  proof (cases "interrupt_io s")
    case None
    then show ?thesis using v s by auto
  next
    case (Some io)
    then show ?thesis using v run68_trans [OF s interrupts_run] by auto
  qed
  then show ?thesis unfolding v by (rule run68_updates)
qed

lemma step_run: "run68 I s (snd (emu68_step E n s))"
proof -
  have "run68 I s (if n = EMU68_STEP then s\<lparr>frm_chk_fl := 0, status := EMU68_NRM\<rparr> else s)"
    using run68_updates(4) [OF run68_updates(6) [OF run68_refl]] by auto
  then show ?thesis by (auto simp: emu68_step_def Let_def intro!: controlled_run)
qed

lemma reset_wf: "wf68 s \<Longrightarrow> wf68 (emu68_reset E s)"
proof -
  assume w: "wf68 s"
  define t where "t = fold (\<lambda>io. io_reset (ios E io)) (iohead s) s"
  have f: "frame68 I s t" unfolding t_def by (rule fold_frame, rule reset_frame)
  have "memio s \<noteq> Some (Plug i)" for i using w by (simp add: wf68_def)
  moreover have "memio t = memio s" using f by (simp add: frame68_def)
  ultimately have "emu68_reset E s = exception68 E HWINIT_VECTOR (-1) (reset_state t)"
    unfolding t_def by (rule emu68_reset_eq)
  then show ?thesis
    using wf68_frame [OF reset_state_wf [OF wf68_frame [OF w f]] exception_frame [OF frame68_refl]]
    by metis
qed

end

section \<open>The interface as a transition system\<close>

text \<open>
  One call of a function of the interface that changes the emulator: those of \<open>emu68.h\<close>,
  \<open>error68.h\<close> and \<open>ioplug68.h\<close>, and the resets of the mapping of \<open>mem68.h\<close>, of which the player uses
  one.  The others read it, or create and destroy it; \<open>emu68_duplicate\<close> returns a null pointer, and
  \<open>emu68_ioplug_destroy_all\<close> leaves the emulator as \<open>emu68_ioplug_unplug_all\<close> does.  The host also
  writes through the pointers that \<open>emu68_memptr\<close> and \<open>emu68_chkptr\<close> give it.
\<close>

inductive emu68_call :: "'c env68 \<Rightarrow> 'c emu68 \<Rightarrow> 'c emu68 \<Rightarrow> bool" for E :: "'c env68" where
  call_step: "emu68_call E s (snd (emu68_step E n s))"
| call_finish: "emu68_finish E n s = Some t \<Longrightarrow> emu68_call E s t"
| call_interrupt: "emu68_interrupt E cpp s = Some t \<Longrightarrow> emu68_call E s t"
| call_reset: "emu68_call E s (emu68_reset E s)"
| call_set_registers: "emu68_call E s (emu68_set_registers r msk s)"
| call_set_cycle: "emu68_call E s (emu68_set_cycle n s)"
| call_set_cookie: "emu68_call E s (snd (emu68_set_cookie k s))"
| call_set_handler: "emu68_call E s (snd (emu68_set_handler h s))"
| call_set_interrupt_io: "emu68_call E s (snd (emu68_set_interrupt_io io s))"
| call_poke: "emu68_call E s (snd (emu68_poke a v s))"
| call_chkpoke: "emu68_call E s (snd (emu68_chkpoke a v s))"
| call_memput: "emu68_call E s (snd (emu68_memput a bs n s))"
| call_memget: "emu68_call E s (snd (snd (emu68_memget a n s)))"
| call_memset: "emu68_call E s (snd (emu68_memset a b n s))"
| call_chkset: "emu68_call E s (snd (emu68_chkset a b n s))"
| call_bp_set: "emu68_call E s (snd (emu68_bp_set bid a n r s))"
| call_bp_del: "emu68_call E s (emu68_bp_del bid s)"
| call_bp_delall: "emu68_call E s (emu68_bp_delall s)"
| call_pushl: "emu68_call E s (emu68_pushl E v s)"
| call_pushw: "emu68_call E s (emu68_pushw E v s)"
| call_popl: "emu68_call E s (snd (emu68_popl E s))"
| call_popw: "emu68_call E s (snd (emu68_popw E s))"
| call_error_add: "emu68_call E s (emu68_error_add e s)"
| call_memptr: "emu68_call E s (snd (emu68_memptr a n s))"
| call_chkptr: "emu68_call E s (snd (emu68_chkptr a n s))"
| call_mem_write: "emu68_memptr a n s = (Some p, t) \<Longrightarrow> emu68_call E s (host_copy p bs t)"
| call_chk_write: "emu68_chkptr a n s = (Some p, t) \<Longrightarrow> emu68_call E s (host_copy p bs t)"
| call_ioplug: "emu68_ioplug E i s = Some t \<Longrightarrow> emu68_call E s t"
| call_ioplug_unplug: "emu68_call E s (snd (emu68_ioplug_unplug E io s))"
| call_ioplug_unplug_all: "emu68_call E s (emu68_ioplug_unplug_all E s)"
| call_mem_reset: "emu68_call E s (emu68_mem_reset s)"
| call_mem_reset_area: "emu68_call E s (emu68_mem_reset_area k s)"
| call_error_get: "emu68_call E s (snd (emu68_error_get s))"

text \<open>The states reachable from an emulator created with the chips \<open>c\<close>.\<close>

inductive emu68_reach :: "'c env68 \<Rightarrow> 'c \<Rightarrow> 'c emu68 \<Rightarrow> bool" for E :: "'c env68" and c :: 'c where
  reach_create: "emu68_create E p alloc c = Some s \<Longrightarrow> emu68_reach E c s"
| reach_call: "emu68_reach E c s \<Longrightarrow> emu68_call E s t \<Longrightarrow> emu68_reach E c t"

lemma memptr_wf: "wf68 s \<Longrightarrow> wf68 (snd (emu68_memptr a n s))"
  using error_add_bound [of s]
  by (auto simp: wf68_def emu68_memptr_def Let_def emu68_error_add_def io_count_ok_def)

lemma host_copy_wf: "wf68 s \<Longrightarrow> wf68 (host_copy p bs s)"
  by (auto simp: wf68_def host_copy_def io_count_ok_def split: hostptr.split)

lemma bp_del_wf: "wf68 s \<Longrightarrow> wf68 (emu68_bp_del bid s)"
  by (auto simp: wf68_def emu68_bp_del_def put_bp_def no_bp_def chk_untag_def io_count_ok_def Let_def)

lemma bp_delall_wf: "wf68 s \<Longrightarrow> wf68 (emu68_bp_delall s)"
proof -
  have "wf68 s \<Longrightarrow> wf68 (fold (\<lambda>bid. emu68_bp_del (int bid)) xs s)" for xs
    by (induction xs arbitrary: s) (simp_all add: bp_del_wf)
  then show "wf68 s \<Longrightarrow> wf68 (emu68_bp_delall s)" unfolding emu68_bp_delall_def .
qed

lemma bp_set_wf: "wf68 s \<Longrightarrow> wf68 (snd (emu68_bp_set bid a n r s))"
  by (auto simp: wf68_def emu68_bp_set_def put_bp_def io_count_ok_def Let_def and.assoc)

lemma ioplug_wf:
  "wf68 s \<Longrightarrow> emu68_ioplug E i s = Some t \<Longrightarrow> wf68 t"
  "wf68 s \<Longrightarrow> wf68 (snd (emu68_ioplug_unplug E io s))"
  "wf68 s \<Longrightarrow> wf68 (emu68_ioplug_unplug_all E s)"
proof -
  show "wf68 s \<Longrightarrow> emu68_ioplug E i s = Some t \<Longrightarrow> wf68 t"
    using io_count_ioplug [of s E i t] by (auto simp: wf68_def ioplug_eq split: if_splits)
  show "wf68 s \<Longrightarrow> wf68 (snd (emu68_ioplug_unplug E io s))"
    using io_count_unplug [of s E io]
    by (auto simp: wf68_def emu68_ioplug_unplug_def do_io_unplug_def emu68_mem_reset_area_def Let_def
        split: option.splits)
  show "wf68 s \<Longrightarrow> wf68 (emu68_ioplug_unplug_all E s)"
    using io_count_unplug_all [of E s]
    by (auto simp: wf68_def emu68_ioplug_unplug_all_def fold_do_io_unplug Let_def)
qed

lemma host_calls_wf:
  assumes "wf68 s"
  shows "wf68 (emu68_set_registers r msk s)" "wf68 (emu68_set_cycle k s)"
    "wf68 (snd (emu68_set_cookie i s))" "wf68 (snd (emu68_set_handler h s))"
    "wf68 (snd (emu68_set_interrupt_io h s))" "wf68 (snd (emu68_poke a v s))"
    "wf68 (snd (emu68_chkpoke a v s))" "wf68 (snd (emu68_memput a bs n s))"
    "wf68 (snd (snd (emu68_memget a n s)))" "wf68 (snd (emu68_memset a b n s))"
    "wf68 (snd (emu68_chkset a b n s))" "wf68 (snd (emu68_error_get s))"
    "wf68 (emu68_error_add e s)" "wf68 (snd (emu68_memptr a n s))" "wf68 (snd (emu68_chkptr a n s))"
proof -
  note m = memptr_wf [OF assms] host_copy_wf [OF memptr_wf [OF assms]]
  show "wf68 (emu68_set_registers r msk s)" "wf68 (emu68_set_cycle k s)"
    "wf68 (snd (emu68_set_cookie i s))" "wf68 (snd (emu68_set_handler h s))"
    "wf68 (snd (emu68_set_interrupt_io h s))" "wf68 (snd (emu68_poke a v s))"
    "wf68 (snd (emu68_chkpoke a v s))" "wf68 (snd (emu68_error_get s))"
    using assms
    by (auto simp: wf68_def set_registers_eq emu68_set_cycle_def emu68_set_cookie_def emu68_set_handler_def
        emu68_set_interrupt_io_def emu68_poke_def emu68_chkpoke_def emu68_error_get_def io_count_ok_def
        split: option.split)
  show "wf68 (snd (emu68_memput a bs n s))" "wf68 (snd (snd (emu68_memget a n s)))"
    "wf68 (snd (emu68_memset a b n s))"
    using m by (auto simp: emu68_memput_def emu68_memget_def emu68_memset_def Let_def split_def
        split: option.split hostptr.split)
  show "wf68 (emu68_error_add e s)"
    using assms error_add_bound [of s e] by (auto simp: wf68_def emu68_error_add_def io_count_ok_def)
  show "wf68 (snd (emu68_memptr a n s))" by (rule m)
  show "wf68 (snd (emu68_chkptr a n s))"
    using m by (auto simp: emu68_chkptr_def Let_def split_def split: option.split hostptr.split)
  show "wf68 (snd (emu68_chkset a b n s))"
    using m by (auto simp: emu68_chkset_def emu68_chkptr_def Let_def split_def
        split: option.split hostptr.split)
qed

lemma mem_reset_wf: "wf68 s \<Longrightarrow> wf68 (emu68_mem_reset s)" "wf68 s \<Longrightarrow> wf68 (emu68_mem_reset_area k s)"
  by (auto simp: wf68_def io_count_ok_def emu68_mem_reset_def mem_reset_eq emu68_mem_reset_area_def)

lemma host_copied:
  assumes "wf68 s"
  shows "emu68_memptr a n s = (p', t) \<Longrightarrow> wf68 (host_copy p bs t)" "emu68_chkptr a n s = (p', t) \<Longrightarrow> wf68 (host_copy p bs t)"
  using host_copy_wf [of t p bs] host_calls_wf(14,15) [OF assms, of a n] by auto

text \<open>The calls that run no 68k code leave the chips alone.\<close>

lemma memptr_chips: "chips (snd (emu68_memptr a n s)) = chips s" "chips (snd (emu68_chkptr a n s)) = chips s"
  "chips (host_copy p bs s) = chips s"
  by (auto simp: emu68_memptr_def emu68_chkptr_def host_copy_def Let_def split_def emu68_error_add_def split: hostptr.split option.split)

lemma host_pointer_chips:
  "emu68_memptr a n s = (p', t) \<Longrightarrow> chips t = chips s"
  "emu68_chkptr a n s = (p', t) \<Longrightarrow> chips t = chips s"
  using memptr_chips by (metis snd_conv)+

lemma bp_del_chips: "chips (emu68_bp_del bid s) = chips s" "chips (emu68_bp_delall s) = chips s"
proof -
  show d: "chips (emu68_bp_del bid s) = chips s" for bid and s :: "'c emu68"
    by (auto simp: emu68_bp_del_def put_bp_def chk_untag_def Let_def split: option.split)
  have "chips (fold (\<lambda>bid. emu68_bp_del (int bid)) xs s) = chips s" for xs
    by (induction xs arbitrary: s) (simp_all add: d)
  then show "chips (emu68_bp_delall s) = chips s" unfolding emu68_bp_delall_def .
qed

lemma host_calls_chips:
  "chips (emu68_set_registers r msk s) = chips s" "chips (emu68_set_cycle k s) = chips s"
  "chips (snd (emu68_set_cookie i s)) = chips s" "chips (snd (emu68_set_handler h s)) = chips s"
  "chips (snd (emu68_set_interrupt_io h s)) = chips s" "chips (snd (emu68_poke a v s)) = chips s"
  "chips (snd (emu68_chkpoke a v s)) = chips s" "chips (snd (emu68_memput a bs n s)) = chips s"
  "chips (snd (snd (emu68_memget a n s))) = chips s" "chips (snd (emu68_memset a b n s)) = chips s"
  "chips (snd (emu68_chkset a b n s)) = chips s" "chips (snd (emu68_error_get s)) = chips s"
  "chips (emu68_error_add e s) = chips s"
  "chips (emu68_mem_reset s) = chips s" "chips (emu68_mem_reset_area ar s) = chips s"
  "chips (snd (emu68_bp_set bid a m r' s)) = chips s" "emu68_ioplug E j s = Some t \<Longrightarrow> chips t = chips s"
  "chips (snd (emu68_ioplug_unplug E jo s)) = chips s" "chips (emu68_ioplug_unplug_all E s) = chips s"
  by (auto simp: set_registers_eq emu68_set_cycle_def emu68_set_cookie_def emu68_set_handler_def
      emu68_set_interrupt_io_def emu68_poke_def emu68_chkpoke_def emu68_error_get_def emu68_error_add_def
      emu68_memput_def emu68_memget_def emu68_memset_def emu68_chkset_def memptr_chips Let_def split_def
      emu68_bp_set_def put_bp_def ioplug_eq emu68_ioplug_unplug_def do_io_unplug_def emu68_mem_reset_area_def
      emu68_mem_reset_def mem_reset_eq emu68_ioplug_unplug_all_def fold_do_io_unplug split: option.split hostptr.split if_splits)

context env_chips
begin

lemma push_pop_frame:
  "frame68 I s (emu68_pushl E v s)" "frame68 I s (emu68_pushw E v s)"
  "frame68 I s (snd (emu68_popl E s))" "frame68 I s (snd (emu68_popw E s))"
  by (auto simp: emu68_pushl_def emu68_pushw_def emu68_popl_def emu68_popw_def intro!: frame_intros)

lemma call_wf: "emu68_call E s t \<Longrightarrow> wf68 s \<Longrightarrow> wf68 t"
  by (induction rule: emu68_call.induct)
    (auto intro: wf68_run finish_run interrupt_run step_run reset_wf host_calls_wf bp_set_wf bp_del_wf
      bp_delall_wf ioplug_wf wf68_frame push_pop_frame host_copied mem_reset_wf)

lemma reset_chips: "wf68 s \<Longrightarrow> I (chips s) \<Longrightarrow> I (chips (emu68_reset E s))"
proof -
  assume w: "wf68 s" and c: "I (chips s)"
  define t where "t = fold (\<lambda>io. io_reset (ios E io)) (iohead s) s"
  have f: "frame68 I s t" unfolding t_def by (rule fold_frame, rule reset_frame)
  have "memio s \<noteq> Some (Plug i)" for i using w by (simp add: wf68_def)
  moreover have "memio t = memio s" using f by (simp add: frame68_def)
  ultimately have "emu68_reset E s = exception68 E HWINIT_VECTOR (-1) (reset_state t)"
    unfolding t_def by (rule emu68_reset_eq)
  moreover have "I (chips (reset_state t))" using f c by (simp add: frame68_def reset_state_def)
  ultimately show ?thesis
    using exception_frame [OF frame68_refl, of "reset_state t" HWINIT_VECTOR "-1"] by (simp add: frame68_def)
qed

lemma run_chips: "run68 I s t \<Longrightarrow> I (chips s) \<Longrightarrow> I (chips t)"
  by (simp add: run68_def frame68_def)

lemma frame_chips: "frame68 I s t \<Longrightarrow> I (chips s) \<Longrightarrow> I (chips t)"
  by (simp add: frame68_def)

lemma call_chips: "emu68_call E s t \<Longrightarrow> wf68 s \<Longrightarrow> I (chips s) \<Longrightarrow> I (chips t)"
  by (induction rule: emu68_call.induct)
    (auto simp: host_calls_chips bp_del_chips memptr_chips dest: host_pointer_chips
      intro: run_chips finish_run interrupt_run step_run reset_chips frame_chips push_pop_frame)

lemma reach_wf: "emu68_reach E c s \<Longrightarrow> I c \<Longrightarrow> wf68 s \<and> I (chips s)"
  by (induction rule: emu68_reach.induct) (auto dest: create_spec(2) [OF refl] intro: call_wf call_chips)

end

end
