(* ===== verification/Mfp68.thy ===== *)
theory Mfp68
  imports Struct68
begin

text \<open>
  The MFP 68901, \<open>io68/mfpemul.c\<close>: four timers that count in a unit common to the processor and
  the timer clock, their control and data registers, and the search for the next interrupt.

  Cycle counters are \<open>uint68_t\<close>, 64-bit words compared as unsigned.  The control register of a
  timer is a number below 8, which indexes the prescaler table; the invariant says so.  The
  trace messages are not modelled, and with assertions compiled out \<open>assert\<close> does nothing.
  The loop of \<open>mfp_interrupt\<close> goes on for ever on a running timer with a null period; its
  value is \<open>None\<close> then.

  Lemmas: the invariant of the timers and that every operation keeps it; the next interrupt
  is the earliest among the running timers; \<open>mfp_interrupt\<close> returns, with the earliest
  unmasked interrupt before the limit; what stopping, resuming and reading a timer gives.
\<close>

type_synonym bogoc = int68
type_synonym u32 = "32 word"

section \<open>State\<close>

record mfp_timer_def =
  def_vector :: nat
  def_level :: nat
  def_bit :: u8
  def_channel :: nat

record mfp_timer =
  t_def :: mfp_timer_def
  t_cti :: bogoc
  t_tdr_cur :: u32
  t_tdr_res :: u32
  t_tcr :: nat
  t_psc :: bogoc
  t_int_lost :: u32
  t_int_mask :: u32
  t_int_fall :: u32
  t_interrupt :: interrupt68

record mfp =
  mfp_map :: "nat \<Rightarrow> u8"
  mfp_timers :: "nat \<Rightarrow> mfp_timer"

definition TIMER_A :: nat where "TIMER_A = 0"
definition TIMER_B :: nat where "TIMER_B = 1"
definition TIMER_C :: nat where "TIMER_C = 2"
definition TIMER_D :: nat where "TIMER_D = 3"

lemmas timer_names = TIMER_A_def TIMER_B_def TIMER_C_def TIMER_D_def

definition MFP_BOGO_MUL :: int68 where "MFP_BOGO_MUL = 128"
definition MFP_BOGO_DIV :: int68 where "MFP_BOGO_DIV = 417"

text \<open>The register numbers the code names.\<close>

definition GPIP :: nat where "GPIP = 0x01"
definition IERA :: nat where "IERA = 0x07"
definition IERB :: nat where "IERB = 0x09"
definition IPRA :: nat where "IPRA = 0x0B"
definition IPRB :: nat where "IPRB = 0x0D"
definition IMRA :: nat where "IMRA = 0x13"
definition IMRB :: nat where "IMRB = 0x15"
definition VR :: nat where "VR = 0x17"
definition TACR :: nat where "TACR = 0x19"
definition TBCR :: nat where "TBCR = 0x1B"
definition TCDCR :: nat where "TCDCR = 0x1D"
definition TADR :: nat where "TADR = 0x1F"
definition TBDR :: nat where "TBDR = 0x21"
definition TCDR :: nat where "TCDR = 0x23"
definition TDDR :: nat where "TDDR = 0x25"

lemmas mfp_reg_defs = GPIP_def IERA_def IERB_def IPRA_def IPRB_def IMRA_def IMRB_def VR_def TACR_def
  TBCR_def TCDCR_def TADR_def TBDR_def TCDR_def TDDR_def

definition timer_def :: "nat \<Rightarrow> mfp_timer_def" where
  "timer_def i =
    (if i = 0 then \<lparr>def_vector = 0x34 div 4, def_level = 6, def_bit = push_bit 5 1, def_channel = 0\<rparr>
     else if i = 1 then \<lparr>def_vector = 0x20 div 4, def_level = 6, def_bit = push_bit 0 1, def_channel = 0\<rparr>
     else if i = 2 then \<lparr>def_vector = 0x14 div 4, def_level = 6, def_bit = push_bit 5 1, def_channel = 2\<rparr>
     else \<lparr>def_vector = 0x10 div 4, def_level = 6, def_bit = push_bit 4 1, def_channel = 2\<rparr>)"

definition prediv_width :: "nat \<Rightarrow> bogoc" where
  "prediv_width i = [0, 4, 10, 16, 50, 64, 100, 200] ! i * MFP_BOGO_DIV"

definition put_timer :: "nat \<Rightarrow> mfp_timer \<Rightarrow> mfp \<Rightarrow> mfp" where
  "put_timer i t m = m\<lparr>mfp_timers := (mfp_timers m)(i := t)\<rparr>"

definition put_map :: "nat \<Rightarrow> u8 \<Rightarrow> mfp \<Rightarrow> mfp" where
  "put_map n v m = m\<lparr>mfp_map := (mfp_map m)(n := v)\<rparr>"

section \<open>Which timer interrupts first\<close>

text \<open>The scan of \<open>find_next_int\<close>: the candidate so far, against the timer at hand.\<close>

definition next_candidate :: "mfp \<Rightarrow> nat \<Rightarrow> nat option \<Rightarrow> nat option" where
  "next_candidate m i best =
    (if t_tcr (mfp_timers m i) = 0 then best
     else case best of
       None \<Rightarrow> Some i
     | Some j \<Rightarrow> if t_cti (mfp_timers m i) < t_cti (mfp_timers m j) then Some i else best)"

definition find_next_int :: "mfp \<Rightarrow> nat option" where
  "find_next_int m = fold (next_candidate m) [0..<4] None"

section \<open>Timer registers\<close>

definition timer_get_tdr :: "mfp_timer \<Rightarrow> bogoc \<Rightarrow> u32" where
  "timer_get_tdr t bogoc =
    (let cti = t_cti t - bogoc;
         psw = prediv_width (t_tcr t);
         cnt = cti div psw
     in ucast (cnt mod ucast (t_tdr_res t) + 1))"

definition reconf_timer :: "mfp_timer \<Rightarrow> nat \<Rightarrow> bogoc \<Rightarrow> mfp_timer" where
  "reconf_timer t tcr bogoc =
    (let cti = t_cti t - bogoc;
         psw = ucast (prediv_width (t_tcr t)) :: u32;
         cnt = ucast (cti div ucast psw) :: u32;
         tdr = cnt + 1;
         new_psw = prediv_width tcr;
         t = (if t_cti t < bogoc then t\<lparr>t_cti := bogoc + ucast (psw * t_tdr_res t)\<rparr>
              else t\<lparr>t_cti := bogoc + ucast tdr * new_psw\<rparr>)
     in t\<lparr>t_tcr := tcr\<rparr>)"

definition stop_timer :: "mfp_timer \<Rightarrow> bogoc \<Rightarrow> mfp_timer" where
  "stop_timer t bogoc =
    (let t = (if t_tcr t \<noteq> 0 then t\<lparr>t_tdr_cur := timer_get_tdr t bogoc\<rparr> else t);
         t = t\<lparr>t_tcr := 0\<rparr>
     in t\<lparr>t_psc := 0\<rparr>)"

definition resume_timer :: "mfp_timer \<Rightarrow> nat \<Rightarrow> bogoc \<Rightarrow> mfp_timer" where
  "resume_timer t tcr bogoc =
    (let t = t\<lparr>t_tcr := tcr\<rparr>
     in t\<lparr>t_cti := bogoc + ucast (t_tdr_cur t) * prediv_width tcr - t_psc t\<rparr>)"

definition mfp_get_tdr :: "mfp \<Rightarrow> nat \<Rightarrow> bogoc \<Rightarrow> int68 \<times> mfp" where
  "mfp_get_tdr m timer bogoc =
    (let i = timer mod 4;
         t = mfp_timers m i;
         t = (if t_tcr t \<noteq> 0 then t\<lparr>t_tdr_cur := timer_get_tdr t bogoc\<rparr> else t)
     in (ucast (ucast (t_tdr_cur t) :: u8), put_timer i t m))"

definition mfp_put_tdr :: "mfp \<Rightarrow> nat \<Rightarrow> int68 \<Rightarrow> bogoc \<Rightarrow> mfp" where
  "mfp_put_tdr m timer v bogoc =
    (let i = timer mod 4;
         t = mfp_timers m i;
         v = u8_of v;
         v = v + push_bit 8 (c_not v);
         t = t\<lparr>t_tdr_res := ucast v\<rparr>;
         t = (if t_tcr t = 0 then t\<lparr>t_tdr_cur := ucast v\<rparr> else t)
     in put_timer i t m)"

definition mfp_put_tcr_bogo :: "mfp_timer \<Rightarrow> nat \<Rightarrow> bogoc \<Rightarrow> mfp_timer" where
  "mfp_put_tcr_bogo t v bogoc =
    (if v \<noteq> t_tcr t then
       if v = 0 then stop_timer t bogoc
       else if t_tcr t = 0 then resume_timer t v bogoc
       else reconf_timer t v bogoc
     else t)"

definition mfp_put_tcr :: "mfp \<Rightarrow> nat \<Rightarrow> int68 \<Rightarrow> bogoc \<Rightarrow> mfp" where
  "mfp_put_tcr m timer v bogoc =
    (if timer < TIMER_C then
       let v = v AND 15;
           m = put_map (0x19 + 2 * timer) (ucast v) m;
           v = (if 8 \<le> v then 0 else v)
       in put_timer timer (mfp_put_tcr_bogo (mfp_timers m timer) (unat v) bogoc) m
     else
       let v = v AND 0x77;
           m = put_map 0x1D (ucast v) m;
           m = put_timer TIMER_C (mfp_put_tcr_bogo (mfp_timers m TIMER_C) (unat (signed_drop_bit 4 v)) bogoc) m
       in put_timer TIMER_D (mfp_put_tcr_bogo (mfp_timers m TIMER_D) (unat (v AND 7)) bogoc) m)"

section \<open>Interrupts\<close>

definition IO68_NO_INT :: bogoc where "IO68_NO_INT = 0x80000000"

definition mfp_nextinterrupt :: "mfp \<Rightarrow> bogoc" where
  "mfp_nextinterrupt m =
    (case find_next_int m of None \<Rightarrow> IO68_NO_INT | Some i \<Rightarrow> t_cti (mfp_timers m i))"

definition MFP_VECTOR_BASE :: "mfp \<Rightarrow> nat" where
  "MFP_VECTOR_BASE m = unat (mfp_map m 0x17 AND 0xF0)"

definition timer_interrupt :: "mfp \<Rightarrow> mfp_timer \<Rightarrow> mfp_timer" where
  "timer_interrupt m t =
    (let t = t\<lparr>t_interrupt :=
           \<lparr>int_vector = MFP_VECTOR_BASE m + def_vector (t_def t), int_level = def_level (t_def t),
            int_cycle = t_cti t\<rparr>\<rparr>;
         t = t\<lparr>t_cti := t_cti t + prediv_width (t_tcr t) * ucast (t_tdr_res t)\<rparr>
     in t\<lparr>t_tdr_cur := t_tdr_res t\<rparr>)"

partial_function (option) mfp_interrupt :: "bogoc \<Rightarrow> mfp \<Rightarrow> (interrupt68 option \<times> mfp) option" where
  "mfp_interrupt bogoc m =
    (case find_next_int m of
       None \<Rightarrow> Some (None, m)
     | Some i \<Rightarrow>
        if t_cti (mfp_timers m i) < bogoc then
          let t = timer_interrupt m (mfp_timers m i)
          in if mfp_map m (0x07 + def_channel (t_def t)) AND mfp_map m (0x13 + def_channel (t_def t)) AND
                def_bit (t_def t) \<noteq> 0 then
               Some (Some (t_interrupt t), put_timer i (t\<lparr>t_int_fall := t_int_fall t + 1\<rparr>) m)
             else
               mfp_interrupt bogoc (put_timer i (t\<lparr>t_int_mask := t_int_mask t + 1\<rparr>) m)
        else Some (None, m))"

section \<open>Cycle base and reset\<close>

text \<open>The inner loop of \<open>mfp_adjust_bogoc\<close>, that should not happen, and its body.\<close>

partial_function (option) catch_up :: "bogoc \<Rightarrow> mfp_timer \<Rightarrow> mfp_timer option" where
  "catch_up bogoc t =
    (if t_cti t < bogoc then
       let t = t\<lparr>t_int_lost := t_int_lost t + 1\<rparr>
       in catch_up bogoc (t\<lparr>t_cti := t_cti t + ucast (t_tdr_res t) * prediv_width (t_tcr t)\<rparr>)
     else Some t)"

definition adjust_timer :: "bogoc \<Rightarrow> mfp_timer \<Rightarrow> mfp_timer option" where
  "adjust_timer bogoc t =
    (if t_tcr t \<noteq> 0 then
       Option.bind (catch_up bogoc t) (\<lambda>t.
         let t = (if t_int_lost t \<noteq> 0 then t\<lparr>t_int_lost := 0\<rparr> else t)
         in Some (t\<lparr>t_cti := t_cti t - bogoc\<rparr>))
     else Some t)"

fun adjust_timers :: "bogoc \<Rightarrow> nat list \<Rightarrow> mfp \<Rightarrow> mfp option" where
  "adjust_timers bogoc [] m = Some m"
| "adjust_timers bogoc (i # is) m =
    Option.bind (adjust_timer bogoc (mfp_timers m i)) (\<lambda>t. adjust_timers bogoc is (put_timer i t m))"

definition mfp_adjust_bogoc :: "mfp \<Rightarrow> bogoc \<Rightarrow> mfp option" where
  "mfp_adjust_bogoc m bogoc = (if bogoc = 0 then Some m else adjust_timers bogoc [0..<4] m)"

definition reset_timer :: "mfp_timer \<Rightarrow> bogoc \<Rightarrow> mfp_timer" where
  "reset_timer t bogoc =
    t\<lparr>t_cti := bogoc, t_tcr := 0, t_psc := 0, t_tdr_res := 256, t_tdr_cur := 256,
      t_int_lost := 0, t_int_mask := 0, t_int_fall := 0\<rparr>"

definition mfp_reset :: "mfp \<Rightarrow> bogoc \<Rightarrow> mfp" where
  "mfp_reset m bogoc =
    (let m = m\<lparr>mfp_map := (\<lambda>i. if i < 0x40 then 0 else mfp_map m i)\<rparr>;
         m = put_map 0x17 0x40 m;
         m = put_map 0x01 0x80 m
     in fold (\<lambda>i m. put_timer i (reset_timer (mfp_timers m i) bogoc) m) [0..<4] m)"

definition setup_timer :: "mfp_timer \<Rightarrow> nat \<Rightarrow> bogoc \<Rightarrow> mfp_timer" where
  "setup_timer t idx bogoc =
    (let t = t\<lparr>t_def := timer_def (idx mod 4), t_tdr_res := 256, t_tdr_cur := 256\<rparr>
     in reset_timer t bogoc)"

definition mfp_setup :: "mfp \<Rightarrow> mfp" where
  "mfp_setup m =
    (let m = fold (\<lambda>i m. put_timer i (setup_timer (mfp_timers m i) i 0) m) [0..<4] m
     in mfp_reset m 0)"

section \<open>The invariant\<close>

definition running :: "mfp \<Rightarrow> nat \<Rightarrow> bool" where
  "running m i \<longleftrightarrow> i < 4 \<and> t_tcr (mfp_timers m i) \<noteq> 0"

definition timer_ok :: "mfp_timer \<Rightarrow> bool" where
  "timer_ok t \<longleftrightarrow> t_tcr t < 8 \<and> 1 \<le> unat (t_tdr_res t) \<and> unat (t_tdr_res t) \<le> 256 \<and>
     1 \<le> unat (t_tdr_cur t) \<and> unat (t_tdr_cur t) \<le> 256 \<and> t_psc t = 0"

definition mfp_ok :: "mfp \<Rightarrow> bool" where
  "mfp_ok m \<longleftrightarrow> (\<forall>i<4. timer_ok (mfp_timers m i) \<and> t_def (mfp_timers m i) = timer_def i)"

lemma nat_less_8: "n < 8 \<Longrightarrow> n = 0 \<or> n = 1 \<or> n = 2 \<or> n = 3 \<or> n = 4 \<or> n = 5 \<or> n = 6 \<or> n = (7 :: nat)"
  by linarith

text \<open>The prescaler widths in MFP clocks.\<close>

definition prescale :: "nat \<Rightarrow> nat" where
  "prescale i = [0, 4, 10, 16, 50, 64, 100, 200] ! i * 417"

lemma prediv_prescale: "i < 8 \<Longrightarrow> prediv_width i = of_nat (prescale i)"
  by (drule nat_less_8, elim disjE) (simp_all add: prediv_width_def prescale_def MFP_BOGO_DIV_def)

lemma prescale_bounds: "0 < i \<Longrightarrow> i < 8 \<Longrightarrow> 1668 \<le> prescale i \<and> prescale i \<le> 83400"
  by (drule nat_less_8, elim disjE) (simp_all add: prescale_def)

lemma unat_prediv: "i < 8 \<Longrightarrow> unat (prediv_width i) = prescale i"
  by (drule nat_less_8, elim disjE) (simp_all add: prediv_width_def prescale_def MFP_BOGO_DIV_def)

lemma unat_u32_bogoc: "unat (ucast (x :: u32) :: bogoc) = unat x"
  by (simp add: unsigned_ucast_eq take_bit_nat_eq_self less_le_trans [OF unsigned_less])

lemma unat_bogoc_u32: "unat (x :: bogoc) < 2 ^ 32 \<Longrightarrow> unat (ucast x :: u32) = unat x"
  by (simp add: unsigned_ucast_eq take_bit_nat_eq_self)

text \<open>Reading a running timer counts from its data register down to one.\<close>

lemma get_tdr_value:
  assumes "t_tcr t < 8" "1 \<le> unat (t_tdr_res t)" "unat (t_tdr_res t) \<le> 256"
  shows "unat (timer_get_tdr t b) =
    unat (t_cti t - b) div prescale (t_tcr t) mod unat (t_tdr_res t) + 1"
proof -
  define q where "q = unat (t_cti t - b) div prescale (t_tcr t) mod unat (t_tdr_res t)"
  have "q < unat (t_tdr_res t)" unfolding q_def using assms by (intro mod_less_divisor) simp
  then have q: "q < 256" using assms by simp
  have "unat ((t_cti t - b) div prediv_width (t_tcr t) mod ucast (t_tdr_res t)) = q"
    by (simp add: q_def unat_div_distrib unat_mod_distrib unat_prediv [OF assms(1)] unat_u32_bogoc)
  then have "unat ((t_cti t - b) div prediv_width (t_tcr t) mod ucast (t_tdr_res t) + 1) = q + 1"
    using q by (subst unat_add_lem [THEN iffD1]) simp_all
  then show ?thesis
    using q by (simp add: timer_get_tdr_def Let_def unat_bogoc_u32 flip: q_def)
qed

lemma get_tdr_range:
  "t_tcr t < 8 \<Longrightarrow> 1 \<le> unat (t_tdr_res t) \<Longrightarrow> unat (t_tdr_res t) \<le> 256 \<Longrightarrow>
    1 \<le> unat (timer_get_tdr t b) \<and> unat (timer_get_tdr t b) \<le> unat (t_tdr_res t)"
  by (simp add: get_tdr_value Suc_le_eq)

lemma put_timer_fields [simp]:
  "mfp_timers (put_timer i t m) j = (if j = i then t else mfp_timers m j)"
  "mfp_map (put_timer i t m) = mfp_map m" "mfp_timers (put_map n v m) = mfp_timers m"
  by (simp_all add: put_timer_def put_map_def)

lemma timer_ops_ok:
  assumes "timer_ok t"
  shows "timer_ok (stop_timer t b)" "v < 8 \<Longrightarrow> timer_ok (resume_timer t v b)"
    "v < 8 \<Longrightarrow> timer_ok (reconf_timer t v b)" "v < 8 \<Longrightarrow> timer_ok (mfp_put_tcr_bogo t v b)"
    "timer_ok (timer_interrupt m t)" "timer_ok (reset_timer t b)" "timer_ok (setup_timer t k b)"
proof -
  note r = get_tdr_range [of t b]
  show s: "timer_ok (stop_timer t b)" "v < 8 \<Longrightarrow> timer_ok (resume_timer t v b)"
    "v < 8 \<Longrightarrow> timer_ok (reconf_timer t v b)"
    "timer_ok (timer_interrupt m t)" "timer_ok (reset_timer t b)" "timer_ok (setup_timer t k b)"
    using assms r
    by (auto simp: timer_ok_def stop_timer_def resume_timer_def reconf_timer_def timer_interrupt_def
        reset_timer_def setup_timer_def Let_def)
  then show "v < 8 \<Longrightarrow> timer_ok (mfp_put_tcr_bogo t v b)"
    using assms by (auto simp: mfp_put_tcr_bogo_def)
qed

lemma timer_ops_def [simp]:
  "t_def (stop_timer t b) = t_def t" "t_def (resume_timer t v b) = t_def t"
  "t_def (reconf_timer t v b) = t_def t" "t_def (mfp_put_tcr_bogo t v b) = t_def t"
  "t_def (timer_interrupt m t) = t_def t" "t_def (reset_timer t b) = t_def t"
  by (simp_all add: stop_timer_def resume_timer_def reconf_timer_def timer_interrupt_def
      reset_timer_def mfp_put_tcr_bogo_def Let_def)

lemma mfp_ok_timer: "mfp_ok m \<Longrightarrow> i < 4 \<Longrightarrow> timer_ok (mfp_timers m i) \<and> t_def (mfp_timers m i) = timer_def i"
  by (simp add: mfp_ok_def)

lemma mfp_ok_put:
  "mfp_ok m \<Longrightarrow> timer_ok t \<Longrightarrow> t_def t = t_def (mfp_timers m i) \<Longrightarrow> mfp_ok (put_timer i t m)"
  "mfp_ok m \<Longrightarrow> mfp_ok (put_map n v m)"
  by (auto simp: mfp_ok_def)

lemma put_tcr_ok:
  assumes "mfp_ok m" "timer < 4"
  shows "mfp_ok (mfp_put_tcr m timer v b)"
proof -
  have a: "unat ((w :: int68) AND 7) < 8" for w
    using word_and_le1 [of w 7] by (simp add: word_le_nat_alt)
  have s: "unat (signed_drop_bit 4 ((w :: int68) AND 0x77)) < 8" for w
  proof -
    have "signed_drop_bit 4 (w AND 0x77) = signed_drop_bit 4 w AND 7"
    proof -
      have e: "signed_drop_bit 4 (w AND (push_bit 4 (mask 3) OR mask 3)) = signed_drop_bit 4 w AND mask 3"
        by (rule bit_word_eqI) (auto simp: bit_simps min_def)
      have "push_bit 4 (mask 3) OR mask 3 = (0x77 :: int68)" "mask 3 = (7 :: int68)"
        by (simp_all add: mask_eq_exp_minus_1)
      from e [unfolded this(1), unfolded this(2)] show ?thesis .
    qed
    then show ?thesis using a by simp
  qed
  have f: "\<not> (8 :: int68) \<le> w \<Longrightarrow> unat w < 8" for w
    by (simp add: word_le_nat_alt)
  note t = mfp_ok_timer [OF assms(1)]
  show ?thesis
    unfolding mfp_put_tcr_def Let_def
    using assms(2) a s f t [of timer] t [of TIMER_C] t [of TIMER_D]
    by (auto simp: timer_names intro!: mfp_ok_put timer_ops_ok assms(1))
qed

lemma unat_u8_int: "unat (ucast (x :: u8) :: int68) = unat x"
  by (simp add: unsigned_ucast_eq take_bit_nat_eq_self less_le_trans [OF unsigned_less])

lemma put_get_tdr_ok:
  assumes "mfp_ok m"
  shows "mfp_ok (mfp_put_tdr m timer v b)" "mfp_ok (snd (mfp_get_tdr m timer b))"
proof -
  define w where "w = (u8_of v + push_bit 8 (c_not (u8_of v)) :: int68)"
  have w: "1 \<le> unat (ucast w :: u32) \<and> unat (ucast w :: u32) \<le> 256"
  proof (cases "(ucast v :: u8) = 0")
    case True
    then show ?thesis by (simp add: w_def c_not_def)
  next
    case False
    have u: "unat (u8_of v) = unat (ucast v :: u8)" by (rule unat_u8_int)
    have "unat (ucast v :: u8) \<noteq> 0" using False by (simp add: unat_eq_0)
    then have n: "u8_of v \<noteq> 0" using u by (metis unat_0)
    have l: "unat (ucast v :: u8) < 256" using unsigned_less [of "ucast v :: u8", where 'a = nat] by simp
    have "w = u8_of v" using n by (simp add: w_def c_not_def)
    then have "unat (ucast w :: u32) = unat (ucast v :: u8)"
      using u l by (subst unat_bogoc_u32) simp_all
    then show ?thesis using l \<open>unat (ucast v :: u8) \<noteq> 0\<close> by simp
  qed
  have i: "timer mod 4 < 4" by simp
  note t = mfp_ok_timer [OF assms i]
  show "mfp_ok (mfp_put_tdr m timer v b)"
    using t w unfolding mfp_put_tdr_def Let_def w_def [symmetric]
    by (auto simp: timer_ok_def intro!: mfp_ok_put assms)
  show "mfp_ok (snd (mfp_get_tdr m timer b))"
    using t get_tdr_range [of "mfp_timers m (timer mod 4)" b] unfolding mfp_get_tdr_def Let_def
    by (auto simp: timer_ok_def intro!: mfp_ok_put assms)
qed

lemma fold_put_timer:
  "fold (\<lambda>i m. put_timer i (f i (mfp_timers m i)) m) [0..<n] m =
    m\<lparr>mfp_timers := (\<lambda>i. if i < n then f i (mfp_timers m i) else mfp_timers m i)\<rparr>"
  by (induction n) (auto simp: put_timer_def fun_eq_iff intro!: mfp.equality)

lemma reset_eq:
  "mfp_reset m b =
    \<lparr>mfp_map = (\<lambda>i. if i = 0x01 then 0x80 else if i = 0x17 then 0x40 else if i < 0x40 then 0 else mfp_map m i),
     mfp_timers = (\<lambda>i. if i < 4 then reset_timer (mfp_timers m i) b else mfp_timers m i)\<rparr>"
  unfolding mfp_reset_def Let_def fold_put_timer [where f = "\<lambda>_ t. reset_timer t b"]
  by (rule mfp.equality) (auto simp: put_map_def fun_eq_iff)

lemma reset_setup_ok:
  "mfp_ok m \<Longrightarrow> mfp_ok (mfp_reset m b)" "mfp_ok (mfp_setup m)"
proof -
  have z: "timer_ok (reset_timer t b)" for t b by (simp add: timer_ok_def reset_timer_def)
  then show "mfp_ok m \<Longrightarrow> mfp_ok (mfp_reset m b)" by (simp add: mfp_ok_def reset_eq)
  have "fold (\<lambda>i m. put_timer i (setup_timer (mfp_timers m i) i 0) m) [0..<4] m =
      m\<lparr>mfp_timers := (\<lambda>i. if i < 4 then setup_timer (mfp_timers m i) i 0 else mfp_timers m i)\<rparr>"
    by (rule fold_put_timer [where f = "\<lambda>i t. setup_timer t i 0"])
  then show "mfp_ok (mfp_setup m)"
    unfolding mfp_setup_def Let_def
    by (simp add: mfp_ok_def reset_eq z) (simp add: reset_timer_def setup_timer_def)
qed

section \<open>The next interrupt\<close>

text \<open>The scan returns the first of the running timers with the least cycle count.\<close>

lemma find_next_inv:
  "case fold (next_candidate m) [0..<n] None of
     None \<Rightarrow> \<forall>i<n. t_tcr (mfp_timers m i) = 0
   | Some j \<Rightarrow> j < n \<and> t_tcr (mfp_timers m j) \<noteq> 0 \<and>
       (\<forall>i<n. t_tcr (mfp_timers m i) \<noteq> 0 \<longrightarrow> t_cti (mfp_timers m j) \<le> t_cti (mfp_timers m i)) \<and>
       (\<forall>i<j. t_tcr (mfp_timers m i) \<noteq> 0 \<longrightarrow> t_cti (mfp_timers m j) < t_cti (mfp_timers m i))"
proof (induction n)
  case (Suc n)
  show ?case
  proof (cases "fold (next_candidate m) [0..<n] None")
    case None
    then show ?thesis using Suc by (auto simp: next_candidate_def [of m n] less_Suc_eq)
  next
    case (Some j)
    then show ?thesis
      using Suc by (auto simp: next_candidate_def [of m n] less_Suc_eq not_less intro: less_le_trans less_imp_le)
  qed
qed simp

lemma find_next_int_None: "find_next_int m = None \<longleftrightarrow> (\<forall>i. \<not> running m i)"
  using find_next_inv [where m = m and n = 4] by (auto simp: find_next_int_def running_def split: option.splits)

lemma find_next_int_Some:
  "find_next_int m = Some j \<Longrightarrow> running m j \<and>
    (\<forall>i. running m i \<longrightarrow> t_cti (mfp_timers m j) \<le> t_cti (mfp_timers m i))"
  using find_next_inv [where m = m and n = 4] by (simp add: find_next_int_def running_def)

section \<open>Interrupts in order\<close>

text \<open>The period of a timer, and what running the timers forward does to the state: a running timer
  moves by whole periods, everything that configures the timers stays.\<close>

definition period :: "mfp_timer \<Rightarrow> nat" where
  "period t = prescale (t_tcr t) * unat (t_tdr_res t)"

definition forward :: "mfp \<Rightarrow> mfp \<Rightarrow> bool" where
  "forward m m' \<longleftrightarrow> mfp_map m' = mfp_map m \<and>
     (\<forall>i. t_def (mfp_timers m' i) = t_def (mfp_timers m i) \<and> t_tcr (mfp_timers m' i) = t_tcr (mfp_timers m i) \<and>
        t_tdr_res (mfp_timers m' i) = t_tdr_res (mfp_timers m i) \<and>
        (\<exists>k. unat (t_cti (mfp_timers m' i)) = unat (t_cti (mfp_timers m i)) + k * period (mfp_timers m i) \<and>
          (running m i \<or> k = 0)))"

lemma forward_refl: "forward m m"
  by (auto simp: forward_def)

lemma forward_running: "forward m m' \<Longrightarrow> running m' i \<longleftrightarrow> running m i"
  by (simp add: forward_def running_def)

lemma forward_period: "forward m m' \<Longrightarrow> period (mfp_timers m' i) = period (mfp_timers m i)"
  by (simp add: forward_def period_def)

lemma forward_trans: "forward m m' \<Longrightarrow> forward m' m'' \<Longrightarrow> forward m m''"
  unfolding forward_def
proof (intro conjI allI)
  fix i
  assume a: "mfp_map m' = mfp_map m \<and> (\<forall>i. t_def (mfp_timers m' i) = t_def (mfp_timers m i) \<and> t_tcr (mfp_timers m' i) = t_tcr (mfp_timers m i) \<and>
        t_tdr_res (mfp_timers m' i) = t_tdr_res (mfp_timers m i) \<and>
        (\<exists>k. unat (t_cti (mfp_timers m' i)) = unat (t_cti (mfp_timers m i)) + k * period (mfp_timers m i) \<and>
          (running m i \<or> k = 0)))"
    and b: "mfp_map m'' = mfp_map m' \<and> (\<forall>i. t_def (mfp_timers m'' i) = t_def (mfp_timers m' i) \<and> t_tcr (mfp_timers m'' i) = t_tcr (mfp_timers m' i) \<and>
        t_tdr_res (mfp_timers m'' i) = t_tdr_res (mfp_timers m' i) \<and>
        (\<exists>k. unat (t_cti (mfp_timers m'' i)) = unat (t_cti (mfp_timers m' i)) + k * period (mfp_timers m' i) \<and>
          (running m' i \<or> k = 0)))"
  obtain k where k: "unat (t_cti (mfp_timers m' i)) = unat (t_cti (mfp_timers m i)) + k * period (mfp_timers m i)"
    "running m i \<or> k = 0" using a by blast
  obtain l where l: "unat (t_cti (mfp_timers m'' i)) = unat (t_cti (mfp_timers m' i)) + l * period (mfp_timers m' i)"
    "running m' i \<or> l = 0" using b by blast
  have p: "period (mfp_timers m' i) = period (mfp_timers m i)" "running m' i = running m i"
    using a by (simp_all add: period_def running_def)
  show "\<exists>k. unat (t_cti (mfp_timers m'' i)) = unat (t_cti (mfp_timers m i)) + k * period (mfp_timers m i) \<and>
          (running m i \<or> k = 0)"
    using k l unfolding p by (intro exI [of _ "k + l"]) (auto simp: algebra_simps)
  show "mfp_map m'' = mfp_map m" "t_def (mfp_timers m'' i) = t_def (mfp_timers m i)"
    "t_tcr (mfp_timers m'' i) = t_tcr (mfp_timers m i)" "t_tdr_res (mfp_timers m'' i) = t_tdr_res (mfp_timers m i)"
    using a b by simp_all
qed

lemma period_bounds:
  assumes "timer_ok t" "t_tcr t \<noteq> 0"
  shows "0 < period t" "period t < 2 ^ 25"
proof -
  have p: "1668 \<le> prescale (t_tcr t)" "prescale (t_tcr t) \<le> 83400"
    using prescale_bounds [of "t_tcr t"] assms by (auto simp: timer_ok_def)
  moreover have "1 \<le> unat (t_tdr_res t)" "unat (t_tdr_res t) \<le> 256"
    using assms by (auto simp: timer_ok_def)
  ultimately show "0 < period t" by (simp add: period_def)
  have "period t \<le> 83400 * 256"
    unfolding period_def by (rule mult_le_mono) fact+
  then show "period t < 2 ^ 25" by simp
qed

lemma timer_interrupt_cti:
  assumes "timer_ok t" "t_tcr t \<noteq> 0" "unat (t_cti t) < 2 ^ 62"
  shows "unat (t_cti (timer_interrupt m t)) = unat (t_cti t) + period t"
proof -
  have t: "t_tcr t < 8" using assms by (simp add: timer_ok_def)
  note b = period_bounds [OF assms(1,2)]
  have p: "unat (prediv_width (t_tcr t) * ucast (t_tdr_res t)) = period t"
    using b by (subst unat_mult_lem [THEN iffD1])
      (simp_all add: unat_prediv [OF t] unat_u32_bogoc period_def)
  then show ?thesis
    using b assms(3) by (simp add: timer_interrupt_def Let_def) (subst unat_add_lem [THEN iffD1], simp_all)
qed

text \<open>A timer whose interrupts are enabled and not masked.\<close>

definition unmasked :: "mfp \<Rightarrow> nat \<Rightarrow> bool" where
  "unmasked m i \<longleftrightarrow>
     (let d = timer_def i
      in mfp_map m (0x07 + def_channel d) AND mfp_map m (0x13 + def_channel d) AND def_bit d \<noteq> 0)"

definition cti_of :: "mfp \<Rightarrow> nat \<Rightarrow> bogoc" where
  "cti_of m i = t_cti (mfp_timers m i)"

text \<open>What is left to run before the limit: it decreases at each turn of the loop.\<close>

definition left_before :: "bogoc \<Rightarrow> mfp \<Rightarrow> nat" where
  "left_before b m = (\<Sum>i<4. if running m i then unat b - unat (cti_of m i) else 0)"

lemma skip_timer:
  assumes ok: "mfp_ok m" and b: "unat b \<le> 2 ^ 62" and i: "running m i" "cti_of m i < b"
    and t: "t = timer_interrupt m (mfp_timers m i)" and m': "m' = put_timer i (t\<lparr>t_int_mask := x, t_int_fall := y\<rparr>) m"
  shows "mfp_ok m'" and "forward m m'" and "left_before b m' < left_before b m"
    and "unat (cti_of m' i) = unat (cti_of m i) + period (mfp_timers m i)"
    and "j \<noteq> i \<Longrightarrow> mfp_timers m' j = mfp_timers m j"
proof -
  have i4: "i < 4" "t_tcr (mfp_timers m i) \<noteq> 0" using i by (auto simp: running_def)
  have ti: "timer_ok (mfp_timers m i)" "t_def (mfp_timers m i) = timer_def i" using mfp_ok_timer [OF ok i4(1)] by auto
  have lim: "unat (t_cti (mfp_timers m i)) < 2 ^ 62"
    using i(2) b by (simp add: cti_of_def word_less_nat_alt)
  note c = timer_interrupt_cti [OF ti(1) i4(2) lim, of m, folded t]
  have tk: "timer_ok t" unfolding t by (rule timer_ops_ok [OF ti(1)])
  have s: "t_tcr t = t_tcr (mfp_timers m i)" "t_tdr_res t = t_tdr_res (mfp_timers m i)"
    "t_def t = t_def (mfp_timers m i)"
    by (simp_all add: t timer_interrupt_def Let_def)
  show "mfp_ok m'" unfolding m' using tk s ok by (intro mfp_ok_put) (simp_all add: timer_ok_def)
  show ci: "unat (cti_of m' i) = unat (cti_of m i) + period (mfp_timers m i)"
    using c by (simp add: m' cti_of_def)
  show o: "j \<noteq> i \<Longrightarrow> mfp_timers m' j = mfp_timers m j" for j by (simp add: m')
  show "forward m m'"
    unfolding forward_def
  proof (intro conjI allI)
    fix j
    show "\<exists>k. unat (t_cti (mfp_timers m' j)) = unat (t_cti (mfp_timers m j)) + k * period (mfp_timers m j) \<and>
          (running m j \<or> k = 0)"
      using ci i(1) o [of j] by (cases "j = i") (auto simp: cti_of_def intro: exI [of _ 1] exI [of _ 0])
  qed (simp_all add: m' s)
  have r: "running m' j = running m j" for j by (simp add: running_def m' s)
  have p: "0 < period (mfp_timers m i)" by (rule period_bounds [OF ti(1) i4(2)])
  show "left_before b m' < left_before b m"
    unfolding left_before_def
  proof (rule sum_strict_mono_ex1)
    show "\<forall>j\<in>{..<4}. (if running m' j then unat b - unat (cti_of m' j) else 0)
        \<le> (if running m j then unat b - unat (cti_of m j) else 0)"
    proof
      fix j
      have "unat (cti_of m j) \<le> unat (cti_of m' j)"
        using ci o [of j] by (cases "j = i") (simp_all add: cti_of_def)
      then show "(if running m' j then unat b - unat (cti_of m' j) else 0)
          \<le> (if running m j then unat b - unat (cti_of m j) else 0)"
        by (simp add: r diff_le_mono2)
    qed
    show "\<exists>j\<in>{..<4}. (if running m' j then unat b - unat (cti_of m' j) else 0)
        < (if running m j then unat b - unat (cti_of m j) else 0)"
      using i i4 r ci p by (intro bexI [of _ i]) (auto simp: word_less_nat_alt)
  qed simp
qed

lemma mfp_interrupt_unfold:
  assumes "mfp_ok m" "find_next_int m = Some i" "cti_of m i < b" "t = timer_interrupt m (mfp_timers m i)"
  shows "mfp_interrupt b m =
    (if unmasked m i then Some (Some (t_interrupt t), put_timer i (t\<lparr>t_int_fall := t_int_fall t + 1\<rparr>) m)
     else mfp_interrupt b (put_timer i (t\<lparr>t_int_mask := t_int_mask t + 1\<rparr>) m))"
proof -
  have "i < 4" using find_next_int_Some [OF assms(2)] by (simp add: running_def)
  then have "t_def t = timer_def i" using mfp_ok_timer [OF assms(1)] by (simp add: assms(4))
  then show ?thesis
    using assms(2-3) by (subst mfp_interrupt.simps) (simp add: assms(4) unmasked_def Let_def cti_of_def)
qed

definition interrupt_spec :: "bogoc \<Rightarrow> mfp \<Rightarrow> interrupt68 option \<Rightarrow> mfp \<Rightarrow> bool" where
  "interrupt_spec b m r m' \<longleftrightarrow>
     mfp_ok m' \<and> forward m m' \<and>
     (case r of
        None \<Rightarrow> (\<forall>i. running m i \<longrightarrow> b \<le> cti_of m' i) \<and> (\<forall>i. unmasked m i \<longrightarrow> cti_of m' i = cti_of m i)
      | Some it \<Rightarrow> \<exists>i. running m i \<and> unmasked m i \<and> cti_of m i < b \<and>
          it = \<lparr>int_vector = MFP_VECTOR_BASE m + def_vector (timer_def i), int_level = 6, int_cycle = cti_of m i\<rparr> \<and>
          unat (cti_of m' i) = unat (cti_of m i) + period (mfp_timers m i) \<and>
          (\<forall>j. running m j \<longrightarrow> cti_of m i \<le> cti_of m' j) \<and>
          (\<forall>j. unmasked m j \<longrightarrow> j \<noteq> i \<longrightarrow> cti_of m' j = cti_of m j))"

lemma mfp_interrupt_returns:
  assumes b: "unat b \<le> 2 ^ 62"
  shows "mfp_ok m \<Longrightarrow> \<exists>r m'. mfp_interrupt b m = Some (r, m') \<and> interrupt_spec b m r m'"
proof (induction "left_before b m" arbitrary: m rule: less_induct)
  case less
  note ok = less.prems
  show ?case
  proof (cases "find_next_int m")
    case None
    then have "mfp_interrupt b m = Some (None, m)" by (subst mfp_interrupt.simps) simp
    then show ?thesis using None ok find_next_int_None [of m]
      by (auto simp: interrupt_spec_def forward_refl)
  next
    case (Some i)
    note n = find_next_int_Some [OF Some]
    define t where "t = timer_interrupt m (mfp_timers m i)"
    show ?thesis
    proof (cases "cti_of m i < b")
      case False
      then have "mfp_interrupt b m = Some (None, m)"
        using Some by (subst mfp_interrupt.simps) (simp add: cti_of_def)
      moreover have "\<forall>j. running m j \<longrightarrow> b \<le> cti_of m j"
        using False n by (auto simp: cti_of_def not_less intro: order_trans)
      ultimately show ?thesis using ok by (auto simp: interrupt_spec_def forward_refl)
    next
      case True
      note u = mfp_interrupt_unfold [OF ok Some True t_def]
      show ?thesis
      proof (cases "unmasked m i")
        case un: True
        define m' where "m' = put_timer i (t\<lparr>t_int_fall := t_int_fall t + 1\<rparr>) m"
        have m'2: "m' = put_timer i (t\<lparr>t_int_mask := t_int_mask t, t_int_fall := t_int_fall t + 1\<rparr>) m"
          by (simp add: m'_def)
        note sk = skip_timer [OF ok b conjunct1 [OF n] True t_def m'2]
        have it: "t_interrupt t = \<lparr>int_vector = MFP_VECTOR_BASE m + def_vector (timer_def i), int_level = 6, int_cycle = cti_of m i\<rparr>"
          using mfp_ok_timer [OF ok, of i] n
          by (auto simp: t_def timer_interrupt_def Let_def cti_of_def running_def timer_def_def)
        have o: "cti_of m' j = cti_of m j" if "j \<noteq> i" for j using sk(5) [OF that] by (simp add: cti_of_def)
        have "cti_of m i \<le> cti_of m' j" if "running m j" for j
          using n that o [of j] sk(4) by (cases "j = i") (auto simp: cti_of_def word_le_nat_alt)
        then have "interrupt_spec b m (Some (t_interrupt t)) m'"
          using sk un True n o it unfolding interrupt_spec_def by auto
        moreover have "mfp_interrupt b m = Some (Some (t_interrupt t), m')" using u un by (simp add: m'_def)
        ultimately show ?thesis by blast
      next
        case ms: False
        define m' where "m' = put_timer i (t\<lparr>t_int_mask := t_int_mask t + 1\<rparr>) m"
        have m'2: "m' = put_timer i (t\<lparr>t_int_mask := t_int_mask t + 1, t_int_fall := t_int_fall t\<rparr>) m"
          by (simp add: m'_def)
        note sk = skip_timer [OF ok b conjunct1 [OF n] True t_def m'2]
        from less.hyps [OF sk(3,1)] obtain r m'' where
          r: "mfp_interrupt b m' = Some (r, m'')" "interrupt_spec b m' r m''" by blast
        have mp: "mfp_map m' = mfp_map m" by (simp add: m'_def)
        have e: "running m' j = running m j" "unmasked m' j = unmasked m j" "MFP_VECTOR_BASE m' = MFP_VECTOR_BASE m"
          "period (mfp_timers m' j) = period (mfp_timers m j)" for j
          using forward_running [OF sk(2)] forward_period [OF sk(2)] mp
          by (simp_all add: unmasked_def MFP_VECTOR_BASE_def)
        have o: "cti_of m' j = cti_of m j" if "j \<noteq> i" for j using sk(5) [OF that] by (simp add: cti_of_def)
        have "cti_of m' j = cti_of m j" if "unmasked m j" for j
          using o [of j] that ms by auto
        then have "interrupt_spec b m r m''"
          using r(2) forward_trans [OF sk(2)] unfolding interrupt_spec_def e
          by (auto split: option.splits)
        moreover have "mfp_interrupt b m = Some (r, m'')" using u ms r(1) by (simp add: m'_def)
        ultimately show ?thesis by blast
      qed
    qed
  qed
qed

section \<open>Moving the cycle base\<close>

lemma catch_up_returns:
  assumes b: "unat b \<le> 2 ^ 62"
  shows "timer_ok t \<Longrightarrow> t_tcr t \<noteq> 0 \<Longrightarrow> \<exists>u. catch_up b t = Some u \<and> b \<le> t_cti u \<and>
    timer_ok u \<and> t_tcr u = t_tcr t \<and> t_def u = t_def t"
proof (induction "unat b - unat (t_cti t)" arbitrary: t rule: less_induct)
  case less
  show ?case
  proof (cases "t_cti t < b")
    case False
    then show ?thesis using less.prems by (subst catch_up.simps) (auto simp: not_less)
  next
    case True
    define u where "u = t\<lparr>t_int_lost := t_int_lost t + 1, t_cti := t_cti t + ucast (t_tdr_res t) * prediv_width (t_tcr t)\<rparr>"
    have lim: "unat (t_cti t) < 2 ^ 62" using True b by (simp add: word_less_nat_alt)
    have "unat (t_cti u) = unat (t_cti t) + period t"
      using timer_interrupt_cti [OF less.prems lim, of undefined]
      by (simp add: u_def timer_interrupt_def Let_def mult.commute)
    then have "unat b - unat (t_cti u) < unat b - unat (t_cti t)"
      using True period_bounds(1) [OF less.prems] by (simp add: word_less_nat_alt)
    moreover have "timer_ok u" "t_tcr u \<noteq> 0" using less.prems by (simp_all add: u_def timer_ok_def)
    ultimately obtain w where "catch_up b u = Some w" "b \<le> t_cti w" "timer_ok w" "t_tcr w = t_tcr u" "t_def w = t_def u"
      using less.hyps by blast
    moreover have "catch_up b t = catch_up b u"
      using True by (subst catch_up.simps) (simp add: u_def Let_def)
    ultimately show ?thesis by (simp add: u_def)
  qed
qed

lemma adjust_timer_returns:
  assumes "unat b \<le> 2 ^ 62" "timer_ok t"
  shows "\<exists>u. adjust_timer b t = Some u \<and> timer_ok u \<and> t_def u = t_def t \<and> t_tcr u = t_tcr t \<and>
    (t_tcr t \<noteq> 0 \<longrightarrow> b \<le> t_cti t \<longrightarrow> t_cti u = t_cti t - b)"
proof (cases "t_tcr t = 0")
  case True
  then show ?thesis using assms by (simp add: adjust_timer_def)
next
  case False
  from catch_up_returns [OF assms False] obtain u where
    u: "catch_up b t = Some u" "timer_ok u" "t_tcr u = t_tcr t" "t_def u = t_def t" by blast
  have "b \<le> t_cti t \<Longrightarrow> u = t"
    using u(1) by (subst (asm) catch_up.simps) (simp add: not_less [symmetric])
  then show ?thesis using u False by (auto simp: adjust_timer_def Let_def timer_ok_def)
qed

lemma adjust_timers_returns:
  assumes "unat b \<le> 2 ^ 62"
  shows "mfp_ok m \<Longrightarrow> distinct is \<Longrightarrow> set is \<subseteq> {..<4} \<Longrightarrow>
    \<exists>m'. adjust_timers b is m = Some m' \<and> mfp_ok m' \<and> mfp_map m' = mfp_map m \<and>
      (\<forall>i. t_tcr (mfp_timers m' i) = t_tcr (mfp_timers m i)) \<and>
      (\<forall>i. i \<notin> set is \<longrightarrow> mfp_timers m' i = mfp_timers m i) \<and>
      (\<forall>i\<in>set is. running m i \<longrightarrow> b \<le> cti_of m i \<longrightarrow> cti_of m' i = cti_of m i - b)"
proof (induction "is" arbitrary: m)
  case (Cons i js)
  have i: "i < 4" using Cons.prems by simp
  from adjust_timer_returns [OF assms conjunct1 [OF mfp_ok_timer [OF Cons.prems(1) i]]] obtain u where
    u: "adjust_timer b (mfp_timers m i) = Some u" "timer_ok u" "t_def u = t_def (mfp_timers m i)"
      "t_tcr u = t_tcr (mfp_timers m i)"
      "t_tcr (mfp_timers m i) \<noteq> 0 \<longrightarrow> b \<le> cti_of m i \<longrightarrow> t_cti u = cti_of m i - b"
    unfolding cti_of_def by blast
  define n where "n = put_timer i u m"
  have "mfp_ok n" unfolding n_def using Cons.prems u by (intro mfp_ok_put)
  with Cons.IH [of n] Cons.prems obtain m' where m': "adjust_timers b js n = Some m'" "mfp_ok m'" "mfp_map m' = mfp_map n"
      "\<forall>j. t_tcr (mfp_timers m' j) = t_tcr (mfp_timers n j)"
      "\<forall>j. j \<notin> set js \<longrightarrow> mfp_timers m' j = mfp_timers n j"
      "\<forall>j\<in>set js. running n j \<longrightarrow> b \<le> cti_of n j \<longrightarrow> cti_of m' j = cti_of n j - b"
    by auto
  have "adjust_timers b (i # js) m = Some m'" using u m' by (simp add: n_def)
  moreover have "\<forall>j\<in>set (i # js). running m j \<longrightarrow> b \<le> cti_of m j \<longrightarrow> cti_of m' j = cti_of m j - b"
  proof
    fix j assume j: "j \<in> set (i # js)"
    show "running m j \<longrightarrow> b \<le> cti_of m j \<longrightarrow> cti_of m' j = cti_of m j - b"
    proof (cases "j = i")
      case True
      then have "cti_of m' j = t_cti u" using m'(5) Cons.prems by (simp add: cti_of_def n_def)
      then show ?thesis using u(5) True by (simp add: running_def)
    next
      case False
      then show ?thesis using m'(6) j by (auto simp: running_def n_def cti_of_def)
    qed
  qed
  moreover have "\<forall>j. t_tcr (mfp_timers m' j) = t_tcr (mfp_timers m j)"
    using m'(4) u(4) by (simp add: n_def)
  moreover have "\<forall>j. j \<notin> set (i # js) \<longrightarrow> mfp_timers m' j = mfp_timers m j"
    using m'(5) by (simp add: n_def)
  ultimately show ?case using m'(2,3) by (auto simp: n_def)
qed simp

lemma mfp_adjust_returns:
  assumes "unat b \<le> 2 ^ 62" "mfp_ok m"
  shows "\<exists>m'. mfp_adjust_bogoc m b = Some m' \<and> mfp_ok m' \<and> mfp_map m' = mfp_map m \<and>
    (\<forall>i. running m' i \<longleftrightarrow> running m i) \<and>
    (\<forall>i. running m i \<longrightarrow> b \<le> cti_of m i \<longrightarrow> cti_of m' i = cti_of m i - b)"
proof (cases "b = 0")
  case True
  then show ?thesis using assms by (auto simp: mfp_adjust_bogoc_def)
next
  case False
  have r: "set [0..<4] = {..<4}" by auto
  from adjust_timers_returns [OF assms, of "[0..<4]"] obtain m' where
    "adjust_timers b [0..<4] m = Some m'" "mfp_ok m'" "mfp_map m' = mfp_map m"
    "\<forall>i. t_tcr (mfp_timers m' i) = t_tcr (mfp_timers m i)"
    "\<forall>i\<in>{..<4}. running m i \<longrightarrow> b \<le> cti_of m i \<longrightarrow> cti_of m' i = cti_of m i - b"
    unfolding r by (metis distinct_upt order_refl)
  then show ?thesis using False by (auto simp: mfp_adjust_bogoc_def running_def)
qed

text \<open>Whatever the limit, what they return is well formed.\<close>

lemma catch_up_ok: "catch_up b t = Some u \<Longrightarrow> timer_ok t \<longrightarrow> timer_ok u \<and> t_def u = t_def t"
  by (erule catch_up.raw_induct [rotated]) (auto simp: timer_ok_def Let_def split: if_splits)

lemma adjust_timers_ok: "adjust_timers b is m = Some m' \<Longrightarrow> mfp_ok m \<Longrightarrow> set is \<subseteq> {..<4} \<Longrightarrow> mfp_ok m'"
proof (induction "is" arbitrary: m)
  case (Cons i js)
  from Cons.prems obtain u where u: "adjust_timer b (mfp_timers m i) = Some u" "adjust_timers b js (put_timer i u m) = Some m'"
    by (auto simp: bind_eq_Some_conv)
  have t: "timer_ok (mfp_timers m i)" using mfp_ok_timer [OF Cons.prems(2)] Cons.prems(3) by simp
  have "timer_ok u \<and> t_def u = t_def (mfp_timers m i)"
    using u(1) t by (auto simp: adjust_timer_def bind_eq_Some_conv Let_def timer_ok_def split: if_splits dest!: catch_up_ok)
  then show ?case using Cons u(2) by (auto intro: mfp_ok_put)
qed auto

lemma mfp_adjust_ok: "mfp_adjust_bogoc m b = Some m' \<Longrightarrow> mfp_ok m \<Longrightarrow> mfp_ok m'"
  by (auto simp: mfp_adjust_bogoc_def split: if_splits dest!: adjust_timers_ok)

lemma mfp_interrupt_ok: "mfp_interrupt b m = Some r \<Longrightarrow> mfp_ok m \<longrightarrow> mfp_ok (snd r)"
proof (erule mfp_interrupt.raw_induct [rotated])
  fix rec b m r
  assume IH: "\<And>b m r. rec b m = Some r \<Longrightarrow> mfp_ok m \<longrightarrow> mfp_ok (snd r)"
    and r: "(case find_next_int m of None \<Rightarrow> Some (None, m)
     | Some i \<Rightarrow>
        if t_cti (mfp_timers m i) < b then
          let t = timer_interrupt m (mfp_timers m i)
          in if mfp_map m (0x07 + def_channel (t_def t)) AND mfp_map m (0x13 + def_channel (t_def t)) AND
                def_bit (t_def t) \<noteq> 0 then
               Some (Some (t_interrupt t), put_timer i (t\<lparr>t_int_fall := t_int_fall t + 1\<rparr>) m)
             else rec b (put_timer i (t\<lparr>t_int_mask := t_int_mask t + 1\<rparr>) m)
        else Some (None, m)) = Some r"
  show "mfp_ok m \<longrightarrow> mfp_ok (snd r)"
  proof
    assume ok: "mfp_ok m"
    have p: "mfp_ok (put_timer i ((timer_interrupt m (mfp_timers m i))\<lparr>t_int_fall := x, t_int_mask := y\<rparr>) m)"
      if "find_next_int m = Some i" for i x y
    proof -
      have "timer_ok (mfp_timers m i)"
        using mfp_ok_timer [OF ok] find_next_int_Some [OF that] by (simp add: running_def)
      then have "timer_ok (timer_interrupt m (mfp_timers m i))" by (rule timer_ops_ok)
      then show ?thesis using ok by (intro mfp_ok_put) (simp_all add: timer_ok_def)
    qed
    have q: "mfp_ok (put_timer i ((timer_interrupt m (mfp_timers m i))\<lparr>t_int_fall := x\<rparr>) m)"
      "mfp_ok (put_timer i ((timer_interrupt m (mfp_timers m i))\<lparr>t_int_mask := x\<rparr>) m)"
      if "find_next_int m = Some i" for i x
      using p [OF that, where x = x and y = "t_int_mask (timer_interrupt m (mfp_timers m i))"]
        p [OF that, where x = "t_int_fall (timer_interrupt m (mfp_timers m i))" and y = x] by simp_all
    show "mfp_ok (snd r)"
      using r ok q IH by (auto simp: Let_def split: option.splits if_splits)
  qed
qed

text \<open>A timer read in the very cycle it is started shows its data register reduced by the modulo, plus one.\<close>

lemma read_after_resume:
  assumes "timer_ok t" "0 < v" "v < 8"
  shows "unat (timer_get_tdr (resume_timer t v b) b) = unat (t_tdr_cur t) mod unat (t_tdr_res t) + 1"
proof -
  let ?u = "resume_timer t v b"
  have p: "0 < prescale v" "prescale v \<le> 83400" using prescale_bounds [OF assms(2,3)] by simp_all
  have u: "t_tcr ?u < 8" "1 \<le> unat (t_tdr_res ?u)" "unat (t_tdr_res ?u) \<le> 256"
    using assms by (auto simp: resume_timer_def timer_ok_def Let_def)
  have "t_cti ?u - b = ucast (t_tdr_cur t) * prediv_width v"
    using assms by (simp add: resume_timer_def timer_ok_def Let_def)
  moreover have "unat (t_tdr_cur t) * prescale v \<le> 256 * 83400"
    using assms p by (intro mult_le_mono) (simp_all add: timer_ok_def)
  ultimately have "unat (t_cti ?u - b) = unat (t_tdr_cur t) * prescale v"
    using unat_prediv [OF assms(3)]
    by simp (subst unat_mult_lem [THEN iffD1], simp_all add: unat_u32_bogoc)
  then show ?thesis
    using p unfolding get_tdr_value [OF u] by (simp add: resume_timer_def Let_def)
qed

end
