(* ===== verification/Mw68.thy ===== *)
theory Mw68
  imports Struct68
begin

text \<open>
  The STE sound, \<open>io68/mwemul.c\<close>: the DMA sample player, the LMC 1992 volume chip behind the
  microwire interface, and the mixing of the samples into the buffer of the YM.

  The DMA counters are \<open>mwct_t\<close>, 64-bit fixed point numbers whose integer part is the upper
  \<open>log2mem\<close> bits, so they wrap around at the end of the memory by themselves.  The decibel
  table in use is a number that selects one of three.  The memory the samples come from is an
  argument, a sample buffer is a list, and the loops over it are recursions on the list.

  Lemmas: the volumes stay in range, so the decibel tables are never read past their end; a
  sample address is always inside the memory; mixing keeps the length of the buffer; and a buffer mixed
  with the DMA against a reference that counts in steps of one size, through the end of the frame
  being played, round a frame that loops, and past the end of one that does not.
\<close>

section \<open>Tables and state\<close>

definition MW_ACTI :: nat where "MW_ACTI = 0x01"
definition MW_BASH :: nat where "MW_BASH = 0x03"
definition MW_CTH :: nat where "MW_CTH = 0x09"
definition MW_CTM :: nat where "MW_CTM = MW_CTH + 2"
definition MW_CTL :: nat where "MW_CTL = MW_CTH + 4"
definition MW_ENDH :: nat where "MW_ENDH = 0x0F"
definition MW_MODE :: nat where "MW_MODE = 0x21"
definition MW_DATA :: nat where "MW_DATA = 0x22"
definition MW_CTRL :: nat where "MW_CTRL = 0x24"

lemmas mw_reg_defs = MW_ACTI_def MW_BASH_def MW_CTH_def MW_CTM_def MW_CTL_def MW_ENDH_def MW_MODE_def
  MW_DATA_def MW_CTRL_def

definition MW_N_DECIBEL :: nat where "MW_N_DECIBEL = 121"
definition MW_MIX_FIX :: nat where "MW_MIX_FIX = 10"
definition MW_STE_MULT :: int where "MW_STE_MULT = push_bit MW_MIX_FIX 1 div 4"
definition MW_YM_MULT :: int where "MW_YM_MULT = push_bit MW_MIX_FIX 1 - MW_STE_MULT"

definition Db_alone :: "int68 list" where
  "Db_alone =
    [0x40000, 0x32d64, 0x28619, 0x20137, 0x197a9, 0x143d1, 0x10137, 0xcc50,
     0xa24b, 0x80e9, 0x6666, 0x5156, 0x409c, 0x3352, 0x28c4, 0x2061,
     0x19b8, 0x146e, 0x103a, 0xce4, 0xa3d, 0x822, 0x676, 0x521,
     0x413, 0x33c, 0x292, 0x20b, 0x19f, 0x14a, 0x106, 0xd0,
     0xa5, 0x83, 0x68, 0x52, 0x41, 0x34, 0x29, 0x21,
     0x1a, 0x14, 0x10, 0xd, 0xa, 0x8, 0x6, 0x5, 0x4, 0x3, 0x2, 0x2, 0x1, 0x1, 0x1, 0x0]
     @ replicate 65 0"

definition Db_mix :: "int68 list" where
  "Db_mix =
    [0x10000, 0xcb59, 0xa186, 0x804d, 0x65ea, 0x50f4, 0x404d, 0x3314,
     0x2892, 0x203a, 0x1999, 0x1455, 0x1027, 0xcd4, 0xa31, 0x818,
     0x66e, 0x51b, 0x40e, 0x339, 0x28f, 0x208, 0x19d, 0x148,
     0x104, 0xcf, 0xa4, 0x82, 0x67, 0x52, 0x41, 0x34,
     0x29, 0x20, 0x1a, 0x14, 0x10, 0xd, 0xa, 0x8,
     0x6, 0x5, 0x4, 0x3, 0x2, 0x2, 0x1, 0x1, 0x1]
     @ replicate 72 0"

definition Db_mix12 :: "int68 list" where
  "Db_mix12 =
    [0x1027, 0xcd4, 0xa31, 0x818, 0x66e, 0x51b, 0x40e, 0x339,
     0x28f, 0x208, 0x19d, 0x148, 0x104, 0xcf, 0xa4, 0x82,
     0x67, 0x52, 0x41, 0x34, 0x29, 0x20, 0x1a, 0x14,
     0x10, 0xd, 0xa, 0x8, 0x6, 0x5, 0x4, 0x3, 0x2, 0x2, 0x1, 0x1, 0x1]
     @ replicate 84 0"

datatype db_conv = DbMix12 | DbMix | DbAlone

fun db_table :: "db_conv \<Rightarrow> int68 list" where
  "db_table DbMix12 = Db_mix12"
| "db_table DbMix = Db_mix"
| "db_table DbAlone = Db_alone"

record lmc =
  lmc_master :: u8
  lmc_left :: u8
  lmc_right :: u8
  lmc_lr_avg :: u8
  lmc_high :: u8
  lmc_low :: u8
  lmc_mixer :: u8

record mw =
  mw_map :: "nat \<Rightarrow> u8"
  mw_ct :: int68
  mw_end :: int68
  mw_lmc :: lmc
  mw_db_conv :: db_conv
  mw_eng :: int
  mw_hz :: int
  mw_ct_fix :: nat
  mw_log2mem :: nat

record mw_parms =
  parm_engine :: int
  parm_hz :: int

definition mw_put :: "nat \<Rightarrow> u8 \<Rightarrow> mw \<Rightarrow> mw" where
  "mw_put n v m = m\<lparr>mw_map := (mw_map m)(n := v)\<rparr>"

definition mw_counter_read :: "mw \<Rightarrow> nat \<Rightarrow> int68" where
  "mw_counter_read m n =
    push_bit (mw_ct_fix m)
      (push_bit 16 (ucast (mw_map m n)) + push_bit 8 (ucast (mw_map m (n + 2))) + ucast (mw_map m (n + 4)))"

definition mw_counter_write :: "nat \<Rightarrow> int68 \<Rightarrow> mw \<Rightarrow> mw" where
  "mw_counter_write n v m =
    (let vnorm = ucast (drop_bit (mw_ct_fix m) v) :: s32;
         m = mw_put n (ucast (drop_bit 16 vnorm)) m;
         m = mw_put (n + 2) (ucast (drop_bit 8 vnorm)) m
     in mw_put (n + 4) (ucast vnorm) m)"

section \<open>Engine and sampling rate\<close>

text \<open>A null chip stands for the defaults, which are the second component.\<close>

definition MW_ENGINE_QUERY :: int where "MW_ENGINE_QUERY = -1"
definition MW_ENGINE_DEFAULT :: int where "MW_ENGINE_DEFAULT = 0"
definition MW_ENGINE_SIMPLE :: int where "MW_ENGINE_SIMPLE = 1"
definition MW_ENGINE_LINEAR :: int where "MW_ENGINE_LINEAR = 2"

definition mw_engine :: "mw option \<Rightarrow> int \<Rightarrow> mw_parms \<Rightarrow> int \<times> mw option \<times> mw_parms" where
  "mw_engine m engine def =
    (if engine = MW_ENGINE_QUERY then
       (case m of Some c \<Rightarrow> mw_eng c | None \<Rightarrow> parm_engine def, m, def)
     else
       let engine = (if engine = MW_ENGINE_SIMPLE \<or> engine = MW_ENGINE_LINEAR then engine
                     else parm_engine def)
       in case m of
            Some c \<Rightarrow> (engine, Some (c\<lparr>mw_eng := engine\<rparr>), def)
          | None \<Rightarrow> (engine, None, def\<lparr>parm_engine := engine\<rparr>))"

definition SPR_MIN :: int where "SPR_MIN = 6250"
definition SPR_MAX :: int where "SPR_MAX = 125166"
definition SPR_DEF :: int where "SPR_DEF = 48000"
definition MW_HZ_QUERY :: int where "MW_HZ_QUERY = -1"
definition MW_HZ_DEFAULT :: int where "MW_HZ_DEFAULT = 0"

definition mw_sampling_rate :: "mw option \<Rightarrow> int \<Rightarrow> mw_parms \<Rightarrow> int \<times> mw option \<times> mw_parms" where
  "mw_sampling_rate m hz def =
    (if hz = MW_HZ_QUERY then (case m of Some c \<Rightarrow> mw_hz c | None \<Rightarrow> parm_hz def, m, def)
     else
       let hz = (if hz = MW_HZ_DEFAULT then parm_hz def else hz);
           hz = (if hz < SPR_MIN then SPR_MIN else if SPR_MAX < hz then SPR_MAX else hz)
       in case m of
            Some c \<Rightarrow> (hz, Some (c\<lparr>mw_hz := hz\<rparr>), def)
          | None \<Rightarrow> (hz, None, def\<lparr>parm_hz := hz\<rparr>))"

section \<open>Volumes\<close>

definition MW_LMC_QUERY :: int where "MW_LMC_QUERY = -1"

definition put_lmc :: "lmc \<Rightarrow> mw \<Rightarrow> mw" where
  "put_lmc l m = m\<lparr>mw_lmc := l\<rparr>"

definition mw_lmc_mixer :: "int \<Rightarrow> mw \<Rightarrow> int \<times> mw" where
  "mw_lmc_mixer n m =
    (if n = MW_LMC_QUERY then (uint (lmc_mixer (mw_lmc m)), m)
     else
       let n = n mod 4;
           m = put_lmc ((mw_lmc m)\<lparr>lmc_mixer := word_of_int n\<rparr>) m;
           m = (if n \<noteq> 3
                then m\<lparr>mw_db_conv := (if n = 0 then DbMix12 else if n = 1 then DbMix else DbAlone)\<rparr>
                else m)
       in (n, m))"

definition clamp :: "int \<Rightarrow> int \<Rightarrow> int" where
  "clamp hi n = (let n = (if n < 0 then 0 else n) in if hi < n then hi else n)"

definition mw_lmc_master :: "int \<Rightarrow> mw \<Rightarrow> int \<times> mw" where
  "mw_lmc_master n m =
    (if n = MW_LMC_QUERY then ((80 - uint (lmc_master (mw_lmc m))) div 2, m)
     else
       let n = clamp 40 n
       in (n, put_lmc ((mw_lmc m)\<lparr>lmc_master := word_of_int (80 - n * 2)\<rparr>) m))"

definition lmc_lr :: "bool \<Rightarrow> int \<Rightarrow> mw \<Rightarrow> int \<times> mw" where
  "lmc_lr lr n m =
    (let pval = (if lr then lmc_left (mw_lmc m) else lmc_right (mw_lmc m))
     in if n = MW_LMC_QUERY then ((40 - uint pval) div 2, m)
        else
          let n = clamp 20 n;
              v = word_of_int (40 - n * 2);
              l = (if lr then (mw_lmc m)\<lparr>lmc_left := v\<rparr> else (mw_lmc m)\<lparr>lmc_right := v\<rparr>);
              l = l\<lparr>lmc_lr_avg := word_of_int ((uint (lmc_left l) + uint (lmc_right l)) div 2)\<rparr>
          in (n, put_lmc l m))"

definition mw_lmc_left :: "int \<Rightarrow> mw \<Rightarrow> int \<times> mw" where
  "mw_lmc_left n m = lmc_lr False n m"

definition mw_lmc_right :: "int \<Rightarrow> mw \<Rightarrow> int \<times> mw" where
  "mw_lmc_right n m = lmc_lr True n m"

definition lmc_hl :: "bool \<Rightarrow> int \<Rightarrow> mw \<Rightarrow> int \<times> mw" where
  "lmc_hl hl n m =
    (let pval = (if hl then lmc_high (mw_lmc m) else lmc_low (mw_lmc m))
     in if n = MW_LMC_QUERY then (12 - uint pval, m)
        else
          let n = clamp 12 n;
              v = word_of_int (12 - n)
          in (n, put_lmc (if hl then (mw_lmc m)\<lparr>lmc_high := v\<rparr> else (mw_lmc m)\<lparr>lmc_low := v\<rparr>) m))"

definition mw_lmc_high :: "int \<Rightarrow> mw \<Rightarrow> int \<times> mw" where
  "mw_lmc_high n m = lmc_hl False n m"

definition mw_lmc_low :: "int \<Rightarrow> mw \<Rightarrow> int \<times> mw" where
  "mw_lmc_low n m = lmc_hl True n m"

text \<open>The command of nine bits: three of function (\<open>c / 64\<close>), six of value.\<close>

definition command_dispatcher :: "nat \<Rightarrow> mw \<Rightarrow> int \<times> mw" where
  "command_dispatcher n m =
    (let c = n div 64 mod 8; n = int (n mod 64)
     in if c = 0 then (0, snd (mw_lmc_mixer (n mod 4) m))
        else if c = 1 then (0, snd (mw_lmc_low (n mod 16) m))
        else if c = 2 then (0, snd (mw_lmc_high (n mod 16) m))
        else if c = 3 then (0, snd (mw_lmc_master (n mod 64) m))
        else if c = 4 then (0, snd (mw_lmc_right (n mod 32) m))
        else if c = 5 then (0, snd (mw_lmc_left (n mod 32) m))
        else (-1, m))"

text \<open>
  The serial transfer: data bits under the control mask, highest first, until eleven are
  collected.  \<open>k\<close> is the number of mask positions left; the result is the number of bits and
  the command.
\<close>

fun shift_in :: "nat \<Rightarrow> s32 \<Rightarrow> s32 \<Rightarrow> nat \<Rightarrow> nat \<Rightarrow> nat \<times> nat" where
  "shift_in 0 ctrl data bits comm = (bits, comm)"
| "shift_in (Suc k) ctrl data bits comm =
    (if bits = 11 then (bits, comm)
     else if bit ctrl k then shift_in k ctrl data (bits + 1) (2 * comm + of_bool (bit data k))
     else shift_in k ctrl data bits comm)"

definition mw_command :: "mw \<Rightarrow> int \<times> mw" where
  "mw_command m =
    (let ctrl = push_bit 8 (ucast (mw_map m MW_CTRL)) + ucast (mw_map m (MW_CTRL + 1)) :: s32;
         data = push_bit 8 (ucast (mw_map m MW_DATA)) + ucast (mw_map m (MW_DATA + 1)) :: s32;
         m = mw_put MW_DATA 0 (mw_put (MW_DATA + 1) 0 m);
         (bits, comm) = shift_in 16 ctrl data 0 0
     in if bits \<noteq> 11 then (-1, m)
        else if comm div 512 mod 4 \<noteq> 2 then (-1, m)
        else command_dispatcher (comm mod 512) m)"

section \<open>Reset and setup\<close>

definition lmc_reset :: "mw \<Rightarrow> mw" where
  "lmc_reset m =
    (let (_, m) = mw_lmc_mixer 1 m;
         (_, m) = mw_lmc_master 40 m;
         (_, m) = mw_lmc_left 20 m;
         (_, m) = mw_lmc_right 20 m;
         (_, m) = mw_lmc_high 6 m;
         (_, m) = mw_lmc_low 6 m
     in m)"

definition mw_reset :: "mw \<Rightarrow> mw" where
  "mw_reset m =
    (let m = m\<lparr>mw_map := (\<lambda>i. if i < 0x40 then 0 else mw_map m i)\<rparr>;
         m = m\<lparr>mw_ct := 0, mw_end := 0\<rparr>
     in lmc_reset m)"

text \<open>\<open>mw_setup\<close> with valid pointers, on the parameters given and the current defaults.\<close>

definition mw_setup :: "mw_parms \<Rightarrow> nat \<Rightarrow> mw_parms \<Rightarrow> mw \<Rightarrow> mw" where
  "mw_setup parms lg def m =
    (let m = (case mw_engine (Some m) (parm_engine parms) def of (_, Some m, _) \<Rightarrow> m | _ \<Rightarrow> m);
         m = (case mw_sampling_rate (Some m) (parm_hz parms) def of (_, Some m, _) \<Rightarrow> m | _ \<Rightarrow> m);
         m = m\<lparr>mw_log2mem := lg\<rparr>;
         m = m\<lparr>mw_ct_fix := 64 - lg\<rparr>
     in mw_reset m)"

section \<open>Mixing\<close>

text \<open>
  The volume factor of a channel, \<open>_VOL(LR)\<close>, and one sample of the two loops of \<open>mix_ste\<close>:
  the value of the YM scaled, plus the DMA samples at their volume, left in the low half.
\<close>

definition vol_of :: "mw \<Rightarrow> u8 \<Rightarrow> s32" where
  "vol_of m lr = ucast (signed_drop_bit 1 (db_table (mw_db_conv m) ! (unat (lmc_master (mw_lmc m)) + unat lr)))"

definition rescale_sample :: "int \<Rightarrow> s32 \<Rightarrow> s32" where
  "rescale_sample f b =
    (let v = signed_drop_bit MW_MIX_FIX (b * word_of_int f)
     in push_bit 16 v OR (v AND 0xFFFF))"

text \<open>The loops run \<open>do ... while (--n)\<close>, on at least one sample.\<close>

definition rescale :: "s32 list \<Rightarrow> int \<Rightarrow> s32 list" where
  "rescale b f =
    (if f = 0 then map (\<lambda>_. 0) b
     else if f \<noteq> 2 ^ MW_MIX_FIX then map (rescale_sample f) b
     else b)"

definition ym_mult :: "mw \<Rightarrow> int" where
  "ym_mult m = (if mw_db_conv m = DbAlone then 0 else MW_YM_MULT)"

definition no_mix_ste :: "mw \<Rightarrow> s32 list \<Rightarrow> s32 list" where
  "no_mix_ste m b = rescale b (ym_mult m)"

definition mw_loop :: "mw \<Rightarrow> bool" where
  "mw_loop m \<longleftrightarrow> mw_map m MW_ACTI AND 2 \<noteq> 0"

definition mw_mono :: "mw \<Rightarrow> nat" where
  "mw_mono m = unat (drop_bit 7 (mw_map m MW_MODE) AND 1)"

definition mw_frq :: "mw \<Rightarrow> s32" where
  "mw_frq m = drop_bit (unat ((mw_map m MW_MODE AND 3) XOR 3)) 50066"

definition sample_at :: "(nat \<Rightarrow> u8) \<Rightarrow> int68 \<Rightarrow> int68" where
  "sample_at ram a = scast (ram (unat a))"

definition mix_out :: "s32 \<Rightarrow> s32 \<Rightarrow> int \<Rightarrow> int68 \<Rightarrow> int68 \<Rightarrow> s32 \<Rightarrow> s32" where
  "mix_out vl vr ymm l r b =
    (let ym = sx b * word_of_int ymm
     in ucast (u16_of (signed_drop_bit MW_MIX_FIX (l * sx vl + ym)) +
               push_bit 16 (signed_drop_bit MW_MIX_FIX (r * sx vr + ym))))"

text \<open>What both loops do when the counter has reached the end and the replay loops.\<close>

definition wrap_ct :: "int68 \<Rightarrow> int68 \<Rightarrow> int68 \<Rightarrow> int68" where
  "wrap_ct base ct end =
    (let overflow = ct - end; length = end - base
     in if length \<noteq> 0 then base + (if length < overflow then overflow mod length else overflow)
        else base)"

text \<open>
  The two loops, that differ in the fetch of the left and right samples only.  They return the
  samples written, the rest of the buffer, and the counters.
\<close>

definition fetch_mono :: "mw \<Rightarrow> (nat \<Rightarrow> u8) \<Rightarrow> int68 \<Rightarrow> int68 \<times> int68" where
  "fetch_mono m ram ct =
    (let v = sample_at ram (drop_bit (mw_ct_fix m) ct) in (v, v))"

definition fetch_stereo :: "mw \<Rightarrow> (nat \<Rightarrow> u8) \<Rightarrow> int68 \<Rightarrow> int68 \<times> int68" where
  "fetch_stereo m ram ct =
    (let addr = drop_bit (mw_ct_fix m) ct AND NOT 1
     in (sample_at ram (addr + 0), sample_at ram (addr + 1)))"

fun mix_loop :: "(int68 \<Rightarrow> int68 \<times> int68) \<Rightarrow> (int68 \<times> int68 \<Rightarrow> s32 \<Rightarrow> s32) \<Rightarrow> bool \<Rightarrow>
    int68 \<Rightarrow> int68 \<Rightarrow> int68 \<Rightarrow> int68 \<Rightarrow> int68 \<Rightarrow> s32 list \<Rightarrow>
    s32 list \<times> s32 list \<times> int68 \<times> int68" where
  "mix_loop fetch out lp stp base end2 ct end [] = ([], [], ct, end)"
| "mix_loop fetch out lp stp base end2 ct end (x # b) =
    (let y = out (fetch ct) x;
         ct = ct + stp
     in if end \<le> ct \<and> \<not> lp then ([y], b, ct, end)
        else
          let (ct, end) = (if end \<le> ct then (wrap_ct base ct end, end2) else (ct, end));
              (ys, rest) = mix_loop fetch out lp stp base end2 ct end b
          in (y # ys, rest))"

text \<open>The common exit: the end of a sample that does not loop.\<close>

definition mix_exit :: "int68 \<Rightarrow> int68 \<Rightarrow> int68 \<Rightarrow> int68 \<Rightarrow> mw \<Rightarrow> mw" where
  "mix_exit base end2 ct end m =
    (if \<not> mw_loop m \<and> end \<le> ct then mw_put MW_ACTI 0 m\<lparr>mw_ct := base, mw_end := end2\<rparr>
     else m\<lparr>mw_ct := ct, mw_end := end\<rparr>)"

definition skip_ste :: "mw \<Rightarrow> int \<Rightarrow> mw" where
  "skip_ste m n =
    (let base = mw_counter_read m MW_BASH; end2 = mw_counter_read m MW_ENDH;
         ct = mw_ct m; end = mw_end m;
         stp = push_bit (mw_ct_fix m + 1 - mw_mono m) (ucast (mw_frq m * word_of_int n))
               div word_of_int (mw_hz m)
     in if end - ct \<le> stp \<and> mw_loop m then
          let stp = stp - (end - ct); ct = base; end = end2;
              stp = (if ct = end then 0 else stp mod (end - ct))
          in mix_exit base end2 (ct + stp) end m
        else mix_exit base end2 ct end m)"

definition mix_ste :: "mw \<Rightarrow> (nat \<Rightarrow> u8) \<Rightarrow> s32 list \<Rightarrow> s32 list \<times> mw" where
  "mix_ste m ram b =
    (let vl = vol_of m (lmc_left (mw_lmc m)); vr = vol_of m (lmc_right (mw_lmc m));
         loop = mw_loop m;
         base = mw_counter_read m MW_BASH; end2 = mw_counter_read m MW_ENDH;
         ct = mw_ct m; end = mw_end m
     in if end \<le> ct \<and> \<not> loop then
          let m = mix_exit base end2 ct end m in (no_mix_ste m b, m)
        else
          let (ct, end) = (if end \<le> ct then (wrap_ct base ct end, end2) else (ct, end));
              stp = push_bit (mw_ct_fix m + 1 - mw_mono m) (ucast (mw_frq m)) div word_of_int (mw_hz m);
              out = (\<lambda>(l, r). mix_out vl vr (ym_mult m) l r);
              fetch = (if mw_mono m \<noteq> 0 then fetch_mono m ram else fetch_stereo m ram);
              (ys, rest, ct, end) = mix_loop fetch out loop stp base end2 ct end b;
              m = mix_exit base end2 ct end m
          in (ys @ (if rest \<noteq> [] then no_mix_ste m rest else []), m))"

text \<open>\<open>mw_mix\<close>: a buffer of \<open>n\<close> samples, or none (\<open>None\<close>).\<close>

definition mw_mix :: "mw \<Rightarrow> (nat \<Rightarrow> u8) \<Rightarrow> s32 list option \<Rightarrow> int \<Rightarrow> s32 list option \<times> mw" where
  "mw_mix m ram buf n =
    (if n \<le> 0 then (buf, m)
     else case buf of
       None \<Rightarrow> (None, if mw_map m MW_ACTI AND 1 \<noteq> 0 then skip_ste m n else m)
     | Some b \<Rightarrow>
         if mw_map m MW_ACTI AND 1 = 0 then (Some (no_mix_ste m b), m)
         else let (b, m) = mix_ste m ram b in (Some b, m))"

section \<open>Volumes stay in range\<close>

text \<open>
  The invariant: every attenuation is within its range, so that master and channel together
  index the decibel tables; the counters are as wide as the memory; the rate is a legal one.
\<close>

definition lmc_ok :: "lmc \<Rightarrow> bool" where
  "lmc_ok l \<longleftrightarrow> unat (lmc_master l) \<le> 80 \<and> unat (lmc_left l) \<le> 40 \<and> unat (lmc_right l) \<le> 40 \<and>
     unat (lmc_lr_avg l) \<le> 40 \<and> unat (lmc_high l) \<le> 12 \<and> unat (lmc_low l) \<le> 12 \<and> unat (lmc_mixer l) \<le> 3"

definition mw_ok :: "mw \<Rightarrow> bool" where
  "mw_ok m \<longleftrightarrow> lmc_ok (mw_lmc m) \<and> 0 < mw_log2mem m \<and> mw_log2mem m < 32 \<and>
     mw_ct_fix m = 64 - mw_log2mem m \<and> SPR_MIN \<le> mw_hz m \<and> mw_hz m \<le> SPR_MAX"

lemma db_lengths [simp]: "length (db_table d) = MW_N_DECIBEL"
  by (cases d) (simp_all add: Db_mix12_def Db_mix_def Db_alone_def MW_N_DECIBEL_def)

lemma clamp_range: "0 \<le> hi \<Longrightarrow> 0 \<le> clamp hi n \<and> clamp hi n \<le> hi"
  by (simp add: clamp_def Let_def)

lemma unat_word_of_int: "0 \<le> i \<Longrightarrow> i < 256 \<Longrightarrow> unat (word_of_int i :: u8) = nat i"
  by (simp add: unsigned_of_int take_bit_int_eq_self)

lemma lmc_ops_ok:
  assumes "lmc_ok (mw_lmc m)"
  shows "lmc_ok (mw_lmc (snd (mw_lmc_mixer n m)))" "lmc_ok (mw_lmc (snd (mw_lmc_master n m)))"
    "lmc_ok (mw_lmc (snd (lmc_lr b n m)))" "lmc_ok (mw_lmc (snd (lmc_hl b n m)))"
proof -
  have c: "0 \<le> clamp 40 n \<and> clamp 40 n \<le> 40" "0 \<le> clamp 20 n \<and> clamp 20 n \<le> 20"
    "0 \<le> clamp 12 n \<and> clamp 12 n \<le> 12" by (simp_all add: clamp_range)
  have u: "uint (x :: u8) = int (unat x)" for x by simp
  show "lmc_ok (mw_lmc (snd (mw_lmc_mixer n m)))"
  proof -
    have "0 \<le> n mod 4 \<and> n mod 4 \<le> 3" by simp
    then have "unat (word_of_int (n mod 4) :: u8) \<le> 3" by (subst unat_word_of_int) auto
    then show ?thesis using assms by (auto simp: lmc_ok_def mw_lmc_mixer_def put_lmc_def Let_def)
  qed
  have "unat (word_of_int (80 - clamp 40 n * 2) :: u8) \<le> 80"
    using c(1) by (subst unat_word_of_int) auto
  then show "lmc_ok (mw_lmc (snd (mw_lmc_master n m)))"
    using assms by (auto simp: lmc_ok_def mw_lmc_master_def put_lmc_def Let_def)
  have "unat (word_of_int (12 - clamp 12 n) :: u8) \<le> 12"
    using c(3) by (subst unat_word_of_int) auto
  then show "lmc_ok (mw_lmc (snd (lmc_hl b n m)))"
    using assms by (auto simp: lmc_ok_def lmc_hl_def put_lmc_def Let_def)
  have v: "unat (word_of_int (40 - clamp 20 n * 2) :: u8) \<le> 40"
    using c(2) by (subst unat_word_of_int) auto
  have a: "unat (word_of_int ((uint x + uint y) div 2) :: u8) \<le> 40"
    if "unat x \<le> 40" "unat y \<le> 40" for x y :: u8
  proof -
    have e: "(uint x + uint y) div 2 = int ((unat x + unat y) div 2)" by (simp add: zdiv_int)
    have l: "(unat x + unat y) div 2 \<le> 40" using that by linarith
    have "k \<le> 40 \<Longrightarrow> unat (word_of_int (int k) :: u8) \<le> 40" for k
      by (subst unat_word_of_int) simp_all
    then show ?thesis unfolding e using l .
  qed
  show "lmc_ok (mw_lmc (snd (lmc_lr b n m)))"
    using assms v a by (auto simp: lmc_ok_def lmc_lr_def put_lmc_def Let_def)
qed

lemma lmc_ops_frame:
  "mw_log2mem (snd (mw_lmc_mixer n m)) = mw_log2mem m" "mw_ct_fix (snd (mw_lmc_mixer n m)) = mw_ct_fix m"
  "mw_hz (snd (mw_lmc_mixer n m)) = mw_hz m"
  "mw_log2mem (snd (mw_lmc_master n m)) = mw_log2mem m" "mw_ct_fix (snd (mw_lmc_master n m)) = mw_ct_fix m"
  "mw_hz (snd (mw_lmc_master n m)) = mw_hz m"
  "mw_log2mem (snd (lmc_lr b n m)) = mw_log2mem m" "mw_ct_fix (snd (lmc_lr b n m)) = mw_ct_fix m"
  "mw_hz (snd (lmc_lr b n m)) = mw_hz m"
  "mw_log2mem (snd (lmc_hl b n m)) = mw_log2mem m" "mw_ct_fix (snd (lmc_hl b n m)) = mw_ct_fix m"
  "mw_hz (snd (lmc_hl b n m)) = mw_hz m"
  by (simp_all add: mw_lmc_mixer_def mw_lmc_master_def lmc_lr_def lmc_hl_def put_lmc_def Let_def)

lemma lmc_ops_mw_ok:
  "mw_ok m \<Longrightarrow> mw_ok (snd (mw_lmc_mixer n m))" "mw_ok m \<Longrightarrow> mw_ok (snd (mw_lmc_master n m))"
  "mw_ok m \<Longrightarrow> mw_ok (snd (mw_lmc_left n m))" "mw_ok m \<Longrightarrow> mw_ok (snd (mw_lmc_right n m))"
  "mw_ok m \<Longrightarrow> mw_ok (snd (mw_lmc_high n m))" "mw_ok m \<Longrightarrow> mw_ok (snd (mw_lmc_low n m))"
  by (simp_all add: mw_ok_def lmc_ops_ok lmc_ops_frame mw_lmc_left_def mw_lmc_right_def
      mw_lmc_high_def mw_lmc_low_def)

lemma mw_put_ok [simp]: "mw_ok (mw_put n v m) = mw_ok m"
  by (simp add: mw_ok_def mw_put_def)

lemma command_ok: "mw_ok m \<Longrightarrow> mw_ok (snd (mw_command m))"
  by (auto simp: mw_command_def command_dispatcher_def Let_def lmc_ops_mw_ok split: prod.splits)

lemma lmc_reset_ok:
  assumes "0 < mw_log2mem m" "mw_log2mem m < 32" "mw_ct_fix m = 64 - mw_log2mem m"
    "SPR_MIN \<le> mw_hz m" "mw_hz m \<le> SPR_MAX"
  shows "mw_ok (lmc_reset m)"
  using assms
  by (simp add: lmc_reset_def Let_def split_beta mw_ok_def lmc_ok_def mw_lmc_mixer_def mw_lmc_master_def
      mw_lmc_left_def mw_lmc_right_def mw_lmc_high_def mw_lmc_low_def lmc_lr_def lmc_hl_def put_lmc_def
      clamp_def MW_LMC_QUERY_def)

lemma mw_reset_ok: "mw_ok m \<Longrightarrow> mw_ok (mw_reset m)"
  unfolding mw_reset_def Let_def by (rule lmc_reset_ok) (simp_all add: mw_ok_def)

lemma sampling_rate_range:
  "hz \<noteq> MW_HZ_QUERY \<Longrightarrow> \<exists>h. SPR_MIN \<le> h \<and> h \<le> SPR_MAX \<and>
    mw_sampling_rate (Some m) hz def = (h, Some (m\<lparr>mw_hz := h\<rparr>), def)"
  by (simp add: mw_sampling_rate_def Let_def SPR_MIN_def SPR_MAX_def)

lemma engine_some: "\<exists>e f. mw_engine (Some m) n def = (e, Some (m\<lparr>mw_eng := f\<rparr>), def)"
  by (cases m) (auto simp: mw_engine_def Let_def)

lemma mw_setup_ok:
  assumes "parm_hz parms \<noteq> MW_HZ_QUERY" "0 < lg" "lg < 32"
  shows "mw_ok (mw_setup parms lg def m)"
proof -
  obtain e f where e: "mw_engine (Some m) (parm_engine parms) def = (e, Some (m\<lparr>mw_eng := f\<rparr>), def)"
    using engine_some by blast
  obtain h where h: "SPR_MIN \<le> h" "h \<le> SPR_MAX"
    "mw_sampling_rate (Some (m\<lparr>mw_eng := f\<rparr>)) (parm_hz parms) def = (h, Some (m\<lparr>mw_eng := f, mw_hz := h\<rparr>), def)"
    using sampling_rate_range [OF assms(1)] by blast
  show ?thesis
    unfolding mw_setup_def Let_def e prod.case option.case h(3) mw_reset_def
    by (rule lmc_reset_ok) (use assms h in simp_all)
qed

text \<open>The table is indexed inside its bounds.\<close>

lemma vol_index:
  assumes "mw_ok m" "lr = lmc_left (mw_lmc m) \<or> lr = lmc_right (mw_lmc m)"
  shows "unat (lmc_master (mw_lmc m)) + unat lr < length (db_table (mw_db_conv m))"
  using assms by (auto simp: mw_ok_def lmc_ok_def MW_N_DECIBEL_def)

text \<open>Reading a volume back gives the value last written, kept in its range.\<close>

lemma master_query:
  assumes "n \<noteq> MW_LMC_QUERY"
  shows "fst (mw_lmc_master MW_LMC_QUERY (snd (mw_lmc_master n m))) = clamp 40 n"
    and "fst (lmc_lr b MW_LMC_QUERY (snd (lmc_lr b n m))) = clamp 20 n"
    and "fst (lmc_hl b MW_LMC_QUERY (snd (lmc_hl b n m))) = clamp 12 n"
proof -
  have c: "0 \<le> clamp 40 n \<and> clamp 40 n \<le> 40" "0 \<le> clamp 20 n \<and> clamp 20 n \<le> 20"
    "0 \<le> clamp 12 n \<and> clamp 12 n \<le> 12" by (simp_all add: clamp_range)
  have u: "0 \<le> i \<Longrightarrow> i < 256 \<Longrightarrow> uint (word_of_int i :: u8) = i" for i
    by (simp add: unsigned_of_int take_bit_int_eq_self)
  note ub = u [of "80 - clamp 40 n * 2"] u [of "40 - clamp 20 n * 2"] u [of "12 - clamp 12 n"]
  show "fst (mw_lmc_master MW_LMC_QUERY (snd (mw_lmc_master n m))) = clamp 40 n"
    using c(1) assms ub(1) by (simp add: mw_lmc_master_def put_lmc_def Let_def del: wi_hom_syms of_int_diff of_int_mult uint_word_of_int_eq)
  show "fst (lmc_lr b MW_LMC_QUERY (snd (lmc_lr b n m))) = clamp 20 n"
    using c(2) assms ub(2) by (simp add: lmc_lr_def put_lmc_def Let_def del: wi_hom_syms of_int_diff of_int_mult uint_word_of_int_eq)
  show "fst (lmc_hl b MW_LMC_QUERY (snd (lmc_hl b n m))) = clamp 12 n"
    using c(3) assms ub(3) by (simp add: lmc_hl_def put_lmc_def Let_def del: wi_hom_syms of_int_diff of_int_mult uint_word_of_int_eq)
qed

section \<open>The microwire transfer\<close>

text \<open>The bits of the data word at the positions the control word selects, highest first.\<close>

definition selected :: "nat \<Rightarrow> s32 \<Rightarrow> s32 \<Rightarrow> bool list" where
  "selected k ctrl data = map (bit data) (filter (bit ctrl) (rev [0..<k]))"

definition of_bits :: "nat \<Rightarrow> bool list \<Rightarrow> nat" where
  "of_bits = foldl (\<lambda>c b. 2 * c + of_bool b)"

lemma shift_in_selected:
  "bits \<le> 11 \<Longrightarrow> shift_in k ctrl data bits comm =
    (let bs = take (11 - bits) (selected k ctrl data) in (bits + length bs, of_bits comm bs))"
proof (induction k arbitrary: bits comm)
  case (Suc k)
  show ?case
  proof (cases "bits = 11")
    case False
    then have l: "Suc bits \<le> 11" "11 - bits = Suc (11 - Suc bits)" using Suc.prems by auto
    show ?thesis
    proof (cases "bit ctrl k")
      case True
      then show ?thesis
        using False l Suc.IH [OF l(1), of "2 * comm + of_bool (bit data k)"]
        by (simp add: selected_def of_bits_def Let_def)
    next
      case False
      then show ?thesis
        using \<open>bits \<noteq> 11\<close> Suc.IH [OF Suc.prems] by (simp add: selected_def Let_def)
    qed
  qed (simp add: of_bits_def)
qed (simp add: selected_def of_bits_def)

definition mw_word :: "mw \<Rightarrow> nat \<Rightarrow> s32" where
  "mw_word m n = push_bit 8 (ucast (mw_map m n)) + ucast (mw_map m (n + 1))"

lemma mw_command_selected:
  "mw_command m =
    (let bs = take 11 (selected 16 (mw_word m MW_CTRL) (mw_word m MW_DATA));
         comm = of_bits 0 bs;
         m = mw_put MW_DATA 0 (mw_put (MW_DATA + 1) 0 m)
     in if length bs = 11 \<and> comm div 512 mod 4 = 2 then command_dispatcher (comm mod 512) m else (-1, m))"
  by (simp add: mw_command_def mw_word_def Let_def shift_in_selected)

text \<open>
  The control word of the usual programs selects eleven adjacent bits, at any of the six
  places of the word; the command is then the field of the data word.
\<close>

lemma of_bits_field:
  "s \<le> 5 \<Longrightarrow> c < 2048 \<Longrightarrow>
    selected 16 (push_bit s 0x7FF) (push_bit s (of_nat c)) = map (bit c) (rev [0..<11])"
proof -
  assume s: "s \<le> 5" and c: "c < 2048"
  have M: "0x7FF = (mask 11 :: s32)" by (simp add: mask_eq_exp_minus_1)
  have b: "bit (mask 11 :: s32) k \<longleftrightarrow> k < 11" for k by (auto simp: bit_simps)
  have r: "[0..<16] = [0..<s] @ [s..<s + 11] @ [s + 11..<16]"
    using s upt_add_eq_append [of 0 s "16 - s"] upt_add_eq_append [of s "s + 11" "5 - s"] by simp
  have f: "filter (bit (push_bit s (mask 11 :: s32))) [0..<16] = [s..<s + 11]"
    unfolding r filter_append
    using s by (subst filter_id_conv [THEN iffD2, of "[s..<s + 11]"])
      (auto simp: bit_push_bit_iff b filter_empty_conv)
  have u: "[s..<s + 11] = map (\<lambda>k. k + s) [0..<11]"
    using map_add_upt [of s 11] by (simp add: add.commute)
  have "bit (push_bit s (of_nat c) :: s32) (k + s) = bit c k" if "k < 11" for k
  proof -
    have "bit (of_nat c :: s32) k = bit c k"
      using that bit_unsigned_iff [where 'a = nat and w = "of_nat c :: s32" and n = k]
      by (simp add: unsigned_of_nat bit_take_bit_iff possible_bit_def)
    then show ?thesis using s that by (simp add: bit_push_bit_iff)
  qed
  then have "map (bit (push_bit s (of_nat c) :: s32)) [s..<s + 11] = map (bit c) [0..<11]"
    unfolding u by simp
  then show ?thesis unfolding selected_def M rev_filter [symmetric] f rev_map [symmetric] by simp
qed

lemma of_bits_snoc: "of_bits a (bs @ [b]) = 2 * of_bits a bs + of_bool b"
  by (simp add: of_bits_def)

lemma of_bits_value: "of_bits 0 (map (bit c) (rev [j..<j + k])) = take_bit k (drop_bit j (c :: nat))"
proof (induction k arbitrary: j)
  case (Suc k)
  have "rev [j..<j + Suc k] = rev [Suc j..<Suc j + k] @ [j]"
    by (simp add: upt_conv_Cons del: upt_Suc)
  moreover have "drop_bit (Suc j) c = drop_bit j c div 2"
    by (simp add: drop_bit_eq_div div_mult2_eq power_Suc2 del: power_Suc)
  moreover have "of_bool (bit c j) = drop_bit j c mod 2"
    by (simp add: bit_iff_odd_drop_bit mod_2_eq_odd)
  ultimately show ?case
    using Suc.IH [of "Suc j"]
    by (simp only: map_append list.map of_bits_snoc take_bit_Suc mult.commute [of 2])
qed (simp add: of_bits_def)

lemma mw_command_field:
  assumes "mw_word m MW_CTRL = push_bit s 0x7FF" "mw_word m MW_DATA = push_bit s (of_nat d)"
    "s \<le> 5" "d < 2048"
  shows "mw_command m =
    (let m = mw_put MW_DATA 0 (mw_put (MW_DATA + 1) 0 m)
     in if d div 512 = 2 then command_dispatcher (d mod 512) m else (-1, m))"
proof -
  have v: "take 11 (map (bit d) (rev [0..<11])) = map (bit d) (rev [0..<0 + 11])" by simp
  have w: "of_bits 0 (map (bit d) (rev [0..<0 + 11])) = d"
    unfolding of_bits_value using assms(4) by (simp add: take_bit_nat_eq_self)
  have l: "length (map (bit d) (rev [0..<0 + 11])) = 11" by simp
  have q: "d div 512 mod 4 = d div 512" using assms(4) by simp
  show ?thesis
    unfolding mw_command_selected assms(1,2) Let_def of_bits_field [OF assms(3,4)] v w l q by simp
qed

section \<open>Replay\<close>

text \<open>The buffer keeps its length.\<close>

lemma mix_loop_length:
  "mix_loop fetch out lp stp base end2 ct end b = (ys, rest, ct', end') \<Longrightarrow>
    length ys + length rest = length b"
  by (induction b arbitrary: ct "end" ys rest)
     (auto simp: Let_def split: if_splits prod.splits)

lemma rescale_length [simp]: "length (rescale b f) = length b" "length (no_mix_ste m b) = length b"
  by (simp_all add: rescale_def no_mix_ste_def)

lemma mix_ste_length: "length (fst (mix_ste m ram b)) = length b"
proof -
  have n: "rest \<noteq> [] \<or> rest = []" for rest :: "s32 list" by blast
  show ?thesis
    unfolding mix_ste_def Let_def
    by (auto dest!: mix_loop_length split: if_splits prod.splits)
qed

text \<open>
  The counter addresses the memory and nothing else: its integer part is below \<open>2 ^ log2mem\<close>,
  for both channels of a stereo sample.
\<close>

lemma counter_in_memory:
  fixes ct :: int68
  assumes "mw_ok m"
  shows "unat (drop_bit (mw_ct_fix m) ct) < 2 ^ mw_log2mem m"
    and "unat ((drop_bit (mw_ct_fix m) ct AND NOT 1) + 0) < 2 ^ mw_log2mem m"
    and "unat ((drop_bit (mw_ct_fix m) ct AND NOT 1) + 1) < 2 ^ mw_log2mem m"
proof -
  let ?a = "drop_bit (mw_ct_fix m) ct"
  have l: "0 < mw_log2mem m" "mw_log2mem m < 32" "mw_ct_fix m = 64 - mw_log2mem m"
    using assms by (simp_all add: mw_ok_def)
  have lt: "take_bit n w = w \<Longrightarrow> unat w < 2 ^ n" for n and w :: int68
    using take_bit_nat_less_exp [of n "unat w"] by (metis unsigned_take_bit_eq)
  have t: "take_bit (mw_log2mem m) ?a = ?a"
    by (rule bit_word_eqI) (use l in \<open>auto simp: bit_simps dest: bit_imp_le_length\<close>)
  then show "unat ?a < 2 ^ mw_log2mem m" by (rule lt)
  have "take_bit (mw_log2mem m) (?a AND NOT 1) = ?a AND NOT 1"
    by (rule bit_word_eqI) (use l in \<open>auto simp: bit_simps dest: bit_imp_le_length\<close>)
  then show "unat ((?a AND NOT 1) + 0) < 2 ^ mw_log2mem m" using lt by simp
  have d: "(?a AND NOT 1) + 1 = ?a OR 1"
    by (subst add_or_disj) (auto intro!: bit_word_eqI simp: bit_simps)
  have "take_bit (mw_log2mem m) (?a OR 1) = ?a OR 1" using t l by (simp add: take_bit_or)
  then show "unat ((?a AND NOT 1) + 1) < 2 ^ mw_log2mem m" unfolding d by (rule lt)
qed

lemma mix_ste_local:
  assumes "mw_ok m" "\<And>a. a < 2 ^ mw_log2mem m \<Longrightarrow> ram a = ram' a"
  shows "mix_ste m ram b = mix_ste m ram' b"
proof -
  note e = assms(2) [OF counter_in_memory(1) [OF assms(1)]]
    assms(2) [OF counter_in_memory(2) [OF assms(1)]] assms(2) [OF counter_in_memory(3) [OF assms(1)]]
  have f: "fetch_mono m ram = fetch_mono m ram'" "fetch_stereo m ram = fetch_stereo m ram'"
    unfolding fun_eq_iff fetch_mono_def fetch_stereo_def sample_at_def Let_def e by blast+
  show ?thesis unfolding mix_ste_def f ..
qed

text \<open>Before the end of the sample the counter moves by the step at each output sample.\<close>

lemma add_steps:
  assumes "unat (ct :: int68) + Suc n * unat stp < unat (e :: int68)"
  shows "ct + stp < e" and "unat (ct + stp) + n * unat stp < unat e"
proof -
  have "unat ct + unat stp < 2 ^ 64" using assms unsigned_less [of e, where 'a = nat] by simp
  then have u: "unat (ct + stp) = unat ct + unat stp" by (simp add: unat_add_lem [THEN iffD1])
  show "ct + stp < e" using assms unfolding word_less_nat_alt u by simp
  show "unat (ct + stp) + n * unat stp < unat e" using assms unfolding u by simp
qed

lemma shift_index: "map f [0..<Suc n] = f 0 # map (\<lambda>k. f (Suc k)) [0..<n]"
  by (simp only: upt_conv_Cons [of 0 "Suc n"] map_Suc_upt [symmetric] list.map map_map o_def zero_less_Suc)

lemma next_step: "ct + stp + of_nat k * stp = ct + of_nat (Suc k) * (stp :: int68)"
  by (simp add: algebra_simps)

lemma mix_loop_plays:
  "unat ct + length b * unat stp < unat e \<Longrightarrow>
    mix_loop fetch out lp stp base end2 ct e b =
      (map (\<lambda>k. out (fetch (ct + of_nat k * stp)) (b ! k)) [0..<length b], [],
       ct + of_nat (length b) * stp, e)"
proof (induction b arbitrary: ct)
  case (Cons x b)
  note s = add_steps [OF Cons.prems [unfolded length_Cons]]
  show ?case
    using Cons.IH [OF s(2)]
    by (simp add: Let_def s(1) [THEN not_le [THEN iffD2]] shift_index next_step del: upt_Suc of_nat_Suc)
qed simp

lemma mix_loop_ends:
  "\<lbrakk>j < length b; unat ct + j * unat stp < unat e; e \<le> ct + of_nat (Suc j) * stp\<rbrakk> \<Longrightarrow>
    mix_loop fetch out False stp base end2 ct e b =
      (map (\<lambda>k. out (fetch (ct + of_nat k * stp)) (b ! k)) [0..<Suc j], drop (Suc j) b,
       ct + of_nat (Suc j) * stp, e)"
proof (induction j arbitrary: ct b)
  case 0
  then show ?case by (cases b) (simp_all add: Let_def)
next
  case (Suc j)
  then obtain x b' where b: "b = x # b'" by (cases b) auto
  note s = add_steps [OF Suc.prems(2)]
  have "e \<le> ct + stp + of_nat (Suc j) * stp" using Suc.prems(3) unfolding next_step .
  note ih = Suc.IH [OF _ s(2) this, of b']
  show ?case
    using ih Suc.prems(1) unfolding b
    by (simp add: Let_def s(1) [THEN not_le [THEN iffD2]] shift_index [of _ "Suc j"] next_step del: upt_Suc of_nat_Suc)
qed

definition mw_step :: "mw \<Rightarrow> int68" where
  "mw_step m = push_bit (mw_ct_fix m + 1 - mw_mono m) (ucast (mw_frq m)) div word_of_int (mw_hz m)"

definition mw_out :: "mw \<Rightarrow> (nat \<Rightarrow> u8) \<Rightarrow> int68 \<Rightarrow> s32 \<Rightarrow> s32" where
  "mw_out m ram ct x =
    (let (l, r) = (if mw_mono m \<noteq> 0 then fetch_mono m ram ct else fetch_stereo m ram ct)
     in mix_out (vol_of m (lmc_left (mw_lmc m))) (vol_of m (lmc_right (mw_lmc m))) (ym_mult m) l r x)"

lemma mix_ste_inside:
  assumes "unat (mw_ct m) + length b * unat (mw_step m) < unat (mw_end m)"
  shows "mix_ste m ram b =
    (map (\<lambda>k. mw_out m ram (mw_ct m + of_nat k * mw_step m) (b ! k)) [0..<length b],
     m\<lparr>mw_ct := mw_ct m + of_nat (length b) * mw_step m\<rparr>)"
proof -
  let ?ct = "mw_ct m + of_nat (length b) * mw_step m"
  have l: "length b * unat (mw_step m) < 2 ^ 64" "unat (mw_ct m) + length b * unat (mw_step m) < 2 ^ 64"
    using assms unsigned_less [of "mw_end m", where 'a = nat] by simp_all
  have "unat ?ct = unat (mw_ct m) + length b * unat (mw_step m)"
  proof -
    have "?ct = of_nat (unat (mw_ct m) + length b * unat (mw_step m))" by simp
    then show ?thesis using l(2) by (simp only: unsigned_of_nat) (simp add: take_bit_nat_eq_self)
  qed
  then have c: "\<not> mw_end m \<le> mw_ct m" "\<not> mw_end m \<le> ?ct"
    using assms by (simp_all add: word_le_nat_alt)
  show ?thesis
    unfolding mix_ste_def mw_out_def Let_def mw_step_def [symmetric]
    using c mix_loop_plays [OF assms]
    by (simp add: mix_exit_def split_beta)
qed

lemma mix_ste_end:
  assumes "\<not> mw_loop m" "j < length b" "unat (mw_ct m) + j * unat (mw_step m) < unat (mw_end m)"
    "mw_end m \<le> mw_ct m + of_nat (Suc j) * mw_step m"
  shows "mix_ste m ram b =
    (map (\<lambda>k. mw_out m ram (mw_ct m + of_nat k * mw_step m) (b ! k)) [0..<Suc j] @ no_mix_ste m (drop (Suc j) b),
     mw_put MW_ACTI 0 m\<lparr>mw_ct := mw_counter_read m MW_BASH, mw_end := mw_counter_read m MW_ENDH\<rparr>)"
proof -
  have c: "\<not> mw_end m \<le> mw_ct m" using assms(3) by (auto simp: word_le_nat_alt)
  have n: "no_mix_ste (mw_put MW_ACTI 0 m\<lparr>mw_ct := x, mw_end := y\<rparr>) r = no_mix_ste m r" for x y r
    by (simp add: no_mix_ste_def ym_mult_def mw_put_def)
  have z: "no_mix_ste m [] = []" by (simp add: no_mix_ste_def rescale_def)
  have m: "(case x of (l, r) \<Rightarrow> mix_out vl vr ym l r) y = (case x of (l, r) \<Rightarrow> mix_out vl vr ym l r y)" for x y vl vr ym
    by (simp add: split_beta)
  show ?thesis
    unfolding mix_ste_def mw_out_def Let_def mw_step_def [symmetric]
    using assms c mix_loop_ends [OF assms(2,3,4)]
    by (simp add: mix_exit_def n z split_beta if_distrib del: upt_Suc of_nat_Suc)
qed

section \<open>A buffer over the end of the sample\<close>

text \<open>
  The reference.  From the counter and the end of the sample being played the DMA has \<open>dma_left\<close>
  to go; behind it, a sample that loops goes on in the frame of the base and end registers, over
  and over.  \<open>dma_pos m k\<close> is where the sample of output \<open>k\<close> is.
\<close>

definition dma_left :: "mw \<Rightarrow> nat" where
  "dma_left m = unat (mw_end m) - unat (mw_ct m)"

definition frame_size :: "mw \<Rightarrow> nat" where
  "frame_size m = unat (mw_counter_read m MW_ENDH) - unat (mw_counter_read m MW_BASH)"

definition dma_pos :: "mw \<Rightarrow> nat \<Rightarrow> int68" where
  "dma_pos m k =
    (let way = k * unat (mw_step m)
     in if way < dma_left m then mw_ct m + of_nat way
        else mw_counter_read m MW_BASH + of_nat ((way - dma_left m) mod frame_size m))"

definition dma_plays :: "mw \<Rightarrow> nat \<Rightarrow> bool" where
  "dma_plays m k \<longleftrightarrow> mw_map m MW_ACTI AND 1 \<noteq> 0 \<and> (mw_loop m \<or> k * unat (mw_step m) < dma_left m)"

definition dma_after :: "mw \<Rightarrow> nat \<Rightarrow> mw" where
  "dma_after m n =
    (if mw_map m MW_ACTI AND 1 = 0 then m
     else if n * unat (mw_step m) < dma_left m then m\<lparr>mw_ct := dma_pos m n\<rparr>
     else if mw_loop m then m\<lparr>mw_ct := dma_pos m n, mw_end := mw_counter_read m MW_ENDH\<rparr>
     else (mw_put MW_ACTI 0 m)\<lparr>mw_ct := mw_counter_read m MW_BASH, mw_end := mw_counter_read m MW_ENDH\<rparr>)"

text \<open>The counters do not overflow, and a sample that loops is not shorter than a step.\<close>

definition frame_ok :: "mw \<Rightarrow> bool" where
  "frame_ok m \<longleftrightarrow>
    unat (mw_end m) + unat (mw_step m) < 2 ^ 64 \<and>
    (mw_loop m \<longrightarrow>
      mw_ct m < mw_end m \<and> unat (mw_step m) \<le> unat (mw_end m - mw_counter_read m MW_BASH) \<and>
      mw_counter_read m MW_BASH < mw_counter_read m MW_ENDH \<and> unat (mw_step m) \<le> frame_size m \<and>
      unat (mw_counter_read m MW_ENDH) + unat (mw_step m) < 2 ^ 64)"

lemma unat_plus: "unat a + n < 2 ^ 64 \<Longrightarrow> unat (a + of_nat n) = unat a + n" for a :: int68
proof -
  assume "unat a + n < 2 ^ 64"
  moreover have "a + of_nat n = of_nat (unat a + n)" by simp
  ultimately show ?thesis by (simp only: unsigned_of_nat) (simp add: take_bit_nat_eq_self)
qed

text \<open>Stepping over the end of a frame lands in the frame, as far behind its base as the end was passed.\<close>

lemma wrap_over:
  assumes "unat ct + S < 2 ^ 64" "unat e \<le> unat ct + S" "unat ct < unat e" "S \<le> unat (e - base)"
  shows "wrap_ct base (ct + of_nat S) e = base + of_nat (unat ct + S - unat e)"
proof -
  note u = unat_plus [OF assms(1)]
  have o: "ct + of_nat S - e = of_nat (unat ct + S - unat e)" using assms(2) by (simp add: of_nat_diff)
  have small: "unat (of_nat (unat ct + S - unat e) :: int68) = unat ct + S - unat e"
    using assms(1) by (simp add: unsigned_of_nat take_bit_nat_eq_self)
  have "unat ct + S - unat e \<le> unat (e - base)" using assms(3,4) by linarith
  then have "\<not> e - base < ct + of_nat S - e" unfolding o word_less_nat_alt small by simp
  moreover have "e - base \<noteq> 0" using assms(2-4) by (intro notI) simp
  ultimately show ?thesis by (simp add: wrap_ct_def Let_def o)
qed

lemma loop_in_frame:
  assumes "unat base < unat e" "L = unat e - unat base" "S \<le> L" "unat e + S < 2 ^ 64" "x < L"
  shows "mix_loop fetch out True (of_nat S) base e (base + of_nat x) e b =
    (map (\<lambda>k. out (fetch (base + of_nat ((x + k * S) mod L))) (b ! k)) [0..<length b], [],
     base + of_nat ((x + length b * S) mod L), e)"
  using assms(5)
proof (induction b arbitrary: x)
  case (Cons y b)
  let ?ct = "base + of_nat x"
  have ct: "unat ?ct = unat base + x" using assms(1,2,4) Cons.prems by (intro unat_plus) linarith
  have step: "unat (?ct + of_nat S) = unat base + x + S"
    using assms(2,4) Cons.prems ct by (subst unat_plus) linarith+
  define x' where "x' = (if L \<le> x + S then x + S - L else x + S)"
  have x': "x' < L" "x' = (x + S) mod L"
    using Cons.prems assms(3) by (auto simp: x'_def mod_if)
  have over: "e \<le> ?ct + of_nat S \<longleftrightarrow> L \<le> x + S"
    using assms(1,2) step by (auto simp: word_le_nat_alt)
  have "unat (e - base) = L" using assms(1,2) by (simp add: unat_sub word_le_nat_alt)
  then have "wrap_ct base (?ct + of_nat S) e = base + of_nat x'" if "L \<le> x + S"
    using wrap_over [of ?ct S e base] that ct assms Cons.prems by (simp add: x'_def)
  then have next_ct: "(if e \<le> ?ct + of_nat S then (wrap_ct base (?ct + of_nat S) e, e) else (?ct + of_nat S, e)) = (base + of_nat x', e)"
    by (simp add: over) (simp add: x'_def)
  have k: "(x' + k * S) mod L = (x + Suc k * S) mod L" for k
    unfolding x'(2) by (simp add: mod_simps algebra_simps)
  have "x mod L = x" using Cons.prems by simp
  then show ?case
    using Cons.IH [OF x'(1)]
    by (simp add: Let_def next_ct k shift_index del: upt_Suc of_nat_Suc mult_Suc)
qed simp

lemma loop_over_end:
  assumes "unat base < unat e2" "L = unat e2 - unat base" "S \<le> L" "unat e2 + S < 2 ^ 64"
    and "unat e + S < 2 ^ 64" "S \<le> unat (e - base)" "unat ct < unat e"
    and "D = unat e - unat ct"
  shows "mix_loop fetch out True (of_nat S) base e2 ct e b =
    (map (\<lambda>k. out (fetch (if k * S < D then ct + of_nat (k * S) else base + of_nat ((k * S - D) mod L))) (b ! k))
       [0..<length b], [],
     if length b * S < D then ct + of_nat (length b * S) else base + of_nat ((length b * S - D) mod L),
     if length b * S < D then e else e2)"
  using assms(7,8)
proof (induction b arbitrary: ct D)
  case (Cons y b)
  have step: "unat (ct + of_nat S) = unat ct + S"
    using assms(5) Cons.prems by (intro unat_plus) linarith
  have over: "e \<le> ct + of_nat S \<longleftrightarrow> D \<le> S" using step Cons.prems by (auto simp: word_le_nat_alt)
  have D0: "0 < D" using Cons.prems by simp
  show ?case
  proof (cases "D \<le> S")
    case False
    have d: "D - S = unat e - unat (ct + of_nat S)" "unat (ct + of_nat S) < unat e"
      using step False Cons.prems by simp_all
    have less: "k * S < D - S \<longleftrightarrow> Suc k * S < D" and k: "k * S - (D - S) = Suc k * S - D" for k
      using False by auto
    have a: "ct + of_nat S + of_nat (k * S) = ct + of_nat (Suc k * S)" for k by (simp add: algebra_simps)
    show ?thesis
      using Cons.IH [OF d(2,1)] False D0
      by (simp add: Let_def over less k a shift_index del: upt_Suc of_nat_Suc mult_Suc of_nat_mult of_nat_add)
  next
    case True
    have w: "wrap_ct base (ct + of_nat S) e = base + of_nat (S - D)"
      using wrap_over [of ct S e base] True step assms(5,6) Cons.prems by simp
    have x: "S - D < L" using assms(3) Cons.prems True by linarith
    have less: "\<not> Suc k * S < D" and k: "S - D + k * S = Suc k * S - D" for k
      using True by auto
    show ?thesis
      using loop_in_frame [OF assms(1-4) x, of fetch out b] True D0 less [of "length b"]
      by (simp add: Let_def over w less k shift_index del: upt_Suc of_nat_Suc mult_Suc of_nat_mult of_nat_add)
  qed
qed simp

text \<open>Without the DMA, or behind the end of a sample, the YM is alone; on its 16-bit samples this is
  mixing with a silent DMA.\<close>

definition ym_alone :: "mw \<Rightarrow> s32 \<Rightarrow> s32" where
  "ym_alone m x = mix_out 0 0 (ym_mult m) 0 0 x"

lemma rescaled_sample:
  assumes "- (2 ^ 15) \<le> sint x" "sint x < 2 ^ 15"
  shows "rescale_sample MW_YM_MULT x = mix_out 0 0 MW_YM_MULT 0 0 x"
proof -
  define p where "p = sint x * 768"
  have m: "MW_YM_MULT = 768" by (simp add: MW_YM_MULT_def MW_STE_MULT_def MW_MIX_FIX_def)
  have p: "- (2 ^ 31) \<le> p" "p < 2 ^ 31" using assms by (simp_all add: p_def)
  have xi: "x = word_of_int (sint x)" by simp
  have x: "x * word_of_int 768 = word_of_int p" unfolding p_def wi_hom_mult [symmetric] by simp
  have "sx x * word_of_int 768 = word_of_int (sint x) * word_of_int 768" unfolding scast_eq ..
  then have y: "sx x * word_of_int 768 = word_of_int p" unfolding p_def wi_hom_mult .
  have s: "sint (word_of_int p :: s32) = p" "sint (word_of_int p :: int68) = p"
    using p by (simp_all add: signed_of_int signed_take_bit_int_eq_self)
  define v :: s32 where "v = signed_drop_bit 10 (word_of_int p)"
  define w :: int68 where "w = signed_drop_bit 10 (word_of_int p)"
  have "v = word_of_int (sint v)" "w = word_of_int (sint w)" by simp_all
  then have v: "v = word_of_int (drop_bit 10 p)" and w: "w = word_of_int (drop_bit 10 p)"
    unfolding v_def w_def sint_signed_drop_bit_eq s .
  have lo: "lo32 w = v" unfolding v w by (rule bit_word_eqI) (simp add: bit_simps)
  have b: "bit v i = bit w i" if "i < 32" for i using that unfolding lo [symmetric] by (simp add: bit_ucast_iff)
  have l: "lo32 (u16_of w) = v AND mask 16"
    by (rule bit_word_eqI) (auto simp: bit_ucast_iff bit_and_iff bit_mask_iff b)
  have r: "lo32 (push_bit 16 w) = push_bit 16 v"
    by (rule bit_word_eqI) (auto simp: bit_ucast_iff bit_push_bit_iff b)
  have "(v AND mask 16) + push_bit 16 v = (v AND mask 16) OR push_bit 16 v"
    by (rule disjunctive_add) (auto simp: bit_and_iff bit_mask_iff bit_push_bit_iff)
  then show ?thesis
    unfolding rescale_sample_def mix_out_def Let_def m
    using l r x y by (simp add: v_def w_def MW_MIX_FIX_def lo32_add mask_eq_exp_minus_1 or.commute)
qed

lemma no_mix_alone:
  assumes "\<forall>x\<in>set b. - (2 ^ 15) \<le> sint x \<and> sint x < 2 ^ 15"
  shows "no_mix_ste m b = map (ym_alone m) b"
  using assms rescaled_sample
  by (auto simp: no_mix_ste_def ym_mult_def rescale_def ym_alone_def mix_out_def MW_YM_MULT_def MW_STE_MULT_def
      MW_MIX_FIX_def)

text \<open>A buffer mixed with the DMA on, in the terms of the reference.\<close>

lemma mix_ste_loops:
  assumes "mw_loop m" "frame_ok m" "mw_map m MW_ACTI AND 1 \<noteq> 0"
  shows "mix_ste m ram b = (map (\<lambda>k. mw_out m ram (dma_pos m k) (b ! k)) [0..<length b], dma_after m (length b))"
proof -
  let ?base = "mw_counter_read m MW_BASH" and ?e2 = "mw_counter_read m MW_ENDH" and ?S = "unat (mw_step m)"
  have f: "unat (mw_end m) + ?S < 2 ^ 64" "mw_ct m < mw_end m" "?S \<le> unat (mw_end m - ?base)"
    "unat ?base < unat ?e2" "?S \<le> frame_size m" "unat ?e2 + ?S < 2 ^ 64"
    using assms(1,2) by (simp_all add: frame_ok_def word_less_nat_alt)
  have c: "\<not> mw_end m \<le> mw_ct m" "unat (mw_ct m) < unat (mw_end m)" using f(2) by (simp_all only: not_le word_less_nat_alt)
  have l: "mix_loop fetch out True (mw_step m) ?base ?e2 (mw_ct m) (mw_end m) b =
    (map (\<lambda>k. out (fetch (dma_pos m k)) (b ! k)) [0..<length b], [], dma_pos m (length b),
     if length b * ?S < dma_left m then mw_end m else ?e2)" for fetch out
    using loop_over_end [OF f(4) refl, of ?S "mw_end m" "mw_ct m" "dma_left m" fetch out b] f c
    by (simp add: dma_pos_def dma_left_def frame_size_def Let_def)
  show ?thesis
    unfolding mix_ste_def Let_def mw_step_def [symmetric] using assms(1,3) c(1)
    by (simp add: l mix_exit_def mw_out_def dma_after_def split_beta)
qed

lemma mix_ste_once:
  assumes "\<not> mw_loop m" "frame_ok m" "mw_map m MW_ACTI AND 1 \<noteq> 0"
    and "\<forall>x\<in>set b. - (2 ^ 15) \<le> sint x \<and> sint x < 2 ^ 15"
  shows "mix_ste m ram b =
    (map (\<lambda>k. if dma_plays m k then mw_out m ram (dma_pos m k) (b ! k) else ym_alone m (b ! k)) [0..<length b],
     dma_after m (length b))"
proof -
  let ?S = "unat (mw_step m)" and ?n = "length b" and ?D = "dma_left m"
  have plays: "dma_plays m k \<longleftrightarrow> k * ?S < ?D" for k using assms(1,3) by (simp add: dma_plays_def)
  have pos: "dma_pos m k = mw_ct m + of_nat k * mw_step m" if "k * ?S < ?D" for k
    using that by (simp add: dma_pos_def)
  consider "?n * ?S < ?D" | "?D = 0" | "0 < ?D" "?D \<le> ?n * ?S" by linarith
  then show ?thesis
  proof cases
    case 1
    have k: "k * ?S < ?D" if "k \<le> ?n" for k using mult_le_mono1 [OF that, of ?S] 1 by linarith
    have "unat (mw_ct m) + ?n * ?S < unat (mw_end m)" using 1 by (simp add: dma_left_def)
    from mix_ste_inside [OF this, of ram] show ?thesis
      using 1 k assms(3) by (auto simp: plays pos dma_after_def)
  next
    case 2
    then have e: "mw_end m \<le> mw_ct m" by (simp add: dma_left_def word_le_nat_alt)
    have n: "no_mix_ste (mw_put MW_ACTI 0 m\<lparr>mw_ct := x, mw_end := y\<rparr>) b = no_mix_ste m b" for x y
      by (simp add: no_mix_ste_def ym_mult_def mw_put_def)
    have "map (ym_alone m) b = map (\<lambda>k. ym_alone m (b ! k)) [0..<?n]" by (rule nth_equalityI) simp_all
    then show ?thesis
      using 2 e assms(1,3) no_mix_alone [OF assms(4), of m]
      by (simp add: mix_ste_def Let_def n plays dma_after_def mix_exit_def)
  next
    case 3
    define j where "j = (?D - 1) div ?S"
    have S: "0 < ?S" using 3 by (cases "?S") auto
    have "(?D - 1) div ?S * ?S \<le> ?D - 1" "?D - 1 < Suc ((?D - 1) div ?S) * ?S"
      using dividend_less_div_times [OF S, of "?D - 1"] by (simp_all add: algebra_simps)
    then have j: "j * ?S < ?D" "?D \<le> Suc j * ?S" using 3 unfolding j_def by linarith+
    have p: "k * ?S < ?D \<longleftrightarrow> k < Suc j" for k
    proof
      assume "k * ?S < ?D"
      then have "k * ?S < Suc j * ?S" using j(2) by linarith
      then show "k < Suc j" by (metis mult_less_cancel2)
    next
      assume "k < Suc j"
      then have "k * ?S \<le> j * ?S" by simp
      then show "k * ?S < ?D" using j(1) by linarith
    qed
    have jn: "j < ?n" using p [of ?n] 3 by simp
    have a: "unat (mw_ct m) + j * ?S < unat (mw_end m)" using j(1) by (simp add: dma_left_def)
    have "unat (mw_ct m) + Suc j * ?S < 2 ^ 64"
      using a assms(2) by (simp add: frame_ok_def)
    then have "unat (mw_ct m + of_nat (Suc j * ?S)) = unat (mw_ct m) + Suc j * ?S" by (rule unat_plus)
    then have "mw_end m \<le> mw_ct m + of_nat (Suc j) * mw_step m"
      using j(2) by (simp add: word_le_nat_alt dma_left_def algebra_simps)
    note e = mix_ste_end [OF assms(1) jn a this, of ram]
    have "map (\<lambda>k. if dma_plays m k then mw_out m ram (dma_pos m k) (b ! k) else ym_alone m (b ! k)) [0..<?n] =
      map (\<lambda>k. mw_out m ram (mw_ct m + of_nat k * mw_step m) (b ! k)) [0..<Suc j] @ no_mix_ste m (drop (Suc j) b)"
    proof -
      have "Suc j + (?n - Suc j) = ?n" using jn by simp
      from upt_add_eq_append [of 0 "Suc j" "?n - Suc j", unfolded this]
      have "[0..<?n] = [0..<Suc j] @ [Suc j..<?n]" by (simp only: le0)
      moreover have "no_mix_ste m (drop (Suc j) b) = map (\<lambda>k. ym_alone m (b ! k)) [Suc j..<?n]"
      proof -
        have "\<forall>x\<in>set (drop (Suc j) b). - (2 ^ 15) \<le> sint x \<and> sint x < 2 ^ 15"
          using assms(4) by (auto dest: in_set_dropD)
        then have "no_mix_ste m (drop (Suc j) b) = map (ym_alone m) (drop (Suc j) b)" by (rule no_mix_alone)
        also have "\<dots> = map (\<lambda>k. ym_alone m (b ! k)) [Suc j..<?n]"
          using jn by (intro nth_equalityI) simp_all
        finally show ?thesis .
      qed
      ultimately show ?thesis by (simp add: plays p pos del: upt_Suc)
    qed
    then show ?thesis
      using 3 assms(1,3) by (simp add: e dma_after_def)
  qed
qed

text \<open>Without a buffer the counter moves only when the sample wraps around.\<close>

lemma skip_keeps_counter:
  assumes "mw_ct m < mw_end m"
    "push_bit (mw_ct_fix m + 1 - mw_mono m) (ucast (mw_frq m * word_of_int n)) div word_of_int (mw_hz m)
      < mw_end m - mw_ct m \<or> \<not> mw_loop m"
  shows "skip_ste m n = m"
  using assms by (auto simp: skip_ste_def mix_exit_def Let_def not_le [symmetric])

end
