(* ===== verification/Paula68.thy ===== *)
theory Paula68
  imports Struct68 "HOL-Library.While_Combinator"
begin

text \<open>
  The Amiga sound chip Paula, \<open>io68/paulaemul.c\<close> and the register access of
  \<open>io68/paula_io.c\<close>: four DMA voices, the DMA, interrupt and modulation control registers with
  their set and clear convention, and the mixing of the voices.

  Sample counters are \<open>plct_t\<close>, 64-bit fixed point numbers that wrap around at the end of the
  memory.  The control registers are \<open>int\<close>, 32-bit words.  The loop that brings a counter back
  into the loop of a sample is a \<open>while_option\<close>, \<open>None\<close> if it did not end.  The host is
  little-endian (\<open>msw_first\<close> is null): the left voices are in the low halves of the buffer.

  Lemmas: the counters of a voice that has started stay inside its sample; mixing returns, and
  reads the memory of the 68000 only; what the set and clear convention does; starting a voice.
\<close>

unbundle bit_operations_syntax

section \<open>State\<close>

record paulav =
  v_adr :: int68
  v_start :: int68
  v_end :: int68

record paula =
  pl_map :: "nat \<Rightarrow> u8"
  pl_voice :: "nat \<Rightarrow> paulav"
  pl_engine :: int
  pl_ct_fix :: nat
  pl_clock :: int
  pl_clkperspl :: int68
  pl_hz :: s32
  pl_chans :: "s32 option"
  pl_log2mem :: nat
  pl_dmacon :: s32
  pl_intena :: s32
  pl_intreq :: s32
  pl_adkcon :: s32
  pl_vhpos :: s32

record paula_parms =
  pp_engine :: int
  pp_clock :: int
  pp_hz :: int

definition PAULA_VHPOSR :: nat where "PAULA_VHPOSR = 0x06"
definition PAULA_INTREQR :: nat where "PAULA_INTREQR = 0x1E"
definition PAULA_INTREQ :: nat where "PAULA_INTREQ = 0x9C"
definition PAULA_INTENAR :: nat where "PAULA_INTENAR = 0x1C"
definition PAULA_INTENA :: nat where "PAULA_INTENA = 0x9A"
definition PAULA_DMACONR :: nat where "PAULA_DMACONR = 0x02"
definition PAULA_DMACON :: nat where "PAULA_DMACON = 0x96"
definition PAULA_ADKCON :: nat where "PAULA_ADKCON = 0x9E"
definition PAULA_ADKCONR :: nat where "PAULA_ADKCONR = 0x10"

lemmas paula_reg_defs = PAULA_VHPOSR_def PAULA_INTREQR_def PAULA_INTREQ_def PAULA_INTENAR_def
  PAULA_INTENA_def PAULA_DMACONR_def PAULA_DMACON_def PAULA_ADKCON_def PAULA_ADKCONR_def

definition PAULA_VOICE :: "nat \<Rightarrow> nat" where
  "PAULA_VOICE i = (0xA + i) * 16"

definition PAULA_PAL_FRQ :: int68 where "PAULA_PAL_FRQ = 3546895"
definition PAULA_NTSC_FRQ :: int68 where "PAULA_NTSC_FRQ = 3579545"

definition pl_put :: "nat \<Rightarrow> u8 \<Rightarrow> paula \<Rightarrow> paula" where
  "pl_put n v p = p\<lparr>pl_map := (pl_map p)(n := v)\<rparr>"

definition put_voice :: "nat \<Rightarrow> paulav \<Rightarrow> paula \<Rightarrow> paula" where
  "put_voice n v p = p\<lparr>pl_voice := (pl_voice p)(n := v)\<rparr>"

section \<open>Clock, sampling rate and engine\<close>

definition PAULA_QUERY :: int where "PAULA_QUERY = -1"
definition PAULA_ENGINE_SIMPLE :: int where "PAULA_ENGINE_SIMPLE = 1"
definition PAULA_ENGINE_LINEAR :: int where "PAULA_ENGINE_LINEAR = 2"
definition PAULA_CLOCK_PAL :: int where "PAULA_CLOCK_PAL = 1"
definition PAULA_CLOCK_NTSC :: int where "PAULA_CLOCK_NTSC = 2"

definition PAULA_SPR_MIN :: int where "PAULA_SPR_MIN = 6250"
definition PAULA_SPR_MAX :: int where "PAULA_SPR_MAX = 125166"

definition set_clock :: "int \<Rightarrow> int68 \<Rightarrow> paula \<Rightarrow> paula" where
  "set_clock clock_type f p =
    (let fix' = 40;
         p = p\<lparr>pl_hz := ucast f\<rparr>;
         p = p\<lparr>pl_clock := clock_type\<rparr>;
         tmp = (if clock_type = PAULA_CLOCK_PAL then PAULA_PAL_FRQ else PAULA_NTSC_FRQ);
         tmp = push_bit fix' tmp;
         tmp = tmp div f;
         tmp = (if pl_ct_fix p < fix' then drop_bit (fix' - pl_ct_fix p) tmp
                else push_bit (pl_ct_fix p - fix') tmp)
     in p\<lparr>pl_clkperspl := tmp\<rparr>)"

text \<open>No chip (\<open>None\<close>) stands for the defaults, the last component.\<close>

definition paula_sampling_rate :: "paula option \<Rightarrow> int \<Rightarrow> paula_parms \<Rightarrow> int \<times> paula option \<times> paula_parms" where
  "paula_sampling_rate p hz def =
    (if hz = PAULA_QUERY then (case p of Some c \<Rightarrow> sint (pl_hz c) | None \<Rightarrow> pp_hz def, p, def)
     else
       let hz = (if hz = 0 then pp_hz def else hz);
           hz = (if hz < PAULA_SPR_MIN then PAULA_SPR_MIN else if PAULA_SPR_MAX < hz then PAULA_SPR_MAX else hz)
       in case p of
            None \<Rightarrow> (hz, None, def\<lparr>pp_hz := hz\<rparr>)
          | Some c \<Rightarrow> (hz, Some (set_clock (pl_clock c) (word_of_int hz) c), def))"

definition paula_engine :: "paula option \<Rightarrow> int \<Rightarrow> paula_parms \<Rightarrow> int \<times> paula option \<times> paula_parms" where
  "paula_engine p engine def =
    (if engine = PAULA_QUERY then (case p of Some c \<Rightarrow> pl_engine c | None \<Rightarrow> pp_engine def, p, def)
     else
       let engine = (if engine = PAULA_ENGINE_SIMPLE \<or> engine = PAULA_ENGINE_LINEAR then engine
                     else pp_engine def)
       in case p of
            Some c \<Rightarrow> (engine, Some (c\<lparr>pl_engine := engine\<rparr>), def)
          | None \<Rightarrow> (engine, None, def\<lparr>pp_engine := engine\<rparr>))"

definition paula_clock :: "paula option \<Rightarrow> int \<Rightarrow> paula_parms \<Rightarrow> int \<times> paula option \<times> paula_parms" where
  "paula_clock p clk def =
    (if clk = PAULA_QUERY then (case p of Some c \<Rightarrow> pl_clock c | None \<Rightarrow> pp_clock def, p, def)
     else
       let clk = (if clk = PAULA_CLOCK_PAL \<or> clk = PAULA_CLOCK_NTSC then clk else pp_clock def)
       in case p of
            Some c \<Rightarrow> (clk, Some (set_clock clk (ucast (pl_hz c)) c), def)
          | None \<Rightarrow> (clk, None, def\<lparr>pp_clock := clk\<rparr>))"

section \<open>Reset and setup\<close>

definition paula_reset :: "paula \<Rightarrow> paula" where
  "paula_reset p =
    (let p = p\<lparr>pl_map := (\<lambda>i. if i < 256 then 0 else pl_map p i)\<rparr>;
         p = fold (\<lambda>i p. pl_put (PAULA_VOICE i + 6) 0x10 (pl_put (PAULA_VOICE i + 9) 64 p)) [0..<4] p;
         p = fold (\<lambda>i p. put_voice i \<lparr>v_adr = 2, v_start = 0, v_end = 0\<rparr> p) [0..<4] p
     in p\<lparr>pl_dmacon := push_bit 9 1, pl_intreq := 0, pl_intena := push_bit 14 1, pl_adkcon := 0\<rparr>)"

text \<open>\<open>paula_setup\<close> with valid pointers; \<open>chans\<close> is the mask \<open>pl_chans\<close>.\<close>

definition paula_setup :: "paula_parms \<Rightarrow> nat \<Rightarrow> s32 \<Rightarrow> paula_parms \<Rightarrow> paula \<Rightarrow> paula" where
  "paula_setup parms lg chans def p =
    (let hz = (if pp_hz parms = 0 then pp_hz def else pp_hz parms);
         clk = (if pp_clock parms = 0 then pp_clock def else pp_clock parms);
         p = p\<lparr>pl_chans := Some chans, pl_log2mem := lg\<rparr>;
         p = p\<lparr>pl_ct_fix := 64 - lg\<rparr>;
         p = (case paula_engine (Some p) (pp_engine parms) def of (_, Some p, _) \<Rightarrow> p | _ \<Rightarrow> p);
         p = paula_reset p
     in set_clock clk (word_of_int hz) p)"

section \<open>Mixing\<close>

text \<open>
  One output sample of a voice: the sample under the counter, blended with the next one when
  the engine interpolates.  The result is the sample read and the value at the volume \<open>vol\<close>.
\<close>

definition voice_sample :: "paula \<Rightarrow> (nat \<Rightarrow> u8) \<Rightarrow> int68 \<Rightarrow> int68 \<Rightarrow> int68 \<Rightarrow> int68 \<Rightarrow> u8 \<times> int68" where
  "voice_sample p ram vol readr adr end =
    (let fix' = pl_ct_fix p;
         imask = (if pl_engine p = PAULA_ENGINE_LINEAR then push_bit fix' 1 - 1 else 0);
         low = adr AND imask;
         idx = ucast (drop_bit fix' adr) :: s32;
         lst = ram (unat idx);
         idx = idx + 1;
         idx = (if end \<le> push_bit fix' (sx idx) then ucast (drop_bit fix' readr) else idx);
         v1 = scast (ram (unat idx)) :: int68;
         v0 = scast lst :: int68;
         v0 = signed_drop_bit fix' (v1 * low + v0 * (push_bit fix' 1 - low))
     in (lst, v0 * vol))"

text \<open>\<open>*b2 += v0\<close> on the half \<open>shift\<close> of a stereo sample.\<close>

definition add_half :: "nat \<Rightarrow> int68 \<Rightarrow> s32 \<Rightarrow> s32" where
  "add_half shift v x =
    (let h = ucast (drop_bit (16 * shift) x) + ucast v :: u16
     in if shift = 0 then (x AND 0xFFFF0000) OR ucast h else (x AND 0xFFFF) OR push_bit 16 (ucast h))"

definition back_in_loop :: "int68 \<Rightarrow> int68 \<Rightarrow> int68 \<Rightarrow> int68 option" where
  "back_in_loop relen end adr = while_option (\<lambda>adr. end \<le> adr) (\<lambda>adr. adr - relen) adr"

text \<open>The loop over the buffer, with the counter, the end, \<open>hasloop\<close> and \<open>last\<close>.\<close>

fun mix_voice :: "(int68 \<Rightarrow> int68 \<Rightarrow> u8 \<times> int68) \<Rightarrow> nat \<Rightarrow> int68 \<Rightarrow> int68 \<Rightarrow> int68 \<Rightarrow>
    int68 \<Rightarrow> int68 \<Rightarrow> bool \<Rightarrow> u8 \<Rightarrow> s32 list \<Rightarrow> (s32 list \<times> int68 \<times> int68 \<times> bool \<times> u8) option" where
  "mix_voice smp shift stp readr reend adr end hasloop lst [] = Some ([], adr, end, hasloop, lst)"
| "mix_voice smp shift stp readr reend adr end hasloop lst (x # b) =
    (let (lst, v0) = smp adr end;
         y = add_half shift v0 x;
         adr = adr + stp
     in Option.bind
          (if end \<le> adr then
             Option.bind (back_in_loop (reend - readr) reend (readr + adr - end))
               (\<lambda>adr. Some (adr, reend, True))
           else Some (adr, end, hasloop))
          (\<lambda>(adr, end, hasloop).
             Option.bind (mix_voice smp shift stp readr reend adr end hasloop lst b)
               (\<lambda>(ys, r). Some (y # ys, r))))"

definition voice_loc :: "nat \<Rightarrow> paula \<Rightarrow> int68" where
  "voice_loc n p =
    (let r = (\<lambda>k. ucast (pl_map p (PAULA_VOICE n + k)))
     in push_bit (pl_ct_fix p) (push_bit 16 (r 1) OR push_bit 8 (r 2) OR (r 3 AND 0xFE)))"

definition voice_len :: "nat \<Rightarrow> paula \<Rightarrow> int68" where
  "voice_len n p =
    (let r = (\<lambda>k. ucast (pl_map p (PAULA_VOICE n + k)));
         len = push_bit 8 (r 4) OR r 5;
         len = len OR push_bit 16 (c_not len)
     in push_bit (1 + pl_ct_fix p) len)"

definition voice_vol :: "nat \<Rightarrow> paula \<Rightarrow> int68" where
  "voice_vol n p =
    (let vol = ucast (pl_map p (PAULA_VOICE n + 9)) AND 127;
         vol = (if 64 \<le> vol then 64 else vol)
     in push_bit 1 vol)"

definition voice_step :: "nat \<Rightarrow> paula \<Rightarrow> int68" where
  "voice_step n p =
    (let r = (\<lambda>k. ucast (pl_map p (PAULA_VOICE n + k)));
         per = push_bit 8 (r 6) + r 7;
         per = (if per = 0 then 1 else per)
     in pl_clkperspl p div per)"

definition mix_one :: "(nat \<Rightarrow> u8) \<Rightarrow> nat \<Rightarrow> nat \<Rightarrow> s32 list \<Rightarrow> paula \<Rightarrow> (s32 list \<times> paula) option" where
  "mix_one ram n shift b p =
    (let w = pl_voice p n;
         vol = voice_vol n p;
         stp = voice_step n p;
         readr = voice_loc n p;
         reend = voice_len n p + readr
     in if reend \<le> readr then Some (b, p)
        else if v_end w \<le> v_adr w then Some (b, p)
        else
          Option.bind
            (mix_voice (voice_sample p ram vol readr) shift stp readr reend (v_adr w) (v_end w) False 0 b)
            (\<lambda>(b, adr, end, hasloop, lst).
               let p = pl_put (PAULA_VOICE n + 0xA) lst p;
                   w = w\<lparr>v_adr := adr\<rparr>;
                   w = (if hasloop then w\<lparr>v_start := readr, v_end := end\<rparr> else w)
               in Some (b, put_voice n w p)))"

definition voice_on :: "paula \<Rightarrow> nat \<Rightarrow> bool" where
  "voice_on p i \<longleftrightarrow>
    (let pl_mask = (case pl_chans p of Some c \<Rightarrow> c | None \<Rightarrow> 15)
     in signed_drop_bit 9 (pl_dmacon p) AND signed_drop_bit i (pl_mask AND pl_dmacon p) AND 1 \<noteq> 0)"

fun mix_voices :: "(nat \<Rightarrow> u8) \<Rightarrow> nat list \<Rightarrow> s32 list \<Rightarrow> paula \<Rightarrow> (s32 list \<times> paula) option" where
  "mix_voices ram [] b p = Some (b, p)"
| "mix_voices ram (i # is) b p =
    Option.bind
      (if voice_on p i then mix_one ram i (if odd i \<noteq> odd (i div 2) then 1 else 0) b p else Some (b, p))
      (\<lambda>(b, p). mix_voices ram is b p)"

text \<open>\<open>paula_mix\<close>: a buffer of \<open>n\<close> samples, cleared first; the list is empty when \<open>n \<le> 0\<close>.\<close>

definition paula_mix :: "(nat \<Rightarrow> u8) \<Rightarrow> s32 list \<Rightarrow> paula \<Rightarrow> (s32 list \<times> paula) option" where
  "paula_mix ram b p =
    Option.bind
      (if b \<noteq> [] then mix_voices ram [0..<4] (map (\<lambda>_. 0) b) p else Some (b, p))
      (\<lambda>(b, p). Some (b, p\<lparr>pl_vhpos := 0\<rparr>))"

section \<open>Registers\<close>

text \<open>The set and clear convention: bit 15 of the value written says which.\<close>

definition clearset :: "s32 \<Rightarrow> s32 \<Rightarrow> s32" where
  "clearset v clrset =
    (if clrset AND 0x8000 \<noteq> 0 then (v OR clrset) AND 0x7FFF else v AND NOT clrset)"

definition DMACON :: "s32 \<Rightarrow> s32" where
  "DMACON dmacon = (if dmacon AND push_bit 9 1 \<noteq> 0 then -1 else 0) AND dmacon AND 0xF"

definition INTENA :: "s32 \<Rightarrow> s32" where
  "INTENA intena = (if intena AND push_bit 14 1 \<noteq> 0 then -1 else 0) AND intena AND push_bit 7 0xF"

definition reg_hi :: "s32 \<Rightarrow> u8" where
  "reg_hi v = ucast (signed_drop_bit 8 v AND 0x7F)"

definition paula_readB :: "int68 \<Rightarrow> paula \<Rightarrow> int68 \<times> paula" where
  "paula_readB addr p =
    (let i = unat (ucast addr :: u8);
         (v, p) =
           (if i = PAULA_VHPOSR then (ucast (pl_vhpos p) :: u8, p\<lparr>pl_vhpos := pl_vhpos p + 1\<rparr>)
            else if i = PAULA_DMACONR then (reg_hi (pl_dmacon p), p)
            else if i = PAULA_DMACONR + 1 then (ucast (pl_dmacon p), p)
            else if i = PAULA_INTENAR then (reg_hi (pl_intena p), p)
            else if i = PAULA_INTENAR + 1 then (ucast (pl_intena p), p)
            else if i = PAULA_INTREQR then (reg_hi (pl_intreq p), p)
            else if i = PAULA_INTREQR + 1 then (ucast (pl_intreq p), p)
            else if i = PAULA_ADKCONR then (reg_hi (pl_adkcon p), p)
            else if i = PAULA_ADKCONR + 1 then (ucast (pl_adkcon p), p)
            else (pl_map p i, p))
     in (ucast v, p))"

definition paula_readW :: "int68 \<Rightarrow> paula \<Rightarrow> int68" where
  "paula_readW addr p =
    (let i = unat (ucast addr :: u8);
         v = (if i = PAULA_DMACONR then ucast (pl_dmacon p AND 0x7FFF)
              else if i = PAULA_INTENAR then ucast (pl_intena p AND 0x7FFF)
              else if i = PAULA_INTREQR then ucast (pl_intreq p AND 0x7FFF)
              else if i = PAULA_ADKCON then ucast (pl_adkcon p AND 0x7FFF)
              else push_bit 8 (ucast (pl_map p i)) OR ucast (pl_map p (i + 1))) :: u16
     in ucast v)"

definition reload :: "nat \<Rightarrow> paula \<Rightarrow> paula" where
  "reload n p =
    (let start = voice_loc n p
     in put_voice n \<lparr>v_adr = start, v_start = start, v_end = start + voice_len n p\<rparr> p)"

definition reload_if :: "s32 \<Rightarrow> nat \<Rightarrow> nat \<Rightarrow> paula \<Rightarrow> paula" where
  "reload_if start k n p = (if start AND push_bit k 1 \<noteq> 0 then reload n p else p)"

definition write_intreq :: "s32 \<Rightarrow> paula \<Rightarrow> paula" where
  "write_intreq intreq p =
    (if intreq AND 0x8000 = 0 then p\<lparr>pl_intreq := pl_intreq p AND NOT intreq\<rparr>
     else
       let intdenied = NOT (INTENA (pl_intena p));
           intdenied = intdenied OR pl_intreq p;
           intdenied = intdenied AND intreq;
           p = reload_if intdenied 7 0 p;
           p = reload_if intdenied 8 1 p;
           p = reload_if intdenied 9 2 p;
           p = reload_if intdenied 10 3 p
       in p\<lparr>pl_intreq := pl_intreq p OR intreq\<rparr>)"

definition paula_writeB :: "int68 \<Rightarrow> int68 \<Rightarrow> paula \<Rightarrow> paula" where
  "paula_writeB addr data p =
    (let i = unat (ucast addr :: u8);
         p = pl_put i (ucast data) p
     in if i = PAULA_INTREQ + 1
        then write_intreq (push_bit 8 (ucast (pl_map p PAULA_INTREQ)) OR ucast (pl_map p (PAULA_INTREQ + 1))) p
        else p)"

definition paula_writeW :: "int68 \<Rightarrow> int68 \<Rightarrow> paula \<Rightarrow> paula" where
  "paula_writeW addr data p =
    (let i = unat (ucast addr :: u8);
         v = ucast (ucast data :: u16) :: s32;
         p = pl_put i (ucast (drop_bit 8 v)) p;
         p = pl_put ((i + 1) mod 256) (ucast v) p
     in if i = PAULA_ADKCON then p\<lparr>pl_adkcon := clearset (pl_adkcon p) v\<rparr>
        else if i = PAULA_DMACON then
          let old_dmaena = DMACON (pl_dmacon p);
              p = p\<lparr>pl_dmacon := clearset (pl_dmacon p) v\<rparr>;
              start = DMACON (pl_dmacon p) AND NOT old_dmaena;
              p = reload_if start 0 0 p;
              p = reload_if start 1 1 p;
              p = reload_if start 2 2 p
          in reload_if start 3 3 p
        else if i = PAULA_INTENA then p\<lparr>pl_intena := clearset (pl_intena p) v\<rparr>
        else if i = PAULA_INTREQ then write_intreq v p
        else p)"

section \<open>Lemmas on the registers\<close>

lemma clearset_bit:
  "i < 15 \<Longrightarrow> bit (clearset v c) i \<longleftrightarrow>
    (if bit c 15 then bit v i \<or> bit c i else bit v i \<and> \<not> bit c i)"
proof -
  assume i: "i < 15"
  have m: "0x8000 = (push_bit 15 1 :: s32)" "0x7FFF = (mask 15 :: s32)"
    by (simp_all add: mask_eq_exp_minus_1)
  have "c AND push_bit 15 1 \<noteq> 0 \<longleftrightarrow> bit c 15"
    by (simp add: bit_iff_and_push_bit_not_eq_0)
  then show ?thesis
    using i unfolding clearset_def m by (auto simp: bit_simps)
qed

text \<open>A voice is fed by the DMA when its bit and the master bit are set.\<close>

definition dma_on :: "s32 \<Rightarrow> nat \<Rightarrow> bool" where
  "dma_on d n \<longleftrightarrow> bit d 9 \<and> bit d n"

lemma DMACON_bit: "n < 4 \<Longrightarrow> bit (DMACON d) n \<longleftrightarrow> dma_on d n"
proof -
  assume n: "n < 4"
  have m: "0xF = (mask 4 :: s32)" by (simp add: mask_eq_exp_minus_1)
  have "d AND push_bit 9 1 \<noteq> 0 \<longleftrightarrow> bit d 9" by (simp add: bit_iff_and_push_bit_not_eq_0)
  then show ?thesis using n unfolding DMACON_def m by (auto simp: bit_simps dma_on_def)
qed

text \<open>The registers of a voice as numbers: where its sample starts, and its length in bytes.\<close>

definition started :: "nat \<Rightarrow> paula \<Rightarrow> paulav" where
  "started n p = \<lparr>v_adr = voice_loc n p, v_start = voice_loc n p, v_end = voice_loc n p + voice_len n p\<rparr>"

lemma voice_regs_cong:
  "pl_map p = pl_map q \<Longrightarrow> pl_ct_fix p = pl_ct_fix q \<Longrightarrow>
    voice_loc n p = voice_loc n q \<and> voice_len n p = voice_len n q"
  by (simp add: voice_loc_def voice_len_def)

lemma reload_if_fields:
  "pl_map (reload_if s k n p) = pl_map p" "pl_ct_fix (reload_if s k n p) = pl_ct_fix p"
  "pl_dmacon (reload_if s k n p) = pl_dmacon p" "pl_intreq (reload_if s k n p) = pl_intreq p"
  "pl_voice (reload_if s k n p) m = (if m = n \<and> bit s k then started n p else pl_voice p m)"
proof -
  have "s AND push_bit k 1 \<noteq> 0 \<longleftrightarrow> bit s k" by (simp add: bit_iff_and_push_bit_not_eq_0)
  then show "pl_voice (reload_if s k n p) m = (if m = n \<and> bit s k then started n p else pl_voice p m)"
    by (auto simp: reload_if_def reload_def started_def put_voice_def Let_def)
qed (simp_all add: reload_if_def reload_def put_voice_def Let_def)

lemma started_cong:
  "pl_map p = pl_map q \<Longrightarrow> pl_ct_fix p = pl_ct_fix q \<Longrightarrow> started n p = started n q"
  using voice_regs_cong [of p q n] by (simp add: started_def)

text \<open>
  Writing DMACON starts exactly the voices whose DMA goes from off to on, at the start of
  their sample, and leaves the others alone.
\<close>

lemma write_dmacon:
  assumes "(ucast addr :: u8) = 0x96"
  shows "pl_dmacon (paula_writeW addr data p) = clearset (pl_dmacon p) (ucast (ucast data :: u16))"
    and "n < 4 \<Longrightarrow> pl_voice (paula_writeW addr data p) n =
      (if dma_on (clearset (pl_dmacon p) (ucast (ucast data :: u16))) n \<and> \<not> dma_on (pl_dmacon p) n
       then started n (paula_writeW addr data p) else pl_voice p n)"
proof -
  define v where "v = (ucast (ucast data :: u16) :: s32)"
  define q where "q = pl_put ((0x96 + 1) mod 256) (ucast v) (pl_put 0x96 (ucast (drop_bit 8 v)) p)"
  define r where "r = q\<lparr>pl_dmacon := clearset (pl_dmacon p) v\<rparr>"
  define s where "s = DMACON (clearset (pl_dmacon p) v) AND NOT (DMACON (pl_dmacon p))"
  have q: "pl_dmacon q = pl_dmacon p" "pl_voice q = pl_voice p" by (simp_all add: q_def pl_put_def)
  have a: "unat (ucast addr :: u8) = 0x96" by (simp add: assms)
  have w: "paula_writeW addr data p = reload_if s 3 3 (reload_if s 2 2 (reload_if s 1 1 (reload_if s 0 0 r)))"
    unfolding paula_writeW_def Let_def a v_def [symmetric] q_def [symmetric] q(1)
    by (simp add: paula_reg_defs r_def s_def q)
  note f = reload_if_fields
  show "pl_dmacon (paula_writeW addr data p) = clearset (pl_dmacon p) v"
    unfolding w by (simp add: f r_def)
  have e: "started n (paula_writeW addr data p) = started n r" for n
    unfolding w by (rule started_cong) (simp_all add: f)
  have e': "started n (reload_if s k m t) = started n t" for n k m t
    by (rule started_cong) (simp_all add: f)
  show "pl_voice (paula_writeW addr data p) n =
      (if dma_on (clearset (pl_dmacon p) v) n \<and> \<not> dma_on (pl_dmacon p) n
       then started n (paula_writeW addr data p) else pl_voice p n)" if "n < 4"
  proof -
    have b: "bit s n \<longleftrightarrow> dma_on (clearset (pl_dmacon p) v) n \<and> \<not> dma_on (pl_dmacon p) n"
      using that DMACON_bit [of n] by (simp add: s_def bit_simps)
    have v: "pl_voice r n = pl_voice p n" by (simp add: r_def q)
    have "n = 0 \<or> n = 1 \<or> n = 2 \<or> n = 3" using that by linarith
    then show ?thesis
      unfolding e unfolding w b [symmetric] f(5) e' using v by (elim disjE) simp_all
  qed
qed

section \<open>Lemmas on the mixing\<close>

lemma back_in_loop_returns:
  assumes "0 < relen" "relen \<le> end"
  shows "\<exists>a. back_in_loop relen end adr = Some a \<and> a < end \<and> (end \<le> adr \<longrightarrow> end - relen \<le> a) \<and>
    unat a mod unat relen = unat adr mod unat relen"
proof (induction "unat adr" arbitrary: adr rule: less_induct)
  case less
  show ?case
  proof (cases "end \<le> adr")
    case False
    then have "back_in_loop relen end adr = Some adr"
      unfolding back_in_loop_def by (subst while_option_unfold) simp
    with False show ?thesis by auto
  next
    case True
    have le: "relen \<le> adr" using True assms by simp
    then have u: "unat (adr - relen) = unat adr - unat relen"
      by (simp add: unat_sub)
    have p: "0 < unat relen" using assms by (simp add: unat_gt_0)
    have "unat (adr - relen) < unat adr" using u le p by (simp add: word_le_nat_alt)
    from less [OF this] obtain a where a: "back_in_loop relen end (adr - relen) = Some a" "a < end"
      "end \<le> adr - relen \<longrightarrow> end - relen \<le> a" "unat a mod unat relen = unat (adr - relen) mod unat relen"
      by blast
    have b: "back_in_loop relen end adr = back_in_loop relen end (adr - relen)"
      using True unfolding back_in_loop_def by (subst while_option_unfold) simp
    have m: "unat (adr - relen) mod unat relen = unat adr mod unat relen"
      using u le by (simp add: word_le_nat_alt le_mod_geq)
    have "end - relen \<le> a"
    proof (cases "end \<le> adr - relen")
      case False
      then have "a = adr - relen"
        using a(1) unfolding back_in_loop_def by (subst (asm) while_option_unfold) simp
      moreover have "end - relen \<le> adr - relen"
        using True assms(2) by (simp add: word_le_nat_alt unat_sub)
      ultimately show ?thesis by simp
    qed (use a in blast)
    then show ?thesis using a b m by auto
  qed
qed

text \<open>
  Mixing a voice returns for every voice with a sample ahead of it, fills the buffer, and leaves
  the voice with a sample ahead: a voice that plays never runs dry.
\<close>

lemma mix_voice_returns:
  assumes "readr < reend"
  shows "adr < end \<Longrightarrow> \<exists>ys adr' end' hl l.
    mix_voice smp shift stp readr reend adr end hasloop lst b = Some (ys, adr', end', hl, l) \<and>
    length ys = length b \<and> adr' < end'"
proof (induction b arbitrary: adr "end" hasloop lst)
  case (Cons x b)
  obtain l v where s: "smp adr end = (l, v)" by (cases "smp adr end")
  show ?case
  proof (cases "end \<le> adr + stp")
    case False
    then have "adr + stp < end" by simp
    from Cons.IH [OF this, of hasloop l] obtain ys adr' end' hl l' where
      "mix_voice smp shift stp readr reend (adr + stp) end hasloop l b = Some (ys, adr', end', hl, l')"
      "length ys = length b" "adr' < end'" by blast
    then show ?thesis using False s by (auto simp: Let_def)
  next
    case True
    have r: "0 < reend - readr" "reend - readr \<le> reend"
      using assms by (simp_all add: word_less_nat_alt word_le_nat_alt unat_sub)
    from back_in_loop_returns [OF r] obtain a where
      a: "back_in_loop (reend - readr) reend (readr + (adr + stp) - end) = Some a" "a < reend" by blast
    from Cons.IH [OF a(2), of True l] obtain ys adr' end' hl l' where
      "mix_voice smp shift stp readr reend a reend True l b = Some (ys, adr', end', hl, l')"
      "length ys = length b" "adr' < end'" by blast
    then show ?thesis using True s a(1) by (auto simp: Let_def)
  qed
qed simp

lemma mix_voice_flag:
  "mix_voice smp shift stp readr reend adr end h lst b = Some (ys, adr', end', hl, l) \<Longrightarrow>
    (h \<longrightarrow> hl) \<and> (hl \<or> end' = end)"
  by (induction b arbitrary: adr "end" h lst ys)
     (auto simp: Let_def bind_eq_Some_conv split: prod.splits if_splits, blast+)

lemma mix_one_returns:
  "\<exists>b' p'. mix_one ram n shift b p = Some (b', p') \<and> length b' = length b \<and>
    (v_adr (pl_voice p n) < v_end (pl_voice p n) \<longrightarrow> v_adr (pl_voice p' n) < v_end (pl_voice p' n)) \<and>
    (\<forall>m. m \<noteq> n \<longrightarrow> pl_voice p' m = pl_voice p m) \<and>
    pl_dmacon p' = pl_dmacon p \<and> pl_chans p' = pl_chans p \<and> pl_ct_fix p' = pl_ct_fix p"
proof (cases "voice_len n p + voice_loc n p \<le> voice_loc n p \<or> v_end (pl_voice p n) \<le> v_adr (pl_voice p n)")
  case True
  then show ?thesis by (auto simp: mix_one_def Let_def)
next
  case False
  then have r: "voice_loc n p < voice_len n p + voice_loc n p" "v_adr (pl_voice p n) < v_end (pl_voice p n)"
    by auto
  from mix_voice_returns [OF r, of "voice_sample p ram (voice_vol n p) (voice_loc n p)" shift "voice_step n p" False 0 b]
  obtain ys adr' end' hl l where
    m: "mix_voice (voice_sample p ram (voice_vol n p) (voice_loc n p)) shift (voice_step n p) (voice_loc n p)
      (voice_len n p + voice_loc n p) (v_adr (pl_voice p n)) (v_end (pl_voice p n)) False 0 b =
        Some (ys, adr', end', hl, l)" "length ys = length b" "adr' < end'" by blast
  have e: "hl \<or> end' = v_end (pl_voice p n)"
    using m(1) by (blast dest: mix_voice_flag)
  have c: "\<not> voice_len n p + voice_loc n p \<le> voice_loc n p" "\<not> v_end (pl_voice p n) \<le> v_adr (pl_voice p n)"
    using False by simp_all
  show ?thesis
    unfolding mix_one_def Let_def if_not_P [OF c(1)] if_not_P [OF c(2)] m(1)
    using m(2,3) e by (auto simp: put_voice_def pl_put_def)
qed

text \<open>
  The whole chip: mixing returns a buffer of the size given, and every voice that had samples
  ahead still has.
\<close>

definition feeding :: "paula \<Rightarrow> nat \<Rightarrow> bool" where
  "feeding p n \<longleftrightarrow> v_adr (pl_voice p n) < v_end (pl_voice p n)"

lemma mix_voices_returns:
  "\<exists>b' p'. mix_voices ram is b p = Some (b', p') \<and> length b' = length b \<and>
    (\<forall>n. feeding p n \<longrightarrow> feeding p' n) \<and> pl_dmacon p' = pl_dmacon p"
proof (induction "is" arbitrary: b p)
  case (Cons i js)
  define q where "q = (if voice_on p i then mix_one ram i (if odd i \<noteq> odd (i div 2) then 1 else 0) b p else Some (b, p))"
  have "\<exists>b1 p1. q = Some (b1, p1) \<and> length b1 = length b \<and> (\<forall>n. feeding p n \<longrightarrow> feeding p1 n) \<and>
      pl_dmacon p1 = pl_dmacon p"
  proof (cases "voice_on p i")
    case True
    from mix_one_returns [of ram i "if odd i \<noteq> odd (i div 2) then 1 else 0" b p] obtain b1 p1 where
      m: "q = Some (b1, p1)" "length b1 = length b" "feeding p i \<longrightarrow> feeding p1 i"
      "\<forall>m. m \<noteq> i \<longrightarrow> pl_voice p1 m = pl_voice p m" "pl_dmacon p1 = pl_dmacon p"
      using True unfolding q_def feeding_def by auto
    have "feeding p n \<longrightarrow> feeding p1 n" for n
      using m(3,4) by (cases "n = i") (auto simp: feeding_def)
    then show ?thesis using m by blast
  qed (simp add: q_def)
  then obtain b1 p1 where b1: "q = Some (b1, p1)" "length b1 = length b" "\<forall>n. feeding p n \<longrightarrow> feeding p1 n"
    "pl_dmacon p1 = pl_dmacon p" by blast
  from Cons.IH [of b1 p1] show ?case
    using b1 unfolding mix_voices.simps q_def [symmetric] by auto
qed simp

lemma paula_mix_returns:
  "\<exists>b' p'. paula_mix ram b p = Some (b', p') \<and> length b' = length b \<and>
    (\<forall>n. feeding p n \<longrightarrow> feeding p' n) \<and> pl_dmacon p' = pl_dmacon p"
proof (cases "b = []")
  case False
  from mix_voices_returns [of ram "[0..<4]" "map (\<lambda>_. 0) b" p] show ?thesis
    using False unfolding paula_mix_def by (auto simp: feeding_def)
qed (simp add: paula_mix_def feeding_def)

text \<open>
  A voice reads the memory of the 68000, and at most the byte that follows it: the sample after
  the last one is fetched before the counter wraps around.
\<close>

lemma counter_index:
  assumes "0 < lg" "lg < 31"
  shows "unat (ucast (drop_bit (64 - lg) (ct :: int68)) :: s32) < 2 ^ lg"
proof -
  have t: "take_bit lg (drop_bit (64 - lg) ct) = drop_bit (64 - lg) ct"
    by (rule bit_word_eqI) (use assms in \<open>auto simp: bit_simps dest: bit_imp_le_length\<close>)
  then have "take_bit lg (ucast (drop_bit (64 - lg) ct) :: s32) = ucast (drop_bit (64 - lg) ct)"
    using assms by (intro bit_word_eqI) (auto simp: bit_simps bit_eq_iff dest: bit_imp_le_length)
  then show ?thesis
    using take_bit_nat_less_exp [of lg "unat (ucast (drop_bit (64 - lg) ct) :: s32)"]
    by (metis unsigned_take_bit_eq)
qed

lemma voice_sample_local:
  assumes "pl_ct_fix p = 64 - lg" "0 < lg" "lg < 31" "\<And>a. a \<le> 2 ^ lg \<Longrightarrow> ram a = ram' a"
  shows "voice_sample p ram vol readr adr end = voice_sample p ram' vol readr adr end"
proof -
  note c = counter_index [OF assms(2,3)]
  have n: "unat (ucast (drop_bit (64 - lg) (ct :: int68)) + 1 :: s32) \<le> 2 ^ lg" for ct
  proof -
    have "unat (a + 1 :: s32) \<le> unat a + 1" for a by (simp add: unat_word_ariths)
    from this [of "ucast (drop_bit (64 - lg) ct)"] show ?thesis using c [of ct] by simp
  qed
  show ?thesis
    unfolding voice_sample_def Let_def assms(1)
    using assms(4) [OF less_imp_le [OF c]] assms(4) [OF n] by simp
qed

lemma paula_mix_local:
  assumes "pl_ct_fix p = 64 - lg" "0 < lg" "lg < 31" "\<And>a. a \<le> 2 ^ lg \<Longrightarrow> ram a = ram' a"
  shows "paula_mix ram b p = paula_mix ram' b p"
proof -
  have s: "pl_ct_fix q = 64 - lg \<Longrightarrow> voice_sample q ram vol r = voice_sample q ram' vol r" for q vol r
    using voice_sample_local [OF _ assms(2-4)] by (simp add: fun_eq_iff)
  have o: "pl_ct_fix q = 64 - lg \<Longrightarrow> mix_one ram n sh c q = mix_one ram' n sh c q" for q n sh c
    unfolding mix_one_def Let_def by (simp only: s)
  have "pl_ct_fix q = 64 - lg \<Longrightarrow> mix_voices ram is c q = mix_voices ram' is c q" for "is" c q
  proof (induction "is" arbitrary: c q)
    case (Cons i js)
    have "pl_ct_fix q' = 64 - lg" if "mix_one ram' i sh c q = Some (c', q')" for sh c' q'
      using mix_one_returns [of ram' i sh c q] that Cons.prems by auto
    then show ?case
      using Cons by (auto simp: o intro!: bind_option_cong)
  qed simp
  then show ?thesis using assms(1) by (simp add: paula_mix_def)
qed

end
