(* ===== verification/Ym68.thy ===== *)
theory Ym68
  imports Struct68
begin

text \<open>
  The sound chip YM-2149, \<open>io68/ymemul.h\<close>, \<open>ymemul.c\<close>, \<open>ym_envel.c\<close> and \<open>ym_linear_table.c\<close>: its
  registers, the list of the write accesses of a pass, the envelope waveforms, the channel masks
  and the linear volume table.  The engines that turn the events into sound are in theories of
  their own and keep their state in this one; the C code has them in a \<open>union\<close>.

  The \<open>int\<close> counters of the pulse and blep engines are unbounded integers: they are reloaded
  from registers of at most 16 bits and never leave the range of a 32-bit \<open>int\<close>.  The output
  buffer is the list of what has been written.

  Lemmas: what a register write and read give; the waveforms and masks stay in the 15 bits of
  the volume table.
\<close>

unbundle bit_operations_syntax

section \<open>State\<close>

record ym_event =
  ev_ymcycle :: int68
  ev_reg :: nat
  ev_val :: u8

record puls =
  envel_ct :: int
  envel_idx :: int
  noise_bit :: int
  noise_ct :: int
  voice_ctA :: int
  voice_ctB :: int
  voice_ctC :: int
  levels :: int
  hipass_inp1 :: int
  hipass_out1 :: int
  lopass_out1 :: int
  btw_x :: "int \<times> int"
  btw_y :: "int \<times> int"
  btw_a :: "int \<times> int \<times> int"
  btw_b :: "int \<times> int"
  ifilter :: nat

record blep_tone =
  tn_count :: int
  tn_event :: int
  flip_flop :: u16
  tonemix :: u16
  noisemix :: u16
  envmask :: u16
  volmask :: u16

record blep_state =
  bs_stamp :: u16
  bs_level :: int

record blep =
  cycles_per_sample :: nat
  cycles_to_next_sample :: nat
  tonegen :: "nat \<Rightarrow> blep_tone"
  noise_event :: int
  noise_count :: int
  noise_state :: s32
  noise_output :: u16
  env_event :: int
  env_count :: int
  env_state :: nat
  env_output :: u16
  global_output_level :: int
  blep_idx :: nat
  blep_time :: u16
  hp :: int
  blepstate :: "nat \<Rightarrow> blep_state"

datatype ym_engine = YmPuls | YmBlep | YmDump

record ym =
  ym_cb :: ym_engine
  ym_ctrl :: u8
  ym_reg :: "nat \<Rightarrow> u8"
  ym_shadow :: "nat \<Rightarrow> u8"
  ymout5 :: "nat \<Rightarrow> int"
  voice_mute :: nat
  ym_hz :: nat
  ym_clock :: nat
  ym_events :: "ym_event list"
  event_ovf :: nat
  ym_eng :: int
  ym_volmodel :: int
  ym_puls :: puls
  ym_blep :: blep
  dump_base :: int68
  dump_pass :: int68
  dump_active :: bool

section \<open>Envelopes and masks\<close>

definition V5 :: "nat \<Rightarrow> nat" where
  "V5 x = push_bit 10 x OR push_bit 5 x OR x"

definition UP :: "nat list" where "UP = map V5 [0..<32]"
definition DW :: "nat list" where "DW = map V5 (rev [0..<32])"
definition LO :: "nat list" where "LO = replicate 32 (V5 0)"
definition HI :: "nat list" where "HI = replicate 32 (V5 31)"

definition ym_envelops :: "nat list list" where
  "ym_envelops =
    (let dwdw = DW @ DW @ DW; dwhi = DW @ HI @ HI; dwlo = DW @ LO @ LO; dwup = DW @ UP @ DW;
         updw = UP @ DW @ UP; uphi = UP @ HI @ HI; uplo = UP @ LO @ LO; upup = UP @ UP @ UP
     in [dwlo, dwlo, dwlo, dwlo, uplo, uplo, uplo, uplo,
         dwdw, dwlo, dwup, dwhi, upup, uphi, updw, uplo])"

definition YM_OUT_MSK :: "bool \<Rightarrow> bool \<Rightarrow> bool \<Rightarrow> nat" where
  "YM_OUT_MSK c b a =
    (push_bit 10 (if c then 31 else 0) OR push_bit 5 (if b then 31 else 0)) OR (if a then 31 else 0)"

definition ym_smsk_table :: "nat list" where
  "ym_smsk_table =
    [YM_OUT_MSK False False False, YM_OUT_MSK False False True,
     YM_OUT_MSK False True False, YM_OUT_MSK False True True,
     YM_OUT_MSK True False False, YM_OUT_MSK True False True,
     YM_OUT_MSK True True False, YM_OUT_MSK True True True]"

section \<open>Register access\<close>

definition YM_MAX_EVENTS :: nat where "YM_MAX_EVENTS = 1600"

definition ym_writereg :: "ym \<Rightarrow> u8 \<Rightarrow> int68 \<Rightarrow> ym" where
  "ym_writereg ym val ymcycle =
    (let reg = unat (ym_ctrl ym)
     in if reg < 16 then
          let ym = ym\<lparr>ym_shadow := (ym_shadow ym)(reg := val)\<rparr>
          in if YM_MAX_EVENTS \<le> length (ym_events ym) then ym\<lparr>event_ovf := event_ovf ym + 1\<rparr>
             else ym\<lparr>ym_events := ym_events ym @ [\<lparr>ev_ymcycle = ymcycle, ev_reg = reg, ev_val = val\<rparr>]\<rparr>
        else ym)"

definition ym_readreg :: "ym \<Rightarrow> u8" where
  "ym_readreg ym = (let reg = unat (ym_ctrl ym) in if reg < 16 then ym_shadow ym reg else 0)"

definition ym_adjust_cycle :: "ym \<Rightarrow> int68 \<Rightarrow> ym" where
  "ym_adjust_cycle ym ymcycles =
    (if ymcycles \<noteq> 0
     then ym\<lparr>ym_events := map (\<lambda>e. e\<lparr>ev_ymcycle := ev_ymcycle e - ymcycles\<rparr>) (ym_events ym)\<rparr>
     else ym)"

definition ym_active_channels :: "ym \<Rightarrow> int \<Rightarrow> int \<Rightarrow> nat \<times> ym" where
  "ym_active_channels ym clr on =
    (let mute = int (voice_mute ym);
         v = (mute AND 1) OR (drop_bit 5 mute AND 2) OR (drop_bit 10 mute AND 4);
         v = nat (((v AND NOT clr) OR on) AND 7)
     in (v, ym\<lparr>voice_mute := ym_smsk_table ! v\<rparr>))"

section \<open>The linear volume table\<close>

definition ymout1c5bit :: "nat list" where
  "ymout1c5bit =
    [0, 58, 127, 209, 306, 422, 559, 723,
     918, 1149, 1424, 1752, 2141, 2604, 3154, 3809,
     4588, 5514, 6615, 7924, 9481, 11333, 13535, 16154,
     19269, 22972, 27377, 32615, 38843, 46251, 55059, 65535]"

text \<open>The entry \<open>i\<close> of the table; the computation is in \<open>unsigned int\<close>, the store in \<open>s16\<close>.\<close>

definition ym_linear_entry :: "nat \<Rightarrow> nat \<Rightarrow> int" where
  "ym_linear_entry level i =
    (let min = ymout1c5bit ! 0; max = ymout1c5bit ! 31;
         div' = (if max - min \<noteq> 0 then max - min else 1);
         center = int (drop_bit 1 (level + 1));
         tmp = (ymout1c5bit ! (drop_bit 10 i AND 31) + ymout1c5bit ! (drop_bit 5 i AND 31) +
                ymout1c5bit ! (i AND 31) - 3 * min) div 3 * level div div'
     in signed_take_bit 15 (int tmp - center))"

text \<open>\<open>create_table\<close>, that makes the entry \<open>h\<close> of the volume table from a table \<open>inp\<close> of levels.\<close>

definition create_table :: "(nat \<Rightarrow> nat) \<Rightarrow> nat \<Rightarrow> nat \<Rightarrow> int" where
  "create_table inp level h =
    (let min = inp 0; max = inp 0x7FFF;
         div' = (if max - min \<noteq> 0 then max - min else 1);
         mid = int (drop_bit 1 (level + 1))
     in signed_take_bit 15 (int ((inp h - min) * level div div') - mid))"

section \<open>Lemmas\<close>

lemma ym_read_after_write:
  "unat (ym_ctrl ym) < 16 \<Longrightarrow> ym_readreg (ym_writereg ym v c) = v"
  by (simp add: ym_readreg_def ym_writereg_def Let_def)

definition ym_events_ok :: "ym \<Rightarrow> bool" where
  "ym_events_ok ym \<longleftrightarrow> length (ym_events ym) \<le> YM_MAX_EVENTS \<and> (\<forall>e\<in>set (ym_events ym). ev_reg e < 16)"

lemma writereg_events_ok: "ym_events_ok ym \<Longrightarrow> ym_events_ok (ym_writereg ym v c)"
  by (auto simp: ym_events_ok_def ym_writereg_def Let_def)

lemma V5_bound: "x < 32 \<Longrightarrow> V5 x < 2 ^ 15"
proof -
  assume "x < 32"
  then have "take_bit 5 x = x" by (simp add: take_bit_nat_eq_self)
  then have b: "bit x n \<Longrightarrow> n < 5" for n by (metis bit_take_bit_iff)
  have "take_bit 15 (V5 x) = V5 x"
    by (rule bit_eqI) (auto simp: V5_def bit_simps dest: b)
  then show ?thesis by (simp add: take_bit_nat_eq_self_iff)
qed

lemma envelope_bounds:
  assumes "w \<in> set ym_envelops"
  shows "length w = 96" and "x \<in> set w \<Longrightarrow> x < 2 ^ 15"
proof -
  have l: "length UP = 32" "length DW = 32" "length LO = 32" "length HI = 32"
    by (simp_all add: UP_def DW_def LO_def HI_def)
  have b: "\<forall>x\<in>set UP \<union> set DW \<union> set LO \<union> set HI. x < 2 ^ 15"
    unfolding UP_def DW_def LO_def HI_def using V5_bound by (auto simp del: upt_rec_numeral)
  show "length w = 96" using assms by (auto simp: ym_envelops_def Let_def l)
  show "x \<in> set w \<Longrightarrow> x < 2 ^ 15" using assms b by (auto simp: ym_envelops_def Let_def)
qed

lemma smsk_values:
  "ym_smsk_table = [0, 0x1F, 0x3E0, 0x3FF, 0x7C00, 0x7C1F, 0x7FE0, 0x7FFF]"
  by (simp add: ym_smsk_table_def YM_OUT_MSK_def)

lemma smsk_bounds: "v < 8 \<Longrightarrow> ym_smsk_table ! v < 2 ^ 15"
proof -
  have "list_all (\<lambda>x. x < 2 ^ 15) ym_smsk_table" by (simp add: smsk_values)
  moreover have "length ym_smsk_table = 8" by (simp add: smsk_values)
  ultimately show "v < 8 \<Longrightarrow> ?thesis" by (simp only: list_all_length)
qed

text \<open>The channels reported are the ones asked for, and asking again gives the same.\<close>

lemma active_channels_mask:
  "v < 8 \<Longrightarrow> (let m = int (ym_smsk_table ! v)
     in (m AND 1) OR (drop_bit 5 m AND 2) OR (drop_bit 10 m AND 4)) = int v"
proof -
  assume "v < 8"
  then have "v = 0 \<or> v = 1 \<or> v = 2 \<or> v = 3 \<or> v = 4 \<or> v = 5 \<or> v = 6 \<or> v = 7" by linarith
  then show ?thesis unfolding smsk_values by (elim disjE) simp_all
qed

end
