(* ===== verification/YmPuls68.thy ===== *)
theory YmPuls68
  imports Ym68 "HOL-Library.While_Combinator"
begin

text \<open>
  The pulse engine of the YM-2149, \<open>io68/ym_puls.c\<close>: the tone, noise and envelope generators
  clocked once every eight cycles, the replay of the register writes at their cycle, the output
  filters and the resampling, which works in place on the output buffer.

  The generators produce indexes of the volume table \<open>ymout5\<close>; the filters turn them into
  samples.  The resampling of the source loops for ever on a null step: a \<open>while_option\<close>.

  Lemmas: every index produced is inside the table, the noise register never gets stuck on zero
  and the envelope is only read inside its waveform; resampling down in place is the same
  as reading from the original samples; resampling up leaves the first sample unscaled.
\<close>

unbundle bit_operations_syntax

section \<open>Reset and generators\<close>

definition YM_OUT_MSK_A :: int where "YM_OUT_MSK_A = 0x1F"
definition YM_OUT_MSK_B :: int where "YM_OUT_MSK_B = 0x3E0"
definition YM_OUT_MSK_C :: int where "YM_OUT_MSK_C = 0x7C00"

definition puls_reset :: "puls \<Rightarrow> puls" where
  "puls_reset p =
    p\<lparr>envel_idx := -1, envel_ct := 1, noise_bit := 2, noise_ct := 1,
      voice_ctA := 1, voice_ctB := 1, voice_ctC := 1, levels := 0x7fff,
      hipass_inp1 := 0, hipass_out1 := 0, lopass_out1 := 0,
      btw_x := (0, 0), btw_y := (0, 0),
      btw_a := (0x01eac69f, 0x03d58d3f, 0x01eac69f), btw_b := (-0x5d1253b0, 0x24bd6e2f)\<rparr>"

text \<open>The envelope and volume masks of the three channels.\<close>

definition gen_vol :: "nat \<Rightarrow> u8 \<Rightarrow> int \<times> int \<Rightarrow> int \<times> int" where
  "gen_vol sh r = (\<lambda>(emsk, vols).
    (let v = uint r AND 0x1F
     in if v AND 0x10 \<noteq> 0 then (emsk OR push_bit sh 0x1F, vols)
        else (emsk, vols OR (push_bit (sh + 1) v + push_bit sh 1))))"

definition gen_vols :: "(nat \<Rightarrow> u8) \<Rightarrow> int \<times> int" where
  "gen_vols r = gen_vol 10 (r 10) (gen_vol 5 (r 9) (gen_vol 0 (r 8) (0, 0)))"

definition gen_tone :: "(nat \<Rightarrow> u8) \<Rightarrow> nat \<Rightarrow> int" where
  "gen_tone r n = uint (r (2 * n)) OR push_bit 8 (uint (r (2 * n + 1)) AND 0xF)"

definition gen_noise :: "(nat \<Rightarrow> u8) \<Rightarrow> int" where
  "gen_noise r =
    (let perN = uint (r 6) AND 0x1F; perN = perN OR (if perN = 0 then 1 else 0) in push_bit 1 perN)"

definition gen_envel :: "(nat \<Rightarrow> u8) \<Rightarrow> int" where
  "gen_envel r = uint (r 11) OR push_bit 8 (uint (r 12))"

definition gen_smsk :: "(nat \<Rightarrow> u8) \<Rightarrow> nat \<Rightarrow> int" where
  "gen_smsk r sh = int (ym_smsk_table ! nat (drop_bit sh (uint (r 7)) AND 7))"

text \<open>
  One turn of the loop of \<open>generator\<close>, by generator; the noise bit in use goes from turn to turn.
\<close>

definition turn_noise :: "(nat \<Rightarrow> u8) \<Rightarrow> puls \<times> int \<Rightarrow> puls \<times> int" where
  "turn_noise r = (\<lambda>(p, nbit).
    (let p = p\<lparr>noise_ct := noise_ct p - 1\<rparr>
     in if noise_ct p \<le> 0 then
          let p = p\<lparr>noise_ct := gen_noise r\<rparr>;
              p = p\<lparr>noise_bit := drop_bit 1 (noise_bit p)\<rparr>;
              nbit = - (noise_bit p AND 1)
          in (p\<lparr>noise_bit := noise_bit p XOR (nbit AND 0x24000)\<rparr>, nbit)
        else (p, nbit)))"

definition turn_envel :: "(nat \<Rightarrow> u8) \<Rightarrow> puls \<Rightarrow> puls" where
  "turn_envel r p =
    (let p = p\<lparr>envel_ct := envel_ct p - 1\<rparr>
     in if envel_ct p \<le> 0 then
          let p = p\<lparr>envel_ct := gen_envel r\<rparr>;
              p = p\<lparr>envel_idx := envel_idx p + 1\<rparr>
          in if envel_idx p = 96 then p\<lparr>envel_idx := 32\<rparr> else p
        else p)"

definition turn_voices :: "(nat \<Rightarrow> u8) \<Rightarrow> puls \<Rightarrow> puls" where
  "turn_voices r p =
    (let p = p\<lparr>voice_ctA := voice_ctA p - 1\<rparr>;
         p = (if voice_ctA p \<le> 0 then p\<lparr>levels := levels p XOR YM_OUT_MSK_A, voice_ctA := gen_tone r 0\<rparr> else p);
         p = p\<lparr>voice_ctB := voice_ctB p - 1\<rparr>;
         p = (if voice_ctB p \<le> 0 then p\<lparr>levels := levels p XOR YM_OUT_MSK_B, voice_ctB := gen_tone r 1\<rparr> else p);
         p = p\<lparr>voice_ctC := voice_ctC p - 1\<rparr>
     in if voice_ctC p \<le> 0 then p\<lparr>levels := levels p XOR YM_OUT_MSK_C, voice_ctC := gen_tone r 2\<rparr> else p)"

definition gen_turn :: "(nat \<Rightarrow> u8) \<Rightarrow> int \<Rightarrow> puls \<times> int \<Rightarrow> int \<times> puls \<times> int" where
  "gen_turn r mute pn =
    (let waveform = ym_envelops ! unat (r 13 AND 15);
         (emsk, vols) = gen_vols r;
         smsk = gen_smsk r 0; nmsk = gen_smsk r 3;
         (p, nbit) = turn_noise r pn;
         p = turn_voices r (turn_envel r p);
         sq = levels p OR smsk;
         sq = sq AND (nbit OR nmsk);
         sq = sq AND ((int (waveform ! nat (envel_idx p)) AND emsk) OR vols);
         sq = sq AND mute
     in (sq, p, nbit))"

fun gen_loop :: "nat \<Rightarrow> (nat \<Rightarrow> u8) \<Rightarrow> int \<Rightarrow> puls \<times> int \<Rightarrow> int list \<times> puls" where
  "gen_loop 0 r mute (p, nbit) = ([], p)"
| "gen_loop (Suc n) r mute pn =
    (let (sq, pn) = gen_turn r mute pn; (out, p) = gen_loop n r mute pn in (sq # out, p))"

text \<open>\<open>generator\<close> on an \<open>int\<close> number of cycles: the samples, the cycles left over.\<close>

definition generator :: "ym \<Rightarrow> s32 \<Rightarrow> int list \<times> s32 \<times> ym" where
  "generator ym ymcycles =
    (let rem_cycles = ymcycles AND 7;
         ymcycles = signed_drop_bit 3 ymcycles
     in if ymcycles = 0 then ([], rem_cycles, ym)
        else
          let (out, p) = gen_loop (unat ymcycles) (ym_reg ym) (int (voice_mute ym))
                (ym_puls ym, - (noise_bit (ym_puls ym) AND 1))
          in (out, rem_cycles, ym\<lparr>ym_puls := p\<rparr>))"

definition puls_setreg :: "ym_event \<Rightarrow> ym \<Rightarrow> ym" where
  "puls_setreg e ym =
    (let ym = ym\<lparr>ym_reg := (ym_reg ym)(ev_reg e := ev_val e)\<rparr>
     in if ev_reg e = 13 then ym\<lparr>ym_puls := (ym_puls ym)\<lparr>envel_idx := -1, envel_ct := 1\<rparr>\<rparr> else ym)"

definition puls_event :: "ym_event \<Rightarrow> ym \<times> int68 \<times> int list \<Rightarrow> ym \<times> int68 \<times> int list" where
  "puls_event e = (\<lambda>(ym, lastcycle, out).
    (let ymcycles = ucast (ev_ymcycle e - lastcycle) :: s32
     in if ymcycles \<noteq> 0 then
          let (o', rem, ym) = generator ym ymcycles
          in (puls_setreg e ym, ev_ymcycle e - sx rem, out @ o')
        else (puls_setreg e ym, lastcycle, out)))"

definition simulation :: "ym \<Rightarrow> int68 \<Rightarrow> int list \<times> ym" where
  "simulation ym ymcycle =
    (if ymcycle = 0 then ([], ym)
     else
       let (ym, lastcycle, out) = fold puls_event (ym_events ym) (ym, 0, []);
           (o', rem, ym) = generator ym (ucast (ymcycle - lastcycle))
       in (out @ o', ym))"

section \<open>Resampling\<close>

definition ym_clip :: "int \<Rightarrow> int" where
  "ym_clip v = (if v < -32768 then -32768 else if 32767 < v then 32767 else v)"

definition REVOL :: "int \<Rightarrow> int" where
  "REVOL v = drop_bit 1 v"

text \<open>
  A turn of the forward loops: the sample at \<open>idx\<close>, in fixed point of \<open>sh\<close> bits, to the place
  \<open>k\<close> of the same buffer.  The loops run their body once before the first test.
\<close>

definition fwd_turn :: "nat \<Rightarrow> nat \<Rightarrow> nat \<times> nat \<times> int list \<Rightarrow> nat \<times> nat \<times> int list" where
  "fwd_turn stp sh = (\<lambda>(k, idx, buf). (k + 1, idx + stp, buf[k := ym_clip (REVOL (buf ! drop_bit sh idx))]))"

definition resample_fwd :: "nat \<Rightarrow> nat \<Rightarrow> nat \<Rightarrow> int list \<Rightarrow> int list option" where
  "resample_fwd stp sh end buf =
    map_option (\<lambda>(k, idx, buf). take k buf)
      (while_option (\<lambda>(k, idx, buf). idx < end) (fwd_turn stp sh) (fwd_turn stp sh (0, 0, buf)))"

text \<open>The backward loop, from \<open>dst\<close> down to the second place of the buffer.\<close>

fun resample_up :: "nat \<Rightarrow> nat \<Rightarrow> nat \<Rightarrow> int list \<Rightarrow> int list" where
  "resample_up stp 0 idx buf = buf"
| "resample_up stp (Suc d) idx buf =
    (let idx = idx - stp
     in resample_up stp d idx (buf[Suc d := ym_clip (REVOL (buf ! drop_bit 14 idx))]))"

definition resampling :: "int list \<Rightarrow> nat \<Rightarrow> nat \<Rightarrow> int list option" where
  "resampling src irate orate =
    (let n = length src; stp = push_bit 14 irate div orate
     in if take_bit 14 stp = 0 then resample_fwd (drop_bit 14 stp) 0 n src
        else if 2 ^ 14 \<le> stp then resample_fwd stp 14 (push_bit 14 n) src
        else
          let m = (n * orate + irate - 1) div irate
          in Some (resample_up stp (m - 1) (push_bit 14 n) (src @ replicate (m - n) 0)))"

section \<open>Filters\<close>

definition YMOUT :: "ym \<Rightarrow> int \<Rightarrow> int" where
  "YMOUT ym v = ymout5 ym (nat v)"

text \<open>The stores of an \<open>int68_t\<close> in the buffer of \<open>s32\<close>.\<close>

definition to_s32 :: "int \<Rightarrow> int" where "to_s32 v = signed_take_bit 31 v"

definition filter_none :: "ym \<Rightarrow> int list \<Rightarrow> (int list \<times> ym) option" where
  "filter_none ym out =
    (if out \<noteq> [] then
       Option.bind (resampling (map (YMOUT ym) out) (drop_bit 3 (ym_clock ym)) (ym_hz ym)) (\<lambda>o'. Some (o', ym))
     else Some (out, ym))"

fun boxcar2 :: "(int \<Rightarrow> int) \<Rightarrow> int list \<Rightarrow> int list" where
  "boxcar2 f (a # b # xs) = drop_bit 1 (f a + f b) # boxcar2 f xs"
| "boxcar2 f xs = []"

fun boxcar4 :: "(int \<Rightarrow> int) \<Rightarrow> int list \<Rightarrow> int list" where
  "boxcar4 f (a # b # c # d # xs) = drop_bit 2 (f a + f b + f c + f d) # boxcar4 f xs"
| "boxcar4 f xs = []"

definition filter_boxcar2 :: "ym \<Rightarrow> int list \<Rightarrow> (int list \<times> ym) option" where
  "filter_boxcar2 ym out =
    (if 0 < length out div 2 then
       Option.bind (resampling (boxcar2 (YMOUT ym) out) (drop_bit (3 + 1) (ym_clock ym)) (ym_hz ym)) (\<lambda>o'. Some (o', ym))
     else Some (out, ym))"

definition filter_boxcar4 :: "ym \<Rightarrow> int list \<Rightarrow> (int list \<times> ym) option" where
  "filter_boxcar4 ym out =
    (if 0 < length out div 4 then
       Option.bind (resampling (boxcar4 (YMOUT ym) out) (drop_bit (3 + 2) (ym_clock ym)) (ym_hz ym)) (\<lambda>o'. Some (o', ym))
     else Some (out, ym))"

definition filter_boxcar :: "ym \<Rightarrow> int list \<Rightarrow> (int list \<times> ym) option" where
  "filter_boxcar ym out =
    (if drop_bit (3 + 2) (ym_clock ym) < ym_hz ym then filter_boxcar2 ym out else filter_boxcar4 ym out)"

text \<open>One sample through the low-pass then the high-pass filter of one pole.\<close>

definition pole1 :: "int \<Rightarrow> int \<Rightarrow> int \<Rightarrow> int \<Rightarrow> puls \<Rightarrow> int \<times> puls" where
  "pole1 lB hA0 hB1 i0 p =
    (let lA = 2 ^ 15 - lB;
         p = p\<lparr>lopass_out1 := drop_bit 15 (i0 * lA + lopass_out1 p * lB)\<rparr>;
         p = p\<lparr>hipass_out1 := drop_bit 15 ((lopass_out1 p - hipass_inp1 p) * hA0 + hipass_out1 p * hB1)\<rparr>;
         o0 = hipass_out1 p;
         p = p\<lparr>hipass_inp1 := lopass_out1 p\<rparr>
     in (to_s32 o0, p))"

definition pole2 :: "int \<Rightarrow> puls \<Rightarrow> int \<times> puls" where
  "pole2 i0 p =
    (let (a0, a1, a2) = btw_a p; (b0, b1) = btw_b p;
         a0 = drop_bit 15 a0; a1 = drop_bit 15 a1; a2 = drop_bit 15 a2;
         b0 = drop_bit 15 b0; b1 = drop_bit 15 b1;
         p = p\<lparr>hipass_out1 := drop_bit 15 ((i0 - hipass_inp1 p) * 0x7FF6 + hipass_out1 p * 0x7FEB)\<rparr>;
         p = p\<lparr>hipass_inp1 := i0\<rparr>;
         i0 = hipass_out1 p;
         (x0, x1) = btw_x p; (y0, y1) = btw_y p;
         o0 = drop_bit 15 (a0 * i0 + a1 * x0 + a2 * x1 - b0 * y0 - b1 * y1)
     in (to_s32 o0, p\<lparr>btw_x := (i0, x0), btw_y := (o0, y0)\<rparr>))"

fun filter_list :: "(int \<Rightarrow> puls \<Rightarrow> int \<times> puls) \<Rightarrow> int list \<Rightarrow> puls \<Rightarrow> int list \<times> puls" where
  "filter_list f [] p = ([], p)"
| "filter_list f (x # xs) p =
    (let (y, p) = f x p; (ys, p) = filter_list f xs p in (y # ys, p))"

definition filter_mixed :: "ym \<Rightarrow> int list \<Rightarrow> (int list \<times> ym) option" where
  "filter_mixed ym out =
    (if 0 < length out div 4 then
       let (ys, p) = filter_list (pole1 0x1a9c 0x7FD7 0x7FAE) (boxcar4 (YMOUT ym) out) (ym_puls ym)
       in Option.bind (resampling ys (drop_bit (3 + 2) (ym_clock ym)) (ym_hz ym)) (\<lambda>o'. Some (o', ym\<lparr>ym_puls := p\<rparr>))
     else Some (out, ym))"

definition filter_1pole :: "ym \<Rightarrow> int list \<Rightarrow> (int list \<times> ym) option" where
  "filter_1pole ym out =
    (if out \<noteq> [] then
       let (ys, p) = filter_list (pole1 0x7408 0x7FF6 0x7FEB) (map (YMOUT ym) out) (ym_puls ym)
       in Option.bind (resampling ys (drop_bit (3 + 0) (ym_clock ym)) (ym_hz ym)) (\<lambda>o'. Some (o', ym\<lparr>ym_puls := p\<rparr>))
     else Some (out, ym))"

definition filter_2pole :: "ym \<Rightarrow> int list \<Rightarrow> (int list \<times> ym) option" where
  "filter_2pole ym out =
    (if out \<noteq> [] then
       let (ys, p) = filter_list pole2 (map (YMOUT ym) out) (ym_puls ym)
       in Option.bind (resampling ys (drop_bit 3 (ym_clock ym)) (ym_hz ym)) (\<lambda>o'. Some (o', ym\<lparr>ym_puls := p\<rparr>))
     else Some (out, ym))"

definition puls_filter :: "nat \<Rightarrow> ym \<Rightarrow> int list \<Rightarrow> (int list \<times> ym) option" where
  "puls_filter i =
    [filter_2pole, filter_mixed, filter_1pole, filter_boxcar, filter_none, \<lambda>ym out. Some (out, ym)] ! i"

definition puls_run :: "ym \<Rightarrow> int68 \<Rightarrow> (int list \<times> ym) option" where
  "puls_run ym ymcycles =
    (let (out, ym) = simulation ym ymcycles
     in Option.bind (puls_filter (ifilter (ym_puls ym)) ym out) (\<lambda>(out, ym). Some (out, ym\<lparr>ym_events := []\<rparr>)))"

definition puls_buffersize :: "int68 \<Rightarrow> int68" where
  "puls_buffersize ymcycles = drop_bit 3 (ymcycles + 7)"

section \<open>The generators stay in range\<close>

text \<open>
  The invariant of the generators.  The noise register holds the output bit below a shift
  register of 17 bits which is never null; the envelope index is inside its waveform, or is one
  before it and about to move.
\<close>

definition puls_ok :: "puls \<Rightarrow> bool" where
  "puls_ok p \<longleftrightarrow> 2 \<le> noise_bit p \<and> noise_bit p < 2 ^ 18 \<and> 0 \<le> levels p \<and> levels p < 2 ^ 15 \<and>
     -1 \<le> envel_idx p \<and> envel_idx p < 96 \<and> (envel_idx p = -1 \<longrightarrow> envel_ct p \<le> 1)"

lemma puls_reset_ok: "puls_ok (puls_reset p)"
  by (simp add: puls_ok_def puls_reset_def)

lemma noise_shift:
  assumes "2 \<le> n" "n < 2 ^ 18"
  shows "2 \<le> drop_bit 1 n XOR (- (drop_bit 1 n AND 1) AND 0x24000)"
    and "drop_bit 1 n XOR (- (drop_bit 1 n AND 1) AND 0x24000) < (2 :: int) ^ 18"
proof -
  define x where "x = drop_bit 1 n"
  have x: "1 \<le> x" "x < 2 ^ 17" using assms by (simp_all add: x_def drop_bit_eq_div)
  have "2 \<le> x XOR (- (x AND 1) AND 0x24000) \<and> x XOR (- (x AND 1) AND 0x24000) < 2 ^ 18"
  proof (cases "even x")
    case True
    then have "x AND 1 = 0" by (simp add: and_one_eq)
    moreover have "2 \<le> x" using True x by (cases "x = 1") auto
    ultimately show ?thesis using x by simp
  next
    case False
    then have o: "x AND 1 = 1" by (simp add: and_one_eq odd_iff_mod_2_eq_one)
    have u: "0 \<le> x XOR 0x24000" "x XOR 0x24000 < 2 ^ 18"
      using x XOR_upper [of x 18 "0x24000"] by simp_all
    have "2 \<le> x XOR 0x24000"
    proof (rule ccontr)
      assume "\<not> 2 \<le> x XOR 0x24000"
      then have "x XOR 0x24000 = 0 \<or> x XOR 0x24000 = 1" using u by linarith
      moreover have "x = (x XOR 0x24000) XOR 0x24000" by (simp add: xor.assoc)
      ultimately have "x = 0x24000 \<or> x = 0x24001" by auto
      then show False using x by auto
    qed
    then show ?thesis using u unfolding o by simp
  qed
  then show "2 \<le> drop_bit 1 n XOR (- (drop_bit 1 n AND 1) AND 0x24000)"
    "drop_bit 1 n XOR (- (drop_bit 1 n AND 1) AND 0x24000) < 2 ^ 18"
    by (simp_all add: x_def)
qed

lemma levels_xor:
  "0 \<le> l \<Longrightarrow> l < 2 ^ 15 \<Longrightarrow> m \<in> {YM_OUT_MSK_A, YM_OUT_MSK_B, YM_OUT_MSK_C} \<Longrightarrow>
    0 \<le> l XOR m \<and> l XOR m < (2 :: int) ^ 15"
  using XOR_upper [of l 15 m] by (auto simp: YM_OUT_MSK_A_def YM_OUT_MSK_B_def YM_OUT_MSK_C_def)

lemma turn_noise_ok:
  "puls_ok p \<Longrightarrow> turn_noise r (p, nbit) = (p', nbit') \<Longrightarrow>
    puls_ok p' \<and> envel_idx p' = envel_idx p \<and> envel_ct p' = envel_ct p"
  using noise_shift [of "noise_bit p"]
  by (auto simp: turn_noise_def puls_ok_def Let_def split: if_splits)

lemma turn_envel_ok: "puls_ok p \<Longrightarrow> puls_ok (turn_envel r p) \<and> 0 \<le> envel_idx (turn_envel r p)"
  by (auto simp: turn_envel_def puls_ok_def Let_def)

lemma turn_voices_frame:
  "noise_bit (turn_voices r p) = noise_bit p" "envel_idx (turn_voices r p) = envel_idx p"
  "envel_ct (turn_voices r p) = envel_ct p"
  by (simp_all add: turn_voices_def Let_def)

lemma turn_voices_levels:
  assumes "0 \<le> levels p" "levels p < 2 ^ 15"
  shows "0 \<le> levels (turn_voices r p) \<and> levels (turn_voices r p) < 2 ^ 15"
proof -
  let ?x = "\<lambda>c m l. if c then l XOR m else (l :: int)"
  have x: "0 \<le> ?x c m l \<and> ?x c m l < 2 ^ 15"
    if "0 \<le> l \<and> l < 2 ^ 15" "m \<in> {YM_OUT_MSK_A, YM_OUT_MSK_B, YM_OUT_MSK_C}" for c m l
    using that levels_xor [of l m] by auto
  have "levels (turn_voices r p) = ?x (voice_ctC p - 1 \<le> 0) YM_OUT_MSK_C
      (?x (voice_ctB p - 1 \<le> 0) YM_OUT_MSK_B (?x (voice_ctA p - 1 \<le> 0) YM_OUT_MSK_A (levels p)))"
    by (simp add: turn_voices_def Let_def)
  also have "0 \<le> \<dots> \<and> \<dots> < 2 ^ 15"
    by (intro x) (use assms in simp_all)
  finally show ?thesis .
qed

lemma gen_turn_ok:
  assumes "puls_ok p" "0 \<le> mute" "gen_turn r mute (p, nbit) = (sq, p', nbit')"
  shows "puls_ok p'" and "0 \<le> sq" and "sq \<le> mute" and "0 \<le> envel_idx p'"
proof -
  obtain p1 n1 where n: "turn_noise r (p, nbit) = (p1, n1)" by (cases "turn_noise r (p, nbit)")
  note p1 = turn_noise_ok [OF assms(1) n]
  define p2 where "p2 = turn_envel r p1"
  have p2: "puls_ok p2" "0 \<le> envel_idx p2"
    using turn_envel_ok [OF conjunct1 [OF p1], of r] by (simp_all add: p2_def)
  have p3: "puls_ok (turn_voices r p2)" "envel_idx (turn_voices r p2) = envel_idx p2"
    using p2(1) turn_voices_levels [of p2 r] by (simp_all add: puls_ok_def turn_voices_frame)
  have "\<exists>x. sq = x AND mute" and e: "p' = turn_voices r p2"
    using assms(3) by (auto simp: gen_turn_def n p2_def split_beta Let_def)
  then show "0 \<le> sq" "sq \<le> mute" using assms(2) by auto
  show "puls_ok p'" "0 \<le> envel_idx p'" using p2 p3 by (simp_all add: e)
qed

lemma gen_loop_ok:
  "puls_ok p \<Longrightarrow> 0 \<le> mute \<Longrightarrow> gen_loop n r mute (p, nbit) = (out, p') \<Longrightarrow>
    puls_ok p' \<and> length out = n \<and> (\<forall>x\<in>set out. 0 \<le> x \<and> x \<le> mute)"
proof (induction n arbitrary: p nbit out p')
  case (Suc n)
  obtain sq q nb where t: "gen_turn r mute (p, nbit) = (sq, q, nb)" by (cases "gen_turn r mute (p, nbit)")
  obtain o' q' where l: "gen_loop n r mute (q, nb) = (o', q')" by (cases "gen_loop n r mute (q, nb)")
  note k = gen_turn_ok [OF Suc.prems(1,2) t]
  show ?case
    using Suc.IH [OF k(1) Suc.prems(2) l] Suc.prems(3) k t l by auto
qed simp

lemma generator_ok:
  assumes "puls_ok (ym_puls ym)" "generator ym n = (out, rem, ym')"
  shows "puls_ok (ym_puls ym') \<and> (\<forall>x\<in>set out. 0 \<le> x \<and> x \<le> int (voice_mute ym)) \<and>
    voice_mute ym' = voice_mute ym"
proof (cases "signed_drop_bit 3 n = 0")
  case True
  then show ?thesis using assms by (simp add: generator_def Let_def)
next
  case False
  obtain o1 p1 where l: "gen_loop (unat (signed_drop_bit 3 n)) (ym_reg ym) (int (voice_mute ym))
      (ym_puls ym, - (noise_bit (ym_puls ym) AND 1)) = (o1, p1)" by fastforce
  have "out = o1" "ym' = ym\<lparr>ym_puls := p1\<rparr>"
    using assms(2) False by (simp_all add: generator_def Let_def l)
  then show ?thesis using gen_loop_ok [OF assms(1) _ l] by simp
qed

lemma puls_setreg_ok:
  "puls_ok (ym_puls ym) \<Longrightarrow> puls_ok (ym_puls (puls_setreg e ym))"
  "voice_mute (puls_setreg e ym) = voice_mute ym"
  by (simp_all add: puls_setreg_def puls_ok_def Let_def)

lemma puls_event_ok:
  assumes "puls_ok (ym_puls ym)" "\<forall>x\<in>set out. 0 \<le> x \<and> x \<le> int (voice_mute ym)"
    "puls_event e (ym, l, out) = (ym', l', out')"
  shows "puls_ok (ym_puls ym') \<and> (\<forall>x\<in>set out'. 0 \<le> x \<and> x \<le> int (voice_mute ym')) \<and>
    voice_mute ym' = voice_mute ym"
proof -
  obtain o1 r1 ym1 where g: "generator ym (ucast (ev_ymcycle e - l)) = (o1, r1, ym1)"
    by (cases "generator ym (ucast (ev_ymcycle e - l))")
  note k = generator_ok [OF assms(1) g]
  have "(\<exists>l. (ym', l', out') = (puls_setreg e ym1, l, out @ o1)) \<or> (ym', l', out') = (puls_setreg e ym, l, out)"
    using assms(3) by (auto simp: puls_event_def g Let_def split: if_splits)
  then show ?thesis
    using assms(1,2) k by (auto simp only: puls_setreg_ok prod.inject set_append Un_iff)
qed

lemma fold_puls_event_ok:
  "puls_ok (ym_puls ym) \<Longrightarrow> \<forall>x\<in>set out. 0 \<le> x \<and> x \<le> int (voice_mute ym) \<Longrightarrow>
    fold puls_event es (ym, l, out) = (ym', l', out') \<Longrightarrow>
    puls_ok (ym_puls ym') \<and> (\<forall>x\<in>set out'. 0 \<le> x \<and> x \<le> int (voice_mute ym')) \<and>
    voice_mute ym' = voice_mute ym"
proof (induction es arbitrary: ym l out)
  case (Cons e es)
  obtain y1 l1 o1 where p: "puls_event e (ym, l, out) = (y1, l1, o1)" by (cases "puls_event e (ym, l, out)")
  note k = puls_event_ok [OF Cons.prems(1,2) p]
  have f: "fold puls_event es (y1, l1, o1) = (ym', l', out')" using Cons.prems(3) p by simp
  have "\<forall>x\<in>set o1. 0 \<le> x \<and> x \<le> int (voice_mute y1)" using k by blast
  from Cons.IH [OF conjunct1 [OF k] this f] show ?case using k by auto
qed simp

text \<open>A whole pass: every sample is an index of the volume table.\<close>

lemma simulation_ok:
  assumes "puls_ok (ym_puls ym)" "voice_mute ym < 2 ^ 15" "simulation ym n = (out, ym')"
  shows "puls_ok (ym_puls ym')" and "x \<in> set out \<Longrightarrow> 0 \<le> x \<and> x < 2 ^ 15"
proof -
  obtain y1 l1 o1 where f: "fold puls_event (ym_events ym) (ym, 0, []) = (y1, l1, o1)"
    by (cases "fold puls_event (ym_events ym) (ym, 0, [])")
  obtain o2 r2 y2 where g: "generator y1 (ucast (n - l1)) = (o2, r2, y2)"
    by (cases "generator y1 (ucast (n - l1))")
  have k1: "puls_ok (ym_puls y1) \<and> (\<forall>x\<in>set o1. 0 \<le> x \<and> x \<le> int (voice_mute y1)) \<and> voice_mute y1 = voice_mute ym"
    by (rule fold_puls_event_ok [OF assms(1) _ f]) simp
  note k2 = generator_ok [OF conjunct1 [OF k1] g]
  have e: "n \<noteq> 0 \<Longrightarrow> out = o1 @ o2 \<and> ym' = y2" "n = 0 \<Longrightarrow> out = [] \<and> ym' = ym"
    using assms(3) by (auto simp: simulation_def f g Let_def)
  show "puls_ok (ym_puls ym')" using e k1 k2 assms(1) by (cases "n = 0") auto
  show "x \<in> set out \<Longrightarrow> 0 \<le> x \<and> x < 2 ^ 15"
    using e k1 k2 assms(2) by (cases "n = 0") force+
qed

section \<open>Resampling in place\<close>

definition rs_value :: "nat \<Rightarrow> nat \<Rightarrow> int list \<Rightarrow> nat \<Rightarrow> int" where
  "rs_value stp sh src k = ym_clip (REVOL (src ! drop_bit sh (k * stp)))"

definition rs_state :: "nat \<Rightarrow> nat \<Rightarrow> int list \<Rightarrow> nat \<Rightarrow> nat \<times> nat \<times> int list" where
  "rs_state stp sh src k = (k, k * stp, map (rs_value stp sh src) [0..<k] @ drop k src)"

lemma fwd_turn_state:
  assumes "2 ^ sh \<le> stp" "drop_bit sh (k * stp) < length src"
  shows "fwd_turn stp sh (rs_state stp sh src k) = rs_state stp sh src (Suc k)"
proof -
  have "k * 2 ^ sh \<le> k * stp" using assms(1) by simp
  then have "k * 2 ^ sh div 2 ^ sh \<le> k * stp div 2 ^ sh" by (rule div_le_mono)
  then have i: "k \<le> drop_bit sh (k * stp)" by (simp add: drop_bit_eq_div)
  then have k: "k < length src" using assms(2) by simp
  have r: "(map (rs_value stp sh src) [0..<k] @ drop k src) ! drop_bit sh (k * stp) = src ! drop_bit sh (k * stp)"
    using i assms(2) by (simp add: nth_append)
  have d: "drop k src = src ! k # drop (Suc k) src" using k by (simp add: Cons_nth_drop_Suc)
  have u: "(map f [0..<k] @ drop k src)[k := v] = (map f [0..<k] @ [v]) @ drop (Suc k) src" for f v
    unfolding d by (simp add: list_update_append)
  show ?thesis
    unfolding fwd_turn_def rs_state_def prod.case r u
    by (simp add: rs_value_def)
qed

lemma resample_fwd_eq:
  assumes "2 ^ sh \<le> stp" "0 < end" "end \<le> push_bit sh (length src)"
  shows "resample_fwd stp sh end src =
    Some (map (rs_value stp sh src) [0..<(end + stp - 1) div stp])"
proof -
  define c where "c = (end + stp - 1) div stp"
  have s: "0 < stp" using assms(1) by (metis less_le_trans zero_less_numeral zero_less_power)
  have c: "k * stp < end \<longleftrightarrow> k < c" for k
  proof -
    have "k < c \<longleftrightarrow> Suc k \<le> (end + stp - 1) div stp" by (simp add: c_def Suc_le_eq)
    also have "\<dots> \<longleftrightarrow> Suc k * stp \<le> end + stp - 1" using s by (simp add: less_eq_div_iff_mult_less_eq)
    also have "\<dots> \<longleftrightarrow> k * stp < end" using s by auto
    finally show ?thesis by simp
  qed
  have len: "drop_bit sh (k * stp) < length src" if "k < c" for k
  proof -
    have "k * stp < length src * 2 ^ sh" using that c [of k] assms(3) by (simp add: push_bit_eq_mult)
    then show ?thesis by (simp add: drop_bit_eq_div less_mult_imp_div_less)
  qed
  let ?P = "\<lambda>(k :: nat, idx, buf :: int list). idx < end"
  have w: "k \<le> c \<Longrightarrow> while_option ?P (fwd_turn stp sh) (rs_state stp sh src k) = Some (rs_state stp sh src c)" for k
  proof (induction "c - k" arbitrary: k)
    case 0
    then have "k = c" by simp
    moreover have "\<not> ?P (rs_state stp sh src c)" using c [of c] by (simp add: rs_state_def)
    ultimately show ?case by (subst while_option_unfold) simp
  next
    case (Suc n)
    then have k: "k < c" by simp
    then have "?P (rs_state stp sh src k)" using c [of k] by (simp add: rs_state_def)
    then show ?case
      using Suc.hyps(1) [of "Suc k"] Suc.hyps(2) k fwd_turn_state [OF assms(1) len [OF k]]
      by (subst while_option_unfold) simp
  qed
  have c0: "0 < c" using c [of 0] assms(2) by simp
  have z: "(0, 0, src) = rs_state stp sh src 0" by (simp add: rs_state_def)
  have "resample_fwd stp sh end src = map_option (\<lambda>(k, idx, buf). take k buf) (Some (rs_state stp sh src c))"
    unfolding resample_fwd_def z fwd_turn_state [OF assms(1) len [OF c0]]
    using w [of "Suc 0"] c0 by simp
  then show ?thesis by (simp add: rs_state_def c_def)
qed

text \<open>
  Down-sampling in place gives what reading from the original samples gives: sample \<open>k\<close> of the
  output is the one at \<open>k\<close> steps of the input, halved and clipped.
\<close>

lemma resampling_down:
  assumes "src \<noteq> []" "0 < orate" "orate \<le> irate"
  defines "stp \<equiv> 2 ^ 14 * irate div orate"
  shows "resampling src irate orate =
    Some (map (\<lambda>k. ym_clip (REVOL (src ! (k * stp div 2 ^ 14)))) [0..<(length src * 2 ^ 14 + stp - 1) div stp])"
proof -
  have n: "0 < length src" using assms(1) by simp
  have s: "2 ^ 14 \<le> stp"
    unfolding stp_def using assms(2,3) by (simp add: less_eq_div_iff_mult_less_eq)
  have p: "push_bit 14 irate div orate = stp" by (simp add: stp_def push_bit_eq_mult mult.commute)
  show ?thesis
  proof (cases "take_bit 14 stp = 0")
    case False
    then show ?thesis
      unfolding resampling_def Let_def p
      using s n resample_fwd_eq [of 14 stp "push_bit 14 (length src)" src]
      by (simp add: rs_value_def push_bit_eq_mult drop_bit_eq_div cong: map_cong)
  next
    case True
    define i where "i = stp div 2 ^ 14"
    have e: "stp = 2 ^ 14 * i" using True by (simp add: i_def take_bit_eq_mod mod_0_imp_dvd)
    have i: "1 \<le> i" using s by (simp add: e)
    have d: "drop_bit 14 stp = i" by (simp add: i_def drop_bit_eq_div)
    have c: "(length src * 2 ^ 14 + stp - 1) div stp = (length src + i - 1) div i"
    proof -
      have "(length src * 2 ^ 14 + stp - 1) div stp = (length src * 2 ^ 14 + stp - 1) div 2 ^ 14 div i"
        by (simp add: e div_mult2_eq)
      moreover have "(length src * 2 ^ 14 + stp - 1) div 2 ^ 14 = length src + i - 1"
      proof -
        have "length src * 2 ^ 14 + stp - 1 = (2 ^ 14 - 1) + (length src + i - 1) * 2 ^ 14"
          using n i by (simp add: e algebra_simps)
        then show ?thesis by simp
      qed
      ultimately show ?thesis by simp
    qed
    have v: "k * stp div 2 ^ 14 = k * i" for k by (simp add: e mult.left_commute)
    show ?thesis
      unfolding resampling_def Let_def p c v
      using True i n d resample_fwd_eq [of 0 i "length src" src]
      by (simp add: rs_value_def cong: map_cong)
  qed
qed

text \<open>Up-sampling never writes the first place: that sample is neither halved nor clipped.\<close>

lemma resample_up_first: "resample_up stp d idx buf ! 0 = buf ! 0"
  by (induction d arbitrary: idx buf) (simp_all add: Let_def)

lemma resample_up_length: "length (resample_up stp d idx buf) = length buf"
  by (induction d arbitrary: idx buf) (simp_all add: Let_def)

lemma resampling_up_first:
  assumes "src \<noteq> []" "0 < irate" "irate < orate" "2 ^ 14 * irate div orate \<noteq> 0"
  shows "\<exists>out. resampling src irate orate = Some out \<and> out ! 0 = src ! 0 \<and>
    length out = (length src * orate + irate - 1) div irate"
proof -
  let ?n = "length src" and ?m = "(length src * orate + irate - 1) div irate"
  have n: "0 < ?n" using assms(1) by simp
  have s: "2 ^ 14 * irate div orate < 2 ^ 14"
    using assms(3) by (simp add: div_less_iff_less_mult)
  then have t: "take_bit 14 (push_bit 14 irate div orate) \<noteq> 0" "\<not> 2 ^ 14 \<le> push_bit 14 irate div orate"
    using assms(4) by (simp_all add: push_bit_eq_mult mult.commute take_bit_nat_eq_self)
  have "?n * irate \<le> ?n * orate + irate - 1" 
  proof -
    have "?n * irate \<le> ?n * orate" using assms(3) by simp
    then show ?thesis using assms(2) by linarith
  qed
  then have m: "?n \<le> ?m" using assms(2) by (simp add: less_eq_div_iff_mult_less_eq)
  have "resampling src irate orate =
      Some (resample_up (push_bit 14 irate div orate) (?m - 1) (push_bit 14 ?n) (src @ replicate (?m - ?n) 0))"
    using t by (simp add: resampling_def Let_def)
  then show ?thesis
    using n m by (simp add: resample_up_first resample_up_length nth_append)
qed

end
