(* ===== verification/YmBlep68.thy ===== *)
theory YmBlep68
  imports Ym68
begin

text \<open>
  The blep engine of the YM-2149, \<open>io68/ym_blep.c\<close>, the default one: the generators are clocked
  from event to event, every change of the output level starts a band limited step, and a
  sample is the sum of the steps still alive.

  \<open>ym2149_clock\<close>, the sum over the steps and \<open>mix_to_buffer\<close> are loops of the source that go on
  until something happens; they are partial functions, \<open>None\<close> when it never does.

  Lemmas: the invariant of the counters; clocking returns, and clocking in one go is the same as
  clocking in two, so the jumps from event to event skip nothing; the sum over the steps returns
  and stays inside the table of the step; mixing returns.
\<close>

unbundle bit_operations_syntax

section \<open>Tables\<close>

definition BLEP_SIZE :: nat where "BLEP_SIZE = 1280"
definition MAX_BLEPS :: nat where "MAX_BLEPS = 256"

definition sine_integral :: "int list" where
  "sine_integral =
    [65536, 65536, 65536, 65536, 65536, 65536, 65535, 65536, 65536, 65535, 65536, 65535, 65536,
    65535, 65535, 65534, 65535, 65534, 65534, 65533, 65533, 65532, 65531, 65530, 65530, 65528,
    65527, 65526, 65524, 65522, 65520, 65517, 65515, 65512, 65508, 65504, 65500, 65495, 65490,
    65483, 65478, 65469, 65462, 65453, 65443, 65432, 65420, 65408, 65393, 65378, 65361, 65343,
    65323, 65301, 65278, 65252, 65226, 65195, 65164, 65129, 65092, 65052, 65010, 64963, 64915,
    64862, 64805, 64746, 64681, 64613, 64540, 64463, 64380, 64293, 64200, 64102, 63998, 63887,
    63770, 63648, 63518, 63380, 63236, 63084, 62924, 62756, 62580, 62394, 62199, 61996, 61783,
    61560, 61327, 61083, 60829, 60563, 60287, 60000, 59699, 59388, 59064, 58727, 58378, 58016,
    57641, 57252, 56850, 56434, 56004, 55560, 55101, 54629, 54141, 53640, 53123, 52591, 52046,
    51485, 50908, 50318, 49713, 49092, 48456, 47807, 47143, 46464, 45771, 45064, 44342, 43609,
    42860, 42099, 41325, 40539, 39740, 38930, 38109, 37276, 36433, 35579, 34718, 33846, 32966,
    32078, 31183, 30282, 29374, 28461, 27544, 26622, 25697, 24769, 23841, 22911, 21980, 21050,
    20122, 19196, 18272, 17354, 16438, 15529, 14626, 13731, 12843, 11964, 11095, 10236, 9390, 8554,
    7733, 6924, 6131, 5353, 4590, 3846, 3118, 2409, 1718, 1048, 397, -232, -841, -1426, -1991,
    -2532, -3050, -3543, -4013, -4459, -4879, -5275, -5646, -5990, -6310, -6605, -6873, -7115,
    -7333, -7525, -7692, -7832, -7950, -8041, -8108, -8152, -8171, -8168, -8142, -8093, -8023,
    -7932, -7820, -7689, -7538, -7369, -7182, -6979, -6759, -6525, -6275, -6013, -5737, -5451,
    -5154, -4846, -4530, -4206, -3876, -3539, -3198, -2853, -2504, -2155, -1803, -1453, -1103,
    -755, -410, -69, 268, 598, 924, 1241, 1550, 1851, 2142, 2423, 2693, 2952, 3198, 3432, 3653,
    3860, 4054, 4232, 4396, 4545, 4678, 4797, 4899, 4986, 5057, 5112, 5150, 5174, 5182, 5174, 5150,
    5112, 5059, 4992, 4910, 4814, 4706, 4584, 4450, 4305, 4148, 3981, 3803, 3617, 3421, 3218, 3007,
    2790, 2566, 2339, 2106, 1870, 1631, 1390, 1147, 905, 662, 421, 180, -57, -291, -522, -747,
    -969, -1183, -1392, -1593, -1788, -1973, -2150, -2319, -2477, -2625, -2764, -2892, -3008,
    -3114, -3208, -3291, -3362, -3420, -3468, -3503, -3526, -3538, -3537, -3525, -3501, -3467,
    -3420, -3364, -3297, -3219, -3132, -3035, -2929, -2815, -2693, -2562, -2425, -2282, -2132,
    -1976, -1817, -1652, -1483, -1313, -1138, -963, -786, -608, -430, -253, -76, 98, 270, 440, 605,
    768, 926, 1078, 1226, 1368, 1503, 1632, 1753, 1868, 1975, 2073, 2164, 2245, 2319, 2384, 2439,
    2486, 2523, 2551, 2571, 2580, 2581, 2573, 2556, 2530, 2496, 2453, 2402, 2344, 2277, 2204, 2123,
    2037, 1943, 1844, 1740, 1630, 1516, 1398, 1276, 1151, 1024, 893, 762, 629, 495, 361, 227, 94,
    -38, -169, -298, -423, -547, -667, -783, -895, -1003, -1106, -1204, -1297, -1383, -1465, -1539,
    -1608, -1670, -1725, -1774, -1815, -1850, -1878, -1898, -1911, -1918, -1917, -1910, -1895,
    -1875, -1846, -1813, -1772, -1726, -1674, -1617, -1553, -1487, -1413, -1338, -1256, -1172,
    -1084, -994, -900, -804, -707, -608, -508, -407, -306, -205, -103, -4, 95, 193, 289, 382, 473,
    562, 647, 729, 808, 881, 953, 1018, 1080, 1137, 1189, 1236, 1277, 1315, 1346, 1372, 1393, 1408,
    1418, 1423, 1422, 1416, 1404, 1388, 1367, 1341, 1309, 1275, 1235, 1190, 1143, 1092, 1036, 978,
    917, 854, 786, 719, 648, 575, 503, 428, 353, 278, 202, 127, 51, -23, -96, -168, -239, -308,
    -375, -440, -502, -561, -618, -672, -723, -770, -814, -853, -891, -922, -952, -976, -997,
    -1014, -1027, -1035, -1039, -1041, -1037, -1029, -1019, -1004, -985, -964, -938, -909, -878,
    -843, -806, -766, -723, -678, -632, -584, -533, -482, -429, -375, -321, -266, -211, -156, -100,
    -45, 9, 62, 115, 167, 217, 266, 312, 359, 401, 442, 482, 518, 552, 583, 612, 639, 661, 682,
    700, 714, 726, 734, 740, 743, 742, 740, 733, 725, 714, 700, 683, 665, 643, 620, 594, 567, 538,
    507, 474, 441, 405, 369, 332, 294, 256, 216, 178, 138, 98, 60, 20, -18, -55, -93, -129, -164,
    -197, -231, -262, -291, -320, -347, -371, -395, -415, -435, -452, -467, -480, -491, -500, -507,
    -512, -515, -515, -513, -510, -505, -497, -489, -477, -464, -451, -434, -417, -398, -379, -357,
    -335, -311, -287, -263, -237, -210, -184, -158, -130, -103, -76, -49, -22, 4, 31, 56, 80, 105,
    128, 151, 172, 192, 212, 230, 247, 263, 277, 291, 302, 312, 321, 329, 334, 339, 343, 344, 344,
    343, 341, 337, 332, 325, 318, 310, 299, 289, 277, 264, 251, 236, 221, 206, 189, 172, 156, 138,
    120, 102, 84, 66, 48, 30, 12, -5, -22, -39, -55, -71, -86, -101, -114, -128, -141, -152, -162,
    -173, -182, -190, -197, -204, -209, -213, -217, -220, -221, -221, -222, -220, -218, -215, -212,
    -206, -202, -195, -189, -182, -173, -165, -156, -146, -136, -126, -115, -104, -93, -82, -71,
    -58, -47, -36, -24, -13, -2, 9, 20, 31, 40, 51, 59, 69, 77, 85, 92, 99, 106, 111, 117, 121,
    125, 129, 131, 134, 135, 137, 137, 136, 136, 134, 133, 130, 128, 124, 120, 117, 111, 107, 101,
    95, 90, 83, 77, 71, 63, 57, 49, 43, 35, 29, 21, 14, 8, 0, -6, -13, -19, -25, -30, -37, -42,
    -47, -51, -56, -60, -64, -67, -70, -73, -75, -77, -78, -79, -81, -81, -80, -81, -80, -79, -77,
    -76, -74, -72, -70, -67, -64, -61, -57, -54, -51, -46, -43, -38, -35, -30, -27, -22, -18, -13,
    -10, -5, -1, 2, 7, 10, 14, 17, 20, 24, 27, 29, 32, 34, 37, 38, 41, 41, 43, 45, 45, 45, 47, 46,
    46, 46, 46, 45, 45, 43, 43, 41, 39, 38, 36, 35, 32, 31, 28, 26, 24, 22, 19, 17, 14, 12, 10, 7,
    5, 2, 1, -2, -5, -6, -8, -10, -12, -14, -16, -17, -18, -20, -20, -22, -23, -24, -24, -25, -25,
    -25, -26, -26, -25, -26, -25, -24, -25, -23, -23, -22, -22, -20, -19, -19, -17, -16, -14, -14,
    -12, -11, -10, -8, -7, -5, -5, -3, -1, -1, 1, 2, 3, 4, 6, 6, 7, 8, 9, 10, 11, 11, 11, 12, 13,
    13, 13, 13, 14, 13, 14, 14, 13, 13, 14, 12, 13, 12, 11, 12, 10, 10, 10, 9, 8, 8, 7, 6, 5, 5, 4,
    4, 3, 2, 1, 1, 0, -1, -1, -2, -2, -3, -4, -3, -5, -5, -5, -5, -6, -6, -6, -7, -6, -7, -7, -7,
    -7, -7, -6, -7, -7, -6, -6, -7, -5, -6, -6, -5, -4, -5, -4, -4, -4, -3, -3, -2, -2, -2, -1, -1,
    -1, 0, 0, 0, 0, 1, 1, 2, 1, 2, 2, 3, 2, 3, 3, 3, 3, 3, 3, 3, 3, 4, 3, 3, 3, 4, 3, 3, 3, 2, 3,
    3, 2, 3, 2, 2, 2, 1, 2, 1, 2, 1, 1, 0, 1, 0, 0, 0, 0, 0, 0, -1, 0, -1, -1, -1, -1, -1, -1, -1,
    -2, -1, -1, -2, -1, -2, -1, -2, -1, -2, -1, -1, -2, -1, -1, -1, -1, -1, -1, -1, -1, -1, -1, 0,
    -1, 0, -1, 0, 0, -1, 0, 0, 0, 0, 0, 1, 0, 0, 1, 0, 0, 1, 0, 1, 0, 1, 1, 0, 1, 0, 1, 0, 1, 1, 0,
    1, 0, 1, 0, 1, 0, 1, 0, 0, 1, 0, 0, 0, 1, 0, 0, 0, 0, 0, 0, 0, 0, 0, 0, 0, 0, -1, 0, 0, 0, 0,
    -1, 0, 0, 0, 0, -1, 0, 0, 0, 0, -1, 0, 0, 0, 0, -1, 0, 0, 0, 0, 0, 0, 0, 0, 0, 0, -1, 0, 0, 0,
    0, 0, 1, 0, 0, 0, 0, 0, 0, 0, 0, 0, 0, 0, 0, 0, 0, 0, 1, 0, 0, 0, 0, 0, 0, 0, 0, 0, 0, 0, 0, 0,
    0, 0, 0, 0, 0, 0, 0, 0, 0, 0, 0, 0, 0, 0, 0, 0, 0, 0, 0, 0, 0, 0, 0, 0, 0, 0, 0, 0, 0]"

section \<open>Output level\<close>

definition put_blep :: "blep \<Rightarrow> ym \<Rightarrow> ym" where
  "put_blep b ym = ym\<lparr>ym_blep := b\<rparr>"

definition dac_channel :: "blep \<Rightarrow> nat \<Rightarrow> u16" where
  "dac_channel b i =
    (let m = tonemix (tonegen b i) OR flip_flop (tonegen b i);
         m = m AND (noisemix (tonegen b i) OR noise_output b)
     in m AND ((env_output b AND envmask (tonegen b i)) OR volmask (tonegen b i)))"

definition ym2149_new_output_level :: "ym \<Rightarrow> ym" where
  "ym2149_new_output_level ym =
    (let b = ym_blep ym;
         dacstate = dac_channel b 0 OR dac_channel b 1 OR dac_channel b 2;
         output = signed_take_bit 15 (drop_bit 1 (ymout5 ym (unat dacstate) + 1))
     in if output \<noteq> global_output_level b then
          let i = (blep_idx b + MAX_BLEPS - 1) mod MAX_BLEPS;
              b = b\<lparr>blep_idx := i\<rparr>;
              b = b\<lparr>blepstate := (blepstate b)(i := \<lparr>bs_stamp = blep_time b,
                    bs_level = signed_take_bit 15 (global_output_level b - output)\<rparr>)\<rparr>
          in put_blep (b\<lparr>global_output_level := output\<rparr>) ym
        else ym)"

section \<open>Clocking the generators\<close>

text \<open>The number of cycles to the next event.\<close>

definition min_count :: "blep \<Rightarrow> int" where
  "min_count b =
    Min {tn_count (tonegen b 0), tn_count (tonegen b 1), tn_count (tonegen b 2), noise_count b, env_count b}"

definition clock_tone :: "int \<Rightarrow> nat \<Rightarrow> blep \<times> bool \<Rightarrow> blep \<times> bool" where
  "clock_tone iter i = (\<lambda>(b, change).
    (let t = tonegen b i;
         t = t\<lparr>tn_count := tn_count t - iter\<rparr>
     in if tn_count t = 0 then
          let t = t\<lparr>flip_flop := NOT (flip_flop t)\<rparr>;
              t = t\<lparr>tn_count := tn_event t\<rparr>
          in (b\<lparr>tonegen := (tonegen b)(i := t)\<rparr>, True)
        else (b\<lparr>tonegen := (tonegen b)(i := t)\<rparr>, change)))"

definition clock_noise :: "int \<Rightarrow> blep \<times> bool \<Rightarrow> blep \<times> bool" where
  "clock_noise iter = (\<lambda>(b, change).
    (let b = b\<lparr>noise_count := noise_count b - iter\<rparr>
     in if noise_count b = 0 then
          let (st, new_noise) =
                (if noise_state b AND 1 \<noteq> 0 then (drop_bit 1 (noise_state b) XOR 0x12000, 0xffff)
                 else (drop_bit 1 (noise_state b), 0));
              b = b\<lparr>noise_state := st\<rparr>;
              b = b\<lparr>noise_count := noise_event b\<rparr>;
              change = (change \<or> noise_output b \<noteq> new_noise)
          in (b\<lparr>noise_output := new_noise\<rparr>, change)
        else (b, change)))"

definition clock_envel :: "nat list \<Rightarrow> int \<Rightarrow> blep \<times> bool \<Rightarrow> blep \<times> bool" where
  "clock_envel waveform iter = (\<lambda>(b, change).
    (let b = b\<lparr>env_count := env_count b - iter\<rparr>
     in if env_count b = 0 then
          let new_env = of_nat (waveform ! env_state b);
              b = b\<lparr>env_state := env_state b + 1\<rparr>;
              b = (if env_state b = 96 then b\<lparr>env_state := 32\<rparr> else b);
              b = b\<lparr>env_count := env_event b\<rparr>;
              change = (change \<or> new_env \<noteq> env_output b)
          in (b\<lparr>env_output := new_env\<rparr>, change)
        else (b, change)))"

definition clock_turn :: "int \<Rightarrow> ym \<Rightarrow> ym" where
  "clock_turn iter ym =
    (let waveform = ym_envelops ! unat (ym_reg ym 13 AND 15);
         b = ym_blep ym;
         b = b\<lparr>blep_time := blep_time b + word_of_int iter\<rparr>;
         (b, change) = clock_envel waveform iter (clock_noise iter
            (clock_tone iter 2 (clock_tone iter 1 (clock_tone iter 0 (b, False)))));
         ym = put_blep b ym
     in if change then ym2149_new_output_level ym else ym)"

partial_function (option) ym2149_clock :: "int \<Rightarrow> ym \<Rightarrow> ym option" where
  "ym2149_clock cycles ym =
    (if cycles = 0 then Some ym
     else let iter = min cycles (min_count (ym_blep ym))
          in ym2149_clock (cycles - iter) (clock_turn iter ym))"

section \<open>Output\<close>

text \<open>The loop over the steps, from the newest; it returns where it stopped and the sum.\<close>

partial_function (option) blep_train :: "blep \<Rightarrow> int \<Rightarrow> nat \<Rightarrow> int \<Rightarrow> (nat \<times> int) option" where
  "blep_train b subsample i output =
    (let age = unat (blep_time b - bs_stamp (blepstate b i))
     in if BLEP_SIZE - 1 \<le> age then Some (i, output)
        else
          blep_train b subsample ((i + 1) mod MAX_BLEPS)
            (output + drop_bit 8 (sine_integral ! age * (256 - subsample)
                                  + sine_integral ! (age + 1) * subsample + 128)
                      * bs_level (blepstate b i)))"

definition stamp_end :: "nat \<Rightarrow> blep \<Rightarrow> blep" where
  "stamp_end i b =
    b\<lparr>blepstate := (blepstate b)(i := (blepstate b i)\<lparr>bs_stamp := blep_time b - of_nat BLEP_SIZE\<rparr>)\<rparr>"

definition ym2149_output :: "ym \<Rightarrow> int \<Rightarrow> (int \<times> ym) option" where
  "ym2149_output ym subsample =
    (let b = ym_blep ym;
         i = blep_idx b;
         b = stamp_end ((i + MAX_BLEPS - 1) mod MAX_BLEPS) b
     in Option.bind (blep_train b subsample i 0) (\<lambda>(i, output).
          Some (drop_bit 16 (output + 2 ^ 15) + global_output_level b, put_blep (stamp_end i b) ym)))"

definition highpass :: "ym \<Rightarrow> int \<Rightarrow> int \<times> ym" where
  "highpass ym output =
    (let b = ym_blep ym;
         b = b\<lparr>hp := drop_bit 9 (hp b * 511 + push_bit 6 output + 2 ^ 8)\<rparr>;
         output = output - drop_bit 6 (hp b + 2 ^ 5);
         output = (if 32767 < output then 32767 else output);
         output = (if output < -32768 then -32768 else output)
     in (output, put_blep b ym))"

partial_function (option) mix_to_buffer :: "nat \<Rightarrow> ym \<Rightarrow> (int list \<times> ym) option" where
  "mix_to_buffer cycles ym =
    (if cycles = 0 then Some ([], ym)
     else
       let next = drop_bit 8 (cycles_to_next_sample (ym_blep ym));
           makesample = next < cycles;
           iter = (if makesample then next else cycles)
       in Option.bind (ym2149_clock (int iter) ym) (\<lambda>ym.
            let b = ym_blep ym;
                ym = put_blep (b\<lparr>cycles_to_next_sample := cycles_to_next_sample b - push_bit 8 iter\<rparr>) ym
            in if makesample then
                 Option.bind (ym2149_output ym (int (take_bit 8 (cycles_to_next_sample (ym_blep ym))))) (\<lambda>(s, ym).
                   let (s, ym) = highpass ym s;
                       b = ym_blep ym;
                       ym = put_blep (b\<lparr>cycles_to_next_sample := cycles_to_next_sample b + cycles_per_sample b\<rparr>) ym
                   in Option.bind (mix_to_buffer (cycles - iter) ym) (\<lambda>(out, ym). Some (s # out, ym)))
               else mix_to_buffer (cycles - iter) ym))"

section \<open>Register writes and the run\<close>

definition new_period :: "int \<Rightarrow> nat \<Rightarrow> int" where
  "new_period v sh = push_bit sh (if v = 0 then 1 else v)"

definition blep_tone_event :: "ym \<Rightarrow> nat \<Rightarrow> ym" where
  "blep_tone_event ym voice =
    (let newevent = new_period (uint (ym_reg ym (2 * voice)) OR
                      push_bit 8 (uint (ym_reg ym (2 * voice + 1)) AND 0x0f)) 3;
         b = ym_blep ym;
         t = tonegen b voice;
         t = t\<lparr>tn_count := tn_count t + (newevent - tn_event t)\<rparr>;
         t = t\<lparr>tn_event := newevent\<rparr>;
         t = (if tn_count t < 0 then t\<lparr>tn_count := 0\<rparr> else t)
     in put_blep (b\<lparr>tonegen := (tonegen b)(voice := t)\<rparr>) ym)"

definition blep_noise_event :: "ym \<Rightarrow> ym" where
  "blep_noise_event ym =
    (let newevent = new_period (uint (ym_reg ym 6) AND 0x1f) 4;
         b = ym_blep ym;
         b = b\<lparr>noise_count := noise_count b + (newevent - noise_event b)\<rparr>;
         b = b\<lparr>noise_event := newevent\<rparr>
     in put_blep (if noise_count b < 0 then b\<lparr>noise_count := 0\<rparr> else b) ym)"

definition blep_mixer :: "u8 \<Rightarrow> ym \<Rightarrow> ym" where
  "blep_mixer v ym =
    (let b = ym_blep ym; m = (\<lambda>k. if bit v k then 0xffff else 0 :: u16);
         tg = (\<lambda>i. if i < 3 then (tonegen b i)\<lparr>tonemix := m i, noisemix := m (i + 3)\<rparr> else tonegen b i)
     in put_blep (b\<lparr>tonegen := tg\<rparr>) ym)"

definition blep_volume :: "u8 \<Rightarrow> nat \<Rightarrow> ym \<Rightarrow> ym" where
  "blep_volume v voice ym =
    (let b = ym_blep ym; t = tonegen b voice;
         t = t\<lparr>envmask := (if v AND 0x10 \<noteq> 0 then push_bit (voice * 5) 0x1f else 0)\<rparr>;
         t = t\<lparr>volmask := (if v AND 0x10 \<noteq> 0 then 0
               else push_bit (voice * 5) (push_bit 1 (ucast v AND 0xf) OR 1))\<rparr>
     in put_blep (b\<lparr>tonegen := (tonegen b)(voice := t)\<rparr>) ym)"

definition blep_env_event :: "ym \<Rightarrow> ym" where
  "blep_env_event ym =
    (let newevent = new_period (uint (ym_reg ym 11) OR push_bit 8 (uint (ym_reg ym 12))) 3;
         b = ym_blep ym;
         b = b\<lparr>env_count := env_count b + (newevent - env_event b)\<rparr>;
         b = b\<lparr>env_event := newevent\<rparr>
     in put_blep (if env_count b < 0 then b\<lparr>env_count := 0\<rparr> else b) ym)"

definition blep_setreg :: "ym_event \<Rightarrow> ym \<Rightarrow> ym" where
  "blep_setreg e ym =
    (let ym = ym\<lparr>ym_reg := (ym_reg ym)(ev_reg e := ev_val e)\<rparr>;
         ym =
           (if ev_reg e \<le> 5 then blep_tone_event ym (ev_reg e div 2)
            else if ev_reg e = 6 then blep_noise_event ym
            else if ev_reg e = 7 then blep_mixer (ev_val e) ym
            else if ev_reg e \<le> 10 then blep_volume (ev_val e) (ev_reg e - 8) ym
            else if ev_reg e \<le> 12 then blep_env_event ym
            else if ev_reg e = 13 then put_blep ((ym_blep ym)\<lparr>env_state := 0\<rparr>) ym
            else ym)
     in ym2149_new_output_level ym)"

fun blep_events :: "ym_event list \<Rightarrow> int68 \<Rightarrow> ym \<Rightarrow> (int list \<times> int68 \<times> ym) option" where
  "blep_events [] currcycle ym = Some ([], currcycle, ym)"
| "blep_events (e # es) currcycle ym =
    Option.bind (mix_to_buffer (unat (ev_ymcycle e - currcycle)) ym) (\<lambda>(out, ym).
      Option.bind (blep_events es (ev_ymcycle e) (blep_setreg e ym)) (\<lambda>(out', r).
        Some (out @ out', r)))"

definition blep_run :: "ym \<Rightarrow> int68 \<Rightarrow> (int list \<times> ym) option" where
  "blep_run ym ymcycles =
    Option.bind (blep_events (ym_events ym) 0 ym) (\<lambda>(out, currcycle, ym).
      let ym = ym\<lparr>ym_events := []\<rparr>
      in Option.bind (mix_to_buffer (unat (ymcycles - currcycle)) ym) (\<lambda>(out', ym).
           Some (out @ out', ym)))"

definition blep_zero :: blep where
  "blep_zero =
    \<lparr>cycles_per_sample = 0, cycles_to_next_sample = 0,
      tonegen = (\<lambda>_. \<lparr>tn_count = 0, tn_event = 0, flip_flop = 0, tonemix = 0, noisemix = 0, envmask = 0, volmask = 0\<rparr>),
      noise_event = 0, noise_count = 0, noise_state = 0, noise_output = 0,
      env_event = 0, env_count = 0, env_state = 0, env_output = 0,
      global_output_level = 0, blep_idx = 0, blep_time = 0, hp = 0,
      blepstate = (\<lambda>_. \<lparr>bs_stamp = 0, bs_level = 0\<rparr>)\<rparr>"

definition blep_reset :: "blep \<Rightarrow> blep" where
  "blep_reset b =
    blep_zero\<lparr>cycles_per_sample := cycles_per_sample b, noise_state := 1, blep_time := of_nat BLEP_SIZE,
      tonegen := (\<lambda>i. if i < 3 then (tonegen blep_zero i)\<lparr>tn_event := 8\<rparr> else tonegen blep_zero i),
      noise_event := 16, env_event := 8\<rparr>"

definition MAX_MIXBUF :: int68 where "MAX_MIXBUF = 2048"

definition blep_sampling_rate :: "ym \<Rightarrow> nat \<Rightarrow> nat \<times> ym" where
  "blep_sampling_rate ym hz =
    (hz, put_blep ((ym_blep ym)\<lparr>cycles_per_sample := push_bit 8 (ym_clock ym) div hz\<rparr>) ym)"

section \<open>The invariant of the counters\<close>

definition blep_ok :: "blep \<Rightarrow> bool" where
  "blep_ok b \<longleftrightarrow> (\<forall>i<3. 0 \<le> tn_count (tonegen b i) \<and> 8 \<le> tn_event (tonegen b i)) \<and>
     0 \<le> noise_count b \<and> 16 \<le> noise_event b \<and> 0 \<le> env_count b \<and> 8 \<le> env_event b \<and> env_state b < 96"

lemma put_blep_fields [simp]:
  "ym_blep (put_blep b ym) = b" "ym_reg (put_blep b ym) = ym_reg ym" "ymout5 (put_blep b ym) = ymout5 ym"
  "put_blep c (put_blep b ym) = put_blep c ym" "ym_events (put_blep b ym) = ym_events ym"
  by (simp_all add: put_blep_def)

lemma three: "i < 3 \<Longrightarrow> i = 0 \<or> i = 1 \<or> i = (2 :: nat)"
  by linarith

lemma blep_ok_alt:
  "blep_ok b \<longleftrightarrow>
     0 \<le> tn_count (tonegen b 0) \<and> 8 \<le> tn_event (tonegen b 0) \<and>
     0 \<le> tn_count (tonegen b 1) \<and> 8 \<le> tn_event (tonegen b 1) \<and>
     0 \<le> tn_count (tonegen b 2) \<and> 8 \<le> tn_event (tonegen b 2) \<and>
     0 \<le> noise_count b \<and> 16 \<le> noise_event b \<and> 0 \<le> env_count b \<and> 8 \<le> env_event b \<and> env_state b < 96"
  unfolding blep_ok_def by (auto dest!: three)

lemma min_count_le:
  "k \<le> min_count b \<longleftrightarrow> k \<le> tn_count (tonegen b 0) \<and> k \<le> tn_count (tonegen b 1) \<and>
    k \<le> tn_count (tonegen b 2) \<and> k \<le> noise_count b \<and> k \<le> env_count b"
  by (simp add: min_count_def)

lemma new_level_fields:
  "tonegen (ym_blep (ym2149_new_output_level ym)) = tonegen (ym_blep ym)"
  "noise_count (ym_blep (ym2149_new_output_level ym)) = noise_count (ym_blep ym)"
  "noise_event (ym_blep (ym2149_new_output_level ym)) = noise_event (ym_blep ym)"
  "env_count (ym_blep (ym2149_new_output_level ym)) = env_count (ym_blep ym)"
  "env_event (ym_blep (ym2149_new_output_level ym)) = env_event (ym_blep ym)"
  "env_state (ym_blep (ym2149_new_output_level ym)) = env_state (ym_blep ym)"
  "cycles_to_next_sample (ym_blep (ym2149_new_output_level ym)) = cycles_to_next_sample (ym_blep ym)"
  "cycles_per_sample (ym_blep (ym2149_new_output_level ym)) = cycles_per_sample (ym_blep ym)"
  "blep_time (ym_blep (ym2149_new_output_level ym)) = blep_time (ym_blep ym)"
  "ym_reg (ym2149_new_output_level ym) = ym_reg ym"
  by (simp_all add: ym2149_new_output_level_def Let_def)

lemma new_level_ok: "blep_ok (ym_blep (ym2149_new_output_level ym)) = blep_ok (ym_blep ym)"
  by (simp add: blep_ok_def new_level_fields)

text \<open>What a turn does to the counters: they all move by \<open>iter\<close>, and restart when they are null.\<close>

definition restart :: "int \<Rightarrow> int \<Rightarrow> int" where
  "restart ev c = (if c = 0 then ev else c)"

lemma clock_parts:
  fixes b :: blep and k :: int and w :: "nat list" and ch :: bool
  defines "c \<equiv> fst (clock_envel w k (clock_noise k (clock_tone k 2 (clock_tone k 1 (clock_tone k 0 (b, ch))))))"
  shows "tn_count (tonegen c 0) = restart (tn_event (tonegen b 0)) (tn_count (tonegen b 0) - k)"
    and "tn_count (tonegen c 1) = restart (tn_event (tonegen b 1)) (tn_count (tonegen b 1) - k)"
    and "tn_count (tonegen c 2) = restart (tn_event (tonegen b 2)) (tn_count (tonegen b 2) - k)"
    and "tn_event (tonegen c i) = tn_event (tonegen b i)"
    and "noise_count c = restart (noise_event b) (noise_count b - k)"
    and "env_count c = restart (env_event b) (env_count b - k)"
    and "noise_event c = noise_event b" and "env_event c = env_event b"
    and "env_state b < 96 \<Longrightarrow> env_state c < 96"
    and "cycles_to_next_sample c = cycles_to_next_sample b"
    and "cycles_per_sample c = cycles_per_sample b" and "blep_time c = blep_time b"
proof -
  define t where "t = (\<lambda>i b. fst (clock_tone k i (b, False)))"
  define n where "n = (\<lambda>b. fst (clock_noise k (b, False)))"
  define e where "e = (\<lambda>b. fst (clock_envel w k (b, False)))"
  have c: "c = e (n (t 2 (t 1 (t 0 b))))"
  proof -
    have "fst (clock_tone k i x) = t i (fst x)" for i x
      by (cases x) (simp add: t_def clock_tone_def Let_def)
    moreover have "fst (clock_noise k x) = n (fst x)" for x
      by (cases x) (simp add: n_def clock_noise_def Let_def)
    moreover have "fst (clock_envel w k x) = e (fst x)" for x
      by (cases x) (simp add: e_def clock_envel_def Let_def)
    ultimately show ?thesis by (simp add: c_def)
  qed
  have tt: "tn_count (tonegen (t i b) j) = (if j = i then restart (tn_event (tonegen b i)) (tn_count (tonegen b i) - k)
      else tn_count (tonegen b j))" "tn_event (tonegen (t i b) j) = tn_event (tonegen b j)" for i j b
    by (auto simp: t_def clock_tone_def Let_def restart_def)
  have tn: "noise_count (t i b) = noise_count b" "noise_event (t i b) = noise_event b" "env_count (t i b) = env_count b"
    "env_event (t i b) = env_event b" "env_state (t i b) = env_state b" "blep_time (t i b) = blep_time b"
    "cycles_to_next_sample (t i b) = cycles_to_next_sample b" "cycles_per_sample (t i b) = cycles_per_sample b" for i b
    by (simp_all add: t_def clock_tone_def Let_def)
  have nn: "tonegen (n b) = tonegen b" "noise_count (n b) = restart (noise_event b) (noise_count b - k)"
    "noise_event (n b) = noise_event b" "env_count (n b) = env_count b" "env_event (n b) = env_event b"
    "env_state (n b) = env_state b" "blep_time (n b) = blep_time b"
    "cycles_to_next_sample (n b) = cycles_to_next_sample b" "cycles_per_sample (n b) = cycles_per_sample b" for b
    by (simp_all add: n_def clock_noise_def Let_def restart_def)
  have ee: "tonegen (e b) = tonegen b" "noise_count (e b) = noise_count b" "noise_event (e b) = noise_event b"
    "env_count (e b) = restart (env_event b) (env_count b - k)" "env_event (e b) = env_event b"
    "env_state b < 96 \<Longrightarrow> env_state (e b) < 96" "blep_time (e b) = blep_time b"
    "cycles_to_next_sample (e b) = cycles_to_next_sample b" "cycles_per_sample (e b) = cycles_per_sample b" for b
    by (simp_all add: e_def clock_envel_def Let_def restart_def)
  show "tn_count (tonegen c 0) = restart (tn_event (tonegen b 0)) (tn_count (tonegen b 0) - k)"
    "tn_count (tonegen c 1) = restart (tn_event (tonegen b 1)) (tn_count (tonegen b 1) - k)"
    "tn_count (tonegen c 2) = restart (tn_event (tonegen b 2)) (tn_count (tonegen b 2) - k)"
    "tn_event (tonegen c i) = tn_event (tonegen b i)"
    "noise_count c = restart (noise_event b) (noise_count b - k)"
    "env_count c = restart (env_event b) (env_count b - k)"
    "noise_event c = noise_event b" "env_event c = env_event b"
    "env_state b < 96 \<Longrightarrow> env_state c < 96"
    "cycles_to_next_sample c = cycles_to_next_sample b"
    "cycles_per_sample c = cycles_per_sample b" "blep_time c = blep_time b"
    by (simp_all add: c tt tn nn ee)
qed

lemma clock_turn_ok:
  assumes "blep_ok (ym_blep ym)" "0 \<le> iter" "iter \<le> min_count (ym_blep ym)"
  shows "blep_ok (ym_blep (clock_turn iter ym))" and "0 < min_count (ym_blep (clock_turn iter ym))"
    and "ym_reg (clock_turn iter ym) = ym_reg ym"
    and "cycles_to_next_sample (ym_blep (clock_turn iter ym)) = cycles_to_next_sample (ym_blep ym)"
    and "cycles_per_sample (ym_blep (clock_turn iter ym)) = cycles_per_sample (ym_blep ym)"
    and "blep_time (ym_blep (clock_turn iter ym)) = blep_time (ym_blep ym) + word_of_int iter"
proof -
  define w where "w = ym_envelops ! unat (ym_reg ym 13 AND 15)"
  define b where "b = (ym_blep ym)\<lparr>blep_time := blep_time (ym_blep ym) + word_of_int iter\<rparr>"
  define r where "r = clock_envel w iter (clock_noise iter (clock_tone iter 2 (clock_tone iter 1 (clock_tone iter 0 (b, False)))))"
  have t: "clock_turn iter ym =
      (if snd r then ym2149_new_output_level (put_blep (fst r) ym) else put_blep (fst r) ym)"
    by (simp add: clock_turn_def Let_def split_beta r_def b_def w_def)
  note p = clock_parts [where w = w and k = iter and b = b and ch = False, folded r_def]
  have bo: "tonegen b = tonegen (ym_blep ym)" "noise_count b = noise_count (ym_blep ym)"
    "noise_event b = noise_event (ym_blep ym)" "env_count b = env_count (ym_blep ym)"
    "env_event b = env_event (ym_blep ym)" "env_state b = env_state (ym_blep ym)"
    "cycles_to_next_sample b = cycles_to_next_sample (ym_blep ym)"
    "cycles_per_sample b = cycles_per_sample (ym_blep ym)"
    "blep_time b = blep_time (ym_blep ym) + word_of_int iter"
    by (simp_all add: b_def)
  have re: "0 \<le> c \<Longrightarrow> iter \<le> c \<Longrightarrow> 0 < ev \<Longrightarrow> 0 < restart ev (c - iter)" for c ev
    by (simp add: restart_def)
  note a = assms(1) [unfolded blep_ok_alt] and m = assms(3) [unfolded min_count_le]
  have ge: "0 < tn_count (tonegen (fst r) 0)" "0 < tn_count (tonegen (fst r) 1)"
    "0 < tn_count (tonegen (fst r) 2)" "0 < noise_count (fst r)" "0 < env_count (fst r)"
    unfolding p(1,2,3,5,6) bo using a m by (auto intro!: re)
  have ok: "blep_ok (fst r)"
    unfolding blep_ok_alt using ge a p(4,7,8,9) bo by simp
  have mc: "0 < min_count (fst r)"
    using ge by (simp add: min_count_def)
  show "blep_ok (ym_blep (clock_turn iter ym))" using ok by (simp add: t new_level_ok)
  show "0 < min_count (ym_blep (clock_turn iter ym))"
    using mc by (simp add: t min_count_def new_level_fields)
  show "ym_reg (clock_turn iter ym) = ym_reg ym" by (simp add: t new_level_fields)
  show "cycles_to_next_sample (ym_blep (clock_turn iter ym)) = cycles_to_next_sample (ym_blep ym)"
    "cycles_per_sample (ym_blep (clock_turn iter ym)) = cycles_per_sample (ym_blep ym)"
    "blep_time (ym_blep (clock_turn iter ym)) = blep_time (ym_blep ym) + word_of_int iter"
    using p(10,11,12) bo by (simp_all add: t new_level_fields)
qed

section \<open>Clocking in one go or in steps\<close>

text \<open>The counters moved by \<open>k\<close> cycles, with no event.\<close>

definition tick :: "int \<Rightarrow> ym \<Rightarrow> ym" where
  "tick k ym =
    (let b = ym_blep ym; tg = (\<lambda>i. (tonegen b i)\<lparr>tn_count := tn_count (tonegen b i) - k\<rparr>)
     in put_blep
          (b\<lparr>blep_time := blep_time b + word_of_int k,
             tonegen := (tonegen b)(0 := tg 0, 1 := tg 1, 2 := tg 2),
             noise_count := noise_count b - k, env_count := env_count b - k\<rparr>) ym)"

lemma turn_tick: "clock_turn d (tick a ym) = clock_turn (a + d) ym"
proof -
  have u: "put_blep (fst r) (tick a ym) = put_blep (fst r) ym" for r :: "blep \<times> bool"
    by (simp add: tick_def Let_def)
  define b1 where "b1 = (ym_blep (tick a ym))\<lparr>blep_time := blep_time (ym_blep (tick a ym)) + word_of_int d\<rparr>"
  define b2 where "b2 = (ym_blep ym)\<lparr>blep_time := blep_time (ym_blep ym) + word_of_int (a + d)\<rparr>"
  have e: "clock_tone d 2 (clock_tone d 1 (clock_tone d 0 (b1, False))) =
      (let (b, ch) = clock_tone (a + d) 2 (clock_tone (a + d) 1 (clock_tone (a + d) 0 (b2, False)))
       in (b\<lparr>noise_count := noise_count b - a, env_count := env_count b - a\<rparr>, ch))"
    by (simp add: b1_def b2_def tick_def clock_tone_def Let_def fun_upd_twist algebra_simps)
  have n: "clock_noise d (b\<lparr>noise_count := noise_count b - a, env_count := env_count b - a\<rparr>, ch) =
      (let (b, ch) = clock_noise (a + d) (b, ch) in (b\<lparr>env_count := env_count b - a\<rparr>, ch))" for b ch
    by (simp add: clock_noise_def Let_def algebra_simps)
  have v: "clock_envel w d (b\<lparr>env_count := env_count b - a\<rparr>, ch) = clock_envel w (a + d) (b, ch)" for w b ch
    by (simp add: clock_envel_def Let_def algebra_simps)
  have r: "ym_reg (tick a ym) = ym_reg ym" by (simp add: tick_def Let_def)
  show ?thesis
    unfolding clock_turn_def r Let_def b1_def [symmetric] b2_def [symmetric] e
    by (simp add: split_beta Let_def n v u)
qed

lemma tick_turn: "a < min_count (ym_blep ym) \<Longrightarrow> clock_turn a ym = tick a ym"
proof -
  assume "a < min_count (ym_blep ym)"
  then have "tn_count (tonegen (ym_blep ym) 0) \<noteq> a" "tn_count (tonegen (ym_blep ym) 1) \<noteq> a"
    "tn_count (tonegen (ym_blep ym) 2) \<noteq> a" "noise_count (ym_blep ym) \<noteq> a" "env_count (ym_blep ym) \<noteq> a"
    unfolding min_count_def by auto
  then show ?thesis
    by (simp add: clock_turn_def tick_def clock_tone_def clock_noise_def clock_envel_def Let_def)
qed

lemma tick_min_count: "min_count (ym_blep (tick a ym)) = min_count (ym_blep ym) - a"
proof -
  have "k \<le> min_count (ym_blep (tick a ym)) \<longleftrightarrow> k \<le> min_count (ym_blep ym) - a" for k
    unfolding le_diff_eq min_count_le by (auto simp: tick_def Let_def)
  then show ?thesis by (metis order.antisym order.refl)
qed

lemma tick_ok: "blep_ok (ym_blep ym) \<Longrightarrow> a \<le> min_count (ym_blep ym) \<Longrightarrow> blep_ok (ym_blep (tick a ym))"
  by (auto simp: blep_ok_alt min_count_le tick_def Let_def)

lemma min_count_nonneg: "blep_ok b \<Longrightarrow> 0 \<le> min_count b"
  by (simp add: blep_ok_alt min_count_le)

text \<open>What is left to do: cycles, and a turn that only restarts a counter written at zero.\<close>

definition clock_left :: "int \<Rightarrow> ym \<Rightarrow> nat" where
  "clock_left n ym = 2 * nat n + (if min_count (ym_blep ym) = 0 then 1 else 0)"

lemma clock_left_less:
  assumes "blep_ok (ym_blep ym)" "0 < n"
  defines "k \<equiv> min n (min_count (ym_blep ym))"
  shows "clock_left (n - k) (clock_turn k ym) < clock_left n ym" and "0 \<le> n - k"
    and "blep_ok (ym_blep (clock_turn k ym))"
proof -
  have k: "0 \<le> k" "k \<le> min_count (ym_blep ym)" "k \<le> n"
    using min_count_nonneg [OF assms(1)] assms(2) by (auto simp: k_def)
  note c = clock_turn_ok [OF assms(1) k(1,2)]
  show "clock_left (n - k) (clock_turn k ym) < clock_left n ym"
    using c(2) k assms(2) by (auto simp: clock_left_def k_def min_def)
  show "0 \<le> n - k" using k by simp
  show "blep_ok (ym_blep (clock_turn k ym))" by (rule c(1))
qed

lemma clock_unfold:
  "n \<noteq> 0 \<Longrightarrow> ym2149_clock n ym =
    ym2149_clock (n - min n (min_count (ym_blep ym))) (clock_turn (min n (min_count (ym_blep ym))) ym)"
  by (subst ym2149_clock.simps) (simp add: Let_def)

lemma clock_zero: "ym2149_clock 0 ym = Some ym"
  by (subst ym2149_clock.simps) simp

definition clocked :: "int \<Rightarrow> ym \<Rightarrow> ym \<Rightarrow> bool" where
  "clocked n ym ym' \<longleftrightarrow> blep_ok (ym_blep ym') \<and> ym_reg ym' = ym_reg ym \<and>
     blep_time (ym_blep ym') = blep_time (ym_blep ym) + word_of_int n \<and>
     cycles_to_next_sample (ym_blep ym') = cycles_to_next_sample (ym_blep ym) \<and>
     cycles_per_sample (ym_blep ym') = cycles_per_sample (ym_blep ym)"

lemma clock_returns:
  "blep_ok (ym_blep ym) \<Longrightarrow> 0 \<le> n \<Longrightarrow> \<exists>ym'. ym2149_clock n ym = Some ym' \<and> clocked n ym ym'"
proof (induction "clock_left n ym" arbitrary: n ym rule: less_induct)
  case less
  show ?case
  proof (cases "n = 0")
    case True
    then show ?thesis using less.prems by (simp add: clock_zero clocked_def)
  next
    case False
    then have n: "0 < n" using less.prems by simp
    define k where "k = min n (min_count (ym_blep ym))"
    note l = clock_left_less [OF less.prems(1) n, folded k_def]
    have k: "0 \<le> k" "k \<le> min_count (ym_blep ym)"
      using min_count_nonneg [OF less.prems(1)] n by (auto simp: k_def)
    note c = clock_turn_ok [OF less.prems(1) k]
    from less.hyps [OF l(1) l(3,2)] obtain ym' where
      y: "ym2149_clock (n - k) (clock_turn k ym) = Some ym'" "clocked (n - k) (clock_turn k ym) ym'" by blast
    have "ym2149_clock n ym = Some ym'"
      using clock_unfold [OF False, of ym, folded k_def] y(1) by simp
    moreover have "clocked n ym ym'"
      using y(2) c by (simp add: clocked_def)
    ultimately show ?thesis by blast
  qed
qed

lemma clock_add:
  "blep_ok (ym_blep ym) \<Longrightarrow> 0 \<le> n \<Longrightarrow> 0 \<le> d \<Longrightarrow>
    ym2149_clock (n + d) ym = Option.bind (ym2149_clock n ym) (ym2149_clock d)"
proof (induction "clock_left n ym" arbitrary: n ym rule: less_induct)
  case less
  define m where "m = min_count (ym_blep ym)"
  show ?case
  proof (cases "n = 0")
    case True
    then show ?thesis by (simp add: clock_zero)
  next
    case False
    then have n: "0 < n" using less.prems by simp
    show ?thesis
    proof (cases "m \<le> n")
      case True
      note l = clock_left_less [OF less.prems(1) n, folded m_def]
      have k: "min n m = m" "min (n + d) m = m" using True less.prems by auto
      have e: "n - m + d = n + d - m" by simp
      show ?thesis
        using less.hyps [OF l(1,3,2) less.prems(3)] False n less.prems(3)
          clock_unfold [of n ym, folded m_def] clock_unfold [of "n + d" ym, folded m_def]
        unfolding k e by simp
    next
      case m: False
      have mn: "m \<noteq> n" "n < m" using m by auto
      have t: "clock_turn n ym = tick n ym" by (rule tick_turn) (use m in \<open>simp add: m_def\<close>)
      have one: "ym2149_clock n ym = Some (tick n ym)"
        using clock_unfold [OF False, of ym, folded m_def] mn by (simp add: t clock_zero min_def)
      show ?thesis
      proof (cases "d = 0")
        case True
        then show ?thesis by (simp add: one clock_zero)
      next
        case d: False
        have mc: "min_count (ym_blep (tick n ym)) = m - n" by (simp add: tick_min_count m_def)
        have e: "min (n + d) m = n + min d (m - n)" "n + d - (n + min d (m - n)) = d - min d (m - n)"
          by (simp_all add: min_def)
        have "ym2149_clock (n + d) ym = ym2149_clock (d - min d (m - n)) (clock_turn (n + min d (m - n)) ym)"
          using clock_unfold [of "n + d" ym, folded m_def] n less.prems(3) unfolding e by simp
        also have "\<dots> = ym2149_clock d (tick n ym)"
          using clock_unfold [OF d, of "tick n ym"] unfolding mc turn_tick by simp
        finally show ?thesis by (simp add: one)
      qed
    qed
  qed
qed

section \<open>Output\<close>

lemma sine_length: "length sine_integral = BLEP_SIZE"
  by (simp add: sine_integral_def BLEP_SIZE_def)

text \<open>
  The sum over the steps returns: it stops at the sentinel \<open>ym2149_output\<close> has put before the
  newest step, at the latest after a turn around the ring.  The ages it looks up, and their
  successors, are inside the table.
\<close>

lemma blep_train_returns:
  assumes "bs_stamp (blepstate b j) = blep_time b - of_nat BLEP_SIZE" "j < MAX_BLEPS"
  shows "i < MAX_BLEPS \<Longrightarrow> \<exists>k out. blep_train b sub i acc = Some (k, out) \<and> k < MAX_BLEPS"
proof (induction "(j + MAX_BLEPS - i) mod MAX_BLEPS" arbitrary: i acc rule: less_induct)
  case less
  let ?age = "unat (blep_time b - bs_stamp (blepstate b i))"
  show ?case
  proof (cases "BLEP_SIZE - 1 \<le> ?age")
    case True
    then show ?thesis using less.prems by (subst blep_train.simps) (simp add: Let_def)
  next
    case False
    then have ij: "i \<noteq> j" using assms(1) by (auto simp: BLEP_SIZE_def)
    define i' where "i' = (i + 1) mod MAX_BLEPS"
    have "i' < MAX_BLEPS" "(j + MAX_BLEPS - i') mod MAX_BLEPS < (j + MAX_BLEPS - i) mod MAX_BLEPS"
    proof -
      show "i' < MAX_BLEPS" by (simp add: i'_def MAX_BLEPS_def)
      show "(j + MAX_BLEPS - i') mod MAX_BLEPS < (j + MAX_BLEPS - i) mod MAX_BLEPS"
        using ij assms(2) less.prems unfolding i'_def MAX_BLEPS_def
        by (cases "i = 255"; cases "i < j") (auto simp: mod_if)
    qed
    from less.hyps [OF this(2,1)] False show ?thesis
      by (subst blep_train.simps) (auto simp: Let_def i'_def)
  qed
qed

lemma stamp_end_fields [simp]:
  "blep_ok (stamp_end i b) = blep_ok b" "blep_idx (stamp_end i b) = blep_idx b"
  "cycles_to_next_sample (stamp_end i b) = cycles_to_next_sample b"
  "cycles_per_sample (stamp_end i b) = cycles_per_sample b" "blep_time (stamp_end i b) = blep_time b"
  by (simp_all add: stamp_end_def blep_ok_def)

definition kept :: "ym \<Rightarrow> ym \<Rightarrow> bool" where
  "kept ym ym' \<longleftrightarrow> ym_reg ym' = ym_reg ym \<and> ym_events ym' = ym_events ym \<and>
     cycles_to_next_sample (ym_blep ym') = cycles_to_next_sample (ym_blep ym) \<and>
     cycles_per_sample (ym_blep ym') = cycles_per_sample (ym_blep ym) \<and>
     (blep_ok (ym_blep ym) \<longrightarrow> blep_ok (ym_blep ym'))"

lemma output_returns:
  assumes "blep_idx (ym_blep ym) < MAX_BLEPS"
  shows "\<exists>s ym'. ym2149_output ym sub = Some (s, ym') \<and> kept ym ym' \<and>
    blep_idx (ym_blep ym') = blep_idx (ym_blep ym)"
proof -
  define b where "b = ym_blep ym"
  define j where "j = (blep_idx b + MAX_BLEPS - 1) mod MAX_BLEPS"
  define c where "c = stamp_end j b"
  have j: "bs_stamp (blepstate c j) = blep_time c - of_nat BLEP_SIZE" "j < MAX_BLEPS"
    by (simp_all add: c_def stamp_end_def j_def MAX_BLEPS_def)
  from blep_train_returns [OF j, of "blep_idx b" sub 0] obtain k out where
    t: "blep_train c sub (blep_idx b) 0 = Some (k, out)" using assms by (auto simp: b_def)
  then have "ym2149_output ym sub =
      Some (drop_bit 16 (out + 2 ^ 15) + global_output_level c, put_blep (stamp_end k c) ym)"
    unfolding ym2149_output_def Let_def b_def [symmetric] j_def [symmetric] c_def [symmetric] t by simp
  then show ?thesis by (auto simp: kept_def c_def b_def)
qed

lemma highpass_kept:
  "kept ym (snd (highpass ym s))" "blep_idx (ym_blep (snd (highpass ym s))) = blep_idx (ym_blep ym)"
  "-32768 \<le> fst (highpass ym s) \<and> fst (highpass ym s) \<le> 32767"
  by (simp_all add: highpass_def kept_def Let_def blep_ok_def)

lemma new_level_idx:
  "blep_idx (ym_blep ym) < MAX_BLEPS \<Longrightarrow> blep_idx (ym_blep (ym2149_new_output_level ym)) < MAX_BLEPS"
  by (simp add: ym2149_new_output_level_def Let_def MAX_BLEPS_def)

lemma clock_idx_parts:
  "blep_idx (fst (clock_tone k i x)) = blep_idx (fst x)"
  "blep_idx (fst (clock_noise k x)) = blep_idx (fst x)"
  "blep_idx (fst (clock_envel w k x)) = blep_idx (fst x)"
  by (cases x; simp add: clock_tone_def clock_noise_def clock_envel_def Let_def)+

lemma clock_turn_idx:
  "blep_idx (ym_blep ym) < MAX_BLEPS \<Longrightarrow> blep_idx (ym_blep (clock_turn k ym)) < MAX_BLEPS"
  unfolding clock_turn_def Let_def
  by (simp add: split_beta clock_idx_parts new_level_idx)

lemma new_level_events: "ym_events (ym2149_new_output_level ym) = ym_events ym"
  by (simp add: ym2149_new_output_level_def Let_def)

lemma clock_turn_events: "ym_events (clock_turn k ym) = ym_events ym"
  unfolding clock_turn_def Let_def by (simp add: split_beta new_level_events)

lemma clock_idx:
  "blep_ok (ym_blep ym) \<Longrightarrow> 0 \<le> n \<Longrightarrow> blep_idx (ym_blep ym) < MAX_BLEPS \<Longrightarrow>
    ym2149_clock n ym = Some ym' \<Longrightarrow> blep_idx (ym_blep ym') < MAX_BLEPS \<and> ym_events ym' = ym_events ym"
proof (induction "clock_left n ym" arbitrary: n ym rule: less_induct)
  case less
  show ?case
  proof (cases "n = 0")
    case True
    then show ?thesis using less.prems by (simp add: clock_zero)
  next
    case False
    then have n: "0 < n" using less.prems by simp
    define k where "k = min n (min_count (ym_blep ym))"
    note l = clock_left_less [OF less.prems(1) n, folded k_def]
    have "ym2149_clock (n - k) (clock_turn k ym) = Some ym'"
      using clock_unfold [OF False, of ym, folded k_def] less.prems(4) by simp
    from less.hyps [OF l(1,3,2) clock_turn_idx [OF less.prems(3)] this] show ?thesis
      by (simp add: clock_turn_events)
  qed
qed

section \<open>Mixing\<close>

text \<open>The state in which the engine can run: a rate of at least one cycle per sample.\<close>

definition mixing_ok :: "ym \<Rightarrow> bool" where
  "mixing_ok ym \<longleftrightarrow> blep_ok (ym_blep ym) \<and> blep_idx (ym_blep ym) < MAX_BLEPS \<and>
     256 \<le> cycles_per_sample (ym_blep ym)"

text \<open>
  Mixing returns, and produces samples at the exact rate: in units of 1/256 cycle, the cycles
  run and the distance to the next sample after are the distance before and one sample
  period per sample.
\<close>

definition mixed :: "nat \<Rightarrow> int list \<Rightarrow> ym \<Rightarrow> ym \<Rightarrow> bool" where
  "mixed n out ym ym' \<longleftrightarrow> mixing_ok ym' \<and> ym_events ym' = ym_events ym \<and>
     cycles_per_sample (ym_blep ym') = cycles_per_sample (ym_blep ym) \<and>
     256 * n + cycles_to_next_sample (ym_blep ym') =
       cycles_to_next_sample (ym_blep ym) + length out * cycles_per_sample (ym_blep ym) \<and>
     (\<forall>s\<in>set out. -32768 \<le> s \<and> s \<le> 32767)"

definition set_next :: "nat \<Rightarrow> ym \<Rightarrow> ym" where
  "set_next n ym = put_blep ((ym_blep ym)\<lparr>cycles_to_next_sample := n\<rparr>) ym"

lemma set_next_fields [simp]:
  "mixing_ok (set_next n ym) = mixing_ok ym" "cycles_to_next_sample (ym_blep (set_next n ym)) = n"
  "cycles_per_sample (ym_blep (set_next n ym)) = cycles_per_sample (ym_blep ym)"
  "ym_events (set_next n ym) = ym_events ym"
  by (simp_all add: set_next_def mixing_ok_def blep_ok_def)

lemma mix_unfold:
  "cycles \<noteq> 0 \<Longrightarrow> mix_to_buffer cycles ym =
    (let next = drop_bit 8 (cycles_to_next_sample (ym_blep ym));
         iter = (if next < cycles then next else cycles)
     in Option.bind (ym2149_clock (int iter) ym) (\<lambda>ym.
          let n = cycles_to_next_sample (ym_blep ym) - push_bit 8 iter;
              ym = set_next n ym
          in if next < cycles then
               Option.bind (ym2149_output ym (int (take_bit 8 n))) (\<lambda>(s, ym).
                 let (s, ym) = highpass ym s;
                     ym = set_next (cycles_to_next_sample (ym_blep ym) + cycles_per_sample (ym_blep ym)) ym
                 in Option.bind (mix_to_buffer (cycles - iter) ym) (\<lambda>(out, ym). Some (s # out, ym)))
             else mix_to_buffer (cycles - iter) ym))"
  by (subst mix_to_buffer.simps) (simp add: Let_def set_next_def)

lemma clock_mixing_ok:
  assumes "mixing_ok ym"
  shows "\<exists>y. ym2149_clock (int k) ym = Some y \<and> mixing_ok y \<and> ym_events y = ym_events ym \<and>
    cycles_to_next_sample (ym_blep y) = cycles_to_next_sample (ym_blep ym) \<and>
    cycles_per_sample (ym_blep y) = cycles_per_sample (ym_blep ym)"
proof -
  have b: "blep_ok (ym_blep ym)" using assms by (simp add: mixing_ok_def)
  from clock_returns [OF b, of "int k"] obtain y where
    y: "ym2149_clock (int k) ym = Some y" "clocked (int k) ym y" by auto
  have "blep_idx (ym_blep y) < MAX_BLEPS \<and> ym_events y = ym_events ym"
    by (rule clock_idx [OF b _ _ y(1)]) (use assms in \<open>simp_all add: mixing_ok_def\<close>)
  then show ?thesis using y assms by (auto simp: clocked_def mixing_ok_def)
qed

definition mix_left :: "nat \<Rightarrow> ym \<Rightarrow> nat" where
  "mix_left n ym = 2 * n + (if cycles_to_next_sample (ym_blep ym) < 256 then 1 else 0)"

lemma mix_returns:
  "mixing_ok ym \<Longrightarrow> \<exists>out ym'. mix_to_buffer n ym = Some (out, ym') \<and> mixed n out ym ym'"
proof (induction "mix_left n ym" arbitrary: n ym rule: less_induct)
  case less
  define c where "c = cycles_to_next_sample (ym_blep ym)"
  define p where "p = cycles_per_sample (ym_blep ym)"
  define nxt where "nxt = drop_bit 8 c"
  have nx: "nxt = c div 256" by (simp add: nxt_def drop_bit_eq_div)
  have p256: "256 \<le> p" using less.prems by (simp add: mixing_ok_def p_def)
  show ?case
  proof (cases "n = 0")
    case True
    then show ?thesis using less.prems by (subst mix_to_buffer.simps) (simp add: mixed_def)
  next
    case n0: False
    show ?thesis
    proof (cases "nxt < n")
      case False
      from clock_mixing_ok [OF less.prems, of n] obtain y where
        y: "ym2149_clock (int n) ym = Some y" "mixing_ok y" "ym_events y = ym_events ym"
          "cycles_to_next_sample (ym_blep y) = c" "cycles_per_sample (ym_blep y) = p" by (auto simp: c_def p_def)
      define z where "z = set_next (c - push_bit 8 n) y"
      have "mix_to_buffer n ym = mix_to_buffer 0 z"
        unfolding mix_unfold [OF n0] Let_def c_def [symmetric] nxt_def [symmetric]
        using False y by (simp add: z_def)
      also have "\<dots> = Some ([], z)" by (subst mix_to_buffer.simps) simp
      finally have "mix_to_buffer n ym = Some ([], z)" .
      moreover have "n * 256 \<le> c" using False nx by (simp add: less_eq_div_iff_mult_less_eq)
      ultimately show ?thesis
        using y by (simp add: mixed_def z_def c_def [symmetric] p_def [symmetric] push_bit_eq_mult)
    next
      case True
      from clock_mixing_ok [OF less.prems, of nxt] obtain y where
        y: "ym2149_clock (int nxt) ym = Some y" "mixing_ok y" "ym_events y = ym_events ym"
          "cycles_to_next_sample (ym_blep y) = c" "cycles_per_sample (ym_blep y) = p" by (auto simp: c_def p_def)
      define r where "r = c - push_bit 8 nxt"
      have r: "r = c mod 256" by (simp add: r_def nx push_bit_eq_mult minus_div_mult_eq_mod)
      define z where "z = set_next r y"
      have zi: "blep_idx (ym_blep z) < MAX_BLEPS" "mixing_ok z"
        using y(2) by (simp_all add: z_def mixing_ok_def set_next_def blep_ok_def)
      from output_returns [OF zi(1), of "int (take_bit 8 r)"] obtain s u where
        u: "ym2149_output z (int (take_bit 8 r)) = Some (s, u)" "kept z u" "blep_idx (ym_blep u) = blep_idx (ym_blep z)"
        by blast
      define v where "v = snd (highpass u s)"
      define w where "w = set_next (r + p) v"
      have v: "kept z v" "blep_idx (ym_blep v) < MAX_BLEPS"
        using highpass_kept [of u s] u(2,3) zi(1) by (simp_all add: v_def kept_def)
      have vn: "cycles_to_next_sample (ym_blep v) = r" "cycles_per_sample (ym_blep v) = p" "ym_events v = ym_events ym"
        using v(1) y by (simp_all add: kept_def z_def)
      have w: "mixing_ok w" "cycles_to_next_sample (ym_blep w) = r + p" "cycles_per_sample (ym_blep w) = p"
        using v zi(2) p256 vn by (auto simp: w_def mixing_ok_def kept_def set_next_def blep_ok_def)
      have "mix_left (n - nxt) w < mix_left n ym"
        using p256 r True nx unfolding mix_left_def w(2) c_def [symmetric]
        by (auto simp: div_eq_0_iff)
      from less.hyps [OF this w(1)] obtain out ym' where
        o: "mix_to_buffer (n - nxt) w = Some (out, ym')" "mixed (n - nxt) out w ym'" by blast
      have "mix_to_buffer n ym = Some (fst (highpass u s) # out, ym')"
        unfolding mix_unfold [OF n0] Let_def c_def [symmetric] nxt_def [symmetric]
        using True y u o vn by (simp add: r_def [symmetric] z_def [symmetric] split_beta v_def [symmetric] w_def [symmetric])
      moreover have "mixed n (fst (highpass u s) # out) ym ym'"
      proof -
        have "256 * n + cycles_to_next_sample (ym_blep ym') = c + Suc (length out) * p"
        proof -
          have a: "256 * (n - nxt) + cycles_to_next_sample (ym_blep ym') = r + p + length out * p"
            using o(2) w by (simp add: mixed_def)
          have "c = 256 * nxt + r" using r nx by simp
          moreover have "256 * n = 256 * (n - nxt) + 256 * nxt" using True by simp
          ultimately show ?thesis using a by simp
        qed
        then show ?thesis
          using o(2) w highpass_kept(3) [of u s] vn
          by (simp add: mixed_def c_def [symmetric] p_def [symmetric]) (simp add: w_def)
      qed
      ultimately show ?thesis by blast
    qed
  qed
qed

section \<open>Register writes and the run\<close>

lemma new_period_ge: "0 \<le> v \<Longrightarrow> 2 ^ sh \<le> new_period v sh"
proof -
  assume "0 \<le> v"
  then have "1 * 2 ^ sh \<le> (if v = 0 then 1 else v) * (2 :: int) ^ sh"
    by (intro mult_right_mono) auto
  then show ?thesis by (simp add: new_period_def push_bit_eq_mult)
qed

text \<open>What no register write touches.\<close>

definition same_rate :: "ym \<Rightarrow> ym \<Rightarrow> bool" where
  "same_rate ym ym' \<longleftrightarrow> cycles_to_next_sample (ym_blep ym') = cycles_to_next_sample (ym_blep ym) \<and>
     cycles_per_sample (ym_blep ym') = cycles_per_sample (ym_blep ym) \<and> ym_events ym' = ym_events ym"

lemma writes_ok:
  assumes "mixing_ok ym"
  shows "voice < 3 \<Longrightarrow> mixing_ok (blep_tone_event ym voice)" "mixing_ok (blep_noise_event ym)"
    "mixing_ok (blep_mixer v ym)" "voice < 3 \<Longrightarrow> mixing_ok (blep_volume v voice ym)"
    "mixing_ok (blep_env_event ym)" "mixing_ok (put_blep ((ym_blep ym)\<lparr>env_state := 0\<rparr>) ym)"
    "mixing_ok (ym2149_new_output_level ym)"
proof -
  have p: "0 \<le> v \<Longrightarrow> 8 \<le> new_period v 3" "0 \<le> v \<Longrightarrow> 16 \<le> new_period v 4" for v
    using new_period_ge [of v 3] new_period_ge [of v 4] by simp_all
  show "voice < 3 \<Longrightarrow> mixing_ok (blep_tone_event ym voice)"
    using assms p(1) [of "uint (ym_reg ym (2 * voice)) OR push_bit 8 (uint (ym_reg ym (2 * voice + 1)) AND 0x0f)"]
    by (auto simp: mixing_ok_def blep_ok_def blep_tone_event_def Let_def)
  show "mixing_ok (blep_noise_event ym)"
    using assms p(2) [of "uint (ym_reg ym 6) AND 0x1f"]
    by (auto simp: mixing_ok_def blep_ok_def blep_noise_event_def Let_def)
  show "mixing_ok (blep_mixer v ym)"
    using assms by (auto simp: mixing_ok_def blep_ok_def blep_mixer_def Let_def)
  show "voice < 3 \<Longrightarrow> mixing_ok (blep_volume v voice ym)"
    using assms by (auto simp: mixing_ok_def blep_ok_def blep_volume_def Let_def)
  show "mixing_ok (blep_env_event ym)"
    using assms p(1) [of "uint (ym_reg ym 11) OR push_bit 8 (uint (ym_reg ym 12))"]
    by (auto simp: mixing_ok_def blep_ok_def blep_env_event_def Let_def)
  show "mixing_ok (put_blep ((ym_blep ym)\<lparr>env_state := 0\<rparr>) ym)"
    using assms by (auto simp: mixing_ok_def blep_ok_def)
  show "mixing_ok (ym2149_new_output_level ym)"
    using assms new_level_idx [of ym] by (simp add: mixing_ok_def new_level_ok new_level_fields)
qed

lemma writes_rate:
  "same_rate ym (blep_tone_event ym voice)" "same_rate ym (blep_noise_event ym)"
  "same_rate ym (blep_mixer v ym)" "same_rate ym (blep_volume v voice ym)"
  "same_rate ym (blep_env_event ym)" "same_rate ym (put_blep ((ym_blep ym)\<lparr>env_state := 0\<rparr>) ym)"
  "same_rate ym (ym2149_new_output_level ym)"
  by (simp_all add: same_rate_def blep_tone_event_def blep_noise_event_def blep_mixer_def blep_volume_def
      blep_env_event_def Let_def new_level_fields new_level_events)

lemma same_rate_trans: "same_rate x y \<Longrightarrow> same_rate y z \<Longrightarrow> same_rate x z"
  by (simp add: same_rate_def)

lemma setreg_ok:
  assumes "mixing_ok ym"
  shows "mixing_ok (blep_setreg e ym)" and "same_rate ym (blep_setreg e ym)"
proof -
  define y where "y = ym\<lparr>ym_reg := (ym_reg ym)(ev_reg e := ev_val e)\<rparr>"
  have y: "mixing_ok y" "same_rate ym y" using assms by (simp_all add: y_def mixing_ok_def same_rate_def)
  show "mixing_ok (blep_setreg e ym)"
    unfolding blep_setreg_def Let_def y_def [symmetric]
    using y(1) by (auto intro!: writes_ok)
  show "same_rate ym (blep_setreg e ym)"
    unfolding blep_setreg_def Let_def y_def [symmetric]
    using y(2) by (auto simp: same_rate_trans [OF y(2) same_rate_trans [OF _ writes_rate(7)]]
        same_rate_trans [OF y(2) writes_rate(7)] writes_rate)
qed

text \<open>The accesses of a pass come in the order of their cycles, before its end.\<close>

fun in_order :: "int68 \<Rightarrow> ym_event list \<Rightarrow> int68 \<Rightarrow> bool" where
  "in_order c [] n \<longleftrightarrow> c \<le> n"
| "in_order c (e # es) n \<longleftrightarrow> c \<le> ev_ymcycle e \<and> in_order (ev_ymcycle e) es n"

lemma events_return:
  "mixing_ok ym \<Longrightarrow> in_order c es n \<Longrightarrow> \<exists>out c' ym'. blep_events es c ym = Some (out, c', ym') \<and>
    mixed (unat c' - unat c) out ym ym' \<and> c \<le> c' \<and> c' \<le> n"
proof (induction es arbitrary: c ym)
  case Nil
  then show ?case by (auto simp: mixed_def)
next
  case (Cons e es)
  define k where "k = unat (ev_ymcycle e - c)"
  from mix_returns [OF Cons.prems(1), of k] obtain out y where
    m: "mix_to_buffer k ym = Some (out, y)" "mixed k out ym y" by blast
  then have y: "mixing_ok y" by (simp add: mixed_def)
  note s = setreg_ok [OF y, of e]
  have o: "in_order (ev_ymcycle e) es n" "c \<le> ev_ymcycle e" using Cons.prems(2) by simp_all
  from Cons.IH [OF s(1) o(1)] obtain out' c' ym' where
    r: "blep_events es (ev_ymcycle e) (blep_setreg e y) = Some (out', c', ym')"
      "mixed (unat c' - unat (ev_ymcycle e)) out' (blep_setreg e y) ym'" "ev_ymcycle e \<le> c'" "c' \<le> n" by blast
  have "blep_events (e # es) c ym = Some (out @ out', c', ym')"
    using m(1) r(1) by (simp add: k_def)
  moreover have "mixed (unat c' - unat c) (out @ out') ym ym'"
  proof -
    have k: "unat c' - unat c = k + (unat c' - unat (ev_ymcycle e))"
      using o(2) r(3) by (simp add: k_def unat_sub word_le_nat_alt)
    show ?thesis
      using m(2) r(2) s(2) unfolding mixed_def same_rate_def k
      by (auto simp: algebra_simps)
  qed
  ultimately show ?case using o(2) r(3,4) by (blast intro: order_trans)
qed

text \<open>A pass of \<open>n\<close> cycles, whatever was written in it: it returns, at the exact rate.\<close>

lemma blep_run_returns:
  assumes "mixing_ok ym" "in_order 0 (ym_events ym) n"
  shows "\<exists>out ym'. blep_run ym n = Some (out, ym') \<and> mixing_ok ym' \<and> ym_events ym' = [] \<and>
    256 * unat n + cycles_to_next_sample (ym_blep ym') =
      cycles_to_next_sample (ym_blep ym) + length out * cycles_per_sample (ym_blep ym) \<and>
    (\<forall>s\<in>set out. -32768 \<le> s \<and> s \<le> 32767)"
proof -
  from events_return [OF assms] obtain out c y where
    e: "blep_events (ym_events ym) 0 ym = Some (out, c, y)" "mixed (unat c) out ym y" "c \<le> n" by auto
  define z where "z = y\<lparr>ym_events := []\<rparr>"
  have z: "mixing_ok z" using e(2) by (simp add: z_def mixed_def mixing_ok_def)
  from mix_returns [OF z, of "unat (n - c)"] obtain out' ym' where
    m: "mix_to_buffer (unat (n - c)) z = Some (out', ym')" "mixed (unat (n - c)) out' z ym'" by blast
  have "blep_run ym n = Some (out @ out', ym')"
    using e(1) m(1) by (simp add: blep_run_def z_def)
  moreover have "256 * unat n + cycles_to_next_sample (ym_blep ym') =
      cycles_to_next_sample (ym_blep ym) + length (out @ out') * cycles_per_sample (ym_blep ym)"
  proof -
    have k: "unat n = unat c + unat (n - c)" using e(3) by (simp add: unat_sub word_le_nat_alt)
    show ?thesis
      using e(2) m(2) unfolding mixed_def k by (simp add: z_def algebra_simps)
  qed
  ultimately show ?thesis
    using e(2) m(2) by (auto simp: mixed_def z_def)
qed

lemma blep_reset_ok:
  "256 \<le> cycles_per_sample (ym_blep ym) \<Longrightarrow> mixing_ok (put_blep (blep_reset (ym_blep ym)) ym)"
  by (auto simp: mixing_ok_def blep_ok_def blep_reset_def blep_zero_def MAX_BLEPS_def)

lemma sampling_rate_ok:
  "0 < hz \<Longrightarrow> hz \<le> ym_clock ym \<Longrightarrow> 256 \<le> cycles_per_sample (ym_blep (snd (blep_sampling_rate ym hz)))"
  by (simp add: blep_sampling_rate_def push_bit_eq_mult less_eq_div_iff_mult_less_eq)

end
