(* ===== verification/YmEmul68.thy ===== *)
theory YmEmul68
  imports YmPuls68 YmBlep68
begin

text \<open>
  The YM-2149 as a whole, \<open>io68/ymemul.c\<close>, over its three engines, and the third of them,
  \<open>io68/ym_dump.c\<close>, which prints the register writes of a pass and outputs silence.

  The callbacks of an emulator are the engine \<open>ym_cb\<close> whose \<open>setup\<close> filled them.  Printing a
  line is adding it to a list.  The volume table is shared by all emulators: the state of the
  component is the table and the model it was made for.

  Lemmas: running an emulator whose state is ready returns, for the blep and dump engines; a
  set up emulator is ready; the lines of a dump have a fixed width.
\<close>

unbundle bit_operations_syntax

section \<open>The dump engine\<close>

definition CYCLE_DIGITS :: nat where "CYCLE_DIGITS = 10"
definition PASS_DIGITS :: nat where "PASS_DIGITS = 6"

definition hex_char :: "nat \<Rightarrow> char" where
  "hex_char d = ''0123456789ABCDEF'' ! d"

definition hex_digits :: "nat \<Rightarrow> nat \<Rightarrow> string" where
  "hex_digits n v = map (\<lambda>i. hex_char (take_bit 4 (drop_bit (4 * i) v))) (rev [0..<n])"

definition effbits :: "nat list" where
  "effbits = [0xFF, 0x0F, 0xFF, 0x0F, 0xFF, 0x0F, 0x1F, 0x3F, 0x1F, 0x1F, 0x1F, 0xFF, 0xFF, 0xF]"

definition dump_mix_mute :: "nat \<Rightarrow> int" where
  "dump_mix_mute mute =
    (let m = int mute;
         mix_mute = (m AND 1) OR (drop_bit 5 m AND 2) OR (drop_bit 10 m AND 4)
     in (mix_mute OR push_bit 3 mix_mute) XOR 0x3F)"

definition dump_reg_mute :: "int \<Rightarrow> int" where
  "dump_reg_mute mix_mute =
    (- (drop_bit 0 mix_mute AND 1) AND 0x103) OR (- (drop_bit 1 mix_mute AND 1) AND 0x20c) OR
    (- (drop_bit 2 mix_mute AND 1) AND 0x430)"

text \<open>One register of a line; \<open>None\<close> is a register that was not accessed.\<close>

definition dump_reg :: "nat list \<Rightarrow> nat \<Rightarrow> (nat \<Rightarrow> u8 option) \<Rightarrow> nat \<Rightarrow> string" where
  "dump_reg bits mute r i =
    (let mix_mute = dump_mix_mute mute;
         v = (if bit (dump_reg_mute mix_mute) i then None
              else if i = 7 then map_option (\<lambda>v. uint v OR mix_mute) (r i)
              else map_option uint (r i))
     in (if i = 0 then CHR '' '' else CHR ''-'') #
        (case v of
           None \<Rightarrow> ''..''
         | Some v \<Rightarrow>
             let v = nat (v AND int (bits ! i)) in [hex_char (drop_bit 4 v), hex_char (v AND 15)]))"

definition dump_line :: "nat list \<Rightarrow> ym \<Rightarrow> int68 \<Rightarrow> (nat \<Rightarrow> u8 option) \<Rightarrow> string" where
  "dump_line bits ym longcycle r =
    hex_digits PASS_DIGITS (unat (dump_pass ym)) @ '' '' @
    hex_digits CYCLE_DIGITS (unat longcycle) @
    concat (map (dump_reg bits (voice_mute ym) r) [0..<14])"

text \<open>
  The loop over the events: all those of a cycle make a line, and the registers 0 to 13 are
  forgotten after it.
\<close>

fun dump_events :: "nat list \<Rightarrow> ym \<Rightarrow> (nat \<Rightarrow> u8 option) \<Rightarrow> ym_event list \<Rightarrow> string list" where
  "dump_events bits ym r [] = []"
| "dump_events bits ym r (e # es) =
    (let r = r(ev_reg e mod 16 \<mapsto> ev_val e)
     in case es of
          e' # _ \<Rightarrow>
            if ev_ymcycle e' = ev_ymcycle e then dump_events bits ym r es
            else dump_line bits ym (dump_base ym + ev_ymcycle e) r #
                 dump_events bits ym (\<lambda>i. if i < 14 then None else r i) es
        | [] \<Rightarrow> [dump_line bits ym (dump_base ym + ev_ymcycle e) r])"

definition dump_buffersize :: "ym \<Rightarrow> int68 \<Rightarrow> int68" where
  "dump_buffersize ym ymcycles = scast (ucast (ymcycles * of_nat (ym_hz ym) div of_nat (ym_clock ym)) :: s32)"

definition dump_run :: "bool \<Rightarrow> ym \<Rightarrow> int68 \<Rightarrow> string list \<times> int list \<times> ym" where
  "dump_run clean ym ymcycles =
    (let bits = (if clean then effbits else replicate 14 0xFF);
         es = (if ym_events ym = [] then [\<lparr>ev_ymcycle = 0, ev_reg = 15, ev_val = 0\<rparr>] else ym_events ym);
         printed = (if dump_active ym then dump_events bits ym (\<lambda>_. None) es else []);
         ym = ym\<lparr>ym_events := []\<rparr>;
         ym = ym\<lparr>dump_base := dump_base ym + ymcycles, dump_pass := dump_pass ym + 1\<rparr>
     in (printed, replicate (nat (sint (dump_buffersize ym ymcycles))) 0, ym))"

section \<open>Reset and run\<close>

definition init_regs :: "nat \<Rightarrow> u8" where
  "init_regs i =
    (if i < 16 then [0xff, 0x0f, 0xff, 0x0f, 0xff, 0x0f, 0x1f, 0xff, 0, 0, 0, 0xFF, 0xFF, 0x0A, 0, 0] ! i
     else 0)"

definition ym_cb_reset :: "ym \<Rightarrow> ym" where
  "ym_cb_reset ym =
    (case ym_cb ym of
       YmPuls \<Rightarrow> ym\<lparr>ym_puls := puls_reset (ym_puls ym)\<rparr>
     | YmBlep \<Rightarrow> put_blep (blep_reset (ym_blep ym)) ym
     | YmDump \<Rightarrow> ym\<lparr>dump_base := 0, dump_pass := 0\<rparr>)"

definition ym_reset :: "ym \<Rightarrow> ym" where
  "ym_reset ym =
    (let ym = ym\<lparr>ym_shadow := init_regs, ym_reg := init_regs\<rparr>;
         ym = ym\<lparr>ym_ctrl := 0\<rparr>;
         ym = ym_cb_reset ym
     in ym\<lparr>ym_events := [], event_ovf := 0\<rparr>)"

text \<open>
  \<open>ym_run\<close> on a buffer: the code returned, the samples, the lines printed.  The samples are as
  many as the code says; without a buffer (\<open>out = False\<close>) it fails.
\<close>

definition ym_run :: "bool \<Rightarrow> ym \<Rightarrow> bool \<Rightarrow> int68 \<Rightarrow> (int \<times> int list \<times> string list \<times> ym) option" where
  "ym_run clean ym out ymcycles =
    (if ymcycles = 0 then Some (0, [], [], ym)
     else if ymcycles AND 31 \<noteq> 0 \<or> \<not> out then Some (-1, [], [], ym)
     else case ym_cb ym of
         YmPuls \<Rightarrow> Option.bind (puls_run ym ymcycles) (\<lambda>(o', ym). Some (int (length o'), o', [], ym))
       | YmBlep \<Rightarrow> Option.bind (blep_run ym ymcycles) (\<lambda>(o', ym). Some (int (length o'), o', [], ym))
       | YmDump \<Rightarrow> (let (ls, o', ym) = dump_run clean ym ymcycles in Some (int (length o'), o', ls, ym)))"

definition ym_buffersize :: "ym \<Rightarrow> int68 \<Rightarrow> int68" where
  "ym_buffersize ym ymcycles =
    (case ym_cb ym of
       YmPuls \<Rightarrow> puls_buffersize ymcycles
     | YmBlep \<Rightarrow> MAX_MIXBUF
     | YmDump \<Rightarrow> dump_buffersize ym ymcycles)"

section \<open>Parameters\<close>

record ym_parms =
  yp_engine :: int
  yp_volmodel :: int
  yp_clock :: int
  yp_hz :: int

definition YM_ENGINE_QUERY :: int where "YM_ENGINE_QUERY = -1"
definition YM_ENGINE_PULS :: int where "YM_ENGINE_PULS = 1"
definition YM_ENGINE_BLEP :: int where "YM_ENGINE_BLEP = 2"
definition YM_ENGINE_DUMP :: int where "YM_ENGINE_DUMP = 3"
definition YM_CLOCK_ATARIST :: int where "YM_CLOCK_ATARIST = 8010612 div 4"
definition YM_SPR_MIN :: int where "YM_SPR_MIN = 6250"
definition YM_SPR_MAX :: int where "YM_SPR_MAX = 125166"

text \<open>No emulator (\<open>None\<close>) stands for the default parameters, the last component.\<close>

definition ym_engine_set :: "ym option \<Rightarrow> int \<Rightarrow> ym_parms \<Rightarrow> int \<times> ym option \<times> ym_parms" where
  "ym_engine_set ym engine def =
    (if engine = YM_ENGINE_QUERY then (case ym of Some y \<Rightarrow> ym_eng y | None \<Rightarrow> yp_engine def, ym, def)
     else
       let engine = (if engine \<in> {YM_ENGINE_PULS, YM_ENGINE_BLEP, YM_ENGINE_DUMP} then engine else yp_engine def)
       in case ym of
            None \<Rightarrow> (engine, None, def\<lparr>yp_engine := engine\<rparr>)
          | Some y \<Rightarrow> (engine, Some (y\<lparr>ym_eng := engine\<rparr>), def))"

definition ym_clock_set :: "ym option \<Rightarrow> int \<Rightarrow> ym_parms \<Rightarrow> int \<times> ym_parms" where
  "ym_clock_set ym clk def =
    (if clk = 1 then (case ym of Some y \<Rightarrow> int (ym_clock y) | None \<Rightarrow> yp_clock def, def)
     else case ym of
         None \<Rightarrow> (YM_CLOCK_ATARIST, def\<lparr>yp_clock := YM_CLOCK_ATARIST\<rparr>)
       | Some y \<Rightarrow> (int (ym_clock y), def))"

text \<open>
  The sampling rate of an emulator; \<open>cb\<close> tells whether the callback of the engine is set, which
  the blep engine has and \<open>ym_setup\<close> clears at first.
\<close>

definition ym_sampling_rate :: "bool \<Rightarrow> ym \<Rightarrow> int \<Rightarrow> ym_parms \<Rightarrow> int \<times> ym" where
  "ym_sampling_rate cb ym chz def =
    (if chz = -1 then (int (ym_hz ym), ym)
     else
       let hz = (if chz = 0 then yp_hz def else chz);
           hz = (if hz < YM_SPR_MIN then YM_SPR_MIN else hz);
           hz = (if YM_SPR_MAX < hz then YM_SPR_MAX else hz);
           (hz, ym) = (if cb then let (h, y) = blep_sampling_rate ym (nat hz) in (int h, y) else (hz, ym))
       in (hz, ym\<lparr>ym_hz := nat hz\<rparr>))"

definition ym_engine_setup :: "int \<Rightarrow> nat \<Rightarrow> ym \<Rightarrow> int \<times> ym" where
  "ym_engine_setup engine default_filter ym =
    (if engine = YM_ENGINE_PULS then (0, ym\<lparr>ym_cb := YmPuls, ym_puls := (ym_puls ym)\<lparr>ifilter := default_filter\<rparr>\<rparr>)
     else if engine = YM_ENGINE_BLEP then (0, ym\<lparr>ym_cb := YmBlep\<rparr>)
     else if engine = YM_ENGINE_DUMP then
       (0, ym\<lparr>ym_cb := YmDump, dump_base := 0, dump_active := True, dump_pass := 0\<rparr>)
     else (-1, ym))"

text \<open>
  \<open>ym_setup\<close> of an emulator: the parameters with their defaults filled in, then the emulator.
  \<open>table\<close> is the volume table, \<open>chans\<close> the default channels, \<open>filt\<close> the default filter.
\<close>

definition fill_parms :: "ym_parms \<Rightarrow> ym_parms \<Rightarrow> ym_parms" where
  "fill_parms def p =
    (let p = (if yp_engine p = 0 then p\<lparr>yp_engine := yp_engine def\<rparr> else p);
         p = (if yp_hz p = 0 then p\<lparr>yp_hz := yp_hz def\<rparr> else p)
     in if yp_clock p = YM_CLOCK_ATARIST then p else p\<lparr>yp_clock := yp_clock def\<rparr>)"

definition ym_setup :: "(nat \<Rightarrow> int) \<Rightarrow> nat \<Rightarrow> nat \<Rightarrow> ym_parms \<Rightarrow> ym_parms \<Rightarrow> ym \<Rightarrow> int \<times> ym" where
  "ym_setup table chans filt def parms ym =
    (let p = fill_parms def parms;
         ym = ym\<lparr>ymout5 := table, ym_clock := nat (yp_clock p), voice_mute := ym_smsk_table ! (take_bit 3 chans)\<rparr>;
         ym = snd (ym_sampling_rate False ym (yp_hz p) def);
         ym = ym\<lparr>ym_eng := yp_engine p\<rparr>;
         (err, ym) = ym_engine_setup (yp_engine p) filt ym;
         ym = snd (ym_sampling_rate (err = 0 \<and> ym_cb ym = YmBlep) ym (int (ym_hz ym)) def);
         ym = snd (ym_active_channels ym 0 0)
     in if err \<noteq> 0 then (err, ym) else (0, ym_reset ym))"

section \<open>Lemmas\<close>

text \<open>A dump line: six digits, a blank, ten digits, and three characters for each register.\<close>

lemma dump_line_length: "length (dump_line bits ym c r) = 59"
proof -
  have "length (dump_reg bits m r i) = 3" for m i
    by (simp add: dump_reg_def Let_def split: option.splits)
  then have "length (concat (map (dump_reg bits (voice_mute ym) r) is)) = 3 * length is" for "is"
    by (induction "is") simp_all
  then show ?thesis
    by (simp add: dump_line_def hex_digits_def PASS_DIGITS_def CYCLE_DIGITS_def)
qed

lemma reset_ready:
  "ym_cb ym = YmBlep \<Longrightarrow> 256 \<le> cycles_per_sample (ym_blep ym) \<Longrightarrow> mixing_ok (ym_reset ym)"
  by (auto simp: ym_reset_def ym_cb_reset_def Let_def mixing_ok_def blep_ok_def blep_reset_def blep_zero_def MAX_BLEPS_def put_blep_def)

lemma setup_ready:
  assumes "yp_engine (fill_parms def p) = YM_ENGINE_BLEP" "yp_clock (fill_parms def p) = YM_CLOCK_ATARIST"
    "yp_hz (fill_parms def p) \<noteq> -1" "yp_hz (fill_parms def p) \<noteq> 0" "ym_setup table chans filt def p ym = (code, ym')"
  shows "code = 0" and "mixing_ok ym'" and "ym_events ym' = []" and "ym_cb ym' = YmBlep"
proof -
  define q where "q = fill_parms def p"
  define y1 where "y1 = ym\<lparr>ymout5 := table, ym_clock := nat (yp_clock q), voice_mute := ym_smsk_table ! (take_bit 3 chans)\<rparr>"
  define hz where "hz = (let h = (if yp_hz q < YM_SPR_MIN then YM_SPR_MIN else yp_hz q) in if YM_SPR_MAX < h then YM_SPR_MAX else h)"
  have h: "YM_SPR_MIN \<le> hz" "hz \<le> YM_SPR_MAX" by (simp_all add: hz_def YM_SPR_MIN_def YM_SPR_MAX_def Let_def)
  have r1: "ym_sampling_rate False y1 (yp_hz q) def = (hz, y1\<lparr>ym_hz := nat hz\<rparr>)"
    using assms(3,4) by (simp add: ym_sampling_rate_def Let_def q_def [symmetric] hz_def)
  define y2 where "y2 = y1\<lparr>ym_hz := nat hz, ym_eng := yp_engine q, ym_cb := YmBlep\<rparr>"
  have hp: "0 < hz" using h by (simp add: YM_SPR_MIN_def)
  have hi: "int (nat hz) = hz" using hp by simp
  define y3 where "y3 = (snd (blep_sampling_rate y2 (nat hz)))\<lparr>ym_hz := nat hz\<rparr>"
  have r2: "snd (ym_sampling_rate True y2 (int (ym_hz y2)) def) = y3"
  proof -
    have "ym_hz y2 = nat hz" by (simp add: y2_def)
    then show ?thesis
      using h hp by (simp add: ym_sampling_rate_def Let_def split_beta y3_def blep_sampling_rate_def)
  qed
  have cps: "256 \<le> cycles_per_sample (ym_blep y3)"
  proof -
    have "nat hz \<le> ym_clock y2"
      using h assms(2) by (simp add: y2_def y1_def q_def YM_CLOCK_ATARIST_def YM_SPR_MAX_def)
    then show ?thesis using sampling_rate_ok [of "nat hz" y2] hp by (simp add: y3_def)
  qed
  define y4 where "y4 = snd (ym_active_channels y3 0 0)"
  have cb: "ym_cb y4 = YmBlep" "256 \<le> cycles_per_sample (ym_blep y4)"
    using cps by (simp_all add: y4_def ym_active_channels_def Let_def y3_def blep_sampling_rate_def y2_def put_blep_def)
  have c2: "ym_cb y2 = YmBlep" by (simp add: y2_def)
  have es: "ym_engine_setup YM_ENGINE_BLEP filt (y1\<lparr>ym_hz := nat hz, ym_eng := yp_engine q\<rparr>) = (0, y2)"
    by (simp add: ym_engine_setup_def y2_def YM_ENGINE_BLEP_def YM_ENGINE_PULS_def)
  have "ym_setup table chans filt def p ym = (0, ym_reset y4)"
    unfolding ym_setup_def Let_def q_def [symmetric] y1_def [symmetric] r1 snd_conv
    using es r2 c2 assms(1) by (simp add: q_def [symmetric] y4_def)
  then have e: "code = 0" "ym' = ym_reset y4" using assms(5) by simp_all
  show "code = 0" "mixing_ok ym'" using reset_ready [OF cb] e by simp_all
  show "ym_events ym' = []" "ym_cb ym' = YmBlep"
    using cb by (simp_all add: e ym_reset_def ym_cb_reset_def Let_def put_blep_def)
qed

text \<open>Running the default engine: the samples are exactly those of the elapsed time.\<close>

lemma ym_run_blep:
  assumes "mixing_ok ym" "in_order 0 (ym_events ym) n" "ym_cb ym = YmBlep" "n \<noteq> 0" "n AND 31 = 0"
  shows "\<exists>out ym'. ym_run clean ym True n = Some (int (length out), out, [], ym') \<and> mixing_ok ym' \<and>
    ym_events ym' = [] \<and>
    256 * unat n + cycles_to_next_sample (ym_blep ym') =
      cycles_to_next_sample (ym_blep ym) + length out * cycles_per_sample (ym_blep ym)"
proof -
  from blep_run_returns [OF assms(1,2)] obtain out ym' where
    b: "blep_run ym n = Some (out, ym')" "mixing_ok ym'" "ym_events ym' = []"
      "256 * unat n + cycles_to_next_sample (ym_blep ym') =
        cycles_to_next_sample (ym_blep ym) + length out * cycles_per_sample (ym_blep ym)" by blast
  have "ym_run clean ym True n = Some (int (length out), out, [], ym')"
    using b(1) assms(3-5) by (simp add: ym_run_def)
  then show ?thesis using b by blast
qed

end
