(* ===== verification/Io68.thy ===== *)
theory Io68
  imports Reach68 Mfp68 Mw68 Paula68 YmEmul68
begin

text \<open>
  The chips behind the bus of the 68000: the I/O plugins \<open>io68/shifter_io.c\<close>, \<open>mfp_io.c\<close>,
  \<open>mw_io.c\<close>, \<open>paula_io.c\<close> and \<open>ym_io.c\<close>.  Each reads \<open>bus_addr\<close> and \<open>bus_data\<close>, acts on its
  chip, and writes \<open>bus_data\<close>.

  The state of the chips is the field \<open>chips\<close> of the emulator; the plugins are the entries of
  the environment \<open>sc68_env\<close>, on which the contracts of the execution core are interpreted.
  The two halves of a long read are read in the order they are written in.  The conversion of
  the cycle of an interrupt is done on the copy returned: the one in the timer is not read again.

  Lemmas: the plugins respect the contracts of the environment; what a program reads back
  from the registers of the chips.
\<close>

unbundle bit_operations_syntax

section \<open>State\<close>

record shifter =
  data_0a :: u8
  data_60 :: u8

record ymio =
  ymio_mul :: int
  ymio_div :: int68
  ymio_ym :: ym

record sc68_chips =
  c_ym :: ymio
  c_mw :: mw
  c_shifter :: shifter
  c_paula :: paula
  c_mfp :: mfp

type_synonym machine = "sc68_chips emu68"

definition set_bus :: "int68 \<Rightarrow> machine \<Rightarrow> machine" where
  "set_bus v s = s\<lparr>bus_data := v\<rparr>"

section \<open>Shifter\<close>

definition shifter_readB :: "shifter \<Rightarrow> int68 \<Rightarrow> int68" where
  "shifter_readB sh addr =
    (let a = ucast addr :: u8
     in if a = 0x0A then ucast (data_0a sh) else if a = 0x60 then ucast (data_60 sh) else 0)"

definition shifter_writeB :: "int68 \<Rightarrow> int68 \<Rightarrow> shifter \<Rightarrow> shifter" where
  "shifter_writeB addr v sh =
    (let a = ucast addr :: u8
     in if a = 0x0A then sh\<lparr>data_0a := ucast v\<rparr> else if a = 0x60 then sh\<lparr>data_60 := ucast v\<rparr> else sh)"

definition put_shifter :: "shifter \<Rightarrow> machine \<Rightarrow> machine" where
  "put_shifter sh s = s\<lparr>chips := (chips s)\<lparr>c_shifter := sh\<rparr>\<rparr>"

fun shifter_read :: "size68 \<Rightarrow> machine \<Rightarrow> machine" where
  "shifter_read SzB s = set_bus (shifter_readB (c_shifter (chips s)) (bus_addr s)) s"
| "shifter_read SzW s =
    (let r = (\<lambda>k. shifter_readB (c_shifter (chips s)) (bus_addr s + k))
     in set_bus (push_bit 8 (r 0) OR r 1) s)"
| "shifter_read SzL s =
    (let r = (\<lambda>k. shifter_readB (c_shifter (chips s)) (bus_addr s + k))
     in set_bus (push_bit 24 (r 0) OR push_bit 16 (r 1) OR push_bit 8 (r 2) OR r 3) s)"

fun shifter_write :: "size68 \<Rightarrow> machine \<Rightarrow> machine" where
  "shifter_write SzB s = put_shifter (shifter_writeB (bus_addr s) (bus_data s) (c_shifter (chips s))) s"
| "shifter_write SzW s =
    (let sh = shifter_writeB (bus_addr s + 0) (signed_drop_bit 8 (bus_data s)) (c_shifter (chips s))
     in put_shifter (shifter_writeB (bus_addr s + 1) (bus_data s) sh) s)"
| "shifter_write SzL s =
    (let sh = shifter_writeB (bus_addr s + 0) (signed_drop_bit 24 (bus_data s)) (c_shifter (chips s));
         sh = shifter_writeB (bus_addr s + 1) (signed_drop_bit 16 (bus_data s)) sh;
         sh = shifter_writeB (bus_addr s + 2) (signed_drop_bit 8 (bus_data s)) sh
     in put_shifter (shifter_writeB (bus_addr s + 3) (bus_data s) sh) s)"

definition shifter_hz :: "shifter \<Rightarrow> int \<Rightarrow> shifter" where
  "shifter_hz sh hz =
    (if hz = 60 then sh\<lparr>data_0a := 0xfc, data_60 := 0x00\<rparr>
     else if hz = 70 then sh\<lparr>data_0a := 0xfe, data_60 := 0x02\<rparr>
     else sh\<lparr>data_0a := 0xfe, data_60 := 0x00\<rparr>)"

section \<open>MFP\<close>

definition cpu2bogo :: "int68 \<Rightarrow> bogoc" where "cpu2bogo c = c * MFP_BOGO_MUL"
definition bogo2cpu :: "bogoc \<Rightarrow> int68" where "bogo2cpu b = b div MFP_BOGO_MUL"

text \<open>The jump tables \<open>mfpr_func\<close> and \<open>mfpw_func\<close>, by the number of the entry.\<close>

definition mfpr_func :: "nat \<Rightarrow> bogoc \<Rightarrow> mfp \<Rightarrow> int68 \<times> mfp" where
  "mfpr_func k bogoc m =
    (let reg = 2 * k + 1
     in if reg = TADR then mfp_get_tdr m TIMER_A bogoc
        else if reg = TBDR then mfp_get_tdr m TIMER_B bogoc
        else if reg = TCDR then mfp_get_tdr m TIMER_C bogoc
        else if reg = TDDR then mfp_get_tdr m TIMER_D bogoc
        else (ucast (mfp_map m reg), m))"

definition mfpw_func :: "nat \<Rightarrow> int68 \<Rightarrow> bogoc \<Rightarrow> mfp \<Rightarrow> mfp" where
  "mfpw_func k v bogoc m =
    (let reg = 2 * k + 1
     in if reg = IERA then put_map IERA (ucast v) (put_map IPRA (mfp_map m IPRA AND ucast v) m)
        else if reg = IERB then put_map IERB (ucast v) (put_map IPRB (mfp_map m IPRB AND ucast v) m)
        else if reg = IPRA then put_map IPRA (mfp_map m IPRA AND ucast v) m
        else if reg = IPRB then put_map IPRB (mfp_map m IPRB AND ucast v) m
        else if reg = TACR then mfp_put_tcr m TIMER_A v bogoc
        else if reg = TBCR then mfp_put_tcr m TIMER_B v bogoc
        else if reg = TCDCR then mfp_put_tcr m TIMER_C v bogoc
        else if reg = TADR then mfp_put_tdr m TIMER_A v bogoc
        else if reg = TBDR then mfp_put_tdr m TIMER_B v bogoc
        else if reg = TCDR then mfp_put_tdr m TIMER_C v bogoc
        else if reg = TDDR then mfp_put_tdr m TIMER_D v bogoc
        else put_map reg (ucast v) m)"

definition mfp_readB :: "s32 \<Rightarrow> bogoc \<Rightarrow> mfp \<Rightarrow> int68 \<times> mfp" where
  "mfp_readB addr bogoc m =
    (if addr AND 1 = 0 then (0, m) else mfpr_func (unat (signed_drop_bit 1 addr AND 0x1f)) bogoc m)"

definition mfp_writeB :: "s32 \<Rightarrow> int68 \<Rightarrow> bogoc \<Rightarrow> mfp \<Rightarrow> mfp" where
  "mfp_writeB addr v bogoc m =
    (if addr AND 1 = 0 then m else mfpw_func (unat (signed_drop_bit 1 addr AND 0x1f)) (u8_of v) bogoc m)"

definition put_mfp :: "mfp \<Rightarrow> machine \<Rightarrow> machine" where
  "put_mfp m s = s\<lparr>chips := (chips s)\<lparr>c_mfp := m\<rparr>\<rparr>"

fun mfpio_read :: "size68 \<Rightarrow> machine \<Rightarrow> machine" where
  "mfpio_read SzB s =
    (let (v, m) = mfp_readB (lo32 (bus_addr s)) (cpu2bogo (cycle s)) (c_mfp (chips s))
     in set_bus v (put_mfp m s))"
| "mfpio_read SzW s =
    (let (v, m) = mfp_readB (lo32 (bus_addr s + 1)) (cpu2bogo (cycle s)) (c_mfp (chips s))
     in set_bus v (put_mfp m s))"
| "mfpio_read SzL s =
    (let addr = lo32 (bus_addr s);
         (v, m) = mfp_readB (addr + 1) (cpu2bogo (cycle s)) (c_mfp (chips s));
         (w, m) = mfp_readB (addr + 3) (cpu2bogo (cycle s)) m
     in set_bus (push_bit 16 v OR w) (put_mfp m s))"

fun mfpio_write :: "size68 \<Rightarrow> machine \<Rightarrow> machine" where
  "mfpio_write SzB s =
    put_mfp (mfp_writeB (lo32 (bus_addr s)) (bus_data s) (cpu2bogo (cycle s)) (c_mfp (chips s))) s"
| "mfpio_write SzW s =
    put_mfp (mfp_writeB (lo32 (bus_addr s + 1)) (bus_data s) (cpu2bogo (cycle s)) (c_mfp (chips s))) s"
| "mfpio_write SzL s =
    (let m = mfp_writeB (lo32 (bus_addr s + 1)) (signed_drop_bit 16 (bus_data s)) (cpu2bogo (cycle s)) (c_mfp (chips s))
     in put_mfp (mfp_writeB (lo32 (bus_addr s + 3)) (bus_data s) (cpu2bogo (cycle s)) m) s)"

definition mfpio_interrupt :: "int68 \<Rightarrow> machine \<Rightarrow> (interrupt68 option \<times> machine) option" where
  "mfpio_interrupt cyc s =
    Option.bind (mfp_interrupt (cpu2bogo cyc) (c_mfp (chips s))) (\<lambda>(it, m).
      Some (map_option (\<lambda>i. i\<lparr>int_cycle := bogo2cpu (int_cycle i)\<rparr>) it, put_mfp m s))"

definition mfpio_adjust_cycle :: "int68 \<Rightarrow> machine \<Rightarrow> machine option" where
  "mfpio_adjust_cycle cyc s =
    Option.bind (mfp_adjust_bogoc (c_mfp (chips s)) (cpu2bogo cyc)) (\<lambda>m. Some (put_mfp m s))"

definition mfpio_reset :: "machine \<Rightarrow> machine" where
  "mfpio_reset s = put_mfp (mfp_reset (c_mfp (chips s)) (cpu2bogo (cycle s))) s"

section \<open>STE sound\<close>

definition mw_readB :: "mw \<Rightarrow> u8 \<Rightarrow> int68" where
  "mw_readB m addr =
    (let ct = ucast (drop_bit (mw_ct_fix m) (mw_ct m)) :: s32; a = unat addr
     in if a = MW_CTH then ucast (ucast (drop_bit 16 ct) :: u8)
        else if a = MW_CTM then ucast (ucast (drop_bit 8 ct) :: u8)
        else if a = MW_CTL then ucast (ct AND 0xFE)
        else if a < 64 then ucast (mw_map m a) else 0)"

definition mw_readW :: "int68 \<Rightarrow> mw \<Rightarrow> u8 \<Rightarrow> int68" where
  "mw_readW bus m addr =
    (let a = unat addr
     in if a = MW_DATA \<or> a = MW_CTRL then push_bit 8 (ucast (mw_map m a)) + ucast (mw_map m (a + 1))
        else mw_readB m (ucast (bus + 1)))"

definition mw_writeB :: "u8 \<Rightarrow> int68 \<Rightarrow> mw \<Rightarrow> mw" where
  "mw_writeB addr v m =
    (let a = unat addr
     in if addr AND 1 = 0 then m
        else if a = MW_CTH \<or> a = MW_CTM \<or> a = MW_CTL then m
        else
          let (v, m) =
                (if a = MW_ACTI then
                   (v AND 3, m\<lparr>mw_ct := mw_counter_read m MW_BASH, mw_end := mw_counter_read m MW_ENDH\<rparr>)
                 else (v, m))
          in if a < 64 then mw_put a (ucast v) m else m)"

definition mw_writeW :: "u8 \<Rightarrow> int68 \<Rightarrow> mw \<Rightarrow> mw" where
  "mw_writeW addr v m =
    (let a = unat addr
     in if a = MW_CTRL then mw_put (MW_CTRL + 1) (ucast v) (mw_put MW_CTRL (ucast (signed_drop_bit 8 v)) m)
        else if a = MW_DATA then
          snd (mw_command (mw_put (MW_DATA + 1) (ucast v) (mw_put MW_DATA (ucast (signed_drop_bit 8 v)) m)))
        else if addr AND 1 = 0 then mw_writeB (addr + 1) v m
        else m)"

definition mw_writeL :: "u8 \<Rightarrow> int68 \<Rightarrow> mw \<Rightarrow> mw" where
  "mw_writeL addr v m =
    (let a = unat addr
     in if a = MW_DATA then
          let m = mw_put MW_DATA (ucast (signed_drop_bit 24 v)) m;
              m = mw_put (MW_DATA + 1) (ucast (signed_drop_bit 16 v)) m;
              m = mw_put (MW_CTRL + 2) (ucast (signed_drop_bit 8 v)) m;
              m = mw_put (MW_CTRL + 3) (ucast v) m
          in snd (mw_command m)
        else if addr AND 1 = 0 then mw_writeW (addr + 2) v (mw_writeW addr (signed_drop_bit 16 v) m)
        else m)"

definition put_mw :: "mw \<Rightarrow> machine \<Rightarrow> machine" where
  "put_mw m s = s\<lparr>chips := (chips s)\<lparr>c_mw := m\<rparr>\<rparr>"

fun mwio_read :: "size68 \<Rightarrow> machine \<Rightarrow> machine" where
  "mwio_read SzB s = set_bus (mw_readB (c_mw (chips s)) (ucast (bus_addr s))) s"
| "mwio_read SzW s = set_bus (mw_readW (bus_addr s) (c_mw (chips s)) (ucast (bus_addr s))) s"
| "mwio_read SzL s =
    set_bus (push_bit 16 (mw_readW (bus_addr s) (c_mw (chips s)) (ucast (bus_addr s + 0))) OR
             mw_readW (bus_addr s) (c_mw (chips s)) (ucast (bus_addr s + 2))) s"

fun mwio_write :: "size68 \<Rightarrow> machine \<Rightarrow> machine" where
  "mwio_write SzB s = put_mw (mw_writeB (ucast (bus_addr s)) (bus_data s) (c_mw (chips s))) s"
| "mwio_write SzW s = put_mw (mw_writeW (ucast (bus_addr s)) (bus_data s) (c_mw (chips s))) s"
| "mwio_write SzL s = put_mw (mw_writeL (ucast (bus_addr s)) (bus_data s) (c_mw (chips s))) s"

definition mwio_reset :: "machine \<Rightarrow> machine" where
  "mwio_reset s = put_mw (mw_reset (c_mw (chips s))) s"

section \<open>Paula\<close>

definition put_paula :: "paula \<Rightarrow> machine \<Rightarrow> machine" where
  "put_paula p s = s\<lparr>chips := (chips s)\<lparr>c_paula := p\<rparr>\<rparr>"

fun paulaio_read :: "size68 \<Rightarrow> machine \<Rightarrow> machine" where
  "paulaio_read SzB s =
    (let (v, p) = paula_readB (bus_addr s) (c_paula (chips s)) in set_bus v (put_paula p s))"
| "paulaio_read SzW s = set_bus (paula_readW (bus_addr s) (c_paula (chips s))) s"
| "paulaio_read SzL s =
    set_bus (push_bit 16 (paula_readW (bus_addr s + 0) (c_paula (chips s))) OR
             paula_readW (bus_addr s + 2) (c_paula (chips s))) s"

fun paulaio_write :: "size68 \<Rightarrow> machine \<Rightarrow> machine" where
  "paulaio_write SzB s = put_paula (paula_writeB (bus_addr s) (bus_data s) (c_paula (chips s))) s"
| "paulaio_write SzW s = put_paula (paula_writeW (bus_addr s) (bus_data s) (c_paula (chips s))) s"
| "paulaio_write SzL s =
    (let p = paula_writeW (bus_addr s + 0) (signed_drop_bit 16 (bus_data s)) (c_paula (chips s))
     in put_paula (paula_writeW (bus_addr s + 2) (bus_data s) p) s)"

definition paulaio_reset :: "machine \<Rightarrow> machine" where
  "paulaio_reset s = put_paula (paula_reset (c_paula (chips s))) s"

section \<open>YM-2149\<close>

definition cycle_cputoym :: "ymio \<Rightarrow> int68 \<Rightarrow> int68" where
  "cycle_cputoym io c =
    (if ymio_div io = 0 then
       (if ymio_mul io < 0 then drop_bit (nat (- ymio_mul io)) c else push_bit (nat (ymio_mul io)) c)
     else c * word_of_int (ymio_mul io) div ymio_div io)"

definition cycle_ymtocpu :: "ymio \<Rightarrow> int68 \<Rightarrow> int68" where
  "cycle_ymtocpu io c =
    (if ymio_div io = 0 then
       (if ymio_mul io < 0 then push_bit (nat (- ymio_mul io)) c else drop_bit (nat (ymio_mul io)) c)
     else c * ymio_div io div word_of_int (ymio_mul io))"

definition ym_io_readB :: "ymio \<Rightarrow> int68 \<Rightarrow> int68" where
  "ym_io_readB io addr = (if addr AND 3 \<noteq> 0 then 0 else ucast (ym_readreg (ymio_ym io)))"

definition ym_io_readW :: "ymio \<Rightarrow> int68 \<Rightarrow> int68" where
  "ym_io_readW io addr = (if addr AND 3 \<noteq> 0 then 0 else push_bit 8 (ucast (ym_readreg (ymio_ym io))))"

definition ym_io_writeB :: "int68 \<Rightarrow> int68 \<Rightarrow> int68 \<Rightarrow> ymio \<Rightarrow> ymio" where
  "ym_io_writeB addr v ymcycle io =
    (if addr AND 2 = 0 then io\<lparr>ymio_ym := (ymio_ym io)\<lparr>ym_ctrl := ucast v\<rparr>\<rparr>
     else io\<lparr>ymio_ym := ym_writereg (ymio_ym io) (ucast v) ymcycle\<rparr>)"

definition ym_io_writeW :: "int68 \<Rightarrow> int68 \<Rightarrow> int68 \<Rightarrow> ymio \<Rightarrow> ymio" where
  "ym_io_writeW addr v ymcycle io = ym_io_writeB addr (signed_drop_bit 8 v) ymcycle io"

definition put_ymio :: "ymio \<Rightarrow> machine \<Rightarrow> machine" where
  "put_ymio io s = s\<lparr>chips := (chips s)\<lparr>c_ym := io\<rparr>\<rparr>"

fun ymio_read :: "size68 \<Rightarrow> machine \<Rightarrow> machine" where
  "ymio_read SzB s = set_bus (ym_io_readB (c_ym (chips s)) (bus_addr s)) s"
| "ymio_read SzW s = set_bus (ym_io_readW (c_ym (chips s)) (bus_addr s)) s"
| "ymio_read SzL s =
    set_bus (push_bit 16 (ym_io_readW (c_ym (chips s)) (bus_addr s)) OR
             ym_io_readW (c_ym (chips s)) (bus_addr s + 2)) s"

fun ymio_write :: "size68 \<Rightarrow> machine \<Rightarrow> machine" where
  "ymio_write SzB s =
    (let io = c_ym (chips s) in put_ymio (ym_io_writeB (bus_addr s) (bus_data s) (cycle_cputoym io (cycle s)) io) s)"
| "ymio_write SzW s =
    (let io = c_ym (chips s) in put_ymio (ym_io_writeW (bus_addr s) (bus_data s) (cycle_cputoym io (cycle s)) io) s)"
| "ymio_write SzL s =
    (let io = c_ym (chips s);
         ymcycle = cycle_cputoym io (cycle s);
         io = ym_io_writeW (bus_addr s) (signed_drop_bit 16 (bus_data s)) ymcycle io
     in put_ymio (ym_io_writeW (bus_addr s + 2) (bus_data s) ymcycle io) s)"

definition ymio_reset :: "machine \<Rightarrow> machine" where
  "ymio_reset s =
    put_ymio ((c_ym (chips s))\<lparr>ymio_ym := ym_reset (ymio_ym (c_ym (chips s)))\<rparr>) s"

definition ymio_adjust_cycle :: "int68 \<Rightarrow> machine \<Rightarrow> machine option" where
  "ymio_adjust_cycle cyc s =
    (let io = c_ym (chips s); ymcycle = cycle_cputoym io (cycle s)
     in Some (put_ymio (io\<lparr>ymio_ym := ym_adjust_cycle (ymio_ym io) ymcycle\<rparr>) s))"

definition get_power_of_2 :: "int \<Rightarrow> int" where
  "get_power_of_2 v =
    (case find (\<lambda>p. signed_take_bit 31 (2 ^ p) = v) [0..<32] of Some p \<Rightarrow> int p | None \<Rightarrow> -1)"

text \<open>The clock conversion \<open>ymio_create\<close> sets up.\<close>

definition ymio_clock :: "int68 \<Rightarrow> ymio \<Rightarrow> ymio" where
  "ymio_clock emu_clock io =
    (let ymclk = of_nat (ym_clock (ymio_ym io));
         (numerator, denominator, s) =
           (if ymclk < emu_clock then (emu_clock, ymclk, -1) else (ymclk, emu_clock, 1));
         quotient = numerator div denominator;
         p = get_power_of_2 (sint (ucast quotient :: s32))
     in if quotient * denominator = numerator \<and> 0 \<le> p then io\<lparr>ymio_div := 0, ymio_mul := s * p\<rparr>
        else io\<lparr>ymio_div := emu_clock, ymio_mul := sint ymclk\<rparr>)"

section \<open>The environment\<close>

text \<open>The plugins by number, with their ranges; chips without interrupts return at once.\<close>

definition ym_io :: "sc68_chips io68" where
  "ym_io = \<lparr>addr_lo = 0xFFFF8800, addr_hi = 0xFFFF88FF, io_read = ymio_read, io_write = ymio_write,
     io_interrupt = (\<lambda>_ s. Some (None, s)), io_adjust_cycle = ymio_adjust_cycle, io_reset = ymio_reset\<rparr>"

definition mw_io :: "sc68_chips io68" where
  "mw_io = \<lparr>addr_lo = 0xFFFF8900, addr_hi = 0xFFFF8925, io_read = mwio_read, io_write = mwio_write,
     io_interrupt = (\<lambda>_ s. Some (None, s)), io_adjust_cycle = (\<lambda>_ s. Some s), io_reset = mwio_reset\<rparr>"

definition shifter_io :: "sc68_chips io68" where
  "shifter_io = \<lparr>addr_lo = 0xFFFF8200, addr_hi = 0xFFFF82FF, io_read = shifter_read, io_write = shifter_write,
     io_interrupt = (\<lambda>_ s. Some (None, s)), io_adjust_cycle = (\<lambda>_ s. Some s),
     io_reset = (\<lambda>s. put_shifter (shifter_hz (c_shifter (chips s)) 50) s)\<rparr>"

definition paula_io :: "sc68_chips io68" where
  "paula_io = \<lparr>addr_lo = 0xFFDFF000, addr_hi = 0xFFDFF0DF, io_read = paulaio_read, io_write = paulaio_write,
     io_interrupt = (\<lambda>_ s. Some (None, s)), io_adjust_cycle = (\<lambda>_ s. Some s), io_reset = paulaio_reset\<rparr>"

definition mfp_io :: "sc68_chips io68" where
  "mfp_io = \<lparr>addr_lo = 0xFFFFFA00, addr_hi = 0xFFFFFA2F, io_read = mfpio_read, io_write = mfpio_write,
     io_interrupt = mfpio_interrupt, io_adjust_cycle = mfpio_adjust_cycle, io_reset = mfpio_reset\<rparr>"

definition YM_IO :: nat where "YM_IO = 0"
definition MW_IO :: nat where "MW_IO = 1"
definition SHIFTER_IO :: nat where "SHIFTER_IO = 2"
definition PAULA_IO :: nat where "PAULA_IO = 3"
definition MFP_IO :: nat where "MFP_IO = 4"

definition sc68_io :: "nat \<Rightarrow> sc68_chips io68" where
  "sc68_io i = (if i < 5 then [ym_io, mw_io, shifter_io, paula_io, mfp_io] ! i else null_io)"

type_synonym handler68 = "nat \<Rightarrow> nat \<Rightarrow> machine \<Rightarrow> machine"

definition sc68_env :: "handler68 \<Rightarrow> sc68_chips env68" where
  "sc68_env h = \<lparr>ios = sc68_io, hdl = h, emu68cycle = False\<rparr>"

lemma put_chip_frame [frame_intros]:
  "frame68 (\<lambda>_. True) s t \<Longrightarrow> frame68 (\<lambda>_. True) s (set_bus v t)"
  "frame68 (\<lambda>_. True) s t \<Longrightarrow> frame68 (\<lambda>_. True) s (put_shifter sh t)"
  "frame68 (\<lambda>_. True) s t \<Longrightarrow> frame68 (\<lambda>_. True) s (put_mfp m t)"
  "frame68 (\<lambda>_. True) s t \<Longrightarrow> frame68 (\<lambda>_. True) s (put_mw w t)"
  "frame68 (\<lambda>_. True) s t \<Longrightarrow> frame68 (\<lambda>_. True) s (put_paula p t)"
  "frame68 (\<lambda>_. True) s t \<Longrightarrow> frame68 (\<lambda>_. True) s (put_ymio y t)"
  by (simp_all add: frame68_def set_bus_def put_shifter_def put_mfp_def put_mw_def put_paula_def put_ymio_def)

lemma chip_access_frame:
  "frame68 (\<lambda>_. True) s (shifter_read sz s)" "frame68 (\<lambda>_. True) s (shifter_write sz s)"
  "frame68 (\<lambda>_. True) s (mfpio_read sz s)" "frame68 (\<lambda>_. True) s (mfpio_write sz s)"
  "frame68 (\<lambda>_. True) s (mwio_read sz s)" "frame68 (\<lambda>_. True) s (mwio_write sz s)"
  "frame68 (\<lambda>_. True) s (paulaio_read sz s)" "frame68 (\<lambda>_. True) s (paulaio_write sz s)"
  "frame68 (\<lambda>_. True) s (ymio_read sz s)" "frame68 (\<lambda>_. True) s (ymio_write sz s)"
  by (cases sz; auto simp: Let_def split: prod.splits intro!: frame_intros)+

lemma chip_other_frame:
  "frame68 (\<lambda>_. True) s (mfpio_reset s)" "frame68 (\<lambda>_. True) s (mwio_reset s)" "frame68 (\<lambda>_. True) s (paulaio_reset s)" "frame68 (\<lambda>_. True) s (ymio_reset s)"
  "mfpio_adjust_cycle n s = Some t \<Longrightarrow> frame68 (\<lambda>_. True) s t" "ymio_adjust_cycle n s = Some t \<Longrightarrow> frame68 (\<lambda>_. True) s t"
  "mfpio_interrupt n s = Some (it, t) \<Longrightarrow> frame68 (\<lambda>_. True) s t"
  by (auto simp: mfpio_reset_def mwio_reset_def paulaio_reset_def ymio_reset_def mfpio_adjust_cycle_def
      ymio_adjust_cycle_def mfpio_interrupt_def Let_def bind_eq_Some_conv intro!: frame_intros)

lemmas plugin_defs = ym_io_def mw_io_def shifter_io_def paula_io_def mfp_io_def null_io_def

lemma sc68_io_cases: "sc68_io i \<in> {ym_io, mw_io, shifter_io, paula_io, mfp_io, null_io}"
proof (cases "i < 5")
  case True
  then have "i = 0 \<or> i = 1 \<or> i = 2 \<or> i = 3 \<or> i = 4" by linarith
  then show ?thesis by (auto simp: sc68_io_def)
qed (simp add: sc68_io_def)

lemma sc68_io_frame:
  "frame68 (\<lambda>_. True) s (io_read (sc68_io i) sz s)" "frame68 (\<lambda>_. True) s (io_write (sc68_io i) sz s)"
  "frame68 (\<lambda>_. True) s (io_reset (sc68_io i) s)"
  "io_adjust_cycle (sc68_io i) n s = Some t \<Longrightarrow> frame68 (\<lambda>_. True) s t"
  "io_interrupt (sc68_io i) n s = Some (it, t) \<Longrightarrow> frame68 (\<lambda>_. True) s t"
  using sc68_io_cases [of i]
  by (auto simp: plugin_defs chip_access_frame chip_other_frame intro!: frame_intros)

section \<open>The chips stay well formed\<close>

definition chips_ok :: "sc68_chips \<Rightarrow> bool" where
  "chips_ok c \<longleftrightarrow> mfp_ok (c_mfp c) \<and> mw_ok (c_mw c) \<and> ym_events_ok (ymio_ym (c_ym c))"

lemma mfp_access_ok:
  assumes "mfp_ok m"
  shows "mfp_ok (snd (mfp_readB a b m))" "mfp_ok (mfp_writeB a v b m)"
proof -
  have r: "mfp_ok (snd (mfpr_func k b m))" for k
    using assms put_get_tdr_ok [OF assms] by (simp add: mfpr_func_def Let_def)
  then show "mfp_ok (snd (mfp_readB a b m))" using assms by (simp add: mfp_readB_def)
  have "mfp_ok (mfpw_func k w b m)" for k w
    using assms
    by (auto simp: mfpw_func_def Let_def timer_names intro!: mfp_ok_put put_tcr_ok put_get_tdr_ok)
  then show "mfp_ok (mfp_writeB a v b m)" using assms by (simp add: mfp_writeB_def)
qed

lemma mw_access_ok:
  assumes "mw_ok m"
  shows "mw_ok (mw_writeB a v m)" "mw_ok (mw_writeW a v m)" "mw_ok (mw_writeL a v m)"
proof -
  have c: "mw_ok (m'\<lparr>mw_ct := x, mw_end := y\<rparr>) = mw_ok m'" for m' x y by (simp add: mw_ok_def)
  have b: "mw_ok m' \<Longrightarrow> mw_ok (mw_writeB a v m')" for a v m'
    by (simp add: mw_writeB_def Let_def c)
  have w: "mw_ok m' \<Longrightarrow> mw_ok (mw_writeW a v m')" for a v m'
    by (auto simp: mw_writeW_def Let_def intro!: b command_ok)
  show "mw_ok (mw_writeB a v m)" "mw_ok (mw_writeW a v m)" using assms b w by blast+
  show "mw_ok (mw_writeL a v m)"
    using assms by (auto simp: mw_writeL_def Let_def intro!: w command_ok)
qed

lemma ym_access_ok:
  "ym_events_ok (ymio_ym io) \<Longrightarrow> ym_events_ok (ymio_ym (ym_io_writeB a v c io))"
  "ym_events_ok (ymio_ym io) \<Longrightarrow> ym_events_ok (ymio_ym (ym_io_writeW a v c io))"
  by (auto simp: ym_io_writeW_def ym_io_writeB_def intro!: writereg_events_ok) (simp_all add: ym_events_ok_def)

lemma chips_put [simp]:
  "chips (set_bus v s) = chips s"
  "chips (put_shifter sh s) = (chips s)\<lparr>c_shifter := sh\<rparr>" "chips (put_mfp m s) = (chips s)\<lparr>c_mfp := m\<rparr>"
  "chips (put_mw w s) = (chips s)\<lparr>c_mw := w\<rparr>" "chips (put_paula p s) = (chips s)\<lparr>c_paula := p\<rparr>"
  "chips (put_ymio y s) = (chips s)\<lparr>c_ym := y\<rparr>"
  by (simp_all add: set_bus_def put_shifter_def put_mfp_def put_mw_def put_paula_def put_ymio_def)

lemma chips_ok_updates:
  "chips_ok c \<Longrightarrow> chips_ok (c\<lparr>c_shifter := sh\<rparr>)" "chips_ok c \<Longrightarrow> chips_ok (c\<lparr>c_paula := p\<rparr>)"
  "chips_ok c \<Longrightarrow> mfp_ok m \<Longrightarrow> chips_ok (c\<lparr>c_mfp := m\<rparr>)" "chips_ok c \<Longrightarrow> mw_ok w \<Longrightarrow> chips_ok (c\<lparr>c_mw := w\<rparr>)"
  "chips_ok c \<Longrightarrow> ym_events_ok (ymio_ym y) \<Longrightarrow> chips_ok (c\<lparr>c_ym := y\<rparr>)"
  by (simp_all add: chips_ok_def)

lemma chips_ok_parts:
  "chips_ok c \<Longrightarrow> mfp_ok (c_mfp c)" "chips_ok c \<Longrightarrow> mw_ok (c_mw c)" "chips_ok c \<Longrightarrow> ym_events_ok (ymio_ym (c_ym c))"
  by (simp_all add: chips_ok_def)

lemma mfp_read_chips:
  assumes "chips_ok (chips s)"
  shows "chips_ok (chips (mfpio_read sz s))" "chips_ok (chips (mfpio_write sz s))"
proof -
  note m = chips_ok_parts(1) [OF assms]
  show "chips_ok (chips (mfpio_write sz s))"
    using assms m by (cases sz) (auto simp: Let_def intro!: chips_ok_updates mfp_access_ok)
  show "chips_ok (chips (mfpio_read sz s))"
  proof (cases sz)
    case SzL
    define r where "r = mfp_readB (lo32 (bus_addr s) + 1) (cpu2bogo (cycle s)) (c_mfp (chips s))"
    define q where "q = mfp_readB (lo32 (bus_addr s) + 3) (cpu2bogo (cycle s)) (snd r)"
    have "mfp_ok (snd q)" unfolding q_def r_def by (intro mfp_access_ok m)
    moreover have "mfpio_read sz s = set_bus (push_bit 16 (fst r) OR fst q) (put_mfp (snd q) s)"
      by (simp add: SzL Let_def split_beta r_def q_def)
    ultimately show ?thesis using assms by (simp add: chips_ok_updates)
  qed (use assms m in \<open>auto simp: split_beta intro!: chips_ok_updates mfp_access_ok\<close>)
qed

text \<open>Every access of a program to a chip keeps the chips well formed.\<close>

lemma sc68_io_chips:
  assumes "chips_ok (chips s)"
  shows "chips_ok (chips (io_read (sc68_io i) sz s))" and "chips_ok (chips (io_write (sc68_io i) sz s))"
proof -
  have r: "chips_ok (chips (shifter_read sz s))" "chips_ok (chips (mwio_read sz s))"
    "chips_ok (chips (paulaio_read sz s))" "chips_ok (chips (ymio_read sz s))"
    using assms by (cases sz; simp add: Let_def split_beta chips_ok_updates)+
  show "chips_ok (chips (io_read (sc68_io i) sz s))"
    using sc68_io_cases [of i] r assms mfp_read_chips(1) [OF assms] by (auto simp: plugin_defs)
  have w: "chips_ok (chips (shifter_write sz s))" "chips_ok (chips (paulaio_write sz s))"
    using assms by (cases sz; simp add: Let_def chips_ok_updates)+
  have m: "chips_ok (chips (mwio_write sz s))"
    using assms chips_ok_parts(2) [OF assms]
    by (cases sz) (auto intro!: chips_ok_updates mw_access_ok)
  have y: "chips_ok (chips (ymio_write sz s))"
    using assms chips_ok_parts(3) [OF assms]
    by (cases sz) (auto simp: Let_def intro!: chips_ok_updates ym_access_ok)
  show "chips_ok (chips (io_write (sc68_io i) sz s))"
    using sc68_io_cases [of i] w m y assms mfp_read_chips(2) [OF assms] by (auto simp: plugin_defs)
qed

text \<open>So do the reset of the chips, their interrupts and the move of their cycle base.\<close>

lemma sc68_io_chips_other:
  assumes "chips_ok (chips s)"
  shows "chips_ok (chips (io_reset (sc68_io i) s))"
    and "io_adjust_cycle (sc68_io i) n s = Some t \<Longrightarrow> chips_ok (chips t)"
    and "io_interrupt (sc68_io i) n s = Some (it, t) \<Longrightarrow> chips_ok (chips t)"
proof -
  note m = chips_ok_parts [OF assms]
  have y: "ym_events_ok (ym_reset ym)" "ym_events_ok ym \<Longrightarrow> ym_events_ok (ym_adjust_cycle ym c)" for ym c
    by (auto simp: ym_events_ok_def ym_reset_def ym_adjust_cycle_def Let_def)
  have r: "chips_ok (chips (mfpio_reset s))" "chips_ok (chips (mwio_reset s))" "chips_ok (chips (paulaio_reset s))"
    "chips_ok (chips (ymio_reset s))"
    using assms m by (simp_all add: mfpio_reset_def mwio_reset_def paulaio_reset_def ymio_reset_def
        chips_ok_updates reset_setup_ok mw_reset_ok y Let_def)
  show "chips_ok (chips (io_reset (sc68_io i) s))"
    using sc68_io_cases [of i] assms r by (auto simp: plugin_defs chips_ok_updates)
  have a: "mfpio_adjust_cycle n s = Some t \<Longrightarrow> chips_ok (chips t)" "ymio_adjust_cycle n s = Some t \<Longrightarrow> chips_ok (chips t)"
    using assms m y by (auto simp: mfpio_adjust_cycle_def ymio_adjust_cycle_def Let_def bind_eq_Some_conv
        chips_ok_updates dest!: mfp_adjust_ok)
  show "io_adjust_cycle (sc68_io i) n s = Some t \<Longrightarrow> chips_ok (chips t)"
    using sc68_io_cases [of i] assms a by (auto simp: plugin_defs)
  have "mfpio_interrupt n s = Some (it, t) \<Longrightarrow> chips_ok (chips t)"
    using assms m(1) mfp_interrupt_ok
    by (fastforce simp: mfpio_interrupt_def Let_def bind_eq_Some_conv intro!: chips_ok_updates split: prod.splits)
  then show "io_interrupt (sc68_io i) n s = Some (it, t) \<Longrightarrow> chips_ok (chips t)"
    using sc68_io_cases [of i] assms by (auto simp: plugin_defs)
qed

section \<open>The environment keeps the contracts of the execution core\<close>

lemma sc68_io_frame_chips:
  "frame68 chips_ok s (io_read (sc68_io i) sz s)" "frame68 chips_ok s (io_write (sc68_io i) sz s)"
  "frame68 chips_ok s (io_reset (sc68_io i) s)"
  "io_adjust_cycle (sc68_io i) n s = Some t \<Longrightarrow> frame68 chips_ok s t"
  "io_interrupt (sc68_io i) n s = Some (it, t) \<Longrightarrow> frame68 chips_ok s t"
proof -
  show "frame68 chips_ok s (io_read (sc68_io i) sz s)"
    by (rule frame68_chips [where I = chips_ok, OF sc68_io_frame(1) sc68_io_chips(1)])
  show "frame68 chips_ok s (io_write (sc68_io i) sz s)"
    by (rule frame68_chips [where I = chips_ok, OF sc68_io_frame(2) sc68_io_chips(2)])
  show "frame68 chips_ok s (io_reset (sc68_io i) s)"
    by (rule frame68_chips [where I = chips_ok, OF sc68_io_frame(3) sc68_io_chips_other(1)])
  show "io_adjust_cycle (sc68_io i) n s = Some t \<Longrightarrow> frame68 chips_ok s t"
    by (rule frame68_chips [where I = chips_ok, OF sc68_io_frame(4) sc68_io_chips_other(2)])
  show "io_interrupt (sc68_io i) n s = Some (it, t) \<Longrightarrow> frame68 chips_ok s t"
    by (rule frame68_chips [where I = chips_ok, OF sc68_io_frame(5) sc68_io_chips_other(3)])
qed

text \<open>
  The contract of the exception handler a player installs; with it, the environment keeps the
  contracts of the execution core.
\<close>

locale handler_ok =
  fixes h :: handler68
  assumes keeps_frame: "frame68 chips_ok s (h n v s)"
    and keeps_break: "status s = EMU68_BRK \<Longrightarrow> status (h n HWINSTOV_VECTOR s) \<noteq> EMU68_NRM"

sublocale handler_ok \<subseteq> chips: env_chips "sc68_env h" chips_ok
  by unfold_locales (auto simp: sc68_env_def sc68_io_frame_chips keeps_frame)

sublocale handler_ok \<subseteq> stops: env_stops "sc68_env h" chips_ok
  by unfold_locales (simp add: sc68_env_def keeps_break)

sublocale handler_ok \<subseteq> runs: env_runs "sc68_env h" chips_ok
  by unfold_locales

text \<open>Outside debug mode the player installs no handler.\<close>

definition no_handler :: handler68 where
  "no_handler n v s = s"

interpretation player: handler_ok no_handler
  by unfold_locales (simp_all add: no_handler_def)

section \<open>Moving the cycle base of the machine\<close>

lemma put_mfp_fields [simp]:
  "cycle (put_mfp m s) = cycle s" "cycle (put_ymio y s) = cycle s"
  by (simp_all add: put_mfp_def put_ymio_def)

lemma adjust_chips_returns:
  "chips_ok (chips s) \<Longrightarrow> unat (cpu2bogo (cycle s)) \<le> 2 ^ 62 \<Longrightarrow>
    \<exists>t. adjust_chips (sc68_env h) is s = Some t \<and> chips_ok (chips t) \<and> cycle t = cycle s"
proof (induction "is" arbitrary: s)
  case (Cons i js)
  have "\<exists>t. io_adjust_cycle (sc68_io i) (cycle s) s = Some t \<and> chips_ok (chips t) \<and> cycle t = cycle s"
  proof -
    have y: "ym_events_ok ym \<Longrightarrow> ym_events_ok (ym_adjust_cycle ym c)" for ym c
      by (auto simp: ym_events_ok_def ym_adjust_cycle_def)
    from mfp_adjust_returns [OF Cons.prems(2) chips_ok_parts(1) [OF Cons.prems(1)]]
    obtain m where m: "mfp_adjust_bogoc (c_mfp (chips s)) (cpu2bogo (cycle s)) = Some m" "mfp_ok m" by blast
    show ?thesis
      using sc68_io_cases [of i] Cons.prems m y [OF chips_ok_parts(3) [OF Cons.prems(1)]]
      by (auto simp: plugin_defs mfpio_adjust_cycle_def ymio_adjust_cycle_def Let_def chips_ok_updates)
  qed
  then obtain t where t: "io_adjust_cycle (sc68_io i) (cycle s) s = Some t" "chips_ok (chips t)" "cycle t = cycle s"
    by blast
  from Cons.IH [of t] t Cons.prems(2) show ?case by (simp add: sc68_env_def)
qed auto

context handler_ok
begin

text \<open>A run of the machine with a budget returns, with the chips well formed.\<close>

lemma machine_run:
  assumes "chips_ok (chips s)" "unat (cpu2bogo (cycle s)) \<le> 2 ^ 62" "n \<noteq> 0" "n \<noteq> EMU68_CONT"
  shows "\<exists>t. emu68_finish (sc68_env h) n s = Some t \<and> run68 chips_ok s t \<and> chips_ok (chips t)"
proof -
  define u where "u = s\<lparr>finish_sp := sx (areg s 7), frm_chk_fl := 0, instructions := n\<rparr>"
  have "adjust_chips (sc68_env h) (iohead s) u \<noteq> None"
    using adjust_chips_returns [of u h "iohead s"] assms(1,2) by (auto simp: u_def)
  from runs.finish_returns [OF assms(3,4) u_def disjI2, OF this] show ?thesis
    using chips.run_chips assms(1) by blast
qed

lemma machine_reach: "emu68_reach (sc68_env h) c s \<Longrightarrow> chips_ok c \<Longrightarrow> wf68 s \<and> chips_ok (chips s)"
  by (rule chips.reach_wf)

end

section \<open>What a program reads back\<close>

text \<open>
  The YM through the bus: the register selected by a write to its control port and written by a
  write to its data port is read back at the control port.
\<close>

lemma ymio_byte:
  "bus_addr s AND 2 = 0 \<Longrightarrow> ymio_write SzB s =
    put_ymio ((c_ym (chips s))\<lparr>ymio_ym := (ymio_ym (c_ym (chips s)))\<lparr>ym_ctrl := ucast (bus_data s)\<rparr>\<rparr>) s"
  "bus_addr s AND 2 \<noteq> 0 \<Longrightarrow> ymio_write SzB s =
    put_ymio ((c_ym (chips s))\<lparr>ymio_ym := ym_writereg (ymio_ym (c_ym (chips s))) (ucast (bus_data s))
      (cycle_cputoym (c_ym (chips s)) (cycle s))\<rparr>) s"
  by (simp_all add: ym_io_writeB_def Let_def)

lemma ymio_readback:
  fixes s :: machine and r v :: u8
  assumes "unat r < 16"
  defines "t \<equiv> ymio_write SzB ((ymio_write SzB (s\<lparr>bus_addr := 0xFFFF8800, bus_data := ucast r\<rparr>))
      \<lparr>bus_addr := 0xFFFF8802, bus_data := ucast v\<rparr>)"
  shows "bus_data (ymio_read SzB (t\<lparr>bus_addr := 0xFFFF8800\<rparr>)) = ucast v"
    and "ym_ctrl (ymio_ym (c_ym (chips t))) = r"
    and "length (ym_events (ymio_ym (c_ym (chips s)))) < YM_MAX_EVENTS \<Longrightarrow>
      ym_events (ymio_ym (c_ym (chips t))) = ym_events (ymio_ym (c_ym (chips s))) @
        [\<lparr>ev_ymcycle = cycle_cputoym (c_ym (chips s)) (cycle s), ev_reg = unat r, ev_val = v\<rparr>]"
proof -
  define y where "y = (ymio_ym (c_ym (chips s)))\<lparr>ym_ctrl := r\<rparr>"
  have c: "cycle_cputoym (c\<lparr>ymio_ym := z\<rparr>) n = cycle_cputoym c n" for c z n
    by (simp add: cycle_cputoym_def)
  have y: "c_ym (chips t) = (c_ym (chips s))\<lparr>ymio_ym := ym_writereg y v (cycle_cputoym (c_ym (chips s)) (cycle s))\<rparr>"
    by (simp add: t_def ym_io_writeB_def y_def Let_def c)
  have r: "unat (ym_ctrl y) < 16" using assms(1) by (simp add: y_def)
  have w: "ym_ctrl (ym_writereg y v c) = r" for c
    by (simp add: ym_writereg_def y_def Let_def)
  show "bus_data (ymio_read SzB (t\<lparr>bus_addr := 0xFFFF8800\<rparr>)) = ucast v"
    by (simp add: y ym_io_readB_def set_bus_def ym_read_after_write [OF r])
  show "ym_ctrl (ymio_ym (c_ym (chips t))) = r" by (simp add: y w)
  show "length (ym_events (ymio_ym (c_ym (chips s)))) < YM_MAX_EVENTS \<Longrightarrow>
      ym_events (ymio_ym (c_ym (chips t))) = ym_events (ymio_ym (c_ym (chips s))) @
        [\<lparr>ev_ymcycle = cycle_cputoym (c_ym (chips s)) (cycle s), ev_reg = unat r, ev_val = v\<rparr>]"
    using assms(1) by (simp add: y ym_writereg_def y_def Let_def)
qed

text \<open>The conversion between the clocks of the processor and of the YM of the Atari.\<close>

lemma atari_clock:
  assumes "ym_clock (ymio_ym io) = 2002653"
  shows "ymio_div (ymio_clock 8010612 io) = 0" "ymio_mul (ymio_clock 8010612 io) = -2"
proof -
  have q: "(8010612 :: int68) div 2002653 = 4" "(2002653 :: int68) < 8010612" by simp_all
  have p: "get_power_of_2 (sint (ucast (4 :: int68) :: s32)) = 2"
    by (simp add: get_power_of_2_def upt_rec)
  show "ymio_div (ymio_clock 8010612 io) = 0" "ymio_mul (ymio_clock 8010612 io) = -2"
    using p by (simp_all add: ymio_clock_def assms q Let_def)
qed

lemma clock_roundtrip:
  assumes "ymio_div io = 0" "ymio_mul io = -2" "unat c < 2 ^ 62"
  shows "cycle_cputoym io (cycle_ymtocpu io c) = c" and "c AND 31 = 0 \<Longrightarrow> cycle_ymtocpu io (cycle_cputoym io c) = c"
proof -
  have b: "bit c n \<Longrightarrow> n < 62" for n
  proof -
    have "take_bit 62 (unat c) = unat c" using assms(3) by (simp add: take_bit_nat_eq_self)
    then have "bit (unat c) n \<Longrightarrow> n < 62" by (metis bit_take_bit_iff)
    then show "bit c n \<Longrightarrow> n < 62" by (simp add: bit_unsigned_iff)
  qed
  show "cycle_cputoym io (cycle_ymtocpu io c) = c"
    unfolding cycle_cputoym_def cycle_ymtocpu_def assms(1,2)
    by (simp, rule bit_word_eqI) (auto simp: bit_simps dest: b)
  assume "c AND 31 = 0"
  then have "c AND mask 5 = 0" by (simp add: mask_eq_exp_minus_1)
  then have z: "n < 5 \<Longrightarrow> \<not> bit c n" for n
    by (metis bit_and_iff bit_mask_iff bit_0_eq bot_apply bot_bool_def possible_bit_word len_of_numeral_defs(1) linorder_not_less bit_imp_le_length)
  show "cycle_ymtocpu io (cycle_cputoym io c) = c"
    unfolding cycle_cputoym_def cycle_ymtocpu_def assms(1,2)
  proof (simp, rule bit_word_eqI)
    fix n assume "n < LENGTH(64)"
    then show "bit (push_bit 2 (drop_bit 2 c)) n = bit c n"
      using z [of n] by (cases "n < 2") (auto simp: bit_simps dest!: le_Suc_ex simp: not_less)
  qed
qed

end
