(* ===== verification/Chips68.thy ===== *)
theory Chips68
  imports Io68
begin

text \<open>
  The machine with its chips: an Atari as the setup functions of the chips leave it, and the
  properties of the chips and of the processor running with them.  The properties are the
  contracts proved in the theories of the chips, stated on the functions of the code; the
  witnesses run on the machine of the first section.
\<close>

section \<open>A machine for the examples\<close>

text \<open>The state before setup is what \<open>calloc\<close> returns: zeros.\<close>

definition zero_timer :: mfp_timer where
  "zero_timer = \<lparr>t_def = \<lparr>def_vector = 0, def_level = 0, def_bit = 0, def_channel = 0\<rparr>,
     t_cti = 0, t_tdr_cur = 0, t_tdr_res = 0, t_tcr = 0, t_psc = 0, t_int_lost = 0, t_int_mask = 0,
     t_int_fall = 0, t_interrupt = \<lparr>int_vector = 0, int_level = 0, int_cycle = 0\<rparr>\<rparr>"

definition mfp0 :: mfp where
  "mfp0 = mfp_setup \<lparr>mfp_map = (\<lambda>_. 0), mfp_timers = (\<lambda>_. zero_timer)\<rparr>"

definition mw0 :: mw where
  "mw0 = mw_setup \<lparr>parm_engine = 1, parm_hz = 44100\<rparr> 16 \<lparr>parm_engine = 1, parm_hz = 48000\<rparr>
     \<lparr>mw_map = (\<lambda>_. 0), mw_ct = 0, mw_end = 0,
      mw_lmc = \<lparr>lmc_master = 0, lmc_left = 0, lmc_right = 0, lmc_lr_avg = 0, lmc_high = 0, lmc_low = 0, lmc_mixer = 0\<rparr>,
      mw_db_conv = DbMix, mw_eng = 0, mw_hz = 0, mw_ct_fix = 0, mw_log2mem = 0\<rparr>"

definition paula0 :: paula where
  "paula0 = paula_setup \<lparr>pp_engine = 1, pp_clock = 1, pp_hz = 44100\<rparr> 16 15 \<lparr>pp_engine = 1, pp_clock = 1, pp_hz = 48000\<rparr>
     \<lparr>pl_map = (\<lambda>_. 0), pl_voice = (\<lambda>_. \<lparr>v_adr = 0, v_start = 0, v_end = 0\<rparr>), pl_engine = 0, pl_ct_fix = 0,
      pl_clock = 0, pl_clkperspl = 0, pl_hz = 0, pl_chans = None, pl_log2mem = 0, pl_dmacon = 0,
      pl_intena = 0, pl_intreq = 0, pl_adkcon = 0, pl_vhpos = 0\<rparr>"

definition zero_ym :: ym where
  "zero_ym = \<lparr>ym_cb = YmBlep, ym_ctrl = 0, ym_reg = (\<lambda>_. 0), ym_shadow = (\<lambda>_. 0), ymout5 = (\<lambda>_. 0),
     voice_mute = 0, ym_hz = 0, ym_clock = 0, ym_events = [], event_ovf = 0, ym_eng = 0, ym_volmodel = 0,
     ym_puls = \<lparr>envel_ct = 0, envel_idx = 0, noise_bit = 0, noise_ct = 0, voice_ctA = 0, voice_ctB = 0,
       voice_ctC = 0, levels = 0, hipass_inp1 = 0, hipass_out1 = 0, lopass_out1 = 0, btw_x = (0, 0),
       btw_y = (0, 0), btw_a = (0, 0, 0), btw_b = (0, 0), ifilter = 0\<rparr>,
     ym_blep = \<lparr>cycles_per_sample = 0, cycles_to_next_sample = 0,
       tonegen = (\<lambda>_. \<lparr>tn_count = 0, tn_event = 0, flip_flop = 0, tonemix = 0, noisemix = 0, envmask = 0, volmask = 0\<rparr>),
       noise_event = 0, noise_count = 0, noise_state = 0, noise_output = 0, env_event = 0, env_count = 0,
       env_state = 0, env_output = 0, global_output_level = 0, blep_idx = 0, blep_time = 0, hp = 0,
       blepstate = (\<lambda>_. \<lparr>bs_stamp = 0, bs_level = 0\<rparr>)\<rparr>,
     dump_base = 0, dump_pass = 0, dump_active = False\<rparr>"

definition ym0 :: ym where
  "ym0 = (let p = \<lparr>yp_engine = YM_ENGINE_BLEP, yp_volmodel = 0, yp_clock = YM_CLOCK_ATARIST, yp_hz = 44100\<rparr>
          in snd (ym_setup (\<lambda>_. 0) 7 0 p p zero_ym))"

definition chips0 :: sc68_chips where
  "chips0 = \<lparr>c_ym = ymio_clock 8010612 \<lparr>ymio_mul = 0, ymio_div = 0, ymio_ym = ym0\<rparr>, c_mw = mw0,
     c_shifter = \<lparr>data_0a = 0xFE, data_60 = 0\<rparr>, c_paula = paula0, c_mfp = mfp0\<rparr>"


lemma mfp0_ok: "mfp_ok mfp0"
  by (simp add: mfp0_def reset_setup_ok)

lemma mw0_ok: "mw_ok mw0"
  unfolding mw0_def by (rule mw_setup_ok) (simp_all add: MW_HZ_QUERY_def)

lemma ym0_ready: "mixing_ok ym0" "ym_events ym0 = []" "ym_cb ym0 = YmBlep"
proof -
  define p where "p = \<lparr>yp_engine = YM_ENGINE_BLEP, yp_volmodel = 0, yp_clock = YM_CLOCK_ATARIST, yp_hz = (44100 :: int)\<rparr>"
  have f: "fill_parms p p = p" by (simp add: fill_parms_def p_def YM_ENGINE_BLEP_def)
  have y: "ym_setup (\<lambda>_. 0) 7 0 p p zero_ym = (fst (ym_setup (\<lambda>_. 0) 7 0 p p zero_ym), ym0)"
    by (simp add: ym0_def p_def Let_def)
  show "mixing_ok ym0" "ym_events ym0 = []" "ym_cb ym0 = YmBlep"
    by (rule setup_ready [OF _ _ _ _ y]; simp add: f; simp add: p_def)+
qed


lemma paula0_regs: "pl_dmacon paula0 = 0x200" "pl_ct_fix paula0 = 48"
proof -
  have f: "pl_ct_fix (fold (\<lambda>i. pl_put (a i) (b i)) xs p) = pl_ct_fix p" for a b xs p
    by (induction xs arbitrary: p) (simp_all add: pl_put_def)
  show "pl_dmacon paula0 = 0x200" "pl_ct_fix paula0 = 48"
    by (simp_all add: paula0_def paula_setup_def paula_engine_def paula_reset_def set_clock_def Let_def
        PAULA_QUERY_def PAULA_ENGINE_SIMPLE_def pl_put_def put_voice_def upt_rec)
qed

lemma paula_write_fix: "pl_ct_fix (paula_writeW a d p) = pl_ct_fix p"
  by (simp add: paula_writeW_def Let_def reload_if_fields write_intreq_def pl_put_def)

lemma chips0_ok: "chips_ok chips0"
  using mfp0_ok mw0_ok ym0_ready(2)
  by (simp add: chips_ok_def chips0_def ymio_clock_def ym_events_ok_def Let_def split_beta)

section \<open>The microwire\<close>




text \<open>What the dispatcher does to the volumes.\<close>

lemma command_map: "mw_map (snd (command_dispatcher n m)) = mw_map m"
proof -
  have "mw_map (snd (mw_lmc_mixer i m)) = mw_map m" "mw_map (snd (mw_lmc_master i m)) = mw_map m"
    "mw_map (snd (lmc_lr b i m)) = mw_map m" "mw_map (snd (lmc_hl b i m)) = mw_map m" for b i
    by (simp_all add: mw_lmc_mixer_def mw_lmc_master_def lmc_lr_def lmc_hl_def put_lmc_def Let_def)
  then show ?thesis
    unfolding command_dispatcher_def mw_lmc_left_def mw_lmc_right_def mw_lmc_high_def mw_lmc_low_def Let_def
    by (simp only: if_distrib [of snd] if_distrib [of mw_map] snd_conv if_cancel)
qed


section \<open>The machine\<close>

text \<open>C19. The processor with the five chips of the player runs and returns: whatever the 68k code
  does to the chips, with a handler that keeps the contract, a run with a budget of instructions
  returns, moves the cycle base of every chip first, and leaves the chips well formed.  The bound
  on the cycle counter is the range in which the MFP can convert it to its own unit.\<close>

theorem machine_returns:
  assumes "handler_ok h" "chips_ok (chips s)" "unat (cpu2bogo (cycle s)) \<le> 2 ^ 62" "n \<noteq> 0" "n \<noteq> EMU68_CONT"
  shows "\<exists>t. emu68_finish (sc68_env h) n s = Some t \<and> run68 chips_ok s t \<and> chips_ok (chips t)"
  using handler_ok.machine_run [OF assms] .

lemma created0:
  obtains s where "emu68_create (sc68_env no_handler) None (\<lambda>_. Some (\<lambda>_. 0, \<lambda>_. 0)) chips0 = Some s" "chips s = chips0" "cycle s = 0"
proof -
  have "parms_ok def_parms" by (simp add: def_parms_def parms_ok_def EMU68_ATARIST_CLOCK_def)
  then obtain s where s: "emu68_create (sc68_env no_handler) None (\<lambda>_. Some (\<lambda>_. 0, \<lambda>_. 0)) chips0 = Some s"
    using create_spec(1) [OF refl, of "sc68_env no_handler" None "\<lambda>_. Some (\<lambda>_. 0, \<lambda>_. 0)" chips0] by auto
  with create_spec(2) [OF refl s] that show ?thesis by blast
qed

theorem machine_returns_witness:
  "\<exists>(s :: machine) t. chips s = chips0 \<and> emu68_finish (sc68_env no_handler) 100000 s = Some t \<and> chips_ok (chips t)"
proof (rule created0)
  fix s :: machine assume s: "chips s = chips0" "cycle s = 0"
  have "\<exists>t. emu68_finish (sc68_env no_handler) 100000 s = Some t \<and> run68 chips_ok s t \<and> chips_ok (chips t)"
    by (rule machine_returns [OF player.handler_ok_axioms])
      (use s chips0_ok in \<open>simp_all add: cpu2bogo_def EMU68_CONT_def\<close>)
  with s show ?thesis by blast
qed

text \<open>C20. In every state of a machine reachable from its creation by calls of the interface of the
  emulator, the chips are well formed: the MFP timers keep a prescaler and a data register in
  range, the sound counters stay inside the memory and the volume indexes inside their tables,
  and the YM never has more events than its buffer.  Code running on the 68000 cannot break them,
  nor can the host: the calls (\<open>emu68_call\<close>) include its writes to the memory and through the pointers
  it is given, its pushes and pops of longs and words, which can be accesses of the chips, its error
  messages, and the plugging and unplugging of chips.\<close>

theorem machine_invariant:
  assumes "handler_ok h" "emu68_reach (sc68_env h) c s" "chips_ok c"
  shows "wf68 s \<and> chips_ok (chips s)"
  using handler_ok.machine_reach [OF assms] .

theorem machine_invariant_witness:
  "\<exists>s. emu68_reach (sc68_env no_handler) chips0 s \<and> wf68 s \<and> chips_ok (chips s)"
proof (rule created0)
  fix s assume "emu68_create (sc68_env no_handler) None (\<lambda>_. Some (\<lambda>_. 0, \<lambda>_. 0)) chips0 = Some s"
  then have r: "emu68_reach (sc68_env no_handler) chips0 s" by (rule reach_create)
  from machine_invariant [OF player.handler_ok_axioms r chips0_ok] r show ?thesis by blast
qed

section \<open>Interrupts of the MFP\<close>

text \<open>\<open>mfp_interrupt\<close> returns, for every state of the timers and every cycle up to the power 62
  of two.  When it reports an interrupt it is that of a running, enabled and unmasked timer, at
  the cycle the timer was due, before the limit, with the vector of the timer; no running timer
  is due earlier afterwards, the timer is due again one period later, and no other unmasked
  timer has moved.  When it reports none, no running timer is due before the limit and no
  unmasked timer has moved.  In either case timers move by whole periods only.\<close>

theorem mfp_interrupts:
  assumes "mfp_ok m" "unat b \<le> 2 ^ 62"
  shows "\<exists>r m'. mfp_interrupt b m = Some (r, m') \<and> interrupt_spec b m r m'"
  using mfp_interrupt_returns [OF assms(2,1)] .

theorem mfp_interrupts_witness:
  "\<exists>r m'. mfp_interrupt 1000000 (mfp_put_tcr mfp0 0 3 0) = Some (r, m') \<and> mfp_ok m'"
  using mfp_interrupts [OF put_tcr_ok [OF mfp0_ok, of 0 3 0], of 1000000]
  by (auto simp: interrupt_spec_def)

section \<open>STE sound\<close>





section \<open>Paula\<close>

text \<open>A write to \<open>DMACON\<close> sets or clears the bits given, as bit 15 says, and starts exactly the
  voices whose DMA, their bit and the master bit, goes from off to on: each at the start and with
  the length its registers hold; every other voice keeps playing where it is.\<close>

theorem dmacon_starts:
  assumes "(ucast addr :: u8) = 0x96" "n < 4"
    and "v = ucast (ucast data :: u16)" "d = clearset (pl_dmacon p) v" "q = paula_writeW addr data p"
  shows "pl_dmacon q = d \<and>
    (\<forall>i<15. bit d i \<longleftrightarrow> (if bit v 15 then bit (pl_dmacon p) i \<or> bit v i else bit (pl_dmacon p) i \<and> \<not> bit v i)) \<and>
    pl_voice q n =
      (if dma_on d n \<and> \<not> dma_on (pl_dmacon p) n
       then \<lparr>v_adr = voice_loc n q, v_start = voice_loc n q, v_end = voice_loc n q + voice_len n q\<rparr>
       else pl_voice p n)"
proof (intro conjI allI impI)
  show "pl_dmacon q = d" unfolding assms(3-5) by (rule write_dmacon(1) [OF assms(1)])
  show "bit d i \<longleftrightarrow> (if bit v 15 then bit (pl_dmacon p) i \<or> bit v i else bit (pl_dmacon p) i \<and> \<not> bit v i)"
    if "i < 15" for i
    unfolding assms(4) by (rule clearset_bit [OF that])
  show "pl_voice q n =
      (if dma_on d n \<and> \<not> dma_on (pl_dmacon p) n
       then \<lparr>v_adr = voice_loc n q, v_start = voice_loc n q, v_end = voice_loc n q + voice_len n q\<rparr>
       else pl_voice p n)"
    unfolding assms(3-5) started_def [symmetric] by (rule write_dmacon(2) [OF assms(1,2)])
qed

theorem dmacon_starts_witness:
  "v_adr (pl_voice (paula_writeW 0xDFF096 0x8201 paula0) 0) = voice_loc 0 (paula_writeW 0xDFF096 0x8201 paula0)"
proof -
  have o: "pl_dmacon paula0 = 0x200" by (simp add: paula0_regs)
  have "dma_on (clearset 0x200 (ucast (ucast (0x8201 :: int68) :: u16))) 0"
  proof -
    have "clearset 0x200 (ucast (ucast (0x8201 :: int68) :: u16)) = 0x201" by (simp add: clearset_def)
    then show ?thesis by (simp add: dma_on_def bit_0 bit_iff_and_push_bit_not_eq_0)
  qed
  moreover have "\<not> dma_on 0x200 0" by (simp add: dma_on_def bit_0)
  moreover have "(ucast (0xDFF096 :: int68) :: u8) = 0x96" by simp
  note dmacon_starts [OF this _ refl refl refl, of 0 "0x8201" paula0, THEN conjunct2, THEN conjunct2, unfolded o]
  ultimately have "pl_voice (paula_writeW 0xDFF096 0x8201 paula0) 0 =
      \<lparr>v_adr = voice_loc 0 (paula_writeW 0xDFF096 0x8201 paula0), v_start = voice_loc 0 (paula_writeW 0xDFF096 0x8201 paula0),
       v_end = voice_loc 0 (paula_writeW 0xDFF096 0x8201 paula0) + voice_len 0 (paula_writeW 0xDFF096 0x8201 paula0)\<rparr>"
    by (simp only: if_True simp_thms zero_less_numeral)
  then show ?thesis by simp
qed

text \<open>C23. Mixing the four voices returns, whatever the registers of the voices hold, fills the buffer
  exactly, leaves every voice that had samples ahead with samples ahead, and reads the
  memory of the 68000 and the one byte that follows it, no more.\<close>

theorem paula_mixes:
  assumes "pl_ct_fix p = 64 - lg" "0 < lg" "lg < 31" "\<forall>a \<le> 2 ^ lg. ram a = ram' a"
  shows "\<exists>b' p'. paula_mix ram b p = Some (b', p') \<and> paula_mix ram' b p = Some (b', p') \<and>
    length b' = length b \<and> pl_dmacon p' = pl_dmacon p \<and>
    (\<forall>n. v_adr (pl_voice p n) < v_end (pl_voice p n) \<longrightarrow> v_adr (pl_voice p' n) < v_end (pl_voice p' n))"
  using paula_mix_returns [of ram b p] paula_mix_local [OF assms(1-3), of ram ram' b] assms(4)
  by (auto simp: feeding_def)

theorem paula_mixes_witness:
  "\<exists>b' p'. paula_mix (\<lambda>_. 5) [1, 2, 3] (paula_writeW 0xDFF096 0x8201 paula0) = Some (b', p') \<and> length b' = 3"
proof -
  have "pl_ct_fix (paula_writeW 0xDFF096 0x8201 paula0) = 64 - 16" by (simp add: paula0_regs paula_write_fix)
  from paula_mixes [OF this, of "\<lambda>_. 5" "\<lambda>_. 5" "[1, 2, 3]"] show ?thesis by auto
qed

section \<open>YM-2149\<close>

text \<open>C24. A pass of the YM with its default engine returns, empties the list of register writes, and
  gives exactly the samples due: 256 times the cycles of the pass, and the distance to the next
  sample after it, are the distance before it and a sample period for each sample.  The
  conditions are what setup establishes, register writes in the order of time within the pass,
  and a whole number of 32 cycles.\<close>

theorem ym_pass:
  assumes "mixing_ok ym" "in_order 0 (ym_events ym) n" "ym_cb ym = YmBlep" "n \<noteq> 0" "n AND 31 = 0"
  shows "\<exists>out ym'. ym_run clean ym True n = Some (int (length out), out, [], ym') \<and> mixing_ok ym' \<and>
    ym_events ym' = [] \<and>
    256 * unat n + cycles_to_next_sample (ym_blep ym') =
      cycles_to_next_sample (ym_blep ym) + length out * cycles_per_sample (ym_blep ym)"
  using ym_run_blep [OF assms] .

theorem ym_pass_witness:
  "\<exists>out ym'. ym_run False ym0 True 4096 = Some (int (length out), out, [], ym') \<and> mixing_ok ym'"
  using ym_pass [of ym0 4096 False] ym0_ready by (auto simp: mask_eq_exp_minus_1)

text \<open>The clock of the default engine does not depend on how a stretch of cycles is cut: running
  \<open>n\<close> and then \<open>d\<close> cycles gives the state running their sum gives, generators, envelope, noise
  and band limited steps included.\<close>

theorem ym_clock_splits:
  assumes "blep_ok (ym_blep ym)" "0 \<le> n" "0 \<le> d"
  shows "ym2149_clock (n + d) ym = Option.bind (ym2149_clock n ym) (ym2149_clock d) \<and> ym2149_clock n ym \<noteq> None"
  using clock_add [OF assms] clock_returns [OF assms(1,2)] by auto

theorem ym_clock_splits_witness:
  "ym2149_clock (7 + 100) ym0 = Option.bind (ym2149_clock 7 ym0) (ym2149_clock 100)"
  using ym_clock_splits [of ym0 7 100] ym0_ready(1) by (simp add: mixing_ok_def)

text \<open>A program reads back at the control port of the YM what it wrote to the data port, for every
  register; the write is recorded with the cycle of the access.\<close>

theorem ym_bus:
  fixes s :: machine and r v :: u8
  assumes "unat r < 16" "length (ym_events (ymio_ym (c_ym (chips s)))) < YM_MAX_EVENTS"
    and "t = ymio_write SzB ((ymio_write SzB (s\<lparr>bus_addr := 0xFFFF8800, bus_data := ucast r\<rparr>))
      \<lparr>bus_addr := 0xFFFF8802, bus_data := ucast v\<rparr>)"
  shows "bus_data (ymio_read SzB (t\<lparr>bus_addr := 0xFFFF8800\<rparr>)) = ucast v \<and>
    ym_events (ymio_ym (c_ym (chips t))) = ym_events (ymio_ym (c_ym (chips s))) @
      [\<lparr>ev_ymcycle = cycle_cputoym (c_ym (chips s)) (cycle s), ev_reg = unat r, ev_val = v\<rparr>]"
  using ymio_readback(1,3) [OF assms(1), where s = s and v = v] assms(2) unfolding assms(3) by blast

theorem ym_bus_witness:
  "\<exists>s :: machine. chips s = chips0 \<and> bus_data (ymio_read SzB ((ymio_write SzB ((ymio_write SzB
    (s\<lparr>bus_addr := 0xFFFF8800, bus_data := ucast (7 :: u8)\<rparr>))\<lparr>bus_addr := 0xFFFF8802, bus_data := ucast (0x3E :: u8)\<rparr>))
    \<lparr>bus_addr := 0xFFFF8800\<rparr>)) = ucast (0x3E :: u8)"
proof (rule created0)
  fix s :: machine assume s: "chips s = chips0"
  have "length (ym_events (ymio_ym (c_ym chips0))) < YM_MAX_EVENTS"
    using ym0_ready(2) by (simp add: chips0_def ymio_clock_def YM_MAX_EVENTS_def Let_def split_beta)
  with s ym_bus [OF _ _ refl, of 7 s "0x3E"] show ?thesis by auto
qed

text \<open>Down-sampling in place: each output sample is the input sample at its position in
  fixed point, halved and clipped, as if the input had been copied first, although the output
  overwrites the input.\<close>

theorem resample_in_place:
  assumes "src \<noteq> []" "0 < orate" "orate \<le> irate" "stp = 2 ^ 14 * irate div orate"
  shows "resampling src irate orate =
    Some (map (\<lambda>k. ym_clip (REVOL (src ! (k * stp div 2 ^ 14)))) [0..<(length src * 2 ^ 14 + stp - 1) div stp])"
  using resampling_down [OF assms(1-3)] assms(4) by simp

theorem resample_in_place_witness: "resampling [8, 6, -4, 2] 2 1 = Some [4, -2]"
  using resample_in_place [OF _ _ _ refl, of "[8, 6, -4, 2]" 1 2]
  by (simp add: ym_clip_def REVOL_def upt_rec)

end
