(* ===== verification/Mixer68.thy ===== *)
theory Mixer68
  imports Prelude68
begin

text \<open>
  The PCM mixer, \<open>libsc68/src/mixer68.c\<close>.

  A sample is a 32-bit word with the left channel in the low half.  Source and destination are
  addresses, counted in samples, of one memory, so that a routine may run in place or on
  overlapping buffers.  Every routine is the same loop, unrolled by four, around a function of one
  sample; the loop writes one sample at a time, in the order of the code.  The floating-point
  routine takes the product \<open>mult * (float) i\<close> as a parameter and has buffers of its own.

  Lemmas: the unrolled loop does \<open>nb\<close> single steps; what that leaves in memory; the shortcuts of
  the routines agree with their loops.
\<close>

type_synonym pcm = "int \<Rightarrow> s32"

section \<open>The unrolled loop\<close>

text \<open>\<open>*dst++ = f (*src++)\<close> on memory, \<open>dst\<close> and \<open>src\<close>.\<close>

definition pcm_one :: "(s32 \<Rightarrow> s32) \<Rightarrow> pcm \<times> int \<times> int \<Rightarrow> pcm \<times> int \<times> int" where
  "pcm_one f = (\<lambda>(m, dst, src). (m(dst := f (m src)), dst + 1, src + 1))"

function mix_quads :: "(s32 \<Rightarrow> s32) \<Rightarrow> int \<Rightarrow> pcm \<times> int \<times> int \<Rightarrow> pcm \<times> int \<times> int" where
  "mix_quads f stop s =
    (let s = pcm_one f (pcm_one f (pcm_one f (pcm_one f s)))
     in if fst (snd s) < stop then mix_quads f stop s else s)"
  by auto
termination
  by (relation "measure (\<lambda>(f, stop, m, dst, src). nat (stop - dst))") (auto simp: pcm_one_def)

declare mix_quads.simps [simp del]

definition mix_unrolled :: "(s32 \<Rightarrow> s32) \<Rightarrow> int \<Rightarrow> pcm \<Rightarrow> int \<Rightarrow> int \<Rightarrow> pcm" where
  "mix_unrolled f nb m dst src =
    (let stop = dst + nb;
         s = (m, dst, src);
         s = (if nb AND 1 \<noteq> 0 then pcm_one f s else s);
         s = (if nb AND 2 \<noteq> 0 then pcm_one f (pcm_one f s) else s);
         s = (if fst (snd s) < stop then mix_quads f stop s else s)
     in fst s)"

section \<open>The routines\<close>

definition SWAP_16BITWORD :: "s32 \<Rightarrow> s32" where
  "SWAP_16BITWORD v = drop_bit 16 v + push_bit 16 v"

definition mixer68_stereo_16_LR :: "pcm \<Rightarrow> int \<Rightarrow> int \<Rightarrow> int \<Rightarrow> s32 \<Rightarrow> pcm" where
  "mixer68_stereo_16_LR m dst src nb sign =
    (if sign = 0 \<and> dst = src then m else mix_unrolled (\<lambda>v. v XOR sign) nb m dst src)"

definition mixer68_stereo_16_RL :: "pcm \<Rightarrow> int \<Rightarrow> int \<Rightarrow> int \<Rightarrow> s32 \<Rightarrow> pcm" where
  "mixer68_stereo_16_RL m dst src nb sign =
    mix_unrolled (\<lambda>v. SWAP_16BITWORD v XOR sign) nb m dst src"

text \<open>The parameter \<open>scale\<close> is \<open>\<lambda>i. mult * (float) i\<close>.\<close>

function mix_floats :: "(int \<Rightarrow> 'f) \<Rightarrow> s32 \<Rightarrow> int \<Rightarrow> (int \<Rightarrow> 'f) \<Rightarrow> int \<Rightarrow> pcm \<Rightarrow> int \<Rightarrow> (int \<Rightarrow> 'f)" where
  "mix_floats scale sign stop d dst m src =
    (let v = m src XOR sign;
         d = d(dst := scale (sint (ucast v :: u16)));
         d = d(dst + 1 := scale (sint (signed_drop_bit 16 v)))
     in if dst + 2 < stop then mix_floats scale sign stop d (dst + 2) m (src + 1) else d)"
  by auto
termination
  by (relation "measure (\<lambda>(scale, sign, stop, d, dst, m, src). nat (stop - dst))") auto

declare mix_floats.simps [simp del]

definition mixer68_stereo_FL_LR ::
    "(int \<Rightarrow> 'f) \<Rightarrow> (int \<Rightarrow> 'f) \<Rightarrow> int \<Rightarrow> pcm \<Rightarrow> int \<Rightarrow> int \<Rightarrow> s32 \<Rightarrow> (int \<Rightarrow> 'f)" where
  "mixer68_stereo_FL_LR scale d dst m src nb sign =
    (let stop = dst + push_bit 1 nb
     in if dst < stop then mix_floats scale sign stop d dst m src else d)"

definition mixer68_dup_L_to_R :: "pcm \<Rightarrow> int \<Rightarrow> int \<Rightarrow> int \<Rightarrow> s32 \<Rightarrow> pcm" where
  "mixer68_dup_L_to_R m dst src nb sign =
    mix_unrolled (\<lambda>v. let v = ucast (ucast v :: u16) in (push_bit 16 v OR v) XOR sign) nb m dst src"

definition mixer68_dup_R_to_L :: "pcm \<Rightarrow> int \<Rightarrow> int \<Rightarrow> int \<Rightarrow> s32 \<Rightarrow> pcm" where
  "mixer68_dup_R_to_L m dst src nb sign =
    mix_unrolled (\<lambda>v. let v = v AND 0xFFFF0000 in (drop_bit 16 v OR v) XOR sign) nb m dst src"

definition blend_one :: "s32 \<Rightarrow> s32 \<Rightarrow> s32 \<Rightarrow> s32 \<Rightarrow> s32" where
  "blend_one factor sign_r sign_w v =
    (let oof = 65536 - factor;
         r = v XOR sign_r;
         l = signed_drop_bit 16 r;
         r = scast (ucast r :: u16)
     in (((l * oof + r * factor) AND 0xFFFF0000) OR drop_bit 16 (r * oof + l * factor)) XOR sign_w)"

definition mixer68_blend_LR :: "pcm \<Rightarrow> int \<Rightarrow> int \<Rightarrow> int \<Rightarrow> s32 \<Rightarrow> s32 \<Rightarrow> s32 \<Rightarrow> pcm" where
  "mixer68_blend_LR m dst src nb factor sign_r sign_w =
    (let factor = (if sint factor < 0 then 0 else if sint factor > 65536 then 65536 else factor)
     in mix_unrolled (blend_one factor sign_r sign_w) nb m dst src)"

text \<open>\<open>mixer68_fill\<close> has no source; the loop's one is not used.\<close>

definition mixer68_fill :: "pcm \<Rightarrow> int \<Rightarrow> int \<Rightarrow> s32 \<Rightarrow> pcm" where
  "mixer68_fill m dst nb sign = mix_unrolled (\<lambda>_. sign) nb m dst dst"

definition mult_one :: "s32 \<Rightarrow> s32 \<Rightarrow> s32 \<Rightarrow> s32 \<Rightarrow> s32 \<Rightarrow> s32" where
  "mult_one ml mr sign_r sign_w v =
    (let r = v XOR sign_r;
         l = scast (ucast r :: u16);
         r = signed_drop_bit 16 r
     in (drop_bit 16 (l * ml) OR ((r * mr) AND 0xFFFF0000)) XOR sign_w)"

definition mixer68_mult_LR :: "pcm \<Rightarrow> int \<Rightarrow> int \<Rightarrow> int \<Rightarrow> s32 \<Rightarrow> s32 \<Rightarrow> s32 \<Rightarrow> s32 \<Rightarrow> pcm" where
  "mixer68_mult_LR m dst src nb ml mr sign_r sign_w =
    (if ml = 65536 \<and> mr = 65536 then mixer68_stereo_16_LR m dst src nb (sign_r XOR sign_w)
     else if ml = 0 \<and> mr = 0 then mixer68_fill m dst nb sign_w
     else mix_unrolled (mult_one ml mr sign_r sign_w) nb m dst src)"

definition mixer68_copy :: "pcm \<Rightarrow> int \<Rightarrow> int \<Rightarrow> int \<Rightarrow> pcm" where
  "mixer68_copy m dst src nb = (if dst = src \<or> nb \<le> 0 then m else mix_unrolled (\<lambda>v. v) nb m dst src)"

section \<open>What the loop does\<close>

text \<open>The loop is \<open>nb\<close> single steps; for a negative count it is what \<open>nb & 3\<close> says.\<close>

definition mix_steps :: "(s32 \<Rightarrow> s32) \<Rightarrow> nat \<Rightarrow> pcm \<times> int \<times> int \<Rightarrow> pcm \<times> int \<times> int" where
  "mix_steps f n = pcm_one f ^^ n"

lemma mix_steps_add: "mix_steps f m (mix_steps f n s) = mix_steps f (m + n) s"
  by (simp add: mix_steps_def funpow_add)

lemma mix_steps_simps [simp]:
  "mix_steps f 0 s = s" "mix_steps f (Suc n) s = mix_steps f n (pcm_one f s)"
  by (simp_all add: mix_steps_def funpow_swap1)

lemma mix_steps_dst [simp]: "fst (snd (mix_steps f n s)) = fst (snd s) + int n"
  by (induction n arbitrary: s) (auto simp: pcm_one_def split: prod.splits)

lemma mix_quads_steps:
  "fst (snd s) + 4 * int (Suc k) = stop \<Longrightarrow> mix_quads f stop s = mix_steps f (4 * Suc k) s"
proof (induction k arbitrary: s)
  case 0
  have four: "pcm_one f (pcm_one f (pcm_one f (pcm_one f s))) = mix_steps f 4 s"
    by (simp add: numeral_eq_Suc)
  show ?case using 0 by (subst mix_quads.simps) (simp add: four Let_def)
next
  case (Suc k)
  have four: "pcm_one f (pcm_one f (pcm_one f (pcm_one f s))) = mix_steps f 4 s"
    by (simp add: numeral_eq_Suc)
  have "fst (snd (mix_steps f 4 s)) + 4 * int (Suc k) = stop" using Suc.prems by simp
  from Suc.IH [OF this] show ?case
    using Suc.prems by (subst mix_quads.simps) (simp add: four Let_def mix_steps_add)
qed

definition mix_count :: "int \<Rightarrow> nat" where
  "mix_count nb = (if 0 \<le> nb then nat nb else nat (nb mod 4))"

lemma mix_unrolled_steps: "mix_unrolled f nb m dst src = fst (mix_steps f (mix_count nb) (m, dst, src))"
proof -
  define q where "q = nb div 4"
  define r where "r = nat (nb mod 4)"
  have nb: "nb = 4 * q + int r" "r < 4" by (simp_all add: q_def r_def)
  have bits: "(nb AND 1 \<noteq> 0) = odd r" "(nb AND 2 \<noteq> 0) = odd (r div 2)"
  proof -
    show "(nb AND 1 \<noteq> 0) = odd r" by (simp add: nb(1) and_one_eq mod_2_eq_odd)
    have "(nb AND 2 \<noteq> 0) = odd (nb div 2)"
      using and_exp_eq_0_iff_not_bit [of nb 1] by (simp add: bit_iff_odd)
    moreover have "nb div 2 = 2 * q + int (r div 2)" by (simp add: nb(1) zdiv_int)
    ultimately show "(nb AND 2 \<noteq> 0) = odd (r div 2)" by simp
  qed
  define s where "s = (m, dst, src)"
  have head: "(if odd (r div 2) then pcm_one f (pcm_one f (if odd r then pcm_one f s else s))
      else (if odd r then pcm_one f s else s)) = mix_steps f r s"
  proof -
    have "r = 0 \<or> r = 1 \<or> r = 2 \<or> r = 3" using nb(2) by linarith
    moreover have "mix_steps f 2 s = pcm_one f (pcm_one f s)"
      "mix_steps f 3 s = pcm_one f (pcm_one f (pcm_one f s))"
      by (simp_all add: numeral_eq_Suc)
    ultimately show ?thesis by (elim disjE) simp_all
  qed
  have eq: "mix_unrolled f nb m dst src = fst (if fst (snd (mix_steps f r s)) < dst + nb
      then mix_quads f (dst + nb) (mix_steps f r s) else mix_steps f r s)"
    unfolding mix_unrolled_def Let_def bits s_def [symmetric] head ..
  have at: "fst (snd (mix_steps f r s)) = dst + int r" by (simp add: s_def)
  show ?thesis
  proof (cases "0 < q")
    case True
    define k where "k = nat q - 1"
    have "q = int (Suc k)" using True by (simp add: k_def)
    then have "mix_quads f (dst + nb) (mix_steps f r s) = mix_steps f (4 * Suc k) (mix_steps f r s)"
      by (intro mix_quads_steps) (simp add: at nb(1) s_def)
    moreover have "mix_count nb = 4 * Suc k + r"
      using \<open>q = int (Suc k)\<close> by (simp add: mix_count_def nb(1) nat_add_distrib)
    moreover have "fst (snd (mix_steps f r s)) < dst + nb" using True unfolding at nb(1) by simp
    ultimately show ?thesis by (simp add: eq mix_steps_add flip: s_def)
  next
    case False
    then have "mix_count nb = r"
      using nb by (cases "q = 0") (simp_all add: mix_count_def r_def)
    moreover have "\<not> fst (snd (mix_steps f r s)) < dst + nb"
      using False unfolding at nb(1) by simp
    ultimately show ?thesis by (simp add: eq flip: s_def)
  qed
qed

text \<open>One step after the other, from the first sample on.\<close>

lemma mix_steps_mem:
  assumes "dst \<le> src \<or> src + int n \<le> dst"
  shows "fst (mix_steps f n (m, dst, src)) =
    (\<lambda>a. if dst \<le> a \<and> a < dst + int n then f (m (a + (src - dst))) else m a)"
  using assms
proof (induction n arbitrary: m dst src)
  case 0
  then show ?case by (intro ext) auto
next
  case (Suc n)
  have "fst (mix_steps f (Suc n) (m, dst, src)) =
      fst (mix_steps f n (m(dst := f (m src)), dst + 1, src + 1))"
    by (simp add: pcm_one_def)
  also have "\<dots> = (\<lambda>a. if dst + 1 \<le> a \<and> a < dst + 1 + int n
      then f ((m(dst := f (m src))) (a + (src + 1 - (dst + 1)))) else (m(dst := f (m src))) a)"
    by (rule Suc.IH) (use Suc.prems in auto)
  also have "\<dots> = (\<lambda>a. if dst \<le> a \<and> a < dst + int (Suc n) then f (m (a + (src - dst))) else m a)"
    using Suc.prems by (intro ext) auto
  finally show ?case .
qed

lemma mix_steps_in_place: "mix_steps (\<lambda>v. v) n (m, d, d) = (m, d + int n, d + int n)"
  by (induction n arbitrary: d) (simp_all add: pcm_one_def)

lemma mix_steps_const: "fst (mix_steps (\<lambda>_. c) n (m, dst, src)) = fst (mix_steps (\<lambda>_. c) n (m, dst, src'))"
  by (induction n arbitrary: m dst src src') (simp_all add: pcm_one_def)

lemma mix_unrolled_mem:
  assumes "0 \<le> nb" and "dst \<le> src \<or> src + nb \<le> dst"
  shows "mix_unrolled f nb m dst src =
    (\<lambda>a. if dst \<le> a \<and> a < dst + nb then f (m (a + (src - dst))) else m a)"
  using mix_steps_mem [of dst src "nat nb" f m] assms
  by (simp add: mix_unrolled_steps mix_count_def)

section \<open>Samples\<close>

definition left_of :: "s32 \<Rightarrow> u16" where "left_of v = ucast v"
definition right_of :: "s32 \<Rightarrow> u16" where "right_of v = ucast (drop_bit 16 v)"

lemma stereo_eqI: "left_of v = left_of w \<Longrightarrow> right_of v = right_of w \<Longrightarrow> v = w"
proof (rule bit_word_eqI)
  fix n assume eq: "left_of v = left_of w" "right_of v = right_of w" and n: "n < LENGTH(32)"
  show "bit v n = bit w n"
  proof (cases "n < 16")
    case True
    then show ?thesis using arg_cong [OF eq(1), of "\<lambda>x. bit x n"] by (simp add: left_of_def bit_simps)
  next
    case False
    then have "n - 16 < 16" using n by simp
    then show ?thesis using False arg_cong [OF eq(2), of "\<lambda>x. bit x (n - 16)"]
      by (simp add: right_of_def bit_simps)
  qed
qed

lemma stereo_xor:
  "left_of (v XOR w) = left_of v XOR left_of w" "right_of (v XOR w) = right_of v XOR right_of w"
  by (auto simp: left_of_def right_of_def bit_simps intro!: bit_word_eqI)

lemma swap_add_or: "SWAP_16BITWORD v = drop_bit 16 v OR push_bit 16 v"
  unfolding SWAP_16BITWORD_def
  by (rule add_or_disj) (auto simp: bit_simps dest: bit_imp_le_length)

lemma swap_halves: "left_of (SWAP_16BITWORD v) = right_of v" "right_of (SWAP_16BITWORD v) = left_of v"
  unfolding swap_add_or left_of_def right_of_def
  by (rule bit_word_eqI; auto simp: bit_simps dest: bit_imp_le_length)+

lemma swap_xor: "SWAP_16BITWORD (v XOR w) = SWAP_16BITWORD v XOR SWAP_16BITWORD w"
  by (rule stereo_eqI) (simp_all add: stereo_xor swap_halves)

lemma times_65536: "x * 65536 = push_bit 16 x" for x :: s32
  by (simp add: push_bit_eq_mult)

lemma high_half: "x AND 0xFFFF0000 = push_bit 16 (drop_bit 16 x)" for x :: s32
proof -
  have "(0xFFFF0000 :: s32) = push_bit 16 (mask 16)" by (simp add: mask_eq_exp_minus_1)
  then have "x AND 0xFFFF0000 = x AND push_bit 16 (mask 16)" by (rule arg_cong)
  also have "\<dots> = push_bit 16 (drop_bit 16 x)"
    by (rule bit_word_eqI) (auto simp: bit_simps)
  finally show ?thesis .
qed

lemma scaled_half: "push_bit 16 (scast x) = (push_bit 16 (ucast x) :: s32)" for x :: u16
proof (rule bit_word_eqI)
  fix n assume n: "n < LENGTH(32)"
  then have "min 15 (n - 16) = n - 16" by simp
  with n show "bit (push_bit 16 (scast x) :: s32) n = bit (push_bit 16 (ucast x) :: s32) n"
    by (auto simp: bit_simps dest: bit_imp_le_length)
qed

lemma scaled_high: "push_bit 16 (signed_drop_bit 16 w) = push_bit 16 (drop_bit 16 w)" for w :: s32
proof (rule bit_word_eqI)
  fix n assume n: "n < LENGTH(32)"
  then have "16 \<le> n \<Longrightarrow> min 31 (16 + (n - 16)) = n" by simp
  with n show "bit (push_bit 16 (signed_drop_bit 16 w)) n = bit (push_bit 16 (drop_bit 16 w)) n"
    by (auto simp: bit_simps)
qed

lemma halves_of:
  "left_of (ucast x OR push_bit 16 y) = x" "right_of (ucast x OR push_bit 16 y) = left_of y"
  "left_of (ucast x) = x" "right_of (ucast x) = 0"
  "left_of (push_bit 16 y) = 0" "right_of (push_bit 16 y) = left_of y"
  for x :: u16 and y :: s32
  unfolding left_of_def right_of_def
  by (rule bit_word_eqI; auto simp: bit_simps dest: bit_imp_le_length)+

lemma drop_push_half: "drop_bit 16 (push_bit 16 (ucast x) :: s32) = ucast x" for x :: u16
  by (rule bit_word_eqI) (auto simp: bit_simps dest: bit_imp_le_length)

lemma left_drop: "left_of (drop_bit 16 w) = right_of w"
  by (simp add: left_of_def right_of_def)

lemma drop_push_word: "drop_bit 16 (push_bit 16 (drop_bit 16 w)) = drop_bit 16 w" for w :: s32
  by (rule bit_word_eqI) (auto simp: bit_simps dest: bit_imp_le_length)

lemma high_shifted: "push_bit 16 (drop_bit 16 (push_bit 16 w)) = push_bit 16 w" for w :: s32
  by (rule bit_word_eqI) (auto simp: bit_simps dest: bit_imp_le_length)

text \<open>At full scale the two products give the two channels.\<close>

lemma join_halves:
  "drop_bit 16 (push_bit 16 (scast (left_of w))) OR (push_bit 16 (signed_drop_bit 16 w) AND 0xFFFF0000) = w"
  unfolding high_half scaled_half scaled_high drop_push_half
  by (rule stereo_eqI) (simp_all add: halves_of drop_push_word left_drop)

lemma mult_one_full: "mult_one 65536 65536 sr sw v = v XOR (sr XOR sw)"
  unfolding mult_one_def Let_def times_65536 left_of_def [symmetric] join_halves
  by (simp add: xor.assoc)

lemma mult_one_none: "mult_one 0 0 sr sw v = sw"
  by (simp add: mult_one_def)

lemma push_left: "push_bit 16 (ucast (left_of w)) = push_bit 16 w"
  unfolding left_of_def by (rule bit_word_eqI) (auto simp: bit_simps)

lemma swap_join:
  "(push_bit 16 (scast (left_of w)) AND 0xFFFF0000) OR drop_bit 16 (push_bit 16 (signed_drop_bit 16 w))
    = SWAP_16BITWORD w"
  unfolding high_half scaled_half scaled_high high_shifted drop_push_word push_left swap_add_or
  by (rule or.commute)

lemma blend_one_none: "blend_one 0 sr sw v = v XOR (sr XOR sw)"
  using join_halves [of "v XOR sr"]
  by (simp add: blend_one_def Let_def times_65536 left_of_def or.commute xor.assoc)

lemma blend_one_full: "blend_one 65536 sr sw v = SWAP_16BITWORD v XOR (SWAP_16BITWORD sr XOR sw)"
  using swap_join [of "v XOR sr"]
  by (simp add: blend_one_def Let_def times_65536 left_of_def swap_xor xor.assoc)

section \<open>Properties\<close>

text \<open>The routines route the channels as their names say: samples at the destination are the
  source's, in order, with the channels swapped or one of them duplicated, when the source does not
  lie just below the destination (in place included); nothing else is written.\<close>

theorem channels_routed:
  assumes "0 \<le> nb" and "dst \<le> src \<or> src + nb \<le> dst" and "0 \<le> i" "i < nb"
  shows "left_of (mixer68_stereo_16_RL m dst src nb 0 (dst + i)) = right_of (m (src + i)) \<and>
    right_of (mixer68_stereo_16_RL m dst src nb 0 (dst + i)) = left_of (m (src + i)) \<and>
    left_of (mixer68_dup_L_to_R m dst src nb 0 (dst + i)) = left_of (m (src + i)) \<and>
    right_of (mixer68_dup_L_to_R m dst src nb 0 (dst + i)) = left_of (m (src + i)) \<and>
    left_of (mixer68_dup_R_to_L m dst src nb 0 (dst + i)) = right_of (m (src + i)) \<and>
    right_of (mixer68_dup_R_to_L m dst src nb 0 (dst + i)) = right_of (m (src + i)) \<and>
    mixer68_copy m dst src nb (dst + i) = m (src + i) \<and>
    mixer68_copy m dst src nb (dst + nb) = m (dst + nb) \<and>
    mixer68_stereo_16_RL m dst src nb sign (dst - 1) = m (dst - 1)"
proof -
  have in_range: "mix_unrolled f nb m dst src (dst + i) = f (m (src + i))" for f
    using assms by (simp add: mix_unrolled_mem add.commute)
  have outside: "mix_unrolled f nb m dst src (dst + nb) = m (dst + nb)"
    "mix_unrolled f nb m dst src (dst - 1) = m (dst - 1)" for f
    using assms(1,2) by (simp_all add: mix_unrolled_mem)
  have copy: "mixer68_copy m dst src nb (dst + i) = m (src + i)"
    "mixer68_copy m dst src nb (dst + nb) = m (dst + nb)"
    using assms(3,4) by (auto simp: mixer68_copy_def in_range outside)
  have dup: "left_of (push_bit 16 (ucast (left_of v)) OR ucast (left_of v)) = left_of v"
    "right_of (push_bit 16 (ucast (left_of v)) OR ucast (left_of v)) = left_of v"
    "left_of (drop_bit 16 (push_bit 16 (drop_bit 16 v)) OR push_bit 16 (drop_bit 16 v)) = right_of v"
    "right_of (drop_bit 16 (push_bit 16 (drop_bit 16 v)) OR push_bit 16 (drop_bit 16 v)) = right_of v" for v
    unfolding left_of_def right_of_def
    by (rule bit_word_eqI; auto simp: bit_simps dest: bit_imp_le_length)+
  show ?thesis
    unfolding copy mixer68_stereo_16_RL_def mixer68_dup_L_to_R_def mixer68_dup_R_to_L_def
      in_range outside Let_def high_half left_of_def [symmetric]
    by (simp add: dup swap_halves)
qed

definition ramp :: pcm where
  "ramp a = word_of_int a"

theorem channels_routed_witness:
  "left_of (mixer68_stereo_16_RL ramp 10 20 7 0 13) = right_of (ramp 23) \<and>
    right_of (mixer68_stereo_16_RL ramp 10 20 7 0 13) = left_of (ramp 23) \<and>
    left_of (mixer68_dup_L_to_R ramp 10 20 7 0 13) = left_of (ramp 23) \<and>
    right_of (mixer68_dup_L_to_R ramp 10 20 7 0 13) = left_of (ramp 23) \<and>
    left_of (mixer68_dup_R_to_L ramp 10 20 7 0 13) = right_of (ramp 23) \<and>
    right_of (mixer68_dup_R_to_L ramp 10 20 7 0 13) = right_of (ramp 23) \<and>
    mixer68_copy ramp 10 20 7 13 = ramp 23 \<and> mixer68_copy ramp 10 20 7 17 = ramp 17 \<and>
    mixer68_stereo_16_RL ramp 10 20 7 1 9 = ramp 9"
  using channels_routed [of 7 10 20 3 ramp 1] by simp

text \<open>The multiplying routine's shortcuts for full and null volume, the in-place shortcut of the
  first of them included, do what its loop would do, whatever the buffers and the count.\<close>

theorem volume_shortcuts:
  "mixer68_mult_LR m dst src nb ml mr sign_r sign_w =
    mix_unrolled (mult_one ml mr sign_r sign_w) nb m dst src"
proof -
  have "mix_unrolled (\<lambda>v. v) nb m src src = m"
    by (simp add: mix_unrolled_steps mix_steps_in_place)
  then have full: "mixer68_stereo_16_LR m dst src nb sign = mix_unrolled (\<lambda>v. v XOR sign) nb m dst src" for sign
    by (auto simp: mixer68_stereo_16_LR_def)
  have "mixer68_fill m dst nb sign_w = mix_unrolled (\<lambda>_. sign_w) nb m dst src"
    unfolding mixer68_fill_def mix_unrolled_steps by (rule mix_steps_const)
  then show ?thesis
    unfolding mixer68_mult_LR_def full by (simp add: mult_one_full [abs_def] mult_one_none [abs_def])
qed

text \<open>Blending with no factor only applies the two sign changes, and with the full factor it swaps
  the channels of the samples, and of the sign change made on reading.\<close>

theorem blend_extremes:
  "mixer68_blend_LR m dst src nb 0 sign_r sign_w = mixer68_stereo_16_LR m dst src nb (sign_r XOR sign_w) \<and>
   mixer68_blend_LR m dst src nb 65536 sign_r sign_w =
     mixer68_stereo_16_RL m dst src nb (SWAP_16BITWORD sign_r XOR sign_w)"
proof -
  have full: "mixer68_stereo_16_LR m dst src nb sign = mix_unrolled (\<lambda>v. v XOR sign) nb m dst src" for sign
    by (auto simp: mixer68_stereo_16_LR_def mix_unrolled_steps mix_steps_in_place)
  show ?thesis
    unfolding mixer68_blend_LR_def full mixer68_stereo_16_RL_def
    by (simp add: blend_one_none [abs_def] blend_one_full [abs_def])
qed

text \<open>A negative count still writes \<open>nb & 3\<close> samples, except in \<open>mixer68_copy\<close>.\<close>

lemma fill_negative: "mixer68_fill m dst (-1) v = m(dst := v, dst + 1 := v, dst + 2 := v)"
  by (simp add: mixer68_fill_def mix_unrolled_steps mix_count_def pcm_one_def numeral_eq_Suc add.commute)

end
