(* ===== verification/Vfs68.thy ===== *)
theory Vfs68
  imports Prelude68
begin

text \<open>
  Virtual streams, \<open>file68/src/vfs68.c\<close> and the headers \<open>file68/sc68/file68_vfs.h\<close>,
  \<open>file68_vfs_def.h\<close>.

  A stream is a record of operations, each of which may be missing, over a state \<open>'s\<close>; the
  pointer \<open>vfs\<close> is an option, since every function of the interface accepts a null one.  An \<open>int\<close>
  is an integer of HOL, and \<open>i32\<close> writes out its wrap-around where an addition may leave 32 bits.
  Data read is returned as the list of bytes written to the caller's buffer; data written is the
  list the caller's pointer designates.

  Lemmas: what the interface promises when operations are missing; two contracts, as locales: a
  stream with a position, and a stream of bytes, with what the generic functions do over them.
\<close>

section \<open>Streams\<close>

record 's vfs =
  vname :: "('s \<Rightarrow> string option) option"
  vopen :: "('s \<Rightarrow> int \<times> 's) option"
  vclose :: "('s \<Rightarrow> int \<times> 's) option"
  vread :: "('s \<Rightarrow> int \<Rightarrow> int \<times> u8 list \<times> 's) option"
  vwrite :: "('s \<Rightarrow> u8 list \<Rightarrow> int \<Rightarrow> int \<times> 's) option"
  vflush :: "('s \<Rightarrow> int \<times> 's) option"
  vlength :: "('s \<Rightarrow> int) option"
  vtell :: "('s \<Rightarrow> int) option"
  vseekf :: "('s \<Rightarrow> int \<Rightarrow> int \<times> 's) option"
  vseekb :: "('s \<Rightarrow> int \<Rightarrow> int \<times> 's) option"
  vdestroy :: "('s \<Rightarrow> 's) option"

definition VFS68_OPEN_READ :: int where "VFS68_OPEN_READ = 1"
definition VFS68_OPEN_WRITE :: int where "VFS68_OPEN_WRITE = 2"
definition VFS68_OPEN_MASK :: int where "VFS68_OPEN_MASK = 3"

definition VFS68_IS_OPEN :: "int \<Rightarrow> bool" where
  "VFS68_IS_OPEN m \<longleftrightarrow> m AND VFS68_OPEN_MASK \<noteq> 0"

text \<open>The value of an \<open>int\<close> after an addition.\<close>

definition i32 :: "int \<Rightarrow> int" where
  "i32 x = (x + 2 ^ 31) mod 2 ^ 32 - 2 ^ 31"

lemma i32_id: "- (2 ^ 31) \<le> x \<Longrightarrow> x < 2 ^ 31 \<Longrightarrow> i32 x = x"
  by (simp add: i32_def)

section \<open>The interface\<close>

text \<open>The operation \<open>sel\<close> of a stream, when there is a stream and it has the operation.\<close>

definition vfs_op :: "('s vfs \<Rightarrow> 'f option) \<Rightarrow> 's vfs option \<Rightarrow> 'f option" where
  "vfs_op sel vfs = Option.bind vfs sel"

definition vfs68_filename :: "'s vfs option \<Rightarrow> 's \<Rightarrow> string" where
  "vfs68_filename vfs s =
    (let name = (case vfs_op vname vfs of None \<Rightarrow> None | Some f \<Rightarrow> f s)
     in case name of Some n \<Rightarrow> n | None \<Rightarrow> ''<nul>'')"

definition vfs68_open :: "'s vfs option \<Rightarrow> 's \<Rightarrow> int \<times> 's" where
  "vfs68_open vfs s = (case vfs_op vopen vfs of None \<Rightarrow> (-1, s) | Some f \<Rightarrow> f s)"

definition vfs68_close :: "'s vfs option \<Rightarrow> 's \<Rightarrow> int \<times> 's" where
  "vfs68_close vfs s =
    (case vfs of None \<Rightarrow> (-1, s)
     | Some v \<Rightarrow>
         let s = (case vflush v of None \<Rightarrow> s | Some f \<Rightarrow> snd (f s))
         in case vclose v of None \<Rightarrow> (-1, s) | Some f \<Rightarrow> f s)"

definition vfs68_read :: "'s vfs option \<Rightarrow> 's \<Rightarrow> int \<Rightarrow> int \<times> u8 list \<times> 's" where
  "vfs68_read vfs s len = (case vfs_op vread vfs of None \<Rightarrow> (-1, [], s) | Some f \<Rightarrow> f s len)"

definition vfs68_write :: "'s vfs option \<Rightarrow> 's \<Rightarrow> u8 list \<Rightarrow> int \<Rightarrow> int \<times> 's" where
  "vfs68_write vfs s data len = (case vfs_op vwrite vfs of None \<Rightarrow> (-1, s) | Some f \<Rightarrow> f s data len)"

definition vfs68_length :: "'s vfs option \<Rightarrow> 's \<Rightarrow> int" where
  "vfs68_length vfs s = (case vfs_op vlength vfs of None \<Rightarrow> -1 | Some f \<Rightarrow> f s)"

definition vfs68_tell :: "'s vfs option \<Rightarrow> 's \<Rightarrow> int" where
  "vfs68_tell vfs s = (case vfs_op vtell vfs of None \<Rightarrow> -1 | Some f \<Rightarrow> f s)"

definition vfs68_flush :: "'s vfs option \<Rightarrow> 's \<Rightarrow> int \<times> 's" where
  "vfs68_flush vfs s = (case vfs_op vflush vfs of None \<Rightarrow> (-1, s) | Some f \<Rightarrow> f s)"

text \<open>\<open>isseek\<close> is only called when \<open>pos\<close> may be other than -1, which a null stream never gives.\<close>

definition isseek :: "'s vfs option \<Rightarrow> 's \<Rightarrow> int \<Rightarrow> int \<Rightarrow> int \<times> 's" where
  "isseek vfs s pos offset =
    (if pos \<noteq> -1 \<and> offset \<noteq> 0 then
       (case vfs_op (if offset > 0 then vseekf else vseekb) vfs of
          None \<Rightarrow> (-1, s)
        | Some seek \<Rightarrow>
            (let (r, s) = seek s offset in if r \<noteq> -1 then (i32 (pos + offset), s) else (-1, s)))
     else (pos, s))"

definition vfs68_seek :: "'s vfs option \<Rightarrow> 's \<Rightarrow> int \<Rightarrow> int \<times> 's" where
  "vfs68_seek vfs s offset = isseek vfs s (vfs68_tell vfs s) offset"

definition vfs68_seek_to :: "'s vfs option \<Rightarrow> 's \<Rightarrow> int \<Rightarrow> int \<times> 's" where
  "vfs68_seek_to vfs s pos = (let cur = vfs68_tell vfs s in isseek vfs s cur (i32 (pos - cur)))"

definition vfs68_destroy :: "'s vfs option \<Rightarrow> 's \<Rightarrow> 's" where
  "vfs68_destroy vfs s =
    (case vfs of None \<Rightarrow> s
     | Some v \<Rightarrow>
         let s = (case vclose v of None \<Rightarrow> s | Some f \<Rightarrow> snd (f s))
         in case vdestroy v of None \<Rightarrow> s | Some f \<Rightarrow> f s)"

text \<open>
  The loop of \<open>vfs68_gets\<close>, with \<open>max - i\<close> turns left and the bytes already stored; \<open>None\<close> is the
  error return, which leaves the buffer unterminated.
\<close>

primrec gets_loop :: "('s \<Rightarrow> int \<Rightarrow> int \<times> u8 list \<times> 's) \<Rightarrow> nat \<Rightarrow> u8 list \<Rightarrow> 's \<Rightarrow> u8 list option \<times> 's" where
  "gets_loop f 0 buf s = (Some buf, s)"
| "gets_loop f (Suc left) buf s =
    (let (err, d, s) = f s 1
     in if err = -1 then (None, s)
        else if err \<noteq> 1 then (Some buf, s)
        else
          let c = hd d; buf = buf @ [c]
          in if c = 10 then (Some buf, s) else gets_loop f left buf s)"

text \<open>The result, and the bytes stored in the buffer (not null) with the final zero.\<close>

definition vfs68_gets :: "'s vfs option \<Rightarrow> 's \<Rightarrow> int \<Rightarrow> int \<times> u8 list \<times> 's" where
  "vfs68_gets vfs s len =
    (case vfs_op vread vfs of None \<Rightarrow> (-1, [], s)
     | Some f \<Rightarrow>
         if len \<le> 0 then (-1, [], s)
         else
           case gets_loop f (nat (len - 1)) [] s of
             (None, s) \<Rightarrow> (-1, [], s)
           | (Some buf, s) \<Rightarrow> (int (size buf), buf @ [0], s))"

definition vfs68_getc :: "'s vfs option \<Rightarrow> 's \<Rightarrow> int \<times> 's" where
  "vfs68_getc vfs s =
    (let (n, d, s) = vfs68_read vfs s 1 in (if n \<noteq> 1 then -1 else uint (hd d), s))"

definition vfs68_putc :: "'s vfs option \<Rightarrow> 's \<Rightarrow> int \<Rightarrow> int \<times> 's" where
  "vfs68_putc vfs s c =
    (let byte = word_of_int c; (n, s) = vfs68_write vfs s [byte] 1
     in (- of_bool (n \<noteq> 1), s))"

text \<open>
  The string is the list of its characters before the final zero, as \<open>signed char\<close>s; a null
  pointer behaves as the empty string.
\<close>

primrec vfs68_puts :: "'s vfs option \<Rightarrow> 's \<Rightarrow> u8 list \<Rightarrow> int \<times> 's" where
  "vfs68_puts vfs s [] = (0, s)"
| "vfs68_puts vfs s (c # cs) =
    (if c = 0 then (0, s)
     else let (err, s) = vfs68_putc vfs s (sint c) in if err = 0 then vfs68_puts vfs s cs else (err, s))"

section \<open>A stream with a position\<close>

text \<open>
  The contract of \<open>tell\<close> and \<open>seek\<close>: \<open>at s\<close> is the position, \<open>ok s p\<close> the positions that can be
  reached, \<open>body s\<close> what seeking does not change.
\<close>

locale seekable =
  fixes V :: "'s vfs" and seek :: "'s \<Rightarrow> int \<Rightarrow> int \<times> 's"
    and inv :: "'s \<Rightarrow> bool" and at :: "'s \<Rightarrow> int" and ok :: "'s \<Rightarrow> int \<Rightarrow> bool" and body :: "'s \<Rightarrow> 'b"
  assumes seek_ops: "vseekf V = Some seek" "vseekb V = Some seek"
    and tell_at: "inv s \<Longrightarrow> vfs68_tell (Some V) s = at s"
    and at_range: "inv s \<Longrightarrow> 0 \<le> at s \<and> at s < 2 ^ 31 \<and> ok s (at s)"
    and seek_in: "inv s \<Longrightarrow> 0 \<le> p \<Longrightarrow> p < 2 ^ 31 \<Longrightarrow> ok s p \<Longrightarrow> seek s (p - at s) = (r, t) \<Longrightarrow>
      r = 0 \<and> inv t \<and> at t = p \<and> body t = body s"
    and seek_out: "inv s \<Longrightarrow> - (2 ^ 31) \<le> p \<Longrightarrow> p < 2 ^ 31 \<Longrightarrow> \<not> (0 \<le> p \<and> ok s p) \<Longrightarrow>
      seek s (p - at s) = (-1, s)"
begin

lemma seek_to_in:
  assumes "inv s" "0 \<le> p" "p < 2 ^ 31" "ok s p" "vfs68_seek_to (Some V) s p = (r, t)"
  shows "r = p \<and> inv t \<and> at t = p \<and> body t = body s"
proof (cases "p = at s")
  case True
  then have "vfs68_seek_to (Some V) s p = (at s, s)"
    using assms(1) by (simp add: vfs68_seek_to_def isseek_def tell_at i32_def)
  with assms(5) have "r = at s" "t = s" by (metis prod.inject)+
  then show ?thesis using assms(1) True by simp
next
  case False
  note range = at_range [OF assms(1)]
  have "i32 (p - at s) = p - at s" using range assms(2,3) by (intro i32_id) simp_all
  then have "vfs68_seek_to (Some V) s p =
      (let (r, t) = seek s (p - at s) in if r \<noteq> -1 then (i32 (at s + (p - at s)), t) else (-1, t))"
    using False range by (simp add: vfs68_seek_to_def isseek_def tell_at [OF assms(1)] vfs_op_def seek_ops Let_def
        split: prod.split)
  moreover obtain r' t' where s: "seek s (p - at s) = (r', t')" by fastforce
  moreover note seek_in [OF assms(1-4) s]
  moreover have "i32 (at s + (p - at s)) = p" using assms(2,3) by (simp add: i32_id)
  ultimately show ?thesis using assms(5) by simp
qed

lemma seek_to_out:
  assumes "inv s" "0 \<le> p" "p < 2 ^ 31" "\<not> ok s p"
  shows "vfs68_seek_to (Some V) s p = (-1, s)"
proof -
  note range = at_range [OF assms(1)]
  have "p \<noteq> at s" using range assms(4) by blast
  moreover have "i32 (p - at s) = p - at s" using range assms(2,3) by (intro i32_id) simp_all
  ultimately show ?thesis
    using range assms seek_out [of s p]
    by (simp add: vfs68_seek_to_def isseek_def tell_at vfs_op_def seek_ops Let_def)
qed

end

section \<open>A stream of bytes\<close>

text \<open>A stream with contents that can be read from the position on, and one that can be written.\<close>

locale reader = seekable V seek inv at ok data
  for V :: "'s vfs" and seek inv at ok and data :: "'s \<Rightarrow> u8 list" +
  assumes at_end: "inv s \<Longrightarrow> at s \<le> int (size (data s)) \<and> int (size (data s)) < 2 ^ 31 - 1"
    and read_data: "inv s \<Longrightarrow> 0 \<le> n \<Longrightarrow> at s + n < 2 ^ 31 \<Longrightarrow> vfs68_read (Some V) s n = (k, d, t) \<Longrightarrow>
      d = take (nat n) (drop (nat (at s)) (data s)) \<and> k = int (size d) \<and>
      inv t \<and> data t = data s \<and> at t = at s + k"

locale writer = seekable V seek inv at ok data
  for V :: "'s vfs" and seek inv at ok and data :: "'s \<Rightarrow> u8 list" +
  assumes at_limit: "inv s \<Longrightarrow> at s \<le> int (size (data s)) \<and> int (size (data s)) < 2 ^ 31 - 1"
    and write_data: "inv s \<Longrightarrow> at s + int (size xs) < 2 ^ 31 \<Longrightarrow>
      vfs68_write (Some V) s xs (int (size xs)) = (k, t) \<Longrightarrow>
      k = min (int (size xs)) (int (size (data s)) - at s) \<and> inv t \<and> at t = at s + k \<and>
      data t = take (nat (at s)) (data s) @ take (nat k) xs @ drop (nat (at s + k)) (data s)"

text \<open>The line a stream is at: at most \<open>n\<close> bytes, up to a newline.\<close>

fun text_line :: "nat \<Rightarrow> u8 list \<Rightarrow> u8 list" where
  "text_line (Suc n) (c # cs) = c # (if c = 10 then [] else text_line n cs)"
| "text_line _ _ = []"

lemma text_line_prefix: "take (size (text_line n xs)) xs = text_line n xs"
  by (induction n xs rule: text_line.induct) auto

lemma text_line_le: "size (text_line n xs) \<le> n" "size (text_line n xs) \<le> size xs"
  by (induction n xs rule: text_line.induct) auto

context reader begin

lemma read_one:
  assumes "inv s" "vfs68_read (Some V) s 1 = (k, d, t)"
  shows "inv t \<and> data t = data s \<and> at t = at s + k \<and>
    (if at s < int (size (data s)) then k = 1 \<and> d = [data s ! nat (at s)] else k = 0)"
proof -
  have "at s + 1 < 2 ^ 31" using at_end [OF assms(1)] by simp
  from read_data [OF assms(1) _ this assms(2)]
  have r: "d = take 1 (drop (nat (at s)) (data s))" "k = int (size d)" "inv t" "data t = data s"
    "at t = at s + k" by simp_all
  show ?thesis
  proof (cases "at s < int (size (data s))")
    case True
    then have "nat (at s) < size (data s)" using at_range [OF assms(1)] by linarith
    then show ?thesis using r True by (simp add: take_Suc_conv_app_nth flip: Cons_nth_drop_Suc)
  next
    case False
    then have "d = []" using r(1) by simp
    then show ?thesis using r False by simp
  qed
qed

lemma getc_data:
  assumes "inv s" "vfs68_getc (Some V) s = (c, t)"
  shows "inv t \<and> data t = data s \<and>
    (if at s < int (size (data s)) then c = uint (data s ! nat (at s)) \<and> at t = at s + 1
     else c = -1 \<and> at t = at s)"
proof -
  obtain k d u where r: "vfs68_read (Some V) s 1 = (k, d, u)" by (metis prod_cases3)
  from read_one [OF assms(1) r] show ?thesis
    using assms(2) r by (auto simp: vfs68_getc_def split: if_splits)
qed

lemma gets_loop_line:
  assumes "vread V = Some f"
  shows "inv s \<Longrightarrow> gets_loop f n buf s = (r, t) \<Longrightarrow>
    r = Some (buf @ text_line n (drop (nat (at s)) (data s))) \<and> inv t \<and> data t = data s \<and>
    at t = at s + int (size (text_line n (drop (nat (at s)) (data s))))"
proof (induction n arbitrary: s buf)
  case 0
  then show ?case by auto
next
  case (Suc n)
  obtain k d u where f: "f s 1 = (k, d, u)" by (metis prod_cases3)
  have "vfs68_read (Some V) s 1 = (k, d, u)"
    using f assms by (simp add: vfs68_read_def vfs_op_def)
  note u = read_one [OF Suc.prems(1) this]
  show ?case
  proof (cases "at s < int (size (data s))")
    case False
    then show ?thesis using Suc.prems u f by (auto simp: not_less)
  next
    case True
    note range = at_range [OF Suc.prems(1)]
    have pos: "nat (at u) = Suc (nat (at s))" "nat (at s) < size (data s)"
      using u True conjunct1 [OF range] by (simp_all add: nat_add_distrib nat_less_iff)
    then have drop: "drop (nat (at s)) (data s) = data s ! nat (at s) # drop (nat (at u)) (data u)"
      using u by (simp add: Cons_nth_drop_Suc)
    show ?thesis
    proof (cases "data s ! nat (at s) = 10")
      case nl: True
      then show ?thesis using Suc.prems(2) u True f by (auto simp: drop)
    next
      case False
      then have "gets_loop f n (buf @ [data s ! nat (at s)]) u = (r, t)"
        using Suc.prems(2) u True f by simp
      from Suc.IH [OF _ this] show ?thesis using u True False by (simp add: drop)
    qed
  qed
qed

text \<open>\<open>vfs68_gets\<close> returns the line the stream is at.\<close>

lemma gets_line:
  assumes "vread V = Some f" "inv s" "0 < m" "vfs68_gets (Some V) s m = (k, d, t)"
  shows "d = text_line (nat (m - 1)) (drop (nat (at s)) (data s)) @ [0] \<and> k = int (size d) - 1 \<and>
    inv t \<and> data t = data s \<and> at t = at s + k"
proof -
  obtain r u where g: "gets_loop f (nat (m - 1)) [] s = (r, u)" by fastforce
  from gets_loop_line [OF assms(1,2) g] show ?thesis
    using assms(1,3,4) g by (auto simp: vfs68_gets_def vfs_op_def)
qed

end

context writer begin

lemma putc_data:
  assumes "inv s" "vfs68_putc (Some V) s c = (e, t)"
  shows "inv t \<and> (if at s < int (size (data s))
      then e = 0 \<and> at t = at s + 1 \<and> data t = (data s)[nat (at s) := word_of_int c]
      else e = -1 \<and> at t = at s \<and> data t = data s)"
proof -
  obtain k u where w: "vfs68_write (Some V) s [word_of_int c] 1 = (k, u)" by fastforce
  note lim = at_limit [OF assms(1)] at_range [OF assms(1)]
  from write_data [OF assms(1), of "[word_of_int c]" k u]
  have r: "k = min 1 (int (size (data s)) - at s)" "inv u" "at u = at s + k"
      "data u = take (nat (at s)) (data s) @ take (nat k) [word_of_int c] @ drop (nat (at s + k)) (data s)"
    using w lim by simp_all
  have t: "t = u" "e = - of_bool (k \<noteq> 1)" using assms(2) w by (auto simp: vfs68_putc_def)
  show ?thesis
  proof (cases "at s < int (size (data s))")
    case True
    then have "k = 1" "nat (at s) < size (data s)" "nat (at s + 1) = Suc (nat (at s))"
      using r(1) True conjunct1 [OF lim(2)] by (simp_all add: nat_add_distrib nat_less_iff)
    then show ?thesis using r t True by (simp add: upd_conv_take_nth_drop)
  next
    case False
    then have "k = 0" using r(1) lim by simp
    then show ?thesis using r t False by simp
  qed
qed

text \<open>\<open>vfs68_puts\<close> writes the string over the contents, when there is room for it.\<close>

lemma puts_data:
  "inv s \<Longrightarrow> 0 \<notin> set cs \<Longrightarrow> at s + int (size cs) \<le> int (size (data s)) \<Longrightarrow>
    vfs68_puts (Some V) s cs = (e, t) \<Longrightarrow>
    e = 0 \<and> inv t \<and> at t = at s + int (size cs) \<and>
    data t = take (nat (at s)) (data s) @ cs @ drop (nat (at s) + size cs) (data s)"
proof (induction cs arbitrary: s)
  case Nil
  then show ?case by simp
next
  case (Cons c cs)
  obtain e' u where p: "vfs68_putc (Some V) s (sint c) = (e', u)" by fastforce
  note u = putc_data [OF Cons.prems(1) p]
  have lt: "at s < int (size (data s))" using Cons.prems(3) by simp
  have n: "nat (at s) < size (data s)" "nat (at s + 1) = Suc (nat (at s))"
    using lt conjunct1 [OF at_range [OF Cons.prems(1)]] by (simp_all add: nat_add_distrib nat_less_iff)
  have rest: "vfs68_puts (Some V) u cs = (e, t)"
    using Cons.prems(2,4) p u lt by simp
  have "at u + int (size cs) \<le> int (size (data u))" "0 \<notin> set cs" "inv u"
    using Cons.prems(2,3) u lt by simp_all
  from Cons.IH [OF this(3,2,1) rest] show ?case
    using u lt n Cons.prems(3) by (simp add: take_Suc_conv_app_nth drop_update_cancel)
qed

end

section \<open>A stream that is read back\<close>

locale stored = reader V seek inv at ok data + writer V seek inv at ok data
  for V :: "'s vfs" and seek inv at ok and data :: "'s \<Rightarrow> u8 list"
begin

text \<open>What is written comes back after a seek to where it was written.\<close>

lemma write_read_back:
  assumes "inv s" "at s + int (size xs) \<le> int (size (data s))"
    and "vfs68_write (Some V) s xs (int (size xs)) = (k, t)"
    and "ok t (at s)" and "vfs68_seek_to (Some V) t (at s) = (p, u)"
    and "vfs68_read (Some V) u (int (size xs)) = (l, ys, v)"
  shows "k = int (size xs) \<and> p = at s \<and> l = int (size xs) \<and> ys = xs"
proof -
  note lim = at_end [OF assms(1)] at_range [OF assms(1)]
  have sum: "at s + int (size xs) < 2 ^ 31" using assms(2) lim by simp
  from write_data [OF assms(1) sum assms(3)]
  have t: "k = int (size xs)" "inv t"
    "data t = take (nat (at s)) (data s) @ xs @ drop (nat (at s + k)) (data s)"
    using assms(2) by simp_all
  from seek_to_in [OF t(2) _ _ assms(4,5)]
  have u: "p = at s" "inv u" "at u = at s" "data u = data t" using lim by simp_all
  from read_data [OF u(2) _ _ assms(6)]
  have r: "ys = take (size xs) (drop (nat (at s)) (data t))" "l = int (size ys)"
    using u sum by simp_all
  have "nat (at s) \<le> size (data s)" using lim by linarith
  then have "ys = xs" using r(1) t(3) by simp
  then show ?thesis using t(1) u(1) r(2) by simp
qed

lemma puts_gets_back:
  assumes "vread V = Some f" and "inv s" and "0 \<notin> set cs" "10 \<notin> set cs"
    and "at s + int (size cs) \<le> int (size (data s))"
    and "vfs68_puts (Some V) s cs = (e, t)" and "ok t (at s)"
    and "vfs68_seek_to (Some V) t (at s) = (p, u)"
    and "vfs68_gets (Some V) u (int (size cs) + 1) = (k, buf, v)"
  shows "e = 0 \<and> k = int (size cs) \<and> buf = cs @ [0]"
proof -
  note lim = at_end [OF assms(2)] at_range [OF assms(2)]
  from puts_data [OF assms(2,3,5,6)]
  have t: "e = 0" "inv t" "data t = take (nat (at s)) (data s) @ cs @ drop (nat (at s) + size cs) (data s)"
    by simp_all
  from seek_to_in [OF t(2) _ _ assms(7,8)]
  have u: "inv u" "at u = at s" "data u = data t" using lim by simp_all
  have line: "text_line (size cs) (cs @ ys) = cs" for ys
    using assms(4) by (induction cs) auto
  have "nat (at s) \<le> size (data s)" using lim by linarith
  then have "drop (nat (at u)) (data u) = cs @ drop (nat (at s) + size cs) (data s)"
    using t(3) u by simp
  with gets_line [OF assms(1) u(1) _ assms(9)] show ?thesis using t(1) line by simp
qed

end

end
