(* ===== verification/Str68.thy ===== *)
theory Str68
  imports Prelude68
begin

text \<open>
  The string helpers, \<open>file68/src/string68.c\<close>, and the pure parts of the URI parser,
  \<open>file68/src/uri68.c\<close>.

  A C string is the list of its bytes before the final zero, and a pointer to one is an option;
  two pointers are the same when they are both null.  A \<open>char\<close> is signed where the code compares
  it as an \<open>int\<close>.  What \<open>sprintf\<close> prints is written out as digits; \<open>malloc\<close> always succeeds.

  Lemmas: when two strings compare equal; the bounded comparison looks at one character less than
  it is told to; what decoding makes of an encoded string.
\<close>

type_synonym cstr = "u8 list"

section \<open>Characters\<close>

definition chr :: "cstr \<Rightarrow> u8" where
  "chr s = (case s of [] \<Rightarrow> 0 | c # _ \<Rightarrow> c)"

definition toupper68 :: "int \<Rightarrow> int" where
  "toupper68 c = (if c < 97 \<or> c > 122 then c else c - 97 + 65)"

definition upchr :: "cstr \<Rightarrow> int" where
  "upchr s = toupper68 (sint (chr s))"

section \<open>Comparing\<close>

text \<open>The loop of \<open>strcmp68\<close> at \<open>a\<close> and \<open>b\<close>, with the values last read.\<close>

function strcmp_loop :: "cstr \<Rightarrow> cstr \<Rightarrow> int \<Rightarrow> int \<Rightarrow> int" where
  "strcmp_loop a b av bv =
    (if av \<noteq> 0 \<and> av = bv then strcmp_loop (tl a) (tl b) (upchr a) (upchr b) else av - bv)"
  by auto
termination
  by (relation "measure (\<lambda>(a, b, av, bv). size a + of_bool (av \<noteq> 0))")
    (auto simp: upchr_def chr_def toupper68_def split: list.splits)

declare strcmp_loop.simps [simp del]

definition strcmp68 :: "cstr option \<Rightarrow> cstr option \<Rightarrow> int" where
  "strcmp68 a b =
    (case (a, b) of
       (None, None) \<Rightarrow> 0
     | (None, Some _) \<Rightarrow> -1
     | (Some _, None) \<Rightarrow> 1
     | (Some a, Some b) \<Rightarrow> strcmp_loop a b (upchr a) (upchr b))"

text \<open>\<open>n\<close> is \<open>max\<close> when the condition of the loop is met, before \<open>--max\<close>; it is positive.\<close>

fun strncmp_loop :: "nat \<Rightarrow> cstr \<Rightarrow> cstr \<Rightarrow> int \<Rightarrow> int \<Rightarrow> int" where
  "strncmp_loop (Suc (Suc n)) a b av bv =
    (if av \<noteq> 0 \<and> av = bv then strncmp_loop (Suc n) (tl a) (tl b) (upchr a) (upchr b) else av - bv)"
| "strncmp_loop _ a b av bv = av - bv"

definition strncmp68 :: "cstr option \<Rightarrow> cstr option \<Rightarrow> int \<Rightarrow> int" where
  "strncmp68 a b mx =
    (if mx \<le> 0 then 0
     else case (a, b) of
       (None, None) \<Rightarrow> 0
     | (None, Some _) \<Rightarrow> -1
     | (Some _, None) \<Rightarrow> 1
     | (Some a, Some b) \<Rightarrow> strncmp_loop (nat mx) a b (upchr a) (upchr b))"

section \<open>Building strings\<close>

text \<open>The result of \<open>strcat68\<close> is the bytes of the buffer \<open>a\<close> up to where it stops, and whether it has
  written a final zero.\<close>

definition strcat68 :: "cstr option \<Rightarrow> cstr option \<Rightarrow> int \<Rightarrow> (cstr \<times> bool) option" where
  "strcat68 a b l =
    (case a of None \<Rightarrow> None
     | Some a \<Rightarrow>
         if l < 0 then None
         else case b of None \<Rightarrow> Some (a, True)
         | Some b \<Rightarrow>
             let r = a @ take (nat l - size a) b in Some (r, int (size r) < l \<or> nat l \<le> size a))"

definition strdup68 :: "cstr option \<Rightarrow> cstr option" where
  "strdup68 s = s"

definition strcatdup68 :: "cstr option \<Rightarrow> cstr option \<Rightarrow> cstr option" where
  "strcatdup68 a b =
    (case a of None \<Rightarrow> strdup68 b
     | Some x \<Rightarrow> (case b of None \<Rightarrow> strdup68 a | Some y \<Rightarrow> Some (x @ y)))"

definition digit :: "int \<Rightarrow> u8" where
  "digit d = word_of_int (48 + d)"

definition strtime68 :: "int \<Rightarrow> int \<Rightarrow> cstr" where
  "strtime68 track_num seconds =
    (let track_num = (if track_num < 0 then 0 else if track_num > 99 then 99 else track_num);
         tk = (if track_num = 0 then [45, 45] else [digit (track_num div 10), digit (track_num mod 10)]);
         seconds = (if seconds < 0 then -1 else if seconds > 99 * 60 + 59 then 99 * 60 + 59 else seconds);
         tm = (if seconds < 0 then [45, 45, 58, 45, 45]
               else [digit (seconds div 60 div 10), digit (seconds div 60 mod 10), 58,
                     digit (seconds mod 60 div 10), digit (seconds mod 60 mod 10)])
     in tk @ [32] @ tm)"

definition strnevernull68 :: "cstr option \<Rightarrow> cstr" where
  "strnevernull68 s = (case s of Some s \<Rightarrow> s | None \<Rightarrow> [60, 110, 117, 108, 62])"

section \<open>Percent encoding\<close>

definition hex :: "nat \<Rightarrow> u8" where
  "hex d = (if d < 10 then of_nat (48 + d) else of_nat (65 + d - 10))"

definition xdigit :: "int \<Rightarrow> int" where
  "xdigit c =
    (if c \<ge> 48 \<and> c \<le> 57 then c - 57
     else if c \<ge> 65 \<and> c \<le> 70 then c - (65 - 10)
     else if c \<ge> 97 \<and> c \<le> 102 then c - (97 - 10)
     else -1)"

definition isalpha :: "int \<Rightarrow> bool" where
  "isalpha c \<longleftrightarrow> 65 \<le> c \<and> c \<le> 90 \<or> 97 \<le> c \<and> c \<le> 122"

definition isdigit :: "int \<Rightarrow> bool" where
  "isdigit c \<longleftrightarrow> 48 \<le> c \<and> c \<le> 57"

definition isalnum :: "int \<Rightarrow> bool" where
  "isalnum c \<longleftrightarrow> isalpha c \<or> isdigit c"

definition is_uri_unreserved :: "int \<Rightarrow> bool" where
  "is_uri_unreserved c \<longleftrightarrow> isalnum c \<or> c = 45 \<or> c = 95 \<or> c = 46 \<or> c = 126"

definition is_uri_pctenc :: "int \<Rightarrow> bool" where
  "is_uri_pctenc c \<longleftrightarrow> \<not> is_uri_unreserved c"

text \<open>\<open>dst\<close> is the list of bytes written, \<open>src\<close> what is left of the first \<open>len\<close> bytes.\<close>

fun encode_loop :: "nat \<Rightarrow> cstr \<Rightarrow> cstr \<Rightarrow> cstr" where
  "encode_loop mx dst [] = dst"
| "encode_loop mx dst (c # src) =
    (if mx \<le> size dst \<or> c = 0 then dst
     else if is_uri_pctenc (uint c) then
       let dst = dst @ [37]
       in if mx \<le> size dst then dst
          else
            let dst = dst @ [hex (unat c div 16)]
            in if mx \<le> size dst then dst
               else encode_loop mx (dst @ [hex (unat c mod 16)]) src
     else encode_loop mx (dst @ [c]) src)"

definition pct_encode :: "nat \<Rightarrow> cstr \<Rightarrow> cstr" where
  "pct_encode mx src = encode_loop mx [] src"

fun decode_loop :: "nat \<Rightarrow> cstr \<Rightarrow> cstr \<Rightarrow> cstr" where
  "decode_loop mx dst [] = dst"
| "decode_loop mx dst (c # src) =
    (if mx \<le> size dst \<or> c = 0 then dst
     else
       case src of
         a # b # rest \<Rightarrow>
           (let h = xdigit (sint a); l = xdigit (sint b)
            in if c = 37 \<and> h \<ge> 0 \<and> l \<ge> 0 then decode_loop mx (dst @ [word_of_int (h * 16 + l)]) rest
               else decode_loop mx (dst @ [c]) src)
       | _ \<Rightarrow> decode_loop mx (dst @ [c]) src)"

definition pct_decode :: "nat \<Rightarrow> cstr \<Rightarrow> cstr" where
  "pct_decode mx src = decode_loop mx [] src"

section \<open>Schemes\<close>

definition scheme_char :: "u8 \<Rightarrow> bool" where
  "scheme_char c \<longleftrightarrow> isalnum (sint c) \<or> c = 43 \<or> c = 46 \<or> c = 45"

definition parse_scheme :: "cstr \<Rightarrow> nat" where
  "parse_scheme uri =
    (if \<not> isalpha (sint (chr uri)) then 0
     else
       let i = 1 + size (takeWhile scheme_char (tl uri))
       in if chr (drop i uri) = 58 then i + 1 else 0)"

text \<open>The result, and what is copied to \<open>scheme\<close> when it is not null.\<close>

definition uri68_get_scheme :: "nat \<Rightarrow> cstr option \<Rightarrow> int \<times> cstr option" where
  "uri68_get_scheme mx uri =
    (case uri of None \<Rightarrow> (-1, None)
     | Some u \<Rightarrow>
         let len = parse_scheme u
         in if len = 0 then (0, Some [])
            else if mx \<le> len then (-1, None)
            else (int len, Some (take len u)))"

text \<open>The list of schemes, the newest first.\<close>

definition uri68_register :: "'a option \<Rightarrow> 'a list \<Rightarrow> int \<times> 'a list" where
  "uri68_register scheme schemes =
    (case scheme of None \<Rightarrow> (-1, schemes) | Some s \<Rightarrow> (0, s # schemes))"

definition uri68_unregister :: "'a option \<Rightarrow> 'a list \<Rightarrow> 'a list" where
  "uri68_unregister scheme schemes =
    (case scheme of None \<Rightarrow> schemes | Some s \<Rightarrow> remove1 s schemes)"

text \<open>The first scheme that claims the URI and has the modes asked for.\<close>

fun uri68_scheme_for :: "('a \<Rightarrow> cstr \<Rightarrow> int) \<Rightarrow> cstr \<Rightarrow> int \<Rightarrow> 'a list \<Rightarrow> 'a option" where
  "uri68_scheme_for ismine uri mode [] = None"
| "uri68_scheme_for ismine uri mode (s # schemes) =
    (let res = ismine s uri
     in if res \<noteq> 0 \<and> mode AND res AND 3 = mode AND 3 then Some s
        else uri68_scheme_for ismine uri mode schemes)"

section \<open>What the comparisons say\<close>

definition fold_case :: "cstr \<Rightarrow> int list" where
  "fold_case s = map (\<lambda>c. toupper68 (sint c)) s"

lemma upchr_simps [simp]: "upchr [] = 0" "upchr (c # s) = toupper68 (sint c)"
  by (simp_all add: upchr_def chr_def toupper68_def)

lemma toupper_zero [simp]: "toupper68 (sint c) = 0 \<longleftrightarrow> c = 0" for c :: u8
proof -
  have "toupper68 (sint c) = 0 \<longleftrightarrow> sint c = 0" by (auto simp: toupper68_def)
  also have "\<dots> \<longleftrightarrow> c = 0" using sint_eq_iff [of c 0] by simp
  finally show ?thesis .
qed

lemma fold_case_simps [simp]:
  "fold_case [] = []" "fold_case (c # s) = toupper68 (sint c) # fold_case s"
  "fold_case s = [] \<longleftrightarrow> s = []"
  by (simp_all add: fold_case_def)

lemma strcmp_loop_read:
  "av \<noteq> 0 \<Longrightarrow> 0 \<notin> set a \<Longrightarrow> 0 \<notin> set b \<Longrightarrow> strcmp_loop a b av av = 0 \<longleftrightarrow> fold_case a = fold_case b"
proof (induction a arbitrary: b av)
  case Nil
  then show ?case
    by (subst strcmp_loop.simps, subst strcmp_loop.simps) (cases b; auto)
next
  case (Cons x a)
  have step: "strcmp_loop (x # a) b av av = strcmp_loop a (tl b) (toupper68 (sint x)) (upchr b)"
    using Cons.prems(1) by (subst strcmp_loop.simps) simp
  show ?case
  proof (cases "upchr b = toupper68 (sint x)")
    case True
    then obtain y b' where "b = y # b'" using Cons.prems(2) by (cases b) auto
    then show ?thesis
      unfolding step using True Cons.IH [of "toupper68 (sint x)" b'] Cons.prems(2,3) by simp
  next
    case False
    then show ?thesis
      unfolding step by (subst strcmp_loop.simps, cases b) auto
  qed
qed

text \<open>Strings are equal when they are the same up to case.\<close>

lemma strcmp68_eq:
  assumes "0 \<notin> set a" "0 \<notin> set b"
  shows "strcmp68 (Some a) (Some b) = 0 \<longleftrightarrow> fold_case a = fold_case b"
proof -
  show ?thesis
  proof (cases "upchr a = upchr b \<and> a \<noteq> []")
    case True
    then obtain x a' y b' where "a = x # a'" "b = y # b'"
      using assms by (cases a; cases b) auto
    then show ?thesis
      using True assms strcmp_loop_read [of "upchr a" a' b']
      by (simp add: strcmp68_def) (subst strcmp_loop.simps, simp)
  next
    case False
    then show ?thesis using assms
      by (simp add: strcmp68_def) (subst strcmp_loop.simps, cases a; cases b, auto)
  qed
qed

lemma strncmp_loop_read:
  "av \<noteq> 0 \<Longrightarrow> 0 \<notin> set a \<Longrightarrow> 0 \<notin> set b \<Longrightarrow>
    strncmp_loop (Suc n) a b av av = 0 \<longleftrightarrow> fold_case (take n a) = fold_case (take n b)"
proof (induction n arbitrary: a b av)
  case (Suc n)
  show ?case
  proof (cases "upchr a = upchr b \<and> a \<noteq> []")
    case True
    then obtain x a' y b' where ab: "a = x # a'" "b = y # b'"
      using Suc.prems by (cases a; cases b) auto
    then show ?thesis
      using True Suc.prems Suc.IH [of "toupper68 (sint x)" a' b'] by simp
  next
    case False
    then show ?thesis using Suc.prems by (cases n; cases a; cases b) auto
  qed
qed simp

text \<open>\<open>strncmp68\<close> with a limit from 2 on compares one character less.\<close>

lemma strncmp68_prefix:
  assumes "0 \<notin> set a" "0 \<notin> set b"
  shows "strncmp68 (Some a) (Some b) (int n + 2) = 0 \<longleftrightarrow>
    fold_case (take (n + 1) a) = fold_case (take (n + 1) b)"
proof -
  have n: "nat (int n + 2) = Suc (Suc n)" by simp
  show ?thesis
  proof (cases "upchr a = upchr b \<and> a \<noteq> []")
    case True
    then obtain x a' y b' where ab: "a = x # a'" "b = y # b'"
      using assms by (cases a; cases b) auto
    then show ?thesis
      using True assms strncmp_loop_read [of "toupper68 (sint x)" a' b' n]
      by (simp add: strncmp68_def n)
  next
    case False
    then show ?thesis using assms by (cases a; cases b) (auto simp: strncmp68_def n)
  qed
qed

text \<open>The prefix tests of the URI schemes therefore ignore the last character, the colon.\<close>

lemma mem_scheme_confused: "strncmp68 (Some [0x6d, 0x65, 0x6d, 0x78]) (Some [0x6d, 0x65, 0x6d, 0x3a]) 4 = 0"
  using strncmp68_prefix [of "[0x6d, 0x65, 0x6d, 0x78]" "[0x6d, 0x65, 0x6d, 0x3a]" 2] by simp

section \<open>Percent encoding does not come back\<close>

lemma xdigit_decimal: "48 \<le> c \<Longrightarrow> c < 57 \<Longrightarrow> xdigit c < 0"
  by (simp add: xdigit_def)

lemma unat_hex: "d < 16 \<Longrightarrow> unat (hex d) = (if d < 10 then 48 + d else 55 + d)"
proof -
  assume d: "d < 16"
  have "unat (of_nat k :: u8) = k" if "k < 256" for k using that by (simp add: unat_of_nat)
  from this [of "48 + d"] this [of "65 + d - 10"] show ?thesis
    using d unfolding hex_def by (cases "d < 10") (simp_all del: of_nat_add)
qed

text \<open>An encoded byte whose first digit is 0 to 8 is left as it is by the decoder.\<close>

lemma pct_not_decoded:
  assumes "is_uri_pctenc (uint c)" "c \<noteq> 0" "unat c < 144"
  shows "pct_encode 4 [c] = [37, hex (unat c div 16), hex (unat c mod 16)] \<and>
    pct_decode 4 (pct_encode 4 [c]) = pct_encode 4 [c]"
proof -
  have e: "pct_encode 4 [c] = [37, hex (unat c div 16), hex (unat c mod 16)]"
    using assms(1,2) by (simp add: pct_encode_def)
  have "unat c div 16 < 9" using assms(3) by simp
  then have "unat c div 16 \<in> {0, 1, 2, 3, 4, 5, 6, 7, 8}" by auto
  then have high: "xdigit (sint (hex (unat c div 16))) < 0" "hex (unat c div 16) \<noteq> 0"
    by (auto simp: hex_def xdigit_def)
  have low: "hex (unat c mod 16) \<noteq> 0" using unat_hex [of "unat c mod 16"] by (auto split: if_splits)
  have "pct_decode 4 [37, hex (unat c div 16), hex (unat c mod 16)]
      = [37, hex (unat c div 16), hex (unat c mod 16)]"
    using high low by (simp add: pct_decode_def Let_def)
  then show ?thesis by (simp add: e)
qed

end
