(* ===== verification/File68.thy ===== *)
theory File68
  imports Vfs68 Str68
begin

text \<open>
  The sc68 file format, \<open>file68/src/file68.c\<close> and \<open>file68/sc68/file68.h\<close>, \<open>file68_tag.h\<close>,
  \<open>file68_chk.h\<close>: the disk and its tracks, tags, the chunks a disk is saved as, and the loop
  that reads them back.

  A pointer to a string is one to the static strings of the file, to a copy made with \<open>strdup68\<close>, or
  to an offset in the data of the disk, where strings end at the next zero; a pointer to music data
  is an offset too.  The data is a list of bytes, followed by the zeros \<open>alloc_disk\<close> leaves; a read
  in front of it, or a division by zero, is an outcome of its own, \<open>Fault\<close>.  The loop over the
  chunks is a partial function, \<open>None\<close> when it never ends.
\<close>

definition c_str :: "string \<Rightarrow> cstr" where
  "c_str s = map of_char s"

section \<open>Disks\<close>

datatype sptr = Static cstr | Heap cstr | Data nat

datatype 'a run = Good 'a | Failed | Fault

type_synonym tag68 = "sptr option \<times> sptr option"
type_synonym tagset68 = "tag68 list"

definition TAG68_ID_TITLE :: nat where "TAG68_ID_TITLE = 0"
definition TAG68_ID_ARTIST :: nat where "TAG68_ID_ARTIST = 1"
definition TAG68_ID_GENRE :: nat where "TAG68_ID_GENRE = 2"
definition TAG68_ID_CUSTOM :: nat where "TAG68_ID_CUSTOM = 3"
definition TAG68_ID_MAX :: nat where "TAG68_ID_MAX = 12"

definition SC68_MAX_TRACK :: nat where "SC68_MAX_TRACK = 63"
definition SC68_PSG :: s32 where "SC68_PSG = 1"
definition SC68_DMA :: s32 where "SC68_DMA = 2"
definition SC68_AGA :: s32 where "SC68_AGA = 4"
definition SC68_XTD :: s32 where "SC68_XTD = 8"
definition SC68_LMC :: s32 where "SC68_LMC = 16"
definition SC68_LOADADDR :: s32 where "SC68_LOADADDR = 0x10000"

record music68 =
  d0 :: s32
  a0 :: s32
  frq :: s32
  first_ms :: s32
  first_fr :: s32
  loops_ms :: s32
  loops_fr :: s32
  loops :: s32
  has_sfx :: bool
  has_pic :: bool
  has_time :: bool
  has_loop :: bool
  replay :: "sptr option"
  hwflags :: s32
  mtags :: tagset68
  mdatasz :: s32
  mdata :: "nat option"

record disk68 =
  def_mus :: s32
  nb_mus :: int
  time_ms :: s32
  dhwflags :: s32
  hash68 :: s32
  dtags :: tagset68
  force_track :: s32
  force_loops :: s32
  force_ms :: s32
  mus :: "music68 list"
  ddata :: "u8 list"

definition tagstr :: "string \<Rightarrow> sptr option" where
  "tagstr s = Some (Static (c_str s))"

definition tag_val :: "tagset68 \<Rightarrow> nat \<Rightarrow> sptr option" where
  "tag_val tags i = snd (tags ! i)"

definition put_val :: "nat \<Rightarrow> sptr option \<Rightarrow> tagset68 \<Rightarrow> tagset68" where
  "put_val i v tags = tags[i := (fst (tags ! i), v)]"

definition no_tags :: "sptr option \<Rightarrow> tagset68" where
  "no_tags genre =
    [(tagstr ''title'', None), (tagstr ''artist'', None), (genre, None)]
    @ replicate 9 (None, None)"

definition no_music :: music68 where
  "no_music =
    \<lparr>d0 = 0, a0 = 0, frq = 0, first_ms = 0, first_fr = 0, loops_ms = 0, loops_fr = 0, loops = 0,
     has_sfx = False, has_pic = False, has_time = False, has_loop = False, replay = None,
     hwflags = 0, mtags = no_tags (tagstr ''genre''), mdatasz = 0, mdata = None\<rparr>"

text \<open>A new disk around the data that has been read.\<close>

definition alloc_disk :: "u8 list \<Rightarrow> disk68" where
  "alloc_disk d =
    \<lparr>def_mus = 0, nb_mus = 0, time_ms = 0, dhwflags = 0, hash68 = 0,
     dtags = no_tags (tagstr ''format''), force_track = 0, force_loops = 0, force_ms = 0,
     mus = replicate SC68_MAX_TRACK no_music, ddata = d\<rparr>"

section \<open>Numbers\<close>

definition byte_at :: "u8 list \<Rightarrow> nat \<Rightarrow> u8" where
  "byte_at d i = (if i < size d then d ! i else 0)"

definition LPeek :: "u8 list \<Rightarrow> nat \<Rightarrow> s32" where
  "LPeek d i =
    ucast (byte_at d i) + push_bit 8 (ucast (byte_at d (i + 1))) +
    push_bit 16 (ucast (byte_at d (i + 2))) + push_bit 24 (scast (byte_at d (i + 3)))"

definition LPoke :: "s32 \<Rightarrow> u8 list" where
  "LPoke r = [ucast r, ucast (signed_drop_bit 8 r), ucast (signed_drop_bit 16 r), ucast (signed_drop_bit 24 r)]"

definition cstr_at :: "u8 list \<Rightarrow> nat \<Rightarrow> cstr" where
  "cstr_at d i = takeWhile (\<lambda>c. c \<noteq> 0) (drop i d)"

fun text_at :: "u8 list \<Rightarrow> sptr \<Rightarrow> cstr" where
  "text_at d (Static s) = s"
| "text_at d (Heap s) = s"
| "text_at d (Data i) = cstr_at d i"

definition text_of :: "u8 list \<Rightarrow> sptr option \<Rightarrow> cstr option" where
  "text_of d p = map_option (text_at d) p"

definition fr_to_ms :: "s32 \<Rightarrow> s32 \<Rightarrow> s32" where
  "fr_to_ms fr hz = ucast ((ucast fr * 1000) div (ucast hz :: int68))"

definition ms_to_fr :: "s32 \<Rightarrow> s32 \<Rightarrow> s32" where
  "ms_to_fr ms hz = ucast ((ucast ms * ucast hz :: int68) div 1000)"

section \<open>Tags\<close>

definition is_valid_key :: "cstr option \<Rightarrow> bool" where
  "is_valid_key key =
    (case key of None \<Rightarrow> False
     | Some k \<Rightarrow> isalpha (sint (chr k)) \<and> list_all (\<lambda>c. isalnum (sint c) \<and> c \<noteq> 45 \<and> c \<noteq> 95) k)"

definition get_customtag :: "u8 list \<Rightarrow> tagset68 \<Rightarrow> cstr option \<Rightarrow> int" where
  "get_customtag d tags key =
    (if strcmp68 key (Some (c_str ''title'')) = 0 then int TAG68_ID_TITLE
     else if strcmp68 key (Some (c_str ''album'')) = 0 then int TAG68_ID_TITLE
     else if strcmp68 key (Some (c_str ''artist'')) = 0 then int TAG68_ID_ARTIST
     else if strcmp68 key (Some (c_str ''author'')) = 0 then int TAG68_ID_ARTIST
     else if strcmp68 key (Some (c_str ''genre'')) = 0 then int TAG68_ID_GENRE
     else if strcmp68 key (Some (c_str ''format'')) = 0 then int TAG68_ID_GENRE
     else case find (\<lambda>i. strcmp68 key (text_of d (fst (tags ! i))) = 0) [TAG68_ID_CUSTOM ..< TAG68_ID_MAX] of
            Some i \<Rightarrow> int i
          | None \<Rightarrow> -1)"

text \<open>What is freed is out of the disk; \<open>strdup_not_static\<close> does not fail.\<close>

definition strdup_not_static :: "u8 list \<Rightarrow> sptr option \<Rightarrow> sptr option" where
  "strdup_not_static d s =
    (case s of Some (Heap c) \<Rightarrow> map_option Heap (strdup68 (Some c)) | _ \<Rightarrow> s)"

definition set_customtag :: "u8 list \<Rightarrow> tagset68 \<Rightarrow> sptr option \<Rightarrow> sptr option \<Rightarrow> int \<times> tagset68" where
  "set_customtag d tags key v =
    (let i = get_customtag d tags (text_of d key)
     in if v = None then
          (i, if i \<ge> 0
              then (let tags = put_val (nat i) None tags
                    in if nat i \<ge> TAG68_ID_CUSTOM then tags[nat i := (None, snd (tags ! nat i))] else tags)
              else tags)
        else
          let i = (if i < 0 then get_customtag d tags None else i)
          in if i \<ge> 0 then
               let tags = put_val (nat i) None tags;
                   tags = (if fst (tags ! nat i) = None
                           then tags[nat i := (strdup_not_static d key, snd (tags ! nat i))] else tags)
               in if fst (tags ! nat i) = None then (-1, tags)
                  else
                    let tags = put_val (nat i) (strdup_not_static d v) tags
                    in (if tag_val tags (nat i) = None then -1 else i, tags)
             else (i, tags))"

section \<open>Saving\<close>

text \<open>The operands of \<open>||\<close>, in order, up to the first that fails.\<close>

fun save_all :: "('s \<Rightarrow> int \<times> 's) list \<Rightarrow> 's \<Rightarrow> bool \<times> 's" where
  "save_all [] s = (False, s)"
| "save_all (f # fs) s = (let (e, s) = f s in if e \<noteq> 0 then (True, s) else save_all fs s)"

definition save_chunk :: "'s vfs option \<Rightarrow> cstr \<Rightarrow> u8 list option \<Rightarrow> int \<Rightarrow> 's \<Rightarrow> int \<times> 's" where
  "save_chunk os chunk data n s =
    (let align = n AND 1;
         chk = c_str ''SC'' @ chunk @ LPoke (word_of_int (n + align));
         (r, s) = vfs68_write os s chk 8
     in if r \<noteq> 8 then (-1, s)
        else
          case data of None \<Rightarrow> (0, s)
          | Some bytes \<Rightarrow>
              if n = 0 then (0, s)
              else
                let (r, s) = vfs68_write os s bytes n
                in if r \<noteq> n then (-1, s)
                   else if align = 0 then (0, s)
                   else
                     let (r, s) = vfs68_write os s [0] align
                     in if r \<noteq> align then (-1, s) else (0, s))"

definition save_string :: "'s vfs option \<Rightarrow> cstr \<Rightarrow> cstr option \<Rightarrow> 's \<Rightarrow> int \<times> 's" where
  "save_string os chunk str s =
    (case str of None \<Rightarrow> (0, s)
     | Some x \<Rightarrow> if x = [] then (0, s) else save_chunk os chunk (Some (x @ [0])) (int (size x) + 1) s)"

definition not_noname :: "cstr option \<Rightarrow> cstr option" where
  "not_noname s = (if s \<noteq> None \<and> strcmp68 s (Some (c_str ''n/a'')) \<noteq> 0 then s else None)"

definition save_noname :: "'s vfs option \<Rightarrow> cstr \<Rightarrow> cstr option \<Rightarrow> 's \<Rightarrow> int \<times> 's" where
  "save_noname os chunk str s = save_string os chunk (not_noname str) s"

text \<open>Equal pointers have equal contents, and then nothing is saved either.\<close>

definition save_differstr :: "'s vfs option \<Rightarrow> cstr \<Rightarrow> cstr option \<Rightarrow> cstr option \<Rightarrow> 's \<Rightarrow> int \<times> 's" where
  "save_differstr os chunk str oldstr s =
    (if oldstr = str \<or> str = None then (0, s) else save_string os chunk str s)"

definition save_number :: "'s vfs option \<Rightarrow> cstr \<Rightarrow> s32 \<Rightarrow> 's \<Rightarrow> int \<times> 's" where
  "save_number os chunk n s = save_chunk os chunk (Some (LPoke n)) 4 s"

definition save_nonzero :: "'s vfs option \<Rightarrow> cstr \<Rightarrow> s32 \<Rightarrow> 's \<Rightarrow> int \<times> 's" where
  "save_nonzero os chunk n s = (if n = 0 then (0, s) else save_number os chunk n s)"

text \<open>The tags from \<open>start\<close> on; every call passes no list of tags to skip.\<close>

fun save_tags_from :: "'s vfs option \<Rightarrow> (cstr option \<times> cstr option) list \<Rightarrow> 's \<Rightarrow> int \<times> 's" where
  "save_tags_from os [] s = (0, s)"
| "save_tags_from os ((Some (k # ks), Some (v # vs)) # tags) s =
    (let (err, s) = save_chunk os (c_str ''TG'') (Some ((k # ks) @ [0] @ (v # vs) @ [0]))
           (int (size ks) + int (size vs) + 4) s
     in if err \<noteq> 0 then (err, s) else save_tags_from os tags s)"
| "save_tags_from os (_ # tags) s = save_tags_from os tags s"

definition save_tags :: "'s vfs option \<Rightarrow> u8 list \<Rightarrow> tagset68 \<Rightarrow> nat \<Rightarrow> 's \<Rightarrow> int \<times> 's" where
  "save_tags os d tags start s =
    save_tags_from os (map (\<lambda>(k, v). (text_of d k, text_of d v)) (drop start tags)) s"

definition file68_idstr_v1 :: cstr where
  "file68_idstr_v1 = c_str ''SC68 Music-file / (c) (BeN)jamin Gerard / SasHipA-Dev  '' @ [0]"

definition file68_idstr_v2 :: cstr where
  "file68_idstr_v2 = c_str ''SC68 M2'' @ [0]"

definition get_header :: "int \<Rightarrow> cstr" where
  "get_header version = (if version = 2 then file68_idstr_v2 else file68_idstr_v1)"

text \<open>One track: its strings, its parameters, and its data unless the track before has the same.\<close>

definition save_music ::
    "'s vfs option \<Rightarrow> u8 list \<Rightarrow> cstr option \<times> cstr option \<times> nat option \<Rightarrow> music68 \<Rightarrow> 's \<Rightarrow>
      bool \<times> (cstr option \<times> cstr option \<times> nat option) \<times> 's" where
  "save_music os d = (\<lambda>(mname, aname, data) m s.
    (let title = text_of d (tag_val (mtags m) TAG68_ID_TITLE);
         artist = text_of d (tag_val (mtags m) TAG68_ID_ARTIST);
         (fail, s) = save_all
           [save_chunk os (c_str ''MU'') None 0,
            save_differstr os (c_str ''MN'') title mname,
            save_differstr os (c_str ''AN'') artist aname,
            save_tags os d (mtags m) TAG68_ID_CUSTOM] s
     in if fail then (True, (mname, aname, data), s)
        else
          let mname = (if title \<noteq> None then title else mname);
              aname = (if artist \<noteq> None then artist else aname);
              (fail, s) = save_all
               [save_string os (c_str ''RE'') (text_of d (replay m)),
                save_nonzero os (c_str ''D0'') (d0 m),
                save_nonzero os (c_str ''AT'') (of_bool (\<not> has_pic m) * a0 m),
                save_nonzero os (c_str ''FQ'') (of_bool (frq m \<noteq> 50) * frq m),
                save_nonzero os (c_str ''FR'') (of_bool (has_time m) * first_fr m),
                save_nonzero os (c_str ''LP'') (of_bool (has_loop m) * loops m),
                (\<lambda>s. if has_loop m then save_number os (c_str ''LF'') (loops_fr m) s else (0, s)),
                save_number os (c_str ''TY'') (hwflags m),
                (\<lambda>s. if has_sfx m then save_chunk os (c_str ''FX'') None 0 s else (0, s))] s
          in if fail then (True, (mname, aname, data), s)
             else if mdata m \<noteq> None \<and> mdata m \<noteq> data then
               let (e, s) = save_chunk os (c_str ''DA'') (Some (take (unat (mdatasz m)) (drop (the (mdata m)) d)))
                     (sint (mdatasz m)) s
               in if e \<noteq> 0 then (True, (mname, aname, data), s) else (False, (mname, aname, mdata m), s)
             else (False, (mname, aname, data), s)))"

fun save_musics ::
    "'s vfs option \<Rightarrow> u8 list \<Rightarrow> cstr option \<times> cstr option \<times> nat option \<Rightarrow> music68 list \<Rightarrow> 's \<Rightarrow> bool \<times> 's" where
  "save_musics os d prev [] s = (False, s)"
| "save_musics os d prev (m # ms) s =
    (let (fail, prev, s) = save_music os d prev m s
     in if fail then (True, s) else save_musics os d prev ms s)"

text \<open>The result says whether it failed; \<open>os\<close> is not null.\<close>

definition save_sc68 :: "'s vfs option \<Rightarrow> disk68 \<Rightarrow> int \<Rightarrow> int \<Rightarrow> 's \<Rightarrow> bool \<times> 's" where
  "save_sc68 os mb len version s =
    (if os = None \<or> nb_mus mb \<le> 0 \<or> nb_mus mb > int SC68_MAX_TRACK then (True, s)
     else
       let album = text_of (ddata mb) (tag_val (dtags mb) TAG68_ID_TITLE);
           author = text_of (ddata mb) (tag_val (dtags mb) TAG68_ID_ARTIST);
           header = get_header version;
           (r, s) = vfs68_write os s header (int (size header))
       in if r \<noteq> int (size header) then (True, s)
          else
            let (fail, s) = save_all
                  [save_chunk os (c_str ''68'') None len,
                   save_noname os (c_str ''FN'') album,
                   save_noname os (c_str ''AN'') author,
                   save_nonzero os (c_str ''DF'') (def_mus mb),
                   save_tags os (ddata mb) (dtags mb) TAG68_ID_CUSTOM] s
            in if fail then (True, s)
               else
                 let (fail, s) = save_musics os (ddata mb)
                       (album, author, None)
                       (take (nat (nb_mus mb)) (mus mb)) s
                 in if fail then (True, s)
                    else let (e, s) = save_chunk os (c_str ''EF'') None 0 s in (e \<noteq> 0, s))"

section \<open>Loading\<close>

text \<open>The tag set a pointer designates.\<close>

datatype tref = Album | Track nat

fun tags_of :: "tref \<Rightarrow> disk68 \<Rightarrow> tagset68" where
  "tags_of Album mb = dtags mb"
| "tags_of (Track i) mb = mtags (mus mb ! i)"

fun set_tags :: "tref \<Rightarrow> tagset68 \<Rightarrow> disk68 \<Rightarrow> disk68" where
  "set_tags Album ts mb = mb\<lparr>dtags := ts\<rparr>"
| "set_tags (Track i) ts mb = mb\<lparr>mus := (mus mb)[i := (mus mb ! i)\<lparr>mtags := ts\<rparr>]\<rparr>"

text \<open>The disk and the track being read, \<open>cursix\<close>; \<open>tags\<close> always designates the tags of one or the other.\<close>

type_synonym loading = "disk68 \<times> nat option"

datatype chunk_end = Next loading | Stop loading | Refuse

definition cur_tags :: "nat option \<Rightarrow> tref" where
  "cur_tags cur = (case cur of None \<Rightarrow> Album | Some i \<Rightarrow> Track i)"

definition set_cur_tag :: "nat \<Rightarrow> nat \<Rightarrow> loading \<Rightarrow> loading" where
  "set_cur_tag k b = (\<lambda>(mb, cur).
    (set_tags (cur_tags cur) (put_val k (Some (Data b)) (tags_of (cur_tags cur) mb)) mb, cur))"

definition track_chunk :: "(music68 \<Rightarrow> music68) \<Rightarrow> loading \<Rightarrow> chunk_end" where
  "track_chunk f = (\<lambda>(mb, cur).
    case cur of None \<Rightarrow> Refuse
    | Some i \<Rightarrow> Next (mb\<lparr>mus := (mus mb)[i := f (mus mb ! i)]\<rparr>, cur))"

text \<open>What the chunk \<open>chk\<close>, whose contents are at \<open>b\<close> and \<open>n\<close> bytes long, does.\<close>

definition load_chunk :: "cstr \<Rightarrow> nat \<Rightarrow> s32 \<Rightarrow> loading \<Rightarrow> chunk_end" where
  "load_chunk chk b n ld =
    (let (mb, cur) = ld; d = ddata mb; v = LPeek d b
     in if chk = c_str ''68'' then Next ld
        else if chk = c_str ''DF'' then Next (mb\<lparr>def_mus := v\<rparr>, cur)
        else if chk = c_str ''FN'' \<or> chk = c_str ''MN'' then Next (set_cur_tag TAG68_ID_TITLE b ld)
        else if chk = c_str ''MU'' then
          (if nb_mus mb = int SC68_MAX_TRACK then Stop ld
           else Next (mb\<lparr>nb_mus := nb_mus mb + 1\<rparr>, Some (nat (nb_mus mb))))
        else if chk = c_str ''AN'' then Next (set_cur_tag TAG68_ID_ARTIST b ld)
        else if chk = c_str ''CN'' then
          (let tags = tags_of (cur_tags cur) mb
           in if strcmp68 (Some (cstr_at d b)) (text_of d (tag_val tags TAG68_ID_ARTIST)) \<noteq> 0
              then Next (set_tags (cur_tags cur)
                           (snd (set_customtag d tags (tagstr ''composer'') (Some (Data b)))) mb, cur)
              else Next ld)
        else if chk = c_str ''RE'' then track_chunk (\<lambda>m. m\<lparr>replay := Some (Data b)\<rparr>) ld
        else if chk = c_str ''D0'' then track_chunk (\<lambda>m. m\<lparr>d0 := v\<rparr>) ld
        else if chk = c_str ''AT'' then track_chunk (\<lambda>m. m\<lparr>a0 := v\<rparr>) ld
        else if chk = c_str ''TI'' then
          track_chunk (\<lambda>m. m\<lparr>first_ms := (if sint v < 0 \<or> sint v > 60 * 60 * 24 then 0 else v) * 1000\<rparr>) ld
        else if chk = c_str ''FR'' then
          track_chunk (\<lambda>m. m\<lparr>first_fr := (if v \<ge> 0x1000000 then 0 else v)\<rparr>) ld
        else if chk = c_str ''FQ'' then track_chunk (\<lambda>m. m\<lparr>frq := v\<rparr>) ld
        else if chk = c_str ''LP'' then track_chunk (\<lambda>m. m\<lparr>loops := (if sint v < -1 then 0 else v)\<rparr>) ld
        else if chk = c_str ''LF'' then track_chunk (\<lambda>m. m\<lparr>loops_fr := v, has_loop := True\<rparr>) ld
        else if chk = c_str ''FX'' then track_chunk (\<lambda>m. m\<lparr>has_sfx := True\<rparr>) ld
        else if chk = c_str ''TY'' then
          track_chunk (\<lambda>m. m\<lparr>hwflags := (if v AND NOT (SC68_XTD - 1) \<noteq> 0 then v OR SC68_XTD else v)\<rparr>) ld
        else if chk = c_str ''TG'' then
          Next (set_tags (cur_tags cur)
                  (snd (set_customtag d (tags_of (cur_tags cur) mb) (Some (Data b))
                     (Some (Data (b + size (cstr_at d b) + 1))))) mb, cur)
        else if chk = c_str ''DA'' then track_chunk (\<lambda>m. m\<lparr>mdata := Some b, mdatasz := n\<rparr>) ld
        else if chk = c_str ''EF'' then Stop ld
        else Next ld)"

text \<open>
  The loop, with the offset of \<open>b\<close> in the data and what is left; leaving it with \<open>len\<close> not 0 is a
  premature end of file.
\<close>

partial_function (option) load_loop :: "int \<Rightarrow> int \<Rightarrow> loading \<Rightarrow> disk68 run option" where
  "load_loop b len ld =
    (if len < 8 then Some (if len = 0 then Good (fst ld) else Failed)
     else if b < 0 then Some Fault
     else
       let d = ddata (fst ld); at = nat b
       in if byte_at d at \<noteq> 83 \<or> byte_at d (at + 1) \<noteq> 67
          then Some (if len = 0 then Good (fst ld) else Failed)
          else
            let chk_size = LPeek d (at + 4)
            in case load_chunk [byte_at d (at + 2), byte_at d (at + 3)] (at + 8) chk_size ld of
                 Next ld \<Rightarrow> load_loop (b + 8 + sint chk_size) (i32 (len - 8 - sint chk_size)) ld
               | Stop ld \<Rightarrow> Some (Good (fst ld))
               | Refuse \<Rightarrow> Some Failed)"

section \<open>The interface to tags\<close>

text \<open>Track 0 is the disk.\<close>

definition track_ref :: "int \<Rightarrow> tref" where
  "track_ref track = (if track = 0 then Album else Track (nat (track - 1)))"

text \<open>The loop of \<open>file68_tag_count\<close> over the slots \<open>is\<close>, with the next one to fill.\<close>

primrec compact_tags :: "nat list \<Rightarrow> nat \<Rightarrow> tagset68 \<Rightarrow> nat \<times> tagset68" where
  "compact_tags [] cnt ts = (cnt, ts)"
| "compact_tags (i # is) cnt ts =
    (if fst (ts ! i) \<noteq> None \<and> snd (ts ! i) \<noteq> None
     then compact_tags is (cnt + 1) (if cnt \<noteq> i then ts[cnt := ts ! i] else ts)
     else compact_tags is cnt ts)"

definition file68_tag_count :: "disk68 option \<Rightarrow> int \<Rightarrow> int \<times> disk68 option" where
  "file68_tag_count mb track =
    (case mb of None \<Rightarrow> (-1, mb)
     | Some d \<Rightarrow>
         if track \<ge> 0 \<and> track \<le> nb_mus d then
           let (cnt, ts) = compact_tags [TAG68_ID_CUSTOM ..< TAG68_ID_MAX] TAG68_ID_CUSTOM (tags_of (track_ref track) d)
           in (int cnt, Some (set_tags (track_ref track) ts d))
         else (-1, mb))"

definition file68_tag_enum :: "disk68 option \<Rightarrow> int \<Rightarrow> int \<Rightarrow> int \<times> tag68" where
  "file68_tag_enum mb track i =
    (let kv = (case mb of
           Some d \<Rightarrow>
             if i \<ge> 0 \<and> i < int TAG68_ID_MAX \<and> track \<ge> 0 \<and> track \<le> nb_mus d
             then tags_of (track_ref track) d ! nat i else (None, None)
         | None \<Rightarrow> (None, None))
     in (- of_bool (fst kv = None \<or> snd kv = None), kv))"

definition in_range :: "disk68 \<Rightarrow> int \<Rightarrow> bool" where
  "in_range mb track \<longleftrightarrow> track > 0 \<and> track \<le> nb_mus mb"

definition get_tag :: "disk68 \<Rightarrow> int \<Rightarrow> cstr option \<Rightarrow> sptr option" where
  "get_tag mb track key =
    (if track = 0 \<or> in_range mb track then
       let ts = tags_of (track_ref track) mb; i = get_customtag (ddata mb) ts key
       in if i \<ge> 0 then tag_val ts (nat i) else None
     else None)"

definition file68_tag_get :: "disk68 option \<Rightarrow> int \<Rightarrow> cstr option \<Rightarrow> sptr option" where
  "file68_tag_get mb track key =
    (case mb of None \<Rightarrow> None
     | Some d \<Rightarrow> if key \<noteq> None \<and> (track = 0 \<or> in_range d track) then get_tag d track key else None)"

definition file68_tag :: "disk68 option \<Rightarrow> int \<Rightarrow> cstr option \<Rightarrow> cstr option" where
  "file68_tag mb track key =
    (case mb of None \<Rightarrow> None | Some d \<Rightarrow> strdup68 (text_of (ddata d) (file68_tag_get mb track key)))"

text \<open>A negative track would be read in front of the tracks; \<open>track\<close> is at least 0.\<close>

definition file68_tag_set ::
    "disk68 option \<Rightarrow> int \<Rightarrow> sptr option \<Rightarrow> sptr option \<Rightarrow> sptr option \<times> disk68 option" where
  "file68_tag_set mb track key v =
    (case mb of None \<Rightarrow> (None, mb)
     | Some d \<Rightarrow>
         if is_valid_key (text_of (ddata d) key) \<and> track \<le> nb_mus d then
           let (i, ts) = set_customtag (ddata d) (tags_of (track_ref track) d) key v
           in (if i \<ge> 0 then tag_val ts (nat i) else None, Some (set_tags (track_ref track) ts d))
         else (None, mb))"

definition file68_new :: "int \<Rightarrow> disk68 option" where
  "file68_new extra = (if extra < 0 \<or> extra \<ge> 2 ^ 21 then None else Some (alloc_disk (replicate (nat extra) 0)))"

text \<open>The strings \<open>free_tags\<close> hands to \<open>free\<close>, in order.\<close>

definition free_string :: "sptr option \<Rightarrow> sptr list" where
  "free_string s = (case s of Some (Heap c) \<Rightarrow> [Heap c] | _ \<Rightarrow> [])"

definition free_tags :: "tagset68 \<Rightarrow> sptr list" where
  "free_tags ts = concat (map (\<lambda>(k, v). free_string k @ free_string v) ts)"

end
