(* ===== verification/Sndh68.thy ===== *)
theory Sndh68
  imports File68
begin

text \<open>
  SNDH files, the other format \<open>file68/src/file68.c\<close> reads: the three jumps at the start, the
  search of the \<open>SNDH\<close> tag, and the tags up to the music data.

  \<open>char\<close> is signed.  A read outside the buffer that has been filled, or a write to a track outside
  the disk, is the outcome \<open>Fault\<close>; the eight bytes after the data of a disk are zeros, what
  \<open>calloc\<close> leaves of the structure.  The loop over the tags is a partial function.  Debug messages
  are left out, and \<open>assert\<close> is compiled out.
\<close>

section \<open>Runs\<close>

definition bindr :: "'a run \<Rightarrow> ('a \<Rightarrow> 'b run) \<Rightarrow> 'b run" where
  "bindr r f = (case r of Good x \<Rightarrow> f x | Failed \<Rightarrow> Failed | Fault \<Rightarrow> Fault)"

lemma bindr_simps [simp]: "bindr (Good x) f = f x" "bindr Failed f = Failed" "bindr Fault f = Fault"
  by (simp_all add: bindr_def)

text \<open>The byte of a buffer, as a \<open>char\<close>.\<close>

definition rd :: "u8 list \<Rightarrow> int \<Rightarrow> u8 run" where
  "rd b i = (if 0 \<le> i \<and> i < int (size b) then Good (b ! nat i) else Fault)"

definition WPeekBE :: "u8 list \<Rightarrow> int \<Rightarrow> int run" where
  "WPeekBE b i = bindr (rd b i) (\<lambda>h. bindr (rd b (i + 1)) (\<lambda>l. Good (uint l + sint h * 256)))"

definition LPeekBE :: "u8 list \<Rightarrow> int \<Rightarrow> s32 run" where
  "LPeekBE b i =
    bindr (rd b i) (\<lambda>c0. bindr (rd b (i + 1)) (\<lambda>c1. bindr (rd b (i + 2)) (\<lambda>c2. bindr (rd b (i + 3)) (\<lambda>c3.
      Good (push_bit 24 (scast c0) + push_bit 16 (ucast c1) + push_bit 8 (ucast c2) + ucast c3)))))"

section \<open>The magic\<close>

record sndh_boot =
  init :: int
  kill :: int
  play :: int
  bdata :: int

definition sndh_cc :: s32 where "sndh_cc = 0x534E4448"

text \<open>\<open>w0\<close> and \<open>w1\<close> are sign extended, and the sums are those of \<open>unsigned int\<close> stored in an \<open>int\<close>.\<close>

function sndh_decode :: "u8 list \<Rightarrow> int \<Rightarrow> int \<Rightarrow> int run" where
  "sndh_decode buf org off =
    (if off \<le> 10 then
       bindr (WPeekBE buf off) (\<lambda>w0.
         if w0 = 0x4e71 then sndh_decode buf org (off + 2)
         else
           bindr (WPeekBE buf (off + 2)) (\<lambda>w1. Good
             (if w0 = 0x6000 \<or> w0 = 0x4efa then off + 2 + w1
              else if w0 AND 0xff00 = 0x6000 then off + sint (word_of_int w0 :: u8)
              else if w0 = 0x4e75 \<or> w0 = 0x4e00 \<and> off = 4 then org
              else -1)))
     else Good (-1))"
  by auto
termination by (relation "measure (\<lambda>(buf, org, off). nat (12 - off))") auto

declare sndh_decode.simps [simp del]

text \<open>The scan for the tag: \<open>v\<close> holds four bytes, the last one read before \<open>i\<close>.\<close>

function sndh_scan :: "u8 list \<Rightarrow> int \<Rightarrow> int \<Rightarrow> s32 \<Rightarrow> (int \<times> s32) run" where
  "sndh_scan buf i mx v =
    (if i < mx \<and> v \<noteq> sndh_cc
     then bindr (rd buf i) (\<lambda>c. sndh_scan buf (i + 1) mx (push_bit 8 v OR ucast c))
     else Good (i, v))"
  by auto
termination by (relation "measure (\<lambda>(buf, i, mx, v). nat (mx - i))") auto

declare sndh_scan.simps [simp del]

definition min_boot :: "int \<Rightarrow> sndh_boot \<Rightarrow> sndh_boot" where
  "min_boot v boot = (if v \<ge> 16 \<and> v < bdata boot then boot\<lparr>bdata := v\<rparr> else boot)"

text \<open>Three jumps that decode: the result, and \<open>boot\<close> with the lowest target as its data.\<close>

definition sndh_vectors :: "u8 list \<Rightarrow> int \<Rightarrow> (bool \<times> sndh_boot) run" where
  "sndh_vectors buffer mx =
    (let none = \<lparr>init = -1, kill = -1, play = -1, bdata = 0x8000\<rparr>
     in if mx < 12 then Good (False, none)
        else bindr (sndh_decode buffer 0 0) (\<lambda>i.
          if i < 0 then Good (False, none\<lparr>init := i\<rparr>)
          else bindr (sndh_decode buffer 4 4) (\<lambda>k.
            if k < 0 then Good (False, none\<lparr>init := i, kill := k\<rparr>)
            else bindr (sndh_decode buffer 8 8) (\<lambda>p.
              let boot = none\<lparr>init := i, kill := k, play := p\<rparr>
              in if p < 0 then Good (False, boot)
                 else Good (True, min_boot p (min_boot k (min_boot i boot)))))))"

definition sndh_is_magic :: "u8 list \<Rightarrow> int \<Rightarrow> (int \<times> sndh_boot) run" where
  "sndh_is_magic buffer mx =
    bindr (sndh_vectors buffer mx) (\<lambda>(found, boot).
      if \<not> found \<or> bdata boot = 0x1000 then Good (0, boot)
      else bindr (LPeekBE buffer 10) (\<lambda>v.
        bindr (sndh_scan buffer 10 (bdata boot) v) (\<lambda>(i, v).
          Good (if v = sndh_cc then i - 4 else 0, boot))))"

section \<open>Characters and strings\<close>

definition st_isupper :: "int \<Rightarrow> bool" where
  "st_isupper c \<longleftrightarrow> c \<ge> 65 \<and> c \<le> 90"

definition st_isdigit :: "int \<Rightarrow> bool" where
  "st_isdigit c \<longleftrightarrow> c \<ge> 48 \<and> c \<le> 57"

definition st_istag :: "int \<Rightarrow> bool" where
  "st_istag c \<longleftrightarrow> c = 33 \<or> c = 35"

definition st_isgraph :: "int \<Rightarrow> bool" where
  "st_isgraph c \<longleftrightarrow> st_isupper c \<or> st_isdigit c \<or> st_istag c"

text \<open>The loop of \<open>chkstr\<close> up to \<open>len\<close>: the length or -1, and the buffer.\<close>

function chkstr_loop :: "u8 list \<Rightarrow> int \<Rightarrow> int \<Rightarrow> int \<Rightarrow> int \<Rightarrow> (int \<times> u8 list) run" where
  "chkstr_loop b org off len spc =
    (if off < len then
       bindr (rd b off) (\<lambda>c.
         if c = 0 then Good (off - org, if spc + 1 < len then b[nat (spc + 1) := 0] else b)
         else if sint c \<le> 32 then chkstr_loop (b[nat off := 32]) org (off + 1) len spc
         else chkstr_loop b org (off + 1) len off)
     else Good (-1, b))"
  by auto
termination by (relation "measure (\<lambda>(b, org, off, len, spc). nat (len - off))") auto

declare chkstr_loop.simps [simp del]

definition chkstr :: "u8 list \<Rightarrow> int \<Rightarrow> int \<Rightarrow> (int \<times> u8 list) run" where
  "chkstr b off len = chkstr_loop b off off (if off + 256 < len then off + 256 else len) len"

definition flag_bit :: "u8 \<Rightarrow> s32" where
  "flag_bit c =
    (if c = 121 then SC68_PSG else if c = 101 then SC68_DMA
     else if c = 97 then 2 ^ 5 else if c = 98 then 2 ^ 6
     else if c = 99 then 2 ^ 7 else if c = 100 then 2 ^ 8
     else if c = 112 then SC68_AGA else if c = 108 then SC68_LMC
     else if c = 115 then 2 ^ 11 else if c = 116 then 2 ^ 10
     else if c = 104 then 2 ^ 9 else 0)"

function sndh_flags_loop :: "u8 list \<Rightarrow> int \<Rightarrow> int \<Rightarrow> int \<Rightarrow> s32 \<Rightarrow> (int \<times> s32) run" where
  "sndh_flags_loop b off k len f =
    (if k < len then
       bindr (rd b (off + k)) (\<lambda>c.
         if c = 0 then Good (k, f) else sndh_flags_loop b off (k + 1) len (f OR flag_bit c))
     else Good (k, f))"
  by auto
termination by (relation "measure (\<lambda>(b, off, k, len, f). nat (len - k))") auto

declare sndh_flags_loop.simps [simp del]

text \<open>The string is at \<open>off\<close>; the flags and how far it goes.\<close>

definition sndh_flags :: "u8 list \<Rightarrow> int \<Rightarrow> int \<Rightarrow> (int \<times> s32) run" where
  "sndh_flags b off len =
    bindr (sndh_flags_loop b off 0 len SC68_XTD) (\<lambda>(k, f).
      Good (if k + 1 > len then len else k + 1, f))"

text \<open>The digits from \<open>i\<close> on.\<close>

function myatoi :: "u8 list \<Rightarrow> int \<Rightarrow> int \<Rightarrow> int \<Rightarrow> (int \<times> int) run" where
  "myatoi s i mx v =
    (if i < mx then
       bindr (rd s i) (\<lambda>c.
         if isdigit (sint c) then myatoi s (i + 1) mx (i32 (v * 10 + sint c - 48)) else Good (i, v))
     else Good (i, v))"
  by auto
termination by (relation "measure (\<lambda>(s, i, mx, v). nat (mx - i))") auto

declare myatoi.simps [simp del]

section \<open>The tags\<close>

record sndh68 =
  sdisk :: disk68
  sat :: int
  svbl :: int
  sfrq :: int
  sunknowns :: int
  sdtag :: nat
  sttag :: nat

definition sbuf :: "disk68 \<Rightarrow> u8 list" where
  "sbuf mb = ddata mb @ replicate 8 0"

definition set_sbuf :: "u8 list \<Rightarrow> disk68 \<Rightarrow> disk68" where
  "set_sbuf b mb = mb\<lparr>ddata := take (size (ddata mb)) b\<rparr>"

definition sndh_tracks :: "disk68 \<Rightarrow> nat" where
  "sndh_tracks mb = (if nb_mus mb \<le> 0 then 1 else nat (nb_mus mb))"

definition upd_track :: "nat \<Rightarrow> (music68 \<Rightarrow> music68) \<Rightarrow> disk68 \<Rightarrow> disk68 run" where
  "upd_track j f mb =
    (if j < SC68_MAX_TRACK then Good (mb\<lparr>mus := (mus mb)[j := f (mus mb ! j)]\<rparr>) else Fault)"

function skip_zeros :: "u8 list \<Rightarrow> int \<Rightarrow> int \<Rightarrow> int run" where
  "skip_zeros b len i =
    (if i < len then bindr (rd b i) (\<lambda>c. if c = 0 then skip_zeros b len (i + 1) else Good i) else Good i)"
  by auto
termination by (relation "measure (\<lambda>(b, len, i). nat (len - i))") auto

function skip_text :: "u8 list \<Rightarrow> int \<Rightarrow> int \<Rightarrow> int run" where
  "skip_text b len i =
    bindr (rd b i) (\<lambda>c. if c \<noteq> 0 \<and> i < len then skip_text b len (i + 1) else Good i)"
  by auto
termination by (relation "measure (\<lambda>(b, len, i). nat (len - i))") auto

declare skip_zeros.simps [simp del] skip_text.simps [simp del]

text \<open>\<open>TIME\<close>: \<open>n\<close> tracks from \<open>j\<close> on, with their seconds at \<open>i\<close>.\<close>

primrec sndh_times :: "nat \<Rightarrow> nat \<Rightarrow> int \<Rightarrow> int \<Rightarrow> disk68 \<Rightarrow> (int \<times> disk68) run" where
  "sndh_times 0 j i len mb = Good (i, mb)"
| "sndh_times (Suc n) j i len mb =
    (if i < len - 2 \<and> j < SC68_MAX_TRACK then
       bindr (rd (sbuf mb) i) (\<lambda>h. bindr (rd (sbuf mb) (i + 1)) (\<lambda>l.
         bindr (upd_track j (\<lambda>m. m\<lparr>first_ms := 1000 * (push_bit 8 (ucast h) OR ucast l)\<rparr>) mb)
           (sndh_times n (Suc j) (i + 2) len)))
     else sndh_times n (Suc j) (i + 2) len mb)"

text \<open>\<open>FLAG\<close>: one string for all tracks, or a table with a string for each.\<close>

primrec same_flags :: "nat \<Rightarrow> nat \<Rightarrow> disk68 \<Rightarrow> disk68 run" where
  "same_flags 0 j mb = Good mb"
| "same_flags (Suc n) j mb =
    bindr (upd_track j (\<lambda>m. m\<lparr>hwflags := dhwflags mb\<rparr>) mb) (same_flags n (Suc j))"

primrec each_flags :: "nat \<Rightarrow> nat \<Rightarrow> int \<Rightarrow> int \<Rightarrow> int \<Rightarrow> disk68 \<Rightarrow> (int \<times> disk68) run" where
  "each_flags 0 j i len mx mb = Good (mx, mb)"
| "each_flags (Suc n) j i len mx mb =
    bindr (WPeekBE (sbuf mb) (i + 4 + int j * 2)) (\<lambda>off.
      let k = i + off
      in bindr (sndh_flags (sbuf mb) k (len - k)) (\<lambda>(l, f).
        bindr (upd_track j (\<lambda>m. m\<lparr>hwflags := f\<rparr>) mb)
          (each_flags n (Suc j) i len (max mx (k + l)))))"

definition sndh_flag_tag :: "int \<Rightarrow> int \<Rightarrow> disk68 \<Rightarrow> (int \<times> disk68) run" where
  "sndh_flag_tag i len mb =
    bindr (rd (sbuf mb) (i + 4)) (\<lambda>c.
      if i AND 1 \<noteq> 0 \<or> c = 126 then
        bindr (sndh_flags (sbuf mb) (i + 5) (len - (i + 5))) (\<lambda>(l, f).
          bindr (same_flags (sndh_tracks mb) 0 (mb\<lparr>dhwflags := f\<rparr>)) (\<lambda>mb. Good (i + 5 + l, mb)))
      else each_flags (sndh_tracks mb) 0 i len 0 mb)"

text \<open>\<open>!#SN\<close>: whether an offset of the table at \<open>i\<close> points into it, and the names.\<close>

primrec faulty_names :: "nat \<Rightarrow> u8 list \<Rightarrow> int \<Rightarrow> int \<Rightarrow> int \<Rightarrow> bool run" where
  "faulty_names 0 b i t tend = Good False"
| "faulty_names (Suc n) b i t tend =
    bindr (WPeekBE b i) (\<lambda>off. if t + off < tend then Good True else faulty_names n b (i + 2) t tend)"

primrec sndh_names :: "nat \<Rightarrow> nat \<Rightarrow> int \<Rightarrow> int \<Rightarrow> int \<Rightarrow> int \<Rightarrow> disk68 \<Rightarrow> (int \<times> disk68) run" where
  "sndh_names 0 j i torg len mx mb = Good (mx, mb)"
| "sndh_names (Suc n) j i torg len mx mb =
    bindr (WPeekBE (sbuf mb) i) (\<lambda>off.
      let off = off + torg
      in if off < 0 \<or> off \<ge> len then sndh_names n (Suc j) (i + 2) torg len mx mb
         else bindr (chkstr (sbuf mb) off len) (\<lambda>(l, b).
           let mb = set_sbuf b mb
           in if l \<ge> 0 then
                bindr (upd_track j
                    (\<lambda>m. m\<lparr>mtags := put_val TAG68_ID_TITLE (Some (Data (nat off))) (mtags m)\<rparr>) mb)
                  (sndh_names n (Suc j) (i + 2) torg len (max mx (off + l + 1)))
              else sndh_names n (Suc j) (i + 2) torg len len mb))"

definition sndh_names_tag :: "int \<Rightarrow> int \<Rightarrow> disk68 \<Rightarrow> (int \<times> disk68) run" where
  "sndh_names_tag t len mb =
    (let i = t + 4 + (t AND 1); tracks = sndh_tracks mb; tend = i + int tracks * 2
     in bindr (faulty_names tracks (sbuf mb) i t tend) (\<lambda>bad.
       bindr (sndh_names tracks 0 i (if bad then tend else t) len 0 mb) (\<lambda>(mx, mb).
         bindr (skip_zeros (sbuf mb) len mx) (\<lambda>i. Good (i, mb)))))"

text \<open>
  What a tag turns out to be: where to go on (\<open>Jump\<close> is the \<open>continue\<close> of the table of names), for
  a known tag the string it has and where that goes, or not a tag.
\<close>

datatype sndh_tag =
    Known int sndh68
  | Str int "(tref \<times> nat) option" sndh68
  | Jump int
  | Unknown int sndh68

definition two_digits :: "u8 list \<Rightarrow> int" where
  "two_digits q = (uint (q ! 2) - 48) * 10 + (uint (q ! 3) - 48)"

text \<open>A custom tag of the album or of the first track, while there is room.\<close>

definition custom_slot :: "tref \<Rightarrow> nat \<Rightarrow> string \<Rightarrow> disk68 \<Rightarrow> disk68" where
  "custom_slot r k key mb =
    (let ts = tags_of r mb; i = TAG68_ID_CUSTOM + k
     in set_tags r (ts[i := (tagstr key, snd (ts ! i))]) mb)"

definition track_custom :: "string \<Rightarrow> sndh68 \<Rightarrow> sndh_tag" where
  "track_custom key st =
    (if sttag st < TAG68_ID_MAX - TAG68_ID_CUSTOM
     then Str (sat st + 4) (Some (Track 0, TAG68_ID_CUSTOM + sttag st))
            (st\<lparr>sdisk := custom_slot (Track 0) (sttag st) key (sdisk st), sttag := sttag st + 1\<rparr>)
     else Unknown (sat st) st)"

text \<open>The tag at \<open>sat st\<close>, whose four characters are \<open>q\<close>.\<close>

definition sndh_tag_at :: "u8 list \<Rightarrow> int \<Rightarrow> sndh68 \<Rightarrow> sndh_tag run" where
  "sndh_tag_at q len st =
    (let i = sat st; mb = sdisk st; b = sbuf mb;
         digits = st_isdigit (sint (q ! 2)) \<and> st_isdigit (sint (q ! 3))
     in if \<not> list_all (\<lambda>c. st_isgraph (sint c)) q then Good (Unknown i st)
        else if q = c_str ''SNDH'' then Good (Known (i + 4) st)
        else if q = c_str ''COMM'' then Good (Str (i + 4) (Some (Track 0, TAG68_ID_ARTIST)) st)
        else if q = c_str ''TITL'' then Good (Str (i + 4) (Some (Album, TAG68_ID_TITLE)) st)
        else if q = c_str ''RIPP'' then Good (track_custom ''ripper'' st)
        else if q = c_str ''CONV'' then Good (track_custom ''converter'' st)
        else if q = c_str ''YEAR'' then Good
          (if sdtag st < TAG68_ID_MAX - TAG68_ID_CUSTOM
           then Str (i + 4) (Some (Album, TAG68_ID_CUSTOM + sdtag st))
                  (st\<lparr>sdisk := custom_slot Album (sdtag st) ''year'' mb, sdtag := sdtag st + 1\<rparr>)
           else Unknown i st)
        else if q = c_str ''MuMo'' then Good (Known (i + 4) st)
        else if q = c_str ''TIME'' then
          bindr (sndh_times (sndh_tracks mb) 0 (i + 4 + (i AND 1)) len mb) (\<lambda>(i, mb).
            Good (Known i (st\<lparr>sdisk := mb\<rparr>)))
        else if q = c_str ''FLAG'' then
          bindr (sndh_flag_tag i len mb) (\<lambda>(i, mb). Good (Known i (st\<lparr>sdisk := mb\<rparr>)))
        else if take 2 q = c_str ''##'' \<and> digits then
          Good (Known (i + 4) (st\<lparr>sdisk := mb\<lparr>nb_mus := two_digits q\<rparr>\<rparr>))
        else if (take 2 q = c_str ''!#'' \<or> take 2 q = c_str ''#!'') \<and> digits then
          Good (Known (i + 4) (st\<lparr>sdisk := mb\<lparr>def_mus := word_of_int (two_digits q - 1)\<rparr>\<rparr>))
        else if q = c_str ''!#SN'' \<or> q = c_str ''#!SN'' then
          (if i + 4 + (i AND 1) + int (sndh_tracks mb) * 2 \<ge> len then Good (Jump len)
           else bindr (sndh_names_tag i len mb) (\<lambda>(i, mb). Good (Known i (st\<lparr>sdisk := mb\<rparr>))))
        else if take 2 q = c_str ''!V'' \<and> digits then Good (Unknown (i + 4) (st\<lparr>svbl := two_digits q\<rparr>))
        else if q ! 0 = 84 \<and> sint (q ! 1) \<ge> 65 \<and> sint (q ! 1) \<le> 68 \<and> digits then
          bindr (myatoi b (i + 2) len 0) (\<lambda>(_, frq). Good (Str (i + 2) None (st\<lparr>sfrq := frq\<rparr>)))
        else if q = [0, 0, 0, 0] \<or> q = c_str ''HDNS'' then Good (Known len st)
        else bindr (skip_text b len (i + 4)) (\<lambda>i. Good (Unknown i st)))"

text \<open>One turn of the loop, with the next turn's state, or the end.\<close>

definition sndh_turn :: "int \<Rightarrow> sndh68 \<Rightarrow> (bool \<times> sndh68) run" where
  "sndh_turn len st =
    bindr (skip_zeros (sbuf (sdisk st)) len (sat st)) (\<lambda>i.
      let st = st\<lparr>sat := i\<rparr>
      in if i + 4 > len then Good (False, st)
         else bindr (sndh_tag_at (take 4 (drop (nat i) (sbuf (sdisk st)))) len st) (\<lambda>tag.
           case tag of
             Jump i \<Rightarrow> Good (True, st\<lparr>sat := i\<rparr>)
           | Unknown i st \<Rightarrow>
               let unknowns = sunknowns st + 1
               in Good (True, st\<lparr>sat := (if unknowns \<ge> 8 then len else i + 1), sunknowns := unknowns\<rparr>)
           | Known i st \<Rightarrow> Good (True, st\<lparr>sat := i, sunknowns := 0\<rparr>)
           | Str s p st \<Rightarrow>
               bindr (chkstr (sbuf (sdisk st)) s len) (\<lambda>(l, b).
                 let st = st\<lparr>sdisk := set_sbuf b (sdisk st), sunknowns := 0\<rparr>
                 in if l < 0 then Good (True, st\<lparr>sat := len\<rparr>)
                    else
                      let mb = sdisk st;
                          mb = (case p of None \<Rightarrow> mb
                                | Some (r, k) \<Rightarrow> set_tags r (put_val k (Some (Data (nat s))) (tags_of r mb)) mb)
                      in Good (True, st\<lparr>sdisk := mb, sat := s + l + 1\<rparr>))))"

partial_function (option) sndh_loop :: "int \<Rightarrow> sndh68 \<Rightarrow> sndh68 run option" where
  "sndh_loop len st =
    (case sndh_turn len st of
       Good (goes, st) \<Rightarrow> if goes then sndh_loop len st else Some (Good st)
     | Failed \<Rightarrow> Some Failed
     | Fault \<Rightarrow> Some Fault)"

text \<open>What the tracks are given at the end.\<close>

definition sndh_track :: "int \<Rightarrow> int \<Rightarrow> nat \<Rightarrow> music68 \<Rightarrow> music68" where
  "sndh_track frq0 vbl i m =
    m\<lparr>d0 := of_nat (i + 1), loops := 0, frq := word_of_int (if frq0 \<noteq> 0 then frq0 else vbl),
      hwflags := (if hwflags m AND SC68_XTD = 0
                  then hwflags m OR (SC68_PSG OR SC68_DMA OR SC68_LMC) else hwflags m)\<rparr>"

definition sndh_close :: "sndh68 \<Rightarrow> disk68" where
  "sndh_close st =
    (let mb = sdisk st;
         nb = (if nb_mus mb \<le> 0 then 1 else nb_mus mb);
         nb = (if nb > int SC68_MAX_TRACK then int SC68_MAX_TRACK else nb);
         n = nat nb
     in mb\<lparr>nb_mus := nb,
           mus := map (\<lambda>i. sndh_track (sfrq st) (svbl st) i (mus mb ! i)) [0 ..< n] @ drop n (mus mb)\<rparr>)"

definition sndh_info :: "disk68 \<Rightarrow> int \<Rightarrow> disk68 run option" where
  "sndh_info mb len =
    (let mb = mb\<lparr>mus := (mus mb)[0 := (mus mb ! 0)\<lparr>mdata := Some 0, mdatasz := word_of_int len, replay := None\<rparr>],
                 nb_mus := -1\<rparr>
     in case sndh_is_magic (sbuf mb) len of
          Failed \<Rightarrow> Some Failed
        | Fault \<Rightarrow> Some Fault
        | Good (i, boot) \<Rightarrow>
            if i = 0 \<or> bdata boot \<ge> len then Some Failed
            else
              map_option (\<lambda>r. bindr r (\<lambda>st. Good (sndh_close st)))
                (sndh_loop (bdata boot)
                  \<lparr>sdisk = mb, sat = i, svbl = 0, sfrq = 0, sunknowns = 0, sdtag = 0, sttag = 0\<rparr>))"

end
