(* ===== verification/Timedb68.thy ===== *)
theory Timedb68
  imports Prelude68 "HOL-Library.Multiset"
begin

text \<open>
  The database of track durations, \<open>file68/src/timedb68.c\<close>: entries with bit fields, the
  comparison, adding and looking up.

  \<open>bsearch\<close> and \<open>qsort\<close> are the C library's: a search by halving, and an insertion sort, which
  gives the result of every stable sort when the comparison is an order.  The array is the list of
  its \<open>dbcount\<close> entries.  The table of \<open>timedb.inc.h\<close> is data; three of its entries are used.

  Lemmas: the comparison orders entries whose hashes lie within half of the 32-bit range, and only
  then; searching and sorting; an entry added is found.
\<close>

record dbentry =
  ehash :: s32
  etrack :: "6 word"
  eflags :: "6 word"
  eframes :: "20 word"

record timedb =
  db :: "dbentry list"
  dbmax :: nat
  dbsort :: bool

section \<open>The C library\<close>

function bsearch :: "('k \<Rightarrow> 'a \<Rightarrow> int) \<Rightarrow> 'k \<Rightarrow> 'a list \<Rightarrow> nat \<Rightarrow> nat \<Rightarrow> nat option" where
  "bsearch c key xs l u =
    (if l < u then
       let i = (l + u) div 2; v = c key (xs ! i)
       in if v < 0 then bsearch c key xs l i
          else if v > 0 then bsearch c key xs (i + 1) u
          else Some i
     else None)"
  by auto
termination by (relation "measure (\<lambda>(c, key, xs, l, u). u - l)") auto

declare bsearch.simps [simp del]

primrec qsort_insert :: "('a \<Rightarrow> 'a \<Rightarrow> int) \<Rightarrow> 'a \<Rightarrow> 'a list \<Rightarrow> 'a list" where
  "qsort_insert c e [] = [e]"
| "qsort_insert c e (x # xs) = (if c e x \<le> 0 then e # x # xs else x # qsort_insert c e xs)"

primrec qsort :: "('a \<Rightarrow> 'a \<Rightarrow> int) \<Rightarrow> 'a list \<Rightarrow> 'a list" where
  "qsort c [] = []"
| "qsort c (x # xs) = qsort_insert c x (qsort c xs)"

section \<open>The database\<close>

text \<open>\<open>v = a->hash - b->hash\<close> is an unsigned difference stored in an \<open>int\<close>.\<close>

definition cmp :: "dbentry \<Rightarrow> dbentry \<Rightarrow> int" where
  "cmp a b =
    (let v = sint (ehash a - ehash b)
     in if v = 0 then uint (etrack a) - uint (etrack b) else v)"

definition search_for :: "dbentry \<Rightarrow> timedb \<Rightarrow> nat option \<times> timedb" where
  "search_for key s =
    (let s = (if \<not> dbsort s then s\<lparr>db := qsort cmp (db s), dbsort := True\<rparr> else s)
     in (bsearch cmp key (db s) 0 (size (db s)), s))"

text \<open>\<open>s - db\<close> for a null \<open>s\<close>, when the database is full, has no value: \<open>None\<close>.\<close>

definition timedb68_add :: "s32 \<Rightarrow> s32 \<Rightarrow> s32 \<Rightarrow> s32 \<Rightarrow> timedb \<Rightarrow> int option \<times> timedb" where
  "timedb68_add hash track frames flags s =
    (if track \<ge> 2 ^ 6 \<or> frames \<ge> 2 ^ 20 then (Some (-1), s)
     else
       let e = \<lparr>ehash = hash, etrack = ucast track, eflags = ucast flags, eframes = ucast frames\<rparr>;
           (r, s) = search_for e s
       in case r of
            Some i \<Rightarrow> (Some (int i), s\<lparr>db := (db s)[i := e]\<rparr>)
          | None \<Rightarrow>
              if size (db s) < dbmax s
              then (Some (int (size (db s))), s\<lparr>db := db s @ [e], dbsort := False\<rparr>)
              else (None, s))"

text \<open>The key's other fields are not set, and not looked at.\<close>

definition timedb68_get :: "s32 \<Rightarrow> s32 \<Rightarrow> timedb \<Rightarrow> int \<times> (s32 \<times> s32) option \<times> timedb" where
  "timedb68_get hash track s =
    (let e = \<lparr>ehash = hash, etrack = ucast track, eflags = 0, eframes = 0\<rparr>;
         (r, s) = search_for e s
     in case r of
          Some i \<Rightarrow> (int i, Some (ucast (eframes (db s ! i)), ucast (eflags (db s ! i))), s)
        | None \<Rightarrow> (-1, None, s))"

section \<open>Searching and sorting by a key\<close>

text \<open>A comparison that agrees with a key on the entries at hand.\<close>

definition cmp_key :: "('a \<Rightarrow> 'a \<Rightarrow> int) \<Rightarrow> ('a \<Rightarrow> int) \<Rightarrow> 'a set \<Rightarrow> bool" where
  "cmp_key c K A \<longleftrightarrow> (\<forall>a \<in> A. \<forall>b \<in> A. (c a b < 0 \<longleftrightarrow> K a < K b) \<and> (c a b = 0 \<longleftrightarrow> K a = K b))"

lemma cmp_keyD:
  assumes "cmp_key c K A" "a \<in> A" "b \<in> A"
  shows "c a b < 0 \<longleftrightarrow> K a < K b" "c a b = 0 \<longleftrightarrow> K a = K b" "c a b > 0 \<longleftrightarrow> K b < K a"
    "c a b \<le> 0 \<longleftrightarrow> K a \<le> K b"
  using assms unfolding cmp_key_def by (force simp: not_less order_less_le)+

lemma qsort_insert_key:
  assumes "cmp_key c K A" "e \<in> A" "set xs \<subseteq> A"
  shows "qsort_insert c e xs = insort_key K e xs"
  using assms(3) by (induction xs) (auto simp: cmp_keyD(4) [OF assms(1,2)])

lemma qsort_key:
  assumes "cmp_key c K A"
  shows "set xs \<subseteq> A \<Longrightarrow> qsort c xs = sort_key K xs"
  by (induction xs) (simp_all add: qsort_insert_key [OF assms])

lemma bsearch_key:
  assumes "cmp_key c K A" "key \<in> A" "set xs \<subseteq> A" "sorted (map K xs)"
  shows "u \<le> size xs \<Longrightarrow>
    (case bsearch c key xs l u of
       Some i \<Rightarrow> l \<le> i \<and> i < u \<and> K (xs ! i) = K key
     | None \<Rightarrow> (\<forall>i. l \<le> i \<and> i < u \<longrightarrow> K (xs ! i) \<noteq> K key))"
proof (induction "u - l" arbitrary: l u rule: less_induct)
  case less
  show ?case
  proof (cases "l < u")
    case False
    then show ?thesis by (subst bsearch.simps) simp
  next
    case True
    define i where "i = (l + u) div 2"
    have i: "l \<le> i" "i < u" "i < size xs" using True less.prems by (auto simp: i_def)
    have mono: "K (xs ! j) \<le> K (xs ! k)" if "j \<le> k" "k < size xs" for j k
      using sorted_nth_mono [OF assms(4), of j k] that by simp
    have cmp: "c key (xs ! i) < 0 \<longleftrightarrow> K key < K (xs ! i)" "c key (xs ! i) > 0 \<longleftrightarrow> K (xs ! i) < K key"
      using cmp_keyD [OF assms(1,2)] assms(3) i(3) nth_mem by blast+
    have eq: "bsearch c key xs l u =
        (if K key < K (xs ! i) then bsearch c key xs l i
         else if K (xs ! i) < K key then bsearch c key xs (i + 1) u else Some i)"
      by (subst bsearch.simps) (simp add: True Let_def cmp flip: i_def)
    consider "K key < K (xs ! i)" | "K (xs ! i) < K key" | "K (xs ! i) = K key" by linarith
    then show ?thesis
    proof cases
      case 1
      have none: "K (xs ! j) \<noteq> K key" if "i \<le> j" "j < u" for j
        using mono [of i j] that 1 less.prems by fastforce
      have "case bsearch c key xs l i of
          Some j \<Rightarrow> l \<le> j \<and> j < i \<and> K (xs ! j) = K key
        | None \<Rightarrow> \<forall>j. l \<le> j \<and> j < i \<longrightarrow> K (xs ! j) \<noteq> K key"
        by (rule less.hyps) (use i in auto)
      then show ?thesis
        using 1 i none by (auto simp: eq not_less split: option.splits) (meson not_less)
    next
      case 2
      have none: "K (xs ! j) \<noteq> K key" if "l \<le> j" "j \<le> i" for j
        using mono [of j i] that 2 i by fastforce
      have "case bsearch c key xs (i + 1) u of
          Some j \<Rightarrow> i + 1 \<le> j \<and> j < u \<and> K (xs ! j) = K key
        | None \<Rightarrow> \<forall>j. i + 1 \<le> j \<and> j < u \<longrightarrow> K (xs ! j) \<noteq> K key"
        by (rule less.hyps) (use i less.prems in auto)
      then show ?thesis
        using 2 i none by (auto simp: eq split: option.splits) (meson not_less_eq_eq)
    next
      case 3
      then show ?thesis using i by (simp add: eq)
    qed
  qed
qed

section \<open>Entries in half of the range\<close>

text \<open>
  Hashes at most \<open>2 ^ 31\<close> above \<open>lo\<close>, wrapping around; the comparison orders such entries by the
  distance of the hash from \<open>lo\<close> and the track.
\<close>

definition in_half :: "s32 \<Rightarrow> s32 \<Rightarrow> bool" where
  "in_half lo h \<longleftrightarrow> uint (h - lo) < 2 ^ 31"

definition tdb_key :: "s32 \<Rightarrow> dbentry \<Rightarrow> int" where
  "tdb_key lo e = uint (ehash e - lo) * 64 + uint (etrack e)"

lemma sint_diff_half:
  assumes "in_half lo a" "in_half lo b"
  shows "sint (a - b) = uint (a - lo) - uint (b - lo)"
proof -
  have "a - b = (a - lo) - (b - lo)" by simp
  also have "\<dots> = word_of_int (uint (a - lo) - uint (b - lo))" by (metis word_of_int_uint wi_hom_sub)
  finally have "sint (a - b) = sint (word_of_int (uint (a - lo) - uint (b - lo)) :: s32)" by simp
  also have "\<dots> = uint (a - lo) - uint (b - lo)"
  proof -
    have "uint (a - lo) < 2 ^ 31" "uint (b - lo) < 2 ^ 31" "0 \<le> uint (a - lo)" "0 \<le> uint (b - lo)"
      using assms by (simp_all add: in_half_def)
    then have "- (2 ^ 31) \<le> uint (a - lo) - uint (b - lo)" "uint (a - lo) - uint (b - lo) < 2 ^ 31"
      by linarith+
    then have "signed_take_bit 31 (uint (a - lo) - uint (b - lo)) = uint (a - lo) - uint (b - lo)"
      by (intro signed_take_bit_int_eq_self) simp_all
    then show ?thesis unfolding sint_sbintrunc' by simp
  qed
  finally show ?thesis .
qed

lemma cmp_in_half: "cmp_key cmp (tdb_key lo) {e. in_half lo (ehash e)}"
  unfolding cmp_key_def
proof (intro ballI)
  fix a b :: dbentry assume "a \<in> {e. in_half lo (ehash e)}" "b \<in> {e. in_half lo (ehash e)}"
  then have v: "sint (ehash a - ehash b) = uint (ehash a - lo) - uint (ehash b - lo)"
    by (simp add: sint_diff_half)
  have "uint (etrack a) < 64" "uint (etrack b) < 64" "0 \<le> uint (etrack a)" "0 \<le> uint (etrack b)"
    using uint_lt2p [of "etrack a"] uint_lt2p [of "etrack b"] by simp_all
  then show "(cmp a b < 0 \<longleftrightarrow> tdb_key lo a < tdb_key lo b) \<and> (cmp a b = 0 \<longleftrightarrow> tdb_key lo a = tdb_key lo b)"
    unfolding cmp_def tdb_key_def v Let_def by (cases "uint (ehash a - lo) = uint (ehash b - lo)"; simp; linarith)
qed

definition tdb_wf :: "s32 \<Rightarrow> timedb \<Rightarrow> bool" where
  "tdb_wf lo s \<longleftrightarrow> (\<forall>e \<in> set (db s). in_half lo (ehash e)) \<and> distinct (map (tdb_key lo) (db s)) \<and>
     (dbsort s \<longrightarrow> sorted (map (tdb_key lo) (db s)))"

lemma search_for_run:
  assumes "tdb_wf lo s" "in_half lo (ehash key)" "search_for key s = (r, t)"
  shows "tdb_wf lo t \<and> dbsort t \<and> dbmax t = dbmax s \<and> mset (db t) = mset (db s) \<and>
    (case r of Some i \<Rightarrow> i < size (db t) \<and> tdb_key lo (db t ! i) = tdb_key lo key
     | None \<Rightarrow> tdb_key lo key \<notin> tdb_key lo ` set (db t))"
proof -
  let ?A = "{e. in_half lo (ehash e)}" and ?K = "tdb_key lo"
  have sub: "set (db s) \<subseteq> ?A" using assms(1) by (auto simp: tdb_wf_def)
  have sort: "qsort cmp (db s) = sort_key ?K (db s)"
    by (rule qsort_key [OF cmp_in_half sub])
  have t: "t = (if dbsort s then s else s\<lparr>db := sort_key ?K (db s), dbsort := True\<rparr>)"
    "r = bsearch cmp key (db t) 0 (size (db t))"
    using assms(3) by (auto simp: search_for_def Let_def sort split: if_splits)
  have m: "mset (db t) = mset (db s)" using t(1) by simp
  have "distinct (map ?K (db t))"
    using assms(1) mset_eq_imp_distinct_iff [of "map ?K (db t)" "map ?K (db s)"] m
    by (simp add: tdb_wf_def)
  then have wf: "tdb_wf lo t"
    using assms(1) t(1) by (auto simp: tdb_wf_def)
  moreover have "sorted (map ?K (db t))" "set (db t) \<subseteq> ?A"
    using wf t(1) by (auto simp: tdb_wf_def)
  from bsearch_key [OF cmp_in_half _ this(2,1), of key "size (db t)" 0]
  have "case r of Some i \<Rightarrow> i < size (db t) \<and> ?K (db t ! i) = ?K key
     | None \<Rightarrow> ?K key \<notin> ?K ` set (db t)"
    using assms(2) by (auto simp: t(2) in_set_conv_nth split: option.splits)
  ultimately show ?thesis using t(1) m by simp
qed

section \<open>Properties\<close>

lemma tdb_found:
  assumes "tdb_wf lo t" "e \<in> set (db t)" "ehash e = hash" "etrack e = ucast track"
  shows "\<exists>j u. timedb68_get hash track t = (int j, Some (ucast (eframes e), ucast (eflags e)), u)"
proof -
  define key where "key = \<lparr>ehash = hash, etrack = ucast track, eflags = 0, eframes = 0\<rparr>"
  obtain r u where s: "search_for key t = (r, u)" by fastforce
  have half: "in_half lo (ehash key)" using assms(1-3) by (auto simp: tdb_wf_def key_def)
  have K: "tdb_key lo key = tdb_key lo e" using assms(3,4) by (simp add: key_def tdb_key_def)
  note run = search_for_run [OF assms(1) half s]
  have e: "e \<in> set (db u)" using run assms(2) by (metis set_mset_mset)
  then obtain j where j: "r = Some j" "j < size (db u)" "tdb_key lo (db u ! j) = tdb_key lo e"
    using run K by (cases r) auto
  have "inj_on (tdb_key lo) (set (db u))" using run by (simp add: tdb_wf_def distinct_map)
  with e j have "db u ! j = e" by (auto dest: inj_onD)
  then show ?thesis using s j by (simp add: timedb68_get_def flip: key_def)
qed

text \<open>C29. An entry added to a database whose hashes lie in one half of the 32-bit range is found by the
  next look-up, with its duration and the six bits of its flags; the database keeps its entries
  distinct and, when it says so, sorted.\<close>

theorem added_entry_found:
  assumes "tdb_wf lo s" and "in_half lo hash"
    and "timedb68_add hash track frames flags s = (Some i, t)" and "i \<noteq> -1"
  shows "tdb_wf lo t \<and>
    (\<exists>j u. timedb68_get hash track t = (int j, Some (frames, flags AND 63), u))"
proof -
  define e where "e = \<lparr>ehash = hash, etrack = ucast track, eflags = ucast flags, eframes = ucast frames :: 20 word\<rparr>"
  have bounds: "track < 2 ^ 6" "frames < 2 ^ 20"
    using assms(3,4) by (auto simp: timedb68_add_def not_le split: if_splits)
  obtain r u where su: "search_for e s = (r, u)" by fastforce
  have half: "in_half lo (ehash e)" using assms(2) by (simp add: e_def)
  note run = search_for_run [OF assms(1) half su]
  have add: "(case r of Some i \<Rightarrow> (Some (int i), u\<lparr>db := (db u)[i := e]\<rparr>)
          | None \<Rightarrow> if size (db u) < dbmax u
              then (Some (int (size (db u))), u\<lparr>db := db u @ [e], dbsort := False\<rparr>)
              else (None, u)) = (Some i, t)"
  proof -
    have nb: "(track \<ge> 2 ^ 6 \<or> frames \<ge> 2 ^ 20) = False" using bounds by (simp add: not_le)
    show ?thesis
      using assms(3) unfolding timedb68_add_def Let_def e_def [symmetric] nb su by simp
  qed
  have "tdb_wf lo t \<and> e \<in> set (db t)"
  proof (cases r)
    case None
    then have "t = u\<lparr>db := db u @ [e], dbsort := False\<rparr>" using add by (auto split: if_splits)
    then show ?thesis using run None half by (auto simp: tdb_wf_def)
  next
    case (Some k)
    then have t: "t = u\<lparr>db := (db u)[k := e]\<rparr>" using add by simp
    have k: "k < size (db u)" "tdb_key lo (db u ! k) = tdb_key lo e" using run Some by simp_all
    then have "map (tdb_key lo) ((db u)[k := e]) = map (tdb_key lo) (db u)"
      by (metis list_update_id map_update)
    moreover have "\<forall>x \<in> set ((db u)[k := e]). in_half lo (ehash x)"
      using run half set_update_subset_insert [of "db u" k e] by (auto simp: tdb_wf_def)
    ultimately show ?thesis
      using run k(1) by (simp add: t tdb_wf_def set_update_memI)
  qed
  then have wf: "tdb_wf lo t" and mem: "e \<in> set (db t)" by simp_all
  have "ucast (eframes e) = frames" "ucast (eflags e) = flags AND 63"
  proof -
    have "uint frames < 2 ^ 20" using bounds(2) by (simp add: word_less_def)
    then have "take_bit 20 frames = frames"
      by (intro word_uint_eqI) (simp only: unsigned_take_bit_eq take_bit_int_eq_self uint_ge_0)
    moreover have "ucast (ucast frames :: 20 word) = take_bit 20 frames"
      by (rule bit_word_eqI) (auto simp: bit_simps)
    ultimately show "ucast (eframes e) = frames" unfolding e_def dbentry.simps by (rule trans [rotated])
    have "ucast (ucast flags :: 6 word) = take_bit 6 flags"
      by (rule bit_word_eqI) (auto simp: bit_simps)
    moreover have "flags AND 63 = take_bit 6 flags"
      by (simp add: take_bit_eq_mask mask_eq_exp_minus_1)
    ultimately show "ucast (eflags e) = flags AND 63" by (simp add: e_def)
  qed
  then show ?thesis
    using wf tdb_found [OF wf mem, of hash track] by (simp add: e_def)
qed

theorem added_entry_found_witness:
  "(let s = \<lparr>db = [], dbmax = 3, dbsort = True\<rparr>; (i, t) = timedb68_add 0x003cbe93 0 59278 16 s
     in i = Some 0 \<and> tdb_wf 0 t \<and>
       (\<exists>j u. timedb68_get 0x003cbe93 0 t = (int j, Some (59278, 16), u)))"
proof -
  define s where "s = \<lparr>db = [], dbmax = 3, dbsort = True\<rparr>"
  have "tdb_wf 0 s" by (simp add: s_def tdb_wf_def)
  moreover obtain i t where a: "timedb68_add 0x003cbe93 0 59278 16 s = (i, t)" by fastforce
  moreover have "i = Some 0"
    using a by (auto simp: timedb68_add_def search_for_def s_def bsearch.simps)
  ultimately show ?thesis
    using added_entry_found [of 0 s "0x003cbe93" 0 59278 16 0 t]
    by (simp add: in_half_def flip: s_def)
qed

text \<open>Three entries of the table that is delivered.\<close>

definition delivered :: timedb where
  "delivered = \<lparr>db =
      [\<lparr>ehash = 0x003cbe93, etrack = 0, eflags = 16, eframes = 59278\<rparr>,
       \<lparr>ehash = 0x8310eb1b, etrack = 10, eflags = 16, eframes = 74\<rparr>,
       \<lparr>ehash = 0xc3de9075, etrack = 55, eflags = 16, eframes = 282\<rparr>],
    dbmax = 67, dbsort = True\<rparr>"

text \<open>Over the whole range the difference of two hashes wraps, and the look-up goes the wrong way:
  in a table sorted by hash, as the one delivered is, here with three entries of it, the first entry is
  not found.\<close>

theorem delivered_entry_lost:
  "sorted (map ehash (db delivered)) \<and> ehash (db delivered ! 0) = 0x003cbe93 \<and>
    etrack (db delivered ! 0) = 0 \<and> timedb68_get 0x003cbe93 0 delivered = (-1, None, delivered)"
  by (simp add: delivered_def timedb68_get_def search_for_def bsearch.simps cmp_def Let_def)

end
