(* ===== verification/Ice68.thy ===== *)
theory Ice68
  imports Prelude68
begin

text \<open>
  The depacker of Pack-Ice files, \<open>unice68/unice68_unpack.c\<close>, a transcription of a 68000 routine
  onto a structure of registers.

  Pointers are integers and both buffers live in one memory, so that the model says what an
  access out of a buffer touches.  Data registers are 32-bit words; \<open>d5\<close> and \<open>d6\<close>, which only
  count two loops of four turns, and \<open>a2\<close>, \<open>a7\<close>, which nothing uses, are left out.  Compressed
  data is read downwards from its end through \<open>a5\<close>, and the output is written downwards from its
  end through \<open>a6\<close>.  The main loop is a partial function: that it ends is a lemma.

  Lemmas: the bit reader; every loop ends; what the depacker writes; what a result of 0 says.
\<close>

section \<open>State\<close>

record ice =
  ra0 :: int
  ra1 :: int
  ra3 :: int
  ra4 :: int
  ra5 :: int
  ra6 :: int
  rd0 :: s32
  rd1 :: s32
  rd2 :: s32
  rd3 :: s32
  rd4 :: s32
  rd7 :: s32
  srcbuf :: int
  srcend :: int
  dstbuf :: int
  dstend :: int
  overflow :: s32
  imem :: "int \<Rightarrow> u8"

definition ICE_MAGIC :: s32 where "ICE_MAGIC = 0x49434521"

definition direkt_tab :: "s32 list" where
  "direkt_tab = [0x7fff000e, 0x00ff0007, 0x00070002, 0x00030001, 0x00030001, 269, 14, 7, 4, 1]"

definition length_tab :: "u8 list" where
  "length_tab = [9, 1, 0, -1, -1, 8, 4, 2, 1, 0]"

definition more_offset :: "u8 list" where
  "more_offset = [11, 4, 7, 0, 0x01, 0x1f, -1, -1, 0x00, 0x1F]"

definition more_offset_word :: "s32 list" where
  "more_offset_word = [0x0b04, 0x0700, 0x011f, -1, 0x001f]"

text \<open>Signed comparisons and the 16-bit views of a register.\<close>

definition DBF_COUNT :: "s32 \<Rightarrow> int" where
  "DBF_COUNT r = uint (r AND 0xFFFF) + 1"

definition s16_val :: "s32 \<Rightarrow> int" where
  "s16_val r = sint (ucast r :: u16)"

section \<open>Reading\<close>

definition chk_dst_range :: "int \<Rightarrow> int \<Rightarrow> ice \<Rightarrow> ice" where
  "chk_dst_range a b R =
    (let R = R\<lparr>overflow := overflow R OR of_bool (a < dstbuf R)\<rparr>
     in R\<lparr>overflow := overflow R OR push_bit 1 (of_bool (dstend R \<le> b))\<rparr>)"

definition chk_src_range :: "int \<Rightarrow> int \<Rightarrow> ice \<Rightarrow> ice" where
  "chk_src_range a b R =
    (let R = R\<lparr>overflow := overflow R OR push_bit 2 (of_bool (a < srcbuf R))\<rparr>
     in R\<lparr>overflow := overflow R OR push_bit 3 (of_bool (srcend R \<le> b))\<rparr>)"

definition rd_byte :: "ice \<Rightarrow> int \<Rightarrow> s32" where
  "rd_byte R a = ucast (imem R a)"

definition get_long :: "(int \<Rightarrow> u8) \<Rightarrow> int \<Rightarrow> s32" where
  "get_long m a =
    push_bit 24 (ucast (m a)) + push_bit 16 (ucast (m (a + 1))) +
    push_bit 8 (ucast (m (a + 2))) + ucast (m (a + 3))"

definition getinfo :: "ice \<Rightarrow> s32 \<times> ice" where
  "getinfo R = (get_long (imem R) (ra0 R), R\<lparr>ra0 := ra0 R + 4\<rparr>)"

text \<open>
  The bit buffer is the low byte of \<open>d7\<close>: its highest bit is next, and a set bit below the valid
  ones marks its end.  \<open>refill\<close> is the step the two readers share: shift, and fetch a byte when
  the buffer was empty.
\<close>

definition refill :: "s32 \<Rightarrow> ice \<Rightarrow> s32 \<times> ice" where
  "refill r7 R =
    (let r = push_bit 1 (r7 AND 255)
     in if r AND 255 \<noteq> 0 then (r, R)
        else
          let R = chk_src_range (ra5 R - 1) (ra5 R - 1) R;
              R = R\<lparr>ra5 := ra5 R - 1\<rparr>
          in (signed_drop_bit 8 r + push_bit 1 (rd_byte R (ra5 R)), R))"

definition set_low :: "s32 \<Rightarrow> ice \<Rightarrow> ice" where
  "set_low r R = R\<lparr>rd7 := (rd7 R AND NOT 0xFF) OR (r AND 0xFF)\<rparr>"

definition get_1_bit :: "ice \<Rightarrow> s32 \<times> ice" where
  "get_1_bit R = (let (r, R) = refill (rd7 R) R in (signed_drop_bit 8 r, set_low r R))"

fun hole_bit_loop :: "nat \<Rightarrow> s32 \<Rightarrow> s32 \<Rightarrow> ice \<Rightarrow> s32 \<times> s32 \<times> ice" where
  "hole_bit_loop n r7 r1 R =
    (let (r7, R) = refill r7 R; r1 = r1 + r1 + signed_drop_bit 8 r7
     in case n of 0 \<Rightarrow> (r7, r1, R) | Suc m \<Rightarrow> hole_bit_loop m r7 r1 R)"

declare hole_bit_loop.simps [simp del]

definition get_d0_bits :: "s32 \<Rightarrow> ice \<Rightarrow> s32 \<times> ice" where
  "get_d0_bits r0 R =
    (let r0 = r0 AND 0xFFFF
     in if 15 < r0 then (0, R\<lparr>overflow := overflow R OR push_bit 4 1\<rparr>)
        else
          let (r7, r1, R) = hole_bit_loop (unat r0) (rd7 R) 0 R;
              R = set_low r7 R
          in (r1, R\<lparr>rd0 := rd0 R OR 0xFFFF\<rparr>))"

section \<open>Literals and strings\<close>

text \<open>
  \<open>nextgb\<close> walks \<open>direkt_tab\<close> down from its fifth entry, with \<open>d3\<close> from 4: the pointer \<open>tab\<close> is the
  index of the entry last read, \<open>d3 + 1\<close> before each turn.
\<close>

fun nextgb :: "nat \<Rightarrow> ice \<Rightarrow> nat \<times> ice" where
  "nextgb tab R =
    (let R = R\<lparr>rd0 := direkt_tab ! tab\<rparr>;
         (v, R) = get_d0_bits (rd0 R) R;
         R = R\<lparr>rd1 := v\<rparr>;
         R = R\<lparr>rd0 := signed_drop_bit 16 (rd0 R) OR NOT 0xFFFF\<rparr>
     in if (rd0 R XOR rd1 R) AND 0xFFFF \<noteq> 0 then (tab, R)
        else case tab of 0 \<Rightarrow> (0, R\<lparr>rd3 := rd3 R - 1\<rparr>) | Suc k \<Rightarrow> nextgb k (R\<lparr>rd3 := rd3 R - 1\<rparr>))"

declare nextgb.simps [simp del]

text \<open>One byte copied downwards, from \<open>a\<close>, and the loops that do it; \<open>DBF\<close> counts \<open>d1\<close> or \<open>d4\<close> down.\<close>

text \<open>The turns of a \<open>DBF\<close> loop on \<open>r\<close> from here on.\<close>

definition dbf_turns :: "s32 \<Rightarrow> nat" where
  "dbf_turns r = unat (r + 1)"

lemma dbf_less: "0 \<le> sint (r - 1) \<Longrightarrow> dbf_turns (r - 1) < dbf_turns r" for r :: s32
proof -
  assume a: "0 \<le> sint (r - 1)"
  have "r \<noteq> -1"
  proof
    assume "r = -1" then show False using a by simp
  qed
  then have "1 + r \<noteq> 0" by (metis add_diff_cancel_left' diff_0)
  then show ?thesis using unatSuc [of r] by (simp add: dbf_turns_def add.commute)
qed

definition copy_src :: "ice \<Rightarrow> ice" where
  "copy_src R =
    (let R = R\<lparr>ra6 := ra6 R - 1\<rparr>; R = R\<lparr>ra5 := ra5 R - 1\<rparr>
     in R\<lparr>imem := (imem R)(ra6 R := imem R (ra5 R))\<rparr>)"

function lp_copy :: "ice \<Rightarrow> ice" where
  "lp_copy R =
    (let R = copy_src R;
         R = R\<lparr>rd1 := rd1 R - 1\<rparr>
     in if 0 \<le> sint (rd1 R) then lp_copy R else R)"
  by auto
termination
  by (relation "measure (\<lambda>R. dbf_turns (rd1 R))") (auto simp: Let_def copy_src_def dbf_less)

declare lp_copy.simps [simp del]

definition copy_str :: "ice \<Rightarrow> ice" where
  "copy_str R =
    (if ra4 R < ra6 R then
       let R = R\<lparr>ra6 := ra6 R - 1\<rparr>; R = R\<lparr>ra1 := ra1 R - 1\<rparr>
       in R\<lparr>imem := (imem R)(ra6 R := imem R (ra1 R))\<rparr>
     else R)"

lemma rd4_copy_str [simp]: "rd4 (copy_str R) = rd4 R"
  by (simp add: copy_str_def Let_def)

function dep_b :: "ice \<Rightarrow> ice" where
  "dep_b R =
    (let R = copy_str R;
         R = R\<lparr>rd4 := rd4 R - 1\<rparr>
     in if 0 \<le> sint (rd4 R) then dep_b R else R)"
  by auto
termination
  by (relation "measure (\<lambda>R. dbf_turns (rd4 R))") (auto simp: Let_def dbf_less)

declare dep_b.simps [simp del]

text \<open>\<open>DB_CC(get_1_bit(R) == 0, R->d2, \<dots>)\<close>, for \<open>d2 = k\<close> when the loop is entered.\<close>

fun dbcc_bits :: "nat \<Rightarrow> ice \<Rightarrow> ice" where
  "dbcc_bits k R =
    (let (b, R) = get_1_bit R
     in if b = 0 then R
        else
          let R = R\<lparr>rd2 := rd2 R - 1\<rparr>
          in case k of 0 \<Rightarrow> R | Suc j \<Rightarrow> dbcc_bits j R)"

declare dbcc_bits.simps [simp del]

definition depack_bytes :: "ice \<Rightarrow> ice" where
  "depack_bytes R =
    (let R = R\<lparr>ra1 := ra6 R + 2 + s16_val (rd4 R) + s16_val (rd1 R)\<rparr>;
         R = chk_dst_range (ra6 R - DBF_COUNT (rd4 R) - 1) (ra6 R - 1) R
     in dep_b (copy_str R))"

text \<open>The pointer \<open>a1\<close> also walks the tables; the index is \<open>d2\<close>, from -1.\<close>

definition tab_at :: "'a list \<Rightarrow> nat \<Rightarrow> s32 \<Rightarrow> 'a" where
  "tab_at t k d2 = t ! nat (int k + s16_val d2)"

definition strings_length :: "ice \<Rightarrow> ice" where
  "strings_length R =
    (let R = dbcc_bits 3 (R\<lparr>rd2 := 3\<rparr>);
         R = R\<lparr>rd4 := 0, rd1 := 0\<rparr>;
         R = R\<lparr>rd0 := (rd0 R AND NOT 0xFFFF) OR (0xFFFF AND scast (tab_at length_tab 1 (rd2 R)))\<rparr>;
         R = (if rd0 R AND 0x8000 \<noteq> 0 then R
              else let (v, R) = get_d0_bits (rd0 R) R in R\<lparr>rd1 := v, rd0 := rd0 R OR 0xFFFF\<rparr>);
         R = R\<lparr>rd4 := ucast (tab_at length_tab 6 (rd2 R))\<rparr>
     in R\<lparr>rd4 := rd4 R + rd1 R\<rparr>)"

definition get_offset_2 :: "ice \<Rightarrow> ice" where
  "get_offset_2 R =
    (let R = R\<lparr>rd1 := 0, rd0 := 5, rd2 := -1\<rparr>;
         (b, R) = get_1_bit R;
         R = (if b = 0 then R else R\<lparr>rd0 := 8, rd2 := 0x3f\<rparr>);
         (v, R) = get_d0_bits (rd0 R) R;
         R = R\<lparr>rd1 := v, rd0 := rd0 R OR 0xFFFF\<rparr>
     in R\<lparr>rd1 := rd1 R + rd2 R\<rparr>)"

definition getoffs :: "ice \<Rightarrow> ice" where
  "getoffs R =
    (let R = dbcc_bits 1 (R\<lparr>rd2 := 1\<rparr>);
         (v, R) = get_d0_bits (scast (tab_at more_offset 1 (rd2 R))) R;
         R = R\<lparr>rd1 := v, rd0 := rd0 R OR 0xFFFF\<rparr>;
         R = R\<lparr>rd1 := rd1 R + tab_at more_offset_word 3 (rd2 R)\<rparr>
     in if sint (rd1 R) < 0 then R\<lparr>rd1 := rd1 R - rd4 R\<rparr> else R)"

definition strings :: "ice \<Rightarrow> ice" where
  "strings R =
    (let R = strings_length R
     in if rd4 R = 0 then depack_bytes (get_offset_2 R) else depack_bytes (getoffs R))"

text \<open>
  The literal run of \<open>normal_bytes\<close>: the count, the range check, the copy.  The result says
  whether the loop goes on to its test; \<open>|\<close> evaluates both checks, left first.
\<close>

definition literal_count :: "ice \<Rightarrow> ice" where
  "literal_count R =
    (let R = R\<lparr>rd1 := 0\<rparr>;
         (b, R) = get_1_bit R
     in if b = 0 then R
        else
          let (tab, R) = nextgb 4 (R\<lparr>rd3 := 4\<rparr>)
          in R\<lparr>rd1 := rd1 R + direkt_tab ! (tab + 5)\<rparr>)"

definition copy_direkt :: "ice \<Rightarrow> bool \<times> ice" where
  "copy_direkt R =
    (let cnt = DBF_COUNT (rd1 R);
         R = chk_dst_range (ra6 R - cnt) (ra6 R - 1) R;
         over1 = overflow R;
         R = chk_src_range (ra5 R - cnt) (ra5 R - 1) R
     in if over1 OR overflow R \<noteq> 0 then (False, R) else (True, lp_copy R))"

partial_function (option) normal_bytes :: "ice \<Rightarrow> ice option" where
  "normal_bytes R =
    (let (b, R) = get_1_bit R;
         (go, R) = (if b = 0 then (True, R) else copy_direkt (literal_count R))
     in if \<not> go then Some R
        else if ra6 R \<le> ra4 R then
          Some (if ra6 R < ra4 R then chk_dst_range (ra6 R) (ra6 R) R else R)
        else normal_bytes (strings R))"

section \<open>Pictures and the entry points\<close>

definition ice_02 :: "ice \<Rightarrow> ice" where
  "ice_02 R =
    (let R = R\<lparr>rd4 := rd4 R + rd4 R\<rparr>;
         R = R\<lparr>rd0 := rd0 R + (rd0 R + signed_drop_bit 16 (rd4 R))\<rparr>;
         R = R\<lparr>rd4 := rd4 R AND 0xFFFF\<rparr>;
         R = R\<lparr>rd4 := rd4 R + rd4 R\<rparr>;
         R = R\<lparr>rd1 := rd1 R + (rd1 R + signed_drop_bit 16 (rd4 R))\<rparr>;
         R = R\<lparr>rd4 := rd4 R AND 0xFFFF\<rparr>;
         R = R\<lparr>rd4 := rd4 R + rd4 R\<rparr>;
         R = R\<lparr>rd2 := rd2 R + (rd2 R + signed_drop_bit 16 (rd4 R))\<rparr>;
         R = R\<lparr>rd4 := rd4 R AND 0xFFFF\<rparr>;
         R = R\<lparr>rd4 := rd4 R + rd4 R\<rparr>;
         R = R\<lparr>rd3 := rd3 R + (rd3 R + signed_drop_bit 16 (rd4 R))\<rparr>
     in R\<lparr>rd4 := rd4 R AND 0xFFFF\<rparr>)"

definition ice_01 :: "ice \<Rightarrow> ice" where
  "ice_01 R =
    (let R = R\<lparr>ra3 := ra3 R - 2\<rparr>;
         R = R\<lparr>rd4 := push_bit 8 (rd_byte R (ra3 R)) OR rd_byte R (ra3 R + 1)\<rparr>
     in (ice_02 ^^ 4) R)"

definition put_planes :: "ice \<Rightarrow> ice" where
  "put_planes R =
    (let a = ra3 R
     in R\<lparr>imem := (imem R)
        (a := ucast (signed_drop_bit 8 (rd0 R)), a + 1 := ucast (rd0 R),
         a + 2 := ucast (signed_drop_bit 8 (rd1 R)), a + 3 := ucast (rd1 R),
         a + 4 := ucast (signed_drop_bit 8 (rd2 R)), a + 5 := ucast (rd2 R),
         a + 6 := ucast (signed_drop_bit 8 (rd3 R)), a + 7 := ucast (rd3 R))\<rparr>)"

lemma rd7_ice_02 [simp]: "rd7 (ice_02 R) = rd7 R"
  by (simp add: ice_02_def Let_def)

lemma rd7_ice_01 [simp]: "rd7 (ice_01 R) = rd7 R"
  by (simp add: ice_01_def Let_def numeral_nat)

lemma rd7_planes [simp]: "rd7 ((ice_01 ^^ n) R) = rd7 R"
  by (induction n) auto

function ice_00 :: "ice \<Rightarrow> ice" where
  "ice_00 R =
    (let R = (ice_01 ^^ 4) R;
         R = chk_src_range (ra3 R) (ra3 R + 7) R
     in if overflow R \<noteq> 0 then R
        else
          let R = put_planes R;
              R = R\<lparr>rd7 := rd7 R - 1\<rparr>
          in if 0 \<le> sint (rd7 R) then ice_00 R else R)"
  by auto
termination
  by (relation "measure (\<lambda>R. dbf_turns (rd7 R))")
    (auto simp: Let_def dbf_less put_planes_def chk_src_range_def)

declare ice_00.simps [simp del]

definition picture :: "ice \<Rightarrow> ice" where
  "picture R =
    (let R = R\<lparr>ra6 := ra3 R\<rparr>;
         (b, R) = get_1_bit R
     in if b = 0 then R
        else
          let R = R\<lparr>rd7 := 0x0f9f\<rparr>;
              (b, R) = get_1_bit R
          in if b = 0 then ice_00 R
             else let (v, R) = get_d0_bits 15 R in ice_00 (R\<lparr>rd7 := v, rd1 := v\<rparr>))"

definition ice_decrunch :: "ice \<Rightarrow> (int \<times> ice) option" where
  "ice_decrunch R =
    (let R = R\<lparr>srcbuf := ra0 R\<rparr>;
         R = R\<lparr>dstbuf := ra1 R\<rparr>;
         (id, R) = getinfo R
     in if id AND NOT 0x202000 \<noteq> ICE_MAGIC then Some (-1, R)
        else
          let (csize, R) = getinfo R;
              R = R\<lparr>ra5 := ra0 R - 8 + sint csize\<rparr>;
              R = R\<lparr>srcend := ra5 R\<rparr>;
              (dsize, R) = getinfo R;
              R = R\<lparr>rd0 := dsize\<rparr>;
              R = R\<lparr>ra4 := ra1 R\<rparr>;
              R = R\<lparr>ra6 := ra4 R\<rparr>;
              R = R\<lparr>ra6 := ra6 R + sint (rd0 R)\<rparr>;
              R = R\<lparr>ra3 := ra6 R\<rparr>;
              R = R\<lparr>dstend := ra3 R\<rparr>;
              R = R\<lparr>ra5 := ra5 R - 1\<rparr>;
              R = R\<lparr>rd7 := rd_byte R (ra5 R)\<rparr>
          in Option.bind (normal_bytes R)
               (\<lambda>R. let R = picture R in Some (if overflow R = 0 then 0 else -1, R)))"

definition unice68_depacked_size :: "(int \<Rightarrow> u8) \<Rightarrow> int \<Rightarrow> s32 option \<Rightarrow> s32 \<times> s32 option" where
  "unice68_depacked_size m buf p_csize =
    (let csize_verif = (case p_csize of Some c \<Rightarrow> c | None \<Rightarrow> 0)
     in if csize_verif \<noteq> 0 \<and> sint csize_verif < 12 then (-1, p_csize)
        else
          let id = get_long m buf
          in if id AND NOT 0x202000 \<noteq> ICE_MAGIC then (-1, p_csize)
             else
               let csize = get_long m (buf + 4)
               in if sint csize < 12 then (-2, p_csize)
                  else
                    let dsize = get_long m (buf + 8);
                        p_csize = map_option (\<lambda>_. csize) p_csize
                    in (if csize_verif \<noteq> 0 \<and> csize \<noteq> csize_verif then NOT dsize else dsize, p_csize))"

definition all_regs :: "(int \<Rightarrow> u8) \<Rightarrow> int \<Rightarrow> int \<Rightarrow> ice" where
  "all_regs m dest src =
    \<lparr>ra0 = src, ra1 = dest, ra3 = 0, ra4 = 0, ra5 = 0, ra6 = 0,
     rd0 = 0, rd1 = 0, rd2 = 0, rd3 = 0, rd4 = 0, rd7 = 0,
     srcbuf = 0, srcend = 0, dstbuf = 0, dstend = 0, overflow = 0, imem = m\<rparr>"

definition unice68_depacker :: "(int \<Rightarrow> u8) \<Rightarrow> int \<Rightarrow> int \<Rightarrow> (int \<times> (int \<Rightarrow> u8)) option" where
  "unice68_depacker m dest src =
    map_option (\<lambda>(r, R). (r, imem R)) (ice_decrunch (all_regs m dest src))"

section \<open>Frames\<close>

text \<open>
  What one step of the depacker may do: the limits stay, the output pointer only goes down, the
  overflow flags are never cleared, memory changes only in the output below the old output
  pointer, and while no flag is set the input pointer stays in the input.
\<close>

definition ice_fixed :: "ice \<Rightarrow> int \<times> int \<times> int \<times> int \<times> int \<times> int" where
  "ice_fixed R = (srcbuf R, srcend R, dstbuf R, dstend R, ra3 R, ra4 R)"

definition ice_step :: "ice \<Rightarrow> ice \<Rightarrow> bool" where
  "ice_step R S \<longleftrightarrow> ice_fixed S = ice_fixed R \<and> ra6 S \<le> ra6 R \<and>
     (overflow S = 0 \<longrightarrow> overflow R = 0) \<and>
     (\<forall>a. imem S a \<noteq> imem R a \<longrightarrow> dstbuf R \<le> a \<and> a < ra6 R) \<and>
     (overflow S = 0 \<longrightarrow> srcbuf R \<le> ra5 R \<longrightarrow> srcbuf R \<le> ra5 S)"

text \<open>A step that only reads, and leaves the output pointer where it is.\<close>

definition ice_read :: "ice \<Rightarrow> ice \<Rightarrow> bool" where
  "ice_read R S \<longleftrightarrow> ice_step R S \<and> ra6 S = ra6 R \<and> imem S = imem R"

lemma ice_fixed_eqs:
  assumes "ice_fixed S = ice_fixed R"
  shows "srcbuf S = srcbuf R" "srcend S = srcend R" "dstbuf S = dstbuf R" "dstend S = dstend R"
    "ra3 S = ra3 R" "ra4 S = ra4 R"
  using assms by (auto simp: ice_fixed_def)

lemma ice_step_fixed: "ice_step R S \<Longrightarrow> ice_fixed S = ice_fixed R"
  by (simp add: ice_step_def)

lemmas ice_step_eqs = ice_fixed_eqs [OF ice_step_fixed]

lemma ice_read_step: "ice_read R S \<Longrightarrow> ice_step R S"
  by (simp add: ice_read_def)

lemma ice_read_refl [simp, intro]: "ice_read R R"
  by (simp add: ice_read_def ice_step_def)

lemma ice_step_trans [trans]:
  assumes "ice_step R S" "ice_step S T"
  shows "ice_step R T"
proof -
  have eqs: "ice_fixed S = ice_fixed R" "ice_fixed T = ice_fixed S"
    using assms by (simp_all add: ice_step_def)
  note f = ice_fixed_eqs [OF eqs(1)]
  have "dstbuf R \<le> a \<and> a < ra6 R" if "imem T a \<noteq> imem R a" for a
  proof (cases "imem T a = imem S a")
    case True
    then show ?thesis using that assms(1) by (auto simp: ice_step_def)
  next
    case False
    then have "dstbuf S \<le> a \<and> a < ra6 S" using assms(2) by (simp add: ice_step_def)
    then show ?thesis using assms(1) by (auto simp: ice_step_def f)
  qed
  then show ?thesis using assms by (auto simp: ice_step_def f)
qed

lemma ice_read_trans [trans]: "ice_read R S \<Longrightarrow> ice_read S T \<Longrightarrow> ice_read R T"
  by (auto simp: ice_read_def intro: ice_step_trans)

text \<open>Assignments to data registers, and to \<open>a0\<close> and \<open>a1\<close>, are reading steps on either side.\<close>

lemma ice_read_regs [simp]:
  "ice_read R (S\<lparr>rd0 := x\<rparr>) = ice_read R S" "ice_read R (S\<lparr>rd1 := x\<rparr>) = ice_read R S"
  "ice_read R (S\<lparr>rd2 := x\<rparr>) = ice_read R S" "ice_read R (S\<lparr>rd3 := x\<rparr>) = ice_read R S"
  "ice_read R (S\<lparr>rd4 := x\<rparr>) = ice_read R S" "ice_read R (S\<lparr>rd7 := x\<rparr>) = ice_read R S"
  "ice_read R (S\<lparr>ra1 := a\<rparr>) = ice_read R S" "ice_read (R\<lparr>rd0 := x\<rparr>) S = ice_read R S"
  "ice_read (R\<lparr>rd1 := x\<rparr>) S = ice_read R S" "ice_read (R\<lparr>rd2 := x\<rparr>) S = ice_read R S"
  "ice_read (R\<lparr>rd3 := x\<rparr>) S = ice_read R S" "ice_read (R\<lparr>rd4 := x\<rparr>) S = ice_read R S"
  "ice_read (R\<lparr>rd7 := x\<rparr>) S = ice_read R S" "ice_read (R\<lparr>ra1 := a\<rparr>) S = ice_read R S"
  by (simp_all add: ice_read_def ice_step_def ice_fixed_def)

lemma ice_step_regs [simp]:
  "ice_step R (S\<lparr>rd0 := x\<rparr>) = ice_step R S" "ice_step R (S\<lparr>rd1 := x\<rparr>) = ice_step R S"
  "ice_step R (S\<lparr>rd2 := x\<rparr>) = ice_step R S" "ice_step R (S\<lparr>rd3 := x\<rparr>) = ice_step R S"
  "ice_step R (S\<lparr>rd4 := x\<rparr>) = ice_step R S" "ice_step R (S\<lparr>ra1 := a\<rparr>) = ice_step R S"
  "ice_step (R\<lparr>rd0 := x\<rparr>) S = ice_step R S" "ice_step (R\<lparr>rd1 := x\<rparr>) S = ice_step R S"
  "ice_step (R\<lparr>rd2 := x\<rparr>) S = ice_step R S" "ice_step (R\<lparr>rd3 := x\<rparr>) S = ice_step R S"
  "ice_step (R\<lparr>rd4 := x\<rparr>) S = ice_step R S" "ice_step (R\<lparr>ra1 := a\<rparr>) S = ice_step R S"
  by (simp_all add: ice_step_def ice_fixed_def)

lemma or_zero: "(a OR b = 0) = (a = 0 \<and> b = 0)" for a b :: "'a::len word"
  by (auto simp: bit_eq_iff bit_or_iff)

lemma overflow_bits [simp]:
  "(push_bit 1 (of_bool P) = (0 :: s32)) = (\<not> P)" "(push_bit 2 (of_bool P) = (0 :: s32)) = (\<not> P)"
  "(push_bit 3 (of_bool P) = (0 :: s32)) = (\<not> P)" "push_bit 4 1 \<noteq> (0 :: s32)"
  by (cases P; simp)+

lemma chk_dst_read [intro]: "ice_read R (chk_dst_range a b R)"
  by (simp add: ice_read_def ice_step_def chk_dst_range_def ice_fixed_def or_zero)

lemma chk_src_read [intro]: "ice_read R (chk_src_range a b R)"
  by (simp add: ice_read_def ice_step_def chk_src_range_def ice_fixed_def or_zero)

lemma chk_dst_zero:
  "overflow (chk_dst_range a b R) = 0 \<longleftrightarrow> overflow R = 0 \<and> dstbuf R \<le> a \<and> b < dstend R"
  by (auto simp: chk_dst_range_def or_zero)

lemma chk_src_zero:
  "overflow (chk_src_range a b R) = 0 \<longleftrightarrow> overflow R = 0 \<and> srcbuf R \<le> a \<and> b < srcend R"
  by (auto simp: chk_src_range_def or_zero)

lemma chk_src_regs [simp]:
  "ra5 (chk_src_range a b R) = ra5 R" "ra6 (chk_src_range a b R) = ra6 R"
  "imem (chk_src_range a b R) = imem R" "ra3 (chk_src_range a b R) = ra3 R"
  "rd1 (chk_src_range a b R) = rd1 R" "ice_fixed (chk_src_range a b R) = ice_fixed R"
  by (simp_all add: chk_src_range_def ice_fixed_def)

lemma chk_dst_regs [simp]:
  "ra5 (chk_dst_range a b R) = ra5 R" "ra6 (chk_dst_range a b R) = ra6 R"
  "imem (chk_dst_range a b R) = imem R" "rd1 (chk_dst_range a b R) = rd1 R"
  "ice_fixed (chk_dst_range a b R) = ice_fixed R"
  by (simp_all add: chk_dst_range_def ice_fixed_def)

section \<open>The bit reader\<close>

lemma refill_read: "refill r7 R = (r, S) \<Longrightarrow> ice_read R S"
  by (auto simp: refill_def Let_def ice_read_def ice_step_def chk_src_zero split: if_splits)
    (auto simp: chk_src_range_def ice_fixed_def or_zero)

lemma shift_right_small:
  fixes r :: s32
  assumes "uint r < 2 ^ 31"
  shows "signed_drop_bit n r = drop_bit n r"
proof (rule bit_word_eqI)
  fix m assume "m < LENGTH(32)"
  have "\<not> bit r 31"
    using assms neg_w_uint [of r] by (simp add: neg_w_def)
  moreover have "\<not> bit r k" if "31 < k" for k
    using bit_imp_le_length [of r k] that by auto
  ultimately have "\<not> bit r k" if "31 \<le> k" for k
    using that by (metis le_neq_implies_less)
  then show "bit (signed_drop_bit n r) m = bit (drop_bit n r) m"
    by (auto simp: bit_simps min_def)
qed

lemma uint_double_small:
  "uint r < 2 ^ 31 \<Longrightarrow> uint (push_bit 1 r) = 2 * uint r" for r :: s32
  by (simp add: push_bit_eq_mult uint_word_ariths)

lemma uint_low_byte: "uint (r AND 255) = uint r mod 256" for r :: s32
proof -
  have "r AND 255 = take_bit 8 r"
    by (simp add: take_bit_eq_mask mask_eq_exp_minus_1)
  then show ?thesis by (simp only: unsigned_take_bit_eq) (simp add: take_bit_eq_mod)
qed

lemma refill_bound: 
  assumes "refill r7 R = (r, S)"
  shows "uint r < 512"
proof -
  define q where "q = push_bit 1 (r7 AND 255)"
  have "uint (r7 AND 255) < 256" by (simp add: uint_low_byte)
  then have q: "uint q = 2 * uint (r7 AND 255)" "uint q < 512"
    unfolding q_def by (subst uint_double_small; simp)+
  have byte: "uint (push_bit 1 (rd_byte R a)) = 2 * uint (imem R a)" for R a
    unfolding rd_byte_def using uint_lt2p [of "imem R a"]
    by (subst uint_double_small) (simp_all add: uint_up_ucast is_up)
  have high: "uint (signed_drop_bit 8 q) \<le> 1"
    using q(2) by (simp add: shift_right_small drop_bit_eq_div uint_div) 
  have sum: "uint (signed_drop_bit 8 q + push_bit 1 (rd_byte R a)) < 512" for R a
    using high byte [of R a] uint_lt2p [of "imem R a"] by (simp add: uint_word_ariths)
  show ?thesis
    using assms q(2) sum unfolding refill_def Let_def q_def [symmetric]
    by (auto simp del: push_bit_of_1 split: if_splits)
qed

lemma uint_low_word: "uint (r AND 0xFFFF) = uint r mod 2 ^ 16" for r :: s32
proof -
  have "r AND 0xFFFF = take_bit 16 r"
    by (simp add: take_bit_eq_mask mask_eq_exp_minus_1)
  then show ?thesis by (simp only: unsigned_take_bit_eq) (simp add: take_bit_eq_mod)
qed

text \<open>What a reader extracts is one bit.\<close>

lemma refill_bit:
  assumes "refill r7 R = (r, S)"
  shows "signed_drop_bit 8 r = of_bool (256 \<le> r)" 
proof -
  have "uint r < 512" by (rule refill_bound [OF assms])
  then have "uint (signed_drop_bit 8 r) = uint r div 256" "uint r div 256 = of_bool (256 \<le> uint r)"
    using div_half [of "uint r" 256] by (simp_all add: shift_right_small drop_bit_eq_div uint_div)
  then show ?thesis by (simp add: word_uint_eq_iff word_le_def)
qed

lemma set_low_read [simp]: "ice_read R (set_low r S) = ice_read R S"
  by (simp add: set_low_def)

lemma get_1_bit_read: "get_1_bit R = (b, S) \<Longrightarrow> ice_read R S"
  by (auto simp: get_1_bit_def dest: refill_read split: prod.splits)

lemma get_1_bit_rd1: "get_1_bit R = (b, S) \<Longrightarrow> rd1 S = rd1 R"
  by (auto simp: get_1_bit_def refill_def set_low_def Let_def split: if_splits)

lemma hole_bit_loop_read: "hole_bit_loop n r7 r1 R = (x, y, S) \<Longrightarrow> ice_read R S"
proof (induction n r7 r1 R arbitrary: x y S rule: hole_bit_loop.induct)
  case (1 n r7 r1 R)
  obtain r T where r: "refill r7 R = (r, T)" by fastforce
  have RT: "ice_read R T" by (rule refill_read [OF r])
  show ?case
  proof (cases n)
    case 0
    then show ?thesis using "1.prems" RT by (simp add: hole_bit_loop.simps r)
  next
    case (Suc m)
    have "hole_bit_loop m r (r1 + r1 + signed_drop_bit 8 r) T = (x, y, S)"
      using "1.prems" by (subst (asm) hole_bit_loop.simps) (simp add: r Suc)
    then have "ice_read T S" using "1.IH" r Suc by simp
    with RT show ?thesis by (rule ice_read_trans)
  qed
qed

lemma get_d0_bits_read: "get_d0_bits r0 R = (v, S) \<Longrightarrow> ice_read R S"
  by (auto simp: get_d0_bits_def Let_def dest: hole_bit_loop_read split: if_splits prod.splits)
    (auto simp: ice_read_def ice_step_def ice_fixed_def or_zero)

lemma hole_bit_step:
  assumes "refill r7 R = (r, T)" and "uint r1 < 2 ^ m" and "m < 31"
  shows "uint (r1 + r1 + signed_drop_bit 8 r) < 2 ^ Suc m"
proof -
  have m: "(2 :: int) ^ m * 2 \<le> 2 ^ 31"
    using assms(3) power_increasing [of "Suc m" 31 "2 :: int"] by simp
  have "uint (r1 + r1 + signed_drop_bit 8 r) = 2 * uint r1 + of_bool (256 \<le> r)"
    using m assms(2) by (simp add: refill_bit [OF assms(1)] uint_word_ariths)
  then show ?thesis using assms(2) by simp
qed

lemma hole_bit_loop_bound:
  "hole_bit_loop n r7 r1 R = (x, y, S) \<Longrightarrow> uint r1 < 2 ^ m \<Longrightarrow> m + n < 31 \<Longrightarrow>
    uint y < 2 ^ (m + n + 1)"
proof (induction n arbitrary: r7 r1 R m)
  case (0 r7 r1 R m)
  obtain r T where r: "refill r7 R = (r, T)" by fastforce
  have "y = r1 + r1 + signed_drop_bit 8 r"
    using "0.prems"(1) by (auto simp: hole_bit_loop.simps r)
  then show ?case using hole_bit_step [OF r "0.prems"(2)] "0.prems"(3) by simp
next
  case (Suc k r7 r1 R m)
  obtain r T where r: "refill r7 R = (r, T)" by fastforce
  define q where "q = r1 + r1 + signed_drop_bit 8 r"
  have "hole_bit_loop k r q T = (x, y, S)"
    using Suc.prems(1) by (subst (asm) hole_bit_loop.simps) (simp add: r q_def)
  moreover have "uint q < 2 ^ Suc m"
    using hole_bit_step [OF r Suc.prems(2)] Suc.prems(3) by (simp add: q_def)
  ultimately have "uint y < 2 ^ (Suc m + k + 1)" by (rule Suc.IH) (use Suc.prems(3) in simp)
  then show ?case by simp
qed

lemma get_d0_bits_bound:
  assumes "get_d0_bits r0 R = (v, S)" and "unat (r0 AND 0xFFFF) \<le> k" and "k < 16"
  shows "uint v < 2 ^ (k + 1)"
proof (cases "15 < r0 AND 0xFFFF")
  case True
  then show ?thesis using assms(1) by (auto simp: get_d0_bits_def Let_def)
next
  case False
  then obtain x T where "hole_bit_loop (unat (r0 AND 0xFFFF)) (rd7 R) 0 R = (x, v, T)"
    using assms(1) by (auto simp: get_d0_bits_def Let_def split: prod.splits)
  from hole_bit_loop_bound [OF this, of 0]
  have "uint v < 2 ^ (unat (r0 AND 0xFFFF) + 1)" using assms(2,3) by simp
  also have "(2 :: int) ^ (unat (r0 AND 0xFFFF) + 1) \<le> 2 ^ (k + 1)"
    using assms(2) by (intro power_increasing) simp_all
  finally show ?thesis .
qed

section \<open>Literals and strings\<close>

lemma direkt_bits: "tab < 5 \<Longrightarrow> unat (direkt_tab ! tab AND 0xFFFF) \<le> 14"
proof -
  assume "tab < 5"
  then have "tab = 0 \<or> tab = 1 \<or> tab = 2 \<or> tab = 3 \<or> tab = 4" by linarith
  then show ?thesis by (elim disjE) (simp_all add: direkt_tab_def)
qed

lemma nextgb_read:
  "nextgb tab R = (tab', S) \<Longrightarrow> tab < 5 \<Longrightarrow> ice_read R S \<and> tab' < 5 \<and> uint (rd1 S) < 2 ^ 15"
proof (induction tab arbitrary: R)
  case (0 R)
  obtain v T where v: "get_d0_bits (direkt_tab ! 0) (R\<lparr>rd0 := direkt_tab ! 0\<rparr>) = (v, T)"
    by fastforce
  have "uint v < 2 ^ 15" using get_d0_bits_bound [OF v, of 14] direkt_bits [of 0] by simp
  then show ?case
    using "0.prems" get_d0_bits_read [OF v]
    by (subst (asm) nextgb.simps) (auto simp: v Let_def split: if_splits)
next
  case (Suc k R)
  obtain v T where v: "get_d0_bits (direkt_tab ! Suc k) (R\<lparr>rd0 := direkt_tab ! Suc k\<rparr>) = (v, T)"
    by fastforce
  have T: "uint v < 2 ^ 15" "ice_read R T"
    using get_d0_bits_bound [OF v, of 14] direkt_bits [of "Suc k"] get_d0_bits_read [OF v]
      Suc.prems(2) by simp_all
  obtain w where "tab' = Suc k \<and> S = T\<lparr>rd1 := v, rd0 := w\<rparr> \<or>
      nextgb k (T\<lparr>rd1 := v, rd0 := w, rd3 := rd3 T - 1\<rparr>) = (tab', S)"
    using Suc.prems(1) by (subst (asm) nextgb.simps) (auto simp: v Let_def split: if_splits)
  then show ?case
  proof
    assume "tab' = Suc k \<and> S = T\<lparr>rd1 := v, rd0 := w\<rparr>"
    then show ?thesis using T Suc.prems(2) by simp
  next
    assume "nextgb k (T\<lparr>rd1 := v, rd0 := w, rd3 := rd3 T - 1\<rparr>) = (tab', S)"
    from Suc.IH [OF this] show ?thesis using T(2) Suc.prems(2) by (auto intro: ice_read_trans)
  qed
qed

text \<open>The copy loops: how far the pointers go, and what is written.\<close>

lemma lp_copy_run:
  "rd1 R = of_nat n \<Longrightarrow> n < 2 ^ 31 \<Longrightarrow>
    ice_fixed (lp_copy R) = ice_fixed R \<and> overflow (lp_copy R) = overflow R \<and>
    ra6 (lp_copy R) = ra6 R - int n - 1 \<and> ra5 (lp_copy R) = ra5 R - int n - 1 \<and>
    (\<forall>a. imem (lp_copy R) a \<noteq> imem R a \<longrightarrow> ra6 R - int n - 1 \<le> a \<and> a < ra6 R)"
proof (induction n arbitrary: R)
  case 0
  then have "lp_copy R = (copy_src R)\<lparr>rd1 := - 1\<rparr>"
    by (subst lp_copy.simps) (simp add: copy_src_def Let_def)
  then show ?case by (simp add: copy_src_def Let_def ice_fixed_def)
next
  case (Suc n)
  define S where "S = (copy_src R)\<lparr>rd1 := of_nat n\<rparr>"
  have n: "rd1 R - 1 = of_nat n" using Suc.prems(1) by simp
  have "0 \<le> sint (of_nat n :: s32)"
    using Suc.prems(2) by (simp add: signed_of_nat signed_take_bit_int_eq_self)
  then have step: "lp_copy R = lp_copy S"
    by (subst lp_copy.simps) (simp add: S_def n copy_src_def Let_def)
  have IH: "ice_fixed (lp_copy S) = ice_fixed S \<and> overflow (lp_copy S) = overflow S \<and>
    ra6 (lp_copy S) = ra6 S - int n - 1 \<and> ra5 (lp_copy S) = ra5 S - int n - 1 \<and>
    (\<forall>a. imem (lp_copy S) a \<noteq> imem S a \<longrightarrow> ra6 S - int n - 1 \<le> a \<and> a < ra6 S)"
    by (rule Suc.IH) (use Suc.prems(2) in \<open>simp_all add: S_def\<close>)
  have S: "ra6 S = ra6 R - 1" "ra5 S = ra5 R - 1" "ice_fixed S = ice_fixed R"
      "overflow S = overflow R" "\<And>a. a \<noteq> ra6 R - 1 \<Longrightarrow> imem S a = imem R a"
    by (simp_all add: S_def copy_src_def Let_def ice_fixed_def)
  have "ra6 R - int (Suc n) - 1 \<le> a \<and> a < ra6 R" if "imem (lp_copy S) a \<noteq> imem R a" for a
    using that IH S(1) S(5) [of a] by (cases "a = ra6 R - 1") (force, smt (verit) of_nat_Suc)
  then show ?case using IH by (simp add: step S(1-4))
qed

text \<open>\<open>copy_str\<close> writes only above the start of the output.\<close>

definition in_output :: "ice \<Rightarrow> bool" where
  "in_output R \<longleftrightarrow> ra4 R = dstbuf R"

lemma copy_str_step: "in_output R \<Longrightarrow> ice_step R (copy_str R)"
  by (auto simp: copy_str_def in_output_def ice_step_def ice_fixed_def Let_def)

lemma in_output_step: "ice_step R S \<Longrightarrow> in_output R \<Longrightarrow> in_output S"
  by (simp add: in_output_def ice_step_eqs)

lemma dep_b_step: "in_output R \<Longrightarrow> ice_step R (dep_b R)"
proof (induction R rule: dep_b.induct)
  case (1 R)
  define S where "S = (copy_str R)\<lparr>rd4 := rd4 R - 1\<rparr>"
  have S: "ice_step R S" "in_output S"
    using copy_str_step [OF "1.prems"] in_output_step [OF _ "1.prems"] by (simp_all add: S_def)
  have "ice_step S (dep_b S)" if "0 \<le> sint (rd4 S)"
    using "1.IH" [OF refl refl] that S(2) by (simp add: S_def)
  moreover have "dep_b R = (if 0 \<le> sint (rd4 S) then dep_b S else S)"
    by (subst dep_b.simps) (simp add: S_def Let_def)
  ultimately show ?case using S(1) ice_step_trans by auto
qed

lemma dbcc_bits_read: "ice_read R (dbcc_bits k R)"
proof (induction k arbitrary: R)
  case (0 R)
  obtain b T where "get_1_bit R = (b, T)" by fastforce
  then show ?case using get_1_bit_read by (subst dbcc_bits.simps) (auto simp: Let_def)
next
  case (Suc k R)
  obtain b T where b: "get_1_bit R = (b, T)" by fastforce
  have "ice_read T (dbcc_bits k (T\<lparr>rd2 := rd2 T - 1\<rparr>))"
    using Suc.IH [of "T\<lparr>rd2 := rd2 T - 1\<rparr>"] by simp
  then show ?case
    using get_1_bit_read [OF b] by (subst dbcc_bits.simps) (auto simp: b Let_def intro: ice_read_trans)
qed

text \<open>\<open>strings\<close> ends in \<open>depack_bytes\<close> after reading bits only.\<close>

lemma depack_bytes_step:
  assumes "in_output R"
  shows "ice_step R (depack_bytes R)" "ra4 R < ra6 R \<Longrightarrow> ra6 (depack_bytes R) < ra6 R"
proof -
  define Q where "Q = R\<lparr>ra1 := ra6 R + 2 + s16_val (rd4 R) + s16_val (rd1 R)\<rparr>"
  define S where "S = chk_dst_range (ra6 R - DBF_COUNT (rd4 R) - 1) (ra6 R - 1) Q"
  have "ice_step Q S" unfolding S_def by (rule ice_read_step [OF chk_dst_read])
  then have S: "ice_step R S" "ra6 S = ra6 R" "ra4 S = ra4 R"
    by (simp_all add: Q_def S_def chk_dst_range_def)
  have C: "ice_step S (copy_str S)" "in_output (copy_str S)"
    using copy_str_step in_output_step [OF S(1) assms] in_output_step by blast+
  have D: "ice_step (copy_str S) (dep_b (copy_str S))" by (rule dep_b_step [OF C(2)])
  have eq: "depack_bytes R = dep_b (copy_str S)"
    by (simp add: depack_bytes_def Let_def S_def Q_def)
  show "ice_step R (depack_bytes R)"
    unfolding eq using S(1) C(1) D ice_step_trans by blast
  show "ra6 (depack_bytes R) < ra6 R" if "ra4 R < ra6 R"
  proof -
    have "ra6 (copy_str S) = ra6 R - 1" using that S by (simp add: copy_str_def Let_def)
    then show ?thesis using D unfolding eq by (simp add: ice_step_def)
  qed
qed

lemma count_bits_read: "ice_read R (dbcc_bits k (R\<lparr>rd2 := x\<rparr>))"
  using dbcc_bits_read [of "R\<lparr>rd2 := x\<rparr>"] by simp

lemma strings_length_read: "ice_read R (strings_length R)"
  unfolding strings_length_def Let_def
  by (auto simp: count_bits_read split: prod.splits if_splits dest!: get_d0_bits_read
      intro: ice_read_trans [OF count_bits_read])

lemma get_offset_2_read: "ice_read R (get_offset_2 R)"
  unfolding get_offset_2_def Let_def
  by (auto split: prod.splits if_splits dest!: get_d0_bits_read get_1_bit_read intro: ice_read_trans)

lemma getoffs_read: "ice_read R (getoffs R)"
  unfolding getoffs_def Let_def
  by (auto split: prod.splits if_splits dest!: get_d0_bits_read
      intro: ice_read_trans [OF count_bits_read])

lemma strings_depack: "\<exists>S. ice_read R S \<and> strings R = depack_bytes S"
  unfolding strings_def Let_def
  using strings_length_read get_offset_2_read getoffs_read ice_read_trans by (metis (no_types))

lemma strings_step:
  assumes "in_output R"
  shows "ice_step R (strings R)" "ra4 R < ra6 R \<Longrightarrow> ra6 (strings R) < ra6 R"
proof -
  obtain S where S: "ice_read R S" "strings R = depack_bytes S" using strings_depack by blast
  have "in_output S" by (rule in_output_step [OF ice_read_step [OF S(1)] assms])
  note D = depack_bytes_step [OF this]
  show "ice_step R (strings R)"
    unfolding S(2) by (rule ice_step_trans [OF ice_read_step [OF S(1)] D(1)])
  have "ra4 S = ra4 R" "ra6 S = ra6 R"
    using S(1) ice_step_eqs by (auto simp: ice_read_def)
  then show "ra6 (strings R) < ra6 R" if "ra4 R < ra6 R"
    using D(2) that by (simp add: S(2))
qed

lemma direkt_base: "tab < 5 \<Longrightarrow> uint (direkt_tab ! (tab + 5)) \<le> 269"
proof -
  assume "tab < 5"
  then have "tab = 0 \<or> tab = 1 \<or> tab = 2 \<or> tab = 3 \<or> tab = 4" by linarith
  then show ?thesis by (elim disjE) (simp_all add: direkt_tab_def)
qed

lemma literal_count_read: "ice_read R (literal_count R) \<and> uint (rd1 (literal_count R)) < 2 ^ 16"
proof -
  obtain b S where b: "get_1_bit (R\<lparr>rd1 := 0\<rparr>) = (b, S)" by fastforce
  obtain tab T where tab: "nextgb 4 (S\<lparr>rd3 := 4\<rparr>) = (tab, T)" by fastforce
  have T: "ice_read S T" "tab < 5" "uint (rd1 T) < 2 ^ 15"
    using nextgb_read [OF tab] by simp_all
  have S: "ice_read R S" "rd1 S = 0" 
    using get_1_bit_read [OF b] get_1_bit_rd1 [of "R\<lparr>rd1 := 0\<rparr>"] b by simp_all
  have "uint (rd1 T + direkt_tab ! (tab + 5)) < 2 ^ 16"
    using T(3) direkt_base [OF T(2)] by (simp add: uint_word_ariths)
  then show ?thesis
    using S T(1) by (auto simp: literal_count_def Let_def b tab intro: ice_read_trans)
qed

lemma copy_direkt_step:
  assumes "copy_direkt R = (go, S)" and "uint (rd1 R) < 2 ^ 16"
  shows "ice_step R S" "\<not> go \<Longrightarrow> overflow S \<noteq> 0"
proof -
  define n where "n = unat (rd1 R)"
  have n: "rd1 R = of_nat n" "n < 2 ^ 16" "DBF_COUNT (rd1 R) = int n + 1"
  proof -
    show "rd1 R = of_nat n" by (simp add: n_def)
    have u: "uint (rd1 R) = int n" by (simp add: n_def)
    show "n < 2 ^ 16" using assms(2) unfolding u by simp
    show "DBF_COUNT (rd1 R) = int n + 1"
      unfolding DBF_COUNT_def uint_low_word u using assms(2) unfolding u by simp
  qed
  define U where "U = chk_dst_range (ra6 R - (int n + 1)) (ra6 R - 1) R"
  define V where "V = chk_src_range (ra5 U - (int n + 1)) (ra5 U - 1) U"
  have UV: "ice_read R V" 
    unfolding U_def V_def using chk_dst_read chk_src_read ice_read_trans by blast
  have eq: "(go, S) = (if overflow U OR overflow V \<noteq> 0 then (False, V) else (True, lp_copy V))"
    unfolding assms(1) [symmetric] copy_direkt_def n(3) Let_def U_def V_def by (rule refl)
  show "\<not> go \<Longrightarrow> overflow S \<noteq> 0"
    using eq by (auto simp: or_zero V_def chk_src_zero split: if_splits)
  have "ice_step V (lp_copy V)" if "overflow V = 0"
  proof -
    have "overflow U = 0" "srcbuf U \<le> ra5 V - int n - 1"
      using that by (auto simp: V_def chk_src_zero)
    then have "dstbuf R \<le> ra6 V - int n - 1" by (auto simp: V_def U_def chk_dst_zero)
    moreover have "srcbuf U = srcbuf V" "dstbuf R = dstbuf V"
      by (simp_all add: U_def V_def chk_src_range_def chk_dst_range_def)
    moreover have "rd1 V = of_nat n" by (simp add: V_def U_def n)
    ultimately show ?thesis
      using \<open>srcbuf U \<le> ra5 V - int n - 1\<close> lp_copy_run [of V n] n(2)
      by (fastforce simp: ice_step_def)
  qed
  then show "ice_step R S"
    using eq ice_read_step [OF UV] ice_step_trans [OF ice_read_step [OF UV]]
    by (auto simp: or_zero split: if_splits)
qed

section \<open>The main loop\<close>

lemma loop_head:
  assumes "(if b = 0 then (True, T) else copy_direkt (literal_count T)) = (go, U)"
  shows "ice_step T U \<and> (\<not> go \<longrightarrow> overflow U \<noteq> 0)"
proof (cases "b = 0")
  case True
  then show ?thesis using assms ice_read_step by auto
next
  case False
  note L = literal_count_read [of T]
  have "ice_step (literal_count T) U" "\<not> go \<Longrightarrow> overflow U \<noteq> 0"
    using copy_direkt_step [of "literal_count T" go U] assms False L by auto
  then show ?thesis using ice_step_trans [OF ice_read_step] L by blast
qed

text \<open>The loop ends, and with no flag set it has filled the output down to its start.\<close>

lemma normal_bytes_run:
  "in_output R \<Longrightarrow>
    \<exists>S. normal_bytes R = Some S \<and> ice_step R S \<and> (overflow S = 0 \<longrightarrow> ra6 S = dstbuf S)"
proof (induction "nat (ra6 R - ra4 R)" arbitrary: R rule: less_induct)
  case less
  obtain b T where b: "get_1_bit R = (b, T)" by fastforce
  obtain go U where go: "(if b = 0 then (True, T) else copy_direkt (literal_count T)) = (go, U)"
    by fastforce
  have RU: "ice_step R U" "\<not> go \<Longrightarrow> overflow U \<noteq> 0"
    using loop_head [OF go] ice_step_trans [OF ice_read_step [OF get_1_bit_read [OF b]]] by blast+
  have U: "in_output U" "ra6 U \<le> ra6 R" "ra4 U = ra4 R"
    using in_output_step [OF RU(1) less.prems] RU(1) ice_step_eqs(6) by (auto simp: ice_step_def)
  have eq: "normal_bytes R =
      (if \<not> go then Some U
       else if ra6 U \<le> ra4 U then
         Some (if ra6 U < ra4 U then chk_dst_range (ra6 U) (ra6 U) U else U)
       else normal_bytes (strings U))"
    by (subst normal_bytes.simps) (simp add: b go)
  consider "\<not> go" | "go" "ra6 U \<le> ra4 U" | "go" "ra4 U < ra6 U" by linarith
  then show ?case
  proof cases
    case 1
    then show ?thesis using RU by (simp add: eq)
  next
    case 2
    define S where "S = (if ra6 U < ra4 U then chk_dst_range (ra6 U) (ra6 U) U else U)"
    have "ice_read U S" by (auto simp: S_def)
    moreover have "ra6 S = dstbuf S" if "overflow S = 0"
      using that 2(2) U(1) by (auto simp: S_def chk_dst_zero in_output_def split: if_splits)
    ultimately show ?thesis
      using 2 RU(1) ice_step_trans ice_read_step by (auto simp: eq S_def)
  next
    case 3
    note S = strings_step [OF U(1)]
    have "in_output (strings U)" by (rule in_output_step [OF S(1) U(1)])
    moreover have "nat (ra6 (strings U) - ra4 (strings U)) < nat (ra6 R - ra4 R)"
      using S(2) [OF 3(2)] U(2,3) 3(2) ice_step_eqs(6) [OF S(1)] by simp
    ultimately obtain V where "normal_bytes (strings U) = Some V" "ice_step (strings U) V"
        "overflow V = 0 \<longrightarrow> ra6 V = dstbuf V"
      using less.hyps by blast
    moreover from this have "ice_step R V"
      using ice_step_trans [OF RU(1) ice_step_trans [OF S(1)]] by blast
    moreover have "dstbuf V = dstbuf (strings U)" 
      using ice_step_eqs(3) [OF \<open>ice_step (strings U) V\<close>] .
    ultimately show ?thesis using 3 by (simp add: eq)
  qed
qed

section \<open>Pictures\<close>

text \<open>
  The picture pass tests the address it writes, in the output, against the limits of the
  \<^emph>\<open>input\<close>: it writes inside the input or not at all.
\<close>

definition ice_planes :: "ice \<Rightarrow> ice \<Rightarrow> bool" where
  "ice_planes R S \<longleftrightarrow> srcbuf S = srcbuf R \<and> srcend S = srcend R \<and> ra3 S \<le> ra3 R \<and>
     (overflow S = 0 \<longrightarrow> overflow R = 0) \<and>
     (\<forall>a. imem S a \<noteq> imem R a \<longrightarrow> srcbuf R \<le> a \<and> a < srcend R)"

lemma ice_02_regs [simp]:
  "srcbuf (ice_02 R) = srcbuf R" "srcend (ice_02 R) = srcend R" "ra3 (ice_02 R) = ra3 R"
  "overflow (ice_02 R) = overflow R" "imem (ice_02 R) = imem R"
  by (simp_all add: ice_02_def Let_def)

lemma ice_02_iter [simp]:
  "srcbuf ((ice_02 ^^ n) R) = srcbuf R" "srcend ((ice_02 ^^ n) R) = srcend R"
  "ra3 ((ice_02 ^^ n) R) = ra3 R" "overflow ((ice_02 ^^ n) R) = overflow R"
  "imem ((ice_02 ^^ n) R) = imem R"
  by (induction n) auto

lemma ice_01_regs [simp]:
  "srcbuf (ice_01 R) = srcbuf R" "srcend (ice_01 R) = srcend R" "ra3 (ice_01 R) = ra3 R - 2"
  "overflow (ice_01 R) = overflow R" "imem (ice_01 R) = imem R"
  unfolding ice_01_def Let_def by simp_all

lemma ice_01_iter [simp]:
  "srcbuf ((ice_01 ^^ n) R) = srcbuf R" "srcend ((ice_01 ^^ n) R) = srcend R"
  "ra3 ((ice_01 ^^ n) R) = ra3 R - 2 * int n" "overflow ((ice_01 ^^ n) R) = overflow R"
  "imem ((ice_01 ^^ n) R) = imem R"
  by (induction n) auto

lemma put_planes_regs [simp]:
  "srcbuf (put_planes R) = srcbuf R" "srcend (put_planes R) = srcend R"
  "ra3 (put_planes R) = ra3 R" "overflow (put_planes R) = overflow R"
  "rd7 (put_planes R) = rd7 R"
  by (simp_all add: put_planes_def Let_def)

lemma put_planes_mem: "imem (put_planes R) a \<noteq> imem R a \<Longrightarrow> ra3 R \<le> a \<and> a \<le> ra3 R + 7"
  by (auto simp: put_planes_def Let_def split: if_splits)

lemma ice_00_run:
  "ice_planes R (ice_00 R) \<and>
    (overflow (ice_00 R) = 0 \<or> imem (ice_00 R) \<noteq> imem R \<longrightarrow> srcbuf R \<le> ra3 R - 8 \<and> ra3 R \<le> srcend R)"
proof (induction R rule: ice_00.induct)
  case (1 R)
  define Q where "Q = (ice_01 ^^ 4) R"
  define S where "S = chk_src_range (ra3 Q) (ra3 Q + 7) Q"
  define T where "T = put_planes S\<lparr>rd7 := rd7 (put_planes S) - 1\<rparr>"
  have eq: "ice_00 R =
      (if overflow S \<noteq> 0 then S else if 0 \<le> sint (rd7 T) then ice_00 T else T)"
    unfolding Q_def S_def T_def by (subst ice_00.simps) (simp only: Let_def)
  have S: "srcbuf S = srcbuf R" "srcend S = srcend R" "ra3 S = ra3 R - 8" "imem S = imem R"
    by (simp_all add: S_def Q_def chk_src_range_def)
  have zero: "overflow S = 0 \<longleftrightarrow> overflow R = 0 \<and> srcbuf R \<le> ra3 R - 8 \<and> ra3 R \<le> srcend R"
    by (auto simp: S_def Q_def chk_src_zero)
  have T: "srcbuf T = srcbuf R" "srcend T = srcend R" "ra3 T = ra3 R - 8" "overflow T = overflow S"
    by (simp_all add: T_def S)
  have T_mem: "ra3 R - 8 \<le> a \<and> a \<le> ra3 R - 1" if "imem T a \<noteq> imem R a" for a
    using put_planes_mem [of S a] that by (simp add: T_def S)
  have IH: "ice_planes T (ice_00 T)" if "overflow S = 0" "0 \<le> sint (rd7 T)"
    using "1.IH" [OF refl refl _ refl refl] that unfolding Q_def S_def T_def by blast
  consider "overflow S \<noteq> 0" | "overflow S = 0" "0 \<le> sint (rd7 T)"
    | "overflow S = 0" "sint (rd7 T) < 0" by linarith
  then show ?case
  proof cases
    case 1
    then show ?thesis using S by (simp add: eq ice_planes_def)
  next
    case 2
    have "srcbuf R \<le> a \<and> a < srcend R" if "imem (ice_00 T) a \<noteq> imem R a" for a
      using IH [OF 2] T T_mem [of a] that zero 2(1)
      by (cases "imem T a = imem R a") (fastforce simp: ice_planes_def)+
    then show ?thesis using 2 zero T IH [OF 2] by (auto simp: eq ice_planes_def)
  next
    case 3
    have "srcbuf R \<le> a \<and> a < srcend R" if "imem T a \<noteq> imem R a" for a
      using T_mem [OF that] zero 3(1) by auto
    then show ?thesis using 3 zero T by (auto simp: eq ice_planes_def)
  qed
qed

text \<open>
  The pass is taken when the bit after the output's data is set, and either it leaves \<open>a3\<close> at the
  end of the output, or the test has compared the top of the output with the input's limits.
\<close>

lemma picture_start:
  "\<exists>T. ice_read (R\<lparr>ra6 := ra3 R\<rparr>) T \<and> (picture R = T \<or> picture R = ice_00 T)"
proof -
  obtain b T where b: "get_1_bit (R\<lparr>ra6 := ra3 R\<rparr>) = (b, T)" by fastforce
  obtain c U where c: "get_1_bit (T\<lparr>rd7 := 0x0f9f\<rparr>) = (c, U)" by fastforce
  obtain v V where v: "get_d0_bits 15 U = (v, V)" by fastforce
  have T: "ice_read (R\<lparr>ra6 := ra3 R\<rparr>) T" by (rule get_1_bit_read [OF b])
  have U: "ice_read T U" using get_1_bit_read [OF c] by simp
  have V: "ice_read U (V\<lparr>rd7 := v, rd1 := v\<rparr>)" using get_d0_bits_read [OF v] by simp
  have eq: "picture R =
      (if b = 0 then T else if c = 0 then ice_00 U else ice_00 (V\<lparr>rd7 := v, rd1 := v\<rparr>))"
    unfolding picture_def Let_def b c v split_conv by (rule refl)
  have TU: "ice_read (R\<lparr>ra6 := ra3 R\<rparr>) U" by (rule ice_read_trans [OF T U])
  show ?thesis
  proof (cases "b = 0")
    case True
    then show ?thesis using T by (auto simp: eq)
  next
    case False
    show ?thesis
    proof (cases "c = 0")
      case True
      then show ?thesis using False TU by (auto simp: eq)
    next
      case c: False
      show ?thesis
        using False c ice_read_trans [OF TU V]
        by (intro exI [of _ "V\<lparr>rd7 := v, rd1 := v\<rparr>"]) (simp add: eq)
    qed
  qed
qed

lemma picture_run:
  assumes "picture R = S"
  shows "overflow S = 0 \<longrightarrow> overflow R = 0"
    and "imem S a \<noteq> imem R a \<longrightarrow> srcbuf R \<le> a \<and> a < srcend R"
    and "overflow S = 0 \<or> imem S \<noteq> imem R \<longrightarrow> ra3 S = ra3 R \<and> imem S = imem R \<or>
      srcbuf R \<le> ra3 R - 8 \<and> ra3 R \<le> srcend R"
proof -
  have "\<exists>T. ice_read (R\<lparr>ra6 := ra3 R\<rparr>) T \<and> (S = T \<or> S = ice_00 T)"
    unfolding assms [symmetric] by (rule picture_start)
  then obtain T where T: "ice_read (R\<lparr>ra6 := ra3 R\<rparr>) T" "S = T \<or> S = ice_00 T" by blast
  have eqs: "srcbuf T = srcbuf R" "srcend T = srcend R" "ra3 T = ra3 R" "imem T = imem R"
      "overflow T = 0 \<longrightarrow> overflow R = 0"
    using T(1) ice_step_eqs [of "R\<lparr>ra6 := ra3 R\<rparr>" T] by (auto simp: ice_read_def ice_step_def)
  note P = ice_00_run [of T]
  show "overflow S = 0 \<longrightarrow> overflow R = 0"
    using T(2) P eqs(5) by (auto simp: ice_planes_def)
  show "imem S a \<noteq> imem R a \<longrightarrow> srcbuf R \<le> a \<and> a < srcend R"
    using T(2) P eqs by (auto simp: ice_planes_def)
  show "overflow S = 0 \<or> imem S \<noteq> imem R \<longrightarrow> ra3 S = ra3 R \<and> imem S = imem R \<or>
      srcbuf R \<le> ra3 R - 8 \<and> ra3 R \<le> srcend R"
    using T(2) P eqs by auto
qed

section \<open>The depacker\<close>

text \<open>The registers when the main loop starts.\<close>

definition ice_ready :: "(int \<Rightarrow> u8) \<Rightarrow> int \<Rightarrow> int \<Rightarrow> ice" where
  "ice_ready m dest src =
    (let csize = sint (get_long m (src + 4)); dsize = get_long m (src + 8);
         R = all_regs m dest src
     in R\<lparr>ra0 := src + 12, ra3 := dest + sint dsize, ra4 := dest, ra5 := src + csize - 1,
          ra6 := dest + sint dsize, rd0 := dsize, rd7 := ucast (m (src + csize - 1)),
          srcbuf := src, srcend := src + csize, dstbuf := dest, dstend := dest + sint dsize\<rparr>)"

lemma ice_decrunch_eq:
  "ice_decrunch (all_regs m dest src) =
    (if get_long m src AND NOT 0x202000 \<noteq> ICE_MAGIC
     then Some (-1, (all_regs m dest src)\<lparr>ra0 := src + 4, srcbuf := src, dstbuf := dest\<rparr>)
     else map_option (\<lambda>R. (if overflow (picture R) = 0 then 0 else -1, picture R))
       (normal_bytes (ice_ready m dest src)))"
  by (simp add: ice_decrunch_def getinfo_def all_regs_def ice_ready_def Let_def rd_byte_def
      map_conv_bind_option comp_def algebra_simps)

lemma ice_ready_fixed:
  "in_output (ice_ready m dest src)" "imem (ice_ready m dest src) = m"
  "ra6 (ice_ready m dest src) = dest + sint (get_long m (src + 8))"
  "ra3 (ice_ready m dest src) = dest + sint (get_long m (src + 8))"
  "dstbuf (ice_ready m dest src) = dest" "srcbuf (ice_ready m dest src) = src"
  "srcend (ice_ready m dest src) = src + sint (get_long m (src + 4))"
  by (simp_all add: ice_ready_def in_output_def all_regs_def Let_def)

lemma ice_decrunch_run:
  obtains (reject) R where "ice_decrunch (all_regs m dest src) = Some (-1, R)" "imem R = m"
  | (unpack) R S where "normal_bytes (ice_ready m dest src) = Some R" "picture R = S"
      "ice_decrunch (all_regs m dest src) = Some (if overflow S = 0 then 0 else -1, S)"
      "srcbuf R = src" "srcend R = src + sint (get_long m (src + 4))"
      "ra3 R = dest + sint (get_long m (src + 8))"
      "\<And>a. imem R a \<noteq> m a \<Longrightarrow> dest \<le> a \<and> a < dest + sint (get_long m (src + 8))"
proof (cases "get_long m src AND NOT 0x202000 \<noteq> ICE_MAGIC")
  case True
  then have "ice_decrunch (all_regs m dest src)
      = Some (-1, (all_regs m dest src)\<lparr>ra0 := src + 4, srcbuf := src, dstbuf := dest\<rparr>)"
    by (simp add: ice_decrunch_eq)
  then show ?thesis by (rule reject) (simp add: all_regs_def)
next
  case False
  obtain R where R: "normal_bytes (ice_ready m dest src) = Some R" "ice_step (ice_ready m dest src) R"
    using normal_bytes_run [OF ice_ready_fixed(1)] by blast
  show ?thesis
  proof (rule unpack [OF R(1) refl])
    show "ice_decrunch (all_regs m dest src)
        = Some (if overflow (picture R) = 0 then 0 else -1, picture R)"
      using False R(1) by (simp add: ice_decrunch_eq)
  qed (use R(2) ice_step_eqs [OF R(2)] in \<open>auto simp: ice_step_def ice_ready_fixed\<close>)
qed

text \<open>C25. The depacker always returns, with 0 or -1, whatever the packed data is; and it writes
  only into the output (the size read from the header, from the destination) or into the packed
  data itself.\<close>

theorem depacker_returns:
  fixes m :: "int \<Rightarrow> u8"
  shows "\<exists>r m'. unice68_depacker m dest src = Some (r, m') \<and> (r = 0 \<or> r = -1) \<and>
    (\<forall>a. m' a = m a \<or> a \<in> {dest ..< dest + sint (get_long m (src + 8))} \<or>
      a \<in> {src ..< src + sint (get_long m (src + 4))})"
proof (cases rule: ice_decrunch_run [of m dest src])
  case (reject R)
  then show ?thesis by (simp add: unice68_depacker_def)
next
  case (unpack R S)
  have "imem S a = m a \<or> a \<in> {dest ..< dest + sint (get_long m (src + 8))} \<or>
      a \<in> {src ..< src + sint (get_long m (src + 4))}" for a
    using picture_run(2) [OF unpack(2), of a] unpack(4,5) unpack(7) [of a] by fastforce
  with unpack(3) show ?thesis by (auto simp: unice68_depacker_def)
qed

text \<open>C26. With separate buffers only the output is written; and a run that reports success has
  not performed the picture pass, since that pass checks the output address against the limits of
  the input and gives up: packed pictures are always reported as errors.\<close>

theorem pictures_refused:
  fixes m :: "int \<Rightarrow> u8"
  assumes "0 < sint (get_long m (src + 8))"
    and "dest + sint (get_long m (src + 8)) \<le> src \<or> src + sint (get_long m (src + 4)) \<le> dest"
  shows "\<exists>r S. ice_decrunch (all_regs m dest src) = Some (r, S) \<and>
    (r = -1 \<or> r = 0 \<and> ra3 S = dest + sint (get_long m (src + 8))) \<and>
    (\<forall>a. imem S a = m a \<or> a \<in> {dest ..< dest + sint (get_long m (src + 8))})"
proof (cases rule: ice_decrunch_run [of m dest src])
  case (reject R)
  then show ?thesis by simp
next
  case (unpack R S)
  have "\<not> (srcbuf R \<le> ra3 R - 8 \<and> ra3 R \<le> srcend R)"
    using assms unpack(4-6) by linarith
  with picture_run(3) [OF unpack(2)]
  have "imem S = imem R" "overflow S = 0 \<longrightarrow> ra3 S = ra3 R" by blast+
  then show ?thesis using unpack(3,6,7) by auto
qed

text \<open>A picture of one byte, so the pass starts below the output.\<close>

definition packed_picture :: "int \<Rightarrow> u8" where
  "packed_picture a =
    (if 0 \<le> a \<and> a < 14
     then [0x49, 0x43, 0x45, 0x21, 0, 0, 0, 14, 0, 0, 0, 1, 0x55, 0xA8] ! nat a else 0)"

lemma packed_picture_header: "get_long packed_picture 8 = 1" "get_long packed_picture 4 = 14"
  by (simp_all add: get_long_def packed_picture_def)

theorem pictures_refused_witness:
  "\<exists>r S. ice_decrunch (all_regs packed_picture 100 0) = Some (r, S) \<and>
    (r = -1 \<or> r = 0 \<and> ra3 S = 101) \<and> (\<forall>a. imem S a = packed_picture a \<or> a \<in> {100 ..< 101})"
  using pictures_refused [of packed_picture 0 100] by (simp add: packed_picture_header)

text \<open>The main loop always returns, and when no check has failed it has filled the output
  exactly down to its first byte.\<close>

theorem output_filled:
  assumes "ra4 R = dstbuf R"
  shows "\<exists>S. normal_bytes R = Some S \<and> (overflow S \<noteq> 0 \<or> ra6 S = dstbuf R)"
  using normal_bytes_run [of R] assms ice_step_eqs(3) by (fastforce simp: in_output_def)

theorem output_filled_witness:
  "\<exists>S. normal_bytes (ice_ready packed_picture 100 0) = Some S \<and> (overflow S \<noteq> 0 \<or> ra6 S = 100)"
  using output_filled [of "ice_ready packed_picture 100 0"]
  by (simp add: ice_ready_def all_regs_def Let_def)

text \<open>\<open>n\<close> calls of \<open>get_1_bit\<close>, the bits read put together from the most significant one.\<close>

primrec read_bits :: "nat \<Rightarrow> s32 \<Rightarrow> ice \<Rightarrow> s32 \<times> ice" where
  "read_bits 0 v R = (v, R)"
| "read_bits (Suc n) v R = (let (b, R) = get_1_bit R in read_bits n (v + v + b) R)"

lemma low_of_set_low: "rd7 (set_low r R) AND 255 = r AND 255"
  by (rule bit_word_eqI) (auto simp: set_low_def bit_simps)

lemma refill_set_low:
  "refill x R = (r, T) \<Longrightarrow> refill (rd7 (set_low x R)) (set_low x R) = (r, set_low x T)"
proof -
  have "refill (rd7 (set_low x R)) (set_low x R) = refill x (set_low x R)"
    unfolding refill_def low_of_set_low ..
  moreover have "refill x (set_low x R) = (let (r, T) = refill x R in (r, set_low x T))"
    by (simp add: refill_def set_low_def chk_src_range_def rd_byte_def Let_def)
  ultimately show "refill x R = (r, T) \<Longrightarrow> ?thesis" by simp
qed

lemma set_low_twice: "set_low r (set_low x R) = set_low r R"
  by (simp add: set_low_def) (rule arg_cong [where f = "\<lambda>y. R\<lparr>rd7 := y\<rparr>"], rule bit_word_eqI, auto simp: bit_simps)

lemma hole_bit_loop_bits:
  "hole_bit_loop n x v R = (r, w, S) \<Longrightarrow> read_bits (Suc n) v (set_low x R) = (w, set_low r S)"
proof (induction n arbitrary: x v R)
  case (0 x v R)
  obtain y T where y: "refill x R = (y, T)" by fastforce
  then show ?case using 0
    by (auto simp: hole_bit_loop.simps get_1_bit_def refill_set_low [OF y] set_low_twice)
next
  case (Suc n x v R)
  obtain y T where y: "refill x R = (y, T)" by fastforce
  have "hole_bit_loop n y (v + v + signed_drop_bit 8 y) T = (r, w, S)"
    using Suc.prems by (subst (asm) hole_bit_loop.simps) (simp add: y)
  from Suc.IH [OF this] show ?case
    by (subst read_bits.simps) (simp add: get_1_bit_def refill_set_low [OF y] set_low_twice)
qed

text \<open>\<open>get_d0_bits\<close>, which keeps the bit buffer and the value in local variables, reads
  exactly what \<open>n + 1\<close> calls of the one-bit reader do.\<close>

theorem bit_fields:
  assumes "n \<le> 15"
  shows "get_d0_bits (of_nat n) R =
    (let (v, S) = read_bits (n + 1) 0 R in (v, S\<lparr>rd0 := rd0 S OR 0xFFFF\<rparr>))"
proof -
  have n: "of_nat n AND 0xFFFF = (of_nat n :: s32)" "unat (of_nat n :: s32) = n"
    "\<not> 15 < (of_nat n :: s32)"
  proof -
    show unat: "unat (of_nat n :: s32) = n" using assms by (simp add: unat_of_nat)
    have "uint (of_nat n :: s32) = int n" using unat by (simp only: uint_nat)
    then have "uint (of_nat n AND 0xFFFF :: s32) = uint (of_nat n :: s32)"
      using assms by (simp only: uint_low_word) simp
    then show "of_nat n AND 0xFFFF = (of_nat n :: s32)" by (rule word_uint_eqI)
    show "\<not> 15 < (of_nat n :: s32)" using assms by (simp add: word_less_nat_alt unat)
  qed
  obtain r w S where h: "hole_bit_loop n (rd7 R) 0 R = (r, w, S)" by (metis prod_cases3)
  have "set_low (rd7 R) R = R"
    by (simp add: set_low_def) (rule trans [OF arg_cong [where f = "\<lambda>y. R\<lparr>rd7 := y\<rparr>"]], rule bit_word_eqI, auto simp: bit_simps)
  with hole_bit_loop_bits [OF h] have "read_bits (n + 1) 0 R = (w, set_low r S)" by simp
  then show ?thesis by (simp add: get_d0_bits_def n h Let_def)
qed

theorem bit_fields_witness:
  "get_d0_bits 3 (ice_ready packed_picture 100 0) =
    (let (v, S) = read_bits 4 0 (ice_ready packed_picture 100 0) in (v, S\<lparr>rd0 := rd0 S OR 0xFFFF\<rparr>))"
  using bit_fields [of 3 "ice_ready packed_picture 100 0"] by simp

end
