(* ===== verification/VfsMem68.thy ===== *)
theory VfsMem68
  imports Vfs68
begin

text \<open>
  The two streams of the library that need no system: a memory area,
  \<open>file68/src/vfs68_mem.c\<close>, and the null device, \<open>file68/src/vfs68_null.c\<close>.

  The memory behind a stream is a function of the offset from \<open>buffer\<close>, so that an access
  outside of the \<open>size\<close> bytes of the area is seen.  The name, which \<open>vfs68_mem_create\<close> prints
  from two addresses, is a parameter; releasing memory is not modelled.

  Lemmas: an abstract byte stream (contents and position) and the refinement of it by the memory
  stream; the interpretations of the contracts of \<open>Vfs68\<close>; the overflow of \<open>pos + n\<close>.
\<close>

section \<open>Memory streams\<close>

record vfs_mem =
  mbuf :: "int \<Rightarrow> u8"
  msize :: int
  mpos :: int
  mmode :: int
  mopen :: int
  mname :: string

definition ism_name :: "vfs_mem \<Rightarrow> string option" where
  "ism_name s = (if mname s = [] then None else Some (mname s))"

definition ism_open :: "vfs_mem \<Rightarrow> int \<times> vfs_mem" where
  "ism_open s =
    (if \<not> VFS68_IS_OPEN (mmode s) \<or> mopen s \<noteq> 0 then (-1, s)
     else (0, s\<lparr>mopen := mmode s AND VFS68_OPEN_MASK, mpos := 0\<rparr>))"

definition ism_close :: "vfs_mem \<Rightarrow> int \<times> vfs_mem" where
  "ism_close s = (if mopen s = 0 then (-1, s) else (0, s\<lparr>mopen := 0\<rparr>))"

definition ism_read_or_write :: "vfs_mem \<Rightarrow> u8 list \<Rightarrow> int \<Rightarrow> int \<Rightarrow> int \<times> u8 list \<times> vfs_mem" where
  "ism_read_or_write s data n mode =
    (if mopen s AND mode = 0 \<or> n < 0 then (-1, [], s)
     else if n = 0 then (0, [], s)
     else
       let pos = mpos s;
           endpos = i32 (pos + n);
           (endpos, n) = (if endpos > msize s then (msize s, i32 (msize s - pos)) else (endpos, n));
           (d, s) =
             (if n > 0 then
                if mode = VFS68_OPEN_READ
                then (map (\<lambda>i. mbuf s (pos + int i)) [0 ..< nat n], s)
                else ([], s\<lparr>mbuf := \<lambda>a. if pos \<le> a \<and> a < pos + n then data ! nat (a - pos)
                                        else mbuf s a\<rparr>)
              else ([], s))
       in (n, d, s\<lparr>mpos := endpos\<rparr>))"

definition ism_read :: "vfs_mem \<Rightarrow> int \<Rightarrow> int \<times> u8 list \<times> vfs_mem" where
  "ism_read s n = ism_read_or_write s [] n VFS68_OPEN_READ"

definition ism_write :: "vfs_mem \<Rightarrow> u8 list \<Rightarrow> int \<Rightarrow> int \<times> vfs_mem" where
  "ism_write s data n = (let (r, _, s) = ism_read_or_write s data n VFS68_OPEN_WRITE in (r, s))"

definition ism_flush :: "vfs_mem \<Rightarrow> int \<times> vfs_mem" where
  "ism_flush s = (- of_bool (mopen s = 0), s)"

definition ism_length :: "vfs_mem \<Rightarrow> int" where
  "ism_length s = (if mopen s = 0 then -1 else msize s)"

definition ism_tell :: "vfs_mem \<Rightarrow> int" where
  "ism_tell s = (if mopen s = 0 then -1 else mpos s)"

definition ism_seek :: "vfs_mem \<Rightarrow> int \<Rightarrow> int \<times> vfs_mem" where
  "ism_seek s offset =
    (if mopen s = 0 then (-1, s)
     else
       let pos = i32 (mpos s + offset)
       in if pos < 0 \<or> pos > msize s then (-1, s) else (0, s\<lparr>mpos := pos\<rparr>))"

definition vfs68_mem :: "vfs_mem vfs" where
  "vfs68_mem =
    \<lparr>vname = Some ism_name, vopen = Some ism_open, vclose = Some ism_close,
     vread = Some ism_read, vwrite = Some ism_write, vflush = Some ism_flush,
     vlength = Some ism_length, vtell = Some ism_tell,
     vseekf = Some ism_seek, vseekb = Some ism_seek, vdestroy = Some (\<lambda>s. s)\<rparr>"

definition vfs68_mem_create :: "(int \<Rightarrow> u8) \<Rightarrow> string \<Rightarrow> int \<Rightarrow> int \<Rightarrow> vfs_mem option" where
  "vfs68_mem_create addr name len mode =
    (if len < 0 then None
     else Some \<lparr>mbuf = addr, msize = len, mpos = 0, mmode = mode, mopen = 0, mname = name\<rparr>)"

section \<open>The null device\<close>

record vfs_null =
  nsize :: int
  npos :: int
  nopen :: bool
  nname :: string

definition isn_name :: "vfs_null \<Rightarrow> string option" where
  "isn_name s = (if nname s = [] then None else Some (nname s))"

definition isn_open :: "vfs_null \<Rightarrow> int \<times> vfs_null" where
  "isn_open s = (if nopen s then (-1, s) else (0, s\<lparr>nopen := True, npos := 0, nsize := 0\<rparr>))"

definition isn_close :: "vfs_null \<Rightarrow> int \<times> vfs_null" where
  "isn_close s = (if \<not> nopen s then (-1, s) else (0, s\<lparr>nopen := False\<rparr>))"

definition isn_read_or_write :: "vfs_null \<Rightarrow> int \<Rightarrow> int \<times> vfs_null" where
  "isn_read_or_write s n =
    (if \<not> nopen s \<or> n < 0 then (-1, s)
     else if n \<noteq> 0 then
       let s = s\<lparr>npos := i32 (npos s + n)\<rparr>
       in (n, if npos s > nsize s then s\<lparr>nsize := npos s\<rparr> else s)
     else (n, s))"

text \<open>A read leaves the caller's buffer as it is.\<close>

definition isn_read :: "vfs_null \<Rightarrow> int \<Rightarrow> int \<times> u8 list \<times> vfs_null" where
  "isn_read s n = (let (r, s) = isn_read_or_write s n in (r, [], s))"

definition isn_write :: "vfs_null \<Rightarrow> u8 list \<Rightarrow> int \<Rightarrow> int \<times> vfs_null" where
  "isn_write s data n = isn_read_or_write s n"

definition isn_flush :: "vfs_null \<Rightarrow> int \<times> vfs_null" where
  "isn_flush s = (- of_bool (\<not> nopen s), s)"

definition isn_length :: "vfs_null \<Rightarrow> int" where
  "isn_length s = nsize s"

definition isn_tell :: "vfs_null \<Rightarrow> int" where
  "isn_tell s = (if \<not> nopen s then -1 else npos s)"

definition isn_seek :: "vfs_null \<Rightarrow> int \<Rightarrow> int \<times> vfs_null" where
  "isn_seek s offset =
    (let offset = i32 (offset + npos s)
     in if offset \<ge> 0 then (0, s\<lparr>npos := offset\<rparr>) else (-1, s))"

definition vfs68_null :: "vfs_null vfs" where
  "vfs68_null =
    \<lparr>vname = Some isn_name, vopen = Some isn_open, vclose = Some isn_close,
     vread = Some isn_read, vwrite = Some isn_write, vflush = Some isn_flush,
     vlength = Some isn_length, vtell = Some isn_tell,
     vseekf = Some isn_seek, vseekb = Some isn_seek, vdestroy = Some (\<lambda>s. s)\<rparr>"

section \<open>The abstract byte stream\<close>

type_synonym byte_stream = "u8 list \<times> nat"

definition stream_read :: "nat \<Rightarrow> byte_stream \<Rightarrow> u8 list \<times> byte_stream" where
  "stream_read n = (\<lambda>(d, p). (take n (drop p d), (d, p + min n (size d - p))))"

definition stream_write :: "u8 list \<Rightarrow> byte_stream \<Rightarrow> nat \<times> byte_stream" where
  "stream_write xs = (\<lambda>(d, p).
    let k = min (size xs) (size d - p) in (k, (take p d @ take k xs @ drop (p + k) d, p + k)))"

definition stream_seek :: "int \<Rightarrow> byte_stream \<Rightarrow> byte_stream option" where
  "stream_seek off = (\<lambda>(d, p).
    if 0 \<le> int p + off \<and> int p + off \<le> int (size d) then Some (d, nat (int p + off)) else None)"

text \<open>The contents of the area, and the stream a memory stream stands for.\<close>

definition area :: "vfs_mem \<Rightarrow> u8 list" where
  "area s = map (\<lambda>i. mbuf s (int i)) [0 ..< nat (msize s)]"

definition stream_of :: "vfs_mem \<Rightarrow> byte_stream" where
  "stream_of s = (area s, nat (mpos s))"

text \<open>The bits \<open>m\<close> of the open mode are set, and the position is in the area.\<close>

definition mem_inv :: "int \<Rightarrow> vfs_mem \<Rightarrow> bool" where
  "mem_inv m s \<longleftrightarrow> mopen s AND m = m \<and> 0 \<le> mpos s \<and> mpos s \<le> msize s \<and> msize s < 2 ^ 31 - 1"

lemma size_area [simp]: "size (area s) = nat (msize s)"
  by (simp add: area_def)

lemma nth_area: "i < nat (msize s) \<Longrightarrow> area s ! i = mbuf s (int i)"
  by (simp add: area_def)

lemma area_pos [simp]: "area (s\<lparr>mpos := p\<rparr>) = area s"
  by (simp add: area_def)

lemma take_drop_area:
  assumes "0 \<le> p" "0 \<le> k" "p + k \<le> msize s"
  shows "take (nat k) (drop (nat p) (area s)) = map (\<lambda>i. mbuf s (p + int i)) [0 ..< nat k]"
proof (rule nth_equalityI)
  have "nat p + nat k \<le> nat (msize s)" using assms by linarith
  then show "size (take (nat k) (drop (nat p) (area s))) = size (map (\<lambda>i. mbuf s (p + int i)) [0 ..< nat k])"
    by simp
  fix i assume "i < size (take (nat k) (drop (nat p) (area s)))"
  then have "i < nat k" by simp
  then show "take (nat k) (drop (nat p) (area s)) ! i = map (\<lambda>i. mbuf s (p + int i)) [0 ..< nat k] ! i"
    using assms \<open>nat p + nat k \<le> nat (msize s)\<close> by (simp add: nth_area)
qed

lemma open_bit:
  assumes "mem_inv m s" "m AND b = b" "b \<noteq> 0"
  shows "mopen s AND b \<noteq> 0" "mopen s \<noteq> 0"
proof -
  have "mopen s AND b = (mopen s AND m) AND b" using assms(2) by (simp add: and.assoc)
  also have "mopen s AND m = m" using assms(1) by (simp add: mem_inv_def)
  also note assms(2)
  finally show "mopen s AND b \<noteq> 0" "mopen s \<noteq> 0" using assms(3) by auto
qed

text \<open>Reading and writing without overflow of \<open>pos + n\<close>.\<close>

lemma ism_read_eq:
  assumes "mem_inv m s" "m AND 1 = 1" "0 \<le> n" "mpos s + n < 2 ^ 31"
  defines "k \<equiv> min n (msize s - mpos s)"
  shows "ism_read s n =
    (k, take (nat n) (drop (nat (mpos s)) (area s)), s\<lparr>mpos := mpos s + k\<rparr>)"
proof -
  have inv: "0 \<le> mpos s" "mpos s \<le> msize s" "msize s < 2 ^ 31 - 1" 
    using assms(1) by (simp_all add: mem_inv_def)
  have i32: "i32 (mpos s + n) = mpos s + n" "i32 (msize s - mpos s) = msize s - mpos s"
    using assms(3,4) inv by (simp_all add: i32_id)
  have k: "0 \<le> k" "mpos s + k \<le> msize s" "k \<le> n"
    using assms(3) inv by (simp_all add: k_def)
  have "take (nat n) (drop (nat (mpos s)) (area s)) = take (nat k) (drop (nat (mpos s)) (area s))"
  proof (cases "n \<le> msize s - mpos s")
    case True
    then show ?thesis by (simp add: k_def)
  next
    case False
    then have "size (drop (nat (mpos s)) (area s)) \<le> nat k" "nat k \<le> nat n"
      using inv by (auto simp: k_def)
    then show ?thesis by simp
  qed
  also have "\<dots> = map (\<lambda>i. mbuf s (mpos s + int i)) [0 ..< nat k]"
    by (rule take_drop_area) (use inv k in auto)
  finally have data: "take (nat n) (drop (nat (mpos s)) (area s))
      = map (\<lambda>i. mbuf s (mpos s + int i)) [0 ..< nat k]" .
  show ?thesis
    using open_bit [OF assms(1,2)] assms(3) inv k unfolding data
    by (auto simp: ism_read_def ism_read_or_write_def VFS68_OPEN_READ_def i32 k_def Let_def min_def)
qed

lemma ism_write_eq:
  assumes "mem_inv m s" "m AND 2 = 2" "mpos s + int (size xs) < 2 ^ 31"
    "ism_write s xs (int (size xs)) = (k, t)"
  shows "k = min (int (size xs)) (msize s - mpos s)"
    "t = s\<lparr>mpos := mpos s + k, mbuf := \<lambda>a. if mpos s \<le> a \<and> a < mpos s + k
        then xs ! nat (a - mpos s) else mbuf s a\<rparr>"
proof -
  have inv: "0 \<le> mpos s" "mpos s \<le> msize s" "msize s < 2 ^ 31 - 1" 
    using assms(1) by (simp_all add: mem_inv_def)
  have i32: "i32 (mpos s + int (size xs)) = mpos s + int (size xs)"
    "i32 (msize s - mpos s) = msize s - mpos s"
    using assms(3) inv by (simp_all add: i32_id)
  define l where "l = min (int (size xs)) (msize s - mpos s)"
  have l: "0 \<le> l" using inv by (simp add: l_def)
  have none: "(\<lambda>a. if mpos s \<le> a \<and> a < mpos s + l then f a else mbuf s a) = mbuf s" if "l = 0" for f
    by (rule ext) (use that in auto)
  define T where "T = s\<lparr>mpos := mpos s + l,
      mbuf := \<lambda>a. if mpos s \<le> a \<and> a < mpos s + l then xs ! nat (a - mpos s) else mbuf s a\<rparr>"
  have "ism_write s xs (int (size xs)) = (l, T)"
  proof (cases "xs = []")
    case True
    then have "l = 0" using inv by (simp add: l_def)
    then show ?thesis
      using open_bit [OF assms(1,2)] True none
      by (simp add: ism_write_def ism_read_or_write_def VFS68_OPEN_WRITE_def T_def)
  next
    case False
    then have n: "0 < int (size xs)" by simp
    show ?thesis
    proof (cases "mpos s + int (size xs) > msize s")
      case True
      then have "l = msize s - mpos s" by (simp add: l_def)
      then show ?thesis
        using open_bit [OF assms(1,2)] n True none l
        by (auto simp: ism_write_def ism_read_or_write_def VFS68_OPEN_WRITE_def VFS68_OPEN_READ_def
            i32 T_def Let_def)
    next
      case le: False
      then have "l = int (size xs)" by (simp add: l_def)
      then show ?thesis
        using open_bit [OF assms(1,2)] n le
        by (auto simp: ism_write_def ism_read_or_write_def VFS68_OPEN_WRITE_def VFS68_OPEN_READ_def
            i32 T_def Let_def)
    qed
  qed
  with assms(4) have "k = l" "t = T" by simp_all
  then show "k = min (int (size xs)) (msize s - mpos s)"
    "t = s\<lparr>mpos := mpos s + k, mbuf := \<lambda>a. if mpos s \<le> a \<and> a < mpos s + k
        then xs ! nat (a - mpos s) else mbuf s a\<rparr>"
    by (simp_all add: T_def, simp add: l_def)
qed

lemma ism_write_run:
  assumes "mem_inv m s" "m AND 2 = 2" "mpos s + int (size xs) < 2 ^ 31"
    "ism_write s xs (int (size xs)) = (k, t)"
  shows "mem_inv m t" "mpos t = mpos s + k" "msize t = msize s"
    "area t = take (nat (mpos s)) (area s) @ take (nat k) xs @ drop (nat (mpos s + k)) (area s)"
proof -
  note w = ism_write_eq [OF assms]
  have inv: "0 \<le> mpos s" "mpos s \<le> msize s" "msize s < 2 ^ 31 - 1" 
    using assms(1) by (simp_all add: mem_inv_def)
  have k: "0 \<le> k" "mpos s + k \<le> msize s" "k \<le> int (size xs)" using w(1) inv by simp_all
  show "mem_inv m t" "mpos t = mpos s + k" "msize t = msize s"
    using assms(1) k by (simp_all add: w(2) mem_inv_def)
  define p where "p = nat (mpos s)"
  define j where "j = nat k"
  have pj: "mpos s = int p" "k = int j" using inv k by (simp_all add: p_def j_def)
  then have pj': "p + j \<le> nat (msize s)" "j \<le> size xs" using inv k by simp_all
  show "area t = take (nat (mpos s)) (area s) @ take (nat k) xs @ drop (nat (mpos s + k)) (area s)"
  proof (rule nth_equalityI)
    show "size (area t) = size (take (nat (mpos s)) (area s) @ take (nat k) xs @ drop (nat (mpos s + k)) (area s))"
      using pj pj' by (simp add: w(2) nat_int_add)
    fix i assume "i < size (area t)"
    then have i: "i < nat (msize s)" by (simp add: w(2))
    then show "area t ! i = (take (nat (mpos s)) (area s) @ take (nat k) xs @ drop (nat (mpos s + k)) (area s)) ! i"
      using pj pj' by (auto simp add: w(2) nth_append nth_area nat_int_add nat_diff_distrib)
  qed
qed

section \<open>The contracts of the memory stream\<close>

lemma mem_seekable:
  assumes "m = 1 \<or> m = 2 \<or> m = 3"
  shows "seekable vfs68_mem ism_seek (mem_inv m) mpos (\<lambda>s p. p \<le> msize s) area"
proof
  show "vseekf vfs68_mem = Some ism_seek" "vseekb vfs68_mem = Some ism_seek"
    by (simp_all add: vfs68_mem_def)
next
  fix s assume inv: "mem_inv m s"
  then have "mopen s \<noteq> 0" using open_bit(2) [OF inv, of m] assms by auto
  note op = this
  show "vfs68_tell (Some vfs68_mem) s = mpos s"
    using op by (simp add: vfs68_tell_def vfs_op_def vfs68_mem_def ism_tell_def)
  show "0 \<le> mpos s \<and> mpos s < 2 ^ 31 \<and> mpos s \<le> msize s"
    using inv by (simp add: mem_inv_def)
  fix p :: int
  assume p: "p < 2 ^ 31"
  show "r = 0 \<and> mem_inv m t \<and> mpos t = p \<and> area t = area s"
    if "0 \<le> p" "p \<le> msize s" "ism_seek s (p - mpos s) = (r, t)" for r t
    using that op p inv by (auto simp: ism_seek_def i32_id mem_inv_def)
  show "ism_seek s (p - mpos s) = (-1, s)" if "- (2 ^ 31) \<le> p" "\<not> (0 \<le> p \<and> p \<le> msize s)"
    using that op p by (auto simp: ism_seek_def i32_id)
qed

lemma mem_reader:
  assumes "m = 1 \<or> m = 3"
  shows "reader vfs68_mem ism_seek (mem_inv m) mpos (\<lambda>s p. p \<le> msize s) area"
proof (intro reader.intro reader_axioms.intro mem_seekable)
  show "m = 1 \<or> m = 2 \<or> m = 3" using assms by blast
  fix s assume inv: "mem_inv m s"
  then show "mpos s \<le> int (size (area s)) \<and> int (size (area s)) < 2 ^ 31 - 1"
    by (auto simp: mem_inv_def)
  fix n k d t
  assume n: "0 \<le> n" "mpos s + n < 2 ^ 31" "vfs68_read (Some vfs68_mem) s n = (k, d, t)"
  have bit: "m AND 1 = 1" using assms by auto
  have "ism_read s n = (k, d, t)"
    using n(3) by (simp add: vfs68_read_def vfs_op_def vfs68_mem_def)
  with ism_read_eq [OF inv bit n(1,2)]
  show "d = take (nat n) (drop (nat (mpos s)) (area s)) \<and> k = int (size d) \<and> mem_inv m t \<and>
      area t = area s \<and> mpos t = mpos s + k"
    using inv n(1) by (auto simp: mem_inv_def min_def)
qed

lemma mem_writer:
  assumes "m = 2 \<or> m = 3"
  shows "writer vfs68_mem ism_seek (mem_inv m) mpos (\<lambda>s p. p \<le> msize s) area"
proof (intro writer.intro writer_axioms.intro mem_seekable)
  show "m = 1 \<or> m = 2 \<or> m = 3" using assms by blast
  fix s assume inv: "mem_inv m s"
  then show "mpos s \<le> int (size (area s)) \<and> int (size (area s)) < 2 ^ 31 - 1"
    by (auto simp: mem_inv_def)
  fix xs k t
  assume n: "mpos s + int (size xs) < 2 ^ 31"
    "vfs68_write (Some vfs68_mem) s xs (int (size xs)) = (k, t)"
  have bit: "m AND 2 = 2" using assms by auto
  have w: "ism_write s xs (int (size xs)) = (k, t)"
    using n(2) by (simp add: vfs68_write_def vfs_op_def vfs68_mem_def)
  note run = ism_write_eq(1) [OF inv bit n(1) w] ism_write_run [OF inv bit n(1) w]
  have "int (size (area s)) = msize s" using inv by (simp add: mem_inv_def)
  then show "k = min (int (size xs)) (int (size (area s)) - mpos s) \<and> mem_inv m t \<and> mpos t = mpos s + k \<and>
      area t = take (nat (mpos s)) (area s) @ take (nat k) xs @ drop (nat (mpos s + k)) (area s)"
    using run by simp
qed

interpretation mem_in: reader vfs68_mem ism_seek "mem_inv 1" mpos "\<lambda>s p. p \<le> msize s" area
  by (rule mem_reader) simp

interpretation mem_out: writer vfs68_mem ism_seek "mem_inv 2" mpos "\<lambda>s p. p \<le> msize s" area
  by (rule mem_writer) simp

interpretation mem_io: stored vfs68_mem ism_seek "mem_inv 3" mpos "\<lambda>s p. p \<le> msize s" area
  by (intro stored.intro mem_reader mem_writer) simp_all

section \<open>The null device\<close>

definition null_inv :: "vfs_null \<Rightarrow> bool" where
  "null_inv s \<longleftrightarrow> nopen s \<and> 0 \<le> npos s \<and> npos s < 2 ^ 31"

interpretation null_io: seekable vfs68_null isn_seek null_inv npos "\<lambda>s p. True" nsize
proof
  show "vseekf vfs68_null = Some isn_seek" "vseekb vfs68_null = Some isn_seek"
    by (simp_all add: vfs68_null_def)
next
  fix s assume inv: "null_inv s"
  show "vfs68_tell (Some vfs68_null) s = npos s"
    using inv by (simp add: vfs68_tell_def vfs_op_def vfs68_null_def isn_tell_def null_inv_def)
  show "0 \<le> npos s \<and> npos s < 2 ^ 31 \<and> True"
    using inv by (simp add: null_inv_def)
  fix p :: int
  assume p: "p < 2 ^ 31"
  show "r = 0 \<and> null_inv t \<and> npos t = p \<and> nsize t = nsize s"
    if "0 \<le> p" "isn_seek s (p - npos s) = (r, t)" for r t
    using that p inv by (auto simp: isn_seek_def i32_id null_inv_def)
  show "isn_seek s (p - npos s) = (-1, s)" if "- (2 ^ 31) \<le> p" "\<not> (0 \<le> p \<and> True)"
    using that p by (auto simp: isn_seek_def i32_id)
qed

section \<open>Properties\<close>

text \<open>C27. A memory stream is a byte stream: reading, writing and seeking act on the contents of the
  area and the position as the abstract operations do, and keep the position in the area.\<close>

theorem memory_stream:
  fixes s :: vfs_mem
  assumes "mem_inv 3 s" and "0 \<le> n" "mpos s + n < 2 ^ 31" and "mpos s + int (size xs) < 2 ^ 31"
    and "- (2 ^ 31) \<le> off" "mpos s + off < 2 ^ 31"
  shows "(let (k, d, t) = ism_read s n
      in stream_read (nat n) (stream_of s) = (d, stream_of t) \<and> k = int (size d) \<and> mem_inv 3 t) \<and>
    (let (k, t) = ism_write s xs (int (size xs))
      in stream_write xs (stream_of s) = (nat k, stream_of t) \<and> mem_inv 3 t) \<and>
    (let (r, t) = ism_seek s off
      in stream_seek off (stream_of s) = (if r = 0 then Some (stream_of t) else None) \<and>
         (r = 0 \<or> r = -1 \<and> t = s) \<and> mem_inv 3 t)"
proof (intro conjI)
  have inv: "0 \<le> mpos s" "mpos s \<le> msize s" "mopen s \<noteq> 0"
    using assms(1) open_bit(2) [OF assms(1), of 1] by (simp_all add: mem_inv_def)
  show "let (k, d, t) = ism_read s n
      in stream_read (nat n) (stream_of s) = (d, stream_of t) \<and> k = int (size d) \<and> mem_inv 3 t"
    using ism_read_eq [OF assms(1) _ assms(2,3)] assms(1,2) inv
    by (auto simp: stream_read_def stream_of_def mem_inv_def min_def nat_add_distrib nat_diff_distrib)
  obtain k t where w: "ism_write s xs (int (size xs)) = (k, t)" by fastforce
  have bit: "3 AND 2 = (2 :: int)" by simp
  note run = ism_write_eq(1) [OF assms(1) bit assms(4) w] ism_write_run [OF assms(1) bit assms(4) w]
  show "let (k, t) = ism_write s xs (int (size xs))
      in stream_write xs (stream_of s) = (nat k, stream_of t) \<and> mem_inv 3 t"
  proof -
    have "size (area s) = nat (msize s)" by simp
    with run(1) inv have n: "min (size xs) (size (area s) - nat (mpos s)) = nat k" by linarith
    have p: "nat (mpos s + k) = nat (mpos s) + nat k" using run(1) inv by linarith
    have "stream_write xs (stream_of s) = (nat k, stream_of t)"
      unfolding stream_write_def stream_of_def Let_def split_conv n run(3,5) p by (rule refl)
    then show ?thesis using run(2) by (simp add: w)
  qed
  show "let (r, t) = ism_seek s off
      in stream_seek off (stream_of s) = (if r = 0 then Some (stream_of t) else None) \<and>
         (r = 0 \<or> r = -1 \<and> t = s) \<and> mem_inv 3 t"
    using inv assms(1,5,6)
    by (auto simp: ism_seek_def i32_id stream_seek_def stream_of_def mem_inv_def Let_def)
qed

text \<open>Text written through the interface to a memory stream opened for both, and with room for
  it, is what \<open>vfs68_gets\<close> reads after \<open>vfs68_seek_to\<close> to where it was written.\<close>

theorem memory_text_back:
  fixes s :: vfs_mem
  assumes "mem_inv 3 s" and "0 \<notin> set cs" "10 \<notin> set cs" and "mpos s + int (size cs) \<le> msize s"
  shows "(let (e, t) = vfs68_puts (Some vfs68_mem) s cs;
        (p, u) = vfs68_seek_to (Some vfs68_mem) t (mpos s);
        (k, buf, v) = vfs68_gets (Some vfs68_mem) u (int (size cs) + 1)
      in e = 0 \<and> p = mpos s \<and> k = int (size cs) \<and> buf = cs @ [0])"
proof -
  obtain e t where w: "vfs68_puts (Some vfs68_mem) s cs = (e, t)" by fastforce
  obtain p u where sk: "vfs68_seek_to (Some vfs68_mem) t (mpos s) = (p, u)" by fastforce
  obtain k buf v where g: "vfs68_gets (Some vfs68_mem) u (int (size cs) + 1) = (k, buf, v)"
    by (metis prod_cases3)
  have inv: "0 \<le> mpos s" "mpos s \<le> msize s" using assms(1) by (simp_all add: mem_inv_def)
  then have room: "mpos s + int (size cs) \<le> int (size (area s))" using assms(4) by simp
  note puts = mem_io.puts_data [OF assms(1,2) room w]
  have "nat (mpos s) + size cs \<le> nat (msize s)" using inv assms(4) by linarith
  then have "size (area t) = size (area s)" using puts by simp
  moreover have "0 \<le> msize t" using puts by (simp add: mem_inv_def)
  ultimately have ok: "mpos s \<le> msize t" using inv by simp
  have read: "vread vfs68_mem = Some ism_read" by (simp add: vfs68_mem_def)
  have at_p: "p = mpos s"
    using mem_io.seek_to_in [OF _ _ _ ok sk] puts inv assms(1) by (simp add: mem_inv_def)
  from mem_io.puts_gets_back [OF read assms(1-3) room w ok sk g] at_p show ?thesis
    by (simp add: w sk g)
qed

definition text_area :: vfs_mem where
  "text_area = \<lparr>mbuf = (\<lambda>a. 0), msize = 8, mpos = 2, mmode = 3, mopen = 3, mname = []\<rparr>"

theorem memory_stream_witness:
  "(let (k, d, t) = ism_read text_area 9
      in stream_read 9 (stream_of text_area) = (d, stream_of t) \<and> k = int (size d) \<and> mem_inv 3 t) \<and>
    (let (k, t) = ism_write text_area [1, 2] 2
      in stream_write [1, 2] (stream_of text_area) = (nat k, stream_of t) \<and> mem_inv 3 t) \<and>
    (let (r, t) = ism_seek text_area (-3)
      in stream_seek (-3) (stream_of text_area) = (if r = 0 then Some (stream_of t) else None) \<and>
         (r = 0 \<or> r = -1 \<and> t = text_area) \<and> mem_inv 3 t)"
  using memory_stream [of text_area 9 "[1, 2]" "-3"] by (simp add: text_area_def mem_inv_def)

theorem memory_text_back_witness:
  "(let (e, t) = vfs68_puts (Some vfs68_mem) text_area [0x79, 0x6d];
        (p, u) = vfs68_seek_to (Some vfs68_mem) t 2;
        (k, buf, v) = vfs68_gets (Some vfs68_mem) u 3
      in e = 0 \<and> p = 2 \<and> k = 2 \<and> buf = [0x79, 0x6d, 0])"
  using memory_text_back [of text_area "[0x79, 0x6d]"] by (simp add: text_area_def mem_inv_def)

text \<open>C28. The end position \<open>pos + n\<close> may overflow: a read of more bytes than an \<open>int\<close> can count from
  the position copies \<open>n\<close> bytes, past the end of the area, and leaves a negative position.\<close>

theorem read_past_end:
  fixes s :: vfs_mem
  assumes "mopen s AND 1 \<noteq> 0" and "0 < mpos s" "mpos s \<le> msize s" "msize s < n"
    and "n < 2 ^ 31" "2 ^ 31 \<le> mpos s + n"
  shows "\<exists>d t. ism_read s n = (n, d, t) \<and> int (size d) = n \<and>
    d ! nat (msize s - mpos s) = mbuf s (msize s) \<and> mpos t < 0"
proof -
  define e where "e = i32 (mpos s + n)"
  have "e = mpos s + n - 2 ^ 32"
    using assms(3-6) unfolding e_def i32_def
    by (subst mod_eq_minus_one_step) simp_all
  then have e: "e < 0" "\<not> msize s < e" using assms(2-5) by simp_all
  have n: "0 < n" using assms(2-4) by simp
  have eq: "ism_read s n = (n, map (\<lambda>i. mbuf s (mpos s + int i)) [0 ..< nat n], s\<lparr>mpos := e\<rparr>)"
    using assms(1) n e by (simp add: ism_read_def ism_read_or_write_def VFS68_OPEN_READ_def
        Let_def flip: e_def)
  have "nat (msize s - mpos s) < nat n" using assms(2-4) by simp
  then have "map (\<lambda>i. mbuf s (mpos s + int i)) [0 ..< nat n] ! nat (msize s - mpos s) = mbuf s (msize s)"
    using assms(3) by simp
  then show ?thesis using e n by (simp add: eq)
qed

theorem read_past_end_witness:
  "\<exists>d t. ism_read text_area 0x7fffffff = (0x7fffffff, d, t) \<and> int (size d) = 0x7fffffff \<and>
    d ! 6 = 0 \<and> mpos t < 0"
  using read_past_end [of text_area "0x7fffffff"] by (simp add: text_area_def)

end
