(* ===== verification/Load68.thy ===== *)
theory Load68
  imports Sndh68 Timedb68 Ice68 VfsMem68
begin

text \<open>
  Loading a disk, \<open>file68/src/file68.c\<close> and \<open>file68/src/ice68.c\<close>: the header, the check that
  completes the tracks, \<open>valid\<close>, and \<open>file68_load\<close> over a stream, its four formats included.

  What loading through the gzip stream gives is a parameter: that stream wraps zlib.  Allocations
  succeed; the two buffers of the depacker are at addresses the caller of the model chooses.
\<close>

section \<open>Completing a disk\<close>

definition MIN_TRACK_MS :: s32 where "MIN_TRACK_MS = 45 * 1000"
definition MAX_TRACK_LP :: s32 where "MAX_TRACK_LP = 4"

text \<open>The year four digits make, 0 when it is not one.\<close>

definition is_year :: "cstr \<Rightarrow> int" where
  "is_year s =
    (let d = (\<lambda>i. sint (chr (drop i s)));
         year = (if isdigit (d 0) \<and> isdigit (d 1) \<and> isdigit (d 2) \<and> isdigit (d 3)
                 then (d 0 - 48) * 1000 + (d 1 - 48) * 100 + (d 2 - 48) * 10 + (d 3 - 48) else 0)
     in if year < 1980 \<or> year \<ge> 2100 then 0 else year)"

definition is_aka_char :: "int \<Rightarrow> bool" where
  "is_aka_char c \<longleftrightarrow> c \<ge> 32 \<and> c \<noteq> 41"

text \<open>The loop of \<open>has_parenthesis\<close>, down to an opening parenthesis: where it stops.\<close>

primrec parenthesis_loop :: "cstr \<Rightarrow> nat \<Rightarrow> nat option" where
  "parenthesis_loop name 0 = Some 0"
| "parenthesis_loop name (Suc i) =
    (if Suc i > 1 \<and> name ! Suc i \<noteq> 40
     then if \<not> is_aka_char (sint (name ! Suc i)) then None else parenthesis_loop name i
     else Some (Suc i))"

definition has_parenthesis :: "cstr \<Rightarrow> (nat \<times> nat) option" where
  "has_parenthesis name =
    (let l = size name
     in if l < 5 \<or> name ! (l - 1) \<noteq> 41 then None
        else
          case parenthesis_loop name (l - 2) of None \<Rightarrow> None
          | Some i \<Rightarrow> if i < 2 \<or> i = l - 2 \<or> name ! (i - 1) \<noteq> 32 then None else Some (i, l - 1))"

text \<open>
  A zero written at an offset of a string, and the pointer to one.  The static strings have no
  parenthesis at their end, and a disk that is being loaded has no string of its own.
\<close>

definition cut_at :: "sptr \<Rightarrow> nat \<Rightarrow> disk68 \<Rightarrow> disk68" where
  "cut_at p i mb = (case p of Data k \<Rightarrow> mb\<lparr>ddata := (ddata mb)[k + i := 0]\<rparr> | _ \<Rightarrow> mb)"

fun sptr_add :: "sptr \<Rightarrow> nat \<Rightarrow> sptr" where
  "sptr_add (Data k) i = Data (k + i)"
| "sptr_add (Static s) i = Static (drop i s)"
| "sptr_add (Heap s) i = Heap (drop i s)"

text \<open>The parenthesis at the end of the string \<open>p\<close>.\<close>

definition parenthesis_in :: "disk68 \<Rightarrow> sptr option \<Rightarrow> (sptr \<times> nat \<times> nat) option" where
  "parenthesis_in mb p =
    (case p of None \<Rightarrow> None
     | Some q \<Rightarrow> map_option (Pair q) (has_parenthesis (text_at (ddata mb) q)))"

definition year_in :: "disk68 \<Rightarrow> sptr option \<Rightarrow> (sptr \<times> nat \<times> nat) option" where
  "year_in mb p =
    (case parenthesis_in mb p of None \<Rightarrow> None
     | Some (q, s, e) \<Rightarrow>
         if e - s = 5 \<and> is_year (drop (s + 1) (text_at (ddata mb) q)) \<noteq> 0 then Some (q, s, e) else None)"

definition decode_artist :: "tref \<Rightarrow> disk68 \<Rightarrow> int \<times> disk68" where
  "decode_artist r mb =
    (let id_aka = get_customtag (ddata mb) (tags_of r mb) (Some (c_str ''aka''));
         artist = tag_val (tags_of r mb) TAG68_ID_ARTIST
     in if tag_val (dtags mb) TAG68_ID_GENRE = tagstr ''sc68'' then
          if id_aka \<ge> 0 then (id_aka, mb)
          else
            case parenthesis_in mb artist of None \<Rightarrow> (id_aka, mb)
            | Some (p, s, e) \<Rightarrow>
                if strncmp68 (Some (text_at (ddata mb) p)) (Some (c_str ''unknown'')) 7 = 0 then (id_aka, mb)
                else
                  let mb = cut_at p e (cut_at p (s - 1) mb);
                      (i, ts) = set_customtag (ddata mb) (tags_of r mb) (tagstr ''aka'') (Some (sptr_add p (s + 1)))
                  in (i, set_tags r ts mb)
        else if get_customtag (ddata mb) (dtags mb) (Some (c_str ''year'')) < 0 then
          let found = (case year_in mb (tag_val (tags_of r mb) TAG68_ID_TITLE) of
                         Some f \<Rightarrow> Some f | None \<Rightarrow> year_in mb artist)
          in case found of None \<Rightarrow> (id_aka, mb)
             | Some (p, s, e) \<Rightarrow>
                 let mb = cut_at p e (cut_at p (s - 1) mb)
                 in (id_aka, mb\<lparr>dtags := snd (set_customtag (ddata mb) (dtags mb) (tagstr ''year'')
                                                (Some (sptr_add p (s + 1))))\<rparr>)
        else (id_aka, mb))"

text \<open>A track's defaults, and its time.\<close>

definition valid_time :: "music68 \<Rightarrow> music68" where
  "valid_time m =
    (let m = m\<lparr>has_pic := a0 m = 0, a0 := (if a0 m = 0 then SC68_LOADADDR else a0 m)\<rparr>;
         m = (if frq m = 0 then m\<lparr>frq := 50\<rparr> else m)
     in if first_fr m > 0 then m\<lparr>has_time := True, first_ms := fr_to_ms (first_fr m) (frq m)\<rparr>
        else m\<lparr>has_time := first_ms m > 0, first_fr := ms_to_fr (first_ms m) (frq m)\<rparr>)"

text \<open>What the database of durations knows of track \<open>i\<close> of a SNDH file.\<close>

definition valid_timedb :: "bool \<Rightarrow> s32 \<Rightarrow> nat \<Rightarrow> music68 \<Rightarrow> timedb \<Rightarrow> music68 \<times> timedb" where
  "valid_timedb is_sndh hash i m tdb =
    (if is_sndh \<and> (\<not> has_time m \<or> hwflags m AND SC68_XTD = 0) then
       case timedb68_get hash (of_nat i) tdb of
         (_, Some (frames, flags), tdb) \<Rightarrow>
           (m\<lparr>has_time := True, first_fr := frames, first_ms := fr_to_ms frames (frq m),
              hwflags := SC68_XTD OR
                (if flags AND 16 \<noteq> 0 then SC68_PSG else 0) OR
                (if flags AND 32 \<noteq> 0 then SC68_DMA OR SC68_LMC else 0) OR
                push_bit 5 (flags AND 15)\<rparr>, tdb)
       | (_, None, tdb) \<Rightarrow> (m, tdb)
     else (m, tdb))"

text \<open>The loops: a division by a length of zero milliseconds is a fault.\<close>

definition valid_loop :: "music68 \<Rightarrow> music68 run" where
  "valid_loop m =
    (let m = (if has_loop m then m\<lparr>loops_ms := fr_to_ms (loops_fr m) (frq m)\<rparr>
              else m\<lparr>loops_fr := first_fr m, loops_ms := first_ms m\<rparr>)
     in if loops_fr m = 0 then Good (m\<lparr>loops := 1\<rparr>)
        else if loops m = 0 then
          if first_ms m < MIN_TRACK_MS \<and> loops_ms m = 0 then Fault
          else
            let n = 1 + (if first_ms m < MIN_TRACK_MS
                         then (MIN_TRACK_MS - first_ms m + drop_bit 1 (loops_ms m)) div loops_ms m else 0)
            in Good (m\<lparr>loops := (if n > MAX_TRACK_LP then MAX_TRACK_LP else n)\<rparr>)
        else Good m)"

text \<open>What is inherited from track to track, and what all tracks have.\<close>

record inherit68 =
  ititle :: "sptr option"
  iartist :: "sptr option"
  ialias :: "sptr option"
  idata :: "nat option"
  idatasz :: s32
  ixtd :: s32
  itimes :: nat

definition put_music :: "nat \<Rightarrow> music68 \<Rightarrow> disk68 \<Rightarrow> disk68" where
  "put_music i m mb = mb\<lparr>mus := (mus mb)[i := m]\<rparr>"

definition set_val :: "tref \<Rightarrow> nat \<Rightarrow> sptr option \<Rightarrow> disk68 \<Rightarrow> disk68" where
  "set_val r k v mb = set_tags r (put_val k v (tags_of r mb)) mb"

text \<open>The alias a call of \<open>decode_artist\<close> gives.\<close>

definition alias_of :: "tref \<Rightarrow> disk68 \<Rightarrow> sptr option \<times> disk68" where
  "alias_of r mb =
    (let (i, mb) = decode_artist r mb in (if i < 0 then None else tag_val (tags_of r mb) (nat i), mb))"

text \<open>The numbers of track \<open>i\<close>, and the disk's time and flags.\<close>

definition valid_numbers :: "nat \<Rightarrow> disk68 \<Rightarrow> inherit68 \<Rightarrow> timedb \<Rightarrow> (disk68 \<times> inherit68) run \<times> timedb" where
  "valid_numbers i mb st tdb =
    (let is_sndh = tag_val (dtags mb) TAG68_ID_GENRE = tagstr ''sndh'';
         (m, tdb) = valid_timedb is_sndh (hash68 mb) i (valid_time (mus mb ! i)) tdb
     in (bindr (valid_loop m) (\<lambda>m.
           let (m, mb, st) =
                 (if sint (loops m) > 0
                  then (m, mb\<lparr>time_ms := time_ms mb + fr_to_ms (first_fr m + loops_fr m * (loops m - 1)) (frq m)\<rparr>,
                        st\<lparr>itimes := itimes st + 1\<rparr>)
                  else (m\<lparr>loops := 0\<rparr>, mb, st));
               m = (if hwflags m = 0 then m\<lparr>hwflags := SC68_PSG\<rparr> else m)
           in Good (put_music i m (mb\<lparr>dhwflags := dhwflags mb OR hwflags m\<rparr>),
                    st\<lparr>ixtd := ixtd st AND (hwflags m AND SC68_XTD)\<rparr>)), tdb))"

text \<open>Its strings, and its data.\<close>

definition valid_strings :: "nat \<Rightarrow> disk68 \<Rightarrow> inherit68 \<Rightarrow> disk68 \<times> inherit68" where
  "valid_strings i mb st =
    (let r = Track i;
         mb = (if tag_val (tags_of r mb) TAG68_ID_GENRE = None
               then set_val r TAG68_ID_GENRE
                      (if hwflags (mus mb ! i) AND SC68_AGA \<noteq> 0 then tagstr ''Amiga chiptune''
                       else tagstr ''Atari-ST chiptune'') mb else mb);
         (mb, st) = (case tag_val (tags_of r mb) TAG68_ID_TITLE of
                       None \<Rightarrow> (set_val r TAG68_ID_TITLE (ititle st) mb, st)
                     | t \<Rightarrow> (mb, st\<lparr>ititle := t\<rparr>))
     in case tag_val (tags_of r mb) TAG68_ID_ARTIST of
          None \<Rightarrow>
            let mb = set_val r TAG68_ID_ARTIST (iartist st) mb
            in (if ialias st = None then mb
                else set_tags r (snd (set_customtag (ddata mb) (tags_of r mb) (tagstr ''aka'') (ialias st))) mb, st)
        | a \<Rightarrow>
            let (al, mb) = alias_of r mb in (mb, st\<lparr>iartist := a, ialias := al\<rparr>))"

definition valid_data :: "nat \<Rightarrow> disk68 \<Rightarrow> inherit68 \<Rightarrow> (disk68 \<times> inherit68) run" where
  "valid_data i mb st =
    (let m = mus mb ! i;
         m = (if mdata m = None then m\<lparr>mdata := idata st, mdatasz := idatasz st\<rparr> else m)
     in if mdata m = None then Failed
        else Good (put_music i m mb, st\<lparr>idata := mdata m, idatasz := mdatasz m\<rparr>))"

primrec valid_tracks :: "nat \<Rightarrow> nat \<Rightarrow> disk68 \<Rightarrow> inherit68 \<Rightarrow> timedb \<Rightarrow> (disk68 \<times> inherit68) run \<times> timedb" where
  "valid_tracks 0 i mb st tdb = (Good (mb, st), tdb)"
| "valid_tracks (Suc n) i mb st tdb =
    (let (r, tdb) = valid_numbers i mb st tdb
     in case bindr r (\<lambda>(mb, st). let (mb, st) = valid_strings i mb st in valid_data i mb st) of
          Good (mb, st) \<Rightarrow> valid_tracks n (Suc i) mb st tdb
        | Failed \<Rightarrow> (Failed, tdb)
        | Fault \<Rightarrow> (Fault, tdb))"

definition valid :: "disk68 \<Rightarrow> timedb \<Rightarrow> disk68 run \<times> timedb" where
  "valid mb tdb =
    (if nb_mus mb \<le> 0 then (Failed, tdb)
     else
       let mb = (if sint (def_mus mb) < 0 \<or> sint (def_mus mb) \<ge> nb_mus mb then mb\<lparr>def_mus := 0\<rparr> else mb);
           mb = (if tag_val (dtags mb) TAG68_ID_TITLE = None
                 then set_val Album TAG68_ID_TITLE (tagstr ''n/a'') mb else mb);
           title = tag_val (dtags mb) TAG68_ID_TITLE;
           artist = (case tag_val (dtags mb) TAG68_ID_ARTIST of None \<Rightarrow> tagstr ''n/a'' | a \<Rightarrow> a);
           (aalias, mb) = alias_of Album mb;
           (r, tdb) = valid_tracks (nat (nb_mus mb)) 0 (mb\<lparr>time_ms := 0, dhwflags := 0\<rparr>)
             \<lparr>ititle = title, iartist = artist, ialias = aalias, idata = None, idatasz = 0,
              ixtd = SC68_XTD, itimes = 0\<rparr> tdb
       in (bindr r (\<lambda>(mb, st).
             let t = mus mb ! unat (def_mus mb);
                 mb = (if tag_val (dtags mb) TAG68_ID_ARTIST = None then
                         let mb = set_val Album TAG68_ID_ARTIST (tag_val (mtags t) TAG68_ID_ARTIST) mb;
                             i = get_customtag (ddata mb) (mtags t) (Some (c_str ''aka''))
                         in if i \<ge> 0
                            then mb\<lparr>dtags := snd (set_customtag (ddata mb) (dtags mb) (tagstr ''aka'')
                                                    (tag_val (mtags t) (nat i)))\<rparr>
                            else mb
                       else mb);
                 mb = (if int (itimes st) \<noteq> nb_mus mb then mb\<lparr>time_ms := 0\<rparr> else mb)
             in Good (mb\<lparr>dhwflags := dhwflags mb OR ixtd st\<rparr>)), tdb))"

section \<open>Reading\<close>

text \<open>The hash of what is read.\<close>

definition hash_byte :: "u8 \<Rightarrow> s32 \<Rightarrow> s32" where
  "hash_byte k h = (let h = h + ucast k; h = h + push_bit 10 h in h XOR drop_bit 6 h)"

definition isread :: "'s vfs option \<Rightarrow> int \<Rightarrow> s32 \<Rightarrow> 's \<Rightarrow> int \<times> u8 list \<times> s32 \<times> 's" where
  "isread V len h s =
    (let (read, d, s) = vfs68_read V s len
     in (read, d, if read > 0 then fold hash_byte (take (nat read) d) h else h, s))"

text \<open>The buffer \<open>ids\<close> holds what has been read; the result is whether there is enough.\<close>

definition ensure_header :: "'s vfs option \<Rightarrow> u8 list \<Rightarrow> nat \<Rightarrow> s32 \<Rightarrow> 's \<Rightarrow> bool \<times> u8 list \<times> s32 \<times> 's" where
  "ensure_header V ids need h s =
    (if size ids < need then
       let miss = int need - int (size ids);
           (read, d, h, s) = isread V miss h s
       in (read = miss, ids @ d, h, s)
     else (True, ids, h, s))"

definition gzip_is_magic :: "u8 list \<Rightarrow> bool" where
  "gzip_is_magic b \<longleftrightarrow> byte_at b 0 = 0x1f \<and> byte_at b 1 = 0x8b \<and> byte_at b 2 = 8"

definition ice_is_magic :: "u8 list \<Rightarrow> bool" where
  "ice_is_magic b \<longleftrightarrow>
    byte_at b 0 = 73 \<and> byte_at b 1 OR 0x20 = 99 \<and> byte_at b 2 OR 0x20 = 101 \<and> byte_at b 3 = 33"

text \<open>The data to read, or the kind of file it is instead.\<close>

datatype header68 = Sc68 int | Gzip | Ice | Sndh

text \<open>The base chunk, after the identification.\<close>

definition base_chunk :: "'s vfs option \<Rightarrow> s32 \<Rightarrow> 's \<Rightarrow> header68 run \<times> s32 \<times> 's" where
  "base_chunk V h s =
    (let (r, d, h, s) = isread V 4 h s
     in if r \<noteq> 4 \<or> d \<noteq> c_str ''SC68'' then (Failed, h, s)
        else
          let (r, d, h, s) = isread V 4 h s; have = sint (LPeek d 0)
          in if r \<noteq> 4 \<or> have \<le> 8 then (Failed, h, s) else (Good (Sc68 (have - 8)), h, s))"

definition read_header :: "'s vfs option \<Rightarrow> s32 \<Rightarrow> 's \<Rightarrow> header68 run \<times> s32 \<times> 's" where
  "read_header V h s =
    (let (ok, b, h, s) = ensure_header V [] 8 h s
     in if \<not> ok then (Failed, h, s)
        else if take 8 b = take 8 file68_idstr_v1 then
          let (ok, b, h, s) = ensure_header V b 56 h s
          in if \<not> ok \<or> b \<noteq> file68_idstr_v1 then (Failed, h, s) else base_chunk V h s
        else if take 8 b = file68_idstr_v2 then base_chunk V h s
        else
          let (ok, b, h, s) = ensure_header V b 32 h s
          in if \<not> ok then (Failed, h, s)
             else if gzip_is_magic b then (Good Gzip, h, s)
             else if ice_is_magic b then (Good Ice, h, s)
             else
               (bindr (sndh_is_magic b 32) (\<lambda>(i, _). if i \<noteq> 0 then Good Sndh else Failed), h, s))"

text \<open>
  A packed file, with what \<open>malloc\<close> gives for its two sizes: the memory and the addresses of the
  buffers.  \<open>None\<close> inside is the null pointer.
\<close>

type_synonym allocator = "int \<Rightarrow> int \<Rightarrow> (int \<Rightarrow> u8) \<times> int \<times> int"

definition put_bytes :: "int \<Rightarrow> u8 list \<Rightarrow> (int \<Rightarrow> u8) \<Rightarrow> int \<Rightarrow> u8" where
  "put_bytes a d m = (\<lambda>i. if a \<le> i \<and> i < a + int (size d) then d ! nat (i - a) else m i)"

definition file68_ice_load :: "allocator \<Rightarrow> 's vfs option \<Rightarrow> 's \<Rightarrow> (u8 list option \<times> 's) option" where
  "file68_ice_load alloc V s =
    (let (r, header, s) = vfs68_read V s 12
     in if r \<noteq> 12 then Some (None, s)
        else
          let (dsize, csize) = unice68_depacked_size (put_bytes 0 header (\<lambda>_. 0)) 0 (Some 0);
              n = sint (the csize)
          in if sint dsize < 0 then Some (None, s)
             else
               let (m, inbuf, outbuf) = alloc n (sint dsize);
                   (r, d, s) = vfs68_read V s (n - 12)
               in if r \<noteq> n - 12 then Some (None, s)
                  else
                    map_option (\<lambda>(r, m).
                      (if r \<noteq> 0 then None
                       else Some (map (\<lambda>i. m (outbuf + int i)) [0 ..< unat dsize]), s))
                      (unice68_depacker (put_bytes inbuf (header @ d) m) outbuf inbuf))"

section \<open>The loader\<close>

text \<open>What \<open>file68_load\<close> comes to, before another stream has to be loaded.\<close>

datatype 's load_step = Ended "disk68 run" 's timedb | Unpacked "u8 list" 's | Zipped 's

text \<open>The check of a disk that has been read.\<close>

definition checked :: "s32 \<Rightarrow> disk68 run \<Rightarrow> 's \<Rightarrow> timedb \<Rightarrow> 's load_step" where
  "checked h r s tdb =
    (case r of
       Good mb \<Rightarrow> (let (r, tdb) = valid (mb\<lparr>hash68 := h\<rparr>) tdb in Ended r s tdb)
     | _ \<Rightarrow> Ended r s tdb)"

definition new_disk :: "u8 list \<Rightarrow> string \<Rightarrow> disk68" where
  "new_disk d genre = set_val Album TAG68_ID_GENRE (tagstr genre) (alloc_disk d)"

definition load_sc68 :: "'s vfs option \<Rightarrow> int \<Rightarrow> s32 \<Rightarrow> 's \<Rightarrow> timedb \<Rightarrow> 's load_step option" where
  "load_sc68 V len h s tdb =
    (let (r, d, h, s) = isread V len h s
     in if r \<noteq> len then Some (Ended Failed s tdb)
        else map_option (\<lambda>r. checked h r s tdb) (load_loop 0 len (new_disk d ''sc68'', None)))"

definition load_sndh :: "'s vfs option \<Rightarrow> s32 \<Rightarrow> 's \<Rightarrow> timedb \<Rightarrow> 's load_step option" where
  "load_sndh V h s tdb =
    (let (p, s) = vfs68_seek_to V s 0; len = vfs68_length V s
     in if p \<noteq> 0 \<or> len \<le> 32 \<or> len > 2 ^ 21 then Some (Ended Failed s tdb)
        else
          let (r, d, h, s) = isread V len h s
          in if r \<noteq> len then Some (Ended Failed s tdb)
             else map_option (\<lambda>r. checked h r s tdb) (sndh_info (new_disk d ''sndh'') len))"

definition load_step :: "allocator \<Rightarrow> 's vfs option \<Rightarrow> 's \<Rightarrow> timedb \<Rightarrow> 's load_step option" where
  "load_step alloc V s tdb =
    (case read_header V 0 s of
       (Failed, h, s) \<Rightarrow> Some (Ended Failed s tdb)
     | (Fault, h, s) \<Rightarrow> Some (Ended Fault s tdb)
     | (Good (Sc68 len), h, s) \<Rightarrow> load_sc68 V len h s tdb
     | (Good Gzip, h, s) \<Rightarrow>
         (let (p, s) = vfs68_seek_to V s 0
          in Some (if p = 0 then Zipped s else Ended Failed s tdb))
     | (Good Ice, h, s) \<Rightarrow>
         (let (p, s) = vfs68_seek_to V s 0
          in if p \<noteq> 0 then Some (Ended Failed s tdb)
             else map_option (\<lambda>(b, s). case b of None \<Rightarrow> Ended Failed s tdb | Some d \<Rightarrow> Unpacked d s)
                    (file68_ice_load alloc V s))
     | (Good Sndh, h, s) \<Rightarrow> load_sndh V h s tdb)"

text \<open>A disk in memory; \<open>gz\<close> is what loading through the gzip stream gives.\<close>

definition mem_stream :: "u8 list \<Rightarrow> vfs_mem" where
  "mem_stream buf = snd (vfs68_open (Some vfs68_mem)
    (the (vfs68_mem_create (\<lambda>a. byte_at buf (nat a)) [] (int (size buf)) VFS68_OPEN_READ)))"

partial_function (option) file68_load_mem ::
    "allocator \<Rightarrow> (vfs_mem \<Rightarrow> timedb \<Rightarrow> (disk68 run \<times> timedb) option) \<Rightarrow> u8 list \<Rightarrow> timedb \<Rightarrow>
      (disk68 run \<times> timedb) option" where
  "file68_load_mem alloc gz buf tdb =
    (case load_step alloc (Some vfs68_mem) (mem_stream buf) tdb of
       None \<Rightarrow> None
     | Some l \<Rightarrow>
         (case l of Ended r s tdb \<Rightarrow> Some (r, tdb)
          | Unpacked b s \<Rightarrow> file68_load_mem alloc gz b tdb
          | Zipped s \<Rightarrow> gz s tdb))"

definition file68_load ::
    "allocator \<Rightarrow> (vfs_mem \<Rightarrow> timedb \<Rightarrow> (disk68 run \<times> timedb) option) \<Rightarrow>
      ('s \<Rightarrow> timedb \<Rightarrow> (disk68 run \<times> timedb) option) \<Rightarrow> 's vfs option \<Rightarrow> 's \<Rightarrow> timedb \<Rightarrow>
      (disk68 run \<times> timedb) option" where
  "file68_load alloc gzm gz V s tdb =
    (case load_step alloc V s tdb of
       None \<Rightarrow> None
     | Some (Ended r s tdb) \<Rightarrow> Some (r, tdb)
     | Some (Unpacked b s) \<Rightarrow> file68_load_mem alloc gzm b tdb
     | Some (Zipped s) \<Rightarrow> gz s tdb)"

section \<open>Saving to a stream\<close>

text \<open>
  \<open>file68_save\<close>, with the total length taken from a null stream; \<open>gz\<close> opens a gzip stream over
  the other, when that is asked for.
\<close>

definition null_stream :: vfs_null where
  "null_stream = \<lparr>nsize = 0, npos = 0, nopen = False, nname = []\<rparr>"

definition file68_save ::
    "('s \<Rightarrow> int \<Rightarrow> int \<times> 's vfs option \<times> 's) \<Rightarrow> 's vfs option \<Rightarrow> disk68 \<Rightarrow> int \<Rightarrow> int \<Rightarrow> 's \<Rightarrow> int \<times> 's" where
  "file68_save gz os mb version gzip s =
    (let (e, n) = vfs68_open (Some vfs68_null) null_stream
     in if e \<noteq> 0 then (-1, s)
        else
          let (fail, n) = save_sc68 (Some vfs68_null) mb 0 version n;
              len = vfs68_length (Some vfs68_null) n - int (size (get_header version))
          in if fail \<or> len \<le> 0 then (-1, s)
             else
               let (e, os, s) = (if gzip \<noteq> 0 then gz s gzip else (0, os, s))
               in if e \<noteq> 0 then (-1, if gzip \<noteq> 0 then vfs68_destroy os s else s)
                  else
                    let (fail, s) = save_sc68 os mb len version s;
                        s = (if gzip \<noteq> 0 then vfs68_destroy os s else s)
                    in (- of_bool fail, s))"

text \<open>The stream \<open>file68_save_mem\<close> makes is written to, and never opened.\<close>

definition file68_save_mem ::
    "(vfs_mem \<Rightarrow> int \<Rightarrow> int \<times> vfs_mem vfs option \<times> vfs_mem) \<Rightarrow> (int \<Rightarrow> u8) \<Rightarrow> int \<Rightarrow> disk68 \<Rightarrow> int \<Rightarrow> int \<Rightarrow>
      int \<times> vfs_mem option" where
  "file68_save_mem gz buffer len mb version gzip =
    (case vfs68_mem_create buffer [] len VFS68_OPEN_WRITE of
       None \<Rightarrow> (-1, None)
     | Some s \<Rightarrow>
         let (err, s) = file68_save gz (Some vfs68_mem) mb version gzip s
         in (err, Some (vfs68_destroy (Some vfs68_mem) s)))"

end
