(* ===== verification/Chunk68.thy ===== *)
theory Chunk68
  imports Load68
begin

unbundle bit_operations_syntax

text \<open>
  What saving and loading promise together: the chunks a disk consists of, the bytes they are
  written as, and what reading them makes of a disk.

  An album is a disk as its texts and bytes, without pointers.  \<open>step_album\<close> says what one chunk
  adds to an album; the loader implements it on the data it has read, and the writer writes the
  chunks of the disk into every stream that meets the contract \<open>sink\<close>, of which the memory stream
  and the null device are instances.
\<close>

section \<open>Numbers and strings in the data\<close>

lemma byte_at_drop: "byte_at (drop b d) i = byte_at d (b + i)"
  by (auto simp: byte_at_def add.commute less_diff_conv)

lemma LPeek_drop: "LPeek d b = LPeek (drop b d) 0"
  by (simp add: LPeek_def byte_at_drop)

lemma cstr_at_drop: "cstr_at d b = cstr_at (drop b d) 0"
  by (simp add: cstr_at_def)

lemma plus_or: "a AND b = 0 \<Longrightarrow> a + b = a OR b" for a b :: "'a::len word"
  using word_plus_and_or [of a b] by simp

lemma bytes_word: "ucast (ucast v :: u8) + push_bit 8 (ucast (ucast (signed_drop_bit 8 v) :: u8)) +
    push_bit 16 (ucast (ucast (signed_drop_bit 16 v) :: u8)) + push_bit 24 (scast (ucast (signed_drop_bit 24 v) :: u8)) = v"
  (is "?a + ?b + ?c + ?d = v") for v :: s32
proof -
  have "?a AND ?b = 0" by (rule bit_word_eqI) (auto simp: bit_simps)
  note 1 = plus_or [OF this]
  have "(?a OR ?b) AND ?c = 0" by (rule bit_word_eqI) (auto simp: bit_simps)
  note 2 = plus_or [OF this]
  have "((?a OR ?b) OR ?c) AND ?d = 0" by (rule bit_word_eqI) (auto simp: bit_simps)
  note 3 = plus_or [OF this]
  have "((?a OR ?b) OR ?c) OR ?d = v"
  proof (rule bit_word_eqI)
    fix n assume "n < LENGTH(32)"
    then consider "n < 8" | "8 \<le> n" "n < 16" | "16 \<le> n" "n < 24" | "24 \<le> n" "n < 32" by fastforce
    then show "bit (((?a OR ?b) OR ?c) OR ?d) n = bit v n"
      by cases (simp_all add: bit_simps, (rule conjI impI | linarith | (auto; fail))+)
  qed
  then show ?thesis by (simp only: 1 2 3)
qed

lemma LPeek_LPoke [simp]: "LPeek (LPoke v @ r) 0 = v"
  using bytes_word [of v] by (simp add: LPeek_def LPoke_def byte_at_def)

lemma size_LPoke [simp]: "size (LPoke v) = 4"
  by (simp add: LPoke_def)

lemma cstr_at_string: "0 \<notin> set x \<Longrightarrow> cstr_at (x @ 0 # r) 0 = x"
  by (simp add: cstr_at_def takeWhile_append)

section \<open>Chunks\<close>

text \<open>A chunk and its contents: a number, a string, a tag, a mark without contents, music data.\<close>

datatype chunk =
    Num string s32
  | Txt string cstr
  | Tag cstr cstr
  | Mark string
  | Bytes "u8 list"

fun chunk_id :: "chunk \<Rightarrow> cstr" where
  "chunk_id (Num c v) = c_str c"
| "chunk_id (Txt c x) = c_str c"
| "chunk_id (Tag k v) = c_str ''TG''"
| "chunk_id (Mark c) = c_str c"
| "chunk_id (Bytes p) = c_str ''DA''"

fun contents :: "chunk \<Rightarrow> u8 list" where
  "contents (Num c v) = LPoke v"
| "contents (Txt c x) = x @ [0]"
| "contents (Tag k v) = k @ [0] @ v @ [0]"
| "contents (Mark c) = []"
| "contents (Bytes p) = p"

text \<open>Contents of odd size are followed by a zero, which counts.\<close>

definition padded :: "u8 list \<Rightarrow> u8 list" where
  "padded p = p @ replicate (size p mod 2) 0"

definition chunk_head :: "cstr \<Rightarrow> s32 \<Rightarrow> u8 list" where
  "chunk_head c n = c_str ''SC'' @ c @ LPoke n"

definition chunk_bytes :: "chunk \<Rightarrow> u8 list" where
  "chunk_bytes c = chunk_head (chunk_id c) (word_of_nat (size (padded (contents c)))) @ padded (contents c)"

definition layout :: "chunk list \<Rightarrow> u8 list" where
  "layout cs = concat (map chunk_bytes cs)"

lemma layout_simps [simp]:
  "layout [] = []" "layout (c # cs) = chunk_bytes c @ layout cs" "layout (cs @ cs') = layout cs @ layout cs'"
  by (simp_all add: layout_def)

section \<open>The chunks of a disk\<close>

definition txt_chunk :: "string \<Rightarrow> cstr option \<Rightarrow> chunk list" where
  "txt_chunk c s = (case s of None \<Rightarrow> [] | Some x \<Rightarrow> if x = [] then [] else [Txt c x])"

definition num_chunk :: "string \<Rightarrow> s32 \<Rightarrow> chunk list" where
  "num_chunk c n = (if n = 0 then [] else [Num c n])"

type_synonym texts = "(cstr option \<times> cstr option) list"

definition texts_of :: "u8 list \<Rightarrow> tagset68 \<Rightarrow> texts" where
  "texts_of d ts = map (\<lambda>(k, v). (text_of d k, text_of d v)) ts"

text \<open>The tags that are written: both strings are there and not empty.\<close>

fun full_tags :: "texts \<Rightarrow> (cstr \<times> cstr) list" where
  "full_tags [] = []"
| "full_tags ((Some (k # ks), Some (v # vs)) # tt) = (k # ks, v # vs) # full_tags tt"
| "full_tags (_ # tt) = full_tags tt"

definition tag_chunks :: "texts \<Rightarrow> chunk list" where
  "tag_chunks tt = map (\<lambda>(k, v). Tag k v) (full_tags (drop TAG68_ID_CUSTOM tt))"

definition data_of :: "u8 list \<Rightarrow> music68 \<Rightarrow> u8 list option" where
  "data_of d m = map_option (\<lambda>k. take (unat (mdatasz m)) (drop k d)) (mdata m)"

definition differs :: "cstr option \<Rightarrow> cstr option \<Rightarrow> cstr option" where
  "differs s old = (if s = old then None else s)"

definition or_else :: "'a option \<Rightarrow> 'a option \<Rightarrow> 'a option" where
  "or_else a b = (if a = None then b else a)"

type_synonym before = "cstr option \<times> cstr option \<times> nat option"

definition next_before :: "u8 list \<Rightarrow> before \<Rightarrow> music68 \<Rightarrow> before" where
  "next_before d = (\<lambda>(title, artist, p) m.
    (or_else (text_of d (tag_val (mtags m) TAG68_ID_TITLE)) title,
     or_else (text_of d (tag_val (mtags m) TAG68_ID_ARTIST)) artist,
     or_else (mdata m) p))"

definition music_chunks :: "u8 list \<Rightarrow> before \<Rightarrow> music68 \<Rightarrow> chunk list" where
  "music_chunks d = (\<lambda>(title, artist, p) m.
    [Mark ''MU''] @
    txt_chunk ''MN'' (differs (text_of d (tag_val (mtags m) TAG68_ID_TITLE)) title) @
    txt_chunk ''AN'' (differs (text_of d (tag_val (mtags m) TAG68_ID_ARTIST)) artist) @
    tag_chunks (texts_of d (mtags m)) @
    txt_chunk ''RE'' (text_of d (replay m)) @
    num_chunk ''D0'' (d0 m) @
    num_chunk ''AT'' (of_bool (\<not> has_pic m) * a0 m) @
    num_chunk ''FQ'' (of_bool (frq m \<noteq> 50) * frq m) @
    num_chunk ''FR'' (of_bool (has_time m) * first_fr m) @
    num_chunk ''LP'' (of_bool (has_loop m) * loops m) @
    (if has_loop m then [Num ''LF'' (loops_fr m)] else []) @
    [Num ''TY'' (hwflags m)] @
    (if has_sfx m then [Mark ''FX''] else []) @
    (case data_of d m of None \<Rightarrow> [] | Some x \<Rightarrow> if mdata m = p then [] else [Bytes x]))"

fun musics_chunks :: "u8 list \<Rightarrow> before \<Rightarrow> music68 list \<Rightarrow> chunk list" where
  "musics_chunks d p [] = []"
| "musics_chunks d p (m # ms) = music_chunks d p m @ musics_chunks d (next_before d p m) ms"

definition tracks_of :: "disk68 \<Rightarrow> music68 list" where
  "tracks_of mb = take (nat (nb_mus mb)) (mus mb)"

definition disk_chunks :: "disk68 \<Rightarrow> chunk list" where
  "disk_chunks mb =
    (let d = ddata mb;
         album = text_of d (tag_val (dtags mb) TAG68_ID_TITLE);
         artist = text_of d (tag_val (dtags mb) TAG68_ID_ARTIST)
     in txt_chunk ''FN'' (not_noname album) @ txt_chunk ''AN'' (not_noname artist) @
        num_chunk ''DF'' (def_mus mb) @ tag_chunks (texts_of d (dtags mb)) @
        musics_chunks d (album, artist, None) (tracks_of mb))"

section \<open>Streams that take what is written\<close>

text \<open>
  The contract of a stream that is saved to: while there is room, a write takes all its bytes.
  \<open>out\<close> is what can be observed of them, \<open>add\<close> how a write adds to it.
\<close>

locale sink =
  fixes V :: "'s vfs" and inv :: "'s \<Rightarrow> bool" and room :: "'s \<Rightarrow> nat" and out :: "'s \<Rightarrow> 'o"
    and add :: "'o \<Rightarrow> u8 list \<Rightarrow> 'o"
  assumes write_all: "inv s \<Longrightarrow> size xs \<le> room s \<Longrightarrow> vfs68_write (Some V) s xs (int (size xs)) = (k, t) \<Longrightarrow>
      k = int (size xs) \<and> inv t \<and> room t = room s - size xs \<and> out t = add (out s) xs"
    and add_nil: "add x [] = x"
    and add_append: "add (add x p) q = add x (p @ q)"
begin

text \<open>The stream has taken the bytes; a routine that writes them, with the result \<open>r\<close>.\<close>

definition took :: "u8 list \<Rightarrow> 's \<Rightarrow> 's \<Rightarrow> bool" where
  "took B s t \<longleftrightarrow> inv t \<and> size B \<le> room s \<and> room t = room s - size B \<and> out t = add (out s) B"

definition saves :: "('s \<Rightarrow> 'r \<times> 's) \<Rightarrow> 'r \<Rightarrow> u8 list \<Rightarrow> bool" where
  "saves f r B \<longleftrightarrow> (\<forall>s. inv s \<longrightarrow> size B \<le> room s \<longrightarrow> (\<exists>t. f s = (r, t) \<and> took B s t))"

lemma savesD:
  assumes "saves f r B" "inv s" "size B \<le> room s"
  obtains t where "f s = (r, t)" "took B s t"
  using assms by (auto simp: saves_def)

lemma took_nil: "inv s \<Longrightarrow> took [] s s"
  by (simp add: took_def add_nil)

lemma took_trans: "took A s t \<Longrightarrow> took B t u \<Longrightarrow> took (A @ B) s u"
  by (auto simp: took_def add_append)

lemma took_room: "took A s t \<Longrightarrow> size (A @ B) \<le> room s \<Longrightarrow> inv t \<and> size B \<le> room t"
  by (auto simp: took_def)

lemma write_took:
  assumes "inv s" "size xs \<le> room s" "n = int (size xs)"
  obtains t where "vfs68_write (Some V) s xs n = (n, t)" "took xs s t"
proof -
  obtain k t where w: "vfs68_write (Some V) s xs n = (k, t)" by fastforce
  from write_all [OF assms(1,2) w [unfolded assms(3)]] show thesis
    using w that assms by (auto simp: took_def)
qed

lemma save_all_saves:
  "list_all2 (\<lambda>f B. saves f 0 B) fs Bs \<Longrightarrow> saves (save_all fs) False (concat Bs)"
proof (induction fs Bs rule: list_all2_induct)
  case Nil
  then show ?case by (simp add: saves_def took_nil)
next
  case (Cons f fs B Bs)
  show ?case unfolding saves_def
  proof (intro allI impI)
    fix s assume s: "inv s" "size (concat (B # Bs)) \<le> room s"
    then have "size B \<le> room s" by simp
    with Cons.hyps(1) s(1) obtain t where t: "f s = (0, t)" "took B s t" by (rule savesD)
    have "inv t" "size (concat Bs) \<le> room t" using took_room [OF t(2)] s(2) by auto
    with Cons.IH obtain u where u: "save_all fs t = (False, u)" "took (concat Bs) t u" by (rule savesD)
    show "\<exists>u. save_all (f # fs) s = (False, u) \<and> took (concat (B # Bs)) s u"
      using t u took_trans [OF t(2) u(2)] by simp
  qed
qed

lemma save_nothing: "saves (\<lambda>s. (0, s)) 0 []"
  by (simp add: saves_def took_nil)

text \<open>A chunk without data is its head; one with data is written with its padding.\<close>

lemma save_chunk_none:
  assumes "size c = 2"
  shows "saves (save_chunk (Some V) c None n) 0 (chunk_head c (word_of_int (n + (n AND 1))))"
  unfolding saves_def
proof (intro allI impI)
  fix s let ?h = "chunk_head c (word_of_int (n + (n AND 1)))"
  assume s: "inv s" "size ?h \<le> room s"
  have h: "8 = int (size ?h)" using assms by (simp add: chunk_head_def c_str_def)
  from write_took [OF s h] obtain t where "vfs68_write (Some V) s ?h 8 = (8, t)" "took ?h s t" .
  then show "\<exists>t. save_chunk (Some V) c None n s = (0, t) \<and> took ?h s t"
    by (auto simp: save_chunk_def chunk_head_def Let_def)
qed

lemma save_chunk_some:
  assumes "size c = 2"
  shows "saves (save_chunk (Some V) c (Some p) (int (size p))) 0
    (chunk_head c (word_of_nat (size (padded p))) @ padded p)"
  unfolding saves_def
proof (intro allI impI)
  fix s let ?h = "chunk_head c (word_of_nat (size (padded p)))"
  assume s: "inv s" "size (?h @ padded p) \<le> room s"
  have h: "8 = int (size ?h)" using assms by (simp add: chunk_head_def c_str_def)
  have al: "int (size p) AND 1 = int (size p mod 2)"
    by (simp add: and_one_eq zmod_int)
  have n: "int (size p) + int (size p mod 2) = int (size (padded p))" by (simp add: padded_def)
  have "size ?h \<le> room s" using s(2) by simp
  from write_took [OF s(1) this h] obtain t where t: "vfs68_write (Some V) s ?h 8 = (8, t)" "took ?h s t" .
  have t2: "inv t" "size (padded p) \<le> room t" using took_room [OF t(2) s(2)] by auto
  have start: "save_chunk (Some V) c (Some p) (int (size p)) s =
      (if p = [] then (0, t) else
       let (r, s) = vfs68_write (Some V) t p (int (size p))
       in if r \<noteq> int (size p) then (-1, s)
          else if size p mod 2 = 0 then (0, s)
          else let (r, s) = vfs68_write (Some V) s [0] 1 in if r \<noteq> 1 then (-1, s) else (0, s))"
  proof -
    have head: "vfs68_write (Some V) s (c_str ''SC'' @ c @ LPoke (word_of_int (int (size (padded p))))) 8 = (8, t)"
      using t(1) by (simp add: chunk_head_def)
    have align: "int (size p mod 2) = 0 \<longleftrightarrow> size p mod 2 = 0" "size p mod 2 \<noteq> 0 \<Longrightarrow> int (size p mod 2) = 1"
      by simp_all
    show ?thesis
      unfolding save_chunk_def Let_def al n head prod.case option.case align
      by (cases "size p mod 2 = 0") (simp_all only: align if_True if_False refl simp_thms of_nat_eq_0_iff length_0_conv)
  qed
  show "\<exists>t. save_chunk (Some V) c (Some p) (int (size p)) s = (0, t) \<and> took (?h @ padded p) s t"
  proof (cases "p = []")
    case True
    then show ?thesis using t start by (auto simp: padded_def)
  next
    case False
    have "size p \<le> room t" using t2(2) by (simp add: padded_def)
    from write_took [OF t2(1) this refl] obtain u
      where u: "vfs68_write (Some V) t p (int (size p)) = (int (size p), u)" "took p t u" .
    show ?thesis
    proof (cases "size p mod 2 = 0")
      case True
      then show ?thesis using start False u(1) took_trans [OF t(2) u(2)] by (simp add: padded_def)
    next
      case odd: False
      then have p: "padded p = p @ [0]" by (cases "odd (size p)") (simp_all add: padded_def)
      have u2: "inv u" "size [0 :: u8] \<le> room u" using took_room [OF u(2), of "[0]"] t2(2) p by auto
      from write_took [OF u2, of 1] obtain w
        where w: "vfs68_write (Some V) u [0] 1 = (1, w)" "took [0] u w" by auto
      from took_trans [OF t(2) took_trans [OF u(2) w(2)]] show ?thesis
        using start False odd u(1) w(1) p by auto
    qed
  qed
qed

end

section \<open>Saving writes the chunks\<close>

text \<open>The music data lies in the data of the disk, and has a size an \<open>int\<close> can hold.\<close>

definition data_ok :: "u8 list \<Rightarrow> music68 \<Rightarrow> bool" where
  "data_ok d m \<longleftrightarrow>
    (case mdata m of None \<Rightarrow> True | Some k \<Rightarrow> k + unat (mdatasz m) \<le> size d \<and> unat (mdatasz m) < 2 ^ 31)"

lemma sint_small:
  fixes v :: s32
  assumes "unat v < 2 ^ 31"
  shows "sint v = int (unat v)"
proof -
  have "int (unat v) < int (2 ^ 31)" using assms by (simp only: of_nat_less_iff)
  then have "uint v < 2 ^ 31" by simp
  then have "signed_take_bit 31 (uint v) = uint v"
    using uint_ge_0 [of v] by (intro signed_take_bit_int_eq_self) linarith+
  then show ?thesis by (simp add: sint_uint)
qed

lemma data_ok_size:
  assumes "data_ok d m" "mdata m = Some k"
  shows "int (size (take (unat (mdatasz m)) (drop k d))) = sint (mdatasz m)"
    "data_of d m = Some (take (unat (mdatasz m)) (drop k d))"
proof -
  have "unat (mdatasz m) < 2 ^ 31" "k + unat (mdatasz m) \<le> size d" using assms by (simp_all add: data_ok_def)
  then show "int (size (take (unat (mdatasz m)) (drop k d))) = sint (mdatasz m)" by (simp add: sint_small)
  show "data_of d m = Some (take (unat (mdatasz m)) (drop k d))" using assms by (simp add: data_of_def)
qed

lemma size_c_str [simp]: "size (c_str s) = size s"
  by (simp add: c_str_def)

context sink begin

lemma save_string_saves:
  assumes "size c = 2"
  shows "saves (save_string (Some V) (c_str c) s) 0 (layout (txt_chunk c s))"
proof -
  have "saves (save_chunk (Some V) (c_str c) (Some (x @ [0])) (int (size x) + 1)) 0 (chunk_bytes (Txt c x))" for x
    using save_chunk_some [of "c_str c" "x @ [0]"] assms by (simp add: chunk_bytes_def add.commute)
  then show ?thesis
    by (simp add: saves_def save_string_def txt_chunk_def took_nil split: option.split)
qed

lemma save_differstr_saves:
  assumes "size c = 2"
  shows "saves (save_differstr (Some V) (c_str c) s old) 0 (layout (txt_chunk c (differs s old)))"
  using save_string_saves [OF assms, of s]
  by (auto simp: saves_def save_differstr_def differs_def txt_chunk_def took_nil)

lemma save_number_saves:
  assumes "size c = 2"
  shows "saves (save_number (Some V) (c_str c) v) 0 (chunk_bytes (Num c v))"
  using save_chunk_some [of "c_str c" "LPoke v"] assms
  by (simp add: saves_def save_number_def chunk_bytes_def)

lemma save_nonzero_saves:
  assumes "size c = 2"
  shows "saves (save_nonzero (Some V) (c_str c) v) 0 (layout (num_chunk c v))"
  using save_number_saves [OF assms, of v]
  by (simp add: saves_def save_nonzero_def num_chunk_def took_nil)

lemma save_mark_saves:
  assumes "size c = 2"
  shows "saves (save_chunk (Some V) (c_str c) None 0) 0 (chunk_bytes (Mark c))"
  using save_chunk_none [of "c_str c" 0] assms by (simp add: chunk_bytes_def padded_def)

lemma save_tags_from_saves:
  "saves (save_tags_from (Some V) tt) 0 (layout (map (\<lambda>(k, v). Tag k v) (full_tags tt)))"
proof (induction tt rule: full_tags.induct)
  case 1
  then show ?case by (simp add: saves_def took_nil)
next
  case (2 k ks v vs tt)
  have tag: "saves (save_chunk (Some V) (c_str ''TG'') (Some ((k # ks) @ [0] @ (v # vs) @ [0]))
      (int (size ks) + int (size vs) + 4)) 0 (chunk_bytes (Tag (k # ks) (v # vs)))"
    using save_chunk_some [of "c_str ''TG''" "(k # ks) @ [0] @ (v # vs) @ [0]"]
    by (simp add: chunk_bytes_def add.commute add.left_commute)
  show ?case unfolding saves_def
  proof (intro allI impI)
    fix s assume s: "inv s" "size (layout (map (\<lambda>(k, v). Tag k v) (full_tags ((Some (k # ks), Some (v # vs)) # tt)))) \<le> room s"
    then have "size (chunk_bytes (Tag (k # ks) (v # vs))) \<le> room s" by simp
    with tag s(1) obtain t where
      t: "save_chunk (Some V) (c_str ''TG'') (Some ((k # ks) @ [0] @ (v # vs) @ [0]))
            (int (size ks) + int (size vs) + 4) s = (0, t)"
        "took (chunk_bytes (Tag (k # ks) (v # vs))) s t" by (rule savesD)
    have "inv t" "size (layout (map (\<lambda>(k, v). Tag k v) (full_tags tt))) \<le> room t"
      using took_room [OF t(2)] s(2) by auto
    with "2.IH" obtain u where "save_tags_from (Some V) tt t = (0, u)"
        "took (layout (map (\<lambda>(k, v). Tag k v) (full_tags tt))) t u" by (rule savesD)
    then show "\<exists>u. save_tags_from (Some V) ((Some (k # ks), Some (v # vs)) # tt) s = (0, u) \<and>
        took (layout (map (\<lambda>(k, v). Tag k v) (full_tags ((Some (k # ks), Some (v # vs)) # tt)))) s u"
      using t took_trans [OF t(2)] by simp
  qed
qed simp_all

lemma save_tags_saves:
  "saves (save_tags (Some V) d ts TAG68_ID_CUSTOM) 0 (layout (tag_chunks (texts_of d ts)))"
  using save_tags_from_saves [of "drop TAG68_ID_CUSTOM (texts_of d ts)"]
  by (simp add: save_tags_def tag_chunks_def texts_of_def drop_map saves_def)

end

text \<open>One track, in the two groups the code writes and its data.\<close>

definition music_head :: "u8 list \<Rightarrow> before \<Rightarrow> music68 \<Rightarrow> chunk list" where
  "music_head d = (\<lambda>(title, artist, p) m.
    [Mark ''MU''] @
    txt_chunk ''MN'' (differs (text_of d (tag_val (mtags m) TAG68_ID_TITLE)) title) @
    txt_chunk ''AN'' (differs (text_of d (tag_val (mtags m) TAG68_ID_ARTIST)) artist) @
    tag_chunks (texts_of d (mtags m)))"

definition music_parms :: "u8 list \<Rightarrow> music68 \<Rightarrow> chunk list" where
  "music_parms d m =
    txt_chunk ''RE'' (text_of d (replay m)) @
    num_chunk ''D0'' (d0 m) @
    num_chunk ''AT'' (of_bool (\<not> has_pic m) * a0 m) @
    num_chunk ''FQ'' (of_bool (frq m \<noteq> 50) * frq m) @
    num_chunk ''FR'' (of_bool (has_time m) * first_fr m) @
    num_chunk ''LP'' (of_bool (has_loop m) * loops m) @
    (if has_loop m then [Num ''LF'' (loops_fr m)] else []) @
    [Num ''TY'' (hwflags m)] @
    (if has_sfx m then [Mark ''FX''] else [])"

definition music_data :: "u8 list \<Rightarrow> nat option \<Rightarrow> music68 \<Rightarrow> chunk list" where
  "music_data d p m = (case data_of d m of None \<Rightarrow> [] | Some x \<Rightarrow> if mdata m = p then [] else [Bytes x])"

lemma music_chunks_parts:
  "music_chunks d (title, artist, p) m = music_head d (title, artist, p) m @ music_parms d m @ music_data d p m"
  by (simp add: music_chunks_def music_head_def music_parms_def music_data_def)

context sink begin

lemma save_head_saves:
  "saves (save_all
     [save_chunk (Some V) (c_str ''MU'') None 0,
      save_differstr (Some V) (c_str ''MN'') (text_of d (tag_val (mtags m) TAG68_ID_TITLE)) title,
      save_differstr (Some V) (c_str ''AN'') (text_of d (tag_val (mtags m) TAG68_ID_ARTIST)) artist,
      save_tags (Some V) d (mtags m) TAG68_ID_CUSTOM]) False (layout (music_head d (title, artist, p) m))"
proof -
  have "layout (music_head d (title, artist, p) m) = concat
     [chunk_bytes (Mark ''MU''),
      layout (txt_chunk ''MN'' (differs (text_of d (tag_val (mtags m) TAG68_ID_TITLE)) title)),
      layout (txt_chunk ''AN'' (differs (text_of d (tag_val (mtags m) TAG68_ID_ARTIST)) artist)),
      layout (tag_chunks (texts_of d (mtags m)))]"
    by (simp add: music_head_def)
  then show ?thesis
    by (simp only:) (rule save_all_saves, intro list.rel_intros save_mark_saves save_differstr_saves save_tags_saves; simp)
qed

lemma save_loopfr_saves:
  "saves (\<lambda>s. if b then save_number (Some V) (c_str ''LF'') v s else (0, s)) 0 (layout (if b then [Num ''LF'' v] else []))"
  using save_number_saves [of "''LF''" v] by (simp add: save_nothing)

lemma save_sfx_saves:
  "saves (\<lambda>s. if b then save_chunk (Some V) (c_str ''FX'') None 0 s else (0, s)) 0 (layout (if b then [Mark ''FX''] else []))"
  using save_mark_saves [of "''FX''"] by (simp add: save_nothing)

lemma save_parms_saves:
  "saves (save_all
     [save_string (Some V) (c_str ''RE'') (text_of d (replay m)),
      save_nonzero (Some V) (c_str ''D0'') (d0 m),
      save_nonzero (Some V) (c_str ''AT'') (of_bool (\<not> has_pic m) * a0 m),
      save_nonzero (Some V) (c_str ''FQ'') (of_bool (frq m \<noteq> 50) * frq m),
      save_nonzero (Some V) (c_str ''FR'') (of_bool (has_time m) * first_fr m),
      save_nonzero (Some V) (c_str ''LP'') (of_bool (has_loop m) * loops m),
      (\<lambda>s. if has_loop m then save_number (Some V) (c_str ''LF'') (loops_fr m) s else (0, s)),
      save_number (Some V) (c_str ''TY'') (hwflags m),
      (\<lambda>s. if has_sfx m then save_chunk (Some V) (c_str ''FX'') None 0 s else (0, s))])
     False (layout (music_parms d m))"
proof -
  have "layout (music_parms d m) = concat
     [layout (txt_chunk ''RE'' (text_of d (replay m))),
      layout (num_chunk ''D0'' (d0 m)), layout (num_chunk ''AT'' (of_bool (\<not> has_pic m) * a0 m)),
      layout (num_chunk ''FQ'' (of_bool (frq m \<noteq> 50) * frq m)),
      layout (num_chunk ''FR'' (of_bool (has_time m) * first_fr m)),
      layout (num_chunk ''LP'' (of_bool (has_loop m) * loops m)),
      layout (if has_loop m then [Num ''LF'' (loops_fr m)] else []), chunk_bytes (Num ''TY'' (hwflags m)),
      layout (if has_sfx m then [Mark ''FX''] else [])]"
    by (simp add: music_parms_def)
  then show ?thesis
    by (simp only:) (rule save_all_saves, intro list.rel_intros save_string_saves save_nonzero_saves
        save_number_saves save_loopfr_saves save_sfx_saves; simp)
qed

lemma save_music_saves:
  assumes "data_ok d m" "inv s" "size (layout (music_chunks d b m)) \<le> room s"
  obtains t where "save_music (Some V) d b m s = (False, next_before d b m, t)"
    "took (layout (music_chunks d b m)) s t"
proof -
  obtain title artist p where b: "b = (title, artist, p)" by (metis prod_cases3)
  have parts: "layout (music_chunks d b m) =
      layout (music_head d b m) @ layout (music_parms d m) @ layout (music_data d p m)"
    by (simp add: b music_chunks_parts)
  have "size (layout (music_head d b m)) \<le> room s" using assms(3) parts by simp
  with save_head_saves assms(2) obtain t1 where t1:
    "save_all
     [save_chunk (Some V) (c_str ''MU'') None 0,
      save_differstr (Some V) (c_str ''MN'') (text_of d (tag_val (mtags m) TAG68_ID_TITLE)) title,
      save_differstr (Some V) (c_str ''AN'') (text_of d (tag_val (mtags m) TAG68_ID_ARTIST)) artist,
      save_tags (Some V) d (mtags m) TAG68_ID_CUSTOM] s = (False, t1)"
    "took (layout (music_head d b m)) s t1"
    unfolding b by (rule savesD)
  have r1: "inv t1" "size (layout (music_parms d m) @ layout (music_data d p m)) \<le> room t1"
    using took_room [OF t1(2) assms(3) [unfolded parts]] by simp_all
  then have "size (layout (music_parms d m)) \<le> room t1" by simp
  with save_parms_saves r1(1) obtain t2 where t2:
    "save_all
     [save_string (Some V) (c_str ''RE'') (text_of d (replay m)),
      save_nonzero (Some V) (c_str ''D0'') (d0 m),
      save_nonzero (Some V) (c_str ''AT'') (of_bool (\<not> has_pic m) * a0 m),
      save_nonzero (Some V) (c_str ''FQ'') (of_bool (frq m \<noteq> 50) * frq m),
      save_nonzero (Some V) (c_str ''FR'') (of_bool (has_time m) * first_fr m),
      save_nonzero (Some V) (c_str ''LP'') (of_bool (has_loop m) * loops m),
      (\<lambda>s. if has_loop m then save_number (Some V) (c_str ''LF'') (loops_fr m) s else (0, s)),
      save_number (Some V) (c_str ''TY'') (hwflags m),
      (\<lambda>s. if has_sfx m then save_chunk (Some V) (c_str ''FX'') None 0 s else (0, s))] t1 = (False, t2)"
    "took (layout (music_parms d m)) t1 t2"
    by (rule savesD)
  have r2: "inv t2" "size (layout (music_data d p m)) \<le> room t2"
    using took_room [OF t2(2) r1(2)] by simp_all
  have two: "took (layout (music_head d b m) @ layout (music_parms d m)) s t2"
    by (rule took_trans [OF t1(2) t2(2)])
  show thesis
  proof (cases "mdata m \<noteq> None \<and> mdata m \<noteq> p")
    case False
    then have none: "music_data d p m = []" by (cases "mdata m") (auto simp: music_data_def data_of_def)
    have "save_music (Some V) d b m s = (False, next_before d b m, t2)"
      using t1(1) t2(1) False
      by (auto simp: save_music_def b next_before_def or_else_def Let_def)
    then show thesis using that two parts none by simp
  next
    case True
    then obtain k where k: "mdata m = Some k" by blast
    note data = data_ok_size [OF assms(1) k]
    let ?x = "take (unat (mdatasz m)) (drop k d)"
    have bytes: "layout (music_data d p m) = chunk_bytes (Bytes ?x)"
      using True data(2) k by (simp add: music_data_def)
    have sv: "saves (save_chunk (Some V) (c_str ''DA'') (Some ?x) (sint (mdatasz m))) 0 (chunk_bytes (Bytes ?x))"
      using save_chunk_some [of "c_str ''DA''" ?x] data(1) by (simp add: chunk_bytes_def)
    have "size (chunk_bytes (Bytes ?x)) \<le> room t2" using r2(2) bytes by simp
    with sv r2(1) obtain t3 where t3:
      "save_chunk (Some V) (c_str ''DA'') (Some ?x) (sint (mdatasz m)) t2 = (0, t3)"
      "took (chunk_bytes (Bytes ?x)) t2 t3" by (rule savesD)
    have "save_music (Some V) d b m s = (False, next_before d b m, t3)"
      using True k
      unfolding save_music_def b next_before_def or_else_def Let_def prod.case t1(1) t2(1) if_False
      by (simp add: t3(1))
    then show thesis using that took_trans [OF two t3(2)] parts bytes by simp
  qed
qed

lemma save_musics_saves:
  "list_all (data_ok d) ms \<Longrightarrow> saves (save_musics (Some V) d b ms) False (layout (musics_chunks d b ms))"
proof (induction ms arbitrary: b)
  case Nil
  then show ?case by (simp add: saves_def took_nil)
next
  case (Cons m ms)
  show ?case unfolding saves_def
  proof (intro allI impI)
    fix s assume s: "inv s" "size (layout (musics_chunks d b (m # ms))) \<le> room s"
    have ok: "data_ok d m" and rest: "list_all (data_ok d) ms" using Cons.prems by simp_all
    have "size (layout (music_chunks d b m)) \<le> room s" using s(2) by simp
    from save_music_saves [OF ok s(1) this] obtain t where
      t: "save_music (Some V) d b m s = (False, next_before d b m, t)" "took (layout (music_chunks d b m)) s t" .
    have "inv t" "size (layout (musics_chunks d (next_before d b m) ms)) \<le> room t"
      using took_room [OF t(2), of "layout (musics_chunks d (next_before d b m) ms)"] s(2) by simp_all
    with Cons.IH [OF rest] obtain u where
      "save_musics (Some V) d (next_before d b m) ms t = (False, u)"
      "took (layout (musics_chunks d (next_before d b m) ms)) t u" by (rule savesD)
    then show "\<exists>u. save_musics (Some V) d b (m # ms) s = (False, u) \<and>
        took (layout (musics_chunks d b (m # ms))) s u"
      using t(1) took_trans [OF t(2)] by simp
  qed
qed

end

text \<open>What a disk is saved as: the identification, the base chunk, the chunks, the end.\<close>

definition base_bytes :: "int \<Rightarrow> int \<Rightarrow> u8 list" where
  "base_bytes version len = get_header version @ chunk_head (c_str ''68'') (word_of_int (len + (len AND 1)))"

definition disk_bytes :: "disk68 \<Rightarrow> u8 list" where
  "disk_bytes mb = layout (disk_chunks mb @ [Mark ''EF''])"

definition disk_ok :: "disk68 \<Rightarrow> bool" where
  "disk_ok mb \<longleftrightarrow> 0 < nb_mus mb \<and> nb_mus mb \<le> int SC68_MAX_TRACK \<and> list_all (data_ok (ddata mb)) (tracks_of mb)"

context sink begin

lemma save_intro_saves:
  "saves (save_all
     [save_chunk (Some V) (c_str ''68'') None len,
      save_noname (Some V) (c_str ''FN'') album, save_noname (Some V) (c_str ''AN'') artist,
      save_nonzero (Some V) (c_str ''DF'') df, save_tags (Some V) d ts TAG68_ID_CUSTOM]) False
     (chunk_head (c_str ''68'') (word_of_int (len + (len AND 1))) @
      layout (txt_chunk ''FN'' (not_noname album) @ txt_chunk ''AN'' (not_noname artist) @
        num_chunk ''DF'' df @ tag_chunks (texts_of d ts)))"
proof -
  have "chunk_head (c_str ''68'') (word_of_int (len + (len AND 1))) @
      layout (txt_chunk ''FN'' (not_noname album) @ txt_chunk ''AN'' (not_noname artist) @
        num_chunk ''DF'' df @ tag_chunks (texts_of d ts)) = concat
     [chunk_head (c_str ''68'') (word_of_int (len + (len AND 1))), layout (txt_chunk ''FN'' (not_noname album)),
      layout (txt_chunk ''AN'' (not_noname artist)), layout (num_chunk ''DF'' df),
      layout (tag_chunks (texts_of d ts))]"
    by simp
  moreover have "saves (save_noname (Some V) (c_str c) x) 0 (layout (txt_chunk c (not_noname x)))" if "size c = 2" for c x
    using save_string_saves [OF that, of "not_noname x"] by (simp add: saves_def save_noname_def)
  ultimately show ?thesis
    by (simp only:) (rule save_all_saves, intro list.rel_intros save_chunk_none save_nonzero_saves save_tags_saves; simp)
qed

text \<open>A disk is saved, and what is written is what it is saved as.\<close>

lemma save_disk_saves:
  assumes "disk_ok mb"
  shows "saves (save_sc68 (Some V) mb len version) False (base_bytes version len @ disk_bytes mb)"
  unfolding saves_def
proof (intro allI impI)
  fix s assume s: "inv s" "size (base_bytes version len @ disk_bytes mb) \<le> room s"
  let ?d = "ddata mb" and ?h = "get_header version"
  let ?album = "text_of ?d (tag_val (dtags mb) TAG68_ID_TITLE)"
  let ?artist = "text_of ?d (tag_val (dtags mb) TAG68_ID_ARTIST)"
  let ?intro = "chunk_head (c_str ''68'') (word_of_int (len + (len AND 1))) @
      layout (txt_chunk ''FN'' (not_noname ?album) @ txt_chunk ''AN'' (not_noname ?artist) @
        num_chunk ''DF'' (def_mus mb) @ tag_chunks (texts_of ?d (dtags mb)))"
  let ?tracks = "layout (musics_chunks ?d (?album, ?artist, None) (tracks_of mb))"
  let ?mark = "chunk_bytes (Mark ''EF'')"
  have all: "base_bytes version len @ disk_bytes mb = ?h @ (?intro @ (?tracks @ ?mark))"
    by (simp add: base_bytes_def disk_bytes_def disk_chunks_def Let_def)
  note s2 = s(2) [unfolded all]
  have "size ?h \<le> room s" using s2 by simp
  from write_took [OF s(1) this refl] obtain t1 where
    t1: "vfs68_write (Some V) s ?h (int (size ?h)) = (int (size ?h), t1)" "took ?h s t1" .
  have r1: "inv t1" "size (?intro @ (?tracks @ ?mark)) \<le> room t1" using took_room [OF t1(2) s2] by simp_all
  have "size ?intro \<le> room t1" using r1(2) by simp
  with save_intro_saves r1(1) obtain t2 where
    t2: "save_all
     [save_chunk (Some V) (c_str ''68'') None len,
      save_noname (Some V) (c_str ''FN'') ?album, save_noname (Some V) (c_str ''AN'') ?artist,
      save_nonzero (Some V) (c_str ''DF'') (def_mus mb), save_tags (Some V) ?d (dtags mb) TAG68_ID_CUSTOM] t1
     = (False, t2)" "took ?intro t1 t2" by (rule savesD)
  have r2: "inv t2" "size (?tracks @ ?mark) \<le> room t2" using took_room [OF t2(2) r1(2)] by simp_all
  have "size ?tracks \<le> room t2" using r2(2) by simp
  moreover have "list_all (data_ok ?d) (tracks_of mb)" using assms by (simp add: disk_ok_def)
  ultimately obtain t3 where
    t3: "save_musics (Some V) ?d (?album, ?artist, None) (tracks_of mb) t2 = (False, t3)" "took ?tracks t2 t3"
    using savesD [OF save_musics_saves r2(1)] by metis
  have r3: "inv t3" "size ?mark \<le> room t3" using took_room [OF t3(2) r2(2)] by simp_all
  obtain t4 where t4: "save_chunk (Some V) (c_str ''EF'') None 0 t3 = (0, t4)" "took ?mark t3 t4"
    using savesD [OF save_mark_saves r3] by auto
  have nb: "\<not> (Some V = None \<or> nb_mus mb \<le> 0 \<or> nb_mus mb > int SC68_MAX_TRACK)"
    using assms by (simp add: disk_ok_def)
  have "save_sc68 (Some V) mb len version s = (False, t4)"
    unfolding save_sc68_def Let_def if_not_P [OF nb] t1(1) prod.case t2(1)
      t3(1) [unfolded tracks_of_def] t4(1) if_False
    by simp
  moreover have "took (base_bytes version len @ disk_bytes mb) s t4"
    unfolding all by (rule took_trans [OF t1(2) took_trans [OF t2(2) took_trans [OF t3(2) t4(2)]]])
  ultimately show "\<exists>t. save_sc68 (Some V) mb len version s = (False, t) \<and>
      took (base_bytes version len @ disk_bytes mb) s t" by blast
qed

end

section \<open>The streams that meet the contract\<close>

text \<open>A memory stream that is open for writing, with what it has written up to its position.\<close>

definition written :: "vfs_mem \<Rightarrow> u8 list" where
  "written s = take (nat (mpos s)) (area s)"

interpretation mem_sink: sink vfs68_mem "mem_inv 2" "\<lambda>s. nat (msize s - mpos s)" written "\<lambda>x p. x @ p"
proof
  fix s t :: vfs_mem and xs k
  assume inv: "mem_inv 2 s" and fits: "size xs \<le> nat (msize s - mpos s)"
    and w: "vfs68_write (Some vfs68_mem) s xs (int (size xs)) = (k, t)"
  have pos: "0 \<le> mpos s" "mpos s \<le> msize s" "msize s < 2 ^ 31 - 1" using inv by (simp_all add: mem_inv_def)
  then have "mpos s + int (size xs) < 2 ^ 31" using fits by linarith
  note r = mem_out.write_data [OF inv this w]
  have all: "int (size xs) \<le> msize s - mpos s" using fits pos by linarith
  then have k: "k = int (size xs)" using r pos by simp
  have area: "area t = take (nat (mpos s)) (area s) @ xs @ drop (nat (mpos s) + size xs) (area s)"
    using r k pos(1) by (simp add: nat_add_distrib)
  have mpos: "mpos t = mpos s + int (size xs)" "mem_inv 2 t" using r k by simp_all
  have "size (area t) = size (area s)"
    using arg_cong [OF area, of size] all pos by simp
  moreover have "0 \<le> msize t" using mpos(2) by (simp add: mem_inv_def)
  ultimately have msize: "msize t = msize s" using pos by simp
  have n: "nat (mpos t) = nat (mpos s) + size xs" using mpos(1) pos(1) by (simp add: nat_add_distrib)
  have "written t = written s @ xs"
    using pos unfolding written_def n area by simp
  then show "k = int (size xs) \<and> mem_inv 2 t \<and> nat (msize t - mpos t) = nat (msize s - mpos s) - size xs \<and>
      written t = written s @ xs"
    using k mpos msize by simp
qed simp_all

text \<open>The null device counts.\<close>

interpretation null_sink: sink vfs68_null "\<lambda>s. nopen s \<and> 0 \<le> npos s \<and> npos s = nsize s"
  "\<lambda>s. nat (2 ^ 31 - 1 - npos s)" "\<lambda>s. nat (npos s)" "\<lambda>n p. n + size p"
proof
  fix s t :: vfs_null and xs k
  assume inv: "nopen s \<and> 0 \<le> npos s \<and> npos s = nsize s" and fits: "size xs \<le> nat (2 ^ 31 - 1 - npos s)"
    and w: "vfs68_write (Some vfs68_null) s xs (int (size xs)) = (k, t)"
  show "k = int (size xs) \<and> (nopen t \<and> 0 \<le> npos t \<and> npos t = nsize t) \<and>
    nat (2 ^ 31 - 1 - npos t) = nat (2 ^ 31 - 1 - npos s) - size xs \<and> nat (npos t) = nat (npos s) + size xs"
  proof (cases "xs = []")
    case True
    then show ?thesis using w inv
      by (simp add: vfs68_write_def vfs_op_def vfs68_null_def isn_write_def isn_read_or_write_def)
  next
    case False
    then have "0 < size xs" by simp
    moreover have f: "size xs \<le> nat (2147483647 - npos s)" using fits by simp
    ultimately have "0 < nat (2147483647 - npos s)" by linarith
    then have le: "int (size xs) \<le> 2147483647 - npos s" using f by (simp add: le_nat_iff)
    have "i32 (npos s + int (size xs)) = npos s + int (size xs)"
      using inv le by (intro i32_id) simp_all
    then show ?thesis using w inv False fits
      by (auto simp: vfs68_write_def vfs_op_def vfs68_null_def isn_write_def isn_read_or_write_def Let_def)
  qed
qed simp_all

end
