(* ===== verification/Round68.thy ===== *)
theory Round68
  imports Chunk68
begin

unbundle bit_operations_syntax

text \<open>
  Saving and loading again: the album a disk stands for, what each chunk adds to it, and that the
  chunk reader of \<open>file68_load\<close> implements that; what a saved disk is when it is read back.
\<close>

section \<open>Albums\<close>

text \<open>
  A track as its numbers, its texts and its bytes; an album as its tags and tracks.  The numbers are
  those of the track record, with the pointers taken out.
\<close>

record tune68 =
  tnum :: music68
  treplay :: "cstr option"
  ttags :: texts
  tdata :: "u8 list option"

record album68 =
  adef :: s32
  atags :: texts
  atunes :: "tune68 list"

definition numbers :: "music68 \<Rightarrow> music68" where
  "numbers m = m\<lparr>replay := None, mtags := [], mdata := None, mdatasz := 0\<rparr>"

definition tune_of :: "u8 list \<Rightarrow> music68 \<Rightarrow> tune68" where
  "tune_of d m =
    \<lparr>tnum = numbers m, treplay = text_of d (replay m), ttags = texts_of d (mtags m), tdata = data_of d m\<rparr>"

definition album_of :: "disk68 \<Rightarrow> album68" where
  "album_of mb =
    \<lparr>adef = def_mus mb, atags = texts_of (ddata mb) (dtags mb),
     atunes = map (tune_of (ddata mb)) (tracks_of mb)\<rparr>"

section \<open>What a chunk adds\<close>

text \<open>The names of the first three tags, and the slot a key has or is given.\<close>

definition fixed_slot :: "cstr option \<Rightarrow> nat option" where
  "fixed_slot key =
    (if strcmp68 key (Some (c_str ''title'')) = 0 \<or> strcmp68 key (Some (c_str ''album'')) = 0 then Some 0
     else if strcmp68 key (Some (c_str ''artist'')) = 0 \<or> strcmp68 key (Some (c_str ''author'')) = 0 then Some 1
     else if strcmp68 key (Some (c_str ''genre'')) = 0 \<or> strcmp68 key (Some (c_str ''format'')) = 0 then Some 2
     else None)"

definition key_slot :: "texts \<Rightarrow> cstr option \<Rightarrow> nat option" where
  "key_slot tt key =
    (case fixed_slot key of Some i \<Rightarrow> Some i
     | None \<Rightarrow> find (\<lambda>i. strcmp68 key (fst (tt ! i)) = 0) [TAG68_ID_CUSTOM ..< TAG68_ID_MAX])"

definition put_text :: "nat \<Rightarrow> cstr \<Rightarrow> texts \<Rightarrow> texts" where
  "put_text i v tt = tt[i := (fst (tt ! i), Some v)]"

definition put_tag :: "cstr \<Rightarrow> cstr \<Rightarrow> texts \<Rightarrow> texts" where
  "put_tag k v tt =
    (case key_slot tt (Some k) of
       Some i \<Rightarrow> tt[i := (or_else (fst (tt ! i)) (Some k), Some v)]
     | None \<Rightarrow>
         (case key_slot tt None of
            Some i \<Rightarrow> tt[i := (or_else (fst (tt ! i)) (Some k), Some v)]
          | None \<Rightarrow> tt))"

definition put_texts :: "(texts \<Rightarrow> texts) \<Rightarrow> album68 \<Rightarrow> album68" where
  "put_texts f al =
    (if atunes al = [] then al\<lparr>atags := f (atags al)\<rparr>
     else al\<lparr>atunes := butlast (atunes al) @ [last (atunes al)\<lparr>ttags := f (ttags (last (atunes al)))\<rparr>]\<rparr>)"

definition put_tune :: "(tune68 \<Rightarrow> tune68) \<Rightarrow> album68 \<Rightarrow> album68" where
  "put_tune f al = al\<lparr>atunes := butlast (atunes al) @ [f (last (atunes al))]\<rparr>"

definition put_num :: "(music68 \<Rightarrow> music68) \<Rightarrow> album68 \<Rightarrow> album68" where
  "put_num f = put_tune (\<lambda>t. t\<lparr>tnum := f (tnum t)\<rparr>)"

definition num_field :: "string \<Rightarrow> s32 \<Rightarrow> music68 \<Rightarrow> music68" where
  "num_field c v =
    (if c = ''D0'' then d0_update (\<lambda>_. v)
     else if c = ''AT'' then a0_update (\<lambda>_. v)
     else if c = ''FQ'' then frq_update (\<lambda>_. v)
     else if c = ''FR'' then first_fr_update (\<lambda>_. if v \<ge> 0x1000000 then 0 else v)
     else if c = ''LP'' then loops_update (\<lambda>_. if sint v < -1 then 0 else v)
     else if c = ''LF'' then (\<lambda>m. m\<lparr>loops_fr := v, has_loop := True\<rparr>)
     else hwflags_update (\<lambda>_. if v AND NOT (SC68_XTD - 1) \<noteq> 0 then v OR SC68_XTD else v))"

definition new_tune :: tune68 where
  "new_tune = tune_of [] no_music"

fun step_album :: "chunk \<Rightarrow> album68 \<Rightarrow> album68" where
  "step_album (Num c v) al = (if c = ''DF'' then al\<lparr>adef := v\<rparr> else put_num (num_field c v) al)"
| "step_album (Txt c x) al =
    (if c = ''RE'' then put_tune (\<lambda>t. t\<lparr>treplay := Some x\<rparr>) al
     else put_texts (put_text (if c = ''AN'' then TAG68_ID_ARTIST else TAG68_ID_TITLE) x) al)"
| "step_album (Tag k v) al = put_texts (put_tag k v) al"
| "step_album (Mark c) al =
    (if c = ''MU'' then al\<lparr>atunes := atunes al @ [new_tune]\<rparr> else put_num (has_sfx_update (\<lambda>_. True)) al)"
| "step_album (Bytes p) al = put_tune (\<lambda>t. t\<lparr>tdata := Some (padded p)\<rparr>) al"

text \<open>The chunks that can follow: those of a track need one, and there is a limit to the tracks.\<close>

fun chunk_ok :: "chunk \<Rightarrow> album68 \<Rightarrow> bool" where
  "chunk_ok (Num c v) al \<longleftrightarrow>
    c = ''DF'' \<or> c \<in> set [''D0'', ''AT'', ''FQ'', ''FR'', ''LP'', ''LF'', ''TY''] \<and> atunes al \<noteq> []"
| "chunk_ok (Txt c x) al \<longleftrightarrow> 0 \<notin> set x \<and> (c \<in> set [''FN'', ''MN'', ''AN''] \<or> c = ''RE'' \<and> atunes al \<noteq> [])"
| "chunk_ok (Tag k v) al \<longleftrightarrow> 0 \<notin> set k \<and> 0 \<notin> set v"
| "chunk_ok (Mark c) al \<longleftrightarrow> c = ''MU'' \<and> size (atunes al) < SC68_MAX_TRACK \<or> c = ''FX'' \<and> atunes al \<noteq> []"
| "chunk_ok (Bytes p) al \<longleftrightarrow> atunes al \<noteq> [] \<and> size p < 2 ^ 31 - 1"

section \<open>The reader implements it\<close>

definition load_inv :: "loading \<Rightarrow> bool" where
  "load_inv = (\<lambda>(mb, cur).
    size (mus mb) = SC68_MAX_TRACK \<and> 0 \<le> nb_mus mb \<and> nb_mus mb \<le> int SC68_MAX_TRACK \<and>
    cur = (if nb_mus mb = 0 then None else Some (nat (nb_mus mb) - 1)) \<and>
    (\<forall>i < SC68_MAX_TRACK. nat (nb_mus mb) \<le> i \<longrightarrow> mus mb ! i = no_music) \<and>
    size (dtags mb) = TAG68_ID_MAX \<and> (\<forall>m \<in> set (mus mb). size (mtags m) = TAG68_ID_MAX))"

text \<open>A step of the reader: it goes on, keeps the invariant and the data, and makes the album \<open>al\<close>.\<close>

definition reads :: "chunk_end \<Rightarrow> u8 list \<Rightarrow> album68 \<Rightarrow> bool" where
  "reads r d al \<longleftrightarrow> (\<exists>mb cur. r = Next (mb, cur) \<and> load_inv (mb, cur) \<and> ddata mb = d \<and> album_of mb = al)"

lemma readsI: "r = Next (mb, cur) \<Longrightarrow> load_inv (mb, cur) \<Longrightarrow> ddata mb = d \<Longrightarrow> album_of mb = al \<Longrightarrow> reads r d al"
  by (auto simp: reads_def)

lemma size_texts [simp]: "size (texts_of d ts) = size ts"
  by (simp add: texts_of_def)

lemma texts_of_nth: "i < size ts \<Longrightarrow> texts_of d ts ! i = (text_of d (fst (ts ! i)), text_of d (snd (ts ! i)))"
  by (simp add: texts_of_def split: prod.split)

lemma texts_of_update: "texts_of d (ts[i := (k, v)]) = (texts_of d ts)[i := (text_of d k, text_of d v)]"
  by (simp add: texts_of_def map_update)

lemma text_of_simps [simp]:
  "text_of d None = None" "text_of d (Some p) = Some (text_at d p)" "text_of d q = None \<longleftrightarrow> q = None"
  by (simp_all add: text_of_def)

lemma put_val_texts:
  "i < size ts \<Longrightarrow> texts_of d (put_val i (Some (Data b)) ts) = put_text i (cstr_at d b) (texts_of d ts)"
  by (simp add: put_val_def texts_of_update put_text_def texts_of_nth)

lemma get_customtag_slot:
  assumes "size ts = TAG68_ID_MAX"
  shows "get_customtag d ts key = (case key_slot (texts_of d ts) key of Some i \<Rightarrow> int i | None \<Rightarrow> -1)"
proof -
  have "find (\<lambda>i. strcmp68 key (text_of d (fst (ts ! i))) = 0) [TAG68_ID_CUSTOM ..< TAG68_ID_MAX] =
      find (\<lambda>i. strcmp68 key (fst (texts_of d ts ! i)) = 0) [TAG68_ID_CUSTOM ..< TAG68_ID_MAX]"
    using assms by (intro find_cong) (auto simp: texts_of_nth)
  then show ?thesis
    by (simp add: get_customtag_def key_slot_def fixed_slot_def TAG68_ID_TITLE_def TAG68_ID_ARTIST_def
        TAG68_ID_GENRE_def)
qed

lemma key_slot_less: "key_slot tt key = Some i \<Longrightarrow> i < TAG68_ID_MAX"
  by (auto simp: key_slot_def fixed_slot_def find_Some_iff TAG68_ID_MAX_def TAG68_ID_CUSTOM_def split: option.splits if_splits)

text \<open>The slot a key is written to: its own, or the first free one.\<close>

definition slot_for :: "texts \<Rightarrow> cstr \<Rightarrow> nat option" where
  "slot_for tt k = (case key_slot tt (Some k) of None \<Rightarrow> key_slot tt None | s \<Rightarrow> s)"

lemma slot_for_less: "slot_for tt k = Some i \<Longrightarrow> i < TAG68_ID_MAX"
  by (auto simp: slot_for_def dest: key_slot_less split: option.splits)

lemma strdup_not_static_id [simp]: "strdup_not_static d p = p"
  by (simp add: strdup_not_static_def strdup68_def split: option.split sptr.split)

lemma set_customtag_eq:
  assumes "size ts = TAG68_ID_MAX"
  shows "set_customtag d ts (Some p) (Some q) =
    (case slot_for (texts_of d ts) (text_at d p) of None \<Rightarrow> (-1, ts)
     | Some i \<Rightarrow> (int i, ts[i := (or_else (fst (ts ! i)) (Some p), Some q)]))"
proof -
  let ?i = "get_customtag d ts (Some (text_at d p))"
  define j where "j = (if ?i < 0 then get_customtag d ts None else ?i)"
  have j: "j = (case slot_for (texts_of d ts) (text_at d p) of Some i \<Rightarrow> int i | None \<Rightarrow> -1)"
    by (simp add: j_def slot_for_def get_customtag_slot [OF assms] split: option.split)
  have none: "set_customtag d ts (Some p) (Some q) = (-1, ts)" if "j = -1"
    using that by (simp add: set_customtag_def j_def [symmetric])
  have some: "set_customtag d ts (Some p) (Some q) = (int i, ts[i := (or_else (fst (ts ! i)) (Some p), Some q)])"
    if "j = int i" "i < size ts" for i
    using that
    by (auto simp: set_customtag_def j_def [symmetric] Let_def put_val_def tag_val_def or_else_def)
  show ?thesis
  proof (cases "slot_for (texts_of d ts) (text_at d p)")
    case None
    then show ?thesis using none j by simp
  next
    case (Some i)
    then show ?thesis using some [of i] j assms slot_for_less [OF Some] by simp
  qed
qed

lemma set_customtag_texts:
  assumes "size ts = TAG68_ID_MAX"
  shows "texts_of d (snd (set_customtag d ts (Some (Data b)) (Some (Data c)))) =
      put_tag (cstr_at d b) (cstr_at d c) (texts_of d ts)"
    and "size (snd (set_customtag d ts (Some (Data b)) (Some (Data c)))) = size ts"
proof -
  have p: "put_tag k v tt = (case slot_for tt k of None \<Rightarrow> tt
      | Some i \<Rightarrow> tt[i := (or_else (fst (tt ! i)) (Some k), Some v)])" for k v tt
    by (simp add: put_tag_def slot_for_def split: option.split)
  show "texts_of d (snd (set_customtag d ts (Some (Data b)) (Some (Data c)))) =
      put_tag (cstr_at d b) (cstr_at d c) (texts_of d ts)"
    unfolding set_customtag_eq [OF assms] p
    by (auto simp: texts_of_update texts_of_nth or_else_def assms dest!: slot_for_less split: option.split)
  show "size (snd (set_customtag d ts (Some (Data b)) (Some (Data c)))) = size ts"
    by (simp add: set_customtag_eq [OF assms] split: option.split)
qed

text \<open>The track at hand is the last one.\<close>

lemma load_inv_cases:
  assumes "load_inv (mb, cur)"
  obtains (disk) "cur = None" "nb_mus mb = 0" "tracks_of mb = []" "atunes (album_of mb) = []"
  | (track) t where "cur = Some t" "nb_mus mb = int t + 1" "t < SC68_MAX_TRACK" "t < size (mus mb)"
      "tracks_of mb = take t (mus mb) @ [mus mb ! t]" "atunes (album_of mb) \<noteq> []"
proof (cases "nb_mus mb = 0")
  case True
  with assms disk show thesis by (simp add: load_inv_def tracks_of_def album_of_def)
next
  case False
  then have nb: "0 < nb_mus mb" "nb_mus mb \<le> int SC68_MAX_TRACK" using assms by (auto simp: load_inv_def)
  define t where "t = nat (nb_mus mb) - 1"
  have t: "nb_mus mb = int t + 1" "nat (nb_mus mb) = Suc t" "t < SC68_MAX_TRACK" using nb by (simp_all add: t_def)
  moreover have "t < size (mus mb)" "cur = Some t" using t(3) assms False by (simp_all add: load_inv_def t_def)
  ultimately show thesis
    by (intro track) (simp_all add: tracks_of_def album_of_def take_Suc_conv_app_nth)
qed

lemma tracks_of_update:
  assumes "nb_mus mb = int t + 1" "t < size (mus mb)"
  shows "tracks_of (mb\<lparr>mus := (mus mb)[t := m]\<rparr>) = take t (mus mb) @ [m]"
proof -
  have "nat (int t + 1) = Suc t" by simp
  then show ?thesis using assms by (simp add: tracks_of_def take_Suc_conv_app_nth)
qed

lemma load_inv_update:
  assumes "load_inv (mb, Some t)" "size (mtags m) = TAG68_ID_MAX" "nb_mus mb = int t + 1"
  shows "load_inv (mb\<lparr>mus := (mus mb)[t := m]\<rparr>, Some t)"
  using assms set_update_subset_insert [of "mus mb" t m] by (fastforce simp: load_inv_def)

lemma track_tags: "load_inv (mb, cur) \<Longrightarrow> t < size (mus mb) \<Longrightarrow> size (mtags (mus mb ! t)) = TAG68_ID_MAX"
  by (simp add: load_inv_def)

text \<open>A chunk of a track.\<close>

lemma track_chunk_reads:
  assumes inv: "load_inv (mb, cur)" and some: "atunes (album_of mb) \<noteq> []"
    and tags: "\<And>m. mtags (f m) = mtags m" and view: "\<And>m. tune_of (ddata mb) (f m) = g (tune_of (ddata mb) m)"
  shows "reads (track_chunk f (mb, cur)) (ddata mb) (put_tune g (album_of mb))"
  using inv
proof (cases rule: load_inv_cases)
  case disk
  then show ?thesis using some by simp
next
  case (track t)
  have inv': "load_inv (mb\<lparr>mus := (mus mb)[t := f (mus mb ! t)]\<rparr>, Some t)"
    using inv track track_tags [OF inv, of t] by (intro load_inv_update) (simp_all add: tags)
  have album: "album_of (mb\<lparr>mus := (mus mb)[t := f (mus mb ! t)]\<rparr>) = put_tune g (album_of mb)"
    using tracks_of_update [of mb t] track by (simp add: album_of_def put_tune_def view)
  have "track_chunk f (mb, cur) = Next (mb\<lparr>mus := (mus mb)[t := f (mus mb ! t)]\<rparr>, Some t)"
    using track by (simp add: track_chunk_def)
  from readsI [OF this inv' _ album] show ?thesis by simp
qed

text \<open>A change of the tags at hand.\<close>

lemma tags_reads:
  assumes inv: "load_inv (mb, cur)" and len: "\<And>ts. size ts = TAG68_ID_MAX \<Longrightarrow> size (f ts) = TAG68_ID_MAX"
    and view: "\<And>ts. size ts = TAG68_ID_MAX \<Longrightarrow> texts_of (ddata mb) (f ts) = g (texts_of (ddata mb) ts)"
  shows "reads (Next (set_tags (cur_tags cur) (f (tags_of (cur_tags cur) mb)) mb, cur)) (ddata mb)
    (put_texts g (album_of mb))"
  using inv
proof (cases rule: load_inv_cases)
  case disk
  have d: "size (dtags mb) = TAG68_ID_MAX" using inv by (simp add: load_inv_def)
  have "load_inv (mb\<lparr>dtags := f (dtags mb)\<rparr>, cur)" using inv len [OF d] by (simp add: load_inv_def)
  moreover have "album_of (mb\<lparr>dtags := f (dtags mb)\<rparr>) = put_texts g (album_of mb)"
    using view [OF d] disk by (simp add: album_of_def put_texts_def tracks_of_def)
  ultimately show ?thesis using disk by (intro readsI [OF refl]) (simp_all add: cur_tags_def)
next
  case (track t)
  let ?m = "(mus mb ! t)\<lparr>mtags := f (mtags (mus mb ! t))\<rparr>"
  have m: "size (mtags (mus mb ! t)) = TAG68_ID_MAX" by (rule track_tags [OF inv]) (rule track)
  have tune: "tune_of (ddata mb) ?m = (tune_of (ddata mb) (mus mb ! t))
      \<lparr>ttags := g (ttags (tune_of (ddata mb) (mus mb ! t)))\<rparr>"
    using view [OF m] by (simp add: tune_of_def numbers_def data_of_def)
  have inv': "load_inv (mb\<lparr>mus := (mus mb)[t := ?m]\<rparr>, Some t)"
    using inv track len [OF m] by (intro load_inv_update) simp_all
  have album: "album_of (mb\<lparr>mus := (mus mb)[t := ?m]\<rparr>) = put_texts g (album_of mb)"
    using tracks_of_update [of mb t] track tune by (simp add: album_of_def put_texts_def)
  show ?thesis using inv' album track by (intro readsI [OF refl]) (simp_all add: cur_tags_def)
qed

lemma tune_of_no_music [simp]: "tune_of d no_music = new_tune"
  by (simp add: new_tune_def tune_of_def no_music_def texts_of_def no_tags_def tagstr_def data_of_def)

text \<open>The start of a track.\<close>

lemma new_track_reads:
  assumes inv: "load_inv (mb, cur)" and less: "size (atunes (album_of mb)) < SC68_MAX_TRACK"
  shows "nb_mus mb \<noteq> int SC68_MAX_TRACK"
    and "reads (Next (mb\<lparr>nb_mus := nb_mus mb + 1\<rparr>, Some (nat (nb_mus mb)))) (ddata mb)
      ((album_of mb)\<lparr>atunes := atunes (album_of mb) @ [new_tune]\<rparr>)"
proof -
  define n where "n = nat (nb_mus mb)"
  have n: "nb_mus mb = int n" "size (mus mb) = SC68_MAX_TRACK" "nb_mus mb \<le> int SC68_MAX_TRACK"
    using inv by (simp_all add: load_inv_def n_def)
  have "n < SC68_MAX_TRACK" using less n by (simp add: album_of_def tracks_of_def)
  then show "nb_mus mb \<noteq> int SC68_MAX_TRACK" using n by simp
  have fresh: "mus mb ! n = no_music" using inv \<open>n < _\<close> by (simp add: load_inv_def n_def)
  have s: "nat (int n + 1) = Suc n" by simp
  have "load_inv (mb\<lparr>nb_mus := nb_mus mb + 1\<rparr>, Some (nat (nb_mus mb)))"
    using inv \<open>n < _\<close> by (auto simp: load_inv_def n s)
  moreover have "album_of (mb\<lparr>nb_mus := nb_mus mb + 1\<rparr>) = (album_of mb)\<lparr>atunes := atunes (album_of mb) @ [new_tune]\<rparr>"
    using fresh \<open>n < _\<close> by (simp add: album_of_def tracks_of_def n s take_Suc_conv_app_nth)
  ultimately show "reads (Next (mb\<lparr>nb_mus := nb_mus mb + 1\<rparr>, Some (nat (nb_mus mb)))) (ddata mb)
      ((album_of mb)\<lparr>atunes := atunes (album_of mb) @ [new_tune]\<rparr>)"
    by (intro readsI [OF refl]) simp_all
qed

text \<open>Chunk names are compared as strings.\<close>

lemma of_char_byte: "uint (of_char c :: u8) = of_char c"
  by (cases c) (simp add: char_of_def)

lemma c_str_eq [simp]: "c_str s = c_str t \<longleftrightarrow> s = t"
proof -
  have "inj (of_char :: char \<Rightarrow> u8)"
    by (rule injI) (metis of_char_byte of_char_eq_iff)
  then show ?thesis unfolding c_str_def by (simp add: inj_map_eq_map)
qed

lemma LPeek_at: "drop b d = LPoke v @ r \<Longrightarrow> LPeek d b = v"
  by (subst LPeek_drop) simp

lemma cstr_at_at: "drop b d = x @ 0 # r \<Longrightarrow> 0 \<notin> set x \<Longrightarrow> cstr_at d b = x"
  by (subst cstr_at_drop) (simp add: cstr_at_string)

lemma padded_str: "padded (x @ [0]) @ r = x @ 0 # (replicate (Suc (size x) mod 2) 0 @ r)"
  by (simp add: padded_def)

lemma num_reads:
  assumes inv: "load_inv (mb, cur)" and ok: "chunk_ok (Num c v) (album_of mb)"
    and at: "drop b (ddata mb) = LPoke v @ r"
  shows "reads (load_chunk (c_str c) b n (mb, cur)) (ddata mb) (step_album (Num c v) (album_of mb))"
proof -
  note v = LPeek_at [OF at]
  show ?thesis
  proof (cases "c = ''DF''")
    case True
    have "load_chunk (c_str c) b n (mb, cur) = Next (mb\<lparr>def_mus := v\<rparr>, cur)"
      by (simp add: load_chunk_def True v Let_def)
    moreover have "load_inv (mb\<lparr>def_mus := v\<rparr>, cur)" using inv by (simp add: load_inv_def)
    moreover have "album_of (mb\<lparr>def_mus := v\<rparr>) = step_album (Num c v) (album_of mb)"
      by (simp add: True album_of_def tracks_of_def)
    ultimately show ?thesis by (intro readsI [of _ "mb\<lparr>def_mus := v\<rparr>" cur]) simp_all
  next
    case False
    have f: "load_chunk (c_str c) b n (mb, cur) = track_chunk (num_field c v) (mb, cur)"
    proof -
      have "c = ''D0'' \<or> c = ''AT'' \<or> c = ''FQ'' \<or> c = ''FR'' \<or> c = ''LP'' \<or> c = ''LF'' \<or> c = ''TY''"
        using ok False by simp
      then show ?thesis by (elim disjE) (simp_all add: load_chunk_def v Let_def num_field_def)
    qed
    have "reads (track_chunk (num_field c v) (mb, cur)) (ddata mb)
        (put_tune (\<lambda>t. t\<lparr>tnum := num_field c v (tnum t)\<rparr>) (album_of mb))"
    proof (rule track_chunk_reads [OF inv])
      show "atunes (album_of mb) \<noteq> []" using ok False by simp
      show "mtags (num_field c v m) = mtags m" for m by (simp add: num_field_def)
      show "tune_of (ddata mb) (num_field c v m) = (tune_of (ddata mb) m)
          \<lparr>tnum := num_field c v (tnum (tune_of (ddata mb) m))\<rparr>" for m
        by (simp add: num_field_def tune_of_def numbers_def data_of_def)
    qed
    then show ?thesis unfolding f using False by (simp add: put_num_def)
  qed
qed

lemma text_reads:
  assumes inv: "load_inv (mb, cur)" and ok: "chunk_ok (Txt c x) (album_of mb)"
    and at: "drop b (ddata mb) = x @ 0 # r"
  shows "reads (load_chunk (c_str c) b n (mb, cur)) (ddata mb) (step_album (Txt c x) (album_of mb))"
proof -
  have x: "cstr_at (ddata mb) b = x" using ok by (intro cstr_at_at [OF at]) simp
  show ?thesis
  proof (cases "c = ''RE''")
    case True
    have f: "load_chunk (c_str c) b n (mb, cur) = track_chunk (replay_update (\<lambda>_. Some (Data b))) (mb, cur)"
      by (simp add: load_chunk_def True Let_def)
    have "reads (track_chunk (replay_update (\<lambda>_. Some (Data b))) (mb, cur)) (ddata mb)
        (put_tune (\<lambda>t. t\<lparr>treplay := Some x\<rparr>) (album_of mb))"
      using ok True by (intro track_chunk_reads [OF inv]) (simp_all add: tune_of_def numbers_def data_of_def x)
    then show ?thesis unfolding f by (simp add: True)
  next
    case False
    define k where "k = (if c = ''AN'' then TAG68_ID_ARTIST else TAG68_ID_TITLE)"
    have k: "k < TAG68_ID_MAX" by (simp add: k_def TAG68_ID_ARTIST_def TAG68_ID_TITLE_def TAG68_ID_MAX_def)
    have f: "load_chunk (c_str c) b n (mb, cur) =
        Next (set_tags (cur_tags cur) (put_val k (Some (Data b)) (tags_of (cur_tags cur) mb)) mb, cur)"
    proof -
      have "c = ''FN'' \<or> c = ''MN'' \<or> c = ''AN''" using ok False by simp
      then show ?thesis by (elim disjE) (simp_all add: load_chunk_def Let_def k_def set_cur_tag_def)
    qed
    have "reads (Next (set_tags (cur_tags cur) (put_val k (Some (Data b)) (tags_of (cur_tags cur) mb)) mb, cur))
        (ddata mb) (put_texts (put_text k x) (album_of mb))"
      by (rule tags_reads [OF inv]) (use k put_val_texts [of k] x in \<open>simp_all add: put_val_def\<close>)
    then show ?thesis unfolding f using False by (simp add: k_def)
  qed
qed

lemma tag_reads:
  assumes inv: "load_inv (mb, cur)" and ok: "chunk_ok (Tag k v) (album_of mb)"
    and at: "drop b (ddata mb) = k @ 0 # v @ 0 # r"
  shows "reads (load_chunk (c_str ''TG'') b n (mb, cur)) (ddata mb) (step_album (Tag k v) (album_of mb))"
proof -
  have k: "cstr_at (ddata mb) b = k" using ok by (intro cstr_at_at [OF at]) simp
  have "drop (b + size k + 1) (ddata mb) = drop (size k + 1) (drop b (ddata mb))" by (simp add: add_ac)
  then have "drop (b + size k + 1) (ddata mb) = v @ 0 # r" by (simp add: at)
  then have v: "cstr_at (ddata mb) (b + size k + 1) = v" using ok by (intro cstr_at_at) simp_all
  let ?f = "\<lambda>ts. snd (set_customtag (ddata mb) ts (Some (Data b)) (Some (Data (b + size k + 1))))"
  have f: "load_chunk (c_str ''TG'') b n (mb, cur) =
      Next (set_tags (cur_tags cur) (?f (tags_of (cur_tags cur) mb)) mb, cur)"
    by (simp add: load_chunk_def Let_def k)
  have "reads (Next (set_tags (cur_tags cur) (?f (tags_of (cur_tags cur) mb)) mb, cur)) (ddata mb)
      (put_texts (put_tag k v) (album_of mb))"
    by (rule tags_reads [OF inv]) (simp_all only: set_customtag_texts k v)
  then show ?thesis by (simp add: f)
qed

lemma mark_reads:
  assumes inv: "load_inv (mb, cur)" and ok: "chunk_ok (Mark c) (album_of mb)"
  shows "reads (load_chunk (c_str c) b n (mb, cur)) (ddata mb) (step_album (Mark c) (album_of mb))"
proof (cases "c = ''MU''")
  case True
  then have "size (atunes (album_of mb)) < SC68_MAX_TRACK" using ok by simp
  from new_track_reads [OF inv this] show ?thesis by (simp add: load_chunk_def True Let_def)
next
  case False
  then have c: "c = ''FX''" "atunes (album_of mb) \<noteq> []" using ok by auto
  have "reads (track_chunk (has_sfx_update (\<lambda>_. True)) (mb, cur)) (ddata mb)
      (put_num (has_sfx_update (\<lambda>_. True)) (album_of mb))"
    unfolding put_num_def
    by (rule track_chunk_reads [OF inv c(2)]) (simp_all add: tune_of_def numbers_def data_of_def)
  then show ?thesis by (simp add: c load_chunk_def Let_def)
qed

lemma bytes_reads:
  assumes inv: "load_inv (mb, cur)" and ok: "chunk_ok (Bytes p) (album_of mb)"
    and at: "drop b (ddata mb) = padded p @ r"
  shows "reads (load_chunk (c_str ''DA'') b (word_of_nat (size (padded p))) (mb, cur)) (ddata mb)
    (step_album (Bytes p) (album_of mb))"
proof -
  let ?n = "word_of_nat (size (padded p)) :: s32"
  have "size p mod 2 < 2" "size p < 2147483647" using ok by simp_all
  then have "size (padded p) < 4294967296" by (simp only: padded_def length_append length_replicate)
  then have n: "unat ?n = size (padded p)" by (simp add: unat_of_nat take_bit_nat_eq_self)
  have "reads (track_chunk (\<lambda>m. m\<lparr>mdata := Some b, mdatasz := ?n\<rparr>) (mb, cur)) (ddata mb)
      (put_tune (\<lambda>t. t\<lparr>tdata := Some (padded p)\<rparr>) (album_of mb))"
    using ok by (intro track_chunk_reads [OF inv]) (simp_all add: tune_of_def numbers_def data_of_def n at)
  then show ?thesis by (simp add: load_chunk_def Let_def)
qed

text \<open>Every chunk that can follow does what it does to the album.\<close>

lemma load_chunk_reads:
  assumes inv: "load_inv (mb, cur)" and ok: "chunk_ok c (album_of mb)"
    and at: "drop b (ddata mb) = padded (contents c) @ r"
  shows "reads (load_chunk (chunk_id c) b (word_of_nat (size (padded (contents c)))) (mb, cur)) (ddata mb)
    (step_album c (album_of mb))"
proof (cases c)
  case (Num x v)
  then have "drop b (ddata mb) = LPoke v @ r" using at by (simp add: padded_def)
  from num_reads [OF inv _ this] show ?thesis using Num ok by simp
next
  case (Txt x y)
  then have "drop b (ddata mb) = y @ 0 # (replicate (Suc (size y) mod 2) 0 @ r)"
    using at by (simp add: padded_str)
  from text_reads [OF inv _ this] show ?thesis using Txt ok by simp
next
  case (Tag k v)
  then have "drop b (ddata mb) = k @ 0 # v @ 0 # (replicate (size (contents c) mod 2) 0 @ r)"
    using at by (simp add: padded_def)
  from tag_reads [OF inv _ this] show ?thesis using Tag ok by simp
next
  case (Mark x)
  then show ?thesis using mark_reads [OF inv] ok by simp
next
  case (Bytes p)
  then show ?thesis using bytes_reads [OF inv] ok at by simp
qed

section \<open>The loop over the chunks\<close>

fun chunks_ok :: "chunk list \<Rightarrow> album68 \<Rightarrow> bool" where
  "chunks_ok [] al \<longleftrightarrow> True"
| "chunks_ok (c # cs) al \<longleftrightarrow> chunk_ok c al \<and> chunks_ok cs (step_album c al)"

lemma chunks_ok_append: "chunks_ok (cs @ cs') al \<longleftrightarrow> chunks_ok cs al \<and> chunks_ok cs' (fold step_album cs al)"
  by (induction cs arbitrary: al) auto

lemma size_chunk_id: "chunk_ok c al \<Longrightarrow> size (chunk_id c) = 2"
  by (cases c) auto

lemma padded_le: "size (padded p) \<le> size p + 1"
  by (simp add: padded_def)

lemma sint_size: "n < 2 ^ 31 \<Longrightarrow> sint (word_of_nat n :: s32) = int n"
  by (subst sint_small) (simp_all add: unat_of_nat take_bit_nat_eq_self)

text \<open>The head of a chunk, read where it lies.\<close>

lemma chunk_head_at:
  assumes "drop b d = chunk_head c n @ r" "c = [c0, c1]"
  shows "byte_at d b = 83" "byte_at d (b + 1) = 67" "byte_at d (b + 2) = c0" "byte_at d (b + 3) = c1"
    "LPeek d (b + 4) = n" "drop (b + 8) d = r"
proof -
  have h: "drop b d = 83 # 67 # c0 # c1 # LPoke n @ r"
    using assms by (simp add: chunk_head_def c_str_def of_char_def)
  have "byte_at d (b + i) = byte_at (83 # 67 # c0 # c1 # LPoke n @ r) i" for i
    using byte_at_drop [of b d i] h by simp
  from this [of 0] this [of 1] this [of 2] this [of 3]
  show "byte_at d b = 83" "byte_at d (b + 1) = 67" "byte_at d (b + 2) = c0" "byte_at d (b + 3) = c1"
    by (simp_all add: byte_at_def)
  have "drop (b + 4) d = drop 4 (drop b d)" by (simp add: add.commute)
  then show "LPeek d (b + 4) = n" by (intro LPeek_at) (simp add: h)
  have "drop (b + 8) d = drop 8 (drop b d)" by (simp add: add.commute)
  then show "drop (b + 8) d = r" by (simp add: h)
qed

lemma load_loop_chunk:
  assumes inv: "load_inv (mb, cur)" and ok: "chunk_ok c (album_of mb)"
    and at: "drop b (ddata mb) = chunk_bytes c @ r" and small: "size (ddata mb) < 2 ^ 31"
    and len: "len = int (size (chunk_bytes c @ r))"
  obtains mb' cur' where "load_inv (mb', cur')" "ddata mb' = ddata mb" "album_of mb' = step_album c (album_of mb)"
    "load_loop (int b) len (mb, cur) =
       load_loop (int (b + size (chunk_bytes c))) (int (size r)) (mb', cur')"
proof -
  define d where "d = ddata mb"
  let ?p = "padded (contents c)"
  let ?n = "word_of_nat (size ?p) :: s32"
  obtain c0 c1 where c: "chunk_id c = [c0, c1]"
    using size_chunk_id [OF ok] by (auto simp: length_Suc_conv numeral_2_eq_2)
  have "drop b d = chunk_head (chunk_id c) ?n @ (?p @ r)" using at by (simp add: d_def chunk_bytes_def)
  note h = chunk_head_at [OF this c]
  have size: "size (chunk_bytes c) = 8 + size ?p" by (simp add: chunk_bytes_def chunk_head_def c)
  have "size (drop b d) \<le> size d" by simp
  then have p: "size ?p < 2 ^ 31" "8 + size ?p + size r < 2 ^ 31"
    using at size small by (simp_all add: d_def)
  have step: "reads (load_chunk [c0, c1] (b + 8) ?n (mb, cur)) d (step_album c (album_of mb))"
    using load_chunk_reads [OF inv ok h(6) [unfolded d_def]] by (simp add: c d_def)
  then obtain mb' cur' where r: "load_chunk [c0, c1] (b + 8) ?n (mb, cur) = Next (mb', cur')"
      "load_inv (mb', cur')" "ddata mb' = d" "album_of mb' = step_album c (album_of mb)"
    by (auto simp: reads_def)
  have n: "sint ?n = int (size ?p)" using p(1) by (rule sint_size)
  have l: "i32 (len - 8 - int (size ?p)) = int (size r)"
    using len size p by (simp add: i32_id)
  have "load_loop (int b) len (mb, cur) = load_loop (int b + 8 + int (size ?p)) (int (size r)) (mb', cur')"
    by (subst load_loop.simps) (use h r(1) n l len size in \<open>simp add: d_def Let_def\<close>)
  moreover have "int b + 8 + int (size ?p) = int (b + size (chunk_bytes c))" by (simp add: size)
  ultimately show thesis using that r by (simp add: d_def)
qed

text \<open>A list of chunks that can follow one another, and the end.\<close>

lemma load_loop_chunks:
  "load_inv (mb, cur) \<Longrightarrow> chunks_ok cs (album_of mb) \<Longrightarrow> size (ddata mb) < 2 ^ 31 \<Longrightarrow>
    drop b (ddata mb) = layout (cs @ [Mark ''EF'']) \<Longrightarrow>
    \<exists>mb'. load_loop (int b) (int (size (layout (cs @ [Mark ''EF''])))) (mb, cur) = Some (Good mb') \<and>
      ddata mb' = ddata mb \<and> album_of mb' = fold step_album cs (album_of mb)"
proof (induction cs arbitrary: b mb cur)
  case Nil
  have "drop b (ddata mb) = chunk_head (c_str ''EF'') 0 @ []"
    using Nil.prems(4) by (simp add: chunk_bytes_def padded_def)
  note h = chunk_head_at [OF this, of "hd (c_str ''EF'')" "c_str ''EF'' ! 1", simplified]
  have id: "[hd (c_str ''EF''), c_str ''EF'' ! 1] = c_str ''EF''" by (simp add: c_str_def)
  have len: "size (chunk_bytes (Mark ''EF'')) = 8" by (simp add: chunk_bytes_def padded_def chunk_head_def)
  have "load_chunk (c_str ''EF'') (b + 8) 0 (mb, cur) = Stop (mb, cur)" by (simp add: load_chunk_def Let_def)
  then have "load_loop (int b) 8 (mb, cur) = Some (Good mb)"
    by (subst load_loop.simps) (simp add: h id Let_def c_str_def)
  then show ?case by (simp add: len)
next
  case (Cons c cs)
  let ?rest = "layout (cs @ [Mark ''EF''])"
  have at: "drop b (ddata mb) = chunk_bytes c @ ?rest" using Cons.prems(4) by simp
  obtain mb' cur' where s: "load_inv (mb', cur')" "ddata mb' = ddata mb" "album_of mb' = step_album c (album_of mb)"
    "load_loop (int b) (int (size (chunk_bytes c @ ?rest))) (mb, cur) =
       load_loop (int (b + size (chunk_bytes c))) (int (size ?rest)) (mb', cur')"
    using load_loop_chunk [OF Cons.prems(1) _ at Cons.prems(3) refl] Cons.prems(2) by auto
  have "drop (b + size (chunk_bytes c)) (ddata mb) = drop (size (chunk_bytes c)) (drop b (ddata mb))"
    by (simp add: add.commute)
  then have "drop (b + size (chunk_bytes c)) (ddata mb') = ?rest" by (simp add: at s)
  from Cons.IH [OF s(1) _ _ this] show ?case using Cons.prems(2,3) s by simp
qed

section \<open>What a saved disk is when it is read back\<close>

definition nonempty :: "cstr option \<Rightarrow> cstr option" where
  "nonempty s = (if s = Some [] then None else s)"

text \<open>
  The three fixed tags, with what is read for the first two, and the custom tags that are saved, in
  their order and without gaps.
\<close>

definition tags_back :: "texts \<Rightarrow> cstr option \<Rightarrow> cstr option \<Rightarrow> texts \<Rightarrow> texts" where
  "tags_back base title artist tt =
    (let full = full_tags (drop TAG68_ID_CUSTOM tt)
     in [(fst (base ! 0), or_else title (snd (base ! 0))), (fst (base ! 1), or_else artist (snd (base ! 1))), base ! 2] @
        map (\<lambda>(k, v). (Some k, Some v)) full @
        replicate (TAG68_ID_MAX - TAG68_ID_CUSTOM - size full) (None, None))"

definition numbers_back :: "music68 \<Rightarrow> music68" where
  "numbers_back m =
    (numbers no_music)
      \<lparr>d0 := d0 m, a0 := (if has_pic m then 0 else a0 m), frq := (if frq m = 50 then 0 else frq m),
       first_fr := (if has_time m \<and> first_fr m < 0x1000000 then first_fr m else 0),
       loops := (if has_loop m \<and> -1 \<le> sint (loops m) then loops m else 0),
       loops_fr := (if has_loop m then loops_fr m else 0), has_loop := has_loop m, has_sfx := has_sfx m,
       hwflags := (if hwflags m AND NOT (SC68_XTD - 1) \<noteq> 0 then hwflags m OR SC68_XTD else hwflags m)\<rparr>"

definition tune_back :: "u8 list \<Rightarrow> before \<Rightarrow> music68 \<Rightarrow> tune68" where
  "tune_back d = (\<lambda>(title, artist, p) m.
    \<lparr>tnum = numbers_back m, treplay = nonempty (text_of d (replay m)),
     ttags = tags_back (ttags new_tune)
       (nonempty (differs (text_of d (tag_val (mtags m) TAG68_ID_TITLE)) title))
       (nonempty (differs (text_of d (tag_val (mtags m) TAG68_ID_ARTIST)) artist)) (texts_of d (mtags m)),
     tdata = (if mdata m = p then None else map_option padded (data_of d m))\<rparr>)"

fun tunes_back :: "u8 list \<Rightarrow> before \<Rightarrow> music68 list \<Rightarrow> tune68 list" where
  "tunes_back d b [] = []"
| "tunes_back d b (m # ms) = tune_back d b m # tunes_back d (next_before d b m) ms"

definition empty_album :: album68 where
  "empty_album = album_of (new_disk [] ''sc68'')"

definition album_back :: "disk68 \<Rightarrow> album68" where
  "album_back mb =
    (let d = ddata mb;
         album = text_of d (tag_val (dtags mb) TAG68_ID_TITLE);
         artist = text_of d (tag_val (dtags mb) TAG68_ID_ARTIST)
     in \<lparr>adef = def_mus mb,
         atags = tags_back (atags empty_album) (nonempty (not_noname album)) (nonempty (not_noname artist))
           (texts_of d (dtags mb)),
         atunes = tunes_back d (album, artist, None) (tracks_of mb)\<rparr>)"

text \<open>
  The disks this is about: strings end at a zero, the keys of custom tags are those
  \<open>file68_tag_set\<close> leaves: not the names of the fixed tags, and different from each other.
\<close>

definition no_zero :: "cstr option \<Rightarrow> bool" where
  "no_zero s \<longleftrightarrow> (case s of None \<Rightarrow> True | Some x \<Rightarrow> 0 \<notin> set x)"

definition keys_ok :: "(cstr \<times> cstr) list \<Rightarrow> bool" where
  "keys_ok kvs \<longleftrightarrow> list_all (\<lambda>(k, v). fixed_slot (Some k) = None) kvs \<and>
    sorted_wrt (\<lambda>(k, _) (k', _). strcmp68 (Some k') (Some k) \<noteq> 0) kvs"

definition tags_ok :: "u8 list \<Rightarrow> tagset68 \<Rightarrow> bool" where
  "tags_ok d ts \<longleftrightarrow> size ts = TAG68_ID_MAX \<and>
    list_all (\<lambda>(k, v). no_zero k \<and> no_zero v) (texts_of d ts) \<and>
    keys_ok (full_tags (drop TAG68_ID_CUSTOM (texts_of d ts)))"

definition music_ok :: "u8 list \<Rightarrow> music68 \<Rightarrow> bool" where
  "music_ok d m \<longleftrightarrow> data_ok d m \<and> unat (mdatasz m) < 2 ^ 31 - 1 \<and> tags_ok d (mtags m) \<and> no_zero (text_of d (replay m))"

lemma strcmp68_none [simp]: "strcmp68 (Some k) None \<noteq> 0" "strcmp68 None (Some k) \<noteq> 0" "strcmp68 None None = 0"
  by (simp_all add: strcmp68_def)

lemma fixed_slot_none [simp]: "fixed_slot None = None"
  by (simp add: fixed_slot_def)

lemma find_upt_first:
  assumes "a \<le> n" "n < b" "P n" "\<And>i. a \<le> i \<Longrightarrow> i < n \<Longrightarrow> \<not> P i"
  shows "find P [a ..< b] = Some n"
proof -
  have "[a ..< b] = [a ..< n] @ n # [Suc n ..< b]"
    using assms(1,2) by (metis le_add_diff_inverse less_imp_le_nat upt_add_eq_append upt_conv_Cons)
  moreover have "find P [a ..< n] = None" using assms(4) by (auto simp: find_None_iff)
  moreover have "find P (xs @ ys) = (case find P xs of None \<Rightarrow> find P ys | s \<Rightarrow> s)" for xs ys
    by (induction xs) auto
  ultimately show ?thesis using assms(3) by simp
qed

text \<open>A new key goes to the first free slot.\<close>

lemma put_tag_new:
  assumes "fixed_slot (Some k) = None" "size three = TAG68_ID_CUSTOM"
    and "\<forall>kv \<in> set old. \<exists>x. fst kv = Some x \<and> strcmp68 (Some k) (Some x) \<noteq> 0"
    and "size old < TAG68_ID_MAX - TAG68_ID_CUSTOM"
  shows "put_tag k v (three @ old @ replicate (TAG68_ID_MAX - TAG68_ID_CUSTOM - size old) (None, None)) =
    three @ old @ [(Some k, Some v)] @ replicate (TAG68_ID_MAX - TAG68_ID_CUSTOM - Suc (size old)) (None, None)"
proof -
  let ?n = "TAG68_ID_MAX - TAG68_ID_CUSTOM - size old"
  let ?tt = "three @ old @ replicate ?n (None, None)"
  have n: "?n = Suc (TAG68_ID_MAX - TAG68_ID_CUSTOM - Suc (size old))" using assms(4) by simp
  have keys: "fst (?tt ! i) = None \<or> (\<exists>x. fst (?tt ! i) = Some x \<and> strcmp68 (Some k) (Some x) \<noteq> 0)"
    if "TAG68_ID_CUSTOM \<le> i" "i < TAG68_ID_MAX" for i
  proof (cases "i - TAG68_ID_CUSTOM < size old")
    case True
    then show ?thesis using that assms(2,3) nth_mem [of "i - TAG68_ID_CUSTOM" old] by (simp add: nth_append)
  next
    case False
    then have "i - TAG68_ID_CUSTOM - size old < ?n" using that by linarith
    then show ?thesis using False that assms(2) by (simp add: nth_append)
  qed
  have used: "fst (?tt ! i) \<noteq> None" if "TAG68_ID_CUSTOM \<le> i" "i < TAG68_ID_CUSTOM + size old" for i
  proof -
    have "i - TAG68_ID_CUSTOM < size old" using that by linarith
    then show ?thesis using that assms(2,3) nth_mem [of "i - TAG68_ID_CUSTOM" old] by (fastforce simp: nth_append)
  qed
  have free: "?tt ! (TAG68_ID_CUSTOM + size old) = (None, None)" using assms(2) n by (simp add: nth_append)
  have "find (\<lambda>i. strcmp68 (Some k) (fst (?tt ! i)) = 0) [TAG68_ID_CUSTOM ..< TAG68_ID_MAX] = None"
    using keys by (force simp: find_None_iff)
  then have 1: "key_slot ?tt (Some k) = None" using assms(1) by (simp add: key_slot_def)
  have lt: "TAG68_ID_CUSTOM + size old < TAG68_ID_MAX" using assms(4) by linarith
  have "find (\<lambda>i. strcmp68 None (fst (?tt ! i)) = 0) [TAG68_ID_CUSTOM ..< TAG68_ID_MAX] = Some (TAG68_ID_CUSTOM + size old)"
    using lt free used by (intro find_upt_first) fastforce+
  then have 2: "key_slot ?tt None = Some (TAG68_ID_CUSTOM + size old)" by (simp add: key_slot_def)
  show ?thesis
    unfolding put_tag_def 1 2 option.case free
    unfolding n by (simp add: or_else_def list_update_append assms(2) del: diff_diff_left)
qed

lemma put_tags_new:
  assumes "keys_ok kvs" "size three = TAG68_ID_CUSTOM" "size kvs + size old \<le> TAG68_ID_MAX - TAG68_ID_CUSTOM"
    and "\<forall>kv \<in> set old. \<exists>x. fst kv = Some x \<and> (\<forall>(k, v) \<in> set kvs. strcmp68 (Some k) (Some x) \<noteq> 0)"
  shows "fold (\<lambda>(k, v). put_tag k v) kvs
      (three @ old @ replicate (TAG68_ID_MAX - TAG68_ID_CUSTOM - size old) (None, None)) =
    three @ old @ map (\<lambda>(k, v). (Some k, Some v)) kvs @
      replicate (TAG68_ID_MAX - TAG68_ID_CUSTOM - size old - size kvs) (None, None)"
  using assms
proof (induction kvs arbitrary: old)
  case Nil
  then show ?case by simp
next
  case (Cons kv kvs)
  obtain k v where kv: "kv = (k, v)" by fastforce
  have step: "put_tag k v (three @ old @ replicate (TAG68_ID_MAX - TAG68_ID_CUSTOM - size old) (None, None)) =
    three @ (old @ [(Some k, Some v)]) @ replicate (TAG68_ID_MAX - TAG68_ID_CUSTOM - size (old @ [(Some k, Some v)])) (None, None)"
    using put_tag_new [of k three old v] Cons.prems by (fastforce simp: kv keys_ok_def)
  have "keys_ok kvs" using Cons.prems(1) by (simp add: keys_ok_def)
  moreover have "\<forall>e \<in> set (old @ [(Some k, Some v)]). \<exists>x. fst e = Some x \<and> (\<forall>(k, v) \<in> set kvs. strcmp68 (Some k) (Some x) \<noteq> 0)"
    using Cons.prems(1,4) by (fastforce simp: kv keys_ok_def)
  moreover have "size kvs + size (old @ [(Some k, Some v)]) \<le> TAG68_ID_MAX - TAG68_ID_CUSTOM" using Cons.prems(3) by simp
  ultimately show ?case
    using Cons.IH [of "old @ [(Some k, Some v)]"] Cons.prems(2) by (simp add: kv step del: diff_diff_left)
qed

lemma full_tags_le: "size (full_tags tt) \<le> size tt"
  by (induction tt rule: full_tags.induct) auto

lemma full_tags_in: "(k, v) \<in> set (full_tags tt) \<Longrightarrow> (Some k, Some v) \<in> set tt"
  by (induction tt rule: full_tags.induct) auto

text \<open>The tags of a disk or a track, added to tags without custom ones.\<close>

lemma put_full_tags:
  assumes "tags_ok d ts" "size three = TAG68_ID_CUSTOM"
  shows "fold (\<lambda>(k, v). put_tag k v) (full_tags (drop TAG68_ID_CUSTOM (texts_of d ts)))
      (three @ replicate (TAG68_ID_MAX - TAG68_ID_CUSTOM) (None, None)) =
    three @ map (\<lambda>(k, v). (Some k, Some v)) (full_tags (drop TAG68_ID_CUSTOM (texts_of d ts))) @
      replicate (TAG68_ID_MAX - TAG68_ID_CUSTOM - size (full_tags (drop TAG68_ID_CUSTOM (texts_of d ts)))) (None, None)"
proof -
  have "size (full_tags (drop TAG68_ID_CUSTOM (texts_of d ts))) + size ([] :: texts) \<le> TAG68_ID_MAX - TAG68_ID_CUSTOM"
    using full_tags_le [of "drop TAG68_ID_CUSTOM (texts_of d ts)"] assms(1) by (simp add: tags_ok_def)
  from put_tags_new [OF _ assms(2) this] show ?thesis using assms(1) by (simp add: tags_ok_def)
qed

text \<open>Chunks acting on an album whose last track is \<open>t\<close>.\<close>

lemma step_last [simp]:
  "put_tune f (al\<lparr>atunes := ts @ [t]\<rparr>) = al\<lparr>atunes := ts @ [f t]\<rparr>"
  "put_texts g (al\<lparr>atunes := ts @ [t]\<rparr>) = al\<lparr>atunes := ts @ [t\<lparr>ttags := g (ttags t)\<rparr>]\<rparr>"
  "put_num h (al\<lparr>atunes := ts @ [t]\<rparr>) = al\<lparr>atunes := ts @ [t\<lparr>tnum := h (tnum t)\<rparr>]\<rparr>"
  by (simp_all add: put_tune_def put_texts_def put_num_def)

text \<open>A group of chunks can follow, and makes an album.\<close>

definition makes :: "chunk list \<Rightarrow> album68 \<Rightarrow> album68 \<Rightarrow> bool" where
  "makes cs al al' \<longleftrightarrow> chunks_ok cs al \<and> fold step_album cs al = al'"

lemma makes_append: "makes cs al al' \<Longrightarrow> makes cs' al' al'' \<Longrightarrow> makes (cs @ cs') al al''"
  by (auto simp: makes_def chunks_ok_append)

lemma makes_nil [simp]: "makes [] al al' \<longleftrightarrow> al' = al"
  by (auto simp: makes_def)

lemma makes_one: "makes [c] al al' \<longleftrightarrow> chunk_ok c al \<and> al' = step_album c al"
  by (auto simp: makes_def)

abbreviation with_last :: "album68 \<Rightarrow> tune68 list \<Rightarrow> tune68 \<Rightarrow> album68" where
  "with_last al ts t \<equiv> al\<lparr>atunes := ts @ [t]\<rparr>"

lemma makes_num:
  assumes "c \<in> set [''D0'', ''AT'', ''FQ'', ''FR'', ''LP'']" "num_field c 0 (tnum t) = tnum t"
  shows "makes (num_chunk c v) (with_last al ts t) (with_last al ts (t\<lparr>tnum := num_field c v (tnum t)\<rparr>))"
  using assms by (auto simp: num_chunk_def makes_one)

lemma makes_replay:
  assumes "no_zero s" "treplay t = None"
  shows "makes (txt_chunk ''RE'' s) (with_last al ts t) (with_last al ts (t\<lparr>treplay := nonempty s\<rparr>))"
  using assms by (auto simp: txt_chunk_def makes_one nonempty_def no_zero_def split: option.split)

lemma makes_text:
  assumes "no_zero s" "c = ''MN'' \<and> i = TAG68_ID_TITLE \<or> c = ''AN'' \<and> i = TAG68_ID_ARTIST"
  shows "makes (txt_chunk c s) (with_last al ts t)
    (with_last al ts (t\<lparr>ttags := (ttags t)[i := (fst (ttags t ! i), or_else (nonempty s) (snd (ttags t ! i)))]\<rparr>))"
  using assms
  by (auto simp: txt_chunk_def makes_one nonempty_def no_zero_def put_text_def or_else_def split: option.split)

lemma tag_chunks_makes:
  assumes "tags_ok d ts"
  shows "makes (tag_chunks (texts_of d ts)) al
    (put_texts (fold (\<lambda>(k, v). put_tag k v) (full_tags (drop TAG68_ID_CUSTOM (texts_of d ts)))) al)"
proof -
  have zero: "0 \<notin> set k \<and> 0 \<notin> set v" if "(k, v) \<in> set (full_tags (drop TAG68_ID_CUSTOM (texts_of d ts)))" for k v
    using full_tags_in [OF that] assms in_set_dropD [of "(Some k, Some v)" TAG68_ID_CUSTOM "texts_of d ts"]
    by (auto simp: tags_ok_def list_all_iff no_zero_def)
  have id: "put_texts (\<lambda>tt. tt) al = al" for al by (cases "atunes al = []") (simp_all add: put_texts_def)
  have comp: "put_texts f (put_texts g al) = put_texts (f \<circ> g) al" for f g al by (simp add: put_texts_def)
  have "(\<And>k v. (k, v) \<in> set kvs \<Longrightarrow> 0 \<notin> set k \<and> 0 \<notin> set v) \<Longrightarrow>
      makes (map (\<lambda>(k, v). Tag k v) kvs) al (put_texts (fold (\<lambda>(k, v). put_tag k v) kvs) al)" for kvs
  proof (induction kvs arbitrary: al)
    case Nil
    then show ?case by (simp add: id_def id)
  next
    case (Cons kv kvs)
    obtain k v where kv: "kv = (k, v)" by fastforce
    have "makes [Tag k v] al (put_texts (put_tag k v) al)" using Cons.prems by (auto simp: makes_one kv)
    from makes_append [OF this Cons.IH] show ?case using Cons.prems by (auto simp: kv comp comp_def)
  qed
  then show ?thesis unfolding tag_chunks_def using zero by blast
qed

text \<open>The fixed tags, then the custom ones: what is read of a tag set.\<close>

lemma tag_set_makes:
  assumes ok: "tags_ok d ts" and base: "ttags t = three @ replicate (TAG68_ID_MAX - TAG68_ID_CUSTOM) (None, None)"
      "size three = TAG68_ID_CUSTOM"
    and zero: "no_zero title" "no_zero artist"
  shows "makes (txt_chunk ''MN'' title @ txt_chunk ''AN'' artist @ tag_chunks (texts_of d ts)) (with_last al us t)
    (with_last al us (t\<lparr>ttags := tags_back (ttags t) (nonempty title) (nonempty artist) (texts_of d ts)\<rparr>))"
proof -
  obtain x y z where three: "three = [x, y, z]"
    using base(2) by (auto simp: TAG68_ID_CUSTOM_def numeral_3_eq_3 length_Suc_conv)
  let ?x = "(fst x, or_else (nonempty title) (snd x))" and ?y = "(fst y, or_else (nonempty artist) (snd y))"
  let ?none = "replicate (TAG68_ID_MAX - TAG68_ID_CUSTOM) (None, None)"
  let ?full = "full_tags (drop TAG68_ID_CUSTOM (texts_of d ts))"
  have t1: "makes (txt_chunk ''MN'' title) (with_last al us t) (with_last al us (t\<lparr>ttags := [?x, y, z] @ ?none\<rparr>))"
    using makes_text [OF zero(1), where c = "''MN''" and i = TAG68_ID_TITLE and al = al and ts = us and t = t] base three by (simp add: TAG68_ID_TITLE_def)
  have t2: "makes (txt_chunk ''AN'' artist) (with_last al us (t\<lparr>ttags := [?x, y, z] @ ?none\<rparr>))
      (with_last al us (t\<lparr>ttags := [?x, ?y, z] @ ?none\<rparr>))"
    using makes_text [OF zero(2), where c = "''AN''" and i = TAG68_ID_ARTIST and al = al and ts = us
        and t = "t\<lparr>ttags := [?x, y, z] @ ?none\<rparr>"]
    by (simp add: TAG68_ID_ARTIST_def)
  have "fold (\<lambda>(k, v). put_tag k v) ?full ([?x, ?y, z] @ ?none) =
      tags_back (ttags t) (nonempty title) (nonempty artist) (texts_of d ts)"
    using put_full_tags [OF ok, of "[?x, ?y, z]"] base three
    by (simp add: tags_back_def TAG68_ID_CUSTOM_def Let_def)
  then have t3: "makes (tag_chunks (texts_of d ts)) (with_last al us (t\<lparr>ttags := [?x, ?y, z] @ ?none\<rparr>))
      (with_last al us (t\<lparr>ttags := tags_back (ttags t) (nonempty title) (nonempty artist) (texts_of d ts)\<rparr>))"
    using tag_chunks_makes [OF ok, of "with_last al us (t\<lparr>ttags := [?x, ?y, z] @ ?none\<rparr>)"] by simp
  from makes_append [OF t1 makes_append [OF t2 t3]] show ?thesis .
qed

lemma new_tune_tags:
  "ttags new_tune = [(Some (c_str ''title''), None), (Some (c_str ''artist''), None), (Some (c_str ''genre''), None)] @
    replicate (TAG68_ID_MAX - TAG68_ID_CUSTOM) (None, None)"
  by (simp add: new_tune_def tune_of_def no_music_def no_tags_def texts_of_def tagstr_def TAG68_ID_MAX_def
      TAG68_ID_CUSTOM_def)

lemma numbers_no_music:
  "numbers no_music = \<lparr>d0 = 0, a0 = 0, frq = 0, first_ms = 0, first_fr = 0, loops_ms = 0, loops_fr = 0, loops = 0,
     has_sfx = False, has_pic = False, has_time = False, has_loop = False, replay = None,
     hwflags = 0, mtags = [], mdatasz = 0, mdata = None\<rparr>"
  by (simp add: numbers_def no_music_def)

text \<open>The numbers of a track, and its data.\<close>

lemma music_parms_makes:
  assumes "no_zero (text_of d (replay m))" "tnum t = numbers no_music" "treplay t = None"
  shows "makes (music_parms d m) (with_last al us t)
    (with_last al us (t\<lparr>treplay := nonempty (text_of d (replay m)), tnum := numbers_back m\<rparr>))"
proof -
  define t1 where "t1 = t\<lparr>treplay := nonempty (text_of d (replay m))\<rparr>"
  define n0 where "n0 = numbers no_music"
  define n1 where "n1 = num_field ''D0'' (d0 m) n0"
  define n2 where "n2 = num_field ''AT'' (of_bool (\<not> has_pic m) * a0 m) n1"
  define n3 where "n3 = num_field ''FQ'' (of_bool (frq m \<noteq> 50) * frq m) n2"
  define n4 where "n4 = num_field ''FR'' (of_bool (has_time m) * first_fr m) n3"
  define n5 where "n5 = num_field ''LP'' (of_bool (has_loop m) * loops m) n4"
  define n6 where "n6 = (if has_loop m then num_field ''LF'' (loops_fr m) n5 else n5)"
  define n7 where "n7 = num_field ''TY'' (hwflags m) n6"
  define n8 where "n8 = (if has_sfx m then has_sfx_update (\<lambda>_. True) n7 else n7)"
  note nums = n0_def n1_def n2_def n3_def n4_def n5_def n6_def n7_def n8_def numbers_no_music num_field_def
  have z: "num_field ''D0'' 0 n0 = n0" "num_field ''AT'' 0 n1 = n1" "num_field ''FQ'' 0 n2 = n2"
    "num_field ''FR'' 0 n3 = n3" "num_field ''LP'' 0 n4 = n4"
    by (simp_all add: nums)
  have n8: "n8 = numbers_back m"
  proof -
    have n5: "n5 = (numbers no_music)\<lparr>d0 := d0 m, a0 := of_bool (\<not> has_pic m) * a0 m,
        frq := of_bool (frq m \<noteq> 50) * frq m,
        first_fr := (let v = of_bool (has_time m) * first_fr m in if v \<ge> 0x1000000 then 0 else v),
        loops := (let v = of_bool (has_loop m) * loops m in if sint v < -1 then 0 else v)\<rparr>"
      by (simp add: n0_def n1_def n2_def n3_def n4_def n5_def numbers_no_music num_field_def Let_def)
    have fr: "(let v = of_bool (has_time m) * first_fr m in if v \<ge> 0x1000000 then 0 else v) =
        (if has_time m \<and> first_fr m < 0x1000000 then first_fr m else 0)"
      by (cases "has_time m"; cases "first_fr m < 0x1000000") (simp_all add: not_less [symmetric] Let_def)
    have lp: "(let v = of_bool (has_loop m) * loops m in if sint v < -1 then 0 else v) =
        (if has_loop m \<and> -1 \<le> sint (loops m) then loops m else 0)"
      by (simp add: not_less Let_def)
    show ?thesis
      unfolding n8_def n7_def n6_def n5 fr lp numbers_back_def numbers_no_music num_field_def
      by (cases "has_loop m"; cases "has_sfx m"; cases "has_pic m"; cases "frq m = 50"; simp split del: if_split)
  qed
  have num: "makes (num_chunk c v) (with_last al us (t1\<lparr>tnum := x\<rparr>)) (with_last al us (t1\<lparr>tnum := num_field c v x\<rparr>))"
    if "c \<in> set [''D0'', ''AT'', ''FQ'', ''FR'', ''LP'']" "num_field c 0 x = x" for c v x
    using makes_num [where t = "t1\<lparr>tnum := x\<rparr>" and al = al and ts = us] that by simp
  have 0: "makes (txt_chunk ''RE'' (text_of d (replay m))) (with_last al us t) (with_last al us (t1\<lparr>tnum := n0\<rparr>))"
  proof -
    have "t1\<lparr>tnum := n0\<rparr> = t1" by (rule tune68.equality) (simp_all add: t1_def n0_def assms(2))
    then show ?thesis using makes_replay [OF assms(1,3)] by (simp add: t1_def)
  qed
  have 6: "makes (if has_loop m then [Num ''LF'' (loops_fr m)] else []) (with_last al us (t1\<lparr>tnum := n5\<rparr>))
      (with_last al us (t1\<lparr>tnum := n6\<rparr>))"
    by (simp add: n6_def makes_one)
  have 7: "makes [Num ''TY'' (hwflags m)] (with_last al us (t1\<lparr>tnum := n6\<rparr>)) (with_last al us (t1\<lparr>tnum := n7\<rparr>))"
    by (simp add: n7_def makes_one)
  have 8: "makes (if has_sfx m then [Mark ''FX''] else []) (with_last al us (t1\<lparr>tnum := n7\<rparr>))
      (with_last al us (t1\<lparr>tnum := n8\<rparr>))"
    by (simp add: n8_def makes_one)
  have 1: "makes (num_chunk ''D0'' (d0 m)) (with_last al us (t1\<lparr>tnum := n0\<rparr>)) (with_last al us (t1\<lparr>tnum := n1\<rparr>))"
    unfolding n1_def by (rule num [OF _ z(1)]) simp
  have 2: "makes (num_chunk ''AT'' (of_bool (\<not> has_pic m) * a0 m)) (with_last al us (t1\<lparr>tnum := n1\<rparr>))
      (with_last al us (t1\<lparr>tnum := n2\<rparr>))"
    unfolding n2_def by (rule num [OF _ z(2)]) simp
  have 3: "makes (num_chunk ''FQ'' (of_bool (frq m \<noteq> 50) * frq m)) (with_last al us (t1\<lparr>tnum := n2\<rparr>))
      (with_last al us (t1\<lparr>tnum := n3\<rparr>))"
    unfolding n3_def by (rule num [OF _ z(3)]) simp
  have 4: "makes (num_chunk ''FR'' (of_bool (has_time m) * first_fr m)) (with_last al us (t1\<lparr>tnum := n3\<rparr>))
      (with_last al us (t1\<lparr>tnum := n4\<rparr>))"
    unfolding n4_def by (rule num [OF _ z(4)]) simp
  have 5: "makes (num_chunk ''LP'' (of_bool (has_loop m) * loops m)) (with_last al us (t1\<lparr>tnum := n4\<rparr>))
      (with_last al us (t1\<lparr>tnum := n5\<rparr>))"
    unfolding n5_def by (rule num [OF _ z(5)]) simp
  have "makes (music_parms d m) (with_last al us t) (with_last al us (t1\<lparr>tnum := n8\<rparr>))"
    unfolding music_parms_def
    by (rule makes_append [OF 0] makes_append [OF 1] makes_append [OF 2] makes_append [OF 3] makes_append [OF 4]
        makes_append [OF 5] makes_append [OF 6] makes_append [OF 7] 8)+
  then show ?thesis by (simp add: t1_def n8)
qed

lemma new_tune_fields: "tnum new_tune = numbers no_music" "treplay new_tune = None" "tdata new_tune = None"
  by (simp_all add: new_tune_def tune_of_def no_music_def data_of_def)

text \<open>A track.\<close>

lemma music_chunks_makes:
  assumes ok: "music_ok d m" and less: "size (atunes al) < SC68_MAX_TRACK"
  shows "makes (music_chunks d b m) al (al\<lparr>atunes := atunes al @ [tune_back d b m]\<rparr>)"
proof -
  obtain title artist p where b: "b = (title, artist, p)" by (metis prod_cases3)
  let ?us = "atunes al"
  let ?t = "differs (text_of d (tag_val (mtags m) TAG68_ID_TITLE)) title"
  let ?a = "differs (text_of d (tag_val (mtags m) TAG68_ID_ARTIST)) artist"
  have ts: "tags_ok d (mtags m)" "no_zero (text_of d (replay m))" using ok by (simp_all add: music_ok_def)
  have zero: "no_zero (text_of d (tag_val (mtags m) i))" if "i < TAG68_ID_MAX" for i
    using ts(1) that texts_of_nth [of i "mtags m" d]
    by (auto simp: tags_ok_def list_all_length tag_val_def split: prod.splits)
  then have z: "no_zero ?t" "no_zero ?a"
    by (auto simp: differs_def no_zero_def TAG68_ID_TITLE_def TAG68_ID_ARTIST_def TAG68_ID_MAX_def split: option.splits)
  define t1 where "t1 = new_tune\<lparr>ttags := tags_back (ttags new_tune) (nonempty ?t) (nonempty ?a) (texts_of d (mtags m))\<rparr>"
  define t2 where "t2 = t1\<lparr>treplay := nonempty (text_of d (replay m)), tnum := numbers_back m\<rparr>"
  have 0: "makes [Mark ''MU''] al (with_last al ?us new_tune)" using less by (simp add: makes_one)
  have 1: "makes (txt_chunk ''MN'' ?t @ txt_chunk ''AN'' ?a @ tag_chunks (texts_of d (mtags m)))
      (with_last al ?us new_tune) (with_last al ?us t1)"
    unfolding t1_def by (rule tag_set_makes [OF ts(1) new_tune_tags _ z]) (simp add: TAG68_ID_CUSTOM_def)
  have 2: "makes (music_parms d m) (with_last al ?us t1) (with_last al ?us t2)"
    unfolding t2_def by (rule music_parms_makes [OF ts(2)]) (simp_all add: t1_def new_tune_fields)
  have tune: "tune_back d b m = t2\<lparr>tdata := (if mdata m = p then None else map_option padded (data_of d m))\<rparr>"
    by (simp add: b tune_back_def t2_def t1_def)
  have 3: "makes (music_data d p m) (with_last al ?us t2) (with_last al ?us (tune_back d b m))"
  proof (cases "mdata m = p \<or> mdata m = None")
    case True
    then have "music_data d p m = []" by (cases "mdata m") (auto simp: music_data_def data_of_def)
    moreover have "tune_back d b m = t2"
      using True by (auto simp: tune t2_def t1_def new_tune_fields data_of_def)
    ultimately show ?thesis by simp
  next
    case False
    then obtain x where x: "data_of d m = Some x" "size x \<le> unat (mdatasz m)" by (auto simp: data_of_def)
    then have "size x < 2 ^ 31 - 1" using ok by (simp add: music_ok_def)
    then show ?thesis using False x by (simp add: music_data_def makes_one tune)
  qed
  have "music_chunks d b m = [Mark ''MU''] @
      (txt_chunk ''MN'' ?t @ txt_chunk ''AN'' ?a @ tag_chunks (texts_of d (mtags m))) @ music_parms d m @ music_data d p m"
    by (simp add: b music_chunks_parts music_head_def)
  then show ?thesis
    using makes_append [OF 0 makes_append [OF 1 makes_append [OF 2 3]]] by simp
qed

lemma musics_chunks_makes:
  "list_all (music_ok d) ms \<Longrightarrow> size (atunes al) + size ms \<le> SC68_MAX_TRACK \<Longrightarrow>
    makes (musics_chunks d b ms) al (al\<lparr>atunes := atunes al @ tunes_back d b ms\<rparr>)"
proof (induction ms arbitrary: b al)
  case Nil
  then show ?case by simp
next
  case (Cons m ms)
  have "makes (music_chunks d b m) al (al\<lparr>atunes := atunes al @ [tune_back d b m]\<rparr>)"
    using Cons.prems by (intro music_chunks_makes) simp_all
  from makes_append [OF this Cons.IH] show ?case using Cons.prems by simp
qed

text \<open>The tags of the album, while there is no track.\<close>

lemma put_texts_album [simp]: "atunes al = [] \<Longrightarrow> put_texts f al = al\<lparr>atags := f (atags al)\<rparr>"
  by (simp add: put_texts_def)

lemma makes_album_text:
  assumes "no_zero s" "c = ''FN'' \<and> i = TAG68_ID_TITLE \<or> c = ''AN'' \<and> i = TAG68_ID_ARTIST" "atunes al = []"
  shows "makes (txt_chunk c s) al
    (al\<lparr>atags := (atags al)[i := (fst (atags al ! i), or_else (nonempty s) (snd (atags al ! i)))]\<rparr>)"
proof (cases "s = None \<or> s = Some []")
  case True
  then have "nonempty s = None" "txt_chunk c s = []" by (auto simp: nonempty_def txt_chunk_def)
  then show ?thesis by (simp add: or_else_def)
next
  case False
  then obtain x where "s = Some x" "x \<noteq> []" by auto
  then have "s = Some x" "nonempty s = Some x" "txt_chunk c s = [Txt c x]"
    by (simp_all add: nonempty_def txt_chunk_def)
  then show ?thesis using assms by (auto simp: makes_one no_zero_def or_else_def put_text_def)
qed

definition saved_ok :: "disk68 \<Rightarrow> bool" where
  "saved_ok mb \<longleftrightarrow> 0 < nb_mus mb \<and> nb_mus mb \<le> int SC68_MAX_TRACK \<and> tags_ok (ddata mb) (dtags mb) \<and>
    list_all (music_ok (ddata mb)) (tracks_of mb)"

lemma empty_album_fields:
  "adef empty_album = 0" "atunes empty_album = []"
  "atags empty_album = [(Some (c_str ''title''), None), (Some (c_str ''artist''), None),
     (Some (c_str ''format''), Some (c_str ''sc68''))] @ replicate (TAG68_ID_MAX - TAG68_ID_CUSTOM) (None, None)"
  by (simp_all add: empty_album_def new_disk_def set_val_def alloc_disk_def album_of_def tracks_of_def
      no_tags_def texts_of_def tagstr_def put_val_def TAG68_ID_MAX_def TAG68_ID_CUSTOM_def TAG68_ID_GENRE_def)

lemma no_zero_noname: "no_zero s \<Longrightarrow> no_zero (not_noname s)"
  by (simp add: no_zero_def not_noname_def)

lemma disk_chunks_makes:
  assumes ok: "saved_ok mb"
  shows "makes (disk_chunks mb) empty_album (album_back mb)"
proof -
  let ?d = "ddata mb"
  let ?title = "text_of ?d (tag_val (dtags mb) TAG68_ID_TITLE)"
  let ?artist = "text_of ?d (tag_val (dtags mb) TAG68_ID_ARTIST)"
  let ?t = "not_noname ?title" and ?a = "not_noname ?artist"
  let ?none = "replicate (TAG68_ID_MAX - TAG68_ID_CUSTOM) (None, None)"
  let ?three = "[(Some (c_str ''title''), or_else (nonempty ?t) None), (Some (c_str ''artist''), or_else (nonempty ?a) None),
     (Some (c_str ''format''), Some (c_str ''sc68''))]"
  let ?tags = "tags_back (atags empty_album) (nonempty ?t) (nonempty ?a) (texts_of ?d (dtags mb))"
  have ts: "tags_ok ?d (dtags mb)" using ok by (simp add: saved_ok_def)
  have "no_zero (text_of ?d (tag_val (dtags mb) i))" if "i < TAG68_ID_MAX" for i
    using ts that texts_of_nth [of i "dtags mb" ?d]
    by (auto simp: tags_ok_def list_all_length tag_val_def split: prod.splits)
  then have z: "no_zero ?t" "no_zero ?a"
    by (auto intro: no_zero_noname simp: TAG68_ID_TITLE_def TAG68_ID_ARTIST_def TAG68_ID_MAX_def)
  define a1 where "a1 = empty_album\<lparr>atags := [?three ! 0, (Some (c_str ''artist''), None), ?three ! 2] @ ?none\<rparr>"
  define a2 where "a2 = empty_album\<lparr>atags := ?three @ ?none\<rparr>"
  have 1: "makes (txt_chunk ''FN'' ?t) empty_album a1"
    using makes_album_text [OF z(1), of "''FN''" TAG68_ID_TITLE empty_album]
    by (simp add: a1_def empty_album_fields TAG68_ID_TITLE_def)
  have 2: "makes (txt_chunk ''AN'' ?a) a1 a2"
    using makes_album_text [OF z(2), of "''AN''" TAG68_ID_ARTIST a1]
    by (simp add: a1_def a2_def empty_album_fields TAG68_ID_ARTIST_def)
  have 3: "makes (num_chunk ''DF'' (def_mus mb)) a2 (a2\<lparr>adef := def_mus mb\<rparr>)"
    by (auto simp: num_chunk_def makes_one a2_def empty_album_def album_of_def new_disk_def set_val_def alloc_disk_def)
  have "fold (\<lambda>(k, v). put_tag k v) (full_tags (drop TAG68_ID_CUSTOM (texts_of ?d (dtags mb)))) (?three @ ?none) = ?tags"
    using put_full_tags [OF ts, of ?three]
    by (simp add: tags_back_def TAG68_ID_CUSTOM_def Let_def empty_album_fields)
  then have 4: "makes (tag_chunks (texts_of ?d (dtags mb))) (a2\<lparr>adef := def_mus mb\<rparr>)
      (empty_album\<lparr>adef := def_mus mb, atags := ?tags\<rparr>)"
    using tag_chunks_makes [OF ts, of "a2\<lparr>adef := def_mus mb\<rparr>"] by (simp add: a2_def empty_album_fields)
  have 5: "makes (musics_chunks ?d (?title, ?artist, None) (tracks_of mb)) (empty_album\<lparr>adef := def_mus mb, atags := ?tags\<rparr>)
      (album_back mb)"
  proof -
    have "nb_mus mb \<le> int SC68_MAX_TRACK" using ok by (simp add: saved_ok_def)
    then have "nat (nb_mus mb) \<le> SC68_MAX_TRACK" by linarith
    then have "size (tracks_of mb) \<le> SC68_MAX_TRACK" by (simp add: tracks_of_def)
    then have "makes (musics_chunks ?d (?title, ?artist, None) (tracks_of mb)) (empty_album\<lparr>adef := def_mus mb, atags := ?tags\<rparr>)
      (empty_album\<lparr>adef := def_mus mb, atags := ?tags,
         atunes := tunes_back ?d (?title, ?artist, None) (tracks_of mb)\<rparr>)"
      using musics_chunks_makes [of ?d "tracks_of mb" "empty_album\<lparr>adef := def_mus mb, atags := ?tags\<rparr>"
          "(?title, ?artist, None)"] ok
      by (simp add: saved_ok_def empty_album_fields)
    moreover have "empty_album\<lparr>adef := def_mus mb, atags := ?tags,
         atunes := tunes_back ?d (?title, ?artist, None) (tracks_of mb)\<rparr> = album_back mb"
      by (rule album68.equality) (simp_all add: album_back_def Let_def)
    ultimately show ?thesis by simp
  qed
  show ?thesis
    unfolding disk_chunks_def Let_def
    by (rule makes_append [OF 1 makes_append [OF 2 makes_append [OF 3 makes_append [OF 4 5]]]])
qed

text \<open>The data of a saved disk, read by the loop over the chunks.\<close>

lemma new_disk_start:
  "load_inv (new_disk d ''sc68'', None)" "ddata (new_disk d ''sc68'') = d" "album_of (new_disk d ''sc68'') = empty_album"
  by (auto simp: load_inv_def new_disk_def set_val_def alloc_disk_def put_val_def no_tags_def no_music_def
      TAG68_ID_MAX_def SC68_MAX_TRACK_def empty_album_def album_of_def tracks_of_def texts_of_def tagstr_def
      TAG68_ID_GENRE_def)

lemma disk_bytes_loads:
  assumes "saved_ok mb" "size (disk_bytes mb) < 2 ^ 31"
  obtains mb' where "load_loop 0 (int (size (disk_bytes mb))) (new_disk (disk_bytes mb) ''sc68'', None) = Some (Good mb')"
    "album_of mb' = album_back mb"
  using load_loop_chunks [OF new_disk_start(1) [of "disk_bytes mb"], of "disk_chunks mb" 0]
    disk_chunks_makes [OF assms(1)] assms(2)
  by (auto simp: new_disk_start makes_def disk_bytes_def)

section \<open>The file\<close>

definition sc68_file :: "int \<Rightarrow> disk68 \<Rightarrow> u8 list" where
  "sc68_file version mb = base_bytes version (int (8 + size (disk_bytes mb))) @ disk_bytes mb"

lemma layout_even: "chunks_ok cs al \<Longrightarrow> even (size (layout cs))"
proof (induction cs arbitrary: al)
  case (Cons c cs)
  then have "even (size (chunk_bytes c))"
    using size_chunk_id [of c al] by (simp add: chunk_bytes_def chunk_head_def padded_def)
  then show ?case using Cons by auto
qed simp

lemma disk_bytes_even:
  assumes "saved_ok mb"
  shows "even (size (disk_bytes mb))" "8 \<le> size (disk_bytes mb)"
  using layout_even [of "disk_chunks mb" empty_album] disk_chunks_makes [OF assms]
  by (simp_all add: disk_bytes_def makes_def chunk_bytes_def chunk_head_def padded_def)

lemma and_one_even: "even n \<Longrightarrow> int n AND 1 = 0"
  by (simp add: and_one_eq)

lemma base_bytes_even:
  "even n \<Longrightarrow> base_bytes version (int n) = get_header version @ c_str ''SC68'' @ LPoke (word_of_nat n)"
  by (simp add: base_bytes_def chunk_head_def and_one_even) (simp add: c_str_def)

lemma size_base_bytes: "size (base_bytes version n) = size (get_header version) + 8"
  by (simp add: base_bytes_def chunk_head_def)

lemma saved_ok_disk: "saved_ok mb \<Longrightarrow> disk_ok mb"
  by (auto simp: saved_ok_def disk_ok_def music_ok_def list_all_iff)

text \<open>What \<open>file68_save\<close> writes, into any stream that takes it.\<close>

context sink begin

lemma file68_save_writes:
  assumes ok: "saved_ok mb" and inv: "inv s" and room: "size (sc68_file version mb) \<le> room s"
    and small: "size (sc68_file version mb) < 2 ^ 31"
  obtains t where "file68_save gz (Some V) mb version 0 s = (0, t)" "took (sc68_file version mb) s t"
proof -
  let ?n = "null_stream\<lparr>nopen := True\<rparr>"
  have size: "size (base_bytes version 0 @ disk_bytes mb) = size (sc68_file version mb)"
    by (simp add: sc68_file_def size_base_bytes)
  have opened: "vfs68_open (Some vfs68_null) null_stream = (0, ?n)"
    by (simp add: vfs68_open_def vfs_op_def vfs68_null_def isn_open_def null_stream_def)
  have "nopen ?n \<and> 0 \<le> npos ?n \<and> npos ?n = nsize ?n" by (simp add: null_stream_def)
  moreover have "size (base_bytes version 0 @ disk_bytes mb) \<le> nat (2 ^ 31 - 1 - npos ?n)"
    using small unfolding size by (simp add: null_stream_def)
  ultimately obtain u where u: "save_sc68 (Some vfs68_null) mb 0 version ?n = (False, u)"
    "null_sink.took (base_bytes version 0 @ disk_bytes mb) ?n u"
    by (rule null_sink.savesD [OF null_sink.save_disk_saves [OF saved_ok_disk [OF ok]]])
  have "nsize u = int (size (sc68_file version mb))"
    using u(2) unfolding null_sink.took_def size by (simp add: null_stream_def) linarith
  then have len: "vfs68_length (Some vfs68_null) u - int (size (get_header version)) = int (8 + size (disk_bytes mb))"
    by (simp add: vfs68_length_def vfs_op_def vfs68_null_def isn_length_def sc68_file_def size_base_bytes)
  obtain t where t: "save_sc68 (Some V) mb (int (8 + size (disk_bytes mb))) version s = (False, t)"
      "took (sc68_file version mb) s t"
    using savesD [OF save_disk_saves [OF saved_ok_disk [OF ok]] inv] room unfolding sc68_file_def by blast
  have "file68_save gz (Some V) mb version 0 s = (0, t)"
    unfolding file68_save_def opened prod.case Let_def u(1) len using t(1) by simp
  then show thesis using that t(2) by blast
qed

end

text \<open>Reading from a memory stream.\<close>

lemma isread_mem:
  assumes "mem_inv 1 s" "drop (nat (mpos s)) (area s) = x @ r"
  obtains h' t where "isread (Some vfs68_mem) (int (size x)) h s = (int (size x), x, h', t)" "mem_inv 1 t"
    "drop (nat (mpos t)) (area t) = r"
proof -
  obtain k d t where v: "vfs68_read (Some vfs68_mem) s (int (size x)) = (k, d, t)" by (metis prod_cases3)
  have pos: "0 \<le> mpos s" "mpos s \<le> msize s" "msize s < 2 ^ 31 - 1" using assms(1) by (simp_all add: mem_inv_def)
  have "size x \<le> size (drop (nat (mpos s)) (area s))" using assms(2) by simp
  then have "mpos s + int (size x) < 2 ^ 31" using pos by simp
  from mem_in.read_data [OF assms(1) _ this v]
  have r: "d = x" "k = int (size x)" "mem_inv 1 t" "area t = area s" "mpos t = mpos s + int (size x)"
    using assms(2) by simp_all
  have "drop (nat (mpos t)) (area t) = drop (size x) (drop (nat (mpos s)) (area s))"
    using r pos(1) by (simp add: nat_add_distrib add.commute)
  then have "drop (nat (mpos t)) (area t) = r" using assms(2) by simp
  then show thesis using that v r unfolding isread_def by simp
qed

lemma mem_stream_start:
  assumes "size F < 2 ^ 31 - 1"
  shows "mem_inv 1 (mem_stream F)" "drop (nat (mpos (mem_stream F))) (area (mem_stream F)) = F"
proof -
  have s: "mem_stream F = \<lparr>mbuf = \<lambda>a. byte_at F (nat a), msize = int (size F), mpos = 0, mmode = 1, mopen = 1, mname = []\<rparr>"
    by (simp add: mem_stream_def vfs68_mem_create_def vfs68_open_def vfs_op_def vfs68_mem_def ism_open_def
        VFS68_IS_OPEN_def VFS68_OPEN_READ_def VFS68_OPEN_MASK_def)
  show "mem_inv 1 (mem_stream F)" using assms by (simp add: s mem_inv_def)
  show "drop (nat (mpos (mem_stream F))) (area (mem_stream F)) = F"
    by (rule nth_equalityI) (simp_all add: s area_def byte_at_def)
qed

lemma c_str_SC68: "c_str ''SC68'' = [83, 67, 54, 56]"
  by (simp add: c_str_def)

lemma idstr_facts:
  "size file68_idstr_v1 = 56" "size file68_idstr_v2 = 8" "take 8 file68_idstr_v1 \<noteq> file68_idstr_v2"
  by (simp_all add: file68_idstr_v1_def file68_idstr_v2_def c_str_def)

lemma base_chunk_mem:
  assumes inv: "mem_inv 1 s" and at: "drop (nat (mpos s)) (area s) = c_str ''SC68'' @ LPoke (word_of_nat (8 + n)) @ r"
    and n: "8 + n < 2 ^ 31" "0 < n"
  obtains h' t where "base_chunk (Some vfs68_mem) h s = (Good (Sc68 (int n)), h', t)" "mem_inv 1 t"
    "drop (nat (mpos t)) (area t) = r"
proof -
  obtain h1 t1 where 1: "isread (Some vfs68_mem) 4 h s = (4, c_str ''SC68'', h1, t1)" "mem_inv 1 t1"
      "drop (nat (mpos t1)) (area t1) = LPoke (word_of_nat (8 + n)) @ r"
    using isread_mem [OF inv at, of h] by auto
  obtain h2 t2 where 2: "isread (Some vfs68_mem) 4 h1 t1 = (4, LPoke (word_of_nat (8 + n)), h2, t2)" "mem_inv 1 t2"
      "drop (nat (mpos t2)) (area t2) = r"
    using isread_mem [OF 1(2,3), of h1] by auto
  have l: "LPeek (LPoke (word_of_nat (8 + n))) 0 = word_of_nat (8 + n)"
    using LPeek_LPoke [of "word_of_nat (8 + n)" "[]"] by simp
  have peek: "sint (LPeek (LPoke (word_of_nat (8 + n))) 0) = int (8 + n)"
    unfolding l by (rule sint_size [OF n(1)])
  have "base_chunk (Some vfs68_mem) h s = (Good (Sc68 (int n)), h2, t2)"
    unfolding base_chunk_def 1(1) 2(1) prod.case Let_def peek using n(2) by simp
  then show thesis using that 2 by blast
qed

lemma read_header_mem:
  assumes inv: "mem_inv 1 s" and at: "drop (nat (mpos s)) (area s) =
      get_header version @ c_str ''SC68'' @ LPoke (word_of_nat (8 + n)) @ r"
    and n: "8 + n < 2 ^ 31" "0 < n"
  obtains h' t where "read_header (Some vfs68_mem) h s = (Good (Sc68 (int n)), h', t)" "mem_inv 1 t"
    "drop (nat (mpos t)) (area t) = r"
proof (cases "version = 2")
  case True
  then have "drop (nat (mpos s)) (area s) = file68_idstr_v2 @ (c_str ''SC68'' @ LPoke (word_of_nat (8 + n)) @ r)"
    using at by (simp add: get_header_def)
  from isread_mem [OF inv this, of h] obtain h1 t1 where 1:
    "isread (Some vfs68_mem) 8 h s = (8, file68_idstr_v2, h1, t1)" "mem_inv 1 t1"
    "drop (nat (mpos t1)) (area t1) = c_str ''SC68'' @ LPoke (word_of_nat (8 + n)) @ r" by (auto simp: idstr_facts)
  obtain h2 t2 where 2: "base_chunk (Some vfs68_mem) h1 t1 = (Good (Sc68 (int n)), h2, t2)" "mem_inv 1 t2"
    "drop (nat (mpos t2)) (area t2) = r" by (rule base_chunk_mem [OF 1(2,3) n])
  have e: "ensure_header (Some vfs68_mem) [] 8 h s = (True, file68_idstr_v2, h1, t1)"
    using 1(1) by (simp add: ensure_header_def)
  have "take 8 file68_idstr_v2 = file68_idstr_v2" by (simp add: idstr_facts)
  then have "read_header (Some vfs68_mem) h s = (Good (Sc68 (int n)), h2, t2)"
    using 2(1) idstr_facts(3) by (simp add: read_header_def e)
  then show thesis using that 2 by blast
next
  case False
  let ?id = "take 8 file68_idstr_v1" and ?rest = "drop 8 file68_idstr_v1"
  have "drop (nat (mpos s)) (area s) = ?id @ (?rest @ c_str ''SC68'' @ LPoke (word_of_nat (8 + n)) @ r)"
    using at False by (simp add: get_header_def append_take_drop_id [symmetric] del: append_take_drop_id flip: append_assoc)
  from isread_mem [OF inv this, of h] obtain h1 t1 where 1:
    "isread (Some vfs68_mem) 8 h s = (8, ?id, h1, t1)" "mem_inv 1 t1"
    "drop (nat (mpos t1)) (area t1) = ?rest @ c_str ''SC68'' @ LPoke (word_of_nat (8 + n)) @ r" by (auto simp: idstr_facts)
  from isread_mem [OF 1(2,3), of h1] obtain h2 t2 where 2:
    "isread (Some vfs68_mem) 48 h1 t1 = (48, ?rest, h2, t2)" "mem_inv 1 t2"
    "drop (nat (mpos t2)) (area t2) = c_str ''SC68'' @ LPoke (word_of_nat (8 + n)) @ r" by (auto simp: idstr_facts)
  obtain h3 t3 where 3: "base_chunk (Some vfs68_mem) h2 t2 = (Good (Sc68 (int n)), h3, t3)" "mem_inv 1 t3"
    "drop (nat (mpos t3)) (area t3) = r" by (rule base_chunk_mem [OF 2(2,3) n])
  have e: "ensure_header (Some vfs68_mem) [] 8 h s = (True, ?id, h1, t1)"
    "ensure_header (Some vfs68_mem) ?id 56 h1 t1 = (True, file68_idstr_v1, h2, t2)"
    using 1(1) 2(1) by (simp_all add: ensure_header_def idstr_facts)
  have "read_header (Some vfs68_mem) h s = (Good (Sc68 (int n)), h3, t3)"
    using 3(1) by (simp add: read_header_def e)
  then show thesis using that 3 by blast
qed

text \<open>The loader, on a saved file.\<close>

lemma sc68_file_loads:
  assumes ok: "saved_ok mb" and small: "size (sc68_file version mb) < 2 ^ 31 - 1"
  obtains mb' where "file68_load_mem alloc gz (sc68_file version mb) tdb = Some (valid mb' tdb)"
    "album_of mb' = album_back mb"
proof -
  let ?F = "sc68_file version mb" and ?n = "size (disk_bytes mb)"
  note even = disk_bytes_even [OF ok]
  have F: "?F = get_header version @ c_str ''SC68'' @ LPoke (word_of_nat (8 + ?n)) @ disk_bytes mb"
    using base_bytes_even [of "8 + ?n" version] even(1) unfolding sc68_file_def by simp
  have n: "8 + ?n < 2 ^ 31" using small by (simp add: F)
  have pos: "0 < ?n" using even(2) by linarith
  note n = n pos
  note start = mem_stream_start [OF small]
  obtain h1 t1 where 1: "read_header (Some vfs68_mem) 0 (mem_stream ?F) = (Good (Sc68 (int ?n)), h1, t1)" "mem_inv 1 t1"
    "drop (nat (mpos t1)) (area t1) = disk_bytes mb"
    using read_header_mem [OF start(1), of version ?n "disk_bytes mb" 0] start(2) n by (auto simp: F)
  obtain h2 t2 where 2: "isread (Some vfs68_mem) (int ?n) h1 t1 = (int ?n, disk_bytes mb, h2, t2)"
    by (rule isread_mem [OF 1(2), of "disk_bytes mb" "[]" h1]) (use 1(3) in simp_all)
  obtain mb' where 3: "load_loop 0 (int ?n) (new_disk (disk_bytes mb) ''sc68'', None) = Some (Good mb')"
    "album_of mb' = album_back mb"
    by (rule disk_bytes_loads [OF ok]) (use n in simp_all)
  obtain r tdb' where v: "valid (mb'\<lparr>hash68 := h2\<rparr>) tdb = (r, tdb')" by fastforce
  have "load_step alloc (Some vfs68_mem) (mem_stream ?F) tdb = Some (Ended r t2 tdb')"
    by (simp add: load_step_def 1(1) load_sc68_def 2 3(1) checked_def v)
  then have "file68_load_mem alloc gz ?F tdb = Some (valid (mb'\<lparr>hash68 := h2\<rparr>) tdb)"
    by (subst file68_load_mem.simps) (simp add: v)
  moreover have "album_of (mb'\<lparr>hash68 := h2\<rparr>) = album_back mb"
    using 3(2) by (simp add: album_of_def tracks_of_def)
  ultimately show thesis using that by blast
qed

section \<open>Saving and loading\<close>

text \<open>C30. A disk of 1 to 63 tracks whose custom tags have keys of their own is saved in a memory stream
  that is open for writing and has room, and the file that is written loads again: the chunk
  reader makes of it the album it was saved from, up to what the format leaves out, before
  \<open>valid\<close> completes it.  Left out are strings that are empty or \<open>n/a\<close> or those of the track before,
  the time of tracks without a frame count, default values; data of odd size has grown by a zero.\<close>

theorem saved_disk_loads:
  assumes "saved_ok mb" and "mem_inv 2 s"
    and "int (size (sc68_file version mb)) \<le> msize s - mpos s"
  shows "\<exists>t mb'. file68_save gz (Some vfs68_mem) mb version 0 s = (0, t) \<and>
    written t = written s @ sc68_file version mb \<and>
    file68_load_mem alloc gzm (sc68_file version mb) tdb = Some (valid mb' tdb) \<and>
    album_of mb' = album_back mb"
proof -
  have small: "size (sc68_file version mb) < 2 ^ 31 - 1" "size (sc68_file version mb) < 2 ^ 31"
    and room: "size (sc68_file version mb) \<le> nat (msize s - mpos s)"
    using assms(2,3) by (simp_all add: mem_inv_def le_nat_iff)
  obtain t where t: "file68_save gz (Some vfs68_mem) mb version 0 s = (0, t)" "mem_sink.took (sc68_file version mb) s t"
    by (rule mem_sink.file68_save_writes [OF assms(1,2) room small(2)])
  obtain mb' where "file68_load_mem alloc gzm (sc68_file version mb) tdb = Some (valid mb' tdb)"
    "album_of mb' = album_back mb" by (rule sc68_file_loads [OF assms(1) small(1)])
  then show ?thesis using t by (auto simp: mem_sink.took_def)
qed

text \<open>A disk with one track of five seconds, three bytes of data, a title and two tags; a stream for it.\<close>

definition demo_track :: music68 where
  "demo_track = no_music
    \<lparr>d0 := 1, frq := 50, first_fr := 250, has_time := True, has_pic := True, a0 := SC68_LOADADDR, hwflags := SC68_PSG,
     mdata := Some 0, mdatasz := 3,
     mtags := [(tagstr ''title'', Some (Heap (c_str ''song''))), (tagstr ''artist'', None), (tagstr ''genre'', None),
       (Some (Heap (c_str ''year'')), Some (Heap (c_str ''1993''))), (None, None),
       (Some (Heap (c_str ''rate'')), Some (Heap (c_str ''5'')))] @ replicate 6 (None, None)\<rparr>"

definition demo_disk :: disk68 where
  "demo_disk = (new_disk [1, 2, 3] ''sc68'')\<lparr>nb_mus := 1, mus := demo_track # replicate 62 no_music\<rparr>"

definition demo_stream :: vfs_mem where
  "demo_stream = \<lparr>mbuf = \<lambda>_. 0, msize = 4096, mpos = 0, mmode = 2, mopen = 2, mname = []\<rparr>"

lemma demo_disk_ok: "saved_ok demo_disk"
proof -
  have d: "ddata demo_disk = [1, 2, 3]" "tracks_of demo_disk = [demo_track]" "nb_mus demo_disk = 1"
    "dtags demo_disk = dtags (new_disk [1, 2, 3] ''sc68'')"
    by (simp_all add: demo_disk_def tracks_of_def new_disk_def set_val_def alloc_disk_def)
  have disk: "tags_ok [1, 2, 3] (dtags (new_disk [1, 2, 3] ''sc68''))"
    by code_simp
  have track: "tags_ok [1, 2, 3] (mtags demo_track)"
    by code_simp
  have "music_ok [1, 2, 3] demo_track"
    using track by (simp add: music_ok_def data_ok_def no_zero_def demo_track_def no_music_def)
  then show ?thesis using disk by (simp add: saved_ok_def d SC68_MAX_TRACK_def)
qed

lemma demo_disk_size: "size (sc68_file 2 demo_disk) \<le> 4096"
  by code_simp

theorem saved_disk_loads_witness:
  "\<exists>t mb'. file68_save (\<lambda>s level. (-1, None, s)) (Some vfs68_mem) demo_disk 2 0 demo_stream = (0, t) \<and>
    written t = written demo_stream @ sc68_file 2 demo_disk \<and>
    file68_load_mem (\<lambda>_ _. (\<lambda>_. 0, 0, 0)) (\<lambda>_ _. None) (sc68_file 2 demo_disk) \<lparr>db = [], dbmax = 0, dbsort = True\<rparr> =
      Some (valid mb' \<lparr>db = [], dbmax = 0, dbsort = True\<rparr>) \<and>
    album_of mb' = album_back demo_disk"
  by (rule saved_disk_loads [OF demo_disk_ok])
    (use demo_disk_size in \<open>simp_all add: demo_stream_def mem_inv_def\<close>)

end
