(* ===== verification/Loader68.thy ===== *)
theory Loader68
  imports Round68
begin

unbundle bit_operations_syntax

text \<open>
  What the loader does with files it did not write, and the faults of saving and of the tags.

  Lemmas: the loop over the chunks never ends on a chunk of size -8 and always does when no size is
  negative; a disk saved in memory is never written; what the tag interface stores and what counting
  the tags does to them.
\<close>

section \<open>The loop over the chunks\<close>

lemma load_loop_stuck:
  assumes at: "0 \<le> b" "byte_at (ddata (fst ld)) (nat b) = 83" "byte_at (ddata (fst ld)) (nat b + 1) = 67"
      "LPeek (ddata (fst ld)) (nat b + 4) = -8"
    and step: "load_chunk [byte_at (ddata (fst ld)) (nat b + 2), byte_at (ddata (fst ld)) (nat b + 3)] (nat b + 8) (-8) ld
      = Next ld"
    and len: "8 \<le> len" "len < 2 ^ 31"
  shows "load_loop b len ld = None"
proof -
  have i: "i32 (len - 8 - sint (-8 :: s32)) = len" using len by (simp add: i32_id)
  have never: "b' = b \<and> len' = len \<and> ld' = ld \<longrightarrow> False" if run: "load_loop b' len' ld' = Some y" for b' len' ld' y
  proof (rule load_loop.raw_induct [OF _ run])
    fix f b' len' ld' y
    assume IH: "\<And>b' len' ld' y. f b' len' ld' = Some y \<Longrightarrow> b' = b \<and> len' = len \<and> ld' = ld \<longrightarrow> False"
      and turn: "(if len' < 8 then Some (if len' = 0 then Good (fst ld') else Failed)
       else if b' < 0 then Some Fault
       else let d = ddata (fst ld'); at = nat b'
         in if byte_at d at \<noteq> 83 \<or> byte_at d (at + 1) \<noteq> 67
            then Some (if len' = 0 then Good (fst ld') else Failed)
            else let chk_size = LPeek d (at + 4)
              in case load_chunk [byte_at d (at + 2), byte_at d (at + 3)] (at + 8) chk_size ld' of
                   Next ld \<Rightarrow> f (b' + 8 + sint chk_size) (i32 (len' - 8 - sint chk_size)) ld
                 | Stop ld \<Rightarrow> Some (Good (fst ld))
                 | Refuse \<Rightarrow> Some Failed) = Some y"
    show "b' = b \<and> len' = len \<and> ld' = ld \<longrightarrow> False"
    proof
      assume same: "b' = b \<and> len' = len \<and> ld' = ld"
      have "f b len ld = Some y" using turn at step len i by (simp add: same Let_def)
      then show False using IH by blast
    qed
  qed
  show ?thesis using never by (cases "load_loop b len ld") blast+
qed

text \<open>The smallest such file: the identification, the base chunk, a chunk \<open>XX\<close> of size -8.\<close>

definition stuck_file :: "u8 list" where
  "stuck_file = file68_idstr_v2 @ c_str ''SC68'' @ LPoke (word_of_nat (8 + 8)) @ chunk_head (c_str ''XX'') (-8)"

text \<open>C31. There is a file of 24 bytes on which \<open>file68_load_mem\<close> never returns.\<close>

theorem load_never_returns: "size stuck_file = 24 \<and> file68_load_mem alloc gz stuck_file tdb = None"
proof -
  let ?d = "chunk_head (c_str ''XX'') (-8)"
  have size: "size stuck_file = 24" "size ?d = 8"
    by (simp_all add: stuck_file_def chunk_head_def file68_idstr_v2_def)
  then have small: "size stuck_file < 2 ^ 31 - 1" by simp
  note start = mem_stream_start [OF small]
  have "drop (nat (mpos (mem_stream stuck_file))) (area (mem_stream stuck_file)) =
      get_header 2 @ c_str ''SC68'' @ LPoke (word_of_nat (8 + 8)) @ ?d"
    using start(2) by (simp add: stuck_file_def get_header_def)
  then obtain h1 t1 where 1: "read_header (Some vfs68_mem) 0 (mem_stream stuck_file) = (Good (Sc68 (int 8)), h1, t1)"
    "mem_inv 1 t1" "drop (nat (mpos t1)) (area t1) = ?d"
    by (rule read_header_mem [OF start(1)]) simp_all
  obtain h2 t2 where 2: "isread (Some vfs68_mem) (int 8) h1 t1 = (int 8, ?d, h2, t2)"
    using isread_mem [OF 1(2), of ?d "[]" h1] 1(3) size(2) by (metis append_Nil2)
  have stuck: "load_loop 0 (int 8) (new_disk ?d ''sc68'', None) = None"
  proof (rule load_loop_stuck)
    have h: "drop 0 ?d = ?d @ []" by simp
    note at = chunk_head_at [OF h, of 88 88]
    show "byte_at (ddata (fst (new_disk ?d ''sc68'', None))) (nat 0) = 83"
      "byte_at (ddata (fst (new_disk ?d ''sc68'', None))) (nat 0 + 1) = 67"
      "LPeek (ddata (fst (new_disk ?d ''sc68'', None))) (nat 0 + 4) = - 8"
      using at by (simp_all add: new_disk_start c_str_def)
    show "load_chunk [byte_at (ddata (fst (new_disk ?d ''sc68'', None))) (nat 0 + 2),
        byte_at (ddata (fst (new_disk ?d ''sc68'', None))) (nat 0 + 3)] (nat 0 + 8) (- 8) (new_disk ?d ''sc68'', None) =
        Next (new_disk ?d ''sc68'', None)"
      using at by (simp add: new_disk_start load_chunk_def c_str_def Let_def)
  qed simp_all
  have "load_step alloc (Some vfs68_mem) (mem_stream stuck_file) tdb = None"
    by (simp add: load_step_def 1(1) load_sc68_def 2 [simplified] stuck [simplified])
  then show ?thesis using size by (subst file68_load_mem.simps) simp
qed

lemma ddata_set_tags [simp]: "ddata (set_tags r ts mb) = ddata mb"
  by (cases r) simp_all

lemma ddata_track_chunk: "track_chunk f ld = Next ld' \<Longrightarrow> ddata (fst ld') = ddata (fst ld)"
  by (auto simp: track_chunk_def split: option.splits prod.splits)

lemma ddata_set_cur_tag [simp]: "ddata (fst (set_cur_tag k b ld)) = ddata (fst ld)"
  by (simp add: set_cur_tag_def split: prod.split)

text \<open>No chunk changes the data that is being read.\<close>

lemma ddata_load_chunk:
  assumes "load_chunk chk b n ld = Next ld'"
  shows "ddata (fst ld') = ddata (fst ld)"
proof -
  obtain mb cur where ld: "ld = (mb, cur)" by fastforce
  show ?thesis
    using assms unfolding load_chunk_def ld prod.case Let_def
    by (auto simp: ld dest!: ddata_track_chunk split: if_splits)
qed

text \<open>Wherever the data looks like a chunk, its size is not negative.\<close>

definition sizes_ok :: "u8 list \<Rightarrow> bool" where
  "sizes_ok d \<longleftrightarrow>
    (\<forall>i < size d. byte_at d i = 83 \<longrightarrow> byte_at d (i + 1) = 67 \<longrightarrow> 0 \<le> sint (LPeek d (i + 4)))"

lemma load_loop_returns:
  "sizes_ok (ddata (fst ld)) \<Longrightarrow> 0 \<le> b \<Longrightarrow> len < 2 ^ 31 \<Longrightarrow> b + len \<le> int (size (ddata (fst ld))) \<Longrightarrow>
    \<exists>r. load_loop b len ld = Some r \<and> r \<noteq> Fault"
proof (induction "nat len" arbitrary: b len ld rule: less_induct)
  case less
  define d where "d = ddata (fst ld)"
  define n where "n = LPeek d (nat b + 4)"
  show ?case
  proof (cases "len < 8 \<or> byte_at d (nat b) \<noteq> 83 \<or> byte_at d (nat b + 1) \<noteq> 67")
    case True
    then show ?thesis using less.prems(2)
      by (subst load_loop.simps) (auto simp: d_def [symmetric] Let_def)
  next
    case False
    then have len: "8 \<le> len" and sc: "byte_at d (nat b) = 83" "byte_at d (nat b + 1) = 67" by auto
    have "nat b < size d" using less.prems(2,4) len by (simp add: d_def)
    then have n: "0 \<le> sint n" using less.prems(1) sc by (simp add: sizes_ok_def n_def d_def [symmetric])
    have "sint n < 2 ^ 31" using sint_range_size [of n] by (simp add: word_size)
    then have i: "i32 (len - 8 - sint n) = len - 8 - sint n" using len less.prems(3) n by (intro i32_id) simp_all
    let ?r = "load_chunk [byte_at d (nat b + 2), byte_at d (nat b + 3)] (nat b + 8) n ld"
    have turn: "load_loop b len ld =
      (case ?r of Next ld \<Rightarrow> load_loop (b + 8 + sint n) (len - 8 - sint n) ld
       | Stop ld \<Rightarrow> Some (Good (fst ld)) | Refuse \<Rightarrow> Some Failed)"
      using False less.prems(2) i by (subst load_loop.simps) (simp add: d_def [symmetric] n_def [symmetric] Let_def split: chunk_end.split)
    show ?thesis
    proof (cases ?r)
      case (Next ld')
      have dd: "ddata (fst ld') = d" using ddata_load_chunk [OF Next] by (simp add: d_def)
      have "\<exists>r. load_loop (b + 8 + sint n) (len - 8 - sint n) ld' = Some r \<and> r \<noteq> Fault"
        using less.prems len n by (intro less.hyps) (simp_all add: dd d_def [symmetric])
      then show ?thesis using turn Next by simp
    qed (simp_all add: turn)
  qed
qed

text \<open>C32. When no size is negative where the data of a file looks like a chunk, the chunk reader returns,
  and has read nothing in front of the data.\<close>

theorem load_returns:
  assumes "sizes_ok d" "size d < 2 ^ 31"
  shows "\<exists>r. load_loop 0 (int (size d)) (new_disk d genre, None) = Some r \<and> r \<noteq> Fault"
  using assms load_loop_returns [of "(new_disk d genre, None)" 0 "int (size d)"]
  by (simp add: new_disk_def set_val_def alloc_disk_def)

theorem load_returns_witness:
  "\<exists>r. load_loop 0 (int (size [83, 67, 69, 70, 2, 0, 0, 0, 83, 67 :: u8]))
      (new_disk [83, 67, 69, 70, 2, 0, 0, 0, 83, 67] ''sc68'', None) = Some r \<and> r \<noteq> Fault"
proof (rule load_returns)
  show "sizes_ok [83, 67, 69, 70, 2, 0, 0, 0, 83, 67]"
    unfolding sizes_ok_def
  proof (intro allI impI)
    let ?d = "[83, 67, 69, 70, 2, 0, 0, 0, 83, 67] :: u8 list"
    fix i assume i: "i < size ?d" "byte_at ?d i = 83" "byte_at ?d (i + 1) = 67"
    then have "i = 0 \<or> i = 1 \<or> i = 2 \<or> i = 3 \<or> i = 4 \<or> i = 5 \<or> i = 6 \<or> i = 7 \<or> i = 8 \<or> i = 9" by auto
    then show "0 \<le> sint (LPeek ?d (i + 4))"
      using i(2,3) by (elim disjE) (simp_all add: byte_at_def LPeek_def)
  qed
  show "size [83, 67, 69, 70, 2, 0, 0, 0, 83, 67 :: u8] < 2 ^ 31" by simp
qed

section \<open>Saving in memory\<close>

lemma closed_write: "mopen s = 0 \<Longrightarrow> vfs68_write (Some vfs68_mem) s d n = (-1, s)"
  by (simp add: vfs68_write_def vfs_op_def vfs68_mem_def ism_write_def ism_read_or_write_def)

text \<open>C33. \<open>file68_save_mem\<close> without compression fails for every disk and every buffer and writes nothing:
  it never opens the stream it makes.\<close>

theorem save_mem_fails:
  "\<exists>s. file68_save_mem gz buffer len mb version 0 = (-1, s) \<and> (case s of None \<Rightarrow> len < 0 | Some v \<Rightarrow> mbuf v = buffer)"
proof (cases "len < 0")
  case True
  then show ?thesis by (simp add: file68_save_mem_def vfs68_mem_create_def)
next
  case False
  let ?s = "\<lparr>mbuf = buffer, msize = len, mpos = 0, mmode = VFS68_OPEN_WRITE, mopen = 0, mname = []\<rparr>"
  have new: "vfs68_mem_create buffer [] len VFS68_OPEN_WRITE = Some ?s"
    using False by (simp add: vfs68_mem_create_def)
  have fail: "save_sc68 (Some vfs68_mem) mb l version ?s = (True, ?s)" for l
    by (simp add: save_sc68_def closed_write Let_def)
  have "file68_save gz (Some vfs68_mem) mb version 0 ?s = (-1, ?s)"
    unfolding file68_save_def by (simp add: fail Let_def split: prod.split)
  moreover have "mbuf (vfs68_destroy (Some vfs68_mem) ?s) = buffer"
    by (simp add: vfs68_destroy_def vfs68_mem_def ism_close_def)
  ultimately show ?thesis by (simp add: file68_save_mem_def new)
qed

section \<open>Tags\<close>

lemma strcmp68_refl: "0 \<notin> set k \<Longrightarrow> strcmp68 (Some k) (Some k) = 0"
  by (simp add: strcmp68_eq)

lemma key_slot_custom:
  assumes "key_slot tt key = Some i" "fixed_slot key = None"
  shows "strcmp68 key (fst (tt ! i)) = 0" "TAG68_ID_CUSTOM \<le> i" "i < TAG68_ID_MAX"
    "\<forall>j. TAG68_ID_CUSTOM \<le> j \<longrightarrow> j < i \<longrightarrow> strcmp68 key (fst (tt ! j)) \<noteq> 0"
proof -
  from assms obtain n where n: "i = TAG68_ID_CUSTOM + n" "i < TAG68_ID_MAX" "strcmp68 key (fst (tt ! i)) = 0"
    and before: "\<And>j. j < n \<Longrightarrow> strcmp68 key (fst (tt ! (TAG68_ID_CUSTOM + j))) \<noteq> 0"
    by (auto simp: key_slot_def find_Some_iff)
  then show "strcmp68 key (fst (tt ! i)) = 0" "TAG68_ID_CUSTOM \<le> i" "i < TAG68_ID_MAX" by simp_all
  show "\<forall>j. TAG68_ID_CUSTOM \<le> j \<longrightarrow> j < i \<longrightarrow> strcmp68 key (fst (tt ! j)) \<noteq> 0"
    using before n(1) by (metis le_add_diff_inverse nat_add_left_cancel_less)
qed

text \<open>A key is found in the slot it was written to.\<close>

lemma slot_for_again:
  assumes size: "size tt = TAG68_ID_MAX" and k: "0 \<notin> set k" and slot: "slot_for tt k = Some i"
  shows "key_slot (tt[i := (or_else (fst (tt ! i)) (Some k), Some v)]) (Some k) = Some i"
proof (cases "fixed_slot (Some k)")
  case (Some j)
  then show ?thesis using slot by (simp add: slot_for_def key_slot_def)
next
  case fixed: None
  let ?tt = "tt[i := (or_else (fst (tt ! i)) (Some k), Some v)]"
  have i: "TAG68_ID_CUSTOM \<le> i" "i < TAG68_ID_MAX"
    and here: "strcmp68 (Some k) (fst (?tt ! i)) = 0"
    and before: "\<And>j. TAG68_ID_CUSTOM \<le> j \<Longrightarrow> j < i \<Longrightarrow> strcmp68 (Some k) (fst (?tt ! j)) \<noteq> 0"
  proof -
    show i: "TAG68_ID_CUSTOM \<le> i" "i < TAG68_ID_MAX"
      using slot key_slot_custom [of tt "Some k" i] key_slot_custom [of tt None i] fixed
      by (auto simp: slot_for_def split: option.splits)
    show "strcmp68 (Some k) (fst (?tt ! i)) = 0"
      using slot key_slot_custom(1) [of tt "Some k" i] fixed i size strcmp68_refl [OF k]
        key_slot_custom(1) [of tt None i]
      by (cases "fst (tt ! i)") (auto simp: slot_for_def or_else_def split: option.splits)
    show "strcmp68 (Some k) (fst (?tt ! j)) \<noteq> 0" if "TAG68_ID_CUSTOM \<le> j" "j < i" for j
    proof (cases "key_slot tt (Some k)")
      case None
      then have "strcmp68 (Some k) (fst (tt ! j)) \<noteq> 0"
        using fixed that i by (auto simp: key_slot_def find_None_iff)
      then show ?thesis using that by simp
    next
      case (Some i')
      then have "i' = i" using slot by (simp add: slot_for_def)
      then show ?thesis using key_slot_custom(4) [OF Some fixed] that by simp
    qed
  qed
  have "find (\<lambda>j. strcmp68 (Some k) (fst (?tt ! j)) = 0) [TAG68_ID_CUSTOM ..< TAG68_ID_MAX] = Some i"
    using i here before by (intro find_upt_first) simp_all
  then show ?thesis using fixed by (simp add: key_slot_def)
qed

text \<open>The disks whose tag sets are all there.\<close>

definition tags_sized :: "disk68 \<Rightarrow> bool" where
  "tags_sized mb \<longleftrightarrow> nb_mus mb \<le> int (size (mus mb)) \<and> size (dtags mb) = TAG68_ID_MAX \<and>
    list_all (\<lambda>m. size (mtags m) = TAG68_ID_MAX) (mus mb)"

lemma track_ref_tags:
  assumes "tags_sized mb" "0 \<le> track" "track \<le> nb_mus mb"
  shows "size (tags_of (track_ref track) mb) = TAG68_ID_MAX"
    and "tags_of (track_ref track) (set_tags (track_ref track) ts mb) = ts"
  using assms by (auto simp: tags_sized_def track_ref_def list_all_length)

lemma nb_mus_set_tags [simp]: "nb_mus (set_tags r ts mb) = nb_mus mb"
  by (cases r) simp_all

text \<open>C34. A tag that is set is found again: with a valid key, either all slots are taken by other keys, and
  nothing changes, or \<open>file68_tag_get\<close> with the key returns the value on the same track, while the
  tags of every other track and of the disk are those they were.\<close>

theorem tag_set_get:
  assumes "tags_sized mb" "0 \<le> track" "track \<le> nb_mus mb" "0 \<notin> set k" "is_valid_key (Some k)"
    and "file68_tag_set (Some mb) track (Some (Heap k)) (Some (Heap v)) = (r, Some mb')"
  shows "(if slot_for (texts_of (ddata mb) (tags_of (track_ref track) mb)) k = None
      then r = None \<and> tags_of (track_ref track) mb' = tags_of (track_ref track) mb
      else r = Some (Heap v) \<and> file68_tag_get (Some mb') track (Some k) = Some (Heap v)) \<and>
    (\<forall>other. other \<noteq> track_ref track \<longrightarrow> tags_of other mb' = tags_of other mb)"
proof -
  let ?ts = "tags_of (track_ref track) mb"
  note size = track_ref_tags(1) [OF assms(1-3)]
  obtain i us where set: "set_customtag (ddata mb) ?ts (Some (Heap k)) (Some (Heap v)) = (i, us)" by fastforce
  have r: "r = (if i \<ge> 0 then tag_val us (nat i) else None)" "mb' = set_tags (track_ref track) us mb"
    using assms(3,5,6) by (auto simp: file68_tag_set_def set)
  have other: "\<forall>other. other \<noteq> track_ref track \<longrightarrow> tags_of other mb' = tags_of other mb"
  proof (intro allI impI)
    fix other assume "other \<noteq> track_ref track"
    then show "tags_of other mb' = tags_of other mb"
      unfolding r(2) by (cases "track_ref track"; cases other) simp_all
  qed
  show ?thesis
  proof (cases "slot_for (texts_of (ddata mb) ?ts) k")
    case None
    then have "i = -1" "us = ?ts" using set by (simp_all add: set_customtag_eq [OF size])
    then show ?thesis using None r other track_ref_tags(2) [OF assms(1-3)] by simp
  next
    case (Some j)
    then have j: "i = int j" "us = ?ts[j := (or_else (fst (?ts ! j)) (Some (Heap k)), Some (Heap v))]"
      using set by (simp_all add: set_customtag_eq [OF size])
    have lt: "j < size ?ts" using slot_for_less [OF Some] size by simp
    have mb': "tags_of (track_ref track) mb' = us" "ddata mb' = ddata mb" "nb_mus mb' = nb_mus mb"
      using track_ref_tags(2) [OF assms(1-3)] r(2) by simp_all
    have texts: "texts_of (ddata mb) us = (texts_of (ddata mb) ?ts)
        [j := (or_else (fst (texts_of (ddata mb) ?ts ! j)) (Some k), Some v)]"
      using lt by (auto simp: j(2) texts_of_update texts_of_nth or_else_def)
    have "key_slot (texts_of (ddata mb) us) (Some k) = Some j"
      unfolding texts using slot_for_again [OF _ assms(4) Some] size by simp
    then have "get_customtag (ddata mb) us (Some k) = int j"
      using size j(2) by (simp add: get_customtag_slot)
    moreover have "tag_val us j = Some (Heap v)" using lt by (simp add: j(2) tag_val_def)
    ultimately show ?thesis
      using Some r j other mb' assms(2,3) by (auto simp: file68_tag_get_def get_tag_def in_range_def Let_def)
  qed
qed

section \<open>Counting tags\<close>

definition full_slot :: "tagset68 \<Rightarrow> nat \<Rightarrow> bool" where
  "full_slot ts i \<longleftrightarrow> fst (ts ! i) \<noteq> None \<and> snd (ts ! i) \<noteq> None"

lemma compact_tags_none: "(\<And>i. i \<in> set is \<Longrightarrow> \<not> full_slot ts i) \<Longrightarrow> compact_tags is c ts = (c, ts)"
proof (induction "is")
  case (Cons j js)
  have "\<not> full_slot ts j" "compact_tags js c ts = (c, ts)" using Cons.prems Cons.IH by simp_all
  then show ?case by (auto simp: full_slot_def)
qed simp

text \<open>The last full slot stays where it is, and has been copied to the last place counted.\<close>

lemma compact_tags_last:
  "compact_tags [n ..< N] c ts = (c', us) \<Longrightarrow> c \<le> n \<Longrightarrow> N \<le> size ts \<Longrightarrow> n \<le> m \<Longrightarrow> m < N \<Longrightarrow> full_slot ts m \<Longrightarrow>
    \<forall>j. m < j \<longrightarrow> j < N \<longrightarrow> \<not> full_slot ts j \<Longrightarrow>
    c < c' \<and> us ! (c' - 1) = ts ! m \<and> us ! m = ts ! m \<and>
    c' \<le> c + (m - n) + of_bool (\<forall>i. n \<le> i \<longrightarrow> i < m \<longrightarrow> full_slot ts i)"
proof (induction "N - n" arbitrary: n c ts)
  case 0
  then show ?case by simp
next
  case (Suc x)
  define us1 where "us1 = (if full_slot ts n \<and> c \<noteq> n then ts[c := ts ! n] else ts)"
  define c1 where "c1 = (if full_slot ts n then c + 1 else c)"
  have n: "n < N" using Suc.prems(4,5) by simp
  have turn: "compact_tags [Suc n ..< N] c1 us1 = (c', us)"
    using Suc.prems(1) n by (auto simp: upt_conv_Cons us1_def c1_def full_slot_def)
  have same: "us1 ! j = ts ! j" if "n < j" for j
    using that Suc.prems(2) by (simp add: us1_def)
  have fulls: "full_slot us1 j = full_slot ts j" if "n < j" for j
    using same [OF that] by (simp add: full_slot_def)
  show ?case
  proof (cases "m = n")
    case True
    have "compact_tags [Suc n ..< N] c1 us1 = (c1, us1)"
      using Suc.prems(7) fulls True by (intro compact_tags_none) simp
    then have "c' = c + 1" "us = us1" using turn Suc.prems(6) True by (simp_all add: c1_def)
    then show ?thesis using Suc.prems(2,3,6) True n by (simp add: us1_def)
  next
    case False
    then have m: "Suc n \<le> m" "n < m" using Suc.prems(4) by simp_all
    have "c1 < c' \<and> us ! (c' - 1) = us1 ! m \<and> us ! m = us1 ! m \<and>
        c' \<le> c1 + (m - Suc n) + of_bool (\<forall>i. Suc n \<le> i \<longrightarrow> i < m \<longrightarrow> full_slot us1 i)"
    proof (rule Suc.hyps(1) [OF _ turn])
      show "x = N - Suc n" using Suc.hyps(2) by simp
      show "c1 \<le> Suc n" "N \<le> size us1" using Suc.prems(2,3) by (simp_all add: c1_def us1_def)
      show "Suc n \<le> m" "m < N" by (rule m Suc.prems(5))+
      show "full_slot us1 m" using Suc.prems(6) fulls m by simp
      show "\<forall>j. m < j \<longrightarrow> j < N \<longrightarrow> \<not> full_slot us1 j" using Suc.prems(7) fulls m by simp
    qed
    moreover have "(\<forall>i. Suc n \<le> i \<longrightarrow> i < m \<longrightarrow> full_slot us1 i) \<longleftrightarrow> (\<forall>i. Suc n \<le> i \<longrightarrow> i < m \<longrightarrow> full_slot ts i)"
      using fulls by auto
    moreover have "(\<forall>i. n \<le> i \<longrightarrow> i < m \<longrightarrow> full_slot ts i) \<longleftrightarrow>
        full_slot ts n \<and> (\<forall>i. Suc n \<le> i \<longrightarrow> i < m \<longrightarrow> full_slot ts i)"
      using m by (metis Suc_le_eq le_eq_less_or_eq)
    ultimately show ?thesis
      using m same [OF m(2)] by (cases "full_slot ts n") (auto simp: c1_def of_bool_def split: if_splits)
  qed
qed

text \<open>C35. Counting the tags of a disk or track that has a free slot in front of a tag leaves the last tag in
  two slots, with the same pointers: the disk then saves it twice and frees its strings twice.\<close>

theorem count_duplicates:
  assumes "tags_sized mb" "0 \<le> track" "track \<le> nb_mus mb"
    and "TAG68_ID_CUSTOM \<le> i" "i < m" "m < TAG68_ID_MAX"
    and "\<not> full_slot (tags_of (track_ref track) mb) i" "full_slot (tags_of (track_ref track) mb) m"
    and "\<forall>j. m < j \<longrightarrow> j < TAG68_ID_MAX \<longrightarrow> \<not> full_slot (tags_of (track_ref track) mb) j"
    and "file68_tag_count (Some mb) track = (cnt, Some mb')"
  shows "int TAG68_ID_CUSTOM < cnt \<and> cnt \<le> int m \<and>
    tags_of (track_ref track) mb' ! nat (cnt - 1) = tags_of (track_ref track) mb ! m \<and>
    tags_of (track_ref track) mb' ! m = tags_of (track_ref track) mb ! m"
proof -
  let ?ts = "tags_of (track_ref track) mb"
  obtain c us where c: "compact_tags [TAG68_ID_CUSTOM ..< TAG68_ID_MAX] TAG68_ID_CUSTOM ?ts = (c, us)" by fastforce
  have r: "cnt = int c" "mb' = set_tags (track_ref track) us mb"
    using assms(2,3,10) by (simp_all add: file68_tag_count_def c)
  have "\<not> (\<forall>i. TAG68_ID_CUSTOM \<le> i \<longrightarrow> i < m \<longrightarrow> full_slot ?ts i)" using assms(4,5,7) by blast
  then have none: "of_bool (\<forall>i. TAG68_ID_CUSTOM \<le> i \<longrightarrow> i < m \<longrightarrow> full_slot ?ts i) = (0 :: nat)"
    by (simp only: of_bool_eq(1) simp_thms)
  have "TAG68_ID_CUSTOM < c \<and> us ! (c - 1) = ?ts ! m \<and> us ! m = ?ts ! m \<and>
      c \<le> TAG68_ID_CUSTOM + (m - TAG68_ID_CUSTOM) + of_bool (\<forall>i. TAG68_ID_CUSTOM \<le> i \<longrightarrow> i < m \<longrightarrow> full_slot ?ts i)"
    using track_ref_tags(1) [OF assms(1-3)] assms(4,5)
    by (intro compact_tags_last [OF c order_refl _ _ assms(6,8,9)]) simp_all
  then have "TAG68_ID_CUSTOM < c \<and> us ! (c - 1) = ?ts ! m \<and> us ! m = ?ts ! m \<and> c \<le> m"
    unfolding none using assms(4,5) by simp
  then show ?thesis
    using r track_ref_tags(2) [OF assms(1-3)] by (simp add: nat_diff_distrib)
qed

text \<open>Two tags are set and the first is removed again.\<close>

definition tag_demo :: disk68 where
  "tag_demo =
    (let set = (\<lambda>k v mb. the (snd (file68_tag_set (Some mb) 0 (Some (Heap (c_str k))) v)))
     in set ''rate'' None (set ''year'' (Some (Heap (c_str ''1993''))) (set ''rate'' (Some (Heap (c_str ''5'')))
          (new_disk [] ''sc68''))))"

lemma tag_demo_tags: "dtags tag_demo = [(tagstr ''title'', None), (tagstr ''artist'', None),
    (tagstr ''format'', tagstr ''sc68''), (None, None),
    (Some (Heap (c_str ''year'')), Some (Heap (c_str ''1993'')))] @ replicate 7 (None, None)"
  by code_simp

lemma tag_demo_sized: "tags_sized tag_demo"
  by code_simp

lemma count_duplicates_witness:
  "int TAG68_ID_CUSTOM < (4 :: int) \<and> (4 :: int) \<le> int 4 \<and>
    tags_of (track_ref 0) (the (snd (file68_tag_count (Some tag_demo) 0))) ! nat (4 - 1) = tags_of (track_ref 0) tag_demo ! 4 \<and>
    tags_of (track_ref 0) (the (snd (file68_tag_count (Some tag_demo) 0))) ! 4 = tags_of (track_ref 0) tag_demo ! 4"
proof (rule count_duplicates [where i = 3])
  show "file68_tag_count (Some tag_demo) 0 = (4, Some (the (snd (file68_tag_count (Some tag_demo) 0))))"
    by code_simp
  show "0 \<le> nb_mus tag_demo" "TAG68_ID_CUSTOM \<le> 3" "4 < TAG68_ID_MAX" by code_simp+
  show "\<forall>j. 4 < j \<longrightarrow> j < TAG68_ID_MAX \<longrightarrow> \<not> full_slot (tags_of (track_ref 0) tag_demo) j"
    by (auto simp: tag_demo_tags track_ref_def full_slot_def nth_Cons' TAG68_ID_MAX_def)
qed (simp_all add: tag_demo_sized tag_demo_tags track_ref_def full_slot_def)

text \<open>A new disk gets its year.\<close>

definition year_demo :: disk68 where
  "year_demo = the (snd (file68_tag_set (Some (new_disk [] ''sc68'')) 0 (Some (Heap (c_str ''year''))) (Some (Heap (c_str ''1993'')))))"

lemma tag_set_get_witness:
  "file68_tag_get (Some year_demo) 0 (Some (c_str ''year'')) = Some (Heap (c_str ''1993''))"
proof -
  let ?d = "new_disk [] ''sc68''"
  have d: "tags_sized ?d" "0 \<le> nb_mus ?d" "is_valid_key (Some (c_str ''year''))" "0 \<notin> set (c_str ''year'')"
    by code_simp+
  have set: "file68_tag_set (Some ?d) 0 (Some (Heap (c_str ''year''))) (Some (Heap (c_str ''1993''))) =
      (Some (Heap (c_str ''1993'')), Some year_demo)"
    by code_simp
  have "slot_for (texts_of (ddata ?d) (tags_of (track_ref 0) ?d)) (c_str ''year'') = Some 3" by code_simp
  then show ?thesis using tag_set_get [OF d(1) order_refl d(2,4,3) set] by simp
qed

end
