(* ===== verification/Player68.thy ===== *)
theory Player68
  imports Load68 Io68 Mixer68
begin

text \<open>
  The player, \<open>libsc68/src/api68.c\<close>: an instance with its 68000, its chips and its disk, the
  loading of a disk, the choice and the change of tracks, and \<open>sc68_process\<close>, which runs the
  machine one pass after the other and hands out what the chips have played.

  A disk is an address in the map \<open>disks\<close>; a freed disk is not in it any more, and an access to it is
  a crash, as are an access through a null pointer, a division by zero and a write past the end of
  the buffer of a pass.  PCM buffers are addresses in one memory of the host, \<open>pcm_ram\<close>.  What the
  host gives is in \<open>host68\<close>: the emulator of the TOS traps, which the build assembles, the replay
  routines, where a new buffer is, the default parameters of the chips and fresh memory.  Text of
  messages, and \<open>sc68->irq\<close>, which only such text uses, are left out.
\<close>

unbundle bit_operations_syntax

section \<open>State\<close>

definition INTR_ADDR :: nat where "INTR_ADDR = 0x800"
definition TRAP_ADDR :: int68 where "TRAP_ADDR = 0x1000"
definition TRAP_MAX_INST :: int68 where "TRAP_MAX_INST = 10000"
definition BRKP_MAGIC :: s32 where "BRKP_MAGIC = 0x5C68DB60"
definition PLAY_MAX_INST :: int68 where "PLAY_MAX_INST = 1000000"
definition INIT_MAX_INST :: int68 where "INIT_MAX_INST = 10000000"
definition TIME_DEF :: s32 where "TIME_DEF = 3 * 60"
definition AGA_BLEND :: s32 where "AGA_BLEND = 0x50"

definition SC68_IDLE :: s32 where "SC68_IDLE = 1"
definition SC68_CHANGE :: s32 where "SC68_CHANGE = 2"
definition SC68_LOOP :: s32 where "SC68_LOOP = 4"
definition SC68_END :: s32 where "SC68_END = 8"
definition SC68_OK :: s32 where "SC68_OK = 0"
definition SC68_ERROR :: s32 where "SC68_ERROR = -1"

definition SC68_SPR_QUERY :: int where "SC68_SPR_QUERY = -1"
definition SC68_SPR_DEFAULT :: int where "SC68_SPR_DEFAULT = 0"
definition SC68_DSK_TRACK :: int where "SC68_DSK_TRACK = 0"
definition SC68_DEF_LOOP :: int where "SC68_DEF_LOOP = 0"
definition SC68_INF_LOOP :: int where "SC68_INF_LOOP = -1"
definition SC68_DEF_TRACK :: int where "SC68_DEF_TRACK = -1"
definition SC68_CUR_TRACK :: int where "SC68_CUR_TRACK = -2"
definition SC68_CUR_LOOP :: int where "SC68_CUR_LOOP = -2"
definition SC68_PCM_S16 :: int where "SC68_PCM_S16 = 1"
definition SC68_ASID_OFF :: s32 where "SC68_ASID_OFF = 0"
definition SC68_ASID_ON :: s32 where "SC68_ASID_ON = 1"
definition SC68_ASID_FORCE :: s32 where "SC68_ASID_FORCE = 2"

definition SC68_MFP_TA :: s32 where "SC68_MFP_TA = 32"
definition SC68_MFP_TB :: s32 where "SC68_MFP_TB = 64"
definition SC68_MFP_TC :: s32 where "SC68_MFP_TC = 128"
definition SC68_MFP_TD :: s32 where "SC68_MFP_TD = 256"

definition MK4CC :: "char \<Rightarrow> char \<Rightarrow> char \<Rightarrow> char \<Rightarrow> s32" where
  "MK4CC a b c d =
    push_bit 24 (of_char a) OR push_bit 16 (of_char b) OR push_bit 8 (of_char c) OR of_char d"

record config68 =
  allow_remote :: s32
  aga_blend_cfg :: s32
  asid_cfg :: s32
  def_time_ms :: s32
  spr_cfg :: s32

text \<open>Information on a disk and a track; the tag arrays it points to are those of the disk.\<close>

record cinfo68 =
  i_track :: s32
  i_time_ms :: s32
  i_time :: cstr
  i_ym :: bool
  i_ste :: bool
  i_amiga :: bool
  i_asid :: bool
  i_hw :: string
  i_tags :: int

record minfo68 =
  i_tracks :: int
  i_addr :: s32
  i_rate :: s32
  i_replay :: sptr
  i_dsk :: cinfo68
  i_trk :: cinfo68
  i_album :: sptr
  i_title :: sptr
  i_artist :: sptr
  i_format :: sptr
  i_genre :: sptr
  i_year :: sptr
  i_ripper :: sptr
  i_converter :: sptr

record player =
  emu :: machine
  disks :: "nat \<Rightarrow> disk68 option"
  tobe3 :: bool
  pdisk :: "nat option"
  pmus :: "nat option"
  cur_track :: int
  track_to :: int
  loop_to :: int
  asid :: s32
  asid_timers :: s32
  playaddr :: s32
  seek_to :: int
  remote :: s32
  org_ms :: "nat \<Rightarrow> s32"
  len_ms :: "nat \<Rightarrow> s32"
  def_ms :: s32
  origin_ms :: s32
  elapsed_ms :: s32
  spr :: s32
  pcm_ram :: pcm
  pbuffer :: "int option"
  bufpos :: int
  bufmax :: int
  bufreq :: int
  buflen :: int
  stdlen :: int
  cycleperpass :: s32
  aga_blend :: s32
  pass_count :: s32
  loop_count :: s32
  pass_total :: s32
  loop_total :: s32
  pass_2loop :: s32
  pass_3loop :: s32
  minfo :: "minfo68 option"

record host68 =
  trap_func :: "u8 list"
  replay_of :: "cstr \<Rightarrow> u8 list option"
  pcm_alloc :: "int \<Rightarrow> int option"
  dump_clean :: bool
  ym_defs :: ym_parms
  ym_table :: "nat \<Rightarrow> int"
  ym_chans :: nat
  ym_filt :: nat
  mw_defs :: mw_parms
  paula_defs :: paula_parms
  paula_chans :: s32
  raw_chips :: sc68_chips
  emu_alloc :: "s32 \<Rightarrow> ((nat \<Rightarrow> u8) \<times> (nat \<Rightarrow> u8)) option"

datatype 'a outcome = Done 'a | Crash

definition andthen :: "'a outcome option \<Rightarrow> ('a \<Rightarrow> 'b outcome option) \<Rightarrow> 'b outcome option" where
  "andthen x f = Option.bind x (\<lambda>r. case r of Done a \<Rightarrow> f a | Crash \<Rightarrow> Some Crash)"

lemma andthen_simps [simp]:
  "andthen None f = None" "andthen (Some Crash) f = Some Crash" "andthen (Some (Done a)) f = f a"
  by (simp_all add: andthen_def)

text \<open>The current disk, when there is one to read.\<close>

definition the_disk :: "player \<Rightarrow> disk68 option" where
  "the_disk p = Option.bind (pdisk p) (disks p)"

definition put_disk :: "disk68 \<Rightarrow> player \<Rightarrow> player" where
  "put_disk d p = (case pdisk p of None \<Rightarrow> p | Some a \<Rightarrow> p\<lparr>disks := (disks p)(a \<mapsto> d)\<rparr>)"
section \<open>Checks\<close>

text \<open>What a function of the disk says, -1 without a disk.\<close>

definition on_disk :: "player \<Rightarrow> (disk68 \<Rightarrow> int) \<Rightarrow> int outcome" where
  "on_disk p f =
    (case pdisk p of None \<Rightarrow> Done (-1)
     | Some a \<Rightarrow> (case disks p a of None \<Rightarrow> Crash | Some d \<Rightarrow> Done (f d)))"

definition trk_can_asid :: "music68 \<Rightarrow> bool" where
  "trk_can_asid m \<longleftrightarrow> hwflags m AND SC68_PSG \<noteq> 0 \<and> hwflags m AND SC68_XTD \<noteq> 0 \<and>
    hwflags m AND (SC68_MFP_TA OR SC68_MFP_TB OR SC68_MFP_TC OR SC68_MFP_TD) = 0"

definition dsk_can_asid :: "disk68 \<Rightarrow> int" where
  "dsk_can_asid d = int (length (filter trk_can_asid (take (nat (nb_mus d)) (mus d))))"

section \<open>Creation\<close>

definition Wpeek :: "machine \<Rightarrow> int68 \<Rightarrow> s32" where
  "Wpeek s a = push_bit 8 (emu68_peek a s) OR emu68_peek (a + 1) s"

definition Lpeek :: "machine \<Rightarrow> int68 \<Rightarrow> s32" where
  "Lpeek s a =
    push_bit 24 (emu68_peek a s) OR push_bit 16 (emu68_peek (a + 1) s) OR
    push_bit 8 (emu68_peek (a + 2) s) OR emu68_peek (a + 3) s"

definition trap_name :: "nat \<Rightarrow> string option" where
  "trap_name n =
    (if n = 0 then Some ''sc68'' else if n = 1 then Some ''gemdos'' else if n = 13 then Some ''bios''
     else if n = 14 then Some ''xbios'' else None)"

text \<open>The handler of the debug mode, without what it prints: it sets the status.\<close>

definition irqhandler :: "nat \<Rightarrow> machine \<Rightarrow> machine" where
  "irqhandler vector s =
    (if vector \<in> {HWTRACE_VECTOR, 0x134 div 4, 0x120 div 4, 0x114 div 4, 0x110 div 4} then s
     else
       let savest = status s;
           s = (if savest = EMU68_NRM then s\<lparr>status := EMU68_BRK\<rparr> else s)
       in if vector < 0x100 then
            if TRAP_VECTOR 0 \<le> vector \<and> vector \<le> TRAP_VECTOR 15 then
              let subvec = vector - TRAP_VECTOR 0
              in if subvec = 0 then
                   let fct = Lpeek s (sx (areg s 7) + 6)
                   in if fct AND NOT 0xF = BRKP_MAGIC \<and> (fct AND 0xF = 0 \<or> fct AND 0xF = 1)
                      then s\<lparr>status := savest\<rparr> else s
                 else if trap_name subvec \<noteq> None then s\<lparr>status := savest\<rparr> else s
            else s
          else
            let vector = (if HWBREAK_VECTOR \<le> vector \<and> vector < HWTRACE_VECTOR then HWBREAK_VECTOR else vector)
            in if vector = HWSTOP_VECTOR then
                 s\<lparr>status := (if sr s AND 0x3F00 = 0x2F00 then EMU68_HLT else EMU68_STP)\<rparr>
               else if vector \<in> {HWINIT_VECTOR, HWHALT_VECTOR, HWRESET_VECTOR} then s\<lparr>status := EMU68_HLT\<rparr>
               else s)"

definition player_env :: "sc68_chips env68" where
  "player_env = sc68_env (\<lambda>_. irqhandler)"

text \<open>The chips as their plugins create them for an emulator, without parameters.\<close>

definition ymio_create :: "host68 \<Rightarrow> machine \<Rightarrow> ymio \<Rightarrow> ymio" where
  "ymio_create H s io =
    ymio_clock (clock s)
      (io\<lparr>ymio_ym := snd (ym_setup (ym_table H) (ym_chans H) (ym_filt H) (ym_defs H) (ym_defs H) (ymio_ym io))\<rparr>)"

definition mwio_create :: "host68 \<Rightarrow> machine \<Rightarrow> mw \<Rightarrow> mw" where
  "mwio_create H s = mw_setup \<lparr>parm_engine = MW_ENGINE_DEFAULT, parm_hz = 0\<rparr> (log2mem s) (mw_defs H)"

definition paulaio_create :: "host68 \<Rightarrow> machine \<Rightarrow> paula \<Rightarrow> paula" where
  "paulaio_create H s =
    paula_setup \<lparr>pp_engine = 0, pp_clock = 0, pp_hz = 0\<rparr> (log2mem s) (paula_chans H) (paula_defs H)"

definition shifterio_create :: "int \<Rightarrow> shifter \<Rightarrow> shifter" where
  "shifterio_create hz sh = shifter_hz sh hz"

definition mfpio_create :: "mfp \<Rightarrow> mfp" where
  "mfpio_create m = mfp_setup m"

text \<open>\<open>init68k\<close>: none when the processor cannot be created.\<close>

definition init68k :: "host68 \<Rightarrow> int \<Rightarrow> s32 \<Rightarrow> machine option" where
  "init68k H lg debug =
    (case emu68_create player_env
            (Some \<lparr>p_log2mem = lg, p_clock = EMU68_ATARIST_CLOCK, p_debug = debug AND 1 \<noteq> 0\<rparr>)
            (emu_alloc H) (raw_chips H) of
       None \<Rightarrow> None
     | Some s \<Rightarrow>
         let s = snd (emu68_set_handler (if debug AND 1 \<noteq> 0 then Some 0 else None) s);
             s = set_sr 0x2000 s;
             s = set_areg 7 (lo32 (memmsk s + 1 - 4)) s;
             c = chips s;
             c = c\<lparr>c_ym := ymio_create H s (c_ym c)\<rparr>;
             c = c\<lparr>c_mw := mwio_create H s (c_mw c)\<rparr>;
             c = c\<lparr>c_shifter := shifterio_create 0 (c_shifter c)\<rparr>;
             c = c\<lparr>c_paula := paulaio_create H s (c_paula c)\<rparr>;
             c = c\<lparr>c_mfp := mfpio_create (c_mfp c)\<rparr>
         in Some (s\<lparr>chips := c\<rparr>))"

definition ymio_sampling_rate :: "host68 \<Rightarrow> int \<Rightarrow> ymio \<Rightarrow> int \<times> ymio" where
  "ymio_sampling_rate H hz io =
    (let (hz, y) = ym_sampling_rate (ym_cb (ymio_ym io) = YmBlep) (ymio_ym io) hz (ym_defs H) in (hz, io\<lparr>ymio_ym := y\<rparr>))"

definition mwio_sampling_rate :: "host68 \<Rightarrow> int \<Rightarrow> mw \<Rightarrow> int \<times> mw" where
  "mwio_sampling_rate H hz m =
    (case mw_sampling_rate (Some m) hz (mw_defs H) of (hz, Some m, _) \<Rightarrow> (hz, m) | (hz, None, _) \<Rightarrow> (hz, m))"

definition paulaio_sampling_rate :: "host68 \<Rightarrow> int \<Rightarrow> paula \<Rightarrow> int \<times> paula" where
  "paulaio_sampling_rate H hz p =
    (case paula_sampling_rate (Some p) hz (paula_defs H) of (hz, Some p, _) \<Rightarrow> (hz, p) | (hz, None, _) \<Rightarrow> (hz, p))"

text \<open>The rate asked for within its bounds, and \<open>set_spr\<close> of an instance and of the library.\<close>

definition spr_asked :: "int \<Rightarrow> int" where
  "spr_asked hz =
    (let hz = (if hz = SC68_SPR_DEFAULT then SPR_DEF else hz);
         hz = (if hz < SPR_MIN then SPR_MIN else hz)
     in if hz > SPR_MAX then SPR_MAX else hz)"

definition get_spr :: "player \<Rightarrow> int" where
  "get_spr p = sint (spr p)"

definition set_spr :: "host68 \<Rightarrow> player \<Rightarrow> int \<Rightarrow> int \<times> player" where
  "set_spr H p hz =
    (if hz = SC68_SPR_QUERY then (get_spr p, p)
     else
       let hz = spr_asked hz;
           c = chips (emu p);
           (hz, y) = ymio_sampling_rate H hz (c_ym c);
           (hz, m) = mwio_sampling_rate H hz (c_mw c);
           (hz, l) = paulaio_sampling_rate H hz (c_paula c)
       in (hz, p\<lparr>emu := (emu p)\<lparr>chips := c\<lparr>c_ym := y, c_mw := m, c_paula := l\<rparr>\<rparr>, spr := word_of_int hz\<rparr>))"

definition set_spr_def :: "int \<Rightarrow> int \<Rightarrow> int \<times> int" where
  "set_spr_def spr_def hz =
    (if hz = SC68_SPR_QUERY then (spr_def, spr_def) else let hz = spr_asked hz in (hz, hz))"

definition config_default :: config68 where
  "config_default =
    \<lparr>allow_remote = 1, aga_blend_cfg = AGA_BLEND, asid_cfg = 0, def_time_ms = TIME_DEF * 1000,
     spr_cfg = word_of_int SPR_DEF\<rparr>"

definition blend_factor :: "s32 \<Rightarrow> s32" where
  "blend_factor v = (let v = v - 128 in (push_bit 8 v OR (- (v AND 1) AND 255)) + 0x8000)"

definition config_apply :: "config68 \<Rightarrow> player \<Rightarrow> player" where
  "config_apply cfg p =
    (let p = p\<lparr>remote := allow_remote cfg\<rparr>;
         p = p\<lparr>aga_blend := blend_factor (aga_blend_cfg cfg)\<rparr>;
         p = p\<lparr>def_ms := def_time_ms cfg\<rparr>
     in p\<lparr>spr := spr_cfg cfg\<rparr>)"

definition asid_of_config :: "s32 \<Rightarrow> s32" where
  "asid_of_config a =
    (if a = SC68_ASID_ON then SC68_ASID_ON
     else if a = SC68_ASID_FORCE \<or> a = SC68_ASID_ON OR SC68_ASID_FORCE then SC68_ASID_ON OR SC68_ASID_FORCE
     else SC68_ASID_OFF)"
text \<open>The zeros of \<open>calloc\<close> around a machine.\<close>

definition new_player :: "machine \<Rightarrow> player" where
  "new_player s =
    \<lparr>emu = s, disks = Map.empty, tobe3 = False, pdisk = None, pmus = None, cur_track = 0, track_to = 0,
     loop_to = 0, asid = 0, asid_timers = 0, playaddr = 0, seek_to = 0, remote = 0,
     org_ms = (\<lambda>_. 0), len_ms = (\<lambda>_. 0), def_ms = 0, origin_ms = 0, elapsed_ms = 0, spr = 0,
     pcm_ram = (\<lambda>_. 0), pbuffer = None, bufpos = 0, bufmax = 0, bufreq = 0, buflen = 0, stdlen = 0,
     cycleperpass = 0, aga_blend = 0, pass_count = 0, loop_count = 0, pass_total = 0, loop_total = 0,
     pass_2loop = 0, pass_3loop = 0, minfo = None\<rparr>"

text \<open>\<open>sc68_create\<close> with a sampling rate, a size of memory and debug flags; \<open>dbg\<close> is the option of the library.\<close>

definition sc68_create :: "host68 \<Rightarrow> config68 \<Rightarrow> int \<Rightarrow> s32 \<Rightarrow> s32 \<Rightarrow> int \<Rightarrow> s32 \<Rightarrow> player option" where
  "sc68_create H cfg spr_def dbg rate lg debug =
    Option.bind (init68k H lg (debug OR dbg)) (\<lambda>s.
      let p = config_apply cfg (new_player s);
          p = (if rate \<noteq> 0 then p\<lparr>spr := rate\<rparr> else p);
          p = (if spr p = 0 then p\<lparr>spr := word_of_int spr_def\<rparr> else p);
          p = (if def_ms p = 0 then p\<lparr>def_ms := TIME_DEF * 1000\<rparr> else p);
          p = p\<lparr>asid := asid_of_config (asid_cfg cfg)\<rparr>;
          (hz, p) = set_spr H p (sint (spr p));
          p = p\<lparr>spr := word_of_int hz\<rparr>
      in if spr p = 0 then None else Some p)"

definition can_asid :: "player \<Rightarrow> int \<Rightarrow> int outcome" where
  "can_asid p track =
    on_disk p (\<lambda>d.
      if track = SC68_DSK_TRACK then dsk_can_asid d
      else
        let track = (if track = SC68_CUR_TRACK then cur_track p else track)
        in if in_range d track then of_bool (trk_can_asid (mus d ! nat (track - 1))) else -1)"

definition set_asid :: "player \<Rightarrow> s32 \<Rightarrow> s32 \<times> player" where
  "set_asid p a =
    (let a = (if a AND SC68_ASID_FORCE \<noteq> 0 then a OR SC68_ASID_ON else a);
         a = a AND NOT 0x80000000
     in (a, p\<lparr>asid := a\<rparr>))"

definition set_asid_cfg :: "config68 \<Rightarrow> s32 \<Rightarrow> s32 \<times> config68" where
  "set_asid_cfg cfg a =
    (let a = (if a AND SC68_ASID_FORCE \<noteq> 0 then SC68_ASID_FORCE
              else if a AND SC68_ASID_ON \<noteq> 0 then SC68_ASID_ON else SC68_ASID_OFF)
     in (a, cfg\<lparr>asid_cfg := a\<rparr>))"

section \<open>Running the processor\<close>

definition stop_track :: "bool \<Rightarrow> player \<Rightarrow> player" where
  "stop_track real_stop p =
    (let p = p\<lparr>pmus := None, cur_track := 0, seek_to := -1, track_to := 0\<rparr>;
         p = (if real_stop then p\<lparr>loop_to := 0, origin_ms := 0\<rparr>
              else p\<lparr>origin_ms := origin_ms p + elapsed_ms p\<rparr>)
     in p\<lparr>elapsed_ms := 0, pass_count := 0, loop_count := 0, bufpos := 0, buflen := 0\<rparr>)"

partial_function (option) ignore_stops :: "machine \<Rightarrow> machine option" where
  "ignore_stops s =
    (if status s = EMU68_STP then Option.bind (emu68_finish player_env EMU68_CONT s) ignore_stops else Some s)"

text \<open>The loop that empties the stack of errors.\<close>

function drain_errors :: "machine \<Rightarrow> machine" where
  "drain_errors s = (case emu68_error_get s of (Some _, s) \<Rightarrow> drain_errors s | (None, s) \<Rightarrow> s)"
  by auto
termination
  by (relation "measure (\<lambda>s. length (err s))") (auto simp: emu68_error_get_def split: if_splits)

declare drain_errors.simps [simp del]

definition finish68 :: "int68 \<Rightarrow> s32 \<Rightarrow> int68 \<Rightarrow> machine \<Rightarrow> machine option" where
  "finish68 a r n s =
    (let s = set_pc (lo32 a) s;
         s = set_sr r s;
         s = set_areg 7 (lo32 (memmsk s + 1 - 16)) s;
         s = emu68_pushl player_env 0 s
     in Option.bind (emu68_finish player_env n s) (\<lambda>s.
        Option.bind (ignore_stops s) (\<lambda>s.
          Some (if status s \<noteq> EMU68_NRM then drain_errors s else s))))"

text \<open>The vectors of the processor, and the code they point to.\<close>

definition intr_code :: "nat \<Rightarrow> (nat \<Rightarrow> u8) \<Rightarrow> nat \<Rightarrow> u8" where
  "intr_code i m =
    (let vector = INTR_ADDR + i * 8; v = of_nat vector :: s32;
         m = blit [ucast (drop_bit 24 v), ucast (drop_bit 16 v), ucast (drop_bit 8 v), ucast v] (4 * i) m
     in blit [0x4e, 0x72, 0x2F, of_nat i, 0x4e, 0x70, 0x4e, 0x73] vector m)"

text \<open>The chips of the hardware \<open>hw\<close>, and the one that interrupts.\<close>

definition plug_chips :: "s32 \<Rightarrow> machine \<Rightarrow> machine option" where
  "plug_chips hw s =
    (let E = player_env
     in if hw AND SC68_AGA \<noteq> 0 then
          Option.bind (emu68_ioplug E PAULA_IO s) (\<lambda>s. Some (snd (emu68_set_interrupt_io (Some PAULA_IO) s)))
        else
          Option.bind (if hw AND SC68_PSG \<noteq> 0 then emu68_ioplug E YM_IO s else Some s) (\<lambda>s.
          Option.bind (if hw AND (SC68_DMA OR SC68_LMC) \<noteq> 0 then emu68_ioplug E MW_IO s else Some s) (\<lambda>s.
          Option.bind (emu68_ioplug E SHIFTER_IO s) (\<lambda>s.
          Option.bind (emu68_ioplug E MFP_IO s) (\<lambda>s.
            Some (snd (emu68_set_interrupt_io (Some MFP_IO) s)))))))"

lemma chips_plugged: "plug_chips hw (emu68_mem_reset (emu68_ioplug_unplug_all E s)) \<noteq> None"
  by (simp add: plug_chips_def emu68_ioplug_unplug_all_def emu68_mem_reset_def mem_reset_eq ioplug_eq
      PAULA_IO_def YM_IO_def MW_IO_def SHIFTER_IO_def MFP_IO_def Let_def)

definition reset_emulators :: "host68 \<Rightarrow> s32 \<Rightarrow> machine \<Rightarrow> (s32 \<times> machine) outcome option" where
  "reset_emulators H hw s =
    (let E = player_env;
         s = emu68_ioplug_unplug_all E s;
         s = emu68_mem_reset s
     in case plug_chips hw s of None \<Rightarrow> Some Crash
        | Some s \<Rightarrow>
     let s = emu68_reset E s;
         s = (if emu68_debugmode s \<noteq> 0 then snd (emu68_memset 0 0 0 s)
              else snd (emu68_memset 0x400 0 (of_nat INTR_ADDR - 0x400) s));
         (ptr, s) = emu68_memptr 0 0x1000 s
     in if ptr = None then Some Crash
        else
          let s = s\<lparr>mem := fold intr_code [0..<256] (mem s)\<rparr>
          in if hw AND SC68_AGA = 0 then
               let s = snd (emu68_memput TRAP_ADDR (trap_func H) (of_nat (size (trap_func H))) s);
                   s = s\<lparr>cycle := 0\<rparr>
               in Option.bind (finish68 TRAP_ADDR 0x2300 TRAP_MAX_INST s) (\<lambda>s.
                    Some (Done (if status s \<noteq> EMU68_NRM then SC68_ERROR else SC68_OK, s)))
             else Some (Done (SC68_OK, s)))"

section \<open>Changing the track\<close>

text \<open>\<open>load_replay\<close>, with \<open>stream_read_68k\<close>: the address behind the replay, or -1.\<close>

definition stream_read_68k :: "int68 \<Rightarrow> u8 list \<Rightarrow> machine \<Rightarrow> int \<times> machine" where
  "stream_read_68k dest bs s =
    (let (ptr, s) = emu68_memptr dest (of_nat (size bs)) s
     in case ptr of None \<Rightarrow> (-1, snd (emu68_error_get s)) | Some p \<Rightarrow> (0, host_copy p bs s))"

definition load_replay :: "host68 \<Rightarrow> cstr \<Rightarrow> s32 \<Rightarrow> machine \<Rightarrow> s32 \<times> machine" where
  "load_replay H name a s =
    (let rname = (case strcat68 (Some (c_str ''sc68://replay/'')) (Some name) 255 of Some (r, _) \<Rightarrow> r | None \<Rightarrow> [])
     in case replay_of H rname of None \<Rightarrow> (SC68_ERROR, s)
        | Some bs \<Rightarrow>
            let (e, s) = stream_read_68k (ucast a) bs s
            in if e \<noteq> 0 then (SC68_ERROR, s) else (a + ((of_nat (size bs) + 1) AND NOT 1), s))"

definition aSIDifier :: "config68 \<Rightarrow> player \<Rightarrow> music68 \<Rightarrow> s32" where
  "aSIDifier cfg p m =
    (if hwflags m AND SC68_PSG = 0 then 0
     else if asid_cfg cfg = SC68_ASID_OFF \<and> asid p = SC68_ASID_OFF then 0
     else if asid p AND SC68_ASID_FORCE = 0 \<and> \<not> trk_can_asid m then 0
     else
       let res = MK4CC CHR ''A'' CHR ''C'' CHR ''D'' CHR ''B''
       in if hwflags m AND SC68_XTD \<noteq> 0 then
            let res = (if hwflags m AND SC68_MFP_TA \<noteq> 0 then MK4CC CHR ''B'' CHR ''C'' CHR ''D'' CHR ''A'' else res);
                res = (if hwflags m AND SC68_MFP_TC \<noteq> 0 then MK4CC CHR ''A'' CHR ''B'' CHR ''D'' CHR ''C'' else res)
            in if hwflags m AND SC68_MFP_TD \<noteq> 0 then MK4CC CHR ''A'' CHR ''C'' CHR ''B'' CHR ''D'' else res
          else res)"

definition log2hz :: "s32 \<Rightarrow> s32" where
  "log2hz hz = (if sint hz < 75 then 0 else if sint hz < 150 then 1 else 2)"

definition run_music_init :: "player \<Rightarrow> music68 \<Rightarrow> s32 \<Rightarrow> s32 \<Rightarrow> (s32 \<times> player) option" where
  "run_music_init p m a0' a6 =
    (let s = emu p;
         s = set_dreg 0 (d0 m) s;
         s = set_dreg 1 (of_bool (hwflags m AND (SC68_DMA OR SC68_LMC) = 0)) s;
         s = set_dreg 2 (mdatasz m) s;
         s = set_dreg 6 (log2hz (frq m)) s;
         s = set_areg 0 a0' s;
         s = set_areg 6 a6 s;
         s = set_dreg 7 (asid_timers p) s;
         s = set_dreg 3 (MK4CC CHR ''S'' CHR ''N'' CHR ''D'' CHR ''P'') s;
         s = s\<lparr>cycle := 0\<rparr>
     in Option.bind (finish68 (ucast (playaddr p)) 0x2300 INIT_MAX_INST s) (\<lambda>s.
          Some (if status s \<noteq> EMU68_NRM then SC68_ERROR else SC68_OK, p\<lparr>emu := s\<rparr>)))"
section \<open>Lengths and information\<close>

text \<open>The length of a track in milliseconds, 0 when it is played for ever; and of a disk.\<close>

definition calc_track_len :: "config68 \<Rightarrow> disk68 \<Rightarrow> int \<Rightarrow> int \<Rightarrow> s32 outcome" where
  "calc_track_len cfg d track loop =
    (let m = mus d ! nat (track - 1);
         loop = (if loop = SC68_DEF_LOOP then sint (loops m) else loop)
     in if loop \<le> 0 then Done 0
        else
          let ms = force_ms d;
              ms = (if ms = 0 \<and> first_fr m = 0 then def_time_ms cfg else ms)
          in if ms \<noteq> 0 then Done (word_of_int loop * ms)
             else if frq m = 0 then Crash
             else Done (fr_to_ms (first_fr m + (word_of_int loop - 1) * loops_fr m) (frq m)))"

primrec calc_lens :: "config68 \<Rightarrow> disk68 \<Rightarrow> int \<Rightarrow> int list \<Rightarrow> s32 list outcome" where
  "calc_lens cfg d loop [] = Done []"
| "calc_lens cfg d loop (t # ts) =
    (case calc_track_len cfg d t loop of Crash \<Rightarrow> Crash
     | Done n \<Rightarrow> (case calc_lens cfg d loop ts of Crash \<Rightarrow> Crash | Done ns \<Rightarrow> Done (n # ns)))"

definition calc_disk_len :: "config68 \<Rightarrow> disk68 \<Rightarrow> int \<Rightarrow> s32 outcome" where
  "calc_disk_len cfg d loop =
    (case calc_lens cfg d loop [1..nb_mus d] of Crash \<Rightarrow> Crash | Done ns \<Rightarrow> Done (sum_list ns))"

definition hwtable :: "string list" where
  "hwtable =
    [''none'', ''Yamaha-2149'', ''MicroWire (STE)'', ''Yamaha-2149 & MicroWire (STE)'', ''Amiga/Paula'',
     ''Yamaha-2149 & Amiga/Paula'', ''MicroWire (STE) & Amiga/Paula'',
     ''Yamaha-2149 & MicroWire (STE) & Amiga/Paula'']"

definition hw_name :: "s32 \<Rightarrow> string" where
  "hw_name hw =
    hwtable ! (of_bool (hw AND SC68_PSG \<noteq> 0) + 2 * of_bool (hw AND (SC68_DMA OR SC68_LMC) \<noteq> 0) +
      4 * of_bool (hw AND SC68_AGA \<noteq> 0))"

definition cinfo :: "int \<Rightarrow> s32 \<Rightarrow> int \<Rightarrow> s32 \<Rightarrow> bool \<Rightarrow> int \<Rightarrow> cinfo68" where
  "cinfo trk ms shown hw a tags =
    \<lparr>i_track = word_of_int trk, i_time_ms = ms, i_time = strtime68 shown (sint ((ms + 999) div 1000)),
     i_ym = (hw AND SC68_PSG \<noteq> 0), i_ste = (hw AND (SC68_DMA OR SC68_LMC) \<noteq> 0), i_amiga = (hw AND SC68_AGA \<noteq> 0),
     i_asid = a, i_hw = hw_name hw, i_tags = tags\<rparr>"

definition tag_get_any :: "disk68 \<Rightarrow> int \<Rightarrow> string \<Rightarrow> sptr option" where
  "tag_get_any d track key =
    (case file68_tag_get (Some d) track (Some (c_str key)) of Some v \<Rightarrow> Some v
     | None \<Rightarrow> file68_tag_get (Some d) 0 (Some (c_str key)))"

definition not_null :: "sptr option \<Rightarrow> sptr" where
  "not_null v = (case v of Some v \<Rightarrow> v | None \<Rightarrow> Static [])"

text \<open>\<open>music_info\<close> for a track in range; \<open>lens\<close> are the lengths an instance holds.  Counting the tags changes the disk.\<close>

definition music_info ::
    "config68 \<Rightarrow> (nat \<Rightarrow> s32) option \<Rightarrow> disk68 \<Rightarrow> int \<Rightarrow> int \<Rightarrow> (minfo68 \<times> disk68) outcome" where
  "music_info cfg lens d track nloop =
    (let m = mus d ! nat (track - 1);
         dlen = (case lens of Some l \<Rightarrow> Done (l 0) | None \<Rightarrow> calc_disk_len cfg d nloop);
         tlen = (case lens of Some l \<Rightarrow> Done (l (nat track)) | None \<Rightarrow> calc_track_len cfg d track nloop)
     in case (dlen, tlen) of
          (Done dlen, Done tlen) \<Rightarrow>
            (let (dtag, d1) = file68_tag_count (Some d) 0;
                 (ttag, d2) = file68_tag_count d1 track;
                 d' = the d2; m' = mus d' ! nat (track - 1)
             in Done
               (\<lparr>i_tracks = nb_mus d, i_addr = a0 m, i_rate = frq m,
                 i_replay = (case replay m of Some r \<Rightarrow> r | None \<Rightarrow> Static (c_str ''built-in'')),
                 i_dsk = cinfo (sint (def_mus d) + 1) dlen (nb_mus d) (dhwflags d) (dsk_can_asid d > 0) dtag,
                 i_trk = cinfo track tlen track (hwflags m) (trk_can_asid m) ttag,
                 i_album = not_null (tag_val (dtags d') TAG68_ID_TITLE),
                 i_title = not_null (tag_val (mtags m') TAG68_ID_TITLE),
                 i_artist = not_null (tag_val (mtags m') TAG68_ID_ARTIST),
                 i_format = not_null (tag_val (dtags d') TAG68_ID_GENRE),
                 i_genre = not_null (tag_val (mtags m') TAG68_ID_GENRE),
                 i_year = not_null (tag_get_any d' track ''year''),
                 i_ripper = not_null (tag_get_any d' track ''ripper''),
                 i_converter = not_null (tag_get_any d' track ''converter'')\<rparr>, d'))
        | _ \<Rightarrow> Crash)"

text \<open>
  Which disk and track a request means: \<open>other\<close> is a disk at an address, none the current one.  The
  disk has not been freed.
\<close>

definition get_dt :: "player \<Rightarrow> int \<Rightarrow> nat option \<Rightarrow> (nat \<times> int) option" where
  "get_dt p track other =
    (case (case other of Some a \<Rightarrow> Some a | None \<Rightarrow> pdisk p) of None \<Rightarrow> None
     | Some a \<Rightarrow>
         (case disks p a of None \<Rightarrow> None
          | Some d \<Rightarrow>
              let track = (if track = SC68_DEF_TRACK then sint (def_mus d) + 1
                           else if track = SC68_CUR_TRACK then (if pdisk p = Some a then cur_track p else -1)
                           else track)
              in if track \<noteq> SC68_DSK_TRACK \<and> \<not> in_range d track then None else Some (a, track)))"

text \<open>
  \<open>sc68_music_info\<close>: the information asked for, with the player.  \<open>own\<close> tells that it is the
  structure of the instance that is filled.  A disk has no track 0.
\<close>

definition sc68_music_info ::
    "config68 \<Rightarrow> player \<Rightarrow> bool \<Rightarrow> int \<Rightarrow> nat option \<Rightarrow> (int \<times> minfo68 option \<times> player) outcome" where
  "sc68_music_info cfg p own track other =
    (case get_dt p track other of None \<Rightarrow> Done (-1, None, p)
     | Some (a, track) \<Rightarrow>
         let loaded = (pdisk p = Some a)
         in if loaded \<and> track = cur_track p \<and> \<not> own then Done (0, minfo p, p)
            else if track = 0 then Crash
            else
              case disks p a of None \<Rightarrow> Crash
              | Some d \<Rightarrow>
                  (case music_info cfg None d track (if loaded then loop_to p else SC68_DEF_LOOP) of
                     Crash \<Rightarrow> Crash
                   | Done (i, d) \<Rightarrow> Done (0, Some i, p\<lparr>disks := (disks p)(a \<mapsto> d)\<rparr>)))"
section \<open>Starting a track\<close>

text \<open>The data of a track: a null pointer cannot be read.\<close>

definition track_data :: "disk68 \<Rightarrow> music68 \<Rightarrow> u8 list option" where
  "track_data d m =
    (case mdata m of
       None \<Rightarrow> (if mdatasz m = 0 then Some [] else None)
     | Some i \<Rightarrow> Some (map (byte_at (ddata d)) [i ..< i + unat (mdatasz m)]))"

text \<open>From the reset of the emulators to the end of the init code of the music.\<close>

definition load_track :: "host68 \<Rightarrow> config68 \<Rightarrow> disk68 \<Rightarrow> music68 \<Rightarrow> player \<Rightarrow> (s32 \<times> player) outcome option" where
  "load_track H cfg d m p =
    andthen (reset_emulators H (hwflags m) (emu p)) (\<lambda>(r, s).
      let p = p\<lparr>emu := s\<rparr>
      in if r \<noteq> SC68_OK then Some (Done (SC68_ERROR, p))
         else
           let p = p\<lparr>playaddr := a0 m\<rparr>; a = a0 m;
               p = p\<lparr>asid_timers := aSIDifier cfg p m\<rparr>;
               (a, s) = (if asid_timers p \<noteq> 0 then load_replay H (c_str ''asidifier'') a s else (a, s))
           in if asid_timers p \<noteq> 0 \<and> a = SC68_ERROR then Some (Done (SC68_ERROR, p\<lparr>emu := s\<rparr>))
              else
                let a6 = a;
                    (a, s) = (case text_of (ddata d) (replay m) of
                                None \<Rightarrow> (a, s) | Some name \<Rightarrow> load_replay H name a s)
                in if replay m \<noteq> None \<and> a = SC68_ERROR then Some (Done (SC68_ERROR, p\<lparr>emu := s\<rparr>))
                   else
                     let (e, s') = (case track_data d m of
                                      None \<Rightarrow> emu68_memput (sx a) [] (ucast (mdatasz m)) s
                                    | Some bs \<Rightarrow> emu68_memput (sx a) bs (ucast (mdatasz m)) s)
                     in if e \<noteq> 0 then Some (Done (SC68_ERROR, p\<lparr>emu := snd (emu68_error_get s')\<rparr>))
                        else if track_data d m = None then Some Crash
                        else Option.bind (run_music_init (p\<lparr>emu := s'\<rparr>) m a a6) (\<lambda>r. Some (Done r)))"

text \<open>The numbers of passes to the first loop, to the next ones and to the end.\<close>

definition set_passes :: "disk68 \<Rightarrow> music68 \<Rightarrow> player \<Rightarrow> player" where
  "set_passes d m p =
    (let ms = force_ms d;
         ms = (if ms = 0 \<and> first_fr m = 0 then def_ms p else ms);
         loop = loop_to p;
         loop = (if loop = SC68_DEF_LOOP then (if sint (loops m) > 0 then sint (loops m) else SC68_INF_LOOP) else loop);
         p = p\<lparr>loop_count := 0\<rparr>;
         p = p\<lparr>loop_total := (if loop = SC68_INF_LOOP then 0 else word_of_int loop)\<rparr>;
         p = p\<lparr>pass_count := 0\<rparr>
     in if sint ms > 0 then
          let p = p\<lparr>pass_2loop := ms_to_fr ms (frq m)\<rparr>;
              p = p\<lparr>pass_3loop := pass_2loop p\<rparr>
          in p\<lparr>pass_total := loop_total p * pass_2loop p\<rparr>
        else
          let p = p\<lparr>pass_2loop := first_fr m\<rparr>;
              p = p\<lparr>pass_3loop := loops_fr m\<rparr>
          in p\<lparr>pass_total := (if loop_total p > 0 then pass_2loop p + (loop_total p - 1) * pass_3loop p else 0)\<rparr>)"

text \<open>The processor cycles of a pass, rounded for the YM; the rate is not 0.\<close>

definition pass_cycles :: "music68 \<Rightarrow> machine \<Rightarrow> s32" where
  "pass_cycles m s =
    (let c = (if frq m mod 50 = 0 \<and> clock s = sx EMU68_ATARIST_CLOCK then 160256 * 50 div frq m
              else ucast (clock s div ucast (frq m)));
         io = c_ym (chips s);
         c = (if hwflags m AND SC68_PSG \<noteq> 0
              then ucast (cycle_ymtocpu io ((cycle_cputoym io (ucast c) + 31) AND NOT 31)) else c)
     in (c + 31) AND NOT 31)"

definition ymio_buffersize :: "ymio \<Rightarrow> int68 \<Rightarrow> int68" where
  "ymio_buffersize io c = ym_buffersize (ymio_ym io) (cycle_cputoym io c)"

text \<open>The buffer: its size is what a pass is expected to give.  None when there is no memory.\<close>

definition pass_buffer :: "host68 \<Rightarrow> music68 \<Rightarrow> player \<Rightarrow> (bool \<times> player)" where
  "pass_buffer H m p =
    (let s = emu p;
         len = (ucast (spr p) * ucast (cycleperpass p)) div clock s;
         p = p\<lparr>stdlen := sint (ucast len :: s32)\<rparr>;
         req = (if hwflags m AND SC68_PSG \<noteq> 0
                then sint (ucast (ymio_buffersize (c_ym (chips s)) (ucast (cycleperpass p))) :: s32) else stdlen p);
         req = (if hwflags m AND SC68_AGA \<noteq> 0 \<and> stdlen p > req then stdlen p else req);
         p = p\<lparr>bufreq := req\<rparr>
     in if req > bufmax p then
          (case pcm_alloc H req of
             None \<Rightarrow> (False, p\<lparr>bufmax := 0, pbuffer := None\<rparr>)
           | Some a \<Rightarrow> (True, p\<lparr>bufmax := req, pbuffer := Some a\<rparr>))
        else (True, p))"

definition change_track :: "host68 \<Rightarrow> config68 \<Rightarrow> int \<Rightarrow> player \<Rightarrow> int \<Rightarrow> (s32 \<times> player) outcome option" where
  "change_track H cfg spr_def p track =
    (let p = stop_track False p
     in case the_disk p of None \<Rightarrow> Some Crash
        | Some d \<Rightarrow>
            let m = mus d ! nat (track - 1)
            in andthen (load_track H cfg d m p) (\<lambda>(r, p).
                 if r = SC68_ERROR then Some (Done (SC68_ERROR, p))
                 else
                   let p = (if spr p = 0 then p\<lparr>spr := word_of_int spr_def\<rparr> else p)
                   in if uint (spr p) < SPR_MIN \<or> uint (spr p) > SPR_MAX then Some (Done (SC68_ERROR, p))
                      else
                        let p = set_passes d m p
                        in if frq m = 0 then Some Crash
                           else
                             let p = p\<lparr>cycleperpass := pass_cycles m (emu p)\<rparr>;
                                 p = (if frq m = 60 then p\<lparr>emu := put_shifter (shifter_hz (c_shifter (chips (emu p))) 60) (emu p)\<rparr>
                                      else p);
                                 (got, p) = pass_buffer H m p
                             in if \<not> got then Some (Done (SC68_ERROR, p))
                                else
                                  let p = p\<lparr>pmus := Some (nat (track - 1)), cur_track := track\<rparr>
                                  in case sc68_music_info cfg p True track None of
                                       Crash \<Rightarrow> Some Crash
                                     | Done (e, i, p) \<Rightarrow>
                                         Some (Done (if e \<noteq> 0 then (SC68_ERROR, p) else (SC68_OK, p\<lparr>minfo := i\<rparr>)))))"

definition check_track_range :: "disk68 \<Rightarrow> int \<Rightarrow> int" where
  "check_track_range d track = (if track < 1 \<or> track > nb_mus d then -1 else 0)"

text \<open>What was requested by \<open>sc68_play\<close>, \<open>sc68_stop\<close> or the end of a track.\<close>

definition apply_change_track :: "host68 \<Rightarrow> config68 \<Rightarrow> int \<Rightarrow> player \<Rightarrow> (s32 \<times> player) outcome option" where
  "apply_change_track H cfg spr_def p =
    (let track = track_to p
     in if track = 0 then Some (Done (SC68_OK, p))
        else
          let p = p\<lparr>track_to := 0\<rparr>
          in if track = -1 then
               Some (Done (SC68_END, (stop_track True (p\<lparr>buflen := 0\<rparr>))\<lparr>origin_ms := 0\<rparr>))
             else
               case the_disk p of None \<Rightarrow> Some Crash
               | Some d \<Rightarrow>
                   if check_track_range d track \<noteq> 0 then Some (Done (SC68_ERROR, p))
                   else andthen (change_track H cfg spr_def p track) (\<lambda>(r, p).
                          Some (Done (if r \<noteq> SC68_OK then SC68_ERROR else SC68_CHANGE, p))))"
section \<open>Playing\<close>

text \<open>The two checks before a pass: a loop, the end of the track.\<close>

definition check_loop :: "s32 \<Rightarrow> player \<Rightarrow> s32 \<times> player" where
  "check_loop ret p =
    (if pass_2loop p \<noteq> 0 then
       let p = p\<lparr>pass_2loop := pass_2loop p - 1\<rparr>
       in if pass_2loop p = 0
          then (ret OR SC68_LOOP, p\<lparr>pass_2loop := pass_3loop p, loop_count := loop_count p + 1\<rparr>)
          else (ret, p)
     else (ret, p))"

definition check_end :: "player \<Rightarrow> player outcome" where
  "check_end p =
    (if pass_total p \<noteq> 0 \<and> pass_count p \<ge> pass_total p then
       let next_track = cur_track p + 1
       in case the_disk p of None \<Rightarrow> Crash
          | Some d \<Rightarrow>
              Done (p\<lparr>track_to := (if force_track d \<noteq> 0 \<or> next_track > nb_mus d then -1 else next_track),
                      seek_to := -1\<rparr>)
     else Done p)"

text \<open>The processor plays one pass: the play routine, then the interrupts of the cycles of the pass.\<close>

definition run_pass :: "player \<Rightarrow> player option" where
  "run_pass p =
    (let s = emu p;
         s = (if asid_timers p \<noteq> 0
              then s\<lparr>mem := (mem s)(unat (playaddr p + 17) := (if asid p AND SC68_ASID_ON \<noteq> 0 then 0xFF else 0))\<rparr>
              else s)
     in Option.bind (finish68 (ucast (playaddr p + 8)) 0x2300 PLAY_MAX_INST s) (\<lambda>s.
          if status s = EMU68_NRM
          then Option.bind (emu68_interrupt player_env (ucast (cycleperpass p)) (set_sr 0x2300 s))
                 (\<lambda>s. Some (p\<lparr>emu := s\<rparr>))
          else Some (p\<lparr>emu := s\<rparr>)))"

text \<open>Cells of the memory of PCM.\<close>

definition pcm_read :: "pcm \<Rightarrow> int \<Rightarrow> int \<Rightarrow> s32 list" where
  "pcm_read m a n = map (\<lambda>i. m (a + int i)) [0 ..< nat n]"

definition pcm_write :: "int \<Rightarrow> s32 list \<Rightarrow> pcm \<Rightarrow> pcm" where
  "pcm_write a xs m = (\<lambda>i. if a \<le> i \<and> i < a + int (length xs) then xs ! nat (i - a) else m i)"

definition put_chips :: "sc68_chips \<Rightarrow> player \<Rightarrow> player" where
  "put_chips c p = p\<lparr>emu := (emu p)\<lparr>chips := c\<rparr>\<rparr>"

text \<open>
  The chips fill the buffer at \<open>b\<close> with a pass for the hardware \<open>hw\<close>; the code is -1 when the YM
  refuses.  The YM writes as many samples as the cycles make: more than the buffer holds is a crash.
\<close>

definition mix_amiga :: "int \<Rightarrow> player \<Rightarrow> player option" where
  "mix_amiga b p =
    (let c = chips (emu p)
     in Option.bind (paula_mix (mem (emu p)) (pcm_read (pcm_ram p) b (buflen p)) (c_paula c)) (\<lambda>(xs, l).
          let p = put_chips (c\<lparr>c_paula := l\<rparr>) p;
              p = p\<lparr>pcm_ram := pcm_write b xs (pcm_ram p)\<rparr>
          in Some (p\<lparr>pcm_ram := mixer68_blend_LR (pcm_ram p) b b (buflen p) (aga_blend p) 0 0\<rparr>)))"

definition mix_ym :: "host68 \<Rightarrow> int \<Rightarrow> player \<Rightarrow> (int \<times> player) outcome option" where
  "mix_ym H b p =
    (let c = chips (emu p); io = c_ym c
     in Option.bind (ym_run (dump_clean H) (ymio_ym io) True (cycle_cputoym io (ucast (cycleperpass p)))) (\<lambda>(n, xs, _, y).
          let p = put_chips (c\<lparr>c_ym := io\<lparr>ymio_ym := y\<rparr>\<rparr>) p
          in Some (if int (length xs) > bufmax p then Crash
                   else Done (n, p\<lparr>pcm_ram := pcm_write b (map word_of_int xs) (pcm_ram p)\<rparr>))))"

definition mix_ste_or_dup :: "int \<Rightarrow> s32 \<Rightarrow> player \<Rightarrow> player" where
  "mix_ste_or_dup b hw p =
    (let c = chips (emu p)
     in if hw AND (SC68_DMA OR SC68_LMC) \<noteq> 0 then
          case mw_mix (c_mw c) (mem (emu p)) (Some (pcm_read (pcm_ram p) b (buflen p))) (buflen p) of
            (Some xs, m) \<Rightarrow> put_chips (c\<lparr>c_mw := m\<rparr>) (p\<lparr>pcm_ram := pcm_write b xs (pcm_ram p)\<rparr>)
          | (None, m) \<Rightarrow> put_chips (c\<lparr>c_mw := m\<rparr>) p
        else p\<lparr>pcm_ram := mixer68_dup_L_to_R (pcm_ram p) b b (buflen p) 0\<rparr>)"

definition mix_pass :: "host68 \<Rightarrow> int \<Rightarrow> s32 \<Rightarrow> player \<Rightarrow> (int \<times> player) outcome option" where
  "mix_pass H b hw p =
    (if hw AND SC68_AGA \<noteq> 0 then map_option (\<lambda>p. Done (0, p)) (mix_amiga b p)
     else if hw AND SC68_PSG \<noteq> 0 then
       andthen (mix_ym H b p) (\<lambda>(e, p).
         if e < 0 then Some (Done (-1, p\<lparr>buflen := 0\<rparr>))
         else Some (Done (0, mix_ste_or_dup b hw (p\<lparr>buflen := e\<rparr>))))
     else
       let p = p\<lparr>buflen := bufreq p\<rparr>
       in Some (Done (0, mix_ste_or_dup b hw (p\<lparr>pcm_ram := mixer68_fill (pcm_ram p) b (buflen p) 0\<rparr>))))"

definition calc_pos :: "player \<Rightarrow> player" where
  "calc_pos p =
    p\<lparr>elapsed_ms := ucast ((ucast (pass_count p) * ucast (cycleperpass p * 1000) :: int68) div clock (emu p))\<rparr>"

text \<open>
  The buffer of the current track is filled.  A buffer that was never allocated is only touched when
  the pass has samples.
\<close>

definition mix_buffer :: "host68 \<Rightarrow> player \<Rightarrow> (int \<times> player) outcome option" where
  "mix_buffer H p =
    (case (the_disk p, pmus p) of
       (Some d, Some i) \<Rightarrow>
         (if pbuffer p = None \<and> bufreq p > 0 then Some Crash
          else mix_pass H (case pbuffer p of Some b \<Rightarrow> b | None \<Rightarrow> 0) (hwflags (mus d ! i)) p)
     | _ \<Rightarrow> Some Crash)"

text \<open>A pass: the code, whether the loop of \<open>sc68_process\<close> stops, and the player.\<close>

definition play_pass :: "host68 \<Rightarrow> s32 \<Rightarrow> player \<Rightarrow> (s32 \<times> bool \<times> player) outcome option" where
  "play_pass H ret p =
    Option.bind (run_pass p) (\<lambda>p.
      if status (emu p) \<noteq> EMU68_NRM then Some (Done (SC68_ERROR, True, p))
      else
        let p = p\<lparr>bufpos := 0\<rparr>;
            p = p\<lparr>buflen := bufreq p\<rparr>
        in andthen (mix_buffer H p) (\<lambda>(e, p).
             if e < 0 then Some (Done (SC68_ERROR, True, p))
             else
               let p = calc_pos p
               in Some (Done (ret, False, p\<lparr>pass_count := pass_count p + 1\<rparr>))))"

definition fill_buffer :: "host68 \<Rightarrow> config68 \<Rightarrow> int \<Rightarrow> s32 \<Rightarrow> player \<Rightarrow> (s32 \<times> bool \<times> player) outcome option" where
  "fill_buffer H cfg spr_def ret p =
    (let (ret, p) = check_loop ret p
     in case check_end p of Crash \<Rightarrow> Some Crash
        | Done p \<Rightarrow>
            andthen (apply_change_track H cfg spr_def p) (\<lambda>(r, p).
              let ret = ret OR r
              in if ret AND (SC68_END OR SC68_CHANGE) \<noteq> 0 then Some (Done (ret, True, p))
                 else play_pass H (ret AND NOT SC68_IDLE) p))"

text \<open>The loop of \<open>sc68_process\<close> with \<open>n\<close> samples left to write at \<open>dst\<close>.\<close>

definition hand_out :: "int \<Rightarrow> int \<Rightarrow> player \<Rightarrow> player" where
  "hand_out dst len p =
    (let p = p\<lparr>pcm_ram := mixer68_copy (pcm_ram p) dst ((case pbuffer p of Some b \<Rightarrow> b | None \<Rightarrow> 0) + bufpos p) len\<rparr>
     in p\<lparr>bufpos := bufpos p + len, buflen := buflen p - len\<rparr>)"

partial_function (option) process_loop ::
    "host68 \<Rightarrow> config68 \<Rightarrow> int \<Rightarrow> int \<Rightarrow> int \<Rightarrow> s32 \<Rightarrow> player \<Rightarrow> (s32 \<times> int \<times> player) outcome option" where
  "process_loop H cfg spr_def n dst ret p =
    (if n \<le> 0 then Some (Done (ret, n, p))
     else
       Option.bind (if buflen p = 0 then fill_buffer H cfg spr_def ret p else Some (Done (ret, False, p))) (\<lambda>r.
         case r of Crash \<Rightarrow> Some Crash
         | Done (ret, stop, p) \<Rightarrow>
             if stop then Some (Done (ret, n, p))
             else
               let len = (if buflen p \<le> n then buflen p else n)
               in process_loop H cfg spr_def (n - len) (dst + len) ret (hand_out dst len p)))"

text \<open>\<open>sc68_process\<close>: the code, how many samples were written, the player.\<close>

definition sc68_process ::
    "host68 \<Rightarrow> config68 \<Rightarrow> int \<Rightarrow> player \<Rightarrow> int option \<Rightarrow> int option \<Rightarrow> (s32 \<times> int \<times> player) outcome option" where
  "sc68_process H cfg spr_def p buf n =
    (case n of
       None \<Rightarrow> andthen (apply_change_track H cfg spr_def p) (\<lambda>(r, p). Some (Done (SC68_IDLE OR r, 0, p)))
     | Some n \<Rightarrow>
         (case buf of
            None \<Rightarrow> Some (Done (SC68_ERROR, n, p))
          | Some dst \<Rightarrow>
              andthen (process_loop H cfg spr_def n dst (if n < 0 then SC68_ERROR else SC68_IDLE) p)
                (\<lambda>(ret, left, p). Some (Done (ret, n - left, p)))))"
section \<open>Disks\<close>

definition file68_free :: "nat \<Rightarrow> player \<Rightarrow> player" where
  "file68_free a p = p\<lparr>disks := (disks p)(a := None)\<rparr>"

definition sc68_close :: "player \<Rightarrow> player" where
  "sc68_close p =
    (case pdisk p of None \<Rightarrow> p
     | Some a \<Rightarrow>
         let p = stop_track True (p\<lparr>buflen := 0\<rparr>);
             p = (if tobe3 p then file68_free a p else p)
         in p\<lparr>tobe3 := False, pdisk := None\<rparr>)"

text \<open>The table of the tracks: where each begins and how long it is; entry 0 is the disk.\<close>

definition track_times :: "s32 list \<Rightarrow> player \<Rightarrow> player" where
  "track_times ns p =
    fold (\<lambda>i p.
        let p = p\<lparr>org_ms := (org_ms p)(i := len_ms p 0)\<rparr>;
            p = p\<lparr>len_ms := (len_ms p)(i := ns ! (i - 1))\<rparr>
        in p\<lparr>len_ms := (len_ms p)(0 := len_ms p 0 + len_ms p i)\<rparr>)
      [1 ..< length ns + 1] (p\<lparr>org_ms := (org_ms p)(0 := 0), len_ms := (len_ms p)(0 := 0)\<rparr>)"

definition sc68_play :: "config68 \<Rightarrow> player \<Rightarrow> int \<Rightarrow> int \<Rightarrow> (int \<times> player) outcome" where
  "sc68_play cfg p track loop =
    (case pdisk p of None \<Rightarrow> Done (-1, p)
     | Some a \<Rightarrow>
         (case disks p a of None \<Rightarrow> Crash
          | Some d \<Rightarrow>
              if track = SC68_CUR_TRACK
              then Done (if loop = SC68_CUR_LOOP then sint (loop_count p) else cur_track p, p)
              else
                let track = (if force_track d > 0 then sint (force_track d)
                             else if track = SC68_DEF_TRACK then sint (def_mus d) + 1 else track);
                    loop = (if force_loops d \<noteq> 0 then sint (force_loops d) else loop)
                in if check_track_range d track \<noteq> 0 then Done (-1, p)
                   else
                     case calc_lens cfg d loop [1..nb_mus d] of Crash \<Rightarrow> Crash
                     | Done ns \<Rightarrow>
                         Done (0, (track_times ns p)\<lparr>track_to := track, seek_to := -1, loop_to := loop\<rparr>)))"

definition sc68_stop :: "player \<Rightarrow> int \<times> player" where
  "sc68_stop p = (if pdisk p = None then (-1, p) else (0, p\<lparr>track_to := -1, seek_to := -1\<rparr>))"

text \<open>
  \<open>load_disk\<close> of the disk at an address, none when it could not be loaded.  On failure the disk is
  freed, whoever owns it.
\<close>

definition load_disk :: "config68 \<Rightarrow> player \<Rightarrow> nat option \<Rightarrow> bool \<Rightarrow> (int \<times> player) outcome" where
  "load_disk cfg p d free_on_close =
    (case d of None \<Rightarrow> Done (-1, p)
     | Some a \<Rightarrow>
         if pdisk p \<noteq> None then Done (-1, file68_free a p)
         else
           let p = p\<lparr>tobe3 := free_on_close, pdisk := Some a, cur_track := 0, pmus := None\<rparr>
           in case sc68_play cfg p SC68_DEF_TRACK SC68_DEF_LOOP of Crash \<Rightarrow> Crash
              | Done (r, p) \<Rightarrow>
                  if r < 0 then Done (-1, file68_free a p)
                  else
                    case the_disk p of None \<Rightarrow> Crash
                    | Some dk \<Rightarrow>
                        (case music_info cfg (Some (len_ms p)) dk (track_to p) (loop_to p) of Crash \<Rightarrow> Crash
                         | Done (i, dk) \<Rightarrow> Done (0, put_disk dk (p\<lparr>minfo := Some i\<rparr>))))"

text \<open>A disk that was loaded is put at the address \<open>a\<close>, where nothing is.\<close>

definition host_disk :: "nat \<Rightarrow> disk68 run \<Rightarrow> player \<Rightarrow> (nat option \<times> player) outcome" where
  "host_disk a r p =
    (case r of Good d \<Rightarrow> Done (Some a, p\<lparr>disks := (disks p)(a \<mapsto> d)\<rparr>)
     | Failed \<Rightarrow> Done (None, p) | Fault \<Rightarrow> Crash)"

definition sc68_load_mem ::
    "config68 \<Rightarrow> allocator \<Rightarrow> (vfs_mem \<Rightarrow> timedb \<Rightarrow> (disk68 run \<times> timedb) option) \<Rightarrow> nat \<Rightarrow> u8 list \<Rightarrow> timedb \<Rightarrow>
      player \<Rightarrow> (int \<times> timedb \<times> player) outcome option" where
  "sc68_load_mem cfg alloc gz a buf tdb p =
    Option.bind (file68_load_mem alloc gz buf tdb) (\<lambda>(r, tdb).
      Some (case host_disk a r p of Crash \<Rightarrow> Crash
        | Done (d, p) \<Rightarrow>
            (case load_disk cfg p d True of Crash \<Rightarrow> Crash | Done (e, p) \<Rightarrow> Done (e, tdb, p))))"

definition sc68_load ::
    "config68 \<Rightarrow> allocator \<Rightarrow> (vfs_mem \<Rightarrow> timedb \<Rightarrow> (disk68 run \<times> timedb) option) \<Rightarrow>
      ('s \<Rightarrow> timedb \<Rightarrow> (disk68 run \<times> timedb) option) \<Rightarrow> 's vfs option \<Rightarrow> 's \<Rightarrow> nat \<Rightarrow> timedb \<Rightarrow>
      player \<Rightarrow> (int \<times> timedb \<times> player) outcome option" where
  "sc68_load cfg alloc gzm gz V s a tdb p =
    Option.bind (file68_load alloc gzm gz V s tdb) (\<lambda>(r, tdb).
      Some (case host_disk a r p of Crash \<Rightarrow> Crash
        | Done (d, p) \<Rightarrow>
            (case load_disk cfg p d True of Crash \<Rightarrow> Crash | Done (e, p) \<Rightarrow> Done (e, tdb, p))))"

definition sc68_open :: "config68 \<Rightarrow> player \<Rightarrow> nat option \<Rightarrow> (int \<times> player) outcome" where
  "sc68_open cfg p d =
    (case d of None \<Rightarrow> Done (-1, sc68_close p) | Some a \<Rightarrow> load_disk cfg p (Some a) False)"

definition sc68_disk_free :: "nat option \<Rightarrow> player \<Rightarrow> player" where
  "sc68_disk_free d p = (case d of None \<Rightarrow> p | Some a \<Rightarrow> file68_free a p)"

section \<open>Control\<close>

datatype pos68 = PosPlay | PosTrack | PosDisk

definition get_pos :: "player \<Rightarrow> pos68 \<Rightarrow> s32" where
  "get_pos p origin =
    (if cur_track p > 0 then
       (case origin of PosPlay \<Rightarrow> origin_ms p | PosDisk \<Rightarrow> org_ms p (nat (cur_track p)) | PosTrack \<Rightarrow> 0)
       + elapsed_ms p + (word_of_int (bufpos p) * 1000) div spr p
     else -1)"

definition get_len :: "player \<Rightarrow> disk68 \<Rightarrow> int \<Rightarrow> s32" where
  "get_len p d track = (if 0 \<le> track \<and> track \<le> nb_mus d then len_ms p (nat track) else -1)"

text \<open>
  The functions of \<open>sc68_cntl\<close> on an instance, without those on options, configuration files,
  dialogs and the data of the user.
\<close>

datatype cntl68 =
    NOP | GET_LAST | GET_PCM | SET_PCM int | GET_SPR | SET_SPR int | GET_ASID | SET_ASID s32 | CAN_ASID int
  | GET_TRACKS | GET_TRACK | GET_DEFTRK | GET_LOOPS | GET_LOOP | GET_LEN | GET_TRKLEN int | GET_DSKLEN
  | GET_POS | GET_ORG | GET_TRKORG int | GET_DSKPOS | GET_PLAYPOS | SET_POS int

definition SC68_CNTL_LAST :: int where "SC68_CNTL_LAST = 35"

fun sc68_cntl :: "host68 \<Rightarrow> player \<Rightarrow> cntl68 \<Rightarrow> int outcome \<times> player" where
  "sc68_cntl H p NOP = (Done (-1), p)"
| "sc68_cntl H p GET_LAST = (Done SC68_CNTL_LAST, p)"
| "sc68_cntl H p GET_PCM = (Done SC68_PCM_S16, p)"
| "sc68_cntl H p (SET_PCM f) = (Done (- of_bool (f \<noteq> SC68_PCM_S16)), p)"
| "sc68_cntl H p GET_SPR = (Done (get_spr p), p)"
| "sc68_cntl H p (SET_SPR hz) = (let (r, p) = set_spr H p hz in (Done r, p))"
| "sc68_cntl H p GET_ASID = (Done (sint (asid p)), p)"
| "sc68_cntl H p (SET_ASID a) = (let (r, p) = set_asid p a in (Done (sint r), p))"
| "sc68_cntl H p (CAN_ASID t) = (can_asid p t, p)"
| "sc68_cntl H p GET_TRACKS = (on_disk p nb_mus, p)"
| "sc68_cntl H p GET_TRACK = (Done (cur_track p), p)"
| "sc68_cntl H p GET_DEFTRK = (on_disk p (\<lambda>d. sint (def_mus d) + 1), p)"
| "sc68_cntl H p GET_LOOPS = (Done (if cur_track p > 0 then sint (loop_total p) else -1), p)"
| "sc68_cntl H p GET_LOOP = (Done (if cur_track p > 0 then sint (loop_count p) else -1), p)"
| "sc68_cntl H p GET_LEN = (if cur_track p > 0 then on_disk p (\<lambda>d. sint (get_len p d (cur_track p))) else Done (-1), p)"
| "sc68_cntl H p (GET_TRKLEN t) = (on_disk p (\<lambda>d. sint (get_len p d t)), p)"
| "sc68_cntl H p GET_DSKLEN = (on_disk p (\<lambda>d. sint (get_len p d SC68_DSK_TRACK)), p)"
| "sc68_cntl H p GET_POS = (Done (sint (get_pos p PosTrack)), p)"
| "sc68_cntl H p GET_ORG = (Done (if cur_track p > 0 then sint (org_ms p (nat (cur_track p))) else -1), p)"
| "sc68_cntl H p (GET_TRKORG t) = (on_disk p (\<lambda>d. if in_range d t then sint (org_ms p (nat t)) else -1), p)"
| "sc68_cntl H p GET_DSKPOS = (Done (sint (get_pos p PosDisk)), p)"
| "sc68_cntl H p GET_PLAYPOS = (Done (sint (get_pos p PosPlay)), p)"
| "sc68_cntl H p (SET_POS t) = (Done (-1), p)"

section \<open>Tags\<close>

definition sc68_tag :: "player \<Rightarrow> cstr option \<Rightarrow> int \<Rightarrow> nat option \<Rightarrow> cstr option" where
  "sc68_tag p key track other =
    (if key = None then None
     else case get_dt p track other of None \<Rightarrow> None
       | Some (a, track) \<Rightarrow> file68_tag (disks p a) track key)"

definition sc68_tag_get :: "player \<Rightarrow> cstr option \<Rightarrow> int \<Rightarrow> nat option \<Rightarrow> int \<times> sptr option" where
  "sc68_tag_get p key track other =
    (case get_dt p track other of None \<Rightarrow> (-1, None)
     | Some (a, track) \<Rightarrow>
         let v = file68_tag_get (disks p a) track key in (- of_bool (v = None), v))"

definition sc68_tag_enum :: "player \<Rightarrow> int \<Rightarrow> int \<Rightarrow> nat option \<Rightarrow> int \<times> tag68" where
  "sc68_tag_enum p track i other =
    (case get_dt p track other of None \<Rightarrow> (-1, (None, None))
     | Some (a, track) \<Rightarrow> file68_tag_enum (disks p a) track i)"

end
