(* ===== verification/Playing68.thy ===== *)
theory Playing68
  imports Player68 Chips68 Insn68
begin

unbundle bit_operations_syntax

text \<open>
  What the player promises. A track plays its passes and no more, with the loops counted as the
  tables of the track say; what \<open>sc68_process\<close> hands out is samples that were mixed, and the
  codes it returns are those of the buffers it filled.
\<close>

lemma andthen_done: "andthen x f = Some (Done b) \<longleftrightarrow> (\<exists>a. x = Some (Done a) \<and> f a = Some (Done b))"
  by (cases x; cases "the x") auto

lemma unat_small: "unat w < 2 ^ 32" for w :: s32
  using unsigned_less [of w, where ?'a = nat] by simp

lemma unat_of: "n < 2 ^ 32 \<Longrightarrow> unat (of_nat n :: s32) = n"
  by (simp add: unsigned_of_nat take_bit_nat_eq_self)

lemma of_unat: "unat w = n \<Longrightarrow> w = of_nat n" for w :: "'a::len word"
  by auto

section \<open>Counting passes\<close>

text \<open>What a filled buffer has done to the counters.\<close>

definition counted :: "player \<Rightarrow> player \<Rightarrow> bool" where
  "counted p q \<longleftrightarrow>
    (let c = snd (check_loop 0 p)
     in pass_count q = pass_count p + 1 \<and> pass_2loop q = pass_2loop c \<and> pass_3loop q = pass_3loop p \<and>
        loop_count q = loop_count c \<and> pass_total q = pass_total p \<and> loop_total q = loop_total p)"

definition same_count :: "player \<Rightarrow> player \<Rightarrow> bool" where
  "same_count p q \<longleftrightarrow>
    pass_count q = pass_count p \<and> pass_2loop q = pass_2loop p \<and> pass_3loop q = pass_3loop p \<and>
    loop_count q = loop_count p \<and> pass_total q = pass_total p \<and> loop_total q = loop_total p"

lemma same_count_refl [simp]: "same_count p p"
  by (simp add: same_count_def)

lemma same_count_trans: "same_count p q \<Longrightarrow> same_count q r \<Longrightarrow> same_count p r"
  by (simp add: same_count_def)

lemma run_pass_count: "run_pass p = Some q \<Longrightarrow> \<exists>s. q = p\<lparr>emu := s\<rparr>"
  by (auto simp: run_pass_def Let_def bind_eq_Some_conv split: if_splits)

lemma mix_ste_or_dup_fields:
  "mix_ste_or_dup b hw p = p\<lparr>emu := emu (mix_ste_or_dup b hw p), pcm_ram := pcm_ram (mix_ste_or_dup b hw p)\<rparr>"
proof (cases "hw AND (SC68_DMA OR SC68_LMC) \<noteq> 0")
  case True
  obtain xs m where "mw_mix (c_mw (chips (emu p))) (mem (emu p)) (Some (pcm_read (pcm_ram p) b (buflen p))) (buflen p) = (xs, m)"
    by fastforce
  then show ?thesis
    using True by (cases xs; cases p) (auto simp: mix_ste_or_dup_def put_chips_def Let_def)
next
  case False
  then show ?thesis by (cases p) (auto simp: mix_ste_or_dup_def)
qed

lemma mix_pass_fields:
  "mix_pass H b hw p = Some (Done (e, q)) \<Longrightarrow> \<exists>s m n. q = p\<lparr>emu := s, pcm_ram := m, buflen := n\<rparr>"
proof -
  assume q: "mix_pass H b hw p = Some (Done (e, q))"
  have dup: "\<exists>s m n'. mix_ste_or_dup b hw (p\<lparr>emu := s', pcm_ram := m', buflen := n\<rparr>) = p\<lparr>emu := s, pcm_ram := m, buflen := n'\<rparr>"
    for s' m' n
    by (subst mix_ste_or_dup_fields) (cases p, auto)
  show ?thesis
  proof (cases "hw AND SC68_AGA \<noteq> 0")
    case True
    then show ?thesis
      using q by (cases p) (auto simp: mix_pass_def mix_amiga_def Let_def bind_eq_Some_conv put_chips_def)
  next
    case aga: False
    show ?thesis
    proof (cases "hw AND SC68_PSG \<noteq> 0")
      case True
      then obtain f r where r: "mix_ym H b p = Some (Done (f, r))"
        and e: "(if f < 0 then Some (Done (-1, r\<lparr>buflen := 0\<rparr>)) else Some (Done (0, mix_ste_or_dup b hw (r\<lparr>buflen := f\<rparr>)))) =
          Some (Done (e, q))"
        using q aga by (auto simp: mix_pass_def andthen_done)
      obtain s' m' where "r = p\<lparr>emu := s', pcm_ram := m'\<rparr>"
        using r by (cases p) (auto simp: mix_ym_def Let_def bind_eq_Some_conv put_chips_def split: if_splits)
      then have "(\<exists>n. q = p\<lparr>emu := s', pcm_ram := m', buflen := n\<rparr>) \<or>
          q = mix_ste_or_dup b hw (p\<lparr>emu := s', pcm_ram := m', buflen := f\<rparr>)"
        using e by (cases p) (auto split: if_splits)
      then show ?thesis using dup [where s' = s' and m' = m' and n = f] by metis
    next
      case False
      then have "q = mix_ste_or_dup b hw (p\<lparr>emu := emu p, pcm_ram := mixer68_fill (pcm_ram p) b (bufreq p) 0, buflen := bufreq p\<rparr>)"
        using q aga by (cases p) (simp add: mix_pass_def Let_def)
      then show ?thesis using dup by metis
    qed
  qed
qed
text \<open>A pass that is played keeps the disk and the track, and counts once.\<close>

lemma mix_buffer_fields:
  "mix_buffer H p = Some (Done (e, q)) \<Longrightarrow>
    (\<exists>d i. the_disk p = Some d \<and> pmus p = Some i) \<and> (\<exists>s m n. q = p\<lparr>emu := s, pcm_ram := m, buflen := n\<rparr>)"
  by (auto simp: mix_buffer_def split: option.splits if_splits dest: mix_pass_fields)

lemma play_pass_done:
  assumes "play_pass H ret p = Some (Done (r, False, q))"
  shows "r = ret" and "\<exists>d i. the_disk p = Some d \<and> pmus p = Some i"
    and "\<exists>s m x n ms. q = p\<lparr>emu := s, pcm_ram := m, bufpos := x, buflen := n, elapsed_ms := ms, pass_count := pass_count p + 1\<rparr>"
proof -
  obtain s where run: "run_pass p = Some (p\<lparr>emu := s\<rparr>)"
    using assms run_pass_count [of p] by (fastforce simp: play_pass_def bind_eq_Some_conv)
  then obtain e u where u: "mix_buffer H (p\<lparr>emu := s, bufpos := 0, buflen := bufreq p\<rparr>) = Some (Done (e, u))"
    and q: "r = ret" "q = (calc_pos u)\<lparr>pass_count := pass_count (calc_pos u) + 1\<rparr>"
    using assms by (auto simp: play_pass_def andthen_done Let_def split: if_splits)
  show "r = ret" by (rule q)
  obtain s' m n where "u = (p\<lparr>emu := s, bufpos := 0, buflen := bufreq p\<rparr>)\<lparr>emu := s', pcm_ram := m, buflen := n\<rparr>"
    using mix_buffer_fields [OF u] by blast
  then show "\<exists>s m x n ms. q = p\<lparr>emu := s, pcm_ram := m, bufpos := x, buflen := n, elapsed_ms := ms, pass_count := pass_count p + 1\<rparr>"
    unfolding q(2) by (cases p) (auto simp: calc_pos_def)
  show "\<exists>d i. the_disk p = Some d \<and> pmus p = Some i"
    using mix_buffer_fields [OF u] by (simp add: the_disk_def)
qed

lemma check_loop_ret: "check_loop ret p = (ret OR fst (check_loop 0 p), snd (check_loop 0 p))"
  by (simp add: check_loop_def Let_def)

lemma check_loop_fields: "\<exists>x y. snd (check_loop ret p) = p\<lparr>pass_2loop := x, loop_count := y\<rparr>"
  by (cases p) (auto simp: check_loop_def Let_def)

lemma applied_request:
  "apply_change_track H cfg sd p = Some (Done (r, q)) \<Longrightarrow> r AND (SC68_END OR SC68_CHANGE) = 0 \<Longrightarrow>
    track_to p = 0 \<and> r = 0 \<and> q = p"
  by (auto simp: apply_change_track_def Let_def andthen_done SC68_END_def SC68_ERROR_def SC68_CHANGE_def SC68_OK_def
      split: if_splits option.splits)

lemma fill_played:
  assumes "fill_buffer H cfg sd ret p = Some (Done (r, False, q))" and trk: "0 \<le> cur_track p"
  shows "track_to p = 0" and "check_end (snd (check_loop 0 p)) = Done (snd (check_loop 0 p))"
    and "counted p q" and "r = (ret OR fst (check_loop 0 p)) AND NOT SC68_IDLE"
    and "\<exists>d i. the_disk p = Some d \<and> pmus p = Some i"
    and "disks q = disks p" "pdisk q = pdisk p" "pmus q = pmus p" "cur_track q = cur_track p" "track_to q = 0"
      "pbuffer q = pbuffer p" "bufmax q = bufmax p"
proof -
  define c where "c = snd (check_loop 0 p)"
  obtain x y where cf: "c = p\<lparr>pass_2loop := x, loop_count := y\<rparr>"
    using check_loop_fields unfolding c_def by blast
  obtain e r0 p0 where e: "check_end c = Done e" and a: "apply_change_track H cfg sd e = Some (Done (r0, p0))"
    and go: "(ret OR fst (check_loop 0 p) OR r0) AND (SC68_END OR SC68_CHANGE) = 0"
      "play_pass H ((ret OR fst (check_loop 0 p) OR r0) AND NOT SC68_IDLE) p0 = Some (Done (r, False, q))"
    using assms unfolding fill_buffer_def check_loop_ret [of ret] c_def [symmetric]
    by (cases "check_end c") (auto simp: andthen_done Let_def or.assoc split: if_splits)
  have "r0 AND (SC68_END OR SC68_CHANGE) = 0" using go(1) by (simp add: bit.conj_disj_distrib2 or_eq_0_iff)
  note r0 = applied_request [OF a this]
  have pe: "e = c" using e r0 trk by (auto simp: check_end_def Let_def cf split: if_splits option.splits)
  then show "check_end (snd (check_loop 0 p)) = Done (snd (check_loop 0 p))" using e by (simp add: c_def)
  show t: "track_to p = 0" using r0 pe cf by simp
  note d = play_pass_done [OF go(2)]
  show "r = (ret OR fst (check_loop 0 p)) AND NOT SC68_IDLE" using d(1) r0 by simp
  show "\<exists>d i. the_disk p = Some d \<and> pmus p = Some i" using d(2) r0 pe cf by (simp add: the_disk_def)
  obtain s m z n ms where q: "q = c\<lparr>emu := s, pcm_ram := m, bufpos := z, buflen := n, elapsed_ms := ms, pass_count := pass_count c + 1\<rparr>"
    using d(3) r0 pe by blast
  show "counted p q" by (simp add: counted_def q c_def [symmetric] Let_def cf)
  show "disks q = disks p" "pdisk q = pdisk p" "pmus q = pmus p" "cur_track q = cur_track p" "track_to q = 0"
    "pbuffer q = pbuffer p" "bufmax q = bufmax p"
    using t by (simp_all add: q cf)
qed
section \<open>The passes of a track\<close>

text \<open>
  \<open>k\<close> passes played one after the other: each fills the buffer, which is handed out before the next.
\<close>

inductive plays :: "host68 \<Rightarrow> config68 \<Rightarrow> int \<Rightarrow> nat \<Rightarrow> player \<Rightarrow> player \<Rightarrow> bool"
  for H cfg sd where
  plays_0: "plays H cfg sd 0 p p"
| plays_Suc: "plays H cfg sd k p q \<Longrightarrow> fill_buffer H cfg sd ret q = Some (Done (r, False, q')) \<Longrightarrow>
    plays H cfg sd (Suc k) p (q'\<lparr>pcm_ram := m, bufpos := x, buflen := 0\<rparr>)"

inductive_cases plays_0E: "plays H cfg sd 0 p q"
inductive_cases plays_SucE: "plays H cfg sd (Suc k) p q"

text \<open>The loops completed after \<open>k\<close> passes, and the passes to the next one.\<close>

definition loops_after :: "nat \<Rightarrow> nat \<Rightarrow> nat \<Rightarrow> nat" where
  "loops_after F G k = (if k < F then 0 else 1 + (k - F) div G)"

definition next_loop :: "nat \<Rightarrow> nat \<Rightarrow> nat \<Rightarrow> nat" where
  "next_loop F G k = (if k < F then F - k else G - (k - F) mod G)"

definition counting :: "nat \<Rightarrow> nat \<Rightarrow> nat \<Rightarrow> player \<Rightarrow> bool" where
  "counting F G k p \<longleftrightarrow>
    unat (pass_count p) = k \<and> unat (pass_2loop p) = next_loop F G k \<and> unat (pass_3loop p) = G \<and>
    unat (loop_count p) = loops_after F G k"

lemma loop_step:
  assumes "0 < F" "0 < G"
  shows "0 < next_loop F G k"
    and "next_loop F G k = 1 \<Longrightarrow> next_loop F G (Suc k) = G \<and> loops_after F G (Suc k) = loops_after F G k + 1"
    and "next_loop F G k \<noteq> 1 \<Longrightarrow> next_loop F G (Suc k) = next_loop F G k - 1 \<and> loops_after F G (Suc k) = loops_after F G k"
    and "next_loop F G k = 1 \<longleftrightarrow> F \<le> Suc k \<and> (Suc k - F) mod G = 0"
proof -
  have m: "(k - F) mod G < G" using assms by simp
  then show "0 < next_loop F G k" using assms by (simp add: next_loop_def)
  consider "Suc k < F" | "Suc k = F" | "F \<le> k" by linarith
  note three = this
  have s: "Suc k - F = Suc (k - F)" if "F \<le> k" using that by simp
  have d: "Suc (k - F) mod G = (if Suc ((k - F) mod G) = G then 0 else Suc ((k - F) mod G))"
    "Suc (k - F) div G = (if Suc ((k - F) mod G) = G then Suc ((k - F) div G) else (k - F) div G)"
    using assms by (auto simp: mod_Suc div_Suc)
  show "next_loop F G k = 1 \<Longrightarrow> next_loop F G (Suc k) = G \<and> loops_after F G (Suc k) = loops_after F G k + 1"
    using three assms m by cases (auto simp: next_loop_def loops_after_def s d)
  show "next_loop F G k \<noteq> 1 \<Longrightarrow> next_loop F G (Suc k) = next_loop F G k - 1 \<and> loops_after F G (Suc k) = loops_after F G k"
    using three assms m by cases (auto simp: next_loop_def loops_after_def s d)
  show "next_loop F G k = 1 \<longleftrightarrow> F \<le> Suc k \<and> (Suc k - F) mod G = 0"
    using three assms m by cases (auto simp: next_loop_def s d)
qed

lemma loop_bit:
  assumes "counting F G k p" "0 < F" "0 < G"
  shows "pass_2loop p \<noteq> 0" and "pass_2loop p - 1 = 0 \<longleftrightarrow> next_loop F G k = 1"
    and "fst (check_loop 0 p) = (if next_loop F G k = 1 then SC68_LOOP else 0)"
proof -
  note st = loop_step [OF assms(2,3), of k]
  have p: "pass_2loop p = of_nat (next_loop F G k)"
    using assms(1) unfolding counting_def by (blast intro: of_unat)
  have sz: "next_loop F G k < 2 ^ 32"
    using assms(1) unat_small [of "pass_2loop p"] by (simp add: counting_def)
  have one: "(of_nat (next_loop F G k) :: s32) - 1 = of_nat (next_loop F G k - 1)"
    using st(1) by (simp add: of_nat_diff)
  have nz: "(of_nat n :: s32) = 0 \<longleftrightarrow> n = 0" if "n < 2 ^ 32" for n
    using unat_of [OF that] unat_of [of 0] by (cases "n = 0") auto
  show z: "pass_2loop p \<noteq> 0" using nz [OF sz] st(1) unfolding p by (metis less_irrefl)
  have lt: "next_loop F G k - 1 < 2 ^ 32" using sz by (rule le_less_trans [OF diff_le_self])
  show e: "pass_2loop p - 1 = 0 \<longleftrightarrow> next_loop F G k = 1"
    using nz [OF lt] st(1) unfolding p one by linarith
  show "fst (check_loop 0 p) = (if next_loop F G k = 1 then SC68_LOOP else 0)"
    using z e by (simp add: check_loop_def Let_def)
qed

lemma counting_step:
  assumes "counting F G k p" "counted p q" "0 < F" "0 < G" "Suc k < 2 ^ 32"
  shows "counting F G (Suc k) q"
proof -
  note st = loop_step [OF assms(3,4), of k]
  note z = loop_bit(1,2) [OF assms(1,3,4)]
  have p: "pass_count p = of_nat k" "pass_2loop p = of_nat (next_loop F G k)" "pass_3loop p = of_nat G"
    "loop_count p = of_nat (loops_after F G k)"
    using assms(1) unfolding counting_def by (blast intro: of_unat)+
  have sz: "G < 2 ^ 32" "next_loop F G k < 2 ^ 32"
    using assms(1) unat_small [of "pass_3loop p"] unat_small [of "pass_2loop p"] by (simp_all add: counting_def)
  have one: "(of_nat (next_loop F G k) :: s32) - 1 = of_nat (next_loop F G k - 1)"
    using st(1) by (simp add: of_nat_diff)
  have lt: "next_loop F G k - 1 < 2 ^ 32" using sz(2) by (rule le_less_trans [OF diff_le_self])
  have lc: "loops_after F G (Suc k) < 2 ^ 32"
  proof -
    have "(Suc k - F) div G \<le> k" using div_le_dividend [of "Suc k - F" G] assms(3) by linarith
    then have "loops_after F G (Suc k) \<le> Suc k" by (simp add: loops_after_def)
    then show ?thesis using assms(5) by simp
  qed
  have q: "pass_count q = of_nat (Suc k)" "pass_3loop q = of_nat G"
    "pass_2loop q = of_nat (next_loop F G (Suc k))" "loop_count q = of_nat (loops_after F G (Suc k))"
    using assms(2) z st(2,3) one by (auto simp: counted_def check_loop_def Let_def p)
  have "next_loop F G (Suc k) < 2 ^ 32"
    using st(2,3) sz lt by (cases "next_loop F G k = 1") simp_all
  then show "counting F G (Suc k) q"
    unfolding counting_def q using unat_of [OF assms(5)] unat_of [OF sz(1)] unat_of [OF lc] unat_of by blast
qed

lemma plays_frame:
  "plays H cfg sd k p q \<Longrightarrow> 0 \<le> cur_track p \<Longrightarrow>
    cur_track q = cur_track p \<and> disks q = disks p \<and> pdisk q = pdisk p \<and> pmus q = pmus p \<and>
    pass_total q = pass_total p \<and> (k > 0 \<longrightarrow> track_to q = 0)"
proof (induction rule: plays.induct)
  case (plays_Suc k p q ret r q' m x)
  then have q: "0 \<le> cur_track q" by simp
  note f = fill_played [OF plays_Suc.hyps(2) q]
  show ?case using plays_Suc.IH plays_Suc.prems f(6-10) f(3) by (simp add: counted_def Let_def)
qed simp

text \<open>A pass is only played while the track has passes left.\<close>

lemma fill_not_over:
  assumes "fill_buffer H cfg sd ret p = Some (Done (r, False, q))" "0 \<le> cur_track p" "pass_total p \<noteq> 0"
  shows "pass_count p < pass_total p"
proof (rule ccontr)
  assume over: "\<not> pass_count p < pass_total p"
  obtain x y where c: "snd (check_loop 0 p) = p\<lparr>pass_2loop := x, loop_count := y\<rparr>" using check_loop_fields by blast
  show False
    using fill_played(1,2) [OF assms(1,2)] over assms(2,3)
    by (auto simp: c check_end_def Let_def dest: arg_cong [where f = track_to] split: if_splits option.splits)
qed

lemma passes_total:
  assumes "p = set_passes d m p0" "0 < unat (loop_total p)"
    and "unat (pass_2loop p) + (unat (loop_total p) - 1) * unat (pass_3loop p) < 2 ^ 32"
  shows "unat (pass_total p) = unat (pass_2loop p) + (unat (loop_total p) - 1) * unat (pass_3loop p)"
    and "pass_count p = 0" "loop_count p = 0"
proof -
  let ?F = "unat (pass_2loop p)" and ?G = "unat (pass_3loop p)" and ?L = "unat (loop_total p)"
  have t: "pass_total p = pass_2loop p + (loop_total p - 1) * pass_3loop p"
    using assms(1,2) by (auto simp: set_passes_def Let_def unat_gt_0 algebra_simps word_gt_0)
  also have "\<dots> = of_nat (?F + (?L - 1) * ?G)"
    using assms(2) by (simp add: of_nat_diff)
  finally have "pass_total p = of_nat (?F + (?L - 1) * ?G)" .
  then show "unat (pass_total p) = ?F + (?L - 1) * ?G" using unat_of [OF assms(3)] by simp
  show "pass_count p = 0" "loop_count p = 0" using assms(1) by (auto simp: set_passes_def Let_def)
qed

lemma check_loop_passes [simp]:
  "emu (snd (check_loop ret p)) = emu p" "playaddr (snd (check_loop ret p)) = playaddr p"
  "asid_timers (snd (check_loop ret p)) = asid_timers p"
  "pass_total (snd (check_loop ret p)) = pass_total p" "pass_count (snd (check_loop ret p)) = pass_count p"
  "cur_track (snd (check_loop ret p)) = cur_track p" "track_to (snd (check_loop ret p)) = track_to p"
  "the_disk (snd (check_loop ret p)) = the_disk p" "pmus (snd (check_loop ret p)) = pmus p"
  by (auto simp: check_loop_def Let_def the_disk_def)

lemma ended_fill:
  assumes "track_to p = -1 \<and> pass_count p < pass_total p \<or>
      pass_total p \<le> pass_count p \<and> the_disk p = Some d \<and> nb_mus d \<le> cur_track p" "0 < pass_total p"
  shows "\<exists>q. fill_buffer H cfg sd ret p = Some (Done (ret OR fst (check_loop 0 p) OR SC68_END, True, q)) \<and>
    pmus q = None \<and> track_to q = 0 \<and> pass_count q = 0 \<and> pass_total q = pass_total p \<and> buflen q = 0 \<and>
    emu q = emu p \<and> playaddr q = playaddr p \<and> asid_timers q = asid_timers p"
proof -
  have "\<exists>u. check_end (snd (check_loop 0 p)) = Done u \<and> track_to u = -1 \<and> pass_total u = pass_total p \<and>
      emu u = emu p \<and> playaddr u = playaddr p \<and> asid_timers u = asid_timers p"
    using assms by (auto simp: check_end_def Let_def not_le [symmetric])
  then obtain u where u: "check_end (snd (check_loop 0 p)) = Done u" "track_to u = -1" "pass_total u = pass_total p"
      "emu u = emu p" "playaddr u = playaddr p" "asid_timers u = asid_timers p"
    by blast
  then have "apply_change_track H cfg sd u = Some (Done (SC68_END, (stop_track True (u\<lparr>track_to := 0, buflen := 0\<rparr>))\<lparr>origin_ms := 0\<rparr>))"
    by (simp add: apply_change_track_def)
  moreover have "(ret OR fst (check_loop 0 p) OR SC68_END) AND (SC68_END OR SC68_CHANGE) \<noteq> 0"
    by (simp add: bit.conj_disj_distrib2 or_eq_0_iff SC68_END_def SC68_CHANGE_def)
  ultimately show ?thesis
    using u by (simp add: fill_buffer_def check_loop_ret [of ret] stop_track_def Let_def or.assoc)
qed

text \<open>While the track has passes left and nothing is requested, a buffer is filled by a pass; then never.\<close>

lemma loop_codes: "fst (check_loop 0 p) AND (SC68_END OR SC68_CHANGE) = 0"
  by (simp add: check_loop_def Let_def SC68_LOOP_def SC68_END_def SC68_CHANGE_def)

lemma fill_plays:
  assumes "pass_count p < pass_total p" "track_to p = 0" "ret AND (SC68_END OR SC68_CHANGE) = 0"
  shows "fill_buffer H cfg sd ret p =
    play_pass H ((ret OR fst (check_loop 0 p)) AND NOT SC68_IDLE) (snd (check_loop 0 p))"
proof -
  have c: "check_end (snd (check_loop 0 p)) = Done (snd (check_loop 0 p))"
    using assms(1) by (simp add: check_end_def not_le [symmetric])
  have a: "apply_change_track H cfg sd (snd (check_loop 0 p)) = Some (Done (0, snd (check_loop 0 p)))"
    using assms(2) by (simp add: apply_change_track_def SC68_OK_def)
  have "(ret OR fst (check_loop 0 p)) AND (SC68_END OR SC68_CHANGE) = 0"
    using assms(3) loop_codes by (simp only: bit.conj_disj_distrib2 or_eq_0_iff simp_thms)
  then show ?thesis by (simp add: fill_buffer_def check_loop_ret [of ret] c a Let_def)
qed

lemma fill_over:
  assumes "fill_buffer H cfg sd ret p = Some (Done (r, stop, q))" "pass_total p \<noteq> 0" "pass_total p \<le> pass_count p"
    and "0 \<le> cur_track p"
  shows stop
proof (rule ccontr)
  assume "\<not> stop"
  then have "fill_buffer H cfg sd ret p = Some (Done (r, False, q))" using assms(1) by simp
  from fill_not_over [OF this assms(4,2)] assms(3) show False by simp
qed

text \<open>C36. The passes of a track with \<open>F\<close> passes to its first loop, \<open>G\<close> to each of the next and \<open>L\<close> loops
  to play, when nothing is requested: after \<open>k\<close> passes the next buffer is filled by one more pass exactly
  while \<open>k < F + (L - 1) * G\<close>, so that \<open>sc68_process\<close> plays exactly that many passes, and \<open>L\<close> loops; then
  no buffer is filled, and behind the last track of the disk the end is reported.  A loop is reported
  with the last pass of a turn, the \<open>F\<close>th and each \<open>G\<close>th after it, before that pass is played: a fault
  against \<open>sc68.h\<close>, which has it reported when the track has looped.\<close>

theorem track_passes:
  assumes "p = set_passes d m p0" "0 \<le> cur_track p0" "track_to p0 = 0"
    and "F = unat (pass_2loop p)" "G = unat (pass_3loop p)" "L = unat (loop_total p)" "0 < F" "0 < G" "0 < L"
    and "T = F + (L - 1) * G" "T < 2 ^ 32" "plays H cfg sd k p q" "ret AND (SC68_END OR SC68_CHANGE) = 0"
  shows "k \<le> T \<and> unat (pass_count q) = k \<and>
    unat (loop_count q) = (if k < F then 0 else 1 + (k - F) div G) \<and>
    (k = T \<longrightarrow> unat (loop_count q) = L) \<and>
    (k < T \<longrightarrow> fill_buffer H cfg sd ret q =
      play_pass H ((ret OR (if F \<le> k + 1 \<and> (k + 1 - F) mod G = 0 then SC68_LOOP else 0)) AND NOT SC68_IDLE)
        (snd (check_loop 0 q))) \<and>
    (k = T \<longrightarrow> (\<forall>r stop q'. fill_buffer H cfg sd ret q = Some (Done (r, stop, q')) \<longrightarrow> stop) \<and>
      (\<forall>d. the_disk q = Some d \<and> nb_mus d \<le> cur_track q \<longrightarrow>
        (\<exists>r q'. fill_buffer H cfg sd ret q = Some (Done (r, True, q')) \<and> r AND SC68_END \<noteq> 0 \<and> pmus q' = None)))"
proof -
  note start = passes_total [OF assms(1), folded assms(4,5,6), OF assms(9) assms(11) [unfolded assms(10)], folded assms(10)]
  have trk: "0 \<le> cur_track p" "track_to p = 0" using assms(1-3) by (simp_all add: set_passes_def Let_def)
  have total: "pass_total p \<noteq> 0" using start(1) assms(7,10) by auto
  have last: "pass_count q < pass_total q \<longleftrightarrow> unat (pass_count q) < T" if "pass_total q = pass_total p" for q
    using start(1) that by (simp add: word_less_nat_alt)
  have at_end: "loops_after F G T = L" using assms(7-10) by (simp add: loops_after_def)
  have inv: "counting F G k q \<and> k \<le> T" if "plays H cfg sd k p q" for k q
    using that
  proof (induction k arbitrary: q)
    case 0
    then have "q = p" by (rule plays_0E)
    then show ?case using start assms(4,5,7) by (simp add: counting_def next_loop_def loops_after_def)
  next
    case (Suc k)
    from Suc.prems obtain u ret r q' m x where u: "plays H cfg sd k p u"
      "fill_buffer H cfg sd ret u = Some (Done (r, False, q'))" "q = q'\<lparr>pcm_ram := m, bufpos := x, buflen := 0\<rparr>"
      by (rule plays_SucE)
    note f = plays_frame [OF u(1) trk(1)]
    then have t: "0 \<le> cur_track u" "pass_total u \<noteq> 0" using trk total by simp_all
    have c: "counting F G k u" using Suc.IH [OF u(1)] by simp
    have k: "k < T" using fill_not_over [OF u(2) t] last [of u] f c by (simp add: counting_def)
    have "counted u q" using fill_played(3) [OF u(2) t(1)] by (simp add: counted_def u(3))
    then show ?case using counting_step [OF c _ assms(7,8)] k assms(11) by simp
  qed
  have q: "counting F G k q" "k \<le> T" using inv [OF assms(12)] by simp_all
  note f = plays_frame [OF assms(12) trk(1)]
  have "track_to q = 0"
    using f trk(2) assms(12) by (cases "k = 0") (auto elim: plays_0E)
  then have t: "0 \<le> cur_track q" "pass_total q \<noteq> 0" "track_to q = 0" using f trk total by simp_all
  have more: "pass_count q < pass_total q \<longleftrightarrow> k < T" using last [of q] f q(1) by (simp add: counting_def)
  have loop: "fst (check_loop 0 q) = (if F \<le> k + 1 \<and> (k + 1 - F) mod G = 0 then SC68_LOOP else 0)"
    using loop_bit(3) [OF q(1) assms(7,8)] loop_step(4) [OF assms(7,8), of k] by simp
  have pass: "fill_buffer H cfg sd ret q =
      play_pass H ((ret OR (if F \<le> k + 1 \<and> (k + 1 - F) mod G = 0 then SC68_LOOP else 0)) AND NOT SC68_IDLE)
        (snd (check_loop 0 q))" if "k < T"
    using fill_plays [OF _ t(3) assms(13)] more that by (simp add: loop)
  have over: stop if "k = T" "fill_buffer H cfg sd ret q = Some (Done (r, stop, q'))" for r stop q'
    using fill_over [OF that(2) t(2) _ t(1)] more that(1) by simp
  have ended: "\<exists>r q'. fill_buffer H cfg sd ret q = Some (Done (r, True, q')) \<and> r AND SC68_END \<noteq> 0 \<and> pmus q' = None"
    if "k = T" "the_disk q = Some d" "nb_mus d \<le> cur_track q" for d
  proof -
    have "(ret OR fst (check_loop 0 q) OR SC68_END) AND SC68_END \<noteq> 0"
      by (simp add: bit.conj_disj_distrib2 or_eq_0_iff SC68_END_def)
    moreover have "pass_total q \<le> pass_count q" "0 < pass_total q"
      using more that(1) t(2) by (simp_all add: not_less word_gt_0)
    ultimately show ?thesis
      using ended_fill [of q d H cfg sd ret] that(2,3) by blast
  qed
  have "unat (pass_count q) = k" "unat (loop_count q) = (if k < F then 0 else 1 + (k - F) div G)"
    using q(1) by (simp_all add: counting_def loops_after_def)
  moreover have "k = T \<Longrightarrow> unat (loop_count q) = L" using q(1) at_end by (simp add: counting_def)
  ultimately show ?thesis using q(2) pass over ended by blast
qed

section \<open>A player for the examples\<close>

interpretation debugger: handler_ok "\<lambda>_. irqhandler"
  by unfold_locales
    (auto simp: irqhandler_def frame68_def Let_def HWINSTOV_VECTOR_def HWTRACE_VECTOR_def HWBREAK_VECTOR_def
      HWSTOP_VECTOR_def HWINIT_VECTOR_def HWHALT_VECTOR_def HWRESET_VECTOR_def)

text \<open>64 KB of memory with a play routine that returns at once, and no chip plugged.\<close>

definition quiet_machine :: machine where
  "quiet_machine =
    \<lparr>err = [], reg = \<lparr>reg_d = (\<lambda>_. 0), reg_usp = 0, reg_pc = 0, reg_sr = 0x2700\<rparr>,
     inst_pc = -1, inst_sr = -1, cycle = 0, clock = 8010612,
     handler = None, cookie = 0, status = EMU68_NRM, instructions = 0,
     finish_sp = -1, nio = 0, iohead = [], interrupt_io = None,
     mapped_io = (\<lambda>_. NopIO), memio = None, bus_addr = 0, bus_data = 0,
     frm_chk_fl = 0, fst_chk = \<lparr>ck_pc = 0, ck_ad = 0, ck_fl = 0\<rparr>,
     lst_chk = \<lparr>ck_pc = 0, ck_ad = 0, ck_fl = 0\<rparr>, chk = None,
     breakpoints = (\<lambda>_. no_bp), memmsk = 0xFFFF, log2mem = 16,
     mem = (\<lambda>i. if i = 0x1008 then 0x4E else if i = 0x1009 then 0x75 else 0), chips = chips0\<rparr>"

lemma quiet_finish:
  "\<exists>t. finish68 0x1008 0x2300 PLAY_MAX_INST quiet_machine = Some t \<and> status t = EMU68_NRM \<and>
    interrupt_io t = None \<and> clock t = 8010612"
proof -
  let ?E = player_env and ?m = "ram_put SzL 0 0xFFEC (mem quiet_machine)"
  define s1 where "s1 = set_areg 7 0xFFF0 (set_sr 0x2300 (set_pc 0x1008 quiet_machine))"
  define s2 where "s2 = mem68_pushl ?E 0 s1"
  have regs: "areg s2 7 = 0xFFEC" "pc s2 = 0x1008" "sr s2 = 0x2300"
    and rest: "memmsk s2 = 0xFFFF" "memio s2 = None" "chk s2 = None" "mem s2 = ?m" "cycle s2 = 0" "handler s2 = None"
      "interrupt_io s2 = None" "clock s2 = 8010612"
    by (simp_all add: s2_def s1_def mem68_pushl_def write68_def mem68_write_def memchk_w_def ram_write_def mem68_is_io_def
        mem_index_def quiet_machine_def Let_def set_areg_def set_dreg_def set_pc_def set_sr_def)
  define u where "u = s2\<lparr>finish_sp := 0xFFEC, frm_chk_fl := 0, instructions := PLAY_MAX_INST, status := EMU68_NRM\<rparr>"
  have fin: "finish68 0x1008 0x2300 PLAY_MAX_INST quiet_machine =
      Option.bind (loop68 ?E u) (\<lambda>s. Option.bind (ignore_stops s) (\<lambda>s. Some (if status s \<noteq> EMU68_NRM then drain_errors s else s)))"
    using regs rest
    by (simp add: finish68_def emu68_pushl_def emu68_finish_def PLAY_MAX_INST_def EMU68_CONT_def u_def s2_def s1_def quiet_machine_def Let_def)
  have f: "fetches u (opcode 4 7 1 6 5)"
    using regs rest by (simp add: u_def fetches_def opcode_at_def opcode_def SR_T_def quiet_machine_def Let_def)
  have st: "step68 ?E u = inl_rts68 ?E (fetched u)"
    using step68_row [OF f]
    by (simp add: line_rows_def line_rows_defs line4_row1_def funky4_func_def funky4_m6_def)
  define v where "v = step68 ?E u"
  have v: "areg v 7 = 0xFFF0" "status v = EMU68_NRM" "instructions v = PLAY_MAX_INST" "finish_sp v = 0xFFEC"
    "interrupt_io v = None" "clock v = 8010612"
    using regs rest
    unfolding v_def st
    by (simp_all add: inl_rts68_def mem68_popl_def read68_def mem68_read_def memchk_r_def ram_read_def mem68_is_io_def
        mem_index_def Let_def u_def fetched_def set_areg_def set_dreg_def set_pc_def split_beta)
  have "controlled_step68 ?E u = v\<lparr>instructions := PLAY_MAX_INST - 1\<rparr>"
    using v rest by (simp add: controlled_step68_def u_def [symmetric] v_def [symmetric] Let_def PLAY_MAX_INST_def) (simp add: u_def rest)
  then have "loop68 ?E u = Some (v\<lparr>instructions := PLAY_MAX_INST - 1\<rparr>)"
    using v by (subst loop68.simps) (simp add: Let_def)
  then show ?thesis using v by (simp add: fin ignore_stops.simps)
qed
text \<open>A track of three passes to its loop and two loops of two passes, and a player at its start.\<close>

definition quiet_track :: music68 where
  "quiet_track = no_music\<lparr>a0 := 0x1000, frq := 50, first_fr := 3, loops_fr := 2, loops := 2\<rparr>"

definition quiet_disk :: disk68 where
  "quiet_disk = (alloc_disk [])\<lparr>nb_mus := 1, mus := quiet_track # replicate 62 no_music\<rparr>"

definition quiet_player :: player where
  "quiet_player = set_passes quiet_disk quiet_track
    ((new_player quiet_machine)\<lparr>disks := [0 \<mapsto> quiet_disk], pdisk := Some 0, pmus := Some 0, cur_track := 1,
      playaddr := 0x1000, cycleperpass := 160256, pbuffer := Some 0, bufmax := 4, bufreq := 4\<rparr>)"

lemma quiet_player_fields:
  "the_disk quiet_player = Some quiet_disk" "pmus quiet_player = Some 0" "cur_track quiet_player = 1" "track_to quiet_player = 0"
  "playaddr quiet_player = 0x1000" "pbuffer quiet_player = Some 0" "bufmax quiet_player = 4" "bufreq quiet_player = 4"
  "emu quiet_player = quiet_machine" "asid_timers quiet_player = 0" "buflen quiet_player = 0"
  "unat (pass_2loop quiet_player) = 3" "unat (pass_3loop quiet_player) = 2" "unat (loop_total quiet_player) = 2"
  "pass_count quiet_player = 0" "unat (pass_total quiet_player) = 5"
  by (simp_all add: quiet_player_def set_passes_def Let_def the_disk_def new_player_def quiet_disk_def quiet_track_def
      no_music_def alloc_disk_def SC68_DEF_LOOP_def SC68_INF_LOOP_def)

lemma quiet_run: "emu p = quiet_machine \<Longrightarrow> playaddr p = 0x1000 \<Longrightarrow> asid_timers p = 0 \<Longrightarrow>
    \<exists>s. run_pass p = Some (p\<lparr>emu := s\<rparr>) \<and> status s = EMU68_NRM \<and> clock s = 8010612"
  using quiet_finish by (auto simp: run_pass_def Let_def emu68_interrupt_def set_sr_def)

lemma quiet_fill:
  assumes "emu p = quiet_machine" "playaddr p = 0x1000" "asid_timers p = 0" "the_disk p = Some quiet_disk" "pmus p = Some 0"
    and "pbuffer p = Some 0" "track_to p = 0" "pass_count p < pass_total p" "ret AND (SC68_END OR SC68_CHANGE) = 0"
  shows "\<exists>q. fill_buffer H cfg sd ret p = Some (Done ((ret OR fst (check_loop 0 p)) AND NOT SC68_IDLE, False, q)) \<and> buflen q = bufreq p"
proof -
  obtain x y where c: "snd (check_loop 0 p) = p\<lparr>pass_2loop := x, loop_count := y\<rparr>" using check_loop_fields by blast
  let ?c = "p\<lparr>pass_2loop := x, loop_count := y\<rparr>"
  have l: "fst (check_loop 0 p) AND (SC68_END OR SC68_CHANGE) = 0"
    by (simp add: check_loop_def Let_def SC68_LOOP_def SC68_END_def SC68_CHANGE_def)
  obtain s where s: "run_pass ?c = Some (?c\<lparr>emu := s\<rparr>)" "status s = EMU68_NRM"
    using quiet_run [of ?c] assms(1-3) by auto
  have hw: "hwflags (mus quiet_disk ! 0) = 0" by (simp add: quiet_disk_def quiet_track_def no_music_def)
  have e: "check_end ?c = Done ?c" using assms(8) by (simp add: check_end_def not_le [symmetric])
  have a: "apply_change_track H cfg sd ?c = Some (Done (0, ?c))"
    using assms(7) by (simp add: apply_change_track_def SC68_OK_def)
  have quiet: "(ret OR fst (check_loop 0 p)) AND (SC68_END OR SC68_CHANGE) = 0"
    using assms(9) l by (simp only: bit.conj_disj_distrib2 or_eq_0_iff simp_thms)
  have d: "the_disk (?c\<lparr>emu := s, bufpos := 0, buflen := bufreq p\<rparr>) = Some quiet_disk"
    using assms(4) by (simp add: the_disk_def)
  have "\<exists>q. play_pass H r ?c = Some (Done (r, False, q)) \<and> buflen q = bufreq p" for r
    using s d assms(5,6) hw by (simp add: play_pass_def mix_buffer_def mix_pass_def mix_ste_or_dup_def calc_pos_def Let_def)
  then show ?thesis
    using quiet by (simp add: fill_buffer_def check_loop_ret [of ret] c e a Let_def)
qed

lemma quiet_plays: "\<exists>q. plays H cfg sd 1 quiet_player q"
proof -
  have "pass_count quiet_player < pass_total quiet_player"
    by (simp add: word_less_nat_alt quiet_player_fields)
  from quiet_fill [OF _ _ _ _ _ _ _ this, of 0 H cfg sd] show ?thesis
    using plays_Suc [OF plays_0] by (fastforce simp: quiet_player_fields)
qed

lemma track_passes_witness:
  "\<forall>H cfg sd. \<exists>q. plays H cfg sd 1 quiet_player q \<and> 1 \<le> 3 + (2 - 1) * (2 :: nat) \<and>
    unat (pass_count q) = 1 \<and> unat (loop_count q) = 0"
proof (intro allI)
  fix H :: host68 and cfg :: config68 and sd :: int
  obtain q where q: "plays H cfg sd 1 quiet_player q" using quiet_plays by blast
  have "unat (pass_count q) = 1 \<and> unat (loop_count q) = 0"
    using track_passes [OF quiet_player_def _ _ refl refl refl _ _ _ refl _ q, of 0]
    by (simp add: quiet_player_fields new_player_def)
  then show "\<exists>q. plays H cfg sd 1 quiet_player q \<and> 1 \<le> 3 + (2 - 1) * (2 :: nat) \<and>
      unat (pass_count q) = 1 \<and> unat (loop_count q) = 0"
    using q by auto
qed
section \<open>What \<open>sc68_process\<close> returns\<close>

text \<open>The results of the loop, by induction on its turns.\<close>

lemma process_loop_results:
  assumes "process_loop H cfg sd n dst ret p = Some (Done (r, left, q))"
    and none: "\<And>n ret p. n \<le> 0 \<Longrightarrow> P n ret p ret n p"
    and stopped: "\<And>n ret p r q. 0 < n \<Longrightarrow> buflen p = 0 \<Longrightarrow> fill_buffer H cfg sd ret p = Some (Done (r, True, q)) \<Longrightarrow> P n ret p r n q"
    and turn: "\<And>n dst ret p r' p' len r left q. 0 < n \<Longrightarrow>
      (buflen p = 0 \<and> fill_buffer H cfg sd ret p = Some (Done (r', False, p')) \<or> buflen p \<noteq> 0 \<and> r' = ret \<and> p' = p) \<Longrightarrow>
      len = (if buflen p' \<le> n then buflen p' else n) \<Longrightarrow>
      P (n - len) r' (hand_out dst len p') r left q \<Longrightarrow> P n ret p r left q"
  shows "P n ret p r left q"
proof -
  have "H' = H \<and> cfg' = cfg \<and> sd' = sd \<longrightarrow> (\<forall>r left q. y = Done (r, left, q) \<longrightarrow> P n ret p r left q)"
    if "process_loop H' cfg' sd' n dst ret p = Some y" for H' cfg' sd' n dst ret p y
  proof (rule process_loop.raw_induct [OF _ that])
    fix f H' cfg' sd' n dst ret p y
    assume IH: "\<And>H1 cfg1 sd1 n1 dst1 ret1 p1 y1. f H1 cfg1 sd1 n1 dst1 ret1 p1 = Some y1 \<Longrightarrow>
        H1 = H \<and> cfg1 = cfg \<and> sd1 = sd \<longrightarrow> (\<forall>r left q. y1 = Done (r, left, q) \<longrightarrow> P n1 ret1 p1 r left q)"
      and body: "(if n \<le> 0 then Some (Done (ret, n, p))
        else Option.bind (if buflen p = 0 then fill_buffer H' cfg' sd' ret p else Some (Done (ret, False, p))) (\<lambda>r.
          case r of Done (ret, stop, p) \<Rightarrow>
              if stop then Some (Done (ret, n, p))
              else let len = if buflen p \<le> n then buflen p else n in f H' cfg' sd' (n - len) (dst + len) ret (hand_out dst len p)
          | Crash \<Rightarrow> Some Crash)) = Some y"
    show "H' = H \<and> cfg' = cfg \<and> sd' = sd \<longrightarrow> (\<forall>r left q. y = Done (r, left, q) \<longrightarrow> P n ret p r left q)"
    proof (intro impI allI)
      fix r left q assume same: "H' = H \<and> cfg' = cfg \<and> sd' = sd" and y: "y = Done (r, left, q)"
      show "P n ret p r left q"
      proof (cases "n \<le> 0")
        case True
        then show ?thesis using body y none by simp
      next
        case n: False
        have H: "H' = H" "cfg' = cfg" "sd' = sd" using same by simp_all
        from n obtain r' stop p' where f: "(if buflen p = 0 then fill_buffer H cfg sd ret p else Some (Done (ret, False, p))) = Some (Done (r', stop, p'))"
          and go: "(if stop then Some (Done (r', n, p'))
            else let len = if buflen p' \<le> n then buflen p' else n in f H cfg sd (n - len) (dst + len) r' (hand_out dst len p')) = Some y"
          using body n unfolding andthen_def [symmetric] y H by (auto simp: andthen_done)
        show ?thesis
        proof (cases stop)
          case True
          then show ?thesis using f go y n stopped [of n p ret r' p'] by (auto split: if_splits)
        next
          case False
          define len where "len = (if buflen p' \<le> n then buflen p' else n)"
          have "P (n - len) r' (hand_out dst len p') r left q"
            using go False y IH unfolding Let_def len_def [symmetric] by simp
          then show ?thesis using f False n turn [OF _ _ len_def, of p ret r'] by (auto split: if_splits)
        qed
      qed
    qed
  qed
  then show ?thesis using assms(1) by blast
qed

lemma fill_stop_codes:
  assumes "fill_buffer H cfg sd ret p = Some (Done (r, stop, q))"
  shows "stop \<longleftrightarrow> r AND (SC68_END OR SC68_CHANGE) \<noteq> 0"
proof (cases stop)
  case True
  have "r AND (SC68_END OR SC68_CHANGE) \<noteq> 0"
  proof (cases "\<exists>r0 p0. play_pass H r0 p0 = Some (Done (r, stop, q))")
    case played: True
    have "r = SC68_ERROR"
      using played True by (auto simp: play_pass_def andthen_done Let_def bind_eq_Some_conv split: if_splits)
    then show ?thesis by (simp add: SC68_ERROR_def SC68_END_def SC68_CHANGE_def)
  next
    case False
    then show ?thesis
      using assms unfolding fill_buffer_def check_loop_ret [of ret]
      by (auto simp: andthen_done Let_def split: outcome.splits if_splits)
  qed
  then show ?thesis using True by simp
next
  case False
  then obtain e r0 p0 where "(ret OR fst (check_loop 0 p) OR r0) AND (SC68_END OR SC68_CHANGE) = 0"
      "play_pass H ((ret OR fst (check_loop 0 p) OR r0) AND NOT SC68_IDLE) p0 = Some (Done (r, False, q))"
    using assms unfolding fill_buffer_def check_loop_ret [of ret]
    by (auto simp: andthen_done Let_def or.assoc split: if_splits outcome.splits)
  then have "r = (ret OR fst (check_loop 0 p) OR r0) AND NOT SC68_IDLE" using play_pass_done(1) by blast
  then have "r AND (SC68_END OR SC68_CHANGE) = ((ret OR fst (check_loop 0 p) OR r0) AND (SC68_END OR SC68_CHANGE)) AND NOT SC68_IDLE"
    by (simp add: ac_simps)
  then show ?thesis using False \<open>(ret OR fst (check_loop 0 p) OR r0) AND (SC68_END OR SC68_CHANGE) = 0\<close> by simp
qed

text \<open>C37. \<open>sc68_process\<close> writes no more samples than it is asked for, and exactly as many unless it
  returns that the track changes or ends (or fails, which has all bits set).\<close>

theorem process_fills:
  assumes "sc68_process H cfg sd p (Some dst) (Some n) = Some (Done (r, k, q))" "0 \<le> n"
  shows "k \<le> n \<and> (r AND (SC68_END OR SC68_CHANGE) = 0 \<longrightarrow> k = n)"
proof -
  from assms obtain left where l: "process_loop H cfg sd n dst SC68_IDLE p = Some (Done (r, left, q))" and k: "k = n - left"
    by (auto simp: sc68_process_def andthen_done)
  have "0 \<le> n \<longrightarrow> 0 \<le> left \<and> (r AND (SC68_END OR SC68_CHANGE) = 0 \<longrightarrow> left = 0)"
    using l
  proof (rule process_loop_results [where P = "\<lambda>n ret p r left q. 0 \<le> n \<longrightarrow> 0 \<le> left \<and> (r AND (SC68_END OR SC68_CHANGE) = 0 \<longrightarrow> left = 0)"])
    fix n ret p r q assume "0 < n" "fill_buffer H cfg sd ret p = Some (Done (r, True, q))"
    then show "0 \<le> n \<longrightarrow> 0 \<le> n \<and> (r AND (SC68_END OR SC68_CHANGE) = 0 \<longrightarrow> n = 0)"
      using fill_stop_codes by blast
  qed (auto split: if_splits)
  then show ?thesis using k assms(2) by simp
qed

lemma process_fills_witness:
  "\<forall>H cfg sd. \<exists>r q. sc68_process H cfg sd quiet_player (Some 100) (Some 4) = Some (Done (r, 4, q))"
proof (intro allI)
  fix H :: host68 and cfg :: config68 and sd :: int
  have "pass_count quiet_player < pass_total quiet_player"
    by (simp add: word_less_nat_alt quiet_player_fields)
  from quiet_fill [OF _ _ _ _ _ _ _ this, of SC68_IDLE H cfg sd]
  obtain q where q: "fill_buffer H cfg sd SC68_IDLE quiet_player =
      Some (Done ((SC68_IDLE OR fst (check_loop 0 quiet_player)) AND NOT SC68_IDLE, False, q))" "buflen q = 4"
    by (auto simp: quiet_player_fields SC68_IDLE_def SC68_END_def SC68_CHANGE_def)
  define r where "r = (SC68_IDLE OR fst (check_loop 0 quiet_player)) AND NOT SC68_IDLE"
  have r: "r AND (SC68_END OR SC68_CHANGE) = 0"
    by (simp add: r_def check_loop_def Let_def SC68_IDLE_def SC68_LOOP_def SC68_END_def SC68_CHANGE_def)
  obtain k u where p: "sc68_process H cfg sd quiet_player (Some 100) (Some 4) = Some (Done (r, k, u))"
    using q by (simp add: sc68_process_def process_loop.simps quiet_player_fields r_def Let_def)
  then show "\<exists>r q. sc68_process H cfg sd quiet_player (Some 100) (Some 4) = Some (Done (r, 4, q))"
    using process_fills [OF p] r by simp
qed

end
