(* ===== verification/Ending68.thy ===== *)
theory Ending68
  imports Playing68
begin

unbundle bit_operations_syntax

text \<open>
  Where the player goes wrong.  A request to stop that arrives when the last pass of a track has been
  handed out is lost; a call of \<open>sc68_process\<close> after the end uses the music that is no longer there; a
  disk whose first track cannot be played is freed and kept; a pass of the YM that makes more samples
  than its engine announces leaves the buffer.
\<close>

section \<open>Requests at the end of a track\<close>

lemma check_loop_stop:
  "check_loop ret (p\<lparr>track_to := a, seek_to := b\<rparr>) =
    (fst (check_loop ret p), (snd (check_loop ret p))\<lparr>track_to := a, seek_to := b\<rparr>)"
  by (cases p) (simp add: check_loop_def Let_def)

lemma check_end_stop:
  assumes "pass_total p \<noteq> 0" "pass_total p \<le> pass_count p"
  shows "check_end (p\<lparr>track_to := a, seek_to := b\<rparr>) = check_end p"
  using assms by (cases p) (simp add: check_end_def Let_def the_disk_def split: option.splits)

lemma fill_stopped:
  assumes "pass_total p \<noteq> 0" "pass_total p \<le> pass_count p"
  shows "fill_buffer H cfg sd ret (snd (sc68_stop p)) = fill_buffer H cfg sd ret p"
proof (cases "pdisk p")
  case (Some a)
  have "check_end ((snd (check_loop ret p))\<lparr>track_to := -1, seek_to := -1\<rparr>) = check_end (snd (check_loop ret p))"
    by (rule check_end_stop) (use assms in simp_all)
  then show ?thesis using Some by (simp add: sc68_stop_def fill_buffer_def check_loop_stop split_beta Let_def
        split: outcome.split)
qed (simp add: sc68_stop_def)

text \<open>C38. A request to stop that arrives when the passes of the track are played and handed out does
  nothing: \<open>sc68_process\<close> goes on exactly as without it, to the next track where there is one.\<close>

theorem stop_lost:
  assumes "pass_total p \<noteq> 0" "pass_total p \<le> pass_count p" "buflen p = 0" "0 < n"
  shows "sc68_process H cfg sd (snd (sc68_stop p)) (Some dst) (Some n) = sc68_process H cfg sd p (Some dst) (Some n)"
proof -
  have "buflen (snd (sc68_stop p)) = 0" using assms(3) by (simp add: sc68_stop_def)
  then have "process_loop H cfg sd n dst ret (snd (sc68_stop p)) = process_loop H cfg sd n dst ret p" for ret
    using assms(3,4) fill_stopped [OF assms(1,2)] by (simp add: process_loop.simps)
  then show ?thesis by (simp add: sc68_process_def)
qed

theorem stop_lost_witness:
  "\<forall>H cfg sd. sc68_process H cfg sd (snd (sc68_stop (quiet_player\<lparr>pass_count := 5\<rparr>))) (Some 100) (Some 4) =
    sc68_process H cfg sd (quiet_player\<lparr>pass_count := 5\<rparr>) (Some 100) (Some 4)"
proof (intro allI)
  fix H :: host68 and cfg :: config68 and sd :: int
  have t: "unat (pass_total (quiet_player\<lparr>pass_count := 5\<rparr>)) = 5" by (simp add: quiet_player_fields)
  then have "pass_total (quiet_player\<lparr>pass_count := 5\<rparr>) \<noteq> 0" by force
  from stop_lost [OF this]
  show "sc68_process H cfg sd (snd (sc68_stop (quiet_player\<lparr>pass_count := 5\<rparr>))) (Some 100) (Some 4) =
      sc68_process H cfg sd (quiet_player\<lparr>pass_count := 5\<rparr>) (Some 100) (Some 4)"
    using t by (simp add: word_le_nat_alt quiet_player_fields)
qed

section \<open>After the end\<close>

text \<open>C39. The call of \<open>sc68_process\<close> that ends the play, on a request to stop or after the last track, writes
  nothing, reports the end and forgets the music; the next call that asks for samples plays one more
  pass with the play routine of the track that has ended and then reads the music that is gone.\<close>

theorem plays_on_after_end:
  assumes "sc68_process H cfg sd p (Some dst) (Some n) = Some (Done (r, k, q))" "buflen p = 0" "0 < n"
    and "track_to p = -1 \<and> pass_count p < pass_total p \<or>
      pass_total p \<le> pass_count p \<and> the_disk p = Some d \<and> nb_mus d \<le> cur_track p" "0 < pass_total p"
    and "0 < m" "run_pass (snd (check_loop 0 q)) = Some t" "status (emu t) = EMU68_NRM"
  shows "r AND SC68_END \<noteq> 0 \<and> k = 0 \<and> pmus q = None \<and>
    sc68_process H cfg sd q (Some dst') (Some m) = Some Crash"
proof -
  let ?r = "SC68_IDLE OR fst (check_loop 0 p) OR SC68_END"
  obtain u where u: "fill_buffer H cfg sd SC68_IDLE p = Some (Done (?r, True, u))"
    "pmus u = None" "track_to u = 0" "pass_count u = 0" "pass_total u = pass_total p" "buflen u = 0"
    using ended_fill [OF assms(4,5)] by blast
  have q: "r = ?r" "k = 0" "q = u"
    using assms(1-3) u(1) by (simp_all add: sc68_process_def process_loop.simps)
  let ?c = "snd (check_loop 0 q)"
  obtain s where t: "t = ?c\<lparr>emu := s\<rparr>" using run_pass_count [OF assms(7)] by blast
  have "pmus ?c = None" using u(2) q(3) by simp
  then have crash: "play_pass H ret ?c = Some Crash" for ret
    using assms(7,8) by (simp add: play_pass_def mix_buffer_def t Let_def split: option.split)
  have c: "check_end ?c = Done ?c" using u(4,5) q(3) assms(5) by (simp add: check_end_def)
  have a: "apply_change_track H cfg sd ?c = Some (Done (0, ?c))"
    using u(3) q(3) by (simp add: apply_change_track_def SC68_OK_def)
  have "(SC68_IDLE OR fst (check_loop 0 q)) AND (SC68_END OR SC68_CHANGE) = 0"
    by (simp add: check_loop_def Let_def SC68_IDLE_def SC68_LOOP_def SC68_END_def SC68_CHANGE_def)
  then have "fill_buffer H cfg sd SC68_IDLE q = Some Crash"
    by (simp add: fill_buffer_def check_loop_ret [of SC68_IDLE] c a crash Let_def)
  then have "sc68_process H cfg sd q (Some dst') (Some m) = Some Crash"
    using assms(6) u(6) q(3) by (simp add: sc68_process_def process_loop.simps)
  moreover have "?r AND SC68_END \<noteq> 0"
    by (simp add: bit.conj_disj_distrib2 or_eq_0_iff SC68_END_def)
  ultimately show ?thesis using u(2) q by simp
qed

theorem plays_on_after_end_witness:
  "\<forall>H cfg sd. \<exists>r q. sc68_process H cfg sd (quiet_player\<lparr>track_to := -1\<rparr>) (Some 100) (Some 4) = Some (Done (r, 0, q)) \<and>
    r AND SC68_END \<noteq> 0 \<and> sc68_process H cfg sd q (Some 100) (Some 4) = Some Crash"
proof (intro allI)
  fix H :: host68 and cfg :: config68 and sd :: int
  let ?p = "quiet_player\<lparr>track_to := -1\<rparr>"
  have t: "track_to ?p = -1 \<and> pass_count ?p < pass_total ?p \<or>
      pass_total ?p \<le> pass_count ?p \<and> the_disk ?p = Some quiet_disk \<and> nb_mus quiet_disk \<le> cur_track ?p" "0 < pass_total ?p"
    by (simp_all add: word_less_nat_alt quiet_player_fields)
  from ended_fill [OF t, of H cfg sd SC68_IDLE] obtain r q where
    f: "fill_buffer H cfg sd SC68_IDLE ?p = Some (Done (r, True, q))"
    and q: "emu q = quiet_machine" "playaddr q = 0x1000" "asid_timers q = 0"
    by (auto simp: quiet_player_fields)
  have run: "sc68_process H cfg sd ?p (Some 100) (Some 4) = Some (Done (r, 0, q))"
    using f by (simp add: sc68_process_def process_loop.simps quiet_player_fields)
  obtain s where "run_pass (snd (check_loop 0 q)) = Some ((snd (check_loop 0 q))\<lparr>emu := s\<rparr>)" "status s = EMU68_NRM"
    using quiet_run [of "snd (check_loop 0 q)"] q by auto
  then have "r AND SC68_END \<noteq> 0" "sc68_process H cfg sd q (Some 100) (Some 4) = Some Crash"
    using plays_on_after_end [OF run _ _ t, of 4 _ 100] by (simp_all add: quiet_player_fields)
  with run show "\<exists>r q. sc68_process H cfg sd ?p (Some 100) (Some 4) = Some (Done (r, 0, q)) \<and>
      r AND SC68_END \<noteq> 0 \<and> sc68_process H cfg sd q (Some 100) (Some 4) = Some Crash"
    by blast
qed

section \<open>A disk that cannot be played\<close>

text \<open>When \<open>sc68_open\<close> fails on a disk while none is loaded, as it does when the track the disk forces is
  not one of it, the disk of the caller is freed and the player keeps its address, which the next request
  to play uses.\<close>

theorem failed_open_dangles:
  assumes "disks p a = Some d" "pdisk p = None" "nb_mus d < sint (force_track d)" "0 < sint (force_track d)"
  shows "\<exists>q. sc68_open cfg p (Some a) = Done (-1, q) \<and> disks q a = None \<and> pdisk q = Some a \<and>
    (\<forall>track loop. sc68_play cfg q track loop = Crash)"
proof -
  let ?p = "p\<lparr>tobe3 := False, pdisk := Some a, cur_track := 0, pmus := None\<rparr>"
  have "force_track d > 0" using assms(4) by (auto simp: word_gt_0)
  then have "sc68_play cfg ?p SC68_DEF_TRACK SC68_DEF_LOOP = Done (-1, ?p)"
    using assms by (simp add: sc68_play_def check_track_range_def SC68_DEF_TRACK_def SC68_CUR_TRACK_def Let_def)
  then have "sc68_open cfg p (Some a) = Done (-1, file68_free a ?p)"
    using assms(2) by (simp add: sc68_open_def load_disk_def Let_def)
  then show ?thesis by (simp add: file68_free_def sc68_play_def)
qed

theorem failed_open_dangles_witness:
  "\<forall>cfg. \<exists>q. sc68_open cfg ((new_player quiet_machine)\<lparr>disks := [0 \<mapsto> quiet_disk\<lparr>force_track := 9\<rparr>]\<rparr>) (Some 0) = Done (-1, q) \<and>
    disks q 0 = None \<and> pdisk q = Some 0"
  using failed_open_dangles [of "(new_player quiet_machine)\<lparr>disks := [0 \<mapsto> quiet_disk\<lparr>force_track := 9\<rparr>]\<rparr>" 0
      "quiet_disk\<lparr>force_track := 9\<rparr>"]
  by (fastforce simp: new_player_def quiet_disk_def)

section \<open>The buffer of a pass\<close>

lemma blep_buffer:
  assumes "pass_buffer H m p0 = (True, p)" "hwflags m AND SC68_PSG \<noteq> 0" "hwflags m AND SC68_AGA = 0"
    and "ym_cb (ymio_ym (c_ym (chips (emu p0)))) = YmBlep" "bufmax p0 \<le> 2048"
  shows "bufmax p = 2048 \<and> bufreq p = 2048 \<and> cycleperpass p = cycleperpass p0"
  using assms by (auto simp: pass_buffer_def Let_def ymio_buffersize_def ym_buffersize_def MAX_MIXBUF_def
      split: option.splits if_splits)

text \<open>C40. With the default engine of the YM the buffer of a pass has 2048 samples, whatever the sampling rate
  and the replay rate of the music: when a pass is longer than 2048 sample periods, as it is at 50 Hz with
  a rate above 102400 Hz or so, the samples of the pass are written beyond the end of the buffer.\<close>

theorem pass_overflows:
  assumes "pass_buffer H m p0 = (True, p)" "hwflags m AND SC68_PSG \<noteq> 0" "hwflags m AND SC68_AGA = 0"
    and "ym_cb (ymio_ym (c_ym (chips (emu p0)))) = YmBlep" "bufmax p0 \<le> 2048"
    and "y = ymio_ym (c_ym (chips s))" "n = cycle_cputoym (c_ym (chips s)) (ucast (cycleperpass p0))"
    and "mixing_ok y" "in_order 0 (ym_events y) n" "ym_cb y = YmBlep" "n AND 31 = 0"
    and "cycles_to_next_sample (ym_blep y) + 2048 * cycles_per_sample (ym_blep y) < 256 * unat n"
  shows "mix_pass H b (hwflags m) (p\<lparr>emu := s\<rparr>) = Some Crash"
proof -
  note p = blep_buffer [OF assms(1-5)]
  have "n \<noteq> 0" using assms(12) by auto
  from ym_run_blep [OF assms(8-10) this assms(11), of "dump_clean H"] obtain out y' where
    run: "ym_run (dump_clean H) y True n = Some (int (length out), out, [], y')" and
    due: "256 * unat n + cycles_to_next_sample (ym_blep y') =
      cycles_to_next_sample (ym_blep y) + length out * cycles_per_sample (ym_blep y)" by blast
  have "2048 * cycles_per_sample (ym_blep y) < length out * cycles_per_sample (ym_blep y)"
    using due assms(12) by linarith
  then have "2048 < length out" by simp
  then show ?thesis
    using p run assms(2,3) by (simp add: mix_pass_def mix_ym_def put_chips_def Let_def flip: assms(6,7))
qed

text \<open>The clock of an Atari ST over the highest sampling rate, 125166 Hz, is 4095 / 256.\<close>

definition fast_ym :: ym where
  "fast_ym = put_blep ((ym_blep ym0)\<lparr>cycles_per_sample := 4095, cycles_to_next_sample := 4095\<rparr>) ym0"

definition fast_machine :: machine where
  "fast_machine = quiet_machine\<lparr>chips := chips0\<lparr>c_ym := \<lparr>ymio_mul = -2, ymio_div = 0, ymio_ym = fast_ym\<rparr>\<rparr>\<rparr>"

theorem pass_overflows_witness:
  "\<forall>H. \<exists>p. pass_buffer H (quiet_track\<lparr>hwflags := SC68_PSG\<rparr>)
      ((new_player fast_machine)\<lparr>cycleperpass := 160256, bufmax := 2048, pbuffer := Some 0\<rparr>) = (True, p) \<and>
    mix_pass H 0 SC68_PSG (p\<lparr>emu := fast_machine\<rparr>) = Some Crash"
proof
  fix H :: host68
  let ?m = "quiet_track\<lparr>hwflags := SC68_PSG\<rparr>"
  let ?p = "(new_player fast_machine)\<lparr>cycleperpass := 160256, bufmax := 2048, pbuffer := Some 0\<rparr>"
  have hw: "hwflags ?m AND SC68_PSG \<noteq> 0" "hwflags ?m AND SC68_AGA = 0"
    by (simp_all add: SC68_PSG_def SC68_AGA_def)
  have ym: "ym_cb fast_ym = YmBlep" "mixing_ok fast_ym" "ym_events fast_ym = []"
    "cycles_to_next_sample (ym_blep fast_ym) = 4095" "cycles_per_sample (ym_blep fast_ym) = 4095"
    using ym0_ready by (simp_all add: fast_ym_def put_blep_def mixing_ok_def blep_ok_def)
  have chip: "c_ym (chips fast_machine) = \<lparr>ymio_mul = -2, ymio_div = 0, ymio_ym = fast_ym\<rparr>"
    by (simp add: fast_machine_def)
  have n: "cycle_cputoym \<lparr>ymio_mul = -2, ymio_div = 0, ymio_ym = y\<rparr> 160256 = 40064" for y
    by (simp add: cycle_cputoym_def)
  obtain p where p: "pass_buffer H ?m ?p = (True, p)"
    using hw by (simp add: pass_buffer_def Let_def ymio_buffersize_def ym_buffersize_def chip ym new_player_def MAX_MIXBUF_def)
  have "mix_pass H 0 (hwflags ?m) (p\<lparr>emu := fast_machine\<rparr>) = Some Crash"
    by (rule pass_overflows [OF p hw _ _ refl refl]) (simp_all add: new_player_def chip ym n)
  then show "\<exists>p. pass_buffer H ?m ?p = (True, p) \<and> mix_pass H 0 SC68_PSG (p\<lparr>emu := fast_machine\<rparr>) = Some Crash"
    using p by auto
qed

end
