(* ===== verification/Spec2Isabelle.thy ===== *)
theory Spec2Isabelle
  imports Movem68 Seq68 Debug68 Chips68 Mixer68 Loader68 Playing68 Ending68
begin

text \<open>
  sc68 plays the music of Atari ST and Amiga computers: it emulates their 68000 processor and their
  sound chips, and reads the files the music is kept in.  This library models the C code of the
  emulator, of the chips, of the PCM mixer, of the file library, of the depacker and of the player
  that puts them together, and proves what makes each part correct.  Every definition is a function
  or a state of the code under \<open>src/\<close>, in the order the code has them.

  Parts, and the theories that model them.

  \<^item> The processor, \<open>libsc68/emu68\<close>.  \<open>Prelude68\<close> has the integer types at their width (an
    \<open>int68_t\<close> is 64 bits, an operand is kept at the top of one); \<open>Struct68\<close> the record of the
    emulator, its registers and its error stack; \<open>Mem68\<close> the memory, the bus and the access control;
    \<open>Getea68\<close> the exceptions and the addressing modes; \<open>Arith68\<close>, \<open>Shift68\<close>, \<open>Cc68\<close>, \<open>Control68\<close>
    and \<open>Ops68\<close> the instructions as \<open>inl68_*.h\<close> has them; \<open>LineMove68\<close> to \<open>LineAlu68\<close> the opcode
    functions of \<open>lines/*.c\<close>, one definition for a row of functions that differ in a register, and
    \<open>Table68\<close> the table of 1024 entries; \<open>Api68\<close>, \<open>Break68\<close>, \<open>Ioplug68\<close> and \<open>Exec68\<close> the
    interface: registers, memory, breakpoints, chips, the run loop, interrupts, creation.
    \<open>Insn68\<close>, \<open>Flow68\<close>, \<open>Movem68\<close>, \<open>Seq68\<close>, \<open>Reach68\<close> and \<open>Debug68\<close> prove the properties of
    whole instructions, of sequences of them and of the reachable states.
  \<^item> The chips, \<open>libsc68/io68\<close>: \<open>Mfp68\<close> (timers), \<open>Mw68\<close> (STE DMA sound and its volume chip),
    \<open>Paula68\<close> (Amiga), \<open>Ym68\<close>, \<open>YmPuls68\<close>, \<open>YmBlep68\<close> and \<open>YmEmul68\<close> (YM-2149 and its three
    engines), \<open>Io68\<close> (their place on the bus), \<open>Chips68\<close> (the machine with its chips).
  \<^item> The mixer of \<open>libsc68/src/mixer68.c\<close>: \<open>Mixer68\<close>.
  \<^item> Files, \<open>file68/src\<close>: \<open>Vfs68\<close> and \<open>VfsMem68\<close> (streams), \<open>Timedb68\<close> (the database of
    durations), \<open>Str68\<close> (strings and URIs), \<open>File68\<close> (disks, tags, saving and the chunk reader),
    \<open>Sndh68\<close> (SNDH files) and \<open>Load68\<close> (loading over the four formats, completing a disk, saving).
    \<open>Chunk68\<close>, \<open>Round68\<close> and \<open>Loader68\<close> prove the properties of saving and loading.
  \<^item> The depacker \<open>unice68/unice68_unpack.c\<close>: \<open>Ice68\<close>.
  \<^item> The player \<open>libsc68/src/api68.c\<close>: \<open>Player68\<close>; \<open>Playing68\<close> and \<open>Ending68\<close>
    prove its properties.

  How they interact.  The player resets the machine for a track, copies the music into its memory and
  runs its init code and then, once a pass, its play code on the processor; the code writes to the
  chips over the bus; \<open>emu68_interrupt\<close> lets the timers interrupt it for the cycles of the pass; the
  chips then fill a buffer, which \<open>sc68_process\<close> hands out.  A chip, a handler and the run loop meet in
  the environment \<open>env68\<close>, an argument of every function that reaches the bus.  The contracts between
  them are locales, each interpreted on the definitions of the model: \<open>env_frame\<close>, \<open>env_chips\<close>,
  \<open>env_stops\<close> and \<open>env_runs\<close> (what the chips and the handler leave alone, and that they let a run
  end), \<open>handler_ok\<close> (a handler on the machine with its five chips), \<open>byte_stream\<close> (streams) and
  \<open>sink\<close> (what saving asks of a stream).

  How the code is modelled.  Machine integers are words, an \<open>int\<close> that cannot wrap is an integer;
  memory is a function on addresses; a structure is a record; an error is a value of the result.
  A loop that may go on for ever is a partial function with value \<open>None\<close>: the run loop, the
  interrupts, the depacker, the engines of the YM, the reader of chunks and the loop of
  \<open>sc68_process\<close>.  That such a loop returns is proved as such where it does.  There is no fuel: the
  budget of instructions of \<open>emu68_finish\<close> is the one of the code.  An access outside of a buffer, a
  null pointer and a division by zero are values of their own, \<open>Fault\<close> and \<open>Crash\<close>, where the code can
  reach them.  Where C leaves an order of evaluation open the operands are taken from left to right.
  The host is little-endian, assertions are compiled out (\<open>NDEBUG\<close>), \<open>EMU68_68020\<close> is not defined,
  \<open>EMU68CYCLE\<close> is a field of the environment and off in the player.  What \<open>malloc\<close> gives the emulator is
  a parameter, no memory included; a chip is plugged only while it is not, as an assertion demands.

  What the lemmas show.  For the processor: each kind of instruction against a reference on words or on
  integers, operations that undo each other, exceptions and double faults, that an instruction leaves
  the host side of the emulator alone, that a run with a budget ends, an invariant of all states the
  interface reaches, breakpoints and plugged chips.  For the chips: the invariant of the machine, that
  every pass of the engines returns, what commands and registers do, where the sound DMA is at each
  output, over the end of a sample and round a loop.  For the mixer: equal routines.
  For files: a memory stream refines a stream of bytes, a saved disk is loaded back, which files the
  reader does not return on, tags.  For the depacker: it returns on every input and stays in its
  buffers.  For the player: the passes and loops of a track, what \<open>sc68_process\<close> hands out.  Several
  theorems state faults of the code as they are: X lost by \<open>LSL\<close> and the system byte by \<open>ROXL\<close> and \<open>ROXR\<close>,
  left and right swapped in the volume chip, areas left mapped to a chip that is unplugged, sizes of
  memory other than documented, a loop reported a pass early, a loader that never returns, saving to memory that
  always fails, tags that are duplicated, a search that misses an entry, a read past an area, a request
  to stop that is lost, playing on after the end, a disk that is freed and kept, a pass that leaves its
  buffer.

  Not modelled.  Options, configuration, messages and traces, \<open>init\<close> and \<open>shutdown\<close>, \<open>destroy\<close>
  functions that only free, and text made for messages: they have no result of their own.  Streams
  over files, zlib, libcurl and libao, and loading by URI: they call other libraries; a gzip stream is a
  parameter.  The tables of YM volumes, of durations and of replay routines, and the code of the TOS
  traps, which the build assembles: data, parameters of the model.  The packer of \<open>unice68\<close>, the
  assembler, the disassemblers, the generators, the command line programs and the plugins for other
  players: tools beside the player.

  This theory holds the properties of the processor and of its interface that span its theories; those
  of the other parts are in their theories.
\<close>

section \<open>A machine for the examples\<close>

text \<open>
  A machine in its simplest configuration, as \<open>emu68_create\<close> leaves it but for the
  registers: 64 KB of memory that hold the bytes given, no chip, no debugging, supervisor
  mode.  The witnesses of the properties run on it.
\<close>

definition rom68 :: "u8 list \<Rightarrow> (nat \<Rightarrow> s32) \<Rightarrow> unit emu68" where
  "rom68 bs d =
    \<lparr>err = [], reg = \<lparr>reg_d = d, reg_usp = 0, reg_pc = 0, reg_sr = 0x2700\<rparr>,
     inst_pc = -1, inst_sr = -1, cycle = 0, clock = 8010612,
     handler = None, cookie = 0, status = EMU68_NRM, instructions = 0,
     finish_sp = -1, nio = 0, iohead = [], interrupt_io = None,
     mapped_io = (\<lambda>_. NopIO), memio = None, bus_addr = 0, bus_data = 0,
     frm_chk_fl = 0, fst_chk = \<lparr>ck_pc = 0, ck_ad = 0, ck_fl = 0\<rparr>,
     lst_chk = \<lparr>ck_pc = 0, ck_ad = 0, ck_fl = 0\<rparr>, chk = None,
     breakpoints = (\<lambda>_. no_bp), memmsk = 0xFFFF, log2mem = 16,
     mem = (\<lambda>i. if i < length bs then bs ! i else 0), chips = ()\<rparr>"

lemma rom68_fields [simp]:
  "reg (rom68 bs d) = \<lparr>reg_d = d, reg_usp = 0, reg_pc = 0, reg_sr = 0x2700\<rparr>"
  "mem (rom68 bs d) = (\<lambda>i. if i < length bs then bs ! i else 0)"
  "memmsk (rom68 bs d) = 0xFFFF" "memio (rom68 bs d) = None" "handler (rom68 bs d) = None"
  "status (rom68 bs d) = EMU68_NRM" "chk (rom68 bs d) = None" "instructions (rom68 bs d) = 0"
  by (simp_all add: rom68_def)

lemma rom68_fetches:
  "unat (push_bit 8 (ucast (mem (rom68 bs d) 0)) OR ucast (mem (rom68 bs d) 1) :: s32) = w \<Longrightarrow>
    fetches (rom68 bs d) w"
  by (simp add: fetches_def opcode_at_def rom68_def SR_T_def)

lemma rom68_ram: "\<not> mem68_is_io a \<Longrightarrow> ram_at (rom68 bs d) a"
  by (simp add: ram_at_def)

section \<open>Instructions\<close>

text \<open>C1. \<open>OR\<close>, \<open>SUB\<close>, \<open>CMP\<close>, \<open>AND\<close> and \<open>ADD\<close> of a data register to a data register, in
  the three operand sizes: one step of the emulator on the opcode word computes, on words of
  that size, the result and the condition codes of the exact integer result, merges the result
  into the low bits of the destination, and changes nothing else but the program counter.\<close>

theorem alu_insn:
  fixes a :: "'a::len word"
  assumes "sized sz TYPE('a)" "f \<noteq> ALU_EOR" "m < 8" "n < 8"
    and "fetches s (opcode (alu_line f) n (size68_rank sz) 0 m)" and "a = ucast (dreg s m)"
  shows "step68 E s = alu_effect f a n (fetched s)"
  using assms by (rule alu_step)

theorem alu_insn_witness:
  "dreg (step68 null_env (rom68 [0xD0, 0x01] (\<lambda>i. if i = 0 then 0x12345680 else 0x90))) 0 = 0x12345610"
proof -
  let ?s = "rom68 [0xD0, 0x01] (\<lambda>i. if i = 0 then 0x12345680 else 0x90)"
  have f: "fetches ?s (opcode (alu_line ALU_ADD) 0 (size68_rank SzB) 0 1)"
    by (rule rom68_fetches) (simp add: opcode_def)
  have "step68 null_env ?s = alu_effect ALU_ADD (ucast (dreg ?s 1) :: u8) 0 (fetched ?s)"
    by (rule alu_insn [OF _ _ _ _ f refl]) simp_all
  then show ?thesis
    by (simp add: alu_effect_def merge_low_def fetched_def set_pc_def set_sr_def set_dreg_def
        mask_eq_exp_minus_1)
qed

text \<open>C2. \<open>CMP Dm,Dn\<close> followed by a conditional branch with a byte displacement: the
  branch is taken exactly when the relation its condition is named for holds between the
  operands as unsigned (HI, LS, CC, CS, NE, EQ) or signed (GE, LT, GT, LE) numbers of the size
  compared, and the pair changes no data or address register and no memory.\<close>

theorem cmp_branch:
  fixes a b :: "'a::len word"
  assumes "sized sz TYPE('a)" "m < 8" "n < 8"
    and "fetches s (opcode 11 n (size68_rank sz) 0 m)"
    and "a = ucast (dreg s m)" "b = ucast (dreg s n)"
    and "2 \<le> cc" "cc < 16" "cc \<notin> {8, 9, 10, 11}" and "0 < d" "d < 256"
    and "fetches (step68 E s) (24576 + 256 * cc + d)"
  shows "pc (step68 E (step68 E s)) =
      (if cmp_rel cc a b then pc s + 4 + scast (of_nat d :: u8) else pc s + 4) \<and>
    dreg (step68 E (step68 E s)) = dreg s \<and> mem (step68 E (step68 E s)) = mem s"
  using cmp_branch_step [OF assms] by blast

theorem cmp_branch_witness:
  "pc (step68 null_env (step68 null_env (rom68 [0xB0, 0x01, 0x6E, 0xFC] (\<lambda>i. if i = 0 then 5 else 0xFD)))) = 0"
proof -
  let ?s = "rom68 [0xB0, 0x01, 0x6E, 0xFC] (\<lambda>i. if i = 0 then 5 else 0xFD)"
  have f: "fetches ?s (opcode 11 0 (size68_rank SzB) 0 1)"
    by (rule rom68_fetches) (simp add: opcode_def)
  then have g: "fetches ?s (opcode (alu_line ALU_CMP) 0 (size68_rank SzB) 0 1)" by simp
  have "step68 null_env ?s = alu_effect ALU_CMP (ucast (dreg ?s 1) :: u8) 0 (fetched ?s)"
    by (rule alu_step [OF _ _ _ _ g refl]) simp_all
  then have b: "fetches (step68 null_env ?s) (24576 + 256 * 14 + 252)"
    by (simp add: alu_effect_def fetches_def opcode_at_def cmp_sr_def mk_ccr_def neg_w_def SR_T_def)
  have "pc (step68 null_env (step68 null_env ?s)) =
      (if cmp_rel 14 (0xFD :: u8) 5 then pc ?s + 4 + scast (of_nat 252 :: u8) else pc ?s + 4)"
    by (rule cmp_branch [OF _ _ _ f _ _ _ _ _ _ _ b, THEN conjunct1]) simp_all
  then show ?thesis by (simp add: cmp_rel_def word_sless_alt)
qed


text \<open>C3. A 64-bit addition or subtraction in two instructions, \<open>ADD.L\<close> or
  \<open>SUB.L\<close> on the low halves and \<open>ADDX.L\<close> or \<open>SUBX.L\<close> on the high halves: the register pair
  holds the result modulo \<open>2 ^ 64\<close>, the carry flag tells the carry or borrow out of bit 63, and
  the other registers and the memory stay.\<close>

theorem extended_precision:
  assumes "m0 < 8" "n0 < 8" "m1 < 8" "n1 < 8" "n0 \<noteq> n1" "m1 \<noteq> n0"
    and "fetches s (opcode (addx_line sub) n0 2 0 m0)"
    and "fetches (step68 E s) (opcode (addx_line sub) n1 6 0 m1)"
    and "a = pair64 (dreg s m1) (dreg s m0)" and "b = pair64 (dreg s n1) (dreg s n0)"
    and "u = step68 E (step68 E s)"
  shows "pair64 (dreg u n1) (dreg u n0) = (if sub then b - a else b + a) mod 2 ^ 64 \<and>
    (bit (sr u) 0 \<longleftrightarrow> (if sub then b < a else 2 ^ 64 \<le> b + a)) \<and>
    (\<forall>i. i = n0 \<or> i = n1 \<or> dreg u i = dreg s i) \<and> mem u = mem s"
  using add64_step [OF assms] by blast

theorem extended_precision_witness:
  "\<exists>u. pair64 (dreg u 1) (dreg u 0) = 2 ^ 33 - 2 \<and> \<not> bit (sr (u :: unit emu68)) 0"
proof -
  let ?s = "rom68 [0xD0, 0x82, 0xD3, 0x83] (\<lambda>i. if i = 0 \<or> i = 2 then 0xFFFFFFFF else 0)"
  have f: "fetches ?s (opcode (addx_line False) 0 2 0 2)"
    by (rule rom68_fetches) (simp add: opcode_def addx_line_def)
  then have g: "fetches ?s (opcode (alu_line ALU_ADD) 0 (size68_rank SzL) 0 2)"
    by (simp add: addx_line_def)
  have "step68 null_env ?s = alu_effect ALU_ADD (ucast (dreg ?s 2) :: s32) 0 (fetched ?s)"
    by (rule alu_step [OF _ _ _ _ g refl]) simp_all
  then have h: "fetches (step68 null_env ?s) (opcode (addx_line False) 1 6 0 3)"
    by (simp add: alu_effect_def fetches_def opcode_at_def opcode_def addx_line_def add_sr_def
        mk_ccr_def neg_w_def SR_T_def)
  have "pair64 (dreg (step68 null_env (step68 null_env ?s)) 1) (dreg (step68 null_env (step68 null_env ?s)) 0)
      = (pair64 0 0xFFFFFFFF + pair64 0 0xFFFFFFFF) mod 2 ^ 64 \<and>
    (bit (sr (step68 null_env (step68 null_env ?s))) 0 \<longleftrightarrow> 2 ^ 64 \<le> pair64 0 0xFFFFFFFF + pair64 0 0xFFFFFFFF)"
    using extended_precision [OF _ _ _ _ _ _ f h refl refl refl] by simp
  then show ?thesis
    by (intro exI [of _ "step68 null_env (step68 null_env ?s)"]) (simp add: pair64_def)
qed

section \<open>Operations that undo each other\<close>

text \<open>C4. Exception processing with no handler installed, for every vector that
  stacks a frame: the frame takes six bytes, the processor is left in supervisor mode without
  trace at the address the vector holds, and the registers but \<open>a7\<close> are kept.  From any later
  state with the same stack pointer and an intact frame, \<open>RTE\<close> restores the program counter,
  the status register and the stack pointer of the interrupted program.\<close>

theorem exception_rte:
  assumes "stacks_frame v s" "handler s = None" "stack_room s" "ram_at s (of_nat (v * 4))"
    and "t = exception68 E v level s"
    and "areg u 7 = areg t 7" "keeps t u SzW (sx (areg s 7 - 6))" "keeps t u SzL (sx (areg s 7 - 4))"
  shows "areg t 7 = areg s 7 - 6 \<and> sr t = entry_sr (sr s) level \<and> status t = status s \<and>
    pc t = lo32 (ram_get SzL (mem t) (mem_index s (of_nat (v * 4)))) \<and>
    (\<forall>i. i = 15 \<or> dreg t i = dreg s i) \<and>
    pc (inl_rte68 E u) = pc s \<and> sr (inl_rte68 E u) = sr s AND 0xFFFF \<and>
    areg (inl_rte68 E u) 7 = areg s 7 \<and> (\<forall>i. i = 15 \<or> dreg (inl_rte68 E u) i = dreg u i) \<and>
    mem (inl_rte68 E u) = mem u"
  using exception_entry [OF assms(1-5)] rte_after_exception [OF assms] by blast

theorem exception_rte_witness:
  "\<exists>u. pc u = 0x400 \<and> sr u = 0x8004 \<and> areg (u :: unit emu68) 7 = 0x1000"
proof -
  let ?s = "set_pc 0x400 (set_sr 0x8004 (rom68 [] (\<lambda>i. 0x1000)))"
  let ?t = "exception68 null_env TRAPV_VECTOR (-1) ?s"
  have r: "stacks_frame TRAPV_VECTOR ?s" "handler ?s = None" "stack_room ?s" "ram_at ?s (of_nat (TRAPV_VECTOR * 4))"
    by (simp_all add: stacks_frame_def TRAPV_VECTOR_def BUSERR_VECTOR_def ADRERR_VECTOR_def set_pc_def set_sr_def
        stack_room_def ram_at_def mem68_is_io_def mem_index_def)
  show ?thesis
    using exception_rte [where t = ?t and u = ?t, OF r refl refl keeps_refl keeps_refl]
    by (intro exI [of _ "inl_rte68 null_env ?t"]) (simp add: set_pc_def set_sr_def)
qed

text \<open>C5. \<open>JSR\<close> and \<open>BSR\<close> against \<open>RTS\<close>: the call continues at its target, and from any
  later state with the same stack pointer and an intact return address, \<open>RTS\<close> continues after
  the call with the stack pointer of before it, and changes nothing else.\<close>

theorem call_rts:
  assumes "ram_at s (sx (areg s 7 - 4))" "t = inl_jsr68 E a s \<or> t = inl_bsr68 E a s"
    and "areg u 7 = areg t 7" "keeps t u SzL (sx (areg t 7))"
  shows "pc t = lo32 a \<and> pc (inl_rts68 E u) = pc s \<and> areg (inl_rts68 E u) 7 = areg s 7 \<and>
    (\<forall>i. i = 15 \<or> dreg (inl_rts68 E u) i = dreg u i) \<and>
    sr (inl_rts68 E u) = sr u \<and> mem (inl_rts68 E u) = mem u"
  using call_return [OF assms] by blast

theorem call_rts_witness:
  "pc (inl_rts68 null_env (inl_jsr68 null_env 0x2000 (set_pc 0x402 (rom68 [] (\<lambda>i. 0x1000))))) = 0x402"
  using call_rts [where s = "set_pc 0x402 (rom68 [] (\<lambda>i. 0x1000))" and E = null_env and a = "0x2000",
      OF _ disjI1 [OF refl] refl keeps_refl]
  by (simp add: ram_at_def mem68_is_io_def)

text \<open>C6. \<open>MOVEM.L list,-(A7)\<close> and \<open>MOVEM.L (A7)+,list\<close> with the two masks of the
  same register list: the store moves \<open>a7\<close> down by four bytes a register, and the load, from any
  later state with that stack pointer and intact saved registers, restores exactly the
  registers of the list and \<open>a7\<close>, and changes no other register and no memory.\<close>

theorem movem_save_load:
  assumes "ram_at s (sx (pc s))" "list_word s = m" "list_word u = m'" "ram_at u (sx (pc u))"
    and "\<And>i. i < 16 \<Longrightarrow> bit m' i \<longleftrightarrow> bit m (15 - i)" "\<not> bit m' 15"
    and "n = length (mask_regs m')" "long_block s (sx (areg s 7)) hi n"
    and "sx (areg s 7 - of_nat (4 * n)) = sx (areg s 7) - of_nat (4 * n)"
    and "t = movemmem E SzL 4 7 s"
    and "areg u 7 = areg t 7" "memmsk u = memmsk t" "memio u = memio t"
    and "\<And>j. hi \<le> j + 4 * n \<Longrightarrow> j < hi \<Longrightarrow> mem u j = mem t j"
  shows "areg t 7 = areg s 7 - of_nat (4 * n) \<and> mem (movemreg E SzL 3 7 u) = mem u \<and>
    (\<forall>i. dreg (movemreg E SzL 3 7 u) i =
      (if i = 15 \<or> (i < 16 \<and> bit m' i) then dreg s i else dreg u i))"
  using movem_save_restore [OF assms] by blast

theorem movem_save_load_witness:
  "\<exists>u. dreg (u :: unit emu68) 1 = 0 \<and> dreg (movemreg null_env SzL 3 7 u) 1 = 0x1000"
proof -
  let ?s = "rom68 [0xC0, 0x00] (\<lambda>i. 0x1000)"
  define t where "t = movemmem null_env SzL 4 7 ?s"
  define u where "u = set_dreg 1 0 (set_pc 2 (t\<lparr>mem := (\<lambda>j. if j < 4 then (if j = 3 then 3 else 0) else mem t j)\<rparr>))"
  have "frame68 (\<lambda>_. True) ?s t" unfolding t_def by (rule null_frame.movem_frame) simp
  then have f: "memmsk t = 0xFFFF" "memio t = None" by (simp_all add: frame68_def)
  have l: "list_word ?s = 0xC000" "list_word u = 3"
    by (simp_all add: list_word_def mem_index_def u_def f set_pc_def set_dreg_def)
  have e: "(3 :: nat) = mask 2" "(0xC000 :: nat) = push_bit 14 (mask 2)"
    by (simp_all add: mask_eq_exp_minus_1 push_bit_eq_mult)
  have bits: "bit (3 :: nat) i \<longleftrightarrow> i = 0 \<or> i = 1" "bit (0xC000 :: nat) i \<longleftrightarrow> i = 14 \<or> i = 15" for i
    unfolding e by (auto simp: bit_simps)
  then have b: "bit (3 :: nat) i \<longleftrightarrow> bit (0xC000 :: nat) (15 - i)" if "i < 16" for i
    unfolding bits using that by auto
  have u16: "[0..<16] = [0 :: nat, 1, 2, 3, 4, 5, 6, 7, 8, 9, 10, 11, 12, 13, 14, 15]"
    by (simp add: upt_rec)
  have n: "mask_regs 3 = [0, 1]" unfolding mask_regs_def u16 filter.simps bits by simp
  have r: "ram_at ?s (sx (pc ?s))" "ram_at u (sx (pc u))"
    by (simp_all add: ram_at_def mem68_is_io_def u_def f)
  have k: "k = 0 \<or> k = 1" if "k < 2" for k :: nat using that by linarith
  have blk: "long_block ?s (sx (areg ?s 7)) 0x1000 2"
    unfolding long_block_def
    by (intro allI impI, drule k) (auto simp: ram_at_def mem68_is_io_def mem_index_def)
  have "\<forall>i. dreg (movemreg null_env SzL 3 7 u) i =
      (if i = 15 \<or> (i < 16 \<and> bit (3 :: nat) i) then dreg ?s i else dreg u i)"
    by (rule movem_save_load [OF r(1) l r(2) b _ _ blk _ t_def, THEN conjunct2, THEN conjunct2])
      (simp_all add: n u_def bit_Suc)
  then have "dreg (movemreg null_env SzL 3 7 u) 1 = 0x1000" unfolding bits by simp
  then show ?thesis by (intro exI [of _ u]) (simp add: u_def)
qed

text \<open>\<open>LINK\<close> and \<open>UNLK\<close> with a frame pointer other than \<open>a7\<close>: the frame pointer
  holds the address of its saved value, and from any later state with that frame pointer and
  the saved value intact, \<open>UNLK\<close> restores the frame pointer and the stack pointer whatever the
  code between did to the stack pointer.\<close>

theorem link_unlk:
  assumes "r < 7" "ram_at s (sx (areg s 7 - 4))" "t = inl_link68 E r s" "ram_at s (sx (pc s))"
    and "areg u r = areg s 7 - 4" "memmsk u = memmsk s" "memio u = memio s"
    and "ram_get SzL (mem u) (mem_index s (sx (areg s 7 - 4))) =
      ram_get SzL (mem t) (mem_index s (sx (areg s 7 - 4)))"
  shows "areg t r = areg s 7 - 4 \<and> areg (inl_unlk68 E r u) r = areg s r \<and>
    areg (inl_unlk68 E r u) 7 = areg s 7 \<and>
    (\<forall>i. i = 15 \<or> i = 8 + r \<or> dreg (inl_unlk68 E r u) i = dreg u i) \<and>
    pc (inl_unlk68 E r u) = pc u \<and> mem (inl_unlk68 E r u) = mem u"
  using unlk_after_link [OF assms] by blast

theorem link_unlk_witness:
  "areg (inl_unlk68 null_env 6 (set_areg 7 0x200 (inl_link68 null_env 6 (rom68 [0xFF, 0xF0] (\<lambda>i. 0x1000))))) 7 = 0x1000"
proof -
  let ?s = "rom68 [0xFF, 0xF0] (\<lambda>i. 0x1000)"
  define t where "t = inl_link68 null_env 6 ?s"
  have "frame68 (\<lambda>_. True) ?s t" unfolding t_def by (rule null_frame.datamove_frame) simp
  then have f: "memmsk t = 0xFFFF" "memio t = None" by (simp_all add: frame68_def)
  have r: "ram_at ?s (sx (areg ?s 7 - 4))" "ram_at ?s (sx (pc ?s))"
    by (simp_all add: ram_at_def mem68_is_io_def)
  have "areg t 6 = areg ?s 7 - 4"
    by (rule unlk_after_link(1) [OF _ r(1) t_def r(2),
          where u = "?s\<lparr>reg := (reg ?s)\<lparr>reg_d := (\<lambda>i. 0xFFC)\<rparr>, mem := mem t\<rparr>"]) simp_all
  then show ?thesis
    using link_unlk [where u = "set_areg 7 0x200 t", OF _ r(1) t_def r(2)] f
    by (simp add: t_def)
qed

text \<open>Storing through \<open>-(An)\<close> and loading through \<open>(An)+\<close>, in the three sizes: the
  address register moves by the operand size, by two for a byte on \<open>a7\<close>; the load returns the
  value stored, truncated to the size, and every register is back to its value.\<close>

theorem predec_postinc:
  assumes "r < 8" "a = sx (areg s r - ea_step sz r)" "ram_at s a"
  shows "fst (read_EA E sz 3 r (write_EA E sz 4 r v s)) = trunc68 sz v \<and>
    areg (write_EA E sz 4 r v s) r = areg s r - ea_step sz r \<and>
    reg (snd (read_EA E sz 3 r (write_EA E sz 4 r v s))) = reg s \<and>
    mem (snd (read_EA E sz 3 r (write_EA E sz 4 r v s))) = mem (write_EA E sz 4 r v s)"
  using ea_push_pop [OF assms] by blast

theorem predec_postinc_witness:
  "fst (read_EA null_env SzW 3 2 (write_EA null_env SzW 4 2 0x12345 (rom68 [] (\<lambda>i. 0x1000)))) = 0x2345"
  using predec_postinc [where r = 2 and s = "rom68 [] (\<lambda>i. 0x1000)" and sz = SzW and E = null_env
      and v = "0x12345", OF _ refl]
  by (simp add: ram_at_def mem68_is_io_def)


section \<open>Shifts, products and quotients\<close>

text \<open>C7. The eight shifts and rotations of a data register, with an immediate count or
  one from a register, in the three sizes and for every count from 0 to 63: the result is that of
  the word operation (\<open>shift_val\<close>), the condition codes are those documented for the processor
  (\<open>shift_flags\<close>) but for two faults of the code (\<open>shift_faults\<close>), and the cycle counter advances by
  two a position when it is compiled in.  The faults: \<open>LSL\<close> by a count other than 0 clears X,
  where the comment of \<open>inl_lsl68\<close> and the processor set it with C; and \<open>ROXL\<close> and \<open>ROXR\<close> that
  move anything clear the system byte, so that the processor leaves supervisor mode.\<close>

theorem shift_insn:
  fixes a :: "'a::len word"
  assumes "sized sz TYPE('a)" "m < 8" "q < 8"
    and "fetches s (opcode 14 q (shift_row op sz) (shift_kind op + (if byreg then 4 else 0)) m)"
    and "a = ucast (dreg s m)"
    and "shift_count (if byreg then dreg s q else lo32 (quick68 q)) = n"
  shows "step68 E s =
    set_dreg m (merge_low (dreg s m) (shift_val op n (bit (sr s) 4) a))
      (set_sr (shift_faults op LENGTH('a) n (shift_flags op n (sr s) a))
        (inl_addcycle68 E (of_nat (2 * n)) (fetched s)))"
  using assms by (rule shift_step)

theorem shift_insn_witness:
  "dreg (step68 null_env (rom68 [0xE8, 0x81] (\<lambda>i. 0x80000010))) 1 = 0xF8000001"
proof -
  let ?s = "rom68 [0xE8, 0x81] (\<lambda>i. 0x80000010)"
  have f: "fetches ?s (opcode 14 4 (shift_row ASR68 SzL) (shift_kind ASR68 + (if False then 4 else 0)) 1)"
    by (rule rom68_fetches) (simp add: opcode_def shift_row_def)
  have n: "shift_count (if False then dreg ?s 4 else lo32 (quick68 4)) = 4"
    by (simp add: shift_count_def quick68_def)
  have "step68 null_env ?s = set_dreg 1 (merge_low (dreg ?s 1) (shift_val ASR68 4 (bit (sr ?s) 4) (dreg ?s 1)))
      (set_sr (shift_faults ASR68 LENGTH(32) 4 (shift_flags ASR68 4 (sr ?s) (dreg ?s 1)))
        (inl_addcycle68 null_env (of_nat (2 * 4)) (fetched ?s)))"
    by (rule shift_insn [OF _ _ _ f _ n]) simp_all
  then show ?thesis by (simp add: merge_long signed_drop_bit_word_numeral)
qed

text \<open>\<open>MULS\<close> and \<open>MULU\<close> between data registers: the 32-bit product of the low words, as
  signed or unsigned numbers, with the codes of the product.\<close>

theorem mul_insn:
  fixes a b :: u16
  assumes "m < 8" "n < 8" "fetches s (opcode 12 n (mul_row sg) 0 m)"
    and "a = ucast (dreg s m)" "b = ucast (dreg s n)"
    and "p = (if sg then scast b * scast a else ucast b * ucast a)"
  shows "step68 E s = set_dreg n p (set_sr (tst_sr (sr s) p) (fetched s))"
  using assms by (rule mul_step)

theorem mul_insn_witness:
  "dreg (step68 null_env (rom68 [0xC1, 0xC1] (\<lambda>i. 0xFFFF))) 0 = 1"
proof -
  let ?s = "rom68 [0xC1, 0xC1] (\<lambda>i. 0xFFFF)"
  have f: "fetches ?s (opcode 12 0 (mul_row True) 0 1)"
    by (rule rom68_fetches) (simp add: opcode_def mul_row_def)
  show ?thesis
    unfolding mul_insn [OF _ _ f refl refl refl, of null_env, simplified] by simp
qed

text \<open>C8. \<open>DIVS\<close> and \<open>DIVU\<close> between data registers, with a divisor other than zero: remainder
  and quotient of the truncated division in the high and low word when the quotient fits 16
  bits, the dividend unchanged and the overflow flag set when it does not.\<close>

theorem div_insn:
  fixes a :: u16 and b :: s32
  assumes "m < 8" "n < 8" "fetches s (opcode 8 n (mul_row sg) 0 m)"
    and "a = ucast (dreg s m)" "b = dreg s n" "a \<noteq> 0"
    and "q = (if sg then sint b sdiv sint a else uint b div uint a)"
    and "fits = (if sg then - (2 ^ 15) \<le> q \<and> q < 2 ^ 15 else q < 2 ^ 16)"
  shows "step68 E s =
    set_dreg n (if sg then divs_result a b else divu_result a b)
      (set_sr (div_sr (sr s) q (\<not> fits)) (fetched s))"
  using assms by (rule div_step)

theorem div_insn_witness:
  "dreg (step68 null_env (rom68 [0x80, 0xC1] (\<lambda>i. if i = 0 then 100007 else 10))) 0 = 0x72710"
proof -
  let ?s = "rom68 [0x80, 0xC1] (\<lambda>i. if i = 0 then 100007 else 10)"
  have f: "fetches ?s (opcode 8 0 (mul_row False) 0 1)"
    by (rule rom68_fetches) (simp add: opcode_def mul_row_def)
  have "step68 null_env ?s = set_dreg 0 (divu_result (ucast (dreg ?s 1)) (dreg ?s 0))
      (set_sr (div_sr (sr ?s) (uint (dreg ?s 0) div uint (ucast (dreg ?s 1) :: u16)) (\<not> True)) (fetched ?s))"
    using div_insn [OF _ _ f refl refl _ refl refl, of null_env] by simp
  then show ?thesis by (simp add: divu_result_def)
qed

text \<open>\<open>DIVS\<close> and \<open>DIVU\<close> by zero: the overflow and carry flags are cleared, exception 5
  is processed with the address of the next instruction, and the destination is written back
  with the value it had before.\<close>

theorem div_zero:
  assumes "m < 8" "n < 8" "fetches s (opcode 8 n (mul_row sg) 0 m)"
    and "(ucast (dreg s m) :: u16) = 0"
  shows "step68 E s = set_dreg n (dreg s n)
    (exception68 E DIVIDE_VECTOR (-1) (set_sr (sr s AND 0xFF10) (fetched s)))"
  using assms by (rule div_zero_step)

theorem div_zero_witness:
  "step68 null_env (rom68 [0x80, 0xC1] (\<lambda>i. 0)) =
    set_dreg 0 0 (exception68 null_env DIVIDE_VECTOR (-1)
      (set_sr (0x2700 AND 0xFF10) (fetched (rom68 [0x80, 0xC1] (\<lambda>i. 0)))))"
proof -
  let ?s = "rom68 [0x80, 0xC1] (\<lambda>i. 0)"
  have "fetches ?s (opcode 8 0 (mul_row False) 0 1)"
    by (rule rom68_fetches) (simp add: opcode_def mul_row_def)
  from div_zero [OF _ _ this, of null_env] show ?thesis by simp
qed

text \<open>\<open>MOVE\<close> from a data register to a data register in the three sizes.\<close>

theorem move_insn:
  fixes a :: "'a::len word"
  assumes "sized sz TYPE('a)" "m < 8" "n < 8"
    and "fetches s (opcode (move_line sz) n 0 0 m)" and "a = ucast (dreg s m)"
  shows "step68 E s =
    set_dreg n (merge_low (dreg s n) a) (set_sr (tst_sr (sr s) a) (fetched s))"
  using assms by (rule move_step)

theorem move_insn_witness:
  "sr (step68 null_env (rom68 [0x30, 0x01] (\<lambda>i. 0x18000))) = 0x2708"
proof -
  let ?s = "rom68 [0x30, 0x01] (\<lambda>i. 0x18000)"
  have f: "fetches ?s (opcode (move_line SzW) 0 0 0 1)"
    by (rule rom68_fetches) (simp add: opcode_def)
  have "step68 null_env ?s = set_dreg 0 (merge_low (dreg ?s 0) (ucast (dreg ?s 1) :: u16))
      (set_sr (tst_sr (sr ?s) (ucast (dreg ?s 1) :: u16)) (fetched ?s))"
    by (rule move_insn [OF _ _ _ f refl]) simp_all
  then show ?thesis by (simp add: tst_sr_def mk_ccr_def neg_w_def)
qed


section \<open>Execution\<close>

text \<open>C9. Without trace, one step decodes the big-endian opcode word at the program
  counter and calls the entry \<open>64 * line + bits 3 to 8\<close> of the dispatch table with the two
  register fields, after moving the program counter past the word; the index is always inside
  the 1024 entries of \<open>line_func\<close>.\<close>

theorem dispatch_in_table:
  assumes "fetches s w"
  shows "step68 E s = line_func E (64 * (w div 4096) + w div 8 mod 64) (w div 512 mod 8) (w mod 8) (fetched s) \<and>
    64 * (w div 4096) + w div 8 mod 64 < 1024"
proof -
  have "w < 65536"
    using assms byte_pair_bound by (auto simp: fetches_def opcode_at_def Let_def)
  then show ?thesis using step68_dispatch [OF assms] dispatch_bound by blast
qed

theorem dispatch_in_table_witness:
  "step68 null_env (rom68 [0x4E, 0x71] (\<lambda>i. 0)) = line_func null_env 270 7 1 (fetched (rom68 [0x4E, 0x71] (\<lambda>i. 0)))"
proof -
  have "fetches (rom68 [0x4E, 0x71] (\<lambda>i. 0)) 0x4E71" by (rule rom68_fetches) simp
  from dispatch_in_table [OF this, of null_env] show ?thesis by simp
qed

text \<open>C10. Whatever the instruction, and with any chips and handlers that keep the frame
  themselves, one step changes nothing of the host side of the emulator: the memory size, the
  plugged chips and the address map, the handlers, breakpoints and countdown, the bound of the
  error stack, and every byte of the allocation beyond three bytes past the onboard memory; and
  it keeps every invariant \<open>I\<close> of the chips that their bus handlers keep.\<close>

theorem step_in_frame:
  assumes "env_frame E I"
  shows "frame68 I s (step68 E s)"
  using env_frame.step_frame [OF assms frame68_refl] .

theorem step_in_frame_witness: "frame68 (\<lambda>_. True) (rom68 [] (\<lambda>i. 0)) (step68 null_env (rom68 [] (\<lambda>i. 0)))"
  by (rule step_in_frame [OF null_frame.env_frame_axioms])

text \<open>C11. A run with an instruction budget ends: if the chips keep the frame and the
  handler does not resume a run the countdown has stopped, \<open>emu68_finish\<close> returns for every
  budget other than 0 (no limit) and \<open>EMU68_CONT\<close>, provided the chips can move their cycle base
  (they only have to when the cycle counter is not 0), and the state it returns keeps the frame
  of a run.\<close>

theorem run_terminates:
  assumes "env_chips E I" "env_stops E I" "n \<noteq> 0" "n \<noteq> EMU68_CONT"
    and "u = s\<lparr>finish_sp := sx (areg s 7), frm_chk_fl := 0, instructions := n\<rparr>"
    and "cycle s = 0 \<or> adjust_chips E (iohead s) u \<noteq> None"
  shows "\<exists>t. emu68_finish E n s = Some t \<and> run68 I s t"
  using env_runs.finish_returns [OF env_runs.intro [OF assms(1,2)] assms(3-6)] .

theorem run_terminates_witness: "\<exists>t. emu68_finish null_env 1000 (rom68 [0x60, 0xFE] (\<lambda>i. 0)) = Some t"
  using run_terminates [OF null_chips.env_chips_axioms null_stops.env_stops_axioms _ _ refl,
      where n = 1000 and s = "rom68 [0x60, 0xFE] (\<lambda>i. 0)"]
  by (auto simp: EMU68_CONT_def rom68_def)

text \<open>The run loop returns the first state, after one or more controlled steps, in which
  the status is no longer normal or the stack pointer has risen above where the run began;
  with an instruction countdown it takes no more steps than the countdown.\<close>

theorem run_stops:
  assumes "env_stops E I" "instructions s \<noteq> 0"
  shows "\<exists>k<unat (instructions s). loop68 E s = Some ((controlled_step68 E ^^ Suc k) s) \<and>
    \<not> running68 ((controlled_step68 E ^^ Suc k) s)"
  using env_stops.loop_ends [OF assms] loop68_iterates by metis

theorem run_stops_witness: "\<exists>t. loop68 null_env ((rom68 [0x60, 0xFE] (\<lambda>i. 0))\<lparr>instructions := 5\<rparr>) = Some t \<and> \<not> running68 t"
  using run_stops [OF null_stops.env_stops_axioms, of "(rom68 [0x60, 0xFE] (\<lambda>i. 0))\<lparr>instructions := 5\<rparr>"]
  by auto

text \<open>C12. In every state reachable from a created emulator by calls of its
  interface, with chips that keep the frame: the memory size
  is a power of two between 64 KB and 16 MB and the mask fits it, at most four errors are
  stacked, the memory I/O is the access checking one exactly in debug mode, the chip list
  matches its counter, and every breakpoint address is inside the memory; and an invariant of the chips that their
  functions keep, and that held when the emulator was created, holds.  The calls are those of
  \<open>emu68.h\<close>, \<open>error68.h\<close> and \<open>ioplug68.h\<close> that change the emulator: running code step by step, to the
  end or up to a cycle, interrupts and exceptions, resets, the registers, handler, cycle counter
  and cookie, memory written and filled through the bus, by block copies and through the pointers
  handed out, pushes and pops of longs and words, breakpoints, access flags, messages added to and
  taken from the error stack, and plugging and unplugging chips.\<close>

theorem interface_invariant:
  assumes "env_chips E I" "emu68_reach E c s" "I c"
  shows "wf68 s \<and> I (chips s)"
  using env_chips.reach_wf [OF assms] .

theorem interface_invariant_witness:
  "\<exists>s. emu68_reach null_env () (s :: unit emu68) \<and> wf68 s \<and> chk s \<noteq> None"
proof -
  have "parms_ok \<lparr>p_log2mem = 16, p_clock = 0, p_debug = True\<rparr>" by (simp add: parms_ok_def)
  then obtain s :: "unit emu68" where s: "emu68_create null_env (Some \<lparr>p_log2mem = 16, p_clock = 0, p_debug = True\<rparr>)
      (\<lambda>_. Some (\<lambda>_. 0, \<lambda>_. 0)) () = Some s"
    using create_spec(1) [OF refl, of null_env "Some \<lparr>p_log2mem = 16, p_clock = 0, p_debug = True\<rparr>" "\<lambda>_. Some (\<lambda>_. 0, \<lambda>_. 0)" "()"]
    by auto
  define t where "t = emu68_set_cycle 7 s"
  have r: "emu68_reach null_env () t"
    unfolding t_def by (rule reach_call [OF reach_create [OF s] call_set_cycle])
  have "chk t \<noteq> None" using create_spec(2) [OF refl s] by (simp add: t_def emu68_set_cycle_def)
  with r interface_invariant [OF null_chips.env_chips_axioms [of "\<lambda>_. True"] r] show ?thesis by blast
qed

text \<open>C13. \<open>emu68_create\<close> fails exactly when a parameter is out of range (memory outside 2 to
  the power 16 to 24, clock outside 500 KHz to 60 MHz; 0 stands for the default of either), or
  when the memory cannot be allocated, twice its size in debug mode; and
  otherwise returns a well formed, reset emulator: supervisor mode, program counter 0, stack
  at the end of the memory, no chip, no handler, no breakpoint, cleared registers.  Two of the bounds
  are not those of \<open>emu68.h\<close>, which documents the powers 17 to 24 and a default of 512 KB: the code
  accepts the power 16, and its default is the power 20, 1 MB.\<close>

theorem create_ok:
  assumes "p = (case parms of Some p \<Rightarrow> p | None \<Rightarrow> def_parms)"
  shows "(emu68_create E parms alloc c = None \<longleftrightarrow> \<not> parms_ok p \<or> alloc (parms_bytes p) = None) \<and>
    (\<forall>s. emu68_create E parms alloc c = Some s \<longrightarrow>
      wf68 s \<and> log2mem s = parms_log2 p \<and> (chk s \<noteq> None \<longleftrightarrow> p_debug p) \<and> status s = EMU68_NRM \<and>
      pc s = 0 \<and> sr s = 0x2700 \<and> areg s 7 = lo32 (memmsk s - 3) \<and> iohead s = [] \<and> handler s = None \<and>
      (\<forall>i<15. dreg s i = 0) \<and> (\<forall>bid. breakpoints s bid = no_bp) \<and> chips s = c)"
  by (intro conjI allI impI create_spec(1) [OF assms]) (drule create_spec(2) [OF assms], blast)+

theorem create_ok_witness:
  "emu68_create null_env (Some \<lparr>p_log2mem = 25, p_clock = 0, p_debug = False\<rparr>) (\<lambda>_. Some (\<lambda>_. 0, \<lambda>_. 0)) () = None \<and>
   emu68_create null_env (Some \<lparr>p_log2mem = 16, p_clock = 0, p_debug = True\<rparr>)
     (\<lambda>size. if size = 0x20000 then Some (\<lambda>_. 0, \<lambda>_. 0) else None) () \<noteq> None"
  using create_ok [OF refl, of null_env "Some \<lparr>p_log2mem = 25, p_clock = 0, p_debug = False\<rparr>"
      "\<lambda>_. Some (\<lambda>_. 0, \<lambda>_. 0)" "()", THEN conjunct1]
    create_ok [OF refl, of null_env "Some \<lparr>p_log2mem = 16, p_clock = 0, p_debug = True\<rparr>"
      "\<lambda>size. if size = 0x20000 then Some (\<lambda>_. 0, \<lambda>_. 0) else None" "()", THEN conjunct1]
  by (simp add: parms_ok_def parms_bytes_def parms_log2_def)

text \<open>C14. A bus or address error while an exception is being processed halts the
  emulator, with the double fault recorded as the newest error, and touches neither the memory
  nor the registers.\<close>

theorem double_fault_halts:
  assumes "status s = EMU68_XCT" "v = BUSERR_VECTOR \<or> v = ADRERR_VECTOR" "handler s = None"
  shows "status (exception68 E v level s) = EMU68_HLT \<and>
    fst (emu68_error_get (exception68 E v level s)) = Some (DoubleFault (inst_pc s) v) \<and>
    mem (exception68 E v level s) = mem s \<and> pc (exception68 E v level s) = pc s \<and>
    dreg (exception68 E v level s) = dreg s"
  using double_fault [OF assms] by blast

theorem double_fault_halts_witness:
  "status (exception68 null_env BUSERR_VECTOR (-1) ((rom68 [] (\<lambda>i. 0))\<lparr>status := EMU68_XCT\<rparr>)) = EMU68_HLT"
  using double_fault_halts [of "(rom68 [] (\<lambda>i. 0))\<lparr>status := EMU68_XCT\<rparr>" BUSERR_VECTOR] by simp

text \<open>C15. Onboard memory as the processor sees it, with and without access checking: a
  write changes only the bytes of its size from its address on, a read returns what was last
  written there truncated to the size, and accesses to disjoint ranges do not interfere.\<close>

theorem memory_cells:
  assumes "ram_at s a"
  shows "fst (read68 E sz a (write68 E sz a v s)) = trunc68 sz v \<and>
    (\<forall>j. mem_index s a \<le> j \<and> j < mem_index s a + bytes68 sz \<or> mem (write68 E sz a v s) j = mem s j) \<and>
    (\<forall>b sz'. \<not> ram_at s b \<or> mem_index s a < mem_index s b + bytes68 sz' \<and> mem_index s b < mem_index s a + bytes68 sz \<or>
      fst (read68 E sz' b (write68 E sz a v s)) = fst (read68 E sz' b s)) \<and>
    reg (write68 E sz a v s) = reg s"
proof -
  note w = write68_ram [OF assms, of E sz v]
  have "fst (read68 E sz' b (write68 E sz a v s)) = fst (read68 E sz' b s)"
    if b: "ram_at s b" and d: "\<not> (mem_index s a < mem_index s b + bytes68 sz' \<and> mem_index s b < mem_index s a + bytes68 sz)" for b sz'
  proof -
    have b': "ram_at (write68 E sz a v s) b" using b w by (simp add: ram_at_def)
    have i: "mem_index (write68 E sz a v s) b = mem_index s b" using w by (simp add: mem_index_def)
    have "mem_index s b + bytes68 sz' \<le> mem_index s a \<or> mem_index s a + bytes68 sz \<le> mem_index s b"
      using d by linarith
    then show ?thesis
      unfolding read68_ram(1) [OF b'] read68_ram(1) [OF b] i w(1) by (simp add: ram_get_put_other)
  qed
  moreover have "mem (write68 E sz a v s) j = mem s j" if "\<not> (mem_index s a \<le> j \<and> j < mem_index s a + bytes68 sz)" for j
    unfolding w(1) using that by (intro ram_put_other) auto
  ultimately show ?thesis using read_after_write [OF assms] w(2) by blast
qed

theorem memory_cells_witness:
  "fst (read68 null_env SzL 0x1000 (write68 null_env SzL 0x1000 0x123456789 (rom68 [] (\<lambda>i. 0)))) = 0x23456789"
  using memory_cells [of "rom68 [] (\<lambda>i. 0)" "0x1000", THEN conjunct1] by (simp add: ram_at_def mem68_is_io_def)


section \<open>The interface\<close>

text \<open>C16. A breakpoint set in debug mode with a count \<open>n\<close> other than 0 tags exactly the
  access control byte of its address, keeping the access bits of that byte; the run loop finds
  it there again; its first \<open>n - 1\<close> visits only count down, and the \<open>n\<close>-th raises the vector of
  the breakpoint, with the count reloaded, or the tag removed when there is nothing to reload.\<close>

theorem breakpoint_counts:
  assumes "b < 31" "chk s = Some c" "n \<noteq> 0"
    and "t = snd (emu68_bp_set (int b) addr n r s)" and "a = addr AND memmsk s"
  shows "bp_of_tag (the (chk t) (mem_index s addr)) = int b \<and>
    the (chk t) (mem_index s addr) AND EMU68_A = c (mem_index s addr) AND EMU68_A \<and>
    (\<forall>i. i = mem_index s addr \<or> the (chk t) i = c i) \<and>
    (\<forall>k<unat n. (hw_break68 E a b ^^ k) t =
      put_bp b \<lparr>bp_addr = a, bp_count = n - of_nat k, bp_reset = r\<rparr> t) \<and>
    (hw_break68 E a b ^^ unat n) t =
      exception68 E (HWBREAK_VECTOR + b) (-1)
        (let u = put_bp b \<lparr>bp_addr = a, bp_count = r, bp_reset = r\<rparr> t
         in if r = 0 then chk_untag a u else u)"
  using bp_set_tag [OF assms(1,2,4)] bp_countdown [OF assms] by blast

theorem breakpoint_counts_witness:
  "bp_count (breakpoints (hw_break68 null_env 0x100 3
     (snd (emu68_bp_set (int 3) 0x100 2 0 ((rom68 [] (\<lambda>i. 0))\<lparr>chk := Some (\<lambda>_. 0)\<rparr>)))) 3) = 1"
  using breakpoint_counts [where b = 3 and s = "(rom68 [] (\<lambda>i. 0))\<lparr>chk := Some (\<lambda>_. 0)\<rparr>" and n = 2
      and addr = "0x100" and r = 0 and E = null_env, OF _ _ _ refl refl,
      THEN conjunct2, THEN conjunct2, THEN conjunct2, THEN conjunct1, THEN spec [of _ 1]]
  by simp

text \<open>\<open>emu68_bp_set\<close> with no preferred slot takes a free one when there is one and
  fails otherwise, and \<open>emu68_bp_find\<close> returns an active breakpoint on the address asked for,
  and nothing exactly when there is none.\<close>

theorem breakpoint_lookup:
  shows "(fst (emu68_bp_set (-1) addr n r s) = -1 \<longleftrightarrow> \<not> (\<exists>bid<31. free_bp s bid)) \<and>
    (\<forall>i. fst (emu68_bp_set (-1) addr n r s) = int i \<longrightarrow> i < 31 \<and> free_bp s i) \<and>
    (emu68_bp_find a s = -1 \<longleftrightarrow>
      (\<forall>i<31. free_bp s i \<or> (bp_addr (breakpoints s i) XOR a) AND memmsk s \<noteq> 0)) \<and>
    (\<forall>i. emu68_bp_find a s = int i \<longrightarrow>
      i < 31 \<and> \<not> free_bp s i \<and> (bp_addr (breakpoints s i) XOR a) AND memmsk s = 0)"
proof -
  have f: "fst (emu68_bp_set (-1) addr n r s) = (if valid_bp (bp_search s) then bp_search s else -1)"
    by (simp add: emu68_bp_set_def Let_def)
  have "0 \<le> bp_search s" by (simp add: bp_search_def)
  then have "fst (emu68_bp_set (-1) addr n r s) = -1 \<longleftrightarrow> \<not> (\<exists>bid<31. free_bp s bid)"
    unfolding f bp_search_valid [symmetric] by (auto simp: valid_bp_def)
  moreover have "i < 31 \<and> free_bp s i" if "fst (emu68_bp_set (-1) addr n r s) = int i" for i
    using that bp_search_free [of s] unfolding f by (auto simp: valid_bp_def split: if_splits)
  ultimately show ?thesis
    using bp_find_none [of a s] bp_find_found [of a s] by blast
qed

theorem breakpoint_lookup_witness:
  "emu68_bp_find 0x100 (rom68 [] (\<lambda>i. 0)) = -1"
  using breakpoint_lookup [of 0 0 0 "rom68 [] (\<lambda>i. 0)" "0x100", THEN conjunct2, THEN conjunct2, THEN conjunct1]
  by (simp add: free_bp_def rom68_def no_bp_def)

text \<open>C17. A block put into the onboard memory by \<open>emu68_memput\<close> is inside it, is what
  \<open>emu68_memget\<close> returns from there, and changes no other byte; a range that leaves the memory,
  also one whose end wraps around, is refused with an error recorded and nothing copied.\<close>

theorem memput_memget:
  assumes "unat sz \<le> length src"
  shows "if onboard_range dst sz s then
      (\<exists>t. emu68_memput dst src sz s = (0, t) \<and>
        emu68_memget dst sz t = (0, Some (take (unat sz) src), t) \<and>
        (\<forall>i. unat dst \<le> i \<and> i < unat dst + unat sz \<or> mem t i = mem s i))
    else emu68_memput dst src sz s = (-1, emu68_error_add (InvalidRange dst (dst + sz) (memmsk s + 1)) s)"
proof (cases "onboard_range dst sz s")
  case True
  then have p: "emu68_memput dst src sz s = (0, s\<lparr>mem := blit (take (unat sz) src) (unat dst) (mem s)\<rparr>)"
    by (simp add: memput_range)
  from memget_after_memput [OF p assms] True p show ?thesis by (force simp: not_less)
next
  case False
  then show ?thesis by (simp add: memput_range)
qed

theorem memput_memget_witness:
  "fst (emu68_memput 0xFFFF [1, 2] 2 (rom68 [] (\<lambda>i. 0))) = -1"
  using memput_memget [of 2 "[1, 2]" "0xFFFF" "rom68 [] (\<lambda>i. 0)"] by (simp add: onboard_range_def)

text \<open>\<open>emu68_set_registers\<close> then \<open>emu68_get_registers\<close> with the same mask: the masked
  registers come back as given, the caller's others are kept, and the emulator's registers
  outside the mask did not change.\<close>

theorem registers_masked:
  "emu68_get_registers (emu68_set_registers r msk s) msk r' =
      \<lparr>reg_d = (\<lambda>i. if i < 16 \<and> reg_in msk i then reg_d r i else reg_d r' i),
       reg_usp = (if reg_in msk 16 then reg_usp r else reg_usp r'),
       reg_pc = (if reg_in msk 17 then reg_pc r else reg_pc r'),
       reg_sr = (if reg_in msk 18 then reg_sr r else reg_sr r')\<rparr> \<and>
    (\<forall>i. i < 16 \<and> reg_in msk i \<or> dreg (emu68_set_registers r msk s) i = dreg s i) \<and>
    mem (emu68_set_registers r msk s) = mem s"
  unfolding get_registers_eq set_registers_eq by (auto simp: fun_eq_iff intro!: reg68.equality)

theorem registers_masked_witness:
  "reg_pc (emu68_get_registers (emu68_set_registers \<lparr>reg_d = (\<lambda>_. 0), reg_usp = 0, reg_pc = 0x400, reg_sr = 0\<rparr> 0x20000
     (rom68 [] (\<lambda>i. 0))) 0x20000 \<lparr>reg_d = (\<lambda>_. 0), reg_usp = 0, reg_pc = 0, reg_sr = 0\<rparr>) = 0x400"
  unfolding registers_masked [THEN conjunct1] by (simp add: reg_in_def)

text \<open>The machine checksum: two machines of the same memory size and registers whose
  memories differ in exactly one byte have different checksums.\<close>

theorem checksum_detects:
  assumes "reg t = reg s" "memmsk t = memmsk s" "mem t = (mem s)(i := b)" "b \<noteq> mem s i"
    and "i < unat (memmsk s + 1)"
  shows "emu68_crc32 t \<noteq> emu68_crc32 s"
proof -
  let ?n = "unat (memmsk s + 1)" and ?c = "crc32b 0xFFFFFFFF (crc_regs (reg s))"
  have split: "map f [0..<?n] = map f [0..<i] @ f i # map f [Suc i..<?n]" for f :: "nat \<Rightarrow> u8"
  proof -
    have "[0..<?n] = [0..<i] @ i # [Suc i..<?n]"
      using assms(5) upt_add_eq_append [of 0 i "?n - i"] by (simp add: upt_conv_Cons)
    then show ?thesis by simp
  qed
  have "map (mem t) [0..<?n] = map (mem s) [0..<i] @ b # map (mem s) [Suc i..<?n]"
    unfolding assms(3) split [of "(mem s)(i := b)"] by simp
  then have "crc32b ?c (map (mem t) [0..<?n]) \<noteq> crc32b ?c (map (mem s) [0..<?n])"
    using crc32b_one_byte [OF assms(4)] by (simp add: split [of "mem s"])
  moreover have "(ucast (x :: u32) :: int68) = ucast y \<Longrightarrow> x = y" for x y
    by (drule arg_cong [where f = "ucast :: int68 \<Rightarrow> u32"]) simp
  ultimately show ?thesis by (auto simp: emu68_crc32_def assms(1,2))
qed

theorem checksum_detects_witness:
  "emu68_crc32 (snd (emu68_poke 0x10 1 (rom68 [] (\<lambda>i. 0)))) \<noteq> emu68_crc32 (rom68 [] (\<lambda>i. 0))"
  by (rule checksum_detects [where i = 16 and b = 1]) (simp_all add: emu68_poke_def mem_index_def)

text \<open>The error stack keeps the newest four messages: adding drops the oldest when the
  stack is full, and what is popped next is what was added last.\<close>

theorem error_stack:
  assumes "length (err s) \<le> 4"
  shows "err (emu68_error_add m s) = drop (length (err s) - 3) (err s) @ [m] \<and>
    length (err (emu68_error_add m s)) \<le> 4 \<and>
    emu68_error_get (emu68_error_add m s) = (Some m, s\<lparr>err := drop (length (err s) - 3) (err s)\<rparr>)"
proof -
  have "length (err s) = 4 \<or> length (err s) - 3 = 0" using assms by linarith
  then have e: "err (emu68_error_add m s) = drop (length (err s) - 3) (err s) @ [m]"
    using assms by (auto simp: emu68_error_add_def MAXERROR_def drop_Suc)
  then show ?thesis
    using assms by (auto simp: emu68_error_get_def) (simp add: emu68_error_add_def)
qed

theorem error_stack_witness:
  "err (emu68_error_add (DoubleFault 0 2) (rom68 [] (\<lambda>i. 0))) = [DoubleFault 0 2]"
  using error_stack [of "rom68 [] (\<lambda>i. 0)" "DoubleFault 0 2"] by (simp add: rom68_def)

text \<open>C18. Plugging a chip that is not plugged puts it in front of the list; every processor
  access in its address areas is then the chip's, and the other areas are served as before.
  Unplugging it again leaves the list and the counter as they were.  The fault: \<open>ioplug68.h\<close> says
  that the memory access handler of its area is reset, and so it is for the area of its low
  address; the other areas of the chip still go to it.\<close>

theorem ioplug_serves:
  assumes "i \<notin> set (iohead s)"
  shows "\<exists>t. emu68_ioplug E i s = Some t \<and> iohead t = i # iohead s \<and> nio t = nio s + 1 \<and>
    (\<forall>a sz. mem68_is_io a \<longrightarrow> io_area a \<in> set (io_areas (ios E i)) \<longrightarrow>
      mem68_read E sz (t\<lparr>bus_addr := a\<rparr>) = io_read (ios E i) sz (t\<lparr>bus_addr := a\<rparr>) \<and>
      mem68_write E sz (t\<lparr>bus_addr := a\<rparr>) = io_write (ios E i) sz (t\<lparr>bus_addr := a\<rparr>)) \<and>
    (\<forall>k. k \<in> set (io_areas (ios E i)) \<or> mapped_io t k = mapped_io s k) \<and>
    emu68_ioplug_unplug E (Some i) t =
      (0, s\<lparr>mapped_io := (\<lambda>a. if a = io_area (addr_lo (ios E i))
        then (if chk s \<noteq> None then ErrIO else NopIO)
        else if a \<in> set (io_areas (ios E i)) then Plug i else mapped_io s a)\<rparr>)"
proof -
  obtain t where t: "emu68_ioplug E i s = Some t" using assms by (auto simp: ioplug_eq)
  then have "iohead t = i # iohead s" "nio t = nio s + 1"
    "k \<in> set (io_areas (ios E i)) \<or> mapped_io t k = mapped_io s k" for k
    using assms by (auto simp: ioplug_eq split: if_splits)
  then show ?thesis
    using t ioplug_routes [OF t] ioplug_unplug_eq [OF t] by (intro exI [of _ t] conjI allI impI) blast+
qed

theorem ioplug_serves_witness:
  "\<exists>t. emu68_ioplug null_env 0 (rom68 [] (\<lambda>i. 0)) = Some t \<and>
    mem68_read null_env SzB (t\<lparr>bus_addr := 0x800000\<rparr>) = t\<lparr>bus_addr := 0x800000\<rparr>"
proof -
  have "mem68_is_io 0x800000" by (simp add: mem68_is_io_def)
  moreover have "io_area 0x800000 \<in> set (io_areas (ios null_env 0))"
    by (simp add: io_areas_def null_env_def null_io_def io_area_def)
  moreover have "0 \<notin> set (iohead (rom68 [] (\<lambda>i. 0)))" by (simp add: rom68_def)
  ultimately have "\<exists>t. emu68_ioplug null_env 0 (rom68 [] (\<lambda>i. 0)) = Some t \<and>
      mem68_read null_env SzB (t\<lparr>bus_addr := 0x800000\<rparr>) = io_read (ios null_env 0) SzB (t\<lparr>bus_addr := 0x800000\<rparr>)"
    using ioplug_serves by blast
  then show ?thesis by (simp add: null_env_def null_io_def)
qed

end
